(* ===== verification/Prelude.thy ===== *)
theory Prelude
  imports Complex_Main "HOL-Library.AList"
begin

text \<open>
  Shared vocabulary of the development.

  \<^item> Python exceptions are values of \<open>exn\<close>; a call that may raise has type \<open>'a res\<close>, with
    \<open>Inl\<close> for the exception. \<open>sbind\<close> sequences such calls.
  \<^item> Python floats are \<open>flt\<close>: the finite ones as the real number they denote, and the two
    infinities and NaN apart. Where the source never sees a non-finite float, or rejects it
    first, components compute on \<open>real\<close> directly. Rounding of float arithmetic is not modelled.
  \<^item> Python's \<open>round\<close> is round-half-to-even, \<open>py_round\<close>.
  \<^item> A dict whose insertion order matters is an association list updated with \<open>AList.update\<close>,
    which overwrites in place and appends a new key at the end, as a dict does.
  \<^item> Three locales state the contract every stateful component discharges: an invariant kept by
    each operation (\<open>step_machine\<close>), or kept while the environment meets a condition
    (\<open>guarded_machine\<close>), and a quantity each operation conserves (\<open>ledger\<close>).
\<close>

named_theorems inv_defs \<open>definitions of the component invariants\<close>
named_theorems op_defs \<open>definitions of the component operations\<close>

section \<open>Exceptions as values\<close>

datatype exn =
    TypeError | ValueError | KeyError | IndexError | AttributeError | OverflowError | OSError | EOFError
  | DecodeError | ConfigError | PacketError | SessionError | PlanError | WebSocketError
  | RuntimeError | PsycopgError | PlanUnavailable | SessionPersistenceError | ShapeError

type_synonym 'a res = "exn + 'a"

fun sbind :: "'e + 'a \<Rightarrow> ('a \<Rightarrow> 'e + 'b) \<Rightarrow> 'e + 'b" where
  "sbind (Inl e) f = Inl e"
| "sbind (Inr x) f = f x"

lemma sbind_Inr_iff: "sbind m f = Inr y \<longleftrightarrow> (\<exists>x. m = Inr x \<and> f x = Inr y)"
  by (cases m) auto

lemma sbind_Inl_iff:
  "sbind m f = Inl e \<longleftrightarrow> m = Inl e \<or> (\<exists>x. m = Inr x \<and> f x = Inl e)"
  by (cases m) auto

text \<open>A \<open>for\<close> loop whose body may raise: the first exception ends it.\<close>

fun mapE :: "('a \<Rightarrow> 'e + 'b) \<Rightarrow> 'a list \<Rightarrow> 'e + 'b list" where
  "mapE f [] = Inr []"
| "mapE f (x # xs) = sbind (f x) (\<lambda>y. sbind (mapE f xs) (\<lambda>ys. Inr (y # ys)))"

lemma mapE_Inr_length: "mapE f xs = Inr ys \<Longrightarrow> length ys = length xs"
  by (induction xs arbitrary: ys) (auto simp: sbind_Inr_iff)

lemma mapE_Inr_all2: "mapE f xs = Inr ys \<Longrightarrow> list_all2 (\<lambda>x y. f x = Inr y) xs ys"
  by (induction xs arbitrary: ys) (auto simp: sbind_Inr_iff)

lemma mapE_InlE: "mapE f xs = Inl e \<Longrightarrow> \<exists>x \<in> set xs. f x = Inl e"
  by (induction xs) (auto simp: sbind_Inl_iff)

lemma mapE_total: "(\<And>x. x \<in> set xs \<Longrightarrow> f x = Inr (g x)) \<Longrightarrow> mapE f xs = Inr (map g xs)"
  by (induction xs) auto

section \<open>Floats\<close>

datatype flt = Fin real | PInf | NInf | NaN

fun isfinite :: "flt \<Rightarrow> bool" where
  "isfinite (Fin x) = True"
| "isfinite _ = False"

definition py_round :: "real \<Rightarrow> int" where
  "py_round x =
     (let f = \<lfloor>x\<rfloor>; d = x - of_int f
      in if d < 1 / 2 then f else if d > 1 / 2 then f + 1 else if even f then f else f + 1)"

definition py_round_digits :: "real \<Rightarrow> nat \<Rightarrow> real" where
  "py_round_digits x n = of_int (py_round (x * 10 ^ n)) / 10 ^ n"

lemma py_round_error: "\<bar>of_int (py_round x) - x\<bar> \<le> 1 / 2"
proof -
  have "of_int \<lfloor>x\<rfloor> \<le> x" "x < of_int \<lfloor>x\<rfloor> + 1" by linarith+
  then show ?thesis by (simp add: py_round_def Let_def abs_if) linarith
qed

lemma py_round_of_int [simp]: "py_round (of_int k) = k"
  by (simp add: py_round_def)

lemma py_round_between: "\<lfloor>x\<rfloor> \<le> py_round x \<and> py_round x \<le> \<lfloor>x\<rfloor> + 1"
  by (auto simp: py_round_def Let_def)

lemma py_round_mono:
  assumes "x \<le> y" shows "py_round x \<le> py_round y"
proof (cases "\<lfloor>x\<rfloor> = \<lfloor>y\<rfloor>")
  case True
  with assms show ?thesis by (auto simp: py_round_def Let_def)
next
  case False
  with assms have "\<lfloor>x\<rfloor> + 1 \<le> \<lfloor>y\<rfloor>" using floor_mono by force
  with py_round_between[of x] py_round_between[of y] show ?thesis by linarith
qed

lemma py_round_nonneg: "0 \<le> x \<Longrightarrow> 0 \<le> py_round x"
  using py_round_mono[of 0 x] py_round_of_int[of 0] by simp

lemma py_round_strict: "x + 1 < y \<Longrightarrow> py_round x < py_round y"
  using py_round_error[of x] py_round_error[of y] by linarith

lemma py_round_digits_error: "\<bar>py_round_digits x n - x\<bar> \<le> 1 / (2 * 10 ^ n)"
proof -
  have "\<bar>of_int (py_round (x * 10 ^ n)) - x * 10 ^ n\<bar> \<le> 1 / 2" by (rule py_round_error)
  then have "\<bar>(of_int (py_round (x * 10 ^ n)) - x * 10 ^ n) / 10 ^ n\<bar> \<le> (1 / 2) / 10 ^ n"
    using divide_right_mono[of _ "1 / 2" "(10::real) ^ n"] by (simp only: abs_divide) simp
  then show ?thesis by (simp add: py_round_digits_def diff_divide_distrib)
qed

lemma py_round_digits_mono: "x \<le> y \<Longrightarrow> py_round_digits x n \<le> py_round_digits y n"
  unfolding py_round_digits_def
  by (intro divide_right_mono) (auto intro!: py_round_mono mult_right_mono)

lemma py_round_digits_nonneg: "0 \<le> x \<Longrightarrow> 0 \<le> py_round_digits x n"
  by (simp add: py_round_digits_def py_round_nonneg)

section \<open>Lists of measurements\<close>

text \<open>\<open>statistics.median\<close> of a non-empty list, and the slice \<open>xs[-n:]\<close>.\<close>

definition median :: "real list \<Rightarrow> real" where
  "median xs = (let ys = sort xs; n = length ys
     in if odd n then ys ! (n div 2) else (ys ! (n div 2 - 1) + ys ! (n div 2)) / 2)"

definition last_n :: "nat \<Rightarrow> 'a list \<Rightarrow> 'a list" where
  "last_n n xs = drop (length xs - n) xs"

lemma last_n_props:
  "length (last_n n xs) \<le> n" "length xs \<le> n \<Longrightarrow> last_n n xs = xs" "xs \<noteq> [] \<Longrightarrow> 0 < n \<Longrightarrow> last (last_n n xs) = last xs"
  "xs \<noteq> [] \<Longrightarrow> 0 < n \<Longrightarrow> last_n n xs \<noteq> []"
proof -
  have lt: "length xs - n < length xs" if "xs \<noteq> []" "0 < n" using that by (cases xs) auto
  show "length (last_n n xs) \<le> n" "length xs \<le> n \<Longrightarrow> last_n n xs = xs" by (auto simp: last_n_def)
  assume a: "xs \<noteq> []" "0 < n"
  then show "last (last_n n xs) = last xs" "last_n n xs \<noteq> []" using lt[OF a] unfolding last_n_def by (simp_all only: last_drop drop_eq_Nil not_le)
qed

lemma set_last_n: "set (last_n n xs) \<subseteq> set xs"
  by (simp add: last_n_def set_drop_subset)

section \<open>Dictionaries\<close>

lemma map_of_update: "map_of (AList.update k v al) = (map_of al)(k \<mapsto> v)"
  by (rule update_conv')

lemma distinct_update [simp]: "distinct (map fst al) \<Longrightarrow> distinct (map fst (AList.update k v al))"
  by (rule distinct_update)

lemma length_update_le: "length (AList.update k v al) \<le> Suc (length al)"
  by (induction al) auto

lemma length_update_mem: "k \<in> fst ` set al \<Longrightarrow> length (AList.update k v al) = length al"
  by (induction al) auto

lemma set_update_subset: "set (AList.update k v al) \<subseteq> insert (k, v) (set al)"
  by (induction al) auto

lemma update_fresh: "k \<notin> fst ` set al \<Longrightarrow> AList.update k v al = al @ [(k, v)]"
  by (induction al) auto

section \<open>Folds\<close>

lemma fold_keeps: "(\<And>x s. f (g x s) = f s) \<Longrightarrow> f (fold g xs s) = f s"
  by (induction xs arbitrary: s) simp_all

section \<open>Contracts of stateful components\<close>

text \<open>Every event of a run meets a condition in the state it finds.\<close>

fun guarded_run :: "('e \<Rightarrow> 's \<Rightarrow> bool) \<Rightarrow> ('e \<Rightarrow> 's \<Rightarrow> 's) \<Rightarrow> 'e list \<Rightarrow> 's \<Rightarrow> bool" where
  "guarded_run guard step [] s = True"
| "guarded_run guard step (e # es) s = (guard e s \<and> guarded_run guard step es (step e s))"

text \<open>An operation keeps an invariant as long as its environment keeps its side of the contract.\<close>

locale guarded_machine =
  fixes step :: "'e \<Rightarrow> 's \<Rightarrow> 's" and guard :: "'e \<Rightarrow> 's \<Rightarrow> bool" and inv :: "'s \<Rightarrow> bool"
  assumes guarded_inv: "inv s \<Longrightarrow> guard e s \<Longrightarrow> inv (step e s)"
begin

lemma guarded_run_inv: "inv s \<Longrightarrow> guarded_run guard step es s \<Longrightarrow> inv (fold step es s)"
  by (induction es arbitrary: s) (auto intro: guarded_inv)

end

text \<open>An operation keeps an invariant, so every sequence of operations keeps it.\<close>

locale step_machine =
  fixes step :: "'e \<Rightarrow> 's \<Rightarrow> 's" and inv :: "'s \<Rightarrow> bool"
  assumes step_inv: "inv s \<Longrightarrow> inv (step e s)"
begin

lemma run_inv: "inv s \<Longrightarrow> inv (fold step es s)"
  by (induction es arbitrary: s) (auto intro: step_inv)

lemma run_prefix_inv: "inv s \<Longrightarrow> inv (fold step (take n es) s)"
  by (rule run_inv)

end

text \<open>
  A component that accounts for what passes through it: \<open>cost\<close> is what an operation brings in,
  \<open>held\<close> what the state answers for (delivered, shed and still held together).
\<close>

locale ledger = step_machine step inv
  for step :: "'e \<Rightarrow> 's \<Rightarrow> 's" and inv :: "'s \<Rightarrow> bool" +
  fixes held :: "'s \<Rightarrow> nat" and cost :: "'e \<Rightarrow> nat"
  assumes step_held: "inv s \<Longrightarrow> held (step e s) = held s + cost e"
begin

lemma run_held: "inv s \<Longrightarrow> held (fold step es s) = held s + sum_list (map cost es)"
  by (induction es arbitrary: s) (auto simp: step_held step_inv)

end

end
