(* ===== verification/Sample_Queue.thy ===== *)
theory Sample_Queue
  imports Prelude "HOL-Library.Sublist"
begin

text \<open>
  \<^verbatim>\<open>src/agent/queues.py\<close>: the bounded queue from one collector thread to the pipeline thread. Every
  method runs under the queue's lock, so concurrent callers are some sequence of whole \<open>put\<close>
  and \<open>drain\<close> calls; \<open>queue_step\<close> runs one such call and logs what a drain returned.
\<close>

record 'a sample_queue =
  sq_maxlen :: int
  sq_queue :: "'a list"
  sq_dropped :: nat

definition queue_init :: "int \<Rightarrow> 'a sample_queue res" where
  "queue_init maxlen =
     (if maxlen \<le> 0 then Inl ValueError
      else Inr \<lparr>sq_maxlen = maxlen, sq_queue = [], sq_dropped = 0\<rparr>)"

definition put :: "'a \<Rightarrow> 'a sample_queue \<Rightarrow> 'a sample_queue" where
  "put x q =
     (let q' = (if int (length (sq_queue q)) \<ge> sq_maxlen q
                then q\<lparr>sq_queue := tl (sq_queue q), sq_dropped := sq_dropped q + 1\<rparr> else q)
      in q'\<lparr>sq_queue := sq_queue q' @ [x]\<rparr>)"

definition drain :: "'a sample_queue \<Rightarrow> 'a list \<times> 'a sample_queue" where
  "drain q = (if sq_queue q = [] then ([], q) else (sq_queue q, q\<lparr>sq_queue := []\<rparr>))"

lemmas queue_op_defs [op_defs] = queue_init_def put_def drain_def

section \<open>Runs of the two threads\<close>

datatype 'a queue_op = Put 'a | Drain

record 'a queue_run =
  qr_queue :: "'a sample_queue"
  qr_delivered :: "'a list"

fun queue_step :: "'a queue_op \<Rightarrow> 'a queue_run \<Rightarrow> 'a queue_run" where
  "queue_step (Put x) r = r\<lparr>qr_queue := put x (qr_queue r)\<rparr>"
| "queue_step Drain r =
     (let (xs, q) = drain (qr_queue r)
      in r\<lparr>qr_queue := q, qr_delivered := qr_delivered r @ xs\<rparr>)"

fun puts_of :: "'a queue_op list \<Rightarrow> 'a list" where
  "puts_of [] = []"
| "puts_of (Put x # ops) = x # puts_of ops"
| "puts_of (Drain # ops) = puts_of ops"

definition queue_inv :: "'a queue_run \<Rightarrow> bool" where
  [inv_defs]: "queue_inv r \<longleftrightarrow>
     0 < sq_maxlen (qr_queue r) \<and> int (length (sq_queue (qr_queue r))) \<le> sq_maxlen (qr_queue r)"

definition queue_held :: "'a queue_run \<Rightarrow> nat" where
  "queue_held r = length (qr_delivered r) + length (sq_queue (qr_queue r)) + sq_dropped (qr_queue r)"

fun queue_cost :: "'a queue_op \<Rightarrow> nat" where
  "queue_cost (Put x) = 1"
| "queue_cost Drain = 0"

lemma sum_queue_cost: "sum_list (map queue_cost ops) = length (puts_of ops)"
  by (induction ops rule: puts_of.induct) auto

interpretation sq: ledger queue_step queue_inv queue_held queue_cost
proof
  fix e :: "'a queue_op" and s :: "'a queue_run"
  assume inv: "queue_inv s"
  show "queue_inv (queue_step e s)"
    using inv by (cases e) (auto simp: queue_inv_def op_defs Let_def)
  show "queue_held (queue_step e s) = queue_held s + queue_cost e"
    using inv by (cases e) (auto simp: queue_inv_def queue_held_def op_defs Let_def)
qed

definition queue_start :: "int \<Rightarrow> 'a queue_run" where
  "queue_start n =
     \<lparr>qr_queue = \<lparr>sq_maxlen = n, sq_queue = [], sq_dropped = 0\<rparr>, qr_delivered = []\<rparr>"

lemma queue_start_inv: "0 < n \<Longrightarrow> queue_inv (queue_start n)"
  by (simp add: queue_inv_def queue_start_def)

lemma queue_step_maxlen: "sq_maxlen (qr_queue (queue_step e r)) = sq_maxlen (qr_queue r)"
  by (cases e) (simp_all add: op_defs Let_def)

section \<open>Order\<close>

text \<open>What came out and what is still queued is, in order, a selection of what went in.\<close>

definition queue_out :: "'a queue_run \<Rightarrow> 'a list" where
  "queue_out r = qr_delivered r @ sq_queue (qr_queue r)"

lemma queue_step_subseq: "subseq (queue_out (queue_step e r)) (queue_out r @ puts_of [e])"
proof (cases e)
  case (Put x)
  have "subseq (tl (sq_queue (qr_queue r))) (sq_queue (qr_queue r))"
    by (metis drop_Suc drop0 suffix_drop suffix_imp_subseq)
  with Put show ?thesis
    by (auto simp: queue_out_def put_def Let_def intro!: list_emb_append_mono)
next
  case Drain
  then show ?thesis by (simp add: queue_out_def drain_def)
qed

lemma puts_of_append: "puts_of (xs @ ys) = puts_of xs @ puts_of ys"
  by (induction xs rule: puts_of.induct) auto

lemma queue_run_subseq: "subseq (queue_out (fold queue_step ops r)) (queue_out r @ puts_of ops)"
proof (induction ops arbitrary: r)
  case Nil
  then show ?case by simp
next
  case (Cons e ops)
  have "subseq (queue_out (fold queue_step ops (queue_step e r))) (queue_out (queue_step e r) @ puts_of ops)"
    by (rule Cons.IH)
  also have "subseq \<dots> ((queue_out r @ puts_of [e]) @ puts_of ops)"
    by (intro list_emb_append_mono queue_step_subseq) simp
  finally show ?case using puts_of_append[of "[e]" ops] by simp
qed

section \<open>Which samples are shed\<close>

lemma put_contents:
  assumes "0 < sq_maxlen q" and "int (length (sq_queue q)) \<le> sq_maxlen q"
  shows "sq_queue (put x q) =
    drop (length (sq_queue q) + 1 - nat (sq_maxlen q)) (sq_queue q @ [x])"
proof (cases "int (length (sq_queue q)) \<ge> sq_maxlen q")
  case True
  with assms have "nat (sq_maxlen q) = length (sq_queue q)" by simp
  with assms True show ?thesis by (cases "sq_queue q") (auto simp: put_def)
next
  case False
  with assms show ?thesis by (simp add: put_def)
qed

lemma fold_put_contents:
  assumes "0 < sq_maxlen q" and "int (length (sq_queue q)) \<le> sq_maxlen q"
  shows "sq_queue (fold put xs q) =
    drop (length (sq_queue q) + length xs - nat (sq_maxlen q)) (sq_queue q @ xs)"
  using assms
proof (induction xs arbitrary: q)
  case Nil
  then show ?case by simp
next
  case (Cons x xs)
  let ?q = "put x q"
  have m: "sq_maxlen ?q = sq_maxlen q" by (simp add: put_def Let_def)
  have c: "sq_queue ?q = drop (length (sq_queue q) + 1 - nat (sq_maxlen q)) (sq_queue q @ [x])"
    using Cons.prems by (rule put_contents)
  have "int (length (sq_queue ?q)) \<le> sq_maxlen ?q"
    using Cons.prems c m by auto
  with Cons.IH[of ?q] Cons.prems m
  have "sq_queue (fold put (x # xs) q) =
      drop (length (sq_queue ?q) + length xs - nat (sq_maxlen q)) (sq_queue ?q @ xs)"
    by simp
  also have "\<dots> = drop (length (sq_queue q) + length (x # xs) - nat (sq_maxlen q)) (sq_queue q @ x # xs)"
    using Cons.prems by (auto simp: c drop_Cons' drop_append intro!: arg_cong2[where f = append] arg_cong2[where f = drop])
  finally show ?case .
qed

section \<open>Properties\<close>

text \<open>
  Whatever order the collector's puts and the pipeline's drains fall in, the queue never
  exceeds its bound, every sample put is delivered, still queued or counted as dropped (none
  vanishes uncounted), and the delivered samples followed by the queued ones are in the order
  they were put.
\<close>
theorem queue_accounts_for_every_sample:
  assumes "queue_init n = Inr q" and "r = fold queue_step ops \<lparr>qr_queue = q, qr_delivered = []\<rparr>"
  shows "int (length (sq_queue (qr_queue r))) \<le> n
    \<and> length (puts_of ops) =
        length (qr_delivered r) + length (sq_queue (qr_queue r)) + sq_dropped (qr_queue r)
    \<and> subseq (qr_delivered r @ sq_queue (qr_queue r)) (puts_of ops)"
proof -
  have r: "r = fold queue_step ops (queue_start n)" and n: "0 < n"
    using assms by (auto simp: queue_init_def queue_start_def split: if_splits)
  have inv: "queue_inv r" unfolding r by (rule sq.run_inv[OF queue_start_inv[OF n]])
  have "sq_maxlen (qr_queue r) = n"
    unfolding r by (rule fold_invariant[where P = "\<lambda>r. sq_maxlen (qr_queue r) = n"])
      (auto simp: queue_start_def queue_step_maxlen)
  moreover have "queue_held r = length (puts_of ops)"
    unfolding r using sq.run_held[OF queue_start_inv[OF n], of ops]
    by (simp add: sum_queue_cost) (simp add: queue_held_def queue_start_def)
  moreover have "subseq (queue_out r) (puts_of ops)"
    unfolding r using queue_run_subseq[of ops "queue_start n"] by (simp add: queue_out_def queue_start_def)
  ultimately show ?thesis using inv by (simp add: queue_inv_def queue_held_def queue_out_def)
qed

theorem queue_accounts_for_every_sample_witness:
  "let r = fold queue_step [Put 1, Put 2, Put 3, Drain, Put (4::nat)]
             \<lparr>qr_queue = \<lparr>sq_maxlen = 2, sq_queue = [], sq_dropped = 0\<rparr>, qr_delivered = []\<rparr>
   in int (length (sq_queue (qr_queue r))) \<le> 2
    \<and> length (puts_of [Put 1, Put 2, Put 3, Drain, Put (4::nat)]) =
        length (qr_delivered r) + length (sq_queue (qr_queue r)) + sq_dropped (qr_queue r)
    \<and> subseq (qr_delivered r @ sq_queue (qr_queue r)) (puts_of [Put 1, Put 2, Put 3, Drain, Put (4::nat)])"
  unfolding Let_def
  by (rule queue_accounts_for_every_sample[OF _ refl]) (simp add: queue_init_def)

text \<open>
  Shedding is oldest first: puts between two drains leave the newest \<open>maxlen\<close> of what was
  queued before and what was put, in order.
\<close>
theorem queue_sheds_oldest:
  assumes "0 < sq_maxlen q" and "int (length (sq_queue q)) \<le> sq_maxlen q"
  shows "fst (drain (fold put xs q)) =
    drop (length (sq_queue q) + length xs - nat (sq_maxlen q)) (sq_queue q @ xs)"
  using fold_put_contents[OF assms, of xs] by (simp add: drain_def)

theorem queue_sheds_oldest_witness:
  "fst (drain (fold put [2, 3, 4] \<lparr>sq_maxlen = 2, sq_queue = [1::nat], sq_dropped = 0\<rparr>)) = [3, 4]"
  by (subst queue_sheds_oldest) simp_all

end
