(* ===== verification/Rbe.thy ===== *)
theory Rbe
  imports Prelude
begin

text \<open>
  \<^verbatim>\<open>src/core/samples.py\<close> and \<^verbatim>\<open>src/core/rbe.py\<close>: the sample object every collector emits and the
  per-channel report-by-exception filter. \<open>accept\<close> returns the Python result (or the exception)
  together with the filter's next state, since the filter survives an exception its caller
  catches. The results: what the filter remembers is what the consumer was last sent, what a
  suppression means for the consumer's view of the signal, and the counter.
\<close>

section \<open>Samples\<close>

datatype sample_value = VFloat flt | VInt int | VBool bool | VStr string

record sample =
  source_ref :: string
  t_mono_ns :: int
  t_wall_ms :: real
  svalue :: sample_value

section \<open>The filter\<close>

record rbe_config =
  deadband :: "real option"
  min_interval_ns :: "int option"
  max_interval_ns :: "int option"

record sent_state =
  ss_value :: sample_value
  ss_t_mono_ns :: int

record rbe_filter =
  rbe_state :: "int \<rightharpoonup> sent_state"
  suppressed_count :: nat

definition rbe_init :: rbe_filter where
  "rbe_init = \<lparr>rbe_state = Map.empty, suppressed_count = 0\<rparr>"

fun deadband_value :: "sample_value \<Rightarrow> flt res" where
  "deadband_value (VBool b) = Inl TypeError"
| "deadband_value (VStr s) = Inl TypeError"
| "deadband_value (VInt n) = Inr (Fin (of_int n))"
| "deadband_value (VFloat f) = Inr f"

text \<open>\<open>abs(a - b) <= d\<close> on floats: any comparison with NaN is false, an infinite difference
  exceeds every deadband, and equal infinities subtract to NaN.\<close>

fun abs_diff_le :: "flt \<Rightarrow> flt \<Rightarrow> real \<Rightarrow> bool" where
  "abs_diff_le (Fin a) (Fin b) d = (\<bar>a - b\<bar> \<le> d)"
| "abs_diff_le _ _ d = False"

definition rbe_record :: "int \<Rightarrow> sample \<Rightarrow> rbe_filter \<Rightarrow> rbe_filter" where
  "rbe_record c s f =
     f\<lparr>rbe_state := (rbe_state f)(c \<mapsto> \<lparr>ss_value = svalue s, ss_t_mono_ns = t_mono_ns s\<rparr>)\<rparr>"

definition rbe_suppress :: "rbe_filter \<Rightarrow> rbe_filter" where
  "rbe_suppress f = f\<lparr>suppressed_count := suppressed_count f + 1\<rparr>"

definition accept :: "int \<Rightarrow> sample \<Rightarrow> rbe_config option \<Rightarrow> rbe_filter \<Rightarrow> bool res \<times> rbe_filter" where
  "accept c s policy f =
     (case policy of
        None \<Rightarrow> (Inr True, f)
      | Some p \<Rightarrow>
          (case rbe_state f c of
             None \<Rightarrow>
               (case deadband p of
                  None \<Rightarrow> (Inr True, rbe_record c s f)
                | Some d \<Rightarrow>
                    (case deadband_value (svalue s) of
                       Inl e \<Rightarrow> (Inl e, f)
                     | Inr _ \<Rightarrow> (Inr True, rbe_record c s f)))
           | Some prev \<Rightarrow>
               (let elapsed = t_mono_ns s - ss_t_mono_ns prev in
                if (case max_interval_ns p of None \<Rightarrow> False | Some m \<Rightarrow> elapsed \<ge> m)
                then (Inr True, rbe_record c s f)
                else if (case min_interval_ns p of None \<Rightarrow> False | Some m \<Rightarrow> elapsed < m)
                then (Inr False, rbe_suppress f)
                else (case deadband p of
                        None \<Rightarrow> (Inr True, rbe_record c s f)
                      | Some d \<Rightarrow>
                          (case deadband_value (svalue s) of
                             Inl e \<Rightarrow> (Inl e, f)
                           | Inr v \<Rightarrow>
                               (case deadband_value (ss_value prev) of
                                  Inl e \<Rightarrow> (Inl e, f)
                                | Inr pv \<Rightarrow>
                                    if abs_diff_le v pv d then (Inr False, rbe_suppress f)
                                    else (Inr True, rbe_record c s f)))))))"

lemmas rbe_splits = option.splits sum.splits if_splits
lemmas rbe_op_defs [op_defs] = accept_def rbe_record_def rbe_suppress_def rbe_init_def

lemma abs_diff_leD: "abs_diff_le v w d \<Longrightarrow> \<exists>a b. v = Fin a \<and> w = Fin b \<and> \<bar>a - b\<bar> \<le> d"
  by (cases "(v, w, d)" rule: abs_diff_le.cases) auto

section \<open>One call\<close>

lemma accept_keeps:
  assumes "accept c s (Some p) f = (Inr True, f')"
  shows "f' = rbe_record c s f"
  using assms by (auto simp: accept_def Let_def split: rbe_splits)

lemma accept_suppresses:
  assumes "accept c s policy f = (Inr False, f')"
  shows "f' = rbe_suppress f"
  using assms by (auto simp: accept_def Let_def split: rbe_splits)

lemma accept_raises:
  assumes "accept c s policy f = (Inl e, f')"
  shows "f' = f \<and> e = TypeError"
proof -
  have "deadband_value v = Inl e' \<Longrightarrow> e' = TypeError" for v e'
    by (cases v) auto
  with assms show ?thesis by (auto simp: accept_def Let_def split: rbe_splits)
qed

lemma accept_suppressed_reason:
  assumes "accept c s (Some p) f = (Inr False, f')"
  shows "\<exists>prev. rbe_state f c = Some prev
    \<and> (\<forall>m. max_interval_ns p = Some m \<longrightarrow> t_mono_ns s - ss_t_mono_ns prev < m)
    \<and> ((\<exists>m. min_interval_ns p = Some m \<and> t_mono_ns s - ss_t_mono_ns prev < m)
       \<or> (\<exists>d a b. deadband p = Some d \<and> deadband_value (svalue s) = Inr (Fin a)
             \<and> deadband_value (ss_value prev) = Inr (Fin b) \<and> \<bar>a - b\<bar> \<le> d))"
  using assms by (auto simp: accept_def Let_def dest!: abs_diff_leD split: rbe_splits)

section \<open>A stream of samples\<close>

text \<open>
  The caller's view of a stream: what each sample of it came to, in order. \<open>rbe_run\<close> threads the
  filter through the stream and lists the samples that were kept; the policy of a channel is
  fixed by the catalog, so it is a function of the channel.
\<close>

fun rbe_run :: "(int \<Rightarrow> rbe_config option) \<Rightarrow> (int \<times> sample) list \<Rightarrow> rbe_filter
    \<Rightarrow> (int \<times> sample) list \<times> rbe_filter" where
  "rbe_run pol [] f = ([], f)"
| "rbe_run pol ((c, s) # xs) f =
     (let (r, f') = accept c s (pol c) f; (kept, f'') = rbe_run pol xs f'
      in ((if r = Inr True then [(c, s)] else []) @ kept, f''))"

definition sent_of :: "sample \<Rightarrow> sent_state" where
  "sent_of s = \<lparr>ss_value = svalue s, ss_t_mono_ns = t_mono_ns s\<rparr>"

definition last_kept :: "int \<Rightarrow> (int \<times> sample) list \<Rightarrow> sent_state option" where
  "last_kept c kept =
     (let ks = filter (\<lambda>x. fst x = c) kept
      in if ks = [] then None else Some (sent_of (snd (last ks))))"

lemma last_kept_append:
  "last_kept c (xs @ ys) = (case last_kept c ys of None \<Rightarrow> last_kept c xs | Some s \<Rightarrow> Some s)"
  by (auto simp: last_kept_def Let_def)

lemma last_kept_simps [simp]:
  "last_kept c [] = None"
  "last_kept c [(c', s)] = (if c' = c then Some (sent_of s) else None)"
  by (auto simp: last_kept_def)

lemma accept_state:
  assumes "accept c s (pol c) f = (r, f')" and "pol c0 \<noteq> None"
  shows "rbe_state f' c0 =
    (case last_kept c0 (if r = Inr True then [(c, s)] else []) of
       None \<Rightarrow> rbe_state f c0 | Some st \<Rightarrow> Some st)"
proof (cases r)
  case (Inl e)
  with assms accept_raises show ?thesis by force
next
  case (Inr b)
  show ?thesis
  proof (cases b)
    case True
    show ?thesis
    proof (cases "pol c")
      case None
      with assms Inr True show ?thesis by (auto simp: accept_def)
    next
      case (Some p)
      with assms Inr True have "f' = rbe_record c s f" by (auto dest: accept_keeps)
      with Inr True show ?thesis by (simp add: rbe_record_def sent_of_def)
    qed
  next
    case False
    with assms Inr have "f' = rbe_suppress f" by (auto dest: accept_suppresses)
    with Inr False show ?thesis by (simp add: rbe_suppress_def)
  qed
qed

lemma rbe_run_state:
  assumes "rbe_run pol xs f = (kept, f')" and "pol c \<noteq> None"
  shows "rbe_state f' c = (case last_kept c kept of None \<Rightarrow> rbe_state f c | Some st \<Rightarrow> Some st)"
  using assms(1)
proof (induction xs arbitrary: f kept)
  case Nil
  then show ?case by simp
next
  case (Cons x xs)
  obtain c' s where x: "x = (c', s)" by fastforce
  obtain r f1 where a: "accept c' s (pol c') f = (r, f1)" by fastforce
  obtain k f2 where b: "rbe_run pol xs f1 = (k, f2)" by fastforce
  from Cons.prems x a b have kept: "kept = (if r = Inr True then [(c', s)] else []) @ k" and "f2 = f'"
    by (auto simp: Let_def split: if_splits)
  with Cons.IH[of f1 k] b have "rbe_state f' c = (case last_kept c k of None \<Rightarrow> rbe_state f1 c | Some st \<Rightarrow> Some st)"
    by simp
  with accept_state[OF a assms(2)] kept show ?case
    by (simp add: last_kept_append split: option.splits)
qed

section \<open>Properties\<close>

text \<open>
  C1. After any stream, when the filter suppresses a further sample of a channel, the sample the
  consumer last received on that channel is younger than \<open>max_interval\<close>, and either it is
  younger than \<open>min_interval\<close> too or both values are numbers no further apart than the deadband.
  So between heartbeats the consumer's held value is never off by more than the deadband
  unless the sample came inside the minimum interval.
\<close>
theorem rbe_consumer_view:
  assumes "rbe_run pol xs rbe_init = (kept, f)" and "pol c = Some p"
    and "accept c s (Some p) f = (Inr False, f')"
  shows "\<exists>prev. last_kept c kept = Some prev
    \<and> (\<forall>m. max_interval_ns p = Some m \<longrightarrow> t_mono_ns s - ss_t_mono_ns prev < m)
    \<and> ((\<exists>m. min_interval_ns p = Some m \<and> t_mono_ns s - ss_t_mono_ns prev < m)
       \<or> (\<exists>d a b. deadband p = Some d \<and> deadband_value (svalue s) = Inr (Fin a)
             \<and> deadband_value (ss_value prev) = Inr (Fin b) \<and> \<bar>a - b\<bar> \<le> d))"
proof -
  have "rbe_state f c = last_kept c kept"
    using rbe_run_state[OF assms(1), of c] assms(2) by (simp add: rbe_init_def split: option.splits)
  with accept_suppressed_reason[OF assms(3)] show ?thesis by simp
qed

definition wit_policy :: rbe_config where
  "wit_policy = \<lparr>deadband = Some (1 / 2), min_interval_ns = None, max_interval_ns = Some 100\<rparr>"

definition wit_sample :: "int \<Rightarrow> int \<Rightarrow> sample" where
  "wit_sample t v = \<lparr>source_ref = ''can0:x'', t_mono_ns = t, t_wall_ms = 0, svalue = VInt v\<rparr>"

theorem rbe_consumer_view_witness:
  "\<exists>prev. last_kept 1 [(1, wit_sample 0 7)] = Some prev
    \<and> (\<forall>m. max_interval_ns wit_policy = Some m \<longrightarrow> t_mono_ns (wit_sample 50 7) - ss_t_mono_ns prev < m)
    \<and> ((\<exists>m. min_interval_ns wit_policy = Some m
             \<and> t_mono_ns (wit_sample 50 7) - ss_t_mono_ns prev < m)
       \<or> (\<exists>d a b. deadband wit_policy = Some d \<and> deadband_value (svalue (wit_sample 50 7)) = Inr (Fin a)
             \<and> deadband_value (ss_value prev) = Inr (Fin b) \<and> \<bar>a - b\<bar> \<le> d))"
proof (rule rbe_consumer_view)
  show "rbe_run (\<lambda>_. Some wit_policy) [(1, wit_sample 0 7)] rbe_init =
      ([(1, wit_sample 0 7)], rbe_record 1 (wit_sample 0 7) rbe_init)"
    by (simp add: accept_def rbe_init_def wit_policy_def wit_sample_def)
  show "(\<lambda>_. Some wit_policy) (1::int) = Some wit_policy" by simp
  show "accept 1 (wit_sample 50 7) (Some wit_policy) (rbe_record 1 (wit_sample 0 7) rbe_init) =
      (Inr False, rbe_suppress (rbe_record 1 (wit_sample 0 7) rbe_init))"
    by (simp add: accept_def rbe_record_def rbe_init_def wit_policy_def wit_sample_def)
qed

end
