(* ===== verification/Py_Values.thy ===== *)
theory Py_Values
  imports Prelude "HOL-Library.Sublist"
begin

text \<open>
  The parts of Python's built-in types and standard library that several components use: JSON
  values as \<^verbatim>\<open>json.loads\<close> returns them, string methods, and decimal formatting.

  A string is a list of characters with code points below 256; the methods below follow
  Python's Unicode rules on that range (\<open>is_space\<close> has the no-break space and the next-line
  control, \<open>lower_char\<close> the Latin-1 capitals).
\<close>

section \<open>JSON values\<close>

datatype json =
    JNull | JBool bool | JInt int | JFloat flt | JStr string
  | JList "json list" | JDict "(string \<times> json) list"

text \<open>\<open>d.get(key)\<close> with Python's default \<open>None\<close>, and \<open>d.get(key, default)\<close>.\<close>

definition jget :: "(string \<times> json) list \<Rightarrow> string \<Rightarrow> json" where
  "jget d k = (case map_of d k of None \<Rightarrow> JNull | Some v \<Rightarrow> v)"

definition jget_or :: "(string \<times> json) list \<Rightarrow> string \<Rightarrow> json \<Rightarrow> json" where
  "jget_or d k v0 = (case map_of d k of None \<Rightarrow> v0 | Some v \<Rightarrow> v)"

text \<open>Truth value testing.\<close>

fun truthy :: "json \<Rightarrow> bool" where
  "truthy JNull = False"
| "truthy (JBool b) = b"
| "truthy (JInt n) = (n \<noteq> 0)"
| "truthy (JFloat f) = (f \<noteq> Fin 0)"
| "truthy (JStr s) = (s \<noteq> [])"
| "truthy (JList xs) = (xs \<noteq> [])"
| "truthy (JDict d) = (d \<noteq> [])"

section \<open>Strings\<close>

definition is_space :: "char \<Rightarrow> bool" where
  "is_space c =
     (let n = of_char c :: nat
      in (9 \<le> n \<and> n \<le> 13) \<or> (28 \<le> n \<and> n \<le> 32) \<or> n = 133 \<or> n = 160)"

definition lstrip :: "string \<Rightarrow> string" where
  "lstrip s = dropWhile is_space s"

definition strip :: "string \<Rightarrow> string" where
  "strip s = rev (dropWhile is_space (rev (lstrip s)))"

definition lower_char :: "char \<Rightarrow> char" where
  "lower_char c =
     (let n = of_char c :: nat
      in if (65 \<le> n \<and> n \<le> 90) \<or> (192 \<le> n \<and> n \<le> 222 \<and> n \<noteq> 215) then char_of (n + 32) else c)"

definition lower :: "string \<Rightarrow> string" where
  "lower s = map lower_char s"

text \<open>\<open>str.upper\<close> on the range of characters of the model, where only the sharp s grows; the micro sign
  and y with diaeresis, whose capitals lie outside the range, are kept.\<close>

definition upper_char :: "char \<Rightarrow> string" where
  "upper_char c =
     (let n = of_char c :: nat
      in if n = 223 then ''SS''
         else if (97 \<le> n \<and> n \<le> 122) \<or> (224 \<le> n \<and> n \<le> 254 \<and> n \<noteq> 247) then [char_of (n - 32)] else [c])"

definition upper :: "string \<Rightarrow> string" where
  "upper s = concat (map upper_char s)"

text \<open>\<open>str.split\<close> at one character.\<close>

fun split_char :: "char \<Rightarrow> string \<Rightarrow> string list" where
  "split_char c [] = [[]]"
| "split_char c (x # xs) =
     (if x = c then [] # split_char c xs
      else case split_char c xs of [] \<Rightarrow> [[x]] | p # ps \<Rightarrow> (x # p) # ps)"

lemma dropWhile_hd_False: "dropWhile P xs = y # ys \<Longrightarrow> \<not> P y"
  using hd_dropWhile[of P xs] by force

lemma dropWhile_idem: "xs = [] \<or> \<not> P (hd xs) \<Longrightarrow> dropWhile P xs = xs"
  by (cases xs) auto

lemma strip_ends:
  "strip s = [] \<or> (\<not> is_space (hd (strip s)) \<and> \<not> is_space (last (strip s)))"
proof (cases "strip s = []")
  case False
  let ?t = "lstrip s"
  have sfx: "suffix (rev (strip s)) (rev ?t)"
    unfolding strip_def rev_rev_ident by (rule suffix_dropWhile)
  then obtain u where u: "?t = strip s @ u"
    by (auto simp: suffix_def) (metis rev_append rev_rev_ident)
  have "?t \<noteq> []" using False u by auto
  then have "\<not> is_space (hd ?t)" unfolding lstrip_def by (rule hd_dropWhile[OF _])
  then have a: "\<not> is_space (hd (strip s))" using u False by simp
  have "dropWhile is_space (rev ?t) \<noteq> []" using False by (simp add: strip_def)
  then have "\<not> is_space (hd (dropWhile is_space (rev ?t)))" by (rule hd_dropWhile)
  then have "\<not> is_space (last (strip s))" using False by (simp add: strip_def last_rev)
  with a show ?thesis by simp
qed simp

lemma strip_idem [simp]: "strip (strip s) = strip s"
proof -
  let ?t = "strip s"
  have "lstrip ?t = ?t" using strip_ends[of s] by (auto simp: lstrip_def intro!: dropWhile_idem)
  moreover have "dropWhile is_space (rev ?t) = rev ?t"
    using strip_ends[of s] by (intro dropWhile_idem) (auto simp: hd_rev)
  ultimately show ?thesis by (simp add: strip_def)
qed

lemma strip_Nil [simp]: "strip [] = []"
  by (simp add: strip_def lstrip_def)

lemma length_strip_le: "length (strip s) \<le> length s"
  by (simp add: strip_def lstrip_def) (metis length_dropWhile_le le_trans length_rev)

section \<open>Bytes\<close>

unbundle bit_operations_syntax

lemma xor_less:
  assumes "a < 256" "b < 256" shows "a XOR b < (256 :: nat)"
proof -
  have "take_bit 8 a = a" "take_bit 8 b = b" using assms by (simp_all add: take_bit_nat_eq_self)
  then have "take_bit 8 (a XOR b) = a XOR b" by (simp add: take_bit_xor)
  then show ?thesis using take_bit_nat_less_exp[of 8 "a XOR b"] by simp
qed

section \<open>Decimal digits\<close>

definition digit_char :: "nat \<Rightarrow> char" where
  "digit_char d = char_of (48 + d)"

definition is_ascii_digit :: "char \<Rightarrow> bool" where
  "is_ascii_digit c = (48 \<le> (of_char c :: nat) \<and> (of_char c :: nat) \<le> 57)"

definition digit_value :: "char \<Rightarrow> nat" where
  "digit_value c = of_char c - 48"

fun show_nat :: "nat \<Rightarrow> string" where
  "show_nat n = (if n < 10 then [digit_char n] else show_nat (n div 10) @ [digit_char (n mod 10)])"

declare show_nat.simps [simp del]

definition show_int :: "int \<Rightarrow> string" where
  "show_int n = (if n < 0 then CHR ''-'' # show_nat (nat (- n)) else show_nat (nat n))"

definition nat_of_digits :: "string \<Rightarrow> nat" where
  "nat_of_digits s = foldl (\<lambda>a c. a * 10 + digit_value c) 0 s"

text \<open>Zero padding to \<open>w\<close> places, as in the format \<open>05d\<close> for a natural number.\<close>

definition show_nat_pad :: "nat \<Rightarrow> nat \<Rightarrow> string" where
  "show_nat_pad w n = (let s = show_nat n in replicate (w - length s) (CHR ''0'') @ s)"

lemma digit_value_digit_char [simp]: "d < 10 \<Longrightarrow> digit_value (digit_char d) = d"
  by (simp add: digit_value_def digit_char_def)

lemma is_ascii_digit_digit_char [simp]: "d < 10 \<Longrightarrow> is_ascii_digit (digit_char d)"
  by (simp add: is_ascii_digit_def digit_char_def)

lemma nat_of_digits_snoc: "nat_of_digits (s @ [c]) = nat_of_digits s * 10 + digit_value c"
  by (simp add: nat_of_digits_def)

lemma nat_of_digits_show_nat [simp]: "nat_of_digits (show_nat n) = n"
proof (induction n rule: show_nat.induct)
  case (1 n)
  show ?case
  proof (cases "n < 10")
    case True
    then show ?thesis by (subst show_nat.simps) (simp add: nat_of_digits_def)
  next
    case False
    with 1 show ?thesis by (subst show_nat.simps) (simp add: nat_of_digits_snoc)
  qed
qed

lemma show_nat_digits: "c \<in> set (show_nat n) \<Longrightarrow> is_ascii_digit c"
proof (induction n rule: show_nat.induct)
  case (1 n)
  then show ?case
    by (subst (asm) (2) show_nat.simps) (auto split: if_splits)
qed

lemma show_nat_nonempty [simp]: "show_nat n \<noteq> []"
  by (subst show_nat.simps) simp

lemma show_nat_inj: "show_nat a = show_nat b \<Longrightarrow> a = b"
  by (metis nat_of_digits_show_nat)

lemma minus_not_digit: "\<not> is_ascii_digit (CHR ''-'')"
  by (simp add: is_ascii_digit_def)

lemma show_int_inj: "show_int a = show_int b \<Longrightarrow> a = b"
proof -
  assume eq: "show_int a = show_int b"
  have ne: "CHR ''-'' # s \<noteq> show_nat n" for s n
    using show_nat_digits[of "CHR ''-''" n] minus_not_digit by (metis list.set_intros(1))
  from eq show ?thesis
    using ne by (auto simp: show_int_def dest!: show_nat_inj split: if_splits) (metis ne)+
qed

lemma length_show_nat: "0 < k \<Longrightarrow> n < 10 ^ k \<Longrightarrow> length (show_nat n) \<le> k"
proof (induction k arbitrary: n)
  case (Suc k)
  show ?case
  proof (cases "n < 10")
    case True
    then show ?thesis by (subst show_nat.simps) simp
  next
    case False
    then have "0 < k" using Suc.prems by (cases k) auto
    moreover have "n div 10 < 10 ^ k" using Suc.prems by (simp add: less_mult_imp_div_less mult.commute)
    ultimately have "length (show_nat (n div 10)) \<le> k" by (rule Suc.IH)
    with False show ?thesis by (subst show_nat.simps) simp
  qed
qed simp

lemma nat_of_digits_zeros: "nat_of_digits (replicate m (CHR ''0'') @ s) = nat_of_digits s"
  by (induction m) (simp_all add: nat_of_digits_def digit_value_def)

lemma show_nat_pad_value [simp]: "nat_of_digits (show_nat_pad w n) = n"
  by (simp add: show_nat_pad_def Let_def nat_of_digits_zeros)

lemma show_nat_pad_length: "0 < w \<Longrightarrow> n < 10 ^ w \<Longrightarrow> length (show_nat_pad w n) = w"
  using length_show_nat[of w n] by (simp add: show_nat_pad_def Let_def)

lemma show_nat_pad_digits: "c \<in> set (show_nat_pad w n) \<Longrightarrow> is_ascii_digit c"
  by (auto simp: show_nat_pad_def Let_def dest: show_nat_digits) (simp add: is_ascii_digit_def)

section \<open>Fixed-point formatting\<close>

text \<open>The format \<open>.<d>f\<close>: the magnitude rounded half to even at \<open>d\<close> decimals, the sign of the number.\<close>

definition show_fixed_nat :: "nat \<Rightarrow> nat \<Rightarrow> string" where
  "show_fixed_nat d n =
     (if d = 0 then show_nat n else show_nat (n div 10 ^ d) @ ''.'' @ show_nat_pad d (n mod 10 ^ d))"

definition show_fixed :: "nat \<Rightarrow> real \<Rightarrow> string" where
  "show_fixed d x = (if x < 0 then ''-'' else []) @ show_fixed_nat d (nat (py_round (\<bar>x\<bar> * 10 ^ d)))"

text \<open>The format \<open>+d\<close> of an integer.\<close>

definition show_signed :: "int \<Rightarrow> string" where
  "show_signed n = (if n < 0 then show_int n else CHR ''+'' # show_int n)"

section \<open>Conversions\<close>

text \<open>
  \<open>float\<close>, \<open>int\<close> and \<open>str\<close> of a JSON value; the conversions of text, which depend on Python's
  number grammar and repr, are the fields of \<open>text_conv\<close>. An aware datetime is its epoch seconds,
  rounded to microseconds and limited to the years 1 to 9999 as \<open>datetime.fromtimestamp\<close> does.
\<close>

record text_conv =
  float_of_str :: "string \<Rightarrow> flt option"
  int_of_str :: "string \<Rightarrow> int option"
  str_of :: "json \<Rightarrow> string"

definition trunc_real :: "real \<Rightarrow> int" where
  "trunc_real x = (if x \<ge> 0 then \<lfloor>x\<rfloor> else \<lceil>x\<rceil>)"

fun py_float :: "text_conv \<Rightarrow> json \<Rightarrow> flt res" where
  "py_float tc (JInt n) = Inr (Fin (of_int n))"
| "py_float tc (JFloat f) = Inr f"
| "py_float tc (JBool b) = Inr (Fin (of_bool b))"
| "py_float tc (JStr s) = (case float_of_str tc s of None \<Rightarrow> Inl ValueError | Some f \<Rightarrow> Inr f)"
| "py_float tc _ = Inl TypeError"

fun int_of_flt :: "flt \<Rightarrow> int res" where
  "int_of_flt (Fin x) = Inr (trunc_real x)"
| "int_of_flt NaN = Inl ValueError"
| "int_of_flt _ = Inl OverflowError"

fun py_int :: "text_conv \<Rightarrow> json \<Rightarrow> int res" where
  "py_int tc (JInt n) = Inr n"
| "py_int tc (JFloat f) = int_of_flt f"
| "py_int tc (JBool b) = Inr (of_bool b)"
| "py_int tc (JStr s) = (case int_of_str tc s of None \<Rightarrow> Inl ValueError | Some n \<Rightarrow> Inr n)"
| "py_int tc _ = Inl TypeError"

fun py_str :: "text_conv \<Rightarrow> json \<Rightarrow> string" where
  "py_str tc (JStr s) = s"
| "py_str tc j = str_of tc j"

definition fromtimestamp :: "flt \<Rightarrow> real res" where
  "fromtimestamp f =
     (case f of
        Fin x \<Rightarrow> (let r = py_round_digits x 6
                 in if -62135596800 \<le> r \<and> r < 253402300800 then Inr r else Inl ValueError)
      | NaN \<Rightarrow> Inl ValueError
      | _ \<Rightarrow> Inl OverflowError)"

end
