(* ===== verification/Catalog.thy ===== *)
theory Catalog
  imports Rbe Py_Values
begin

text \<open>
  \<^verbatim>\<open>src/core/catalog.py\<close>: the startup product of a profile. \<open>build_runtime_catalog\<close> numbers the
  catalog's channels from one in file order and the agent's derived channels from \<open>2 ^ 31\<close>, and
  fills the three lookups the hot path uses together with the registry message the consumers
  decode against. \<open>update_registry_state\<close> is the persisted generation counter.

  The profile arrives validated by its loader: a channel's type and encoding are the strings the
  loader admits and a channel name occurs once. The SHA-256 digest of catalog and derived set is
  the argument \<open>registry_hash\<close>. What the state file held is \<open>state_read\<close>, one constructor for
  each way reading it can go.
\<close>

section \<open>Wire vocabulary\<close>

datatype value_type = VALUE_TYPE_UNSPECIFIED | DOUBLE | INT64 | BOOL | STRING | FLOAT | UINT

record channel =
  ch_id :: int
  ch_name :: string
  ch_source_ref :: string
  ch_units :: string
  ch_type :: value_type
  ch_scale :: real
  ch_offset :: real

record channel_registry =
  reg_seq :: int
  reg_vehicle_id :: string
  reg_created_unix_ms :: int
  reg_channels :: "channel list"

section \<open>Configuration and policies\<close>

record encode_config =
  enc_type :: string
  enc_scale :: real
  enc_offset :: real

record channel_config =
  cc_source_ref :: string
  cc_units :: string
  cc_type :: string
  cc_rbe :: "rbe_config option"
  cc_encode :: "encode_config option"

record channel_policy =
  cp_name :: string
  cp_value_type :: value_type
  cp_rbe :: "rbe_config option"
  cp_scale :: real
  cp_offset :: real

record derived_channel =
  dc_name :: string
  dc_value_type :: value_type
  dc_units :: string

definition DERIVED_ID_START :: int where
  "DERIVED_ID_START = 2 ^ 31"

definition VALUE_TYPES :: "(string \<times> value_type) list" where
  "VALUE_TYPES =
     [(''double'', DOUBLE), (''int'', INT64), (''bool'', BOOL),
      (''string'', STRING), (''float'', FLOAT), (''uint'', UINT)]"

definition DEFAULT_DERIVED_CHANNELS :: "derived_channel list" where
  "DEFAULT_DERIVED_CHANNELS =
     [\<lparr>dc_name = ''lap.event'', dc_value_type = STRING, dc_units = []\<rparr>,
      \<lparr>dc_name = ''lap.number'', dc_value_type = INT64, dc_units = []\<rparr>,
      \<lparr>dc_name = ''lap.sector'', dc_value_type = INT64, dc_units = []\<rparr>,
      \<lparr>dc_name = ''lap.last_time'', dc_value_type = DOUBLE, dc_units = ''s''\<rparr>,
      \<lparr>dc_name = ''lap.best_time'', dc_value_type = DOUBLE, dc_units = ''s''\<rparr>,
      \<lparr>dc_name = ''timing.delta_best'', dc_value_type = DOUBLE, dc_units = ''s''\<rparr>,
      \<lparr>dc_name = ''timing.predicted_lap'', dc_value_type = DOUBLE, dc_units = ''s''\<rparr>,
      \<lparr>dc_name = ''timing.distance'', dc_value_type = DOUBLE, dc_units = ''m''\<rparr>,
      \<lparr>dc_name = ''timing.lap_elapsed'', dc_value_type = DOUBLE, dc_units = ''s''\<rparr>]"

definition channel_policy_of :: "string \<Rightarrow> channel_config \<Rightarrow> channel_policy res" where
  "channel_policy_of name cfg =
     (let etype = (case cc_encode cfg of None \<Rightarrow> cc_type cfg | Some e \<Rightarrow> enc_type e);
          scale = (case cc_encode cfg of None \<Rightarrow> 0 | Some e \<Rightarrow> enc_scale e);
          offset = (case cc_encode cfg of None \<Rightarrow> 0 | Some e \<Rightarrow> enc_offset e)
      in case map_of VALUE_TYPES etype of
           None \<Rightarrow> Inl KeyError
         | Some vt \<Rightarrow> Inr \<lparr>cp_name = name, cp_value_type = vt, cp_rbe = cc_rbe cfg,
                           cp_scale = scale, cp_offset = offset\<rparr>)"

section \<open>The runtime catalog\<close>

record runtime_catalog =
  source_map :: "string \<rightharpoonup> int \<times> channel_policy"
  channel_ids :: "(string \<times> int) list"
  policies_by_id :: "int \<rightharpoonup> channel_policy"
  registry :: channel_registry

definition add_mapping ::
  "string \<Rightarrow> int \<Rightarrow> channel_policy \<Rightarrow> runtime_catalog \<Rightarrow> runtime_catalog res" where
  "add_mapping sref cid pol cat =
     (if source_map cat sref \<noteq> None then Inl ConfigError
      else Inr (cat\<lparr>source_map := (source_map cat)(sref \<mapsto> (cid, pol))\<rparr>))"

text \<open>The rest of either loop body: the id and policy tables and the registry's channel entry.\<close>

definition add_channel :: "channel \<Rightarrow> channel_policy \<Rightarrow> runtime_catalog \<Rightarrow> runtime_catalog" where
  "add_channel ch pol cat =
     cat\<lparr>channel_ids := AList.update (ch_name ch) (ch_id ch) (channel_ids cat),
         policies_by_id := (policies_by_id cat)(ch_id ch \<mapsto> pol),
         registry := (registry cat)\<lparr>reg_channels := reg_channels (registry cat) @ [ch]\<rparr>\<rparr>"

fun add_catalog_channels ::
  "int \<Rightarrow> (string \<times> channel_config) list \<Rightarrow> runtime_catalog \<Rightarrow> runtime_catalog res" where
  "add_catalog_channels cid [] cat = Inr cat"
| "add_catalog_channels cid ((name, cfg) # rest) cat =
     sbind (channel_policy_of name cfg) (\<lambda>pol.
     sbind (add_mapping (cc_source_ref cfg) cid pol cat) (\<lambda>cat'.
       add_catalog_channels (cid + 1) rest
         (add_channel \<lparr>ch_id = cid, ch_name = name, ch_source_ref = cc_source_ref cfg,
                       ch_units = cc_units cfg, ch_type = cp_value_type pol,
                       ch_scale = cp_scale pol, ch_offset = cp_offset pol\<rparr> pol cat')))"

fun add_derived_channels ::
  "int \<Rightarrow> derived_channel list \<Rightarrow> runtime_catalog \<Rightarrow> runtime_catalog res" where
  "add_derived_channels index [] cat = Inr cat"
| "add_derived_channels index (d # rest) cat =
     (let cid = DERIVED_ID_START + index; sref = ''derived:'' @ dc_name d;
          pol = \<lparr>cp_name = dc_name d, cp_value_type = dc_value_type d, cp_rbe = None,
                 cp_scale = 0, cp_offset = 0\<rparr>
      in if map_of (channel_ids cat) (dc_name d) \<noteq> None then Inl ConfigError
         else sbind (add_mapping sref cid pol cat) (\<lambda>cat'.
           add_derived_channels (index + 1) rest
             (add_channel \<lparr>ch_id = cid, ch_name = dc_name d, ch_source_ref = sref,
                           ch_units = dc_units d, ch_type = dc_value_type d,
                           ch_scale = 0, ch_offset = 0\<rparr> pol cat')))"

section \<open>The persisted generation\<close>

datatype state_read = FileMissing | FileUndecodable | FileUnreadable | FileNotJson | FileJson json

definition update_registry_state ::
  "state_read \<Rightarrow> string \<Rightarrow> bool \<Rightarrow> int res \<times> (string \<times> int) option" where
  "update_registry_state st h write_ok =
     (let previous =
        (case st of
           FileMissing \<Rightarrow> Inr (None, 0)
         | FileUndecodable \<Rightarrow> Inl ConfigError
         | FileUnreadable \<Rightarrow> Inl ConfigError
         | FileNotJson \<Rightarrow> Inl ConfigError
         | FileJson (JDict d) \<Rightarrow>
             (case (map_of d ''catalog_hash'', map_of d ''registry_seq'') of
                (Some (JStr ph), Some (JInt ps)) \<Rightarrow> Inr (Some ph, ps)
              | _ \<Rightarrow> Inl ConfigError)
         | FileJson _ \<Rightarrow> Inl ConfigError)
      in case previous of
           Inl e \<Rightarrow> (Inl e, None)
         | Inr (ph, ps) \<Rightarrow>
             (let seq = (if ph = Some h then ps else ps + 1)
              in if \<not> (1 \<le> seq \<and> seq \<le> 2 ^ 32 - 1) then (Inl ConfigError, None)
                 else if ph = Some h then (Inr seq, None)
                 else if write_ok then (Inr seq, Some (h, seq))
                 else (Inl ConfigError, None)))"

text \<open>What the next read of the state file finds.\<close>

definition state_after :: "state_read \<Rightarrow> (string \<times> int) option \<Rightarrow> state_read" where
  "state_after st w =
     (case w of None \<Rightarrow> st
      | Some (h, n) \<Rightarrow> FileJson (JDict [(''catalog_hash'', JStr h), (''registry_seq'', JInt n)]))"

definition build_runtime_catalog ::
  "string \<Rightarrow> (string \<times> channel_config) list \<Rightarrow> derived_channel list \<Rightarrow> int
     \<Rightarrow> state_read \<Rightarrow> string \<Rightarrow> bool \<Rightarrow> runtime_catalog res" where
  "build_runtime_catalog vehicle channels derived created_ms st registry_hash write_ok =
     sbind (fst (update_registry_state st registry_hash write_ok)) (\<lambda>seq.
     sbind (add_catalog_channels 1 channels
              \<lparr>source_map = Map.empty, channel_ids = [], policies_by_id = Map.empty,
               registry = \<lparr>reg_seq = seq, reg_vehicle_id = vehicle,
                           reg_created_unix_ms = created_ms, reg_channels = []\<rparr>\<rparr>) (\<lambda>cat.
       add_derived_channels 0 derived cat))"

lemmas catalog_op_defs [op_defs] =
  channel_policy_of_def add_mapping_def add_channel_def build_runtime_catalog_def
  update_registry_state_def

section \<open>Consistency of the lookups\<close>

text \<open>
  Every channel of the registry is found under its name, its id and its source reference with one
  policy, and the lookups hold nothing else.
\<close>

definition channel_listed :: "runtime_catalog \<Rightarrow> channel \<Rightarrow> bool" where
  "channel_listed cat ch \<longleftrightarrow>
     (\<exists>pol. policies_by_id cat (ch_id ch) = Some pol
        \<and> source_map cat (ch_source_ref ch) = Some (ch_id ch, pol)
        \<and> map_of (channel_ids cat) (ch_name ch) = Some (ch_id ch)
        \<and> cp_name pol = ch_name ch \<and> cp_value_type pol = ch_type ch
        \<and> cp_scale pol = ch_scale ch \<and> cp_offset pol = ch_offset ch)"

definition catalog_inv :: "runtime_catalog \<Rightarrow> bool" where
  [inv_defs]: "catalog_inv cat \<longleftrightarrow>
     (\<forall>ch \<in> set (reg_channels (registry cat)). channel_listed cat ch)
     \<and> dom (source_map cat) = ch_source_ref ` set (reg_channels (registry cat))
     \<and> dom (policies_by_id cat) = ch_id ` set (reg_channels (registry cat))
     \<and> fst ` set (channel_ids cat) = ch_name ` set (reg_channels (registry cat))
     \<and> distinct (map ch_id (reg_channels (registry cat)))
     \<and> distinct (map ch_name (reg_channels (registry cat)))
     \<and> distinct (map ch_source_ref (reg_channels (registry cat)))"

lemma catalog_inv_add:
  assumes inv: "catalog_inv cat" and new: "add_mapping (ch_source_ref ch) (ch_id ch) pol cat = Inr cat'"
    and id: "ch_id ch \<notin> dom (policies_by_id cat)" and nm: "ch_name ch \<notin> fst ` set (channel_ids cat)"
    and pol: "cp_name pol = ch_name ch" "cp_value_type pol = ch_type ch"
      "cp_scale pol = ch_scale ch" "cp_offset pol = ch_offset ch"
  shows "catalog_inv (add_channel ch pol cat')"
proof -
  let ?C = "reg_channels (registry cat)"
  have cat': "cat' = cat\<lparr>source_map := (source_map cat)(ch_source_ref ch \<mapsto> (ch_id ch, pol))\<rparr>"
    and fresh: "ch_source_ref ch \<notin> dom (source_map cat)"
    using new by (auto simp: add_mapping_def split: if_splits)
  have doms: "dom (source_map cat) = ch_source_ref ` set ?C" "dom (policies_by_id cat) = ch_id ` set ?C"
    "fst ` set (channel_ids cat) = ch_name ` set ?C"
    using inv by (auto simp: catalog_inv_def)
  have old: "channel_listed (add_channel ch pol cat') c" if c: "c \<in> set ?C" for c
  proof -
    have "ch_source_ref c \<in> dom (source_map cat)" "ch_id c \<in> dom (policies_by_id cat)"
      "ch_name c \<in> fst ` set (channel_ids cat)"
      unfolding doms using c by simp_all
    then have "ch_source_ref c \<noteq> ch_source_ref ch" "ch_id c \<noteq> ch_id ch" "ch_name c \<noteq> ch_name ch"
      using fresh id nm by metis+
    moreover have "channel_listed cat c" using inv c by (simp add: catalog_inv_def)
    ultimately show ?thesis by (simp add: channel_listed_def add_channel_def cat' update_conv')
  qed
  have new_listed: "channel_listed (add_channel ch pol cat') ch"
    using pol by (simp add: channel_listed_def add_channel_def cat' update_conv')
  have "distinct (map ch_id ?C)" "distinct (map ch_name ?C)" "distinct (map ch_source_ref ?C)"
    using inv by (auto simp: catalog_inv_def)
  moreover have "ch_id ch \<notin> ch_id ` set ?C" "ch_name ch \<notin> ch_name ` set ?C"
    "ch_source_ref ch \<notin> ch_source_ref ` set ?C"
    using id nm fresh doms by auto
  moreover have "fst ` set (channel_ids (add_channel ch pol cat')) = insert (ch_name ch) (ch_name ` set ?C)"
    using doms(3) by (simp add: add_channel_def cat' dom_update)
  ultimately show ?thesis
    using old new_listed doms by (auto simp: catalog_inv_def add_channel_def cat')
qed

lemma add_mapping_frame:
  "add_mapping r i p cat = Inr cat' \<Longrightarrow>
     policies_by_id cat' = policies_by_id cat \<and> channel_ids cat' = channel_ids cat \<and> registry cat' = registry cat"
  by (auto simp: add_mapping_def split: if_splits)

lemma channel_policy_fields:
  assumes "channel_policy_of name cfg = Inr pol"
  shows "cp_name pol = name"
  using assms by (auto simp: channel_policy_of_def Let_def split: option.splits)

lemma add_catalog_channels_inv:
  assumes "add_catalog_channels cid chs cat = Inr cat'" and "catalog_inv cat"
    and "\<forall>i \<in> dom (policies_by_id cat). i < cid" and "distinct (map fst chs)"
    and "fst ` set chs \<inter> fst ` set (channel_ids cat) = {}"
  shows "catalog_inv cat' \<and> (\<forall>i \<in> dom (policies_by_id cat'). i < cid + int (length chs))"
  using assms
proof (induction cid chs cat rule: add_catalog_channels.induct)
  case (1 cid cat)
  then show ?case by simp
next
  case (2 cid name cfg rest cat)
  from "2.prems"(1) obtain pol cat1 where pol: "channel_policy_of name cfg = Inr pol"
    and m: "add_mapping (cc_source_ref cfg) cid pol cat = Inr cat1"
    and rec: "add_catalog_channels (cid + 1) rest
      (add_channel \<lparr>ch_id = cid, ch_name = name, ch_source_ref = cc_source_ref cfg, ch_units = cc_units cfg,
         ch_type = cp_value_type pol, ch_scale = cp_scale pol, ch_offset = cp_offset pol\<rparr> pol cat1) = Inr cat'"
    by (auto simp: sbind_Inr_iff)
  let ?ch = "\<lparr>ch_id = cid, ch_name = name, ch_source_ref = cc_source_ref cfg, ch_units = cc_units cfg,
         ch_type = cp_value_type pol, ch_scale = cp_scale pol, ch_offset = cp_offset pol\<rparr>"
  let ?cat = "add_channel ?ch pol cat1"
  have "catalog_inv ?cat"
    using catalog_inv_add[of cat ?ch pol cat1] "2.prems" m channel_policy_fields[OF pol] by auto
  moreover have "\<forall>i \<in> dom (policies_by_id ?cat). i < cid + 1"
    using "2.prems"(3) add_mapping_frame[OF m] by (simp add: add_channel_def) (blast intro: less_imp_le)
  moreover have "fst ` set rest \<inter> fst ` set (channel_ids ?cat) = {}"
    using "2.prems"(4,5) add_mapping_frame[OF m] by (auto simp: add_channel_def dom_update)
  ultimately show ?case
    using "2.IH"[OF rec] "2.prems"(4) by (simp add: algebra_simps)
qed

lemma add_derived_channels_inv:
  assumes "add_derived_channels index ds cat = Inr cat'" and "catalog_inv cat"
    and "\<forall>i \<in> dom (policies_by_id cat). i < DERIVED_ID_START + index"
  shows "catalog_inv cat'"
  using assms
proof (induction index ds cat rule: add_derived_channels.induct)
  case (1 index cat)
  then show ?case by simp
next
  case (2 index d rest cat)
  let ?cid = "DERIVED_ID_START + index"
  let ?pol = "\<lparr>cp_name = dc_name d, cp_value_type = dc_value_type d, cp_rbe = None, cp_scale = 0, cp_offset = 0\<rparr>"
  let ?ch = "\<lparr>ch_id = ?cid, ch_name = dc_name d, ch_source_ref = ''derived:'' @ dc_name d,
    ch_units = dc_units d, ch_type = dc_value_type d, ch_scale = 0, ch_offset = 0\<rparr>"
  from "2.prems"(1) obtain cat1 where nm: "map_of (channel_ids cat) (dc_name d) = None"
    and m: "add_mapping (''derived:'' @ dc_name d) ?cid ?pol cat = Inr cat1"
    and rec: "add_derived_channels (index + 1) rest (add_channel ?ch ?pol cat1) = Inr cat'"
    by (auto simp: sbind_Inr_iff Let_def split: if_splits)
  have "catalog_inv (add_channel ?ch ?pol cat1)"
    using catalog_inv_add[of cat ?ch ?pol cat1] "2.prems" m nm by (auto simp: map_of_eq_None_iff)
  moreover have "\<forall>i \<in> dom (policies_by_id (add_channel ?ch ?pol cat1)). i < DERIVED_ID_START + (index + 1)"
    using "2.prems"(3) add_mapping_frame[OF m] by (simp add: add_channel_def add.assoc[symmetric])
      (blast intro: less_imp_le)
  ultimately show ?case using "2.IH"[OF refl refl refl _ rec] nm by simp
qed

lemma catalog_inv_source_map:
  assumes "catalog_inv cat" and "source_map cat r = Some (cid, pol)"
  shows "policies_by_id cat cid = Some pol"
proof -
  have "r \<in> ch_source_ref ` set (reg_channels (registry cat))"
    using assms by (auto simp: catalog_inv_def)
  then obtain ch where "ch \<in> set (reg_channels (registry cat))" "ch_source_ref ch = r" by auto
  with assms show ?thesis by (auto simp: catalog_inv_def channel_listed_def)
qed

section \<open>Properties\<close>

text \<open>
  A catalog that builds is consistent: every registry channel is found under its name, its id
  and its source reference with one and the same policy, ids, names and references are pairwise
  distinct (the derived range never meets the catalog range), the lookups hold nothing that the
  registry does not announce, and a mapped sample always has an encoding policy.
\<close>
theorem catalog_lookups_consistent:
  assumes "build_runtime_catalog vehicle channels derived created st h write_ok = Inr cat"
    and "distinct (map fst channels)" and "int (length channels) < 2 ^ 31"
  shows "catalog_inv cat
    \<and> (\<forall>r cid pol. source_map cat r = Some (cid, pol) \<longrightarrow> policies_by_id cat cid = Some pol)"
proof -
  from assms(1) obtain seq cat1 where
    a: "add_catalog_channels 1 channels \<lparr>source_map = Map.empty, channel_ids = [],
          policies_by_id = Map.empty, registry = \<lparr>reg_seq = seq, reg_vehicle_id = vehicle,
          reg_created_unix_ms = created, reg_channels = []\<rparr>\<rparr> = Inr cat1"
    and b: "add_derived_channels 0 derived cat1 = Inr cat"
    by (auto simp: build_runtime_catalog_def sbind_Inr_iff)
  have c: "catalog_inv cat1 \<and> (\<forall>i \<in> dom (policies_by_id cat1). i < 1 + int (length channels))"
    by (rule add_catalog_channels_inv[OF a]) (use assms(2) in \<open>auto simp: catalog_inv_def\<close>)
  have "\<forall>i \<in> dom (policies_by_id cat1). i < DERIVED_ID_START + 0"
    using c assms(3) unfolding DERIVED_ID_START_def by (metis add.right_neutral zless_imp_add1_zle
        add.commute less_le_trans)
  with c have "catalog_inv cat"
    using add_derived_channels_inv[OF b] by blast
  with catalog_inv_source_map show ?thesis by blast
qed

definition wit_channels :: "(string \<times> channel_config) list" where
  "wit_channels =
     [(''car.rpm'', \<lparr>cc_source_ref = ''can0:ECU.RPM'', cc_units = ''rpm'', cc_type = ''int'',
        cc_rbe = None, cc_encode = Some \<lparr>enc_type = ''uint'', enc_scale = 0, enc_offset = 0\<rparr>\<rparr>)]"

definition wit_derived :: "derived_channel list" where
  "wit_derived = [\<lparr>dc_name = ''lap.event'', dc_value_type = STRING, dc_units = []\<rparr>]"

theorem catalog_lookups_consistent_witness:
  "\<exists>cat. build_runtime_catalog ''car1'' wit_channels wit_derived 0 FileMissing ''h'' True = Inr cat
    \<and> catalog_inv cat
    \<and> (\<forall>r cid pol. source_map cat r = Some (cid, pol) \<longrightarrow> policies_by_id cat cid = Some pol)"
proof -
  obtain cat where b: "build_runtime_catalog ''car1'' wit_channels wit_derived 0 FileMissing ''h'' True = Inr cat"
    by (simp add: build_runtime_catalog_def update_registry_state_def wit_channels_def wit_derived_def
        channel_policy_of_def VALUE_TYPES_def add_mapping_def add_channel_def Let_def)
  have "distinct (map fst wit_channels)" "int (length wit_channels) < 2 ^ 31"
    by (simp_all add: wit_channels_def)
  with b catalog_lookups_consistent[OF b] show ?thesis by blast
qed

text \<open>
  The registry generation: a successful update returns a number in the uint32 range; restarting
  with the same catalog returns the same number and writes nothing; restarting with a changed
  catalog returns the next number, or is refused when the range is exhausted. No generation is
  ever reused for a different catalog by the restart that follows.
\<close>
theorem registry_generation_restarts:
  assumes "update_registry_state st h write_ok = (Inr n, w)"
  shows "1 \<le> n \<and> n \<le> 2 ^ 32 - 1
    \<and> update_registry_state (state_after st w) h ok' = (Inr n, None)
    \<and> (h' \<noteq> h \<longrightarrow> update_registry_state (state_after st w) h' True =
         (if n < 2 ^ 32 - 1 then (Inr (n + 1), Some (h', n + 1)) else (Inl ConfigError, None)))"
  using assms
  by (cases st) (auto simp: update_registry_state_def state_after_def Let_def
      split: if_splits json.splits option.splits)

theorem registry_generation_restarts_witness:
  "update_registry_state (state_after FileMissing (Some (''a'', 1))) ''a'' False = (Inr 1, None)
    \<and> update_registry_state (state_after FileMissing (Some (''a'', 1))) ''b'' True = (Inr 2, Some (''b'', 2))"
  using registry_generation_restarts[of FileMissing "''a''" True 1 "Some (''a'', 1)" False "''b''"]
  by (simp add: update_registry_state_def)

end
