(* ===== verification/Batcher.thy ===== *)
theory Batcher
  imports Catalog
begin

text \<open>
  \<^verbatim>\<open>src/core/batcher.py\<close>: accumulate post-filter samples per source class and serialize a tick.

  The protobuf runtime is not part of the repository; it is the parameter \<open>pb\<close>. \<open>pb_store\<close> is
  what assigning a value to a field of the \<open>value\<close> oneof does: \<open>None\<close> when the runtime refuses
  the value (it raises \<open>ValueError\<close>: outside the field's range), otherwise what reading the field
  gives back (a \<open>float\<close> field keeps single precision). \<open>pb_header_ok\<close> says whether the runtime
  takes the header fields, \<open>pb_serialize\<close> and \<open>pb_parse\<close> are \<open>SerializeToString\<close> and
  \<open>ParseFromString\<close>. The payload they exchange is opaque to the code, so its type is a variable.
\<close>

section \<open>Messages\<close>

datatype wire_value = WD flt | WI int | WB bool | WS string | WF flt | WU int

record wire_sample =
  ws_channel_id :: int
  ws_t_offset_us :: int
  ws_value :: "wire_value option"

record sample_batch =
  sb_registry_seq :: int
  sb_epoch_unix_ms :: int
  sb_epoch_mono_ns :: int
  sb_samples :: "wire_sample list"
  sb_format_version :: int

record 'w pb_runtime =
  pb_store :: "wire_value \<Rightarrow> wire_value option"
  pb_header_ok :: "int \<Rightarrow> int \<Rightarrow> int \<Rightarrow> bool"
  pb_serialize :: "sample_batch \<Rightarrow> 'w"
  pb_parse :: "'w \<Rightarrow> sample_batch option"

section \<open>Encoding one value\<close>

text \<open>\<open>round\<close> of a float quotient: infinities and NaN have no integer.\<close>

fun round_flt :: "flt \<Rightarrow> int res" where
  "round_flt (Fin x) = Inr (py_round x)"
| "round_flt NaN = Inl ValueError"
| "round_flt _ = Inl OverflowError"

text \<open>\<open>(value - offset) / scale\<close> for a finite offset and a finite non-zero scale.\<close>

fun unscale :: "flt \<Rightarrow> real \<Rightarrow> real \<Rightarrow> flt" where
  "unscale (Fin x) off scale = Fin ((x - off) / scale)"
| "unscale NaN off scale = NaN"
| "unscale PInf off scale = (if scale > 0 then PInf else NInf)"
| "unscale NInf off scale = (if scale > 0 then NInf else PInf)"

text \<open>\<open>isinstance(value, (int, float))\<close> and not a bool, and the value as a float.\<close>

fun numeric :: "sample_value \<Rightarrow> flt option" where
  "numeric (VInt n) = Some (Fin (of_int n))"
| "numeric (VFloat f) = Some f"
| "numeric _ = None"

text \<open>The integer an unscaled channel puts on the wire.\<close>

fun unscaled_int :: "sample_value \<Rightarrow> int res" where
  "unscaled_int (VInt n) = Inr n"
| "unscaled_int (VFloat (Fin x)) = (if x \<in> \<int> then Inr \<lfloor>x\<rfloor> else Inl TypeError)"
| "unscaled_int _ = Inl TypeError"

definition store :: "'w pb_runtime \<Rightarrow> wire_value \<Rightarrow> wire_value res" where
  "store pb w = (case pb_store pb w of None \<Rightarrow> Inl ValueError | Some w' \<Rightarrow> Inr w')"

definition encode_value :: "'w pb_runtime \<Rightarrow> sample_value \<Rightarrow> channel_policy \<Rightarrow> wire_value res" where
  "encode_value pb v pol =
     (let vt = cp_value_type pol in
      if vt \<in> {DOUBLE, FLOAT} then
        (case numeric v of
           None \<Rightarrow> Inl TypeError
         | Some f \<Rightarrow> store pb (if vt = DOUBLE then WD f else WF f))
      else if vt \<in> {INT64, UINT} then
        (case numeric v of
           None \<Rightarrow> Inl TypeError
         | Some f \<Rightarrow>
             sbind (if cp_scale pol \<noteq> 0 then round_flt (unscale f (cp_offset pol) (cp_scale pol))
                    else unscaled_int v) (\<lambda>n.
               if vt = INT64 then store pb (WI n)
               else if n < 0 then Inl ValueError
               else store pb (WU n)))
      else if vt = BOOL then
        (case v of
           VBool b \<Rightarrow> store pb (WB b)
         | VInt n \<Rightarrow> (if n \<in> {0, 1} then store pb (WB (n \<noteq> 0)) else Inl TypeError)
         | VFloat f \<Rightarrow> (if f \<in> {Fin 0, Fin 1} then store pb (WB (f \<noteq> Fin 0)) else Inl TypeError)
         | VStr s \<Rightarrow> Inl TypeError)
      else if vt = STRING then
        (case v of VStr s \<Rightarrow> store pb (WS s) | _ \<Rightarrow> Inl TypeError)
      else Inl ValueError)"

section \<open>The batcher\<close>

record batcher =
  b_registry_seq :: int
  b_policies_by_id :: "int \<rightharpoonup> channel_policy"
  b_tick_us :: int
  b_tick_ns :: int
  b_pending :: "(string \<times> (int \<times> sample) list) list"

definition batcher_init :: "int \<Rightarrow> (int \<rightharpoonup> channel_policy) \<Rightarrow> int \<Rightarrow> batcher res" where
  "batcher_init seq pols tick_ms =
     (if \<not> (10 \<le> tick_ms \<and> tick_ms \<le> 50) then Inl ValueError
      else Inr \<lparr>b_registry_seq = seq, b_policies_by_id = pols, b_tick_us = tick_ms * 1000,
                b_tick_ns = tick_ms * 1000000, b_pending = []\<rparr>)"

definition pending_of :: "batcher \<Rightarrow> string \<Rightarrow> (int \<times> sample) list" where
  "pending_of b sc = (case map_of (b_pending b) sc of None \<Rightarrow> [] | Some xs \<Rightarrow> xs)"

definition batcher_add :: "string \<Rightarrow> int \<Rightarrow> sample \<Rightarrow> batcher \<Rightarrow> batcher res" where
  "batcher_add sc cid s b =
     (if b_policies_by_id b cid = None then Inl KeyError
      else Inr (b\<lparr>b_pending := AList.update sc (pending_of b sc @ [(cid, s)]) (b_pending b)\<rparr>))"

definition encode_sample ::
  "'w pb_runtime \<Rightarrow> batcher \<Rightarrow> int \<Rightarrow> int \<times> sample \<Rightarrow> wire_sample res" where
  "encode_sample pb b epoch_mono x =
     (let (cid, s) = x; offset_ns = t_mono_ns s - epoch_mono; offset_us = offset_ns div 1000 in
      if \<not> (0 \<le> offset_ns \<and> offset_ns < b_tick_ns b) then Inl ValueError
      else case b_policies_by_id b cid of
             None \<Rightarrow> Inl KeyError
           | Some pol \<Rightarrow>
               sbind (encode_value pb (svalue s) pol) (\<lambda>w.
                 Inr \<lparr>ws_channel_id = cid, ws_t_offset_us = offset_us, ws_value = Some w\<rparr>))"

definition encode_class ::
  "'w pb_runtime \<Rightarrow> batcher \<Rightarrow> int \<Rightarrow> int \<Rightarrow> string \<times> (int \<times> sample) list \<Rightarrow> (string \<times> 'w) res" where
  "encode_class pb b epoch_unix epoch_mono x =
     (let (sc, xs) = x in
      if \<not> pb_header_ok pb (b_registry_seq b) epoch_unix epoch_mono then Inl ValueError
      else sbind (mapE (encode_sample pb b epoch_mono) xs) (\<lambda>ws.
             Inr (sc, pb_serialize pb \<lparr>sb_registry_seq = b_registry_seq b, sb_epoch_unix_ms = epoch_unix,
                        sb_epoch_mono_ns = epoch_mono, sb_samples = ws, sb_format_version = 1\<rparr>)))"

definition batcher_tick ::
  "'w pb_runtime \<Rightarrow> int \<Rightarrow> int \<Rightarrow> batcher \<Rightarrow> (string \<times> 'w) list res \<times> batcher" where
  "batcher_tick pb epoch_unix epoch_mono b =
     (mapE (encode_class pb b epoch_unix epoch_mono) (b_pending b), b\<lparr>b_pending := []\<rparr>)"

lemmas batcher_op_defs [op_defs] =
  batcher_init_def batcher_add_def batcher_tick_def encode_class_def encode_sample_def
  encode_value_def store_def

section \<open>Grouping by source class\<close>

text \<open>What the pending table holds after a run of \<open>add\<close>: the samples of each class in the order
  they were added, classes in the order of their first sample.\<close>

type_synonym staged = "string \<times> int \<times> sample"

fun batcher_add_all :: "staged list \<Rightarrow> batcher \<Rightarrow> batcher res" where
  "batcher_add_all [] b = Inr b"
| "batcher_add_all ((sc, cid, s) # xs) b = sbind (batcher_add sc cid s b) (batcher_add_all xs)"

fun classes_of :: "staged list \<Rightarrow> string list" where
  "classes_of [] = []"
| "classes_of ((sc, cid, s) # xs) = sc # filter (\<lambda>x. x \<noteq> sc) (classes_of xs)"

definition of_class :: "string \<Rightarrow> staged list \<Rightarrow> (int \<times> sample) list" where
  "of_class sc xs = map snd (filter (\<lambda>x. fst x = sc) xs)"

definition group_by_class :: "staged list \<Rightarrow> (string \<times> (int \<times> sample) list) list" where
  "group_by_class xs = map (\<lambda>sc. (sc, of_class sc xs)) (classes_of xs)"

lemma set_classes_of: "set (classes_of xs) = fst ` set xs"
  by (induction xs rule: classes_of.induct) auto

lemma distinct_classes_of: "distinct (classes_of xs)"
  by (induction xs rule: classes_of.induct) (auto simp: set_classes_of)

lemma classes_of_snoc:
  "classes_of (xs @ [(sc, cid, s)]) = classes_of xs @ (if sc \<in> fst ` set xs then [] else [sc])"
proof (induction xs rule: classes_of.induct)
  case (2 sc' c' s' xs)
  then show ?case by (cases "sc' = sc") auto
qed simp

lemma update_grouped:
  assumes "distinct cs"
  shows "AList.update sc y (map (\<lambda>c. (c, f c)) cs) =
    map (\<lambda>c. (c, (f(sc := y)) c)) (cs @ (if sc \<in> set cs then [] else [sc]))"
  using assms by (induction cs) auto

lemma of_class_snoc: "of_class c (xs @ [(sc, cid, s)]) = of_class c xs @ (if sc = c then [(cid, s)] else [])"
  by (simp add: of_class_def)

lemma map_of_grouped: "map_of (map (\<lambda>c. (c, f c)) cs) sc = (if sc \<in> set cs then Some (f sc) else None)"
  by (induction cs) auto

lemma group_snoc:
  "AList.update sc ((case map_of (group_by_class xs) sc of None \<Rightarrow> [] | Some ys \<Rightarrow> ys) @ [(cid, s)])
     (group_by_class xs) = group_by_class (xs @ [(sc, cid, s)])"
proof -
  have "(case map_of (group_by_class xs) sc of None \<Rightarrow> [] | Some ys \<Rightarrow> ys) = of_class sc xs"
    by (auto simp: group_by_class_def map_of_grouped set_classes_of of_class_def filter_empty_conv)
  then show ?thesis
    unfolding group_by_class_def
    by (auto simp: update_grouped[OF distinct_classes_of] classes_of_snoc of_class_snoc set_classes_of)
qed

lemma batcher_add_all_grouped:
  assumes "b_pending b = group_by_class ys" and "\<forall>x \<in> set xs. b_policies_by_id b (fst (snd x)) \<noteq> None"
  shows "batcher_add_all xs b = Inr (b\<lparr>b_pending := group_by_class (ys @ xs)\<rparr>)"
  using assms
proof (induction xs arbitrary: b ys)
  case Nil
  then show ?case by simp
next
  case (Cons x xs)
  obtain sc cid s where x: "x = (sc, cid, s)" by (cases x) auto
  let ?b = "b\<lparr>b_pending := group_by_class (ys @ [x])\<rparr>"
  have "batcher_add sc cid s b = Inr ?b"
    using Cons.prems x by (auto simp: batcher_add_def pending_of_def group_snoc)
  moreover have "batcher_add_all xs ?b = Inr (?b\<lparr>b_pending := group_by_class ((ys @ [x]) @ xs)\<rparr>)"
    by (rule Cons.IH) (use Cons.prems in auto)
  ultimately show ?case using x by simp
qed

lemma batcher_add_all_empty:
  assumes "b_pending b = []" and "\<forall>x \<in> set xs. b_policies_by_id b (fst (snd x)) \<noteq> None"
  shows "batcher_add_all xs b = Inr (b\<lparr>b_pending := group_by_class xs\<rparr>)"
  using batcher_add_all_grouped[of b "[]" xs] assms by (simp add: group_by_class_def)

text \<open>Grouping loses nothing: each class holds exactly its own samples, in order.\<close>

lemma group_by_class_complete:
  "(sc, ys) \<in> set (group_by_class xs) \<longleftrightarrow> sc \<in> fst ` set xs \<and> ys = of_class sc xs"
  by (auto simp: group_by_class_def set_classes_of)

lemma of_class_subset: "(cid, s) \<in> set (of_class sc xs) \<longleftrightarrow> (sc, cid, s) \<in> set xs"
  by (auto simp: of_class_def image_iff)

end
