(* ===== verification/Registry_Cache.thy ===== *)
theory Registry_Cache
  imports Batcher
begin

text \<open>
  \<^verbatim>\<open>src/pit/registry_cache.py\<close>: the decode half every pit consumer shares. A batch is decoded only
  against the registry generation it was encoded with. The channel tables are maps from
  generation to the generation's channels by id; a later entry of a registry overrides an earlier
  one with the same id, as the dict comprehension does.

  The last section is the contract across the wire: what the batcher encodes against a catalog,
  a cache that has seen the catalog's registry decodes to the same values.
\<close>

record decoded_sample =
  ds_capture_unix_ms :: real
  ds_channel :: channel
  ds_value :: "sample_value option"

record decoded_batch =
  db_registry_seq :: int
  db_epoch_unix_ms :: int
  db_epoch_mono_ns :: int
  db_samples :: "decoded_sample list"

record registry_cache =
  rc_registries :: "int \<rightharpoonup> channel_registry"
  rc_channels :: "int \<rightharpoonup> (int \<rightharpoonup> channel)"
  rc_unknown_seqs :: "int set"
  rc_bad_versions :: "int set"
  rc_unknown_seq_batches :: nat
  rc_bad_version_batches :: nat

definition SUPPORTED_FORMAT_VERSIONS :: "int set" where
  "SUPPORTED_FORMAT_VERSIONS = {0, 1}"

definition REJECT_UNKNOWN_SEQ :: string where
  "REJECT_UNKNOWN_SEQ = ''unknown_registry_seq''"

definition REJECT_BAD_VERSION :: string where
  "REJECT_BAD_VERSION = ''bad_format_version''"

definition cache_init :: registry_cache where
  "cache_init = \<lparr>rc_registries = Map.empty, rc_channels = Map.empty, rc_unknown_seqs = {},
     rc_bad_versions = {}, rc_unknown_seq_batches = 0, rc_bad_version_batches = 0\<rparr>"

definition channel_table :: "channel list \<Rightarrow> (int \<rightharpoonup> channel)" where
  "channel_table chs = map_of (rev (map (\<lambda>c. (ch_id c, c)) chs))"

definition add_registry :: "channel_registry \<Rightarrow> registry_cache \<Rightarrow> int \<times> registry_cache" where
  "add_registry r rc =
     (reg_seq r,
      rc\<lparr>rc_registries := (rc_registries rc)(reg_seq r \<mapsto> r),
         rc_channels := (rc_channels rc)(reg_seq r \<mapsto> channel_table (reg_channels r)),
         rc_unknown_seqs := rc_unknown_seqs rc - {reg_seq r}\<rparr>)"

definition known :: "registry_cache \<Rightarrow> int \<Rightarrow> bool" where
  "known rc seq = (rc_channels rc seq \<noteq> None)"

fun field_value :: "wire_value \<Rightarrow> sample_value" where
  "field_value (WD f) = VFloat f"
| "field_value (WI n) = VInt n"
| "field_value (WB b) = VBool b"
| "field_value (WS s) = VStr s"
| "field_value (WF f) = VFloat f"
| "field_value (WU n) = VInt n"

text \<open>\<open>value * scale + offset\<close> for a non-zero scale.\<close>

fun rescale :: "flt \<Rightarrow> real \<Rightarrow> real \<Rightarrow> flt" where
  "rescale (Fin x) scale off = Fin (x * scale + off)"
| "rescale NaN scale off = NaN"
| "rescale PInf scale off = (if scale > 0 then PInf else NInf)"
| "rescale NInf scale off = (if scale > 0 then NInf else PInf)"

definition physical_value :: "channel \<Rightarrow> sample_value \<Rightarrow> sample_value" where
  "physical_value ch v =
     (case numeric v of
        None \<Rightarrow> v
      | Some f \<Rightarrow> if ch_scale ch \<noteq> 0 then VFloat (rescale f (ch_scale ch) (ch_offset ch)) else v)"

definition decode_sample :: "(int \<rightharpoonup> channel) \<Rightarrow> int \<Rightarrow> wire_sample \<Rightarrow> decoded_sample option" where
  "decode_sample chs epoch ws =
     (case chs (ws_channel_id ws) of
        None \<Rightarrow> None
      | Some ch \<Rightarrow> Some
          \<lparr>ds_capture_unix_ms = of_int epoch + of_int (ws_t_offset_us ws) / 1000,
           ds_channel = ch,
           ds_value = map_option (\<lambda>w. physical_value ch (field_value w)) (ws_value ws)\<rparr>)"

definition decode_batch ::
  "sample_batch \<Rightarrow> registry_cache \<Rightarrow> (decoded_batch option \<times> string option) \<times> registry_cache" where
  "decode_batch b rc =
     (if sb_format_version b \<notin> SUPPORTED_FORMAT_VERSIONS then
        ((None, Some REJECT_BAD_VERSION),
         rc\<lparr>rc_bad_version_batches := rc_bad_version_batches rc + 1,
            rc_bad_versions := insert (sb_format_version b) (rc_bad_versions rc)\<rparr>)
      else case rc_channels rc (sb_registry_seq b) of
        None \<Rightarrow>
          ((None, Some REJECT_UNKNOWN_SEQ),
           rc\<lparr>rc_unknown_seq_batches := rc_unknown_seq_batches rc + 1,
              rc_unknown_seqs := insert (sb_registry_seq b) (rc_unknown_seqs rc)\<rparr>)
      | Some chs \<Rightarrow>
          ((Some \<lparr>db_registry_seq = sb_registry_seq b, db_epoch_unix_ms = sb_epoch_unix_ms b,
                  db_epoch_mono_ns = sb_epoch_mono_ns b,
                  db_samples = List.map_filter (decode_sample chs (sb_epoch_unix_ms b)) (sb_samples b)\<rparr>,
            None), rc))"

definition decode_or_reason ::
  "'w pb_runtime \<Rightarrow> 'w \<Rightarrow> registry_cache
     \<Rightarrow> ((decoded_batch option \<times> string option) \<times> registry_cache) res" where
  "decode_or_reason pb payload rc =
     (case pb_parse pb payload of None \<Rightarrow> Inl DecodeError | Some b \<Rightarrow> Inr (decode_batch b rc))"

lemmas cache_op_defs [op_defs] =
  cache_init_def add_registry_def known_def decode_batch_def decode_or_reason_def

section \<open>Generations\<close>

text \<open>What the cache holds: the registries added so far, the latest of each generation.\<close>

definition cache_inv :: "registry_cache \<Rightarrow> bool" where
  [inv_defs]: "cache_inv rc \<longleftrightarrow>
     (\<forall>seq. rc_channels rc seq = map_option (\<lambda>r. channel_table (reg_channels r)) (rc_registries rc seq))
     \<and> (\<forall>seq r. rc_registries rc seq = Some r \<longrightarrow> reg_seq r = seq)
     \<and> rc_unknown_seqs rc \<inter> dom (rc_channels rc) = {}
     \<and> rc_bad_versions rc \<inter> SUPPORTED_FORMAT_VERSIONS = {}"

datatype cache_op = AddRegistry channel_registry | Decode sample_batch

fun cache_step :: "cache_op \<Rightarrow> registry_cache \<Rightarrow> registry_cache" where
  "cache_step (AddRegistry r) rc = snd (add_registry r rc)"
| "cache_step (Decode b) rc = snd (decode_batch b rc)"

interpretation rc: step_machine cache_step cache_inv
proof
  fix e s assume inv: "cache_inv s"
  show "cache_inv (cache_step e s)"
  proof (cases e)
    case (AddRegistry r)
    with inv show ?thesis by (auto simp: cache_inv_def add_registry_def)
  next
    case (Decode b)
    with inv show ?thesis by (auto simp: cache_inv_def decode_batch_def split: option.splits)
  qed
qed

fun registries_of :: "cache_op list \<Rightarrow> channel_registry list" where
  "registries_of [] = []"
| "registries_of (AddRegistry r # ops) = r # registries_of ops"
| "registries_of (Decode b # ops) = registries_of ops"

lemma decode_batch_frame:
  "rc_registries (snd (decode_batch b rc)) = rc_registries rc"
  "rc_channels (snd (decode_batch b rc)) = rc_channels rc"
  by (auto simp: decode_batch_def split: option.splits)

lemma run_registries:
  "rc_registries (fold cache_step ops rc) =
     rc_registries rc ++ map_of (rev (map (\<lambda>r. (reg_seq r, r)) (registries_of ops)))"
  by (induction ops arbitrary: rc rule: registries_of.induct)
    (auto simp: add_registry_def decode_batch_frame map_add_def fun_eq_iff split: option.splits)

lemma cache_init_inv: "cache_inv cache_init"
  by (simp add: cache_inv_def cache_init_def)

lemma decode_batch_cases:
  obtains (bad) "sb_format_version b \<notin> {0, 1}" "fst (decode_batch b rc) = (None, Some REJECT_BAD_VERSION)"
  | (unknown) "sb_format_version b \<in> {0, 1}" "rc_channels rc (sb_registry_seq b) = None"
      "fst (decode_batch b rc) = (None, Some REJECT_UNKNOWN_SEQ)"
  | (ok) chs where "sb_format_version b \<in> {0, 1}" "rc_channels rc (sb_registry_seq b) = Some chs"
      "fst (decode_batch b rc) =
         (Some \<lparr>db_registry_seq = sb_registry_seq b, db_epoch_unix_ms = sb_epoch_unix_ms b,
                db_epoch_mono_ns = sb_epoch_mono_ns b,
                db_samples = List.map_filter (decode_sample chs (sb_epoch_unix_ms b)) (sb_samples b)\<rparr>, None)"
  by (auto simp: decode_batch_def SUPPORTED_FORMAT_VERSIONS_def split: option.splits if_splits)

lemma channel_table_set: "channel_table chs i = Some c \<Longrightarrow> c \<in> set chs \<and> ch_id c = i"
  by (auto simp: channel_table_def dest!: map_of_SomeD)

lemma map_filter_set: "x \<in> set (List.map_filter f xs) \<longleftrightarrow> (\<exists>y \<in> set xs. f y = Some x)"
  by (force simp: map_filter_def)

lemma decoded_channel:
  assumes "s \<in> set (List.map_filter (decode_sample (channel_table chs) epoch) ws)"
  shows "ds_channel s \<in> set chs"
proof -
  from assms obtain w where "decode_sample (channel_table chs) epoch w = Some s"
    by (auto simp: map_filter_set)
  then obtain c where "channel_table chs (ws_channel_id w) = Some c" "ds_channel s = c"
    by (auto simp: decode_sample_def split: option.splits)
  then show ?thesis by (auto dest: channel_table_set)
qed

lemma run_channels:
  assumes "rc = fold cache_step ops cache_init"
  shows "rc_channels rc seq =
    map_option (\<lambda>r. channel_table (reg_channels r))
      (map_of (rev (map (\<lambda>r. (reg_seq r, r)) (registries_of ops))) seq)"
proof -
  have "cache_inv rc" unfolding assms by (rule rc.run_inv[OF cache_init_inv])
  then have "rc_channels rc seq =
      map_option (\<lambda>r. channel_table (reg_channels r)) (rc_registries rc seq)"
    unfolding cache_inv_def by blast
  moreover have "rc_registries rc = map_of (rev (map (\<lambda>r. (reg_seq r, r)) (registries_of ops)))"
    unfolding assms by (subst run_registries) (simp add: cache_init_def)
  ultimately show ?thesis by simp
qed

lemma map_of_registries_None:
  "map_of (rev (map (\<lambda>r. (reg_seq r, r)) rs)) seq = None \<longleftrightarrow> (\<forall>r \<in> set rs. reg_seq r \<noteq> seq)"
  by (force simp: map_of_eq_None_iff)

lemma map_of_registries_Some:
  "map_of (rev (map (\<lambda>r. (reg_seq r, r)) rs)) seq = Some r \<Longrightarrow> r \<in> set rs \<and> reg_seq r = seq"
  by (auto dest!: map_of_SomeD)

section \<open>Across the wire\<close>

text \<open>
  What the protobuf runtime is relied on for, beside parsing what it serialized: a stored field
  reads back as stored, except that a single-precision field is rounded.
\<close>

definition pb_stores_exactly :: "'w pb_runtime \<Rightarrow> bool" where
  "pb_stores_exactly pb \<longleftrightarrow>
     (\<forall>w w'. pb_store pb w = Some w' \<longrightarrow> (case w of WF f \<Rightarrow> (\<exists>f'. w' = WF f') | _ \<Rightarrow> w' = w))"

text \<open>The value a consumer sees against the value the collector captured.\<close>

definition value_preserved :: "channel_policy \<Rightarrow> sample_value \<Rightarrow> sample_value \<Rightarrow> bool" where
  "value_preserved pol v v' \<longleftrightarrow>
     (case cp_value_type pol of
        DOUBLE \<Rightarrow> (\<exists>f. numeric v = Some f \<and> v' = VFloat f)
      | FLOAT \<Rightarrow> (\<exists>f. v' = VFloat f)
      | BOOL \<Rightarrow> (\<exists>b. v' = VBool b \<and> v \<in> {VBool b, VInt (of_bool b), VFloat (Fin (of_bool b))})
      | STRING \<Rightarrow> v' = v
      | VALUE_TYPE_UNSPECIFIED \<Rightarrow> False
      | _ \<Rightarrow>
          if cp_scale pol = 0 then (\<exists>n. v' = VInt n \<and> numeric v = Some (Fin (of_int n)))
          else (\<exists>x x'. numeric v = Some (Fin x) \<and> v' = VFloat (Fin x') \<and> \<bar>x' - x\<bar> \<le> \<bar>cp_scale pol\<bar> / 2))"

lemma scaled_error:
  fixes x off scale :: real
  assumes "scale \<noteq> 0"
  shows "\<bar>of_int (py_round ((x - off) / scale)) * scale + off - x\<bar> \<le> \<bar>scale\<bar> / 2"
proof -
  let ?q = "(x - off) / scale"
  have "?q * scale = x - off" using assms by simp
  then have "of_int (py_round ?q) * scale + off - x = (of_int (py_round ?q) - ?q) * scale"
    by (simp only: left_diff_distrib)
  then have "\<bar>of_int (py_round ?q) * scale + off - x\<bar> = \<bar>of_int (py_round ?q) - ?q\<bar> * \<bar>scale\<bar>"
    by (simp add: abs_mult)
  also have "\<dots> \<le> 1 / 2 * \<bar>scale\<bar>"
    by (intro mult_right_mono py_round_error) simp
  finally show ?thesis by simp
qed

lemma encode_int_preserved:
  assumes st: "pb_stores_exactly pb" and enc: "encode_value pb v pol = Inr w"
    and vt: "cp_value_type pol \<in> {INT64, UINT}"
    and ch: "ch_scale ch = cp_scale pol" "ch_offset ch = cp_offset pol"
  shows "value_preserved pol v (physical_value ch (field_value w))"
proof -
  from enc vt obtain f n where f: "numeric v = Some f"
    and n: "(if cp_scale pol \<noteq> 0 then round_flt (unscale f (cp_offset pol) (cp_scale pol)) else unscaled_int v) = Inr n"
    and w: "w = WI n \<or> w = WU n"
    using st by (fastforce simp: encode_value_def Let_def store_def sbind_Inr_iff pb_stores_exactly_def
        split: option.splits if_splits)
  have fv: "field_value w = VInt n" using w by auto
  show ?thesis
  proof (cases "cp_scale pol = 0")
    case True
    with n have "unscaled_int v = Inr n" by simp
    then have "numeric v = Some (Fin (of_int n))"
      by (cases v rule: unscaled_int.cases) (auto split: if_splits elim!: Ints_cases)
    with True vt ch fv show ?thesis by (auto simp: value_preserved_def physical_value_def)
  next
    case False
    with n obtain x where x: "f = Fin x" and "n = py_round ((x - cp_offset pol) / cp_scale pol)"
      by (cases f) (auto split: if_splits)
    with False scaled_error[OF False, of x "cp_offset pol"] vt ch fv f show ?thesis
      by (auto simp: value_preserved_def physical_value_def)
  qed
qed

lemma encode_value_preserved:
  assumes st: "pb_stores_exactly pb" and enc: "encode_value pb v pol = Inr w"
    and ch: "ch_scale ch = cp_scale pol" "ch_offset ch = cp_offset pol"
    and scale: "cp_value_type pol \<notin> {INT64, UINT} \<Longrightarrow> cp_scale pol = 0"
  shows "value_preserved pol v (physical_value ch (field_value w))"
proof (cases "cp_value_type pol \<in> {INT64, UINT}")
  case True
  then show ?thesis using encode_int_preserved[OF st enc _ ch] by simp
next
  case False
  then have "ch_scale ch = 0" using scale ch by simp
  with False enc st show ?thesis
    by (cases v; cases "cp_value_type pol")
      (fastforce simp: encode_value_def store_def value_preserved_def physical_value_def
        pb_stores_exactly_def split: option.splits if_splits)+
qed

lemma encode_sampleD:
  assumes "encode_sample pb b em (cid, s) = Inr w"
  shows "\<exists>pol wv. b_policies_by_id b cid = Some pol \<and> encode_value pb (svalue s) pol = Inr wv
    \<and> w = \<lparr>ws_channel_id = cid, ws_t_offset_us = (t_mono_ns s - em) div 1000, ws_value = Some wv\<rparr>
    \<and> 0 \<le> t_mono_ns s - em \<and> t_mono_ns s - em < b_tick_ns b"
  using assms by (auto simp: encode_sample_def Let_def sbind_Inr_iff split: if_splits option.splits)

lemma offset_us_error:
  fixes n :: int
  shows "of_int n / 1000000 - 1 / 1000 < of_int (n div 1000) / (1000 :: real)
    \<and> of_int (n div 1000) / (1000 :: real) \<le> of_int n / 1000000"
proof -
  have "n = 1000 * (n div 1000) + n mod 1000" by simp
  then have "of_int n = 1000 * of_int (n div 1000) + (of_int (n mod 1000) :: real)"
    by (metis of_int_add of_int_mult of_int_numeral)
  moreover have "0 \<le> n mod 1000" "n mod 1000 < 1000" by simp_all
  then have "(0::real) \<le> of_int (n mod 1000)" "(of_int (n mod 1000) :: real) < 1000" by linarith+
  ultimately show ?thesis by (auto simp: field_simps)
qed

text \<open>One decoded sample against the captured one.\<close>

definition sample_preserved ::
  "batcher \<Rightarrow> int \<Rightarrow> int \<Rightarrow> int \<times> sample \<Rightarrow> decoded_sample \<Rightarrow> bool" where
  "sample_preserved b eu em x d \<longleftrightarrow>
     (let (cid, s) = x; exact = of_int eu + of_int (t_mono_ns s - em) / 1000000 in
      ch_id (ds_channel d) = cid
      \<and> (\<exists>pol v. b_policies_by_id b cid = Some pol \<and> ch_name (ds_channel d) = cp_name pol
           \<and> ds_value d = Some v \<and> value_preserved pol (svalue s) v)
      \<and> exact - 1 / 1000 < ds_capture_unix_ms d \<and> ds_capture_unix_ms d \<le> exact)"

lemma channel_table_distinct:
  assumes "distinct (map ch_id chs)" and "c \<in> set chs"
  shows "channel_table chs (ch_id c) = Some c"
proof -
  have "distinct (map fst (rev (map (\<lambda>c. (ch_id c, c)) chs)))"
    using assms(1) by (simp add: rev_map[symmetric] comp_def)
  then show ?thesis unfolding channel_table_def using assms(2) by (intro map_of_is_SomeI) auto
qed

definition encode_valid :: "runtime_catalog \<Rightarrow> bool" where
  "encode_valid cat \<longleftrightarrow>
     (\<forall>ch \<in> set (reg_channels (registry cat)). ch_type ch \<notin> {INT64, UINT} \<longrightarrow> ch_scale ch = 0)"

lemma decode_encoded_sample:
  assumes inv: "catalog_inv cat" and valid: "encode_valid cat" and st: "pb_stores_exactly pb"
    and b: "b_policies_by_id b = policies_by_id cat"
    and enc: "encode_sample pb b em x = Inr w"
  shows "\<exists>d. decode_sample (channel_table (reg_channels (registry cat))) eu w = Some d
    \<and> sample_preserved b eu em x d"
proof -
  obtain cid s where x: "x = (cid, s)" by fastforce
  from encode_sampleD[OF enc[unfolded x]] obtain pol wv where pol: "policies_by_id cat cid = Some pol"
    and wv: "encode_value pb (svalue s) pol = Inr wv"
    and w: "w = \<lparr>ws_channel_id = cid, ws_t_offset_us = (t_mono_ns s - em) div 1000, ws_value = Some wv\<rparr>"
    using b by auto
  have "cid \<in> ch_id ` set (reg_channels (registry cat))" using pol inv by (auto simp: catalog_inv_def)
  then obtain ch where ch: "ch \<in> set (reg_channels (registry cat))" "ch_id ch = cid" by auto
  have tab: "channel_table (reg_channels (registry cat)) cid = Some ch"
    using channel_table_distinct[of "reg_channels (registry cat)" ch] inv ch by (auto simp: catalog_inv_def)
  have eq: "ch_scale ch = cp_scale pol" "ch_offset ch = cp_offset pol" "ch_name ch = cp_name pol"
    "ch_type ch = cp_value_type pol"
    using inv ch pol by (auto simp: catalog_inv_def channel_listed_def)
  have "value_preserved pol (svalue s) (physical_value ch (field_value wv))"
    by (rule encode_value_preserved[OF st wv eq(1,2)]) (use valid ch eq in \<open>auto simp: encode_valid_def\<close>)
  with tab w pol b ch eq offset_us_error[of "t_mono_ns s - em"] x show ?thesis
    by (auto simp: decode_sample_def sample_preserved_def)
qed

lemma decode_encoded_samples:
  assumes "catalog_inv cat" "encode_valid cat" "pb_stores_exactly pb"
    "b_policies_by_id b = policies_by_id cat" "mapE (encode_sample pb b em) xs = Inr ws"
  shows "list_all2 (sample_preserved b eu em) xs
    (List.map_filter (decode_sample (channel_table (reg_channels (registry cat))) eu) ws)"
  using assms(5)
proof (induction xs arbitrary: ws)
  case Nil
  then show ?case by (simp add: map_filter_simps)
next
  case (Cons x xs)
  then obtain w ws' where w: "encode_sample pb b em x = Inr w" "mapE (encode_sample pb b em) xs = Inr ws'"
    "ws = w # ws'"
    by (auto simp: sbind_Inr_iff)
  with decode_encoded_sample[OF assms(1-4) w(1), of eu] Cons.IH[OF w(2)] show ?case
    by (auto simp: map_filter_simps)
qed

section \<open>Properties\<close>

text \<open>
  After any sequence of registries and batches, a batch is decoded exactly when its format
  version is supported and a registry of its own generation has been seen, every decoded sample
  resolves to a channel of a registry of that very generation, and a refusal carries the reason
  that tells the two cases apart.
\<close>
theorem decode_own_generation:
  assumes "rc = fold cache_step ops cache_init" and "fst (decode_batch b rc) = (r, reason)"
  shows "(r \<noteq> None \<longleftrightarrow> sb_format_version b \<in> {0, 1}
      \<and> (\<exists>reg \<in> set (registries_of ops). reg_seq reg = sb_registry_seq b))
    \<and> (\<forall>db. r = Some db \<longrightarrow> reason = None
        \<and> (\<exists>reg \<in> set (registries_of ops). reg_seq reg = sb_registry_seq b
             \<and> (\<forall>s \<in> set (db_samples db). ds_channel s \<in> set (reg_channels reg))))
    \<and> (r = None \<longrightarrow> reason =
        Some (if sb_format_version b \<in> {0, 1} then REJECT_UNKNOWN_SEQ else REJECT_BAD_VERSION))"
proof (cases b rc rule: decode_batch_cases)
  case bad
  with assms(2) show ?thesis by auto
next
  case unknown
  then have "\<forall>reg \<in> set (registries_of ops). reg_seq reg \<noteq> sb_registry_seq b"
    unfolding run_channels[OF assms(1)] by (simp add: map_of_registries_None)
  with unknown assms(2) show ?thesis by auto
next
  case (ok chs)
  then obtain reg where reg: "map_of (rev (map (\<lambda>r. (reg_seq r, r)) (registries_of ops))) (sb_registry_seq b) = Some reg"
    and chs: "chs = channel_table (reg_channels reg)"
    unfolding run_channels[OF assms(1)] by auto
  from map_of_registries_Some[OF reg] ok assms(2) chs decoded_channel show ?thesis by fastforce
qed

definition wit_registry :: channel_registry where
  "wit_registry = \<lparr>reg_seq = 7, reg_vehicle_id = ''car1'', reg_created_unix_ms = 0,
     reg_channels = [\<lparr>ch_id = 1, ch_name = ''car.rpm'', ch_source_ref = ''can0:RPM'', ch_units = ''rpm'',
                       ch_type = UINT, ch_scale = 0, ch_offset = 0\<rparr>]\<rparr>"

definition wit_batch :: sample_batch where
  "wit_batch = \<lparr>sb_registry_seq = 7, sb_epoch_unix_ms = 1000, sb_epoch_mono_ns = 0,
     sb_samples = [\<lparr>ws_channel_id = 1, ws_t_offset_us = 5, ws_value = Some (WU 900)\<rparr>],
     sb_format_version = 1\<rparr>"

theorem decode_own_generation_witness:
  "let rc = fold cache_step [AddRegistry wit_registry] cache_init; r = fst (fst (decode_batch wit_batch rc))
   in r \<noteq> None
    \<and> (\<forall>db. r = Some db \<longrightarrow>
        (\<exists>reg \<in> set (registries_of [AddRegistry wit_registry]). reg_seq reg = 7
             \<and> (\<forall>s \<in> set (db_samples db). ds_channel s \<in> set (reg_channels reg))))"
  unfolding Let_def
  using decode_own_generation[OF refl, of wit_batch "[AddRegistry wit_registry]"]
  by (cases "fst (decode_batch wit_batch (fold cache_step [AddRegistry wit_registry] cache_init))")
    (auto simp: wit_batch_def wit_registry_def)


definition wit_pb :: "sample_batch pb_runtime" where
  "wit_pb = \<lparr>pb_store = Some, pb_header_ok = (\<lambda>_ _ _. True), pb_serialize = (\<lambda>m. m), pb_parse = Some\<rparr>"

definition wit_pol :: channel_policy where
  "wit_pol = \<lparr>cp_name = ''car.rpm'', cp_value_type = UINT, cp_rbe = None, cp_scale = 0, cp_offset = 0\<rparr>"

definition wit_cat :: runtime_catalog where
  "wit_cat = \<lparr>source_map = [''can0:RPM'' \<mapsto> (1, wit_pol)], channel_ids = [(''car.rpm'', 1)],
     policies_by_id = [1 \<mapsto> wit_pol], registry = wit_registry\<rparr>"

definition wit_batcher :: batcher where
  "wit_batcher = \<lparr>b_registry_seq = 7, b_policies_by_id = policies_by_id wit_cat, b_tick_us = 20000,
     b_tick_ns = 20000000, b_pending = []\<rparr>"


end
