(* ===== verification/Pipeline.thy ===== *)
theory Pipeline
  imports Batcher
begin

text \<open>
  \<^verbatim>\<open>src/agent/pipeline.py\<close>: the single consumer of every collector queue. \<open>ingest\<close> maps a sample,
  shows it to the two app taps (whose derived samples re-enter \<open>ingest\<close>), filters and stages it;
  \<open>flush\<close> cuts what is staged into tick windows and serializes each.

  The taps are the constructor arguments \<open>fusion_app\<close> and \<open>timing_app\<close>: an optional \<open>tap\<close> with the
  channel ids it subscribes to and its \<open>observe\<close>, over a state of any type. \<open>wall_clock\<close> is the
  argument of \<open>flush\<close>. \<open>ingest\<close> recurses through the taps, so it runs on fuel and \<open>None\<close> means it
  did not return; \<open>flush\<close> loops over the staged list, on fuel too. Log-once bookkeeping of failure
  texts (\<open>_note_failure\<close>) changes no behaviour and is left out.
\<close>

section \<open>State\<close>

record tick_batch_hdr =
  tb_source_class :: string
  tb_epoch_unix_ms :: int
  tb_epoch_mono_ns :: int
  tb_msg_id :: string

record 'w tick_batch = tick_batch_hdr +
  tb_payload :: 'w

record 'a tap =
  tap_ids :: "int set"
  tap_observe :: "int \<Rightarrow> sample \<Rightarrow> 'a \<Rightarrow> sample list res \<times> 'a"

record ('f, 't) pipeline =
  p_source_map :: "string \<rightharpoonup> int \<times> channel_policy"
  p_rbe :: rbe_filter
  p_batcher :: batcher
  p_tick_ns :: int
  p_fusion :: "('f tap \<times> 'f) option"
  p_timing :: "('t tap \<times> 't) option"
  p_staged :: "staged list"
  p_reported_unmapped :: "string set"
  p_unmapped_refs :: nat
  p_encode_failures :: nat

definition DERIVED_SOURCE_CLASS :: string where
  "DERIVED_SOURCE_CLASS = ''derived''"

definition MAX_TRACKED_UNMAPPED_REFS :: nat where
  "MAX_TRACKED_UNMAPPED_REFS = 1024"

definition pipeline_init ::
  "runtime_catalog \<Rightarrow> int \<Rightarrow> ('t tap \<times> 't) option \<Rightarrow> ('f tap \<times> 'f) option
     \<Rightarrow> ('f, 't) pipeline res" where
  "pipeline_init cat tick_ms timing fusion =
     sbind (batcher_init (reg_seq (registry cat)) (policies_by_id cat) tick_ms) (\<lambda>b.
       Inr \<lparr>p_source_map = source_map cat, p_rbe = rbe_init, p_batcher = b,
            p_tick_ns = tick_ms * 1000000, p_fusion = fusion, p_timing = timing, p_staged = [],
            p_reported_unmapped = {}, p_unmapped_refs = 0, p_encode_failures = 0\<rparr>)"

section \<open>Ingest\<close>

definition note_unmapped :: "string \<Rightarrow> ('f, 't) pipeline \<Rightarrow> ('f, 't) pipeline" where
  "note_unmapped sref p =
     p\<lparr>p_unmapped_refs := p_unmapped_refs p + 1,
       p_reported_unmapped :=
         (if sref \<notin> p_reported_unmapped p \<and> card (p_reported_unmapped p) < MAX_TRACKED_UNMAPPED_REFS
          then insert sref (p_reported_unmapped p) else p_reported_unmapped p)\<rparr>"

text \<open>Show a sample to a tap: nothing happens without a tap or a subscription.\<close>

definition offer :: "int \<Rightarrow> sample \<Rightarrow> ('a tap \<times> 'a) option \<Rightarrow> sample list res \<times> ('a tap \<times> 'a) option" where
  "offer cid s t =
     (case t of
        None \<Rightarrow> (Inr [], None)
      | Some (tp, st) \<Rightarrow>
          if cid \<in> tap_ids tp
          then (let (r, st') = tap_observe tp cid s st in (r, Some (tp, st')))
          else (Inr [], t))"

definition observe_fusion :: "int \<Rightarrow> sample \<Rightarrow> ('f, 't) pipeline \<Rightarrow> sample list res \<times> ('f, 't) pipeline" where
  "observe_fusion cid s p = (let (r, t) = offer cid s (p_fusion p) in (r, p\<lparr>p_fusion := t\<rparr>))"

definition observe_timing :: "int \<Rightarrow> sample \<Rightarrow> ('f, 't) pipeline \<Rightarrow> sample list res \<times> ('f, 't) pipeline" where
  "observe_timing cid s p = (let (r, t) = offer cid s (p_timing p) in (r, p\<lparr>p_timing := t\<rparr>))"

text \<open>The filter and the staging list. A \<open>TypeError\<close> of the filter drops the sample.\<close>

definition stage ::
  "string \<Rightarrow> int \<Rightarrow> channel_policy \<Rightarrow> sample \<Rightarrow> ('f, 't) pipeline \<Rightarrow> unit res \<times> ('f, 't) pipeline" where
  "stage sc cid pol s p =
     (let (r, f) = accept cid s (cp_rbe pol) (p_rbe p); p' = p\<lparr>p_rbe := f\<rparr> in
      case r of
        Inl TypeError \<Rightarrow> (Inr (), p')
      | Inl e \<Rightarrow> (Inl e, p')
      | Inr keep \<Rightarrow> (Inr (), if keep then p'\<lparr>p_staged := p_staged p' @ [(sc, cid, s)]\<rparr> else p'))"

text \<open>Continue with the derived samples unless the tap raised, and with the rest unless they did.\<close>

fun on_ok ::
  "(unit res \<times> 'p) option \<Rightarrow> ('p \<Rightarrow> (unit res \<times> 'p) option) \<Rightarrow> (unit res \<times> 'p) option" where
  "on_ok (Some (Inr u, p)) k = k p"
| "on_ok r k = r"

fun ingest ::
    "nat \<Rightarrow> string \<Rightarrow> sample \<Rightarrow> ('f, 't) pipeline \<Rightarrow> (unit res \<times> ('f, 't) pipeline) option"
  and ingest_all ::
    "nat \<Rightarrow> sample list \<Rightarrow> ('f, 't) pipeline \<Rightarrow> (unit res \<times> ('f, 't) pipeline) option" where
  "ingest 0 sc s p = None"
| "ingest (Suc n) sc s p =
     (case p_source_map p (source_ref s) of
        None \<Rightarrow> Some (Inr (), note_unmapped (source_ref s) p)
      | Some (cid, pol) \<Rightarrow>
          (case observe_fusion cid s p of
             (Inl e, p1) \<Rightarrow> Some (Inl e, p1)
           | (Inr ds, p1) \<Rightarrow>
               on_ok (ingest_all n ds p1) (\<lambda>p2.
                 case observe_timing cid s p2 of
                   (Inl e, p3) \<Rightarrow> Some (Inl e, p3)
                 | (Inr ds', p3) \<Rightarrow>
                     on_ok (ingest_all n ds' p3) (\<lambda>p4. Some (stage sc cid pol s p4)))))"
| "ingest_all n [] p = Some (Inr (), p)"
| "ingest_all n (d # ds) p = on_ok (ingest n DERIVED_SOURCE_CLASS d p) (ingest_all n ds)"

section \<open>Flush\<close>

text \<open>The inner loop: add staged samples while they fall into the window.\<close>

fun fill_tick_window ::
  "int \<Rightarrow> int \<Rightarrow> staged list \<Rightarrow> batcher \<Rightarrow> staged list res \<times> batcher" where
  "fill_tick_window tick epoch [] b = (Inr [], b)"
| "fill_tick_window tick epoch ((sc, cid, s) # xs) b =
     (if t_mono_ns s - epoch < tick then
        (case batcher_add sc cid s b of
           Inl e \<Rightarrow> (Inl e, b)
         | Inr b' \<Rightarrow> fill_tick_window tick epoch xs b')
      else (Inr ((sc, cid, s) # xs), b))"

definition msg_id_of :: "string \<Rightarrow> int \<Rightarrow> string" where
  "msg_id_of sc epoch = sc @ '':'' @ show_int epoch"

definition tick_batch_of :: "int \<Rightarrow> int \<Rightarrow> string \<times> 'w \<Rightarrow> 'w tick_batch" where
  "tick_batch_of eu em x =
     \<lparr>tb_source_class = fst x, tb_epoch_unix_ms = eu, tb_epoch_mono_ns = em,
      tb_msg_id = msg_id_of (fst x) eu, tb_payload = snd x\<rparr>"

abbreviation capture :: "staged \<Rightarrow> int" where
  "capture x \<equiv> t_mono_ns (snd (snd x))"

fun flush_loop ::
  "nat \<Rightarrow> 'w pb_runtime \<Rightarrow> (int \<Rightarrow> real) \<Rightarrow> staged list \<Rightarrow> 'w tick_batch list \<Rightarrow> ('f, 't) pipeline
     \<Rightarrow> ('w tick_batch list res \<times> ('f, 't) pipeline) option" where
  "flush_loop n pb clk [] acc p = Some (Inr acc, p)"
| "flush_loop 0 pb clk (x # xs) acc p = None"
| "flush_loop (Suc n) pb clk (x # xs) acc p =
     (let em = capture x; eu = py_round (clk em) in
      case fill_tick_window (p_tick_ns p) em (x # xs) (p_batcher p) of
        (Inl e, b) \<Rightarrow> Some (Inl e, p\<lparr>p_batcher := b\<rparr>)
      | (Inr rest, b) \<Rightarrow>
          (case batcher_tick pb eu em b of
             (Inr emitted, b') \<Rightarrow>
               flush_loop n pb clk rest (acc @ map (tick_batch_of eu em) emitted) (p\<lparr>p_batcher := b'\<rparr>)
           | (Inl e, b') \<Rightarrow>
               (if e \<in> {TypeError, ValueError}
                then flush_loop n pb clk rest acc
                       (p\<lparr>p_batcher := b', p_encode_failures := p_encode_failures p + 1\<rparr>)
                else Some (Inl e, p\<lparr>p_batcher := b'\<rparr>))))"

definition flush ::
  "'w pb_runtime \<Rightarrow> (int \<Rightarrow> real) \<Rightarrow> ('f, 't) pipeline
     \<Rightarrow> ('w tick_batch list res \<times> ('f, 't) pipeline) option" where
  "flush pb clk p =
     flush_loop (length (p_staged p)) pb clk (sort_key capture (p_staged p)) [] (p\<lparr>p_staged := []\<rparr>)"

lemmas pipeline_op_defs [op_defs] =
  pipeline_init_def note_unmapped_def offer_def observe_fusion_def observe_timing_def stage_def flush_def

section \<open>Specification of a flush\<close>

text \<open>
  What \<open>flush\<close> promises, without the batcher: the staged samples by capture time, cut greedily
  into windows anchored at their first sample.
\<close>

function windows :: "int \<Rightarrow> staged list \<Rightarrow> staged list list" where
  "windows tick [] = []"
| "windows tick (x # xs) =
     (x # takeWhile (\<lambda>y. capture y - capture x < tick) xs)
     # windows tick (dropWhile (\<lambda>y. capture y - capture x < tick) xs)"
  by pat_completeness auto
termination
  by (relation "measure (\<lambda>(t, xs). length xs)") (auto simp: le_imp_less_Suc length_dropWhile_le)

text \<open>What one window encodes to, and what \<open>flush\<close> makes of it.\<close>

definition window_result ::
  "'w pb_runtime \<Rightarrow> (int \<Rightarrow> real) \<Rightarrow> batcher \<Rightarrow> staged list \<Rightarrow> (string \<times> 'w) list res" where
  "window_result pb clk b w =
     mapE (encode_class pb b (py_round (clk (capture (hd w)))) (capture (hd w))) (group_by_class w)"

definition window_batches ::
  "'w pb_runtime \<Rightarrow> (int \<Rightarrow> real) \<Rightarrow> batcher \<Rightarrow> staged list \<Rightarrow> 'w tick_batch list" where
  "window_batches pb clk b w =
     (case window_result pb clk b w of
        Inl e \<Rightarrow> []
      | Inr xs \<Rightarrow> map (tick_batch_of (py_round (clk (capture (hd w)))) (capture (hd w))) xs)"

definition window_fails :: "'w pb_runtime \<Rightarrow> (int \<Rightarrow> real) \<Rightarrow> batcher \<Rightarrow> staged list \<Rightarrow> bool" where
  "window_fails pb clk b w \<longleftrightarrow> (\<exists>e. window_result pb clk b w = Inl e)"

lemma windows_concat: "concat (windows tick xs) = xs"
  by (induction tick xs rule: windows.induct) auto

lemma windows_nonempty: "w \<in> set (windows tick xs) \<Longrightarrow> w \<noteq> []"
  by (induction tick xs rule: windows.induct) auto

lemma windows_width:
  "sorted (map capture xs) \<Longrightarrow> w \<in> set (windows tick xs) \<Longrightarrow> y \<in> set w \<Longrightarrow> 0 < tick \<Longrightarrow>
     0 \<le> capture y - capture (hd w) \<and> capture y - capture (hd w) < tick"
proof (induction tick xs rule: windows.induct)
  case (2 tick x xs)
  show ?case
  proof (cases "w = x # takeWhile (\<lambda>y. capture y - capture x < tick) xs")
    case True
    with 2(2-5) show ?thesis by (auto dest: set_takeWhileD)
  next
    case False
    have "sorted (map capture (dropWhile (\<lambda>y. capture y - capture x < tick) xs))"
      using 2(2) by (metis (mono_tags, lifting) dropWhile_eq_drop drop_map list.simps(9) sorted_simps(2) sorted_wrt_drop)
    with 2 False show ?thesis by auto
  qed
qed simp

text \<open>Consecutive windows start at least a tick apart.\<close>

lemma windows_gap:
  "sorted (map capture xs) \<Longrightarrow> 0 < tick \<Longrightarrow>
     sorted_wrt (\<lambda>v w. capture (hd v) + tick \<le> capture (hd w)) (windows tick xs)"
proof (induction tick xs rule: windows.induct)
  case (2 tick x xs)
  let ?r = "dropWhile (\<lambda>y. capture y - capture x < tick) xs"
  have s: "sorted (map capture ?r)"
    using 2(2) by (metis (mono_tags, lifting) dropWhile_eq_drop drop_map list.simps(9) sorted_simps(2) sorted_wrt_drop)
  have far: "capture x + tick \<le> capture y" if "y \<in> set ?r" for y
  proof (cases ?r)
    case Nil
    with that show ?thesis by (simp only: list.set empty_iff)
  next
    case (Cons z zs)
    then have "\<not> capture z - capture x < tick" by (metis dropWhile_hd_False)
    moreover have "capture z \<le> capture y" using s that Cons by auto
    ultimately show ?thesis by simp
  qed
  have "capture x + tick \<le> capture (hd w)" if "w \<in> set (windows tick ?r)" for w
  proof -
    have "hd w \<in> set (concat (windows tick ?r))"
      using that hd_in_set[OF windows_nonempty[OF that]] by (simp only: set_concat) blast
    then show ?thesis using far by (simp only: windows_concat)
  qed
  with 2(1)[OF s 2(3)] show ?case by auto
qed simp

section \<open>The loop refines the specification\<close>

lemma fill_tick_window_eq:
  assumes "batcher_add_all (takeWhile (\<lambda>y. capture y - em < tick) xs) b = Inr b'"
  shows "fill_tick_window tick em xs b = (Inr (dropWhile (\<lambda>y. capture y - em < tick) xs), b')"
  using assms
  by (induction tick em xs b rule: fill_tick_window.induct)
    (auto simp: sbind_Inr_iff split: if_splits)

lemma encode_class_pending [simp]: "encode_class pb (b\<lparr>b_pending := g\<rparr>) = encode_class pb b"
proof -
  have "encode_sample pb (b\<lparr>b_pending := g\<rparr>) = encode_sample pb b"
    by (intro ext) (auto simp: encode_sample_def Let_def split: prod.splits option.splits)
  then show ?thesis by (intro ext) (auto simp: encode_class_def Let_def split: prod.splits)
qed

lemma flush_step:
  assumes known: "\<forall>y \<in> set (x # xs). b_policies_by_id (p_batcher p) (fst (snd y)) \<noteq> None"
    and pend: "b_pending (p_batcher p) = []" and tick: "0 < p_tick_ns p"
  defines "w \<equiv> x # takeWhile (\<lambda>y. capture y - capture x < p_tick_ns p) xs"
    and "rest \<equiv> dropWhile (\<lambda>y. capture y - capture x < p_tick_ns p) xs"
  shows "flush_loop (Suc n) pb clk (x # xs) acc p =
    (case window_result pb clk (p_batcher p) w of
       Inr em \<Rightarrow> flush_loop n pb clk rest (acc @ window_batches pb clk (p_batcher p) w) p
     | Inl e \<Rightarrow> if e \<in> {TypeError, ValueError}
               then flush_loop n pb clk rest acc (p\<lparr>p_encode_failures := p_encode_failures p + 1\<rparr>)
               else Some (Inl e, p))"
proof -
  have w: "takeWhile (\<lambda>y. capture y - capture x < p_tick_ns p) (x # xs) = w"
    and r: "dropWhile (\<lambda>y. capture y - capture x < p_tick_ns p) (x # xs) = rest"
    using tick by (simp_all add: w_def rest_def)
  have "\<forall>y \<in> set w. b_policies_by_id (p_batcher p) (fst (snd y)) \<noteq> None"
    using known by (auto simp: w_def dest: set_takeWhileD)
  then have fill: "fill_tick_window (p_tick_ns p) (capture x) (x # xs) (p_batcher p) =
      (Inr rest, (p_batcher p)\<lparr>b_pending := group_by_class w\<rparr>)"
    using fill_tick_window_eq[of "capture x" "p_tick_ns p" "x # xs" "p_batcher p"]
      batcher_add_all_empty[OF pend, of w] unfolding w r by simp
  have same: "p\<lparr>p_batcher := (p_batcher p)\<lparr>b_pending := []\<rparr>\<rparr> = p" using pend by simp
  have hd: "hd w = x" by (simp add: w_def)
  show ?thesis
    by (auto simp: fill Let_def batcher_tick_def window_result_def window_batches_def hd same
        split: sum.splits)
qed

text \<open>An exception the window's \<open>except\<close> clause catches.\<close>

abbreviation caught :: "exn \<Rightarrow> bool" where
  "caught e \<equiv> e \<in> {TypeError, ValueError}"

lemma flush_loop_windows:
  fixes p :: "('f, 't) pipeline"
  assumes "\<forall>x \<in> set xs. b_policies_by_id (p_batcher p) (fst (snd x)) \<noteq> None"
    and "b_pending (p_batcher p) = []" and "0 < p_tick_ns p" and "length xs \<le> n"
    and "\<forall>w \<in> set (windows (p_tick_ns p) xs). \<forall>e.
           window_result pb clk (p_batcher p) w = Inl e \<longrightarrow> caught e"
  shows "flush_loop n pb clk xs acc p =
    Some (Inr (acc @ concat (map (window_batches pb clk (p_batcher p)) (windows (p_tick_ns p) xs))),
      p\<lparr>p_encode_failures := p_encode_failures p
          + length (filter (window_fails pb clk (p_batcher p)) (windows (p_tick_ns p) xs))\<rparr>)"
  using assms
proof (induction "p_tick_ns p" xs arbitrary: n acc p rule: windows.induct)
  case 1
  then show ?case by simp
next
  case (2 x xs)
  let ?w = "x # takeWhile (\<lambda>y. capture y - capture x < p_tick_ns p) xs"
  let ?r = "dropWhile (\<lambda>y. capture y - capture x < p_tick_ns p) xs"
  from 2(5) obtain m where n: "n = Suc m" and m: "length xs \<le> m" by (cases n) auto
  have len: "length ?r \<le> m" using m length_dropWhile_le[of _ xs] le_trans by blast
  have known: "\<forall>y \<in> set ?r. b_policies_by_id (p_batcher p) (fst (snd y)) \<noteq> None"
    using 2(2) by (auto dest: set_dropWhileD)
  have IH: "flush_loop m pb clk ?r acc' q = Some (Inr (acc' @
        concat (map (window_batches pb clk (p_batcher p)) (windows (p_tick_ns p) ?r))),
      q\<lparr>p_encode_failures := p_encode_failures q
          + length (filter (window_fails pb clk (p_batcher p)) (windows (p_tick_ns p) ?r))\<rparr>)"
    if "p_tick_ns q = p_tick_ns p" "p_batcher q = p_batcher p"
    for acc' and q :: "('f, 't) pipeline"
    using 2(1)[where p = q and n = m and acc = acc'] that known len 2(3,4,6) by simp
  show ?case
  proof (cases "window_result pb clk (p_batcher p) ?w")
    case (Inr em)
    then have "\<not> window_fails pb clk (p_batcher p) ?w" by (simp add: window_fails_def)
    with Inr show ?thesis unfolding n flush_step[OF 2(2-4)] by (simp add: IH)
  next
    case (Inl e)
    then have "caught e" "window_fails pb clk (p_batcher p) ?w" "window_batches pb clk (p_batcher p) ?w = []"
      using 2(6) by (auto simp: window_fails_def window_batches_def)
    with Inl show ?thesis unfolding n flush_step[OF 2(2-4)] by (simp add: IH)
  qed
qed

lemma flush_windows:
  assumes "\<forall>x \<in> set (p_staged p). b_policies_by_id (p_batcher p) (fst (snd x)) \<noteq> None"
    and "b_pending (p_batcher p) = []" and "0 < p_tick_ns p"
    and ws: "ws = windows (p_tick_ns p) (sort_key capture (p_staged p))"
    and "\<forall>w \<in> set ws. \<forall>e. window_result pb clk (p_batcher p) w = Inl e \<longrightarrow> caught e"
  shows "flush pb clk p =
    Some (Inr (concat (map (window_batches pb clk (p_batcher p)) ws)),
      p\<lparr>p_staged := [], p_encode_failures := p_encode_failures p
          + length (filter (window_fails pb clk (p_batcher p)) ws)\<rparr>)"
  using assms unfolding flush_def ws
  by (subst flush_loop_windows) simp_all

section \<open>Invariant\<close>

text \<open>
  Between calls the batcher holds nothing, every staged or mapped channel has an encoding policy,
  the pipeline and the batcher agree on the tick, and the log-once memory is bounded.
\<close>

definition pipeline_inv :: "('f, 't) pipeline \<Rightarrow> bool" where
  [inv_defs]: "pipeline_inv p \<longleftrightarrow>
     b_pending (p_batcher p) = [] \<and> 0 < p_tick_ns p \<and> b_tick_ns (p_batcher p) = p_tick_ns p
     \<and> (\<forall>x \<in> set (p_staged p). b_policies_by_id (p_batcher p) (fst (snd x)) \<noteq> None)
     \<and> (\<forall>r cid pol. p_source_map p r = Some (cid, pol) \<longrightarrow> b_policies_by_id (p_batcher p) cid \<noteq> None)
     \<and> finite (p_reported_unmapped p) \<and> card (p_reported_unmapped p) \<le> MAX_TRACKED_UNMAPPED_REFS"

lemma pipeline_init_inv:
  assumes "pipeline_init cat tick_ms timing fusion = Inr p" and "catalog_inv cat"
  shows "pipeline_inv p"
proof -
  have "policies_by_id cat cid \<noteq> None" if "source_map cat r = Some (cid, pol)" for r cid pol
    using catalog_inv_source_map[OF assms(2)] that by auto
  with assms(1) show ?thesis
    by (auto simp: pipeline_init_def batcher_init_def sbind_Inr_iff pipeline_inv_def split: if_splits)
qed

lemma note_unmapped_inv: "pipeline_inv p \<Longrightarrow> pipeline_inv (note_unmapped r p)"
  by (auto simp: pipeline_inv_def note_unmapped_def card_insert_if)

lemma observe_inv:
  "pipeline_inv p \<Longrightarrow> pipeline_inv (snd (observe_fusion cid s p))"
  "pipeline_inv p \<Longrightarrow> pipeline_inv (snd (observe_timing cid s p))"
  by (auto simp: pipeline_inv_def observe_fusion_def observe_timing_def split: prod.splits)

lemma observe_source_map [simp]:
  "p_source_map (snd (observe_fusion cid s p)) = p_source_map p"
  "p_source_map (snd (observe_timing cid s p)) = p_source_map p"
  by (auto simp: observe_fusion_def observe_timing_def split: prod.splits)

lemma observe_batcher [simp]:
  "p_batcher (snd (observe_fusion cid s p)) = p_batcher p"
  "p_batcher (snd (observe_timing cid s p)) = p_batcher p"
  by (auto simp: observe_fusion_def observe_timing_def split: prod.splits)

lemma stage_inv:
  "pipeline_inv p \<Longrightarrow> b_policies_by_id (p_batcher p) cid \<noteq> None \<Longrightarrow> pipeline_inv (snd (stage sc cid pol s p))"
  by (auto simp: pipeline_inv_def stage_def Let_def split: prod.splits sum.splits exn.splits)

lemma on_ok_SomeE:
  assumes "on_ok r k = Some (u, p)"
  obtains (stop) e where "r = Some (Inl e, p)" "u = Inl e"
  | (go) q where "r = Some (Inr (), q)" "k q = Some (u, p)"
  using assms by (cases "(r, k)" rule: on_ok.cases) auto

lemma on_ok_returns: "r \<noteq> None \<Longrightarrow> (\<And>p. k p \<noteq> None) \<Longrightarrow> on_ok r k \<noteq> None"
  by (cases "(r, k)" rule: on_ok.cases) auto

text \<open>What the steps of \<open>ingest\<close> keep, \<open>ingest\<close> keeps.\<close>

lemma ingest_Suc_SomeE:
  assumes "ingest (Suc n) sc s p = Some (u, p')"
  obtains (unmapped) "p_source_map p (source_ref s) = None" "u = Inr ()" "p' = note_unmapped (source_ref s) p"
  | (fusion) cid pol e where "p_source_map p (source_ref s) = Some (cid, pol)"
      "observe_fusion cid s p = (Inl e, p')" "u = Inl e"
  | (fused) cid pol ds p1 e where "p_source_map p (source_ref s) = Some (cid, pol)"
      "observe_fusion cid s p = (Inr ds, p1)" "ingest_all n ds p1 = Some (Inl e, p')" "u = Inl e"
  | (timing) cid pol ds p1 p2 e where "p_source_map p (source_ref s) = Some (cid, pol)"
      "observe_fusion cid s p = (Inr ds, p1)" "ingest_all n ds p1 = Some (Inr (), p2)"
      "observe_timing cid s p2 = (Inl e, p')" "u = Inl e"
  | (timed) cid pol ds p1 p2 ds' p3 e where "p_source_map p (source_ref s) = Some (cid, pol)"
      "observe_fusion cid s p = (Inr ds, p1)" "ingest_all n ds p1 = Some (Inr (), p2)"
      "observe_timing cid s p2 = (Inr ds', p3)" "ingest_all n ds' p3 = Some (Inl e, p')" "u = Inl e"
  | (staged) cid pol ds p1 p2 ds' p3 p4 where "p_source_map p (source_ref s) = Some (cid, pol)"
      "observe_fusion cid s p = (Inr ds, p1)" "ingest_all n ds p1 = Some (Inr (), p2)"
      "observe_timing cid s p2 = (Inr ds', p3)" "ingest_all n ds' p3 = Some (Inr (), p4)"
      "(u, p') = stage sc cid pol s p4"
proof (cases "p_source_map p (source_ref s)")
  case None
  with assms unmapped show ?thesis by simp
next
  case (Some m)
  then obtain cid pol where m: "p_source_map p (source_ref s) = Some (cid, pol)" by (cases m) auto
  obtain r1 p1 where f: "observe_fusion cid s p = (r1, p1)" by fastforce
  show ?thesis
  proof (cases r1)
    case (Inl e)
    with assms m f fusion show ?thesis by simp
  next
    case (Inr ds)
    have "on_ok (ingest_all n ds p1) (\<lambda>p2. case observe_timing cid s p2 of
        (Inl e, p3) \<Rightarrow> Some (Inl e, p3)
      | (Inr ds', p3) \<Rightarrow> on_ok (ingest_all n ds' p3) (\<lambda>p4. Some (stage sc cid pol s p4))) = Some (u, p')"
      using assms m f Inr by simp
    then show ?thesis
    proof (cases rule: on_ok_SomeE)
      case (stop e)
      with fused m f Inr show ?thesis by blast
    next
      case (go p2)
      obtain r2 p3 where t: "observe_timing cid s p2 = (r2, p3)" by fastforce
      show ?thesis
      proof (cases r2)
        case (Inl e)
        with go timing m f t \<open>r1 = Inr ds\<close> show ?thesis by simp
      next
        case (Inr ds')
        with go t have "on_ok (ingest_all n ds' p3) (\<lambda>p4. Some (stage sc cid pol s p4)) = Some (u, p')"
          by simp
        then show ?thesis
          using timed staged m f \<open>r1 = Inr ds\<close> go(1) t Inr by (cases rule: on_ok_SomeE) (blast, simp)
      qed
    qed
  qed
qed

lemma ingest_keeps:
  assumes smap: "\<And>p. P p \<Longrightarrow> p_source_map p = m"
    and unm: "\<And>p r. P p \<Longrightarrow> P (note_unmapped r p)"
    and fus: "\<And>p cid s r. P p \<Longrightarrow> P (snd (observe_fusion cid s p))"
    and tim: "\<And>p cid s r. P p \<Longrightarrow> P (snd (observe_timing cid s p))"
    and stg: "\<And>p sc r cid pol s. P p \<Longrightarrow> m r = Some (cid, pol) \<Longrightarrow> P (snd (stage sc cid pol s p))"
  shows "ingest n sc s p = Some (u, p') \<Longrightarrow> P p \<Longrightarrow> P p'"
    and "ingest_all n ds p = Some (u, p') \<Longrightarrow> P p \<Longrightarrow> P p'"
proof -
  have all: "ingest_all n ds p = Some (u, p') \<Longrightarrow> P p \<Longrightarrow> P p'"
    if "\<And>sc s p u p'. ingest n sc s p = Some (u, p') \<Longrightarrow> P p \<Longrightarrow> P p'" for n ds p u p'
    by (induction ds arbitrary: p u p') (auto elim!: on_ok_SomeE dest: that)
  have one: "ingest n sc s p = Some (u, p') \<Longrightarrow> P p \<Longrightarrow> P p'" for n sc s p u p'
  proof (induction n arbitrary: sc s p u p')
    case (Suc n)
    note ia = all[OF Suc.IH]
    from Suc.prems(1) show ?case
    proof (cases rule: ingest_Suc_SomeE)
      case unmapped
      with unm Suc.prems(2) show ?thesis by simp
    next
      case (fusion cid pol e)
      with fus[OF Suc.prems(2), of cid s] show ?thesis by simp
    next
      case (fused cid pol ds p1 e)
      with fus[OF Suc.prems(2), of cid s] ia show ?thesis by simp
    next
      case (timing cid pol ds p1 p2 e)
      with fus[OF Suc.prems(2), of cid s] ia have "P p2" by simp
      from tim[OF this, of cid s] timing show ?thesis by simp
    next
      case (timed cid pol ds p1 p2 ds' p3 e)
      with fus[OF Suc.prems(2), of cid s] ia have "P p2" by simp
      from tim[OF this, of cid s] timed ia show ?thesis by simp
    next
      case (staged cid pol ds p1 p2 ds' p3 p4)
      with fus[OF Suc.prems(2), of cid s] ia have "P p2" by simp
      from tim[OF this, of cid s] staged ia have "P p4" by simp
      from stg[OF this, of "source_ref s" cid pol sc s] staged smap[OF Suc.prems(2)] show ?thesis
        by (metis snd_conv)
    qed
  qed simp
  show "ingest n sc s p = Some (u, p') \<Longrightarrow> P p \<Longrightarrow> P p'" by (rule one)
  show "ingest_all n ds p = Some (u, p') \<Longrightarrow> P p \<Longrightarrow> P p'" by (rule all[OF one])
qed

lemma stage_frame [simp]:
  "p_source_map (snd (stage sc cid pol s p)) = p_source_map p"
  "p_batcher (snd (stage sc cid pol s p)) = p_batcher p"
  by (auto simp: stage_def Let_def split: prod.splits sum.splits exn.splits)

lemma ingest_inv:
  assumes "ingest n sc s p = Some (u, p')" and "pipeline_inv p"
  shows "pipeline_inv p'"
proof -
  let ?P = "\<lambda>q. pipeline_inv q \<and> p_source_map q = p_source_map p \<and> p_batcher q = p_batcher p"
  have "?P p'"
  proof (rule ingest_keeps(1)[where P = ?P, OF _ _ _ _ _ assms(1)])
    fix q r cid pol sc s
    assume q: "?P q" and m: "p_source_map p r = Some (cid, pol)"
    then have "b_policies_by_id (p_batcher q) cid \<noteq> None"
      using assms(2) by (simp add: pipeline_inv_def) blast
    with q show "?P (snd (stage sc cid pol s q))" by (simp add: stage_inv)
  qed (use assms(2) in \<open>simp_all add: note_unmapped_inv observe_inv, simp_all add: note_unmapped_def\<close>)
  then show ?thesis ..
qed

text \<open>\<open>flush\<close> always returns or raises: it never loops, and it keeps the invariant either way.\<close>

lemma flush_loop_returns:
  fixes p :: "('f, 't) pipeline"
  assumes "\<forall>x \<in> set xs. b_policies_by_id (p_batcher p) (fst (snd x)) \<noteq> None"
    and "pipeline_inv p" and "length xs \<le> n" and "p_staged p = []"
  shows "\<exists>r p'. flush_loop n pb clk xs acc p = Some (r, p') \<and> pipeline_inv p' \<and> p_staged p' = []
    \<and> (\<forall>e. r = Inl e \<longrightarrow> \<not> caught e)"
  using assms
proof (induction "p_tick_ns p" xs arbitrary: n acc p rule: windows.induct)
  case 1
  then show ?case by simp
next
  case (2 x xs)
  let ?w = "x # takeWhile (\<lambda>y. capture y - capture x < p_tick_ns p) xs"
  let ?r = "dropWhile (\<lambda>y. capture y - capture x < p_tick_ns p) xs"
  from 2(4) obtain m where n: "n = Suc m" and m: "length xs \<le> m" by (cases n) auto
  have len: "length ?r \<le> m" using m length_dropWhile_le[of _ xs] le_trans by blast
  have known: "\<forall>y \<in> set ?r. b_policies_by_id (p_batcher p) (fst (snd y)) \<noteq> None"
    using 2(2) by (auto dest: set_dropWhileD)
  have inv: "b_pending (p_batcher p) = []" "0 < p_tick_ns p" using 2(3) by (auto simp: pipeline_inv_def)
  let ?q = "p\<lparr>p_encode_failures := p_encode_failures p + 1\<rparr>"
  have q: "pipeline_inv ?q" using 2(3) by (simp add: pipeline_inv_def)
  note IH = 2(1)[OF _ _ _ len]
  show ?case
    unfolding n flush_step[OF 2(2) inv]
    using IH[of p] IH[of ?q] known 2(3,5) q by (auto split: sum.splits)
qed

lemma flush_returns:
  assumes "pipeline_inv p"
  shows "\<exists>r p'. flush pb clk p = Some (r, p') \<and> pipeline_inv p' \<and> p_staged p' = []
    \<and> (\<forall>e. r = Inl e \<longrightarrow> \<not> caught e)"
  unfolding flush_def
  by (rule flush_loop_returns) (use assms in \<open>auto simp: pipeline_inv_def\<close>)

datatype pipeline_op = Ingest string sample | Flush "int \<Rightarrow> real"

text \<open>One call on the pipeline thread; a call that does not return leaves the state as it is.\<close>

fun pipeline_step :: "nat \<Rightarrow> 'w pb_runtime \<Rightarrow> pipeline_op \<Rightarrow> ('f, 't) pipeline \<Rightarrow> ('f, 't) pipeline" where
  "pipeline_step n pb (Ingest sc s) p = (case ingest n sc s p of None \<Rightarrow> p | Some (u, p') \<Rightarrow> p')"
| "pipeline_step n pb (Flush clk) p = (case flush pb clk p of None \<Rightarrow> p | Some (r, p') \<Rightarrow> p')"

interpretation pl: step_machine "pipeline_step n pb" pipeline_inv
proof unfold_locales
  fix p :: "('f, 't) pipeline" and e
  assume "pipeline_inv p"
  then show "pipeline_inv (pipeline_step n pb e p)"
  proof (cases e)
    case (Ingest sc s)
    with \<open>pipeline_inv p\<close> ingest_inv[of n sc s p] show ?thesis by (auto split: option.splits)
  next
    case (Flush clk)
    from flush_returns[OF \<open>pipeline_inv p\<close>, of pb clk] Flush show ?thesis by auto
  qed
qed

section \<open>Re-entry of derived samples\<close>

text \<open>
  The taps do not feed themselves: what fusion derives is not on a fusion channel, and what timing
  derives is on no subscribed channel. Then three levels of \<open>ingest\<close> are enough.
\<close>

definition tap_outputs_avoid :: "(string \<rightharpoonup> int \<times> channel_policy) \<Rightarrow> 'a tap \<Rightarrow> int set \<Rightarrow> bool" where
  "tap_outputs_avoid m tp ids \<longleftrightarrow>
     (\<forall>cid s st ds st'. tap_observe tp cid s st = (Inr ds, st') \<longrightarrow>
        (\<forall>d \<in> set ds. \<forall>c pol. m (source_ref d) = Some (c, pol) \<longrightarrow> c \<notin> ids))"

definition ids_of :: "('a tap \<times> 'b) option \<Rightarrow> int set" where
  "ids_of t = (case t of None \<Rightarrow> {} | Some (tp, st) \<Rightarrow> tap_ids tp)"

definition taps_acyclic :: "('f, 't) pipeline \<Rightarrow> bool" where
  "taps_acyclic p \<longleftrightarrow>
     (\<forall>tp st. p_fusion p = Some (tp, st) \<longrightarrow> tap_outputs_avoid (p_source_map p) tp (tap_ids tp))
     \<and> (\<forall>tp st. p_timing p = Some (tp, st) \<longrightarrow>
          tap_outputs_avoid (p_source_map p) tp (tap_ids tp \<union> ids_of (p_fusion p)))"

definition wiring ::
  "('f, 't) pipeline \<Rightarrow> (string \<rightharpoonup> int \<times> channel_policy) \<times> 'f tap option \<times> 't tap option" where
  "wiring p = (p_source_map p, map_option fst (p_fusion p), map_option fst (p_timing p))"

lemma wiring_steps [simp]:
  "wiring (note_unmapped r p) = wiring p"
  "wiring (snd (observe_fusion cid s p)) = wiring p"
  "wiring (snd (observe_timing cid s p)) = wiring p"
  "wiring (snd (stage sc cid pol s p)) = wiring p"
  by (auto simp: wiring_def note_unmapped_def observe_fusion_def observe_timing_def offer_def
      stage_def Let_def split: option.splits prod.splits sum.splits exn.splits)

lemma wiring_source_map: "wiring p = wiring q \<Longrightarrow> p_source_map p = p_source_map q"
  by (simp add: wiring_def)

lemma ingest_wiring:
  "ingest n sc s p = Some (u, p') \<Longrightarrow> wiring p' = wiring p"
  "ingest_all n ds p = Some (u, p') \<Longrightarrow> wiring p' = wiring p"
proof -
  note keeps = ingest_keeps[where P = "\<lambda>q. wiring q = wiring p" and m = "p_source_map p"]
  show "ingest n sc s p = Some (u, p') \<Longrightarrow> wiring p' = wiring p"
    by (rule keeps(1)) (auto dest: wiring_source_map)
  show "ingest_all n ds p = Some (u, p') \<Longrightarrow> wiring p' = wiring p"
    by (rule keeps(2)) (auto dest: wiring_source_map)
qed

lemma ids_of_wiring: "wiring p = wiring q \<Longrightarrow> ids_of (p_fusion p) = ids_of (p_fusion q)
    \<and> ids_of (p_timing p) = ids_of (p_timing q) \<and> p_source_map p = p_source_map q"
  by (auto simp: wiring_def ids_of_def split: option.splits)

lemma taps_acyclic_wiring: "wiring p = wiring q \<Longrightarrow> taps_acyclic p = taps_acyclic q"
  using ids_of_wiring[of p q]
  by (cases "p_fusion p"; cases "p_fusion q"; cases "p_timing p"; cases "p_timing q")
    (auto simp: taps_acyclic_def wiring_def)

lemma ingest_all_returns:
  assumes "\<And>d q. d \<in> set ds \<Longrightarrow> wiring q = wiring p \<Longrightarrow> ingest n DERIVED_SOURCE_CLASS d q \<noteq> None"
  shows "ingest_all n ds p \<noteq> None"
  using assms
proof (induction ds arbitrary: p)
  case (Cons d ds)
  from Cons.prems[of d p] obtain u q where q: "ingest n DERIVED_SOURCE_CLASS d p = Some (u, q)" by auto
  with ingest_wiring(1) have "wiring q = wiring p" by blast
  with Cons have "ingest_all n ds q \<noteq> None" by auto
  with q show ?case by (cases u) auto
qed simp

lemma ingest_Suc_returns:
  assumes "\<And>cid pol ds p1. p_source_map p (source_ref s) = Some (cid, pol) \<Longrightarrow>
        observe_fusion cid s p = (Inr ds, p1) \<Longrightarrow> wiring p1 = wiring p \<Longrightarrow> ingest_all n ds p1 \<noteq> None"
    and "\<And>cid pol ds p2 p3. p_source_map p (source_ref s) = Some (cid, pol) \<Longrightarrow> wiring p2 = wiring p \<Longrightarrow>
        observe_timing cid s p2 = (Inr ds, p3) \<Longrightarrow> wiring p3 = wiring p \<Longrightarrow> ingest_all n ds p3 \<noteq> None"
  shows "ingest (Suc n) sc s p \<noteq> None"
proof (cases "p_source_map p (source_ref s)")
  case (Some m)
  then obtain cid pol where m: "p_source_map p (source_ref s) = Some (cid, pol)" by (cases m) auto
  obtain r1 p1 where f: "observe_fusion cid s p = (r1, p1)" by fastforce
  then have w1: "wiring p1 = wiring p" using wiring_steps(2)[of cid s p] by simp
  show ?thesis
  proof (cases r1)
    case (Inr ds)
    with assms(1)[OF m] f w1 obtain u p2 where i: "ingest_all n ds p1 = Some (u, p2)" by auto
    with w1 ingest_wiring(2) have w2: "wiring p2 = wiring p" by metis
    obtain r2 p3 where t: "observe_timing cid s p2 = (r2, p3)" by fastforce
    then have w3: "wiring p3 = wiring p" using wiring_steps(3)[of cid s p2] w2 by simp
    show ?thesis
    proof (cases u)
      case (Inr u')
      have "on_ok (ingest_all n ds' p3) (\<lambda>p4. Some (stage sc cid pol s p4)) \<noteq> None" if "r2 = Inr ds'" for ds'
        using assms(2)[OF m w2, of ds' p3] t w3 that
        by (intro on_ok_returns) auto
      with m f \<open>r1 = Inr ds\<close> i Inr t show ?thesis by (auto split: sum.splits)
    qed (use m f Inr i in simp)
  qed (use m f in simp)
qed simp

text \<open>No sample of a level needs more fuel than the level.\<close>

lemma offer_outputs:
  assumes "offer cid s t = (Inr ds, t')" and "d \<in> set ds"
  obtains tp st st' where "t = Some (tp, st)" "cid \<in> tap_ids tp" "tap_observe tp cid s st = (Inr ds, st')"
  using assms by (auto simp: offer_def split: option.splits prod.splits if_splits)

lemma observe_fusion_outputs:
  assumes "observe_fusion cid s p = (Inr ds, p1)" and "d \<in> set ds"
    and "taps_acyclic p" and "p_source_map p (source_ref d) = Some (c, pol)"
  shows "cid \<in> ids_of (p_fusion p) \<and> c \<notin> ids_of (p_fusion p)"
proof -
  from assms(1) obtain t where "offer cid s (p_fusion p) = (Inr ds, t)"
    by (auto simp: observe_fusion_def split: prod.splits)
  then obtain tp st st' where t: "p_fusion p = Some (tp, st)" "cid \<in> tap_ids tp"
      "tap_observe tp cid s st = (Inr ds, st')"
    by (rule offer_outputs[OF _ assms(2)])
  then have "tap_outputs_avoid (p_source_map p) tp (tap_ids tp)"
    using assms(3) by (simp add: taps_acyclic_def)
  with t assms(2,4) show ?thesis unfolding tap_outputs_avoid_def ids_of_def by fastforce
qed

lemma observe_timing_outputs:
  assumes "observe_timing cid s p = (Inr ds, p1)" and "d \<in> set ds"
    and "taps_acyclic p" and "p_source_map p (source_ref d) = Some (c, pol)"
  shows "cid \<in> ids_of (p_timing p) \<and> c \<notin> ids_of (p_timing p) \<union> ids_of (p_fusion p)"
proof -
  from assms(1) obtain t where "offer cid s (p_timing p) = (Inr ds, t)"
    by (auto simp: observe_timing_def split: prod.splits)
  then obtain tp st st' where t: "p_timing p = Some (tp, st)" "cid \<in> tap_ids tp"
      "tap_observe tp cid s st = (Inr ds, st')"
    by (rule offer_outputs[OF _ assms(2)])
  then have "tap_outputs_avoid (p_source_map p) tp (tap_ids tp \<union> ids_of (p_fusion p))"
    using assms(3) by (simp add: taps_acyclic_def)
  with t assms(2,4) show ?thesis unfolding tap_outputs_avoid_def by (fastforce simp: ids_of_def)
qed

text \<open>The channel of a sample is not in a set of ids (in particular when it has no channel).\<close>

definition off_channels :: "(string \<rightharpoonup> int \<times> channel_policy) \<Rightarrow> int set \<Rightarrow> sample \<Rightarrow> bool" where
  "off_channels m ids s \<longleftrightarrow> (\<forall>c pol. m (source_ref s) = Some (c, pol) \<longrightarrow> c \<notin> ids)"

lemma ingest_level0:
  assumes "taps_acyclic p"
    and "off_channels (p_source_map p) (ids_of (p_fusion p) \<union> ids_of (p_timing p)) s"
  shows "ingest (Suc n) sc s p \<noteq> None"
proof (rule ingest_Suc_returns)
  fix cid pol ds p1
  assume m: "p_source_map p (source_ref s) = Some (cid, pol)" and "observe_fusion cid s p = (Inr ds, p1)"
  with assms(2) have "ds = []"
    by (auto simp: observe_fusion_def offer_def ids_of_def off_channels_def split: option.splits prod.splits if_splits)
  then show "ingest_all n ds p1 \<noteq> None" by simp
next
  fix cid pol ds p2 p3
  assume m: "p_source_map p (source_ref s) = Some (cid, pol)" and w: "wiring p2 = wiring p"
    and "observe_timing cid s p2 = (Inr ds, p3)"
  with assms(2) ids_of_wiring[OF w] have "ds = []"
    by (auto simp: observe_timing_def offer_def ids_of_def off_channels_def split: option.splits prod.splits if_splits)
  then show "ingest_all n ds p3 \<noteq> None" by simp
qed

lemma ingest_timing_outputs_return:
  assumes "taps_acyclic p" and w: "wiring p2 = wiring p"
    and t: "observe_timing cid s p2 = (Inr ds, p3)" and w3: "wiring p3 = wiring p"
  shows "ingest_all (Suc n) ds p3 \<noteq> None"
proof (rule ingest_all_returns, rule ingest_level0)
  fix d q
  assume d: "d \<in> set ds" and q: "wiring q = wiring p3"
  show "taps_acyclic q" using assms(1) taps_acyclic_wiring[of q p] q w3 by simp
  have ac: "taps_acyclic p2" using assms(1) taps_acyclic_wiring[OF w] by simp
  have ww: "wiring q = wiring p2" using q w w3 by simp
  show "off_channels (p_source_map q) (ids_of (p_fusion q) \<union> ids_of (p_timing q)) d"
    using observe_timing_outputs[OF t d ac] ids_of_wiring[OF ww] by (auto simp: off_channels_def)
qed

lemma ingest_level1:
  assumes "taps_acyclic p" and "off_channels (p_source_map p) (ids_of (p_fusion p)) s"
  shows "ingest (Suc (Suc n)) sc s p \<noteq> None"
proof (rule ingest_Suc_returns)
  fix cid pol ds p1
  assume m: "p_source_map p (source_ref s) = Some (cid, pol)" and "observe_fusion cid s p = (Inr ds, p1)"
  with assms(2) have "ds = []"
    by (auto simp: observe_fusion_def offer_def ids_of_def off_channels_def split: option.splits prod.splits if_splits)
  then show "ingest_all (Suc n) ds p1 \<noteq> None" by simp
qed (rule ingest_timing_outputs_return[OF assms(1)])

lemma ingest_returns:
  assumes "taps_acyclic p"
  shows "ingest (Suc (Suc (Suc n))) sc s p \<noteq> None"
proof (rule ingest_Suc_returns)
  fix cid pol ds p1
  assume f: "observe_fusion cid s p = (Inr ds, p1)" and w: "wiring p1 = wiring p"
  show "ingest_all (Suc (Suc n)) ds p1 \<noteq> None"
  proof (rule ingest_all_returns, rule ingest_level1)
    fix d q
    assume d: "d \<in> set ds" and q: "wiring q = wiring p1"
    with w have ww: "wiring q = wiring p" by simp
    show "taps_acyclic q" using assms taps_acyclic_wiring[OF ww] by simp
    show "off_channels (p_source_map q) (ids_of (p_fusion q)) d"
      using observe_fusion_outputs[OF f d assms] ids_of_wiring[OF ww] by (auto simp: off_channels_def)
  qed
qed (rule ingest_timing_outputs_return[OF assms])

section \<open>What the timing tap sees\<close>

definition tap_feed ::
  "(string \<rightharpoonup> int \<times> channel_policy) \<Rightarrow> 'a tap \<Rightarrow> sample \<Rightarrow> 'a \<Rightarrow> 'a" where
  "tap_feed m tp s st =
     (case m (source_ref s) of
        None \<Rightarrow> st
      | Some (cid, pol) \<Rightarrow> if cid \<in> tap_ids tp then snd (tap_observe tp cid s st) else st)"

lemma ingest_off_channels:
  assumes "ingest n sc s p = Some (u, p')"
    and "off_channels (p_source_map p) (ids_of (p_fusion p) \<union> ids_of (p_timing p)) s"
  shows "p_timing p' = p_timing p \<and> p_fusion p' = p_fusion p"
proof (cases n)
  case (Suc m)
  from assms(1)[unfolded Suc] show ?thesis
    using assms(2)
    by (cases rule: ingest_Suc_SomeE)
      (auto simp: observe_fusion_def observe_timing_def offer_def ids_of_def off_channels_def
        note_unmapped_def stage_def Let_def
        split: option.splits prod.splits if_splits sum.splits exn.splits)
qed (use assms in simp)

lemma ingest_all_off_channels:
  assumes "ingest_all n ds p = Some (u, p')"
    and "\<forall>d \<in> set ds. off_channels (p_source_map p) (ids_of (p_fusion p) \<union> ids_of (p_timing p)) d"
  shows "p_timing p' = p_timing p \<and> p_fusion p' = p_fusion p"
  using assms
proof (induction ds arbitrary: p)
  case (Cons d ds)
  from Cons.prems(1) have "on_ok (ingest n DERIVED_SOURCE_CLASS d p) (ingest_all n ds) = Some (u, p')" by simp
  then show ?case
  proof (cases rule: on_ok_SomeE)
    case (stop e)
    with ingest_off_channels Cons.prems(2) show ?thesis by fastforce
  next
    case (go q)
    from ingest_off_channels[OF go(1)] Cons.prems(2)
    have q: "p_timing q = p_timing p \<and> p_fusion q = p_fusion p" by simp
    moreover from wiring_source_map[OF ingest_wiring(1)[OF go(1)]] have "p_source_map q = p_source_map p" .
    ultimately show ?thesis using Cons.IH[OF go(2)] Cons.prems(2) by simp
  qed
qed simp

lemma ingest_feeds_timing:
  assumes i: "ingest n sc s p = Some (u, p')" and f: "p_fusion p = None"
    and t: "p_timing p = Some (tp, st)" and ac: "taps_acyclic p"
  shows "p_timing p' = Some (tp, tap_feed (p_source_map p) tp s st) \<and> p_fusion p' = None
    \<and> p_source_map p' = p_source_map p"
proof -
  have same: "observe_fusion cid s p = (Inr [], p)" for cid
    using f by (simp add: observe_fusion_def offer_def)
  have derived: "p_timing q' = p_timing q \<and> p_fusion q' = None"
    if "observe_timing cid s p = (Inr ds, q)" "ingest_all m ds q = Some (v, q')" for cid ds q m v q'
  proof -
    have w: "wiring q = wiring p" using wiring_steps(3)[of cid s p] that(1) by simp
    have "p_fusion q = None" using w f by (simp add: wiring_def)
    moreover have "\<forall>d \<in> set ds. off_channels (p_source_map q) (ids_of (p_fusion q) \<union> ids_of (p_timing q)) d"
      using observe_timing_outputs[OF that(1) _ ac] ids_of_wiring[OF w] by (auto simp: off_channels_def)
    ultimately show ?thesis using ingest_all_off_channels[OF that(2)] by auto
  qed
  have seen: "p_timing q = Some (tp, if cid \<in> tap_ids tp then snd (tap_observe tp cid s st) else st) \<and> p_fusion q = None"
    if "observe_timing cid s p = (r, q)" for cid r q
    using that t f by (auto simp: observe_timing_def offer_def split: prod.splits if_splits)
  from i obtain m where n: "n = Suc m" by (cases n) auto
  from wiring_source_map[OF ingest_wiring(1)[OF i]] have "p_source_map p' = p_source_map p" .
  moreover from i[unfolded n]
  have "p_timing p' = Some (tp, tap_feed (p_source_map p) tp s st) \<and> p_fusion p' = None"
  proof (cases rule: ingest_Suc_SomeE)
    case unmapped
    with t f show ?thesis by (simp add: tap_feed_def note_unmapped_def)
  next
    case (timing cid pol ds p1 p2 e)
    with same[of cid] seen[of cid] show ?thesis by (simp add: tap_feed_def)
  next
    case (timed cid pol ds p1 p2 ds' p3 e)
    with same[of cid] seen[of cid "Inr ds'" p3] derived[of cid ds' p3] show ?thesis
      by (simp add: tap_feed_def)
  next
    case (staged cid pol ds p1 p2 ds' p3 p4)
    with same[of cid] seen[of cid "Inr ds'" p3] derived[of cid ds' p3]
    have "p_timing p4 = Some (tp, tap_feed (p_source_map p) tp s st) \<and> p_fusion p4 = None"
      by (simp add: tap_feed_def)
    moreover have "p_timing (snd (stage sc cid pol s p4)) = p_timing p4"
      "p_fusion (snd (stage sc cid pol s p4)) = p_fusion p4"
      by (auto simp: stage_def Let_def split: prod.splits sum.splits exn.splits)
    ultimately show ?thesis using staged(6) by (metis snd_conv)
  qed (use same in auto)
  ultimately show ?thesis by simp
qed

fun ingest_run ::
  "nat \<Rightarrow> (string \<times> sample) list \<Rightarrow> ('f, 't) pipeline \<Rightarrow> (unit res \<times> ('f, 't) pipeline) option" where
  "ingest_run n [] p = Some (Inr (), p)"
| "ingest_run n ((sc, s) # xs) p = on_ok (ingest n sc s p) (ingest_run n xs)"

section \<open>Message ids\<close>

lemma last_separator_unique:
  assumes "a @ c # x = b @ c # y" and "c \<notin> set x" and "c \<notin> set y"
  shows "a = b \<and> x = y"
  using assms by (auto simp: append_eq_append_conv2 append_eq_Cons_conv Cons_eq_append_conv)

lemma colon_not_in_show_int: "CHR '':'' \<notin> set (show_int n)"
proof -
  have "\<not> is_ascii_digit (CHR '':'')" by (simp add: is_ascii_digit_def)
  then have "CHR '':'' \<notin> set (show_nat k)" for k using show_nat_digits by blast
  then show ?thesis by (simp add: show_int_def)
qed

lemma msg_id_of_inj:
  assumes "msg_id_of sc n = msg_id_of sc' n'"
  shows "sc = sc' \<and> n = n'"
proof -
  have "sc @ CHR '':'' # show_int n = sc' @ CHR '':'' # show_int n'"
    using assms by (simp add: msg_id_of_def)
  from last_separator_unique[OF this colon_not_in_show_int colon_not_in_show_int] show_int_inj
  show ?thesis by blast
qed

lemma flush_loop_Inr:
  fixes p :: "('f, 't) pipeline"
  assumes "\<forall>x \<in> set xs. b_policies_by_id (p_batcher p) (fst (snd x)) \<noteq> None"
    and "b_pending (p_batcher p) = []" and "0 < p_tick_ns p"
    and "flush_loop n pb clk xs acc p = Some (Inr bs, p')"
  shows "bs = acc @ concat (map (window_batches pb clk (p_batcher p)) (windows (p_tick_ns p) xs))"
  using assms
proof (induction "p_tick_ns p" xs arbitrary: n acc p rule: windows.induct)
  case 1
  then show ?case by simp
next
  case (2 x xs)
  let ?w = "x # takeWhile (\<lambda>y. capture y - capture x < p_tick_ns p) xs"
  let ?r = "dropWhile (\<lambda>y. capture y - capture x < p_tick_ns p) xs"
  from 2(5) obtain m where n: "n = Suc m" by (cases n) auto
  have known: "\<forall>y \<in> set ?r. b_policies_by_id (p_batcher p) (fst (snd y)) \<noteq> None"
    using 2(2) by (auto dest: set_dropWhileD)
  have IH: "bs = acc' @ concat (map (window_batches pb clk (p_batcher p)) (windows (p_tick_ns p) ?r))"
    if "p_tick_ns q = p_tick_ns p" "p_batcher q = p_batcher p" "flush_loop m pb clk ?r acc' q = Some (Inr bs, p')"
    for acc' and q :: "('f, 't) pipeline"
    using 2(1)[where p = q and n = m and acc = acc'] that known 2(3,4) by simp
  show ?case
  proof (cases "window_result pb clk (p_batcher p) ?w")
    case (Inr em)
    with 2(5) IH[of p "acc @ window_batches pb clk (p_batcher p) ?w"] show ?thesis
      unfolding n flush_step[OF 2(2-4)] by simp
  next
    case (Inl e)
    then have "window_batches pb clk (p_batcher p) ?w = []" by (simp add: window_batches_def)
    with Inl 2(5) IH[of "p\<lparr>p_encode_failures := p_encode_failures p + 1\<rparr>"] show ?thesis
      unfolding n flush_step[OF 2(2-4)] by (simp split: if_splits)
  qed
qed

lemma encode_class_name: "encode_class pb b eu em (sc, xs) = Inr (sc', w) \<Longrightarrow> sc' = sc"
  by (auto simp: encode_class_def sbind_Inr_iff split: if_splits)

lemma mapE_encode_class_names:
  "mapE (encode_class pb b eu em) gs = Inr ys \<Longrightarrow> map fst ys = map fst gs"
  by (induction gs arbitrary: ys) (auto simp: sbind_Inr_iff dest: encode_class_name)

lemma window_batches_ids:
  shows "distinct (map tb_msg_id (window_batches pb clk b w))"
    and "i \<in> set (map tb_msg_id (window_batches pb clk b w)) \<Longrightarrow>
      \<exists>sc. i = msg_id_of sc (py_round (clk (capture (hd w))))"
proof -
  let ?e = "py_round (clk (capture (hd w)))"
  show "distinct (map tb_msg_id (window_batches pb clk b w))"
  proof (cases "window_result pb clk b w")
    case (Inr ys)
    then have "map fst ys = classes_of w"
      using mapE_encode_class_names[of pb b ?e _ "group_by_class w" ys]
      by (simp add: window_result_def group_by_class_def comp_def)
    then have "distinct (map fst ys)" by (simp add: distinct_classes_of)
    moreover have "inj_on (\<lambda>sc. msg_id_of sc ?e) A" for A
      by (intro inj_onI) (auto dest: msg_id_of_inj)
    ultimately have "distinct (map (\<lambda>sc. msg_id_of sc ?e) (map fst ys))"
      using distinct_map[of "\<lambda>sc. msg_id_of sc ?e" "map fst ys"] by blast
    with Inr show ?thesis by (simp add: window_batches_def tick_batch_of_def comp_def)
  qed (simp add: window_batches_def)
  show "\<exists>sc. i = msg_id_of sc ?e" if "i \<in> set (map tb_msg_id (window_batches pb clk b w))"
    using that by (auto simp: window_batches_def tick_batch_of_def split: sum.splits)
qed

lemma distinct_window_ids:
  assumes "sorted_wrt (\<lambda>v w. py_round (clk (capture (hd v))) < py_round (clk (capture (hd w)))) ws"
  shows "distinct (map tb_msg_id (concat (map (window_batches pb clk b) ws)))"
  using assms
proof (induction ws)
  case (Cons w ws)
  have "i \<notin> set (map tb_msg_id (concat (map (window_batches pb clk b) ws)))"
    if i: "i \<in> set (map tb_msg_id (window_batches pb clk b w))" for i
  proof
    assume "i \<in> set (map tb_msg_id (concat (map (window_batches pb clk b) ws)))"
    then obtain v where v: "v \<in> set ws" "i \<in> set (map tb_msg_id (window_batches pb clk b v))" by auto
    then obtain sc where "i = msg_id_of sc (py_round (clk (capture (hd v))))"
      using window_batches_ids(2) by blast
    moreover obtain sc' where "i = msg_id_of sc' (py_round (clk (capture (hd w))))"
      using window_batches_ids(2)[OF i] by blast
    ultimately have "py_round (clk (capture (hd v))) = py_round (clk (capture (hd w)))"
      using msg_id_of_inj by metis
    with Cons.prems v(1) show False by auto
  qed
  with Cons window_batches_ids(1)[of pb clk b w] show ?case
    by (simp only: list.map concat.simps map_append distinct_append sorted_wrt.simps) blast
qed simp

section \<open>Properties\<close>

text \<open>A small pipeline for the witnesses: one filtered, scaled CAN channel and a timing tap that
  counts what it observes and derives one sample per observation.\<close>

definition wit_pl_policy :: "string \<Rightarrow> rbe_config option \<Rightarrow> real \<Rightarrow> channel_policy" where
  "wit_pl_policy name rbe scale =
     \<lparr>cp_name = name, cp_value_type = INT64, cp_rbe = rbe, cp_scale = scale, cp_offset = 0\<rparr>"

definition wit_pl_tap :: "nat tap" where
  "wit_pl_tap = \<lparr>tap_ids = {1}, tap_observe = (\<lambda>cid s n.
     (Inr [\<lparr>source_ref = ''derived:n'', t_mono_ns = t_mono_ns s, t_wall_ms = 0, svalue = VInt 1\<rparr>], n + 1))\<rparr>"

definition wit_pl :: "(unit, nat) pipeline" where
  "wit_pl =
     (let pols = [1 \<mapsto> wit_pl_policy ''car.rpm'' (Some wit_policy) (1 / 10),
                  2147483648 \<mapsto> wit_pl_policy ''n'' None 0]
      in \<lparr>p_source_map = [''can0:x'' \<mapsto> (1, the (pols 1)), ''derived:n'' \<mapsto> (2147483648, the (pols 2147483648))],
          p_rbe = rbe_init,
          p_batcher = \<lparr>b_registry_seq = 1, b_policies_by_id = pols, b_tick_us = 20000,
                       b_tick_ns = 20000000, b_pending = []\<rparr>,
          p_tick_ns = 20000000, p_fusion = None, p_timing = Some (wit_pl_tap, 0), p_staged = [],
          p_reported_unmapped = {}, p_unmapped_refs = 0, p_encode_failures = 0\<rparr>)"

definition wit_pl_pb :: "sample_batch pb_runtime" where
  "wit_pl_pb = \<lparr>pb_store = Some, pb_header_ok = (\<lambda>_ _ _. True), pb_serialize = (\<lambda>m. m), pb_parse = Some\<rparr>"

lemma wit_pl_inv: "pipeline_inv wit_pl"
  by (simp add: pipeline_inv_def wit_pl_def Let_def split: if_splits)

lemma wit_pl_acyclic: "taps_acyclic wit_pl"
  by (simp add: taps_acyclic_def tap_outputs_avoid_def ids_of_def wit_pl_def wit_pl_tap_def Let_def)

text \<open>
  C4. Ingest returns: when the taps do not feed themselves (fusion output is on no fusion channel,
  timing output on no subscribed channel) every sample is processed within three levels of
  re-entry, and the pipeline invariant holds afterwards.
\<close>
theorem ingest_terminates:
  assumes "taps_acyclic p" and "3 \<le> n" and "pipeline_inv p"
  shows "\<exists>u p'. ingest n sc s p = Some (u, p') \<and> pipeline_inv p'"
proof -
  from assms(2) obtain m where "n = Suc (Suc (Suc m))"
    by (metis add_2_eq_Suc le_Suc_ex numeral_3_eq_3 plus_nat.simps(2))
  with ingest_returns[OF assms(1)] ingest_inv[OF _ assms(3)] show ?thesis
    by (metis not_None_eq surj_pair)
qed

theorem ingest_terminates_witness:
  "\<exists>u p'. ingest 3 ''can0'' (wit_sample 0 7) wit_pl = Some (u, p') \<and> pipeline_inv p'"
  by (rule ingest_terminates[OF wit_pl_acyclic _ wit_pl_inv]) simp

text \<open>
  The timing tap sees every mapped sample of its channels, in order and before any
  report-by-exception decision: its state after a run is its \<open>observe\<close> folded over exactly those
  samples, whatever the channels' filters suppress.
\<close>
theorem timing_sees_unfiltered:
  assumes "ingest_run n xs p = Some (Inr (), p')"
    and "p_fusion p = None" and "p_timing p = Some (tp, st)" and "taps_acyclic p"
  shows "p_timing p' = Some (tp, fold (tap_feed (p_source_map p) tp) (map snd xs) st)"
  using assms
proof (induction n xs p arbitrary: st rule: ingest_run.induct)
  case (2 n sc s xs p)
  from 2(2) obtain q where q: "ingest n sc s p = Some (Inr (), q)" and r: "ingest_run n xs q = Some (Inr (), p')"
    by (auto elim!: on_ok_SomeE)
  from ingest_feeds_timing[OF q 2(3-5)] r 2(1)[of q "tap_feed (p_source_map p) tp s st"] 2(5)
    taps_acyclic_wiring[OF ingest_wiring(1)[OF q]]
  show ?case by simp
qed simp

theorem timing_sees_unfiltered_witness:
  "\<exists>p'. ingest_run 3 [(''can0'', wit_sample 0 7), (''can0'', wit_sample 50 7)] wit_pl = Some (Inr (), p')
    \<and> p_timing p' = Some (wit_pl_tap, 2)"
proof -
  obtain p' where r: "ingest_run 3 [(''can0'', wit_sample 0 7), (''can0'', wit_sample 50 7)] wit_pl = Some (Inr (), p')"
    by (simp add: eval_nat_numeral wit_pl_def wit_pl_tap_def wit_pl_policy_def wit_policy_def wit_sample_def
        Let_def op_defs)
  from timing_sees_unfiltered[OF r _ _ wit_pl_acyclic, of wit_pl_tap 0]
  have "p_timing p' = Some (wit_pl_tap, 2)"
    by (simp add: wit_pl_def tap_feed_def wit_sample_def wit_pl_tap_def Let_def)
  with r show ?thesis by blast
qed


definition wit_pl_cat :: runtime_catalog where
  "wit_pl_cat =
     (let pol = wit_pl_policy ''car.rpm'' None (1 / 10) in
      \<lparr>source_map = [''can0:x'' \<mapsto> (1, pol)], channel_ids = [(''car.rpm'', 1)], policies_by_id = [1 \<mapsto> pol],
       registry = \<lparr>reg_seq = 1, reg_vehicle_id = ''car1'', reg_created_unix_ms = 0,
         reg_channels = [\<lparr>ch_id = 1, ch_name = ''car.rpm'', ch_source_ref = ''can0:x'', ch_units = [],
                          ch_type = INT64, ch_scale = 1 / 10, ch_offset = 0\<rparr>]\<rparr>\<rparr>)"

definition wit_pl0 :: "(unit, unit) pipeline" where
  "wit_pl0 =
     \<lparr>p_source_map = source_map wit_pl_cat, p_rbe = rbe_init,
      p_batcher = \<lparr>b_registry_seq = 1, b_policies_by_id = policies_by_id wit_pl_cat, b_tick_us = 20000,
                   b_tick_ns = 20000000, b_pending = []\<rparr>,
      p_tick_ns = 20000000, p_fusion = None, p_timing = None, p_staged = [],
      p_reported_unmapped = {}, p_unmapped_refs = 0, p_encode_failures = 0\<rparr>"

definition wit_pl_ops :: "pipeline_op list" where
  "wit_pl_ops = [Ingest ''can0'' (wit_sample 30000000 8), Ingest ''can0'' (wit_sample 0 7)]"

lemma wit_pl_staged:
  "fold (pipeline_step 3 wit_pl_pb) wit_pl_ops wit_pl0 =
     wit_pl0\<lparr>p_staged := [(''can0'', 1, wit_sample 30000000 8), (''can0'', 1, wit_sample 0 7)]\<rparr>"
  by (simp add: wit_pl_ops_def eval_nat_numeral wit_pl0_def wit_pl_cat_def wit_pl_policy_def wit_sample_def
      Let_def op_defs)


text \<open>
  Within one flush no two batches carry the same message id, as long as the wall clock moves by
  more than a millisecond per tick: the id is the source class and the window's epoch.
\<close>
theorem msg_ids_distinct:
  assumes "pipeline_inv p" and "flush pb clk p = Some (Inr bs, p')"
    and "\<forall>s t. s + p_tick_ns p \<le> t \<longrightarrow> clk s + 1 < clk t"
  shows "distinct (map tb_msg_id bs)"
proof -
  let ?xs = "sort_key capture (p_staged p)"
  have inv: "0 < p_tick_ns p" "b_pending (p_batcher p) = []"
    "\<forall>x \<in> set ?xs. b_policies_by_id (p_batcher p) (fst (snd x)) \<noteq> None"
    using assms(1) by (simp_all add: pipeline_inv_def)
  have "bs = concat (map (window_batches pb clk (p_batcher p)) (windows (p_tick_ns p) ?xs))"
    using flush_loop_Inr[of ?xs "p\<lparr>p_staged := []\<rparr>" _ pb clk "[]" bs p'] assms(2) inv
    by (simp add: flush_def)
  moreover have "sorted_wrt (\<lambda>v w. py_round (clk (capture (hd v))) < py_round (clk (capture (hd w))))
      (windows (p_tick_ns p) ?xs)"
    using windows_gap[OF sorted_sort_key inv(1)]
    by (rule sorted_wrt_mono_rel[rotated]) (use assms(3) py_round_strict in blast)
  ultimately show ?thesis using distinct_window_ids by simp
qed

theorem msg_ids_distinct_witness:
  "\<exists>bs p'. flush wit_pl_pb (\<lambda>t. of_int t / 1000000) wit_pl = Some (Inr bs, p') \<and> distinct (map tb_msg_id bs)"
proof -
  have f: "flush wit_pl_pb (\<lambda>t. of_int t / 1000000) wit_pl = Some (Inr [], wit_pl)"
    by (simp add: flush_def wit_pl_def Let_def)
  have "\<forall>s t. s + p_tick_ns wit_pl \<le> t \<longrightarrow> (of_int s / 1000000 + 1 :: real) < of_int t / 1000000"
    by (auto simp: wit_pl_def Let_def field_simps)
  from msg_ids_distinct[OF wit_pl_inv f this] f show ?thesis by blast
qed

text \<open>
  What the except clause of \<open>flush\<close> does not catch: one infinite reading on a scaled integer
  channel makes \<open>round\<close> raise OverflowError, which leaves \<open>flush\<close> and takes the batches of every
  other window of the call with it, although the staged samples are already gone.
\<close>
theorem flush_overflow_escapes:
  "\<exists>p'. flush wit_pl_pb (\<lambda>t. of_int t / 1000000)
      (fold (pipeline_step 3 wit_pl_pb)
        [Ingest ''can0'' (wit_sample 0 7),
         Ingest ''can0'' ((wit_sample 30000000 8)\<lparr>svalue := VFloat PInf\<rparr>)] wit_pl0) =
      Some (Inl OverflowError, p')
    \<and> p_staged p' = [] \<and> p_encode_failures p' = 0"
proof -
  let ?s = "(wit_sample 30000000 8)\<lparr>svalue := VFloat PInf\<rparr>"
  have st: "fold (pipeline_step 3 wit_pl_pb) [Ingest ''can0'' (wit_sample 0 7), Ingest ''can0'' ?s] wit_pl0 =
      wit_pl0\<lparr>p_staged := [(''can0'', 1, wit_sample 0 7), (''can0'', 1, ?s)]\<rparr>"
    by (simp add: eval_nat_numeral wit_pl0_def wit_pl_cat_def wit_pl_policy_def wit_sample_def Let_def op_defs)
  show ?thesis unfolding st
    by (simp add: eval_nat_numeral wit_pl0_def wit_pl_cat_def wit_pl_policy_def wit_sample_def Let_def op_defs
        pending_of_def wit_pl_pb_def)
qed

text \<open>
  Across flushes the id is not unique: when the samples of one capture instant are drained in
  two ticks, the two batches carry one message id and different payloads, so a stream that
  deduplicates on the id keeps only the first.
\<close>
theorem split_instant_reuses_msg_id:
  "\<exists>b1 p1 b2 p2. flush wit_pl_pb (\<lambda>t. of_int t / 1000000)
        (pipeline_step 3 wit_pl_pb (Ingest ''can0'' (wit_sample 0 7)) wit_pl0) = Some (Inr [b1], p1)
    \<and> flush wit_pl_pb (\<lambda>t. of_int t / 1000000)
        (pipeline_step 3 wit_pl_pb (Ingest ''can0'' (wit_sample 0 9)) p1) = Some (Inr [b2], p2)
    \<and> tb_msg_id b1 = tb_msg_id b2 \<and> tb_payload b1 \<noteq> tb_payload b2"
proof -
  have st: "pipeline_step 3 wit_pl_pb (Ingest ''can0'' (wit_sample 0 v)) wit_pl0 =
      wit_pl0\<lparr>p_staged := [(''can0'', 1, wit_sample 0 v)]\<rparr>" for v
    by (simp add: eval_nat_numeral wit_pl0_def wit_pl_cat_def wit_pl_policy_def wit_sample_def Let_def op_defs)
  have fl: "\<exists>b. flush wit_pl_pb (\<lambda>t. of_int t / 1000000) (wit_pl0\<lparr>p_staged := [(''can0'', 1, wit_sample 0 v)]\<rparr>) =
      Some (Inr [b], wit_pl0) \<and> tb_msg_id b = msg_id_of ''can0'' (py_round 0)
        \<and> sb_samples (tb_payload b) = [\<lparr>ws_channel_id = 1, ws_t_offset_us = 0, ws_value = Some (WI (10 * v))\<rparr>]" for v
    using py_round_of_int[of "10 * v"]
    by (simp add: wit_pl0_def wit_pl_cat_def wit_pl_policy_def wit_sample_def Let_def op_defs
        pending_of_def wit_pl_pb_def tick_batch_of_def mult.commute)
  obtain b1 where b1: "flush wit_pl_pb (\<lambda>t. of_int t / 1000000) (wit_pl0\<lparr>p_staged := [(''can0'', 1, wit_sample 0 7)]\<rparr>) =
      Some (Inr [b1], wit_pl0)" "tb_msg_id b1 = msg_id_of ''can0'' (py_round 0)"
      "sb_samples (tb_payload b1) = [\<lparr>ws_channel_id = 1, ws_t_offset_us = 0, ws_value = Some (WI (10 * 7))\<rparr>]"
    using fl[of 7] by blast
  obtain b2 where b2: "flush wit_pl_pb (\<lambda>t. of_int t / 1000000) (wit_pl0\<lparr>p_staged := [(''can0'', 1, wit_sample 0 9)]\<rparr>) =
      Some (Inr [b2], wit_pl0)" "tb_msg_id b2 = msg_id_of ''can0'' (py_round 0)"
      "sb_samples (tb_payload b2) = [\<lparr>ws_channel_id = 1, ws_t_offset_us = 0, ws_value = Some (WI (10 * 9))\<rparr>]"
    using fl[of 9] by blast
  have "tb_payload b1 \<noteq> tb_payload b2" using b1(3) b2(3) by auto
  with b1 b2 st show ?thesis by metis
qed

end
