(* ===== verification/Publisher.thy ===== *)
theory Publisher
  imports Pipeline "HOL-Library.Sublist"
begin

text \<open>
  \<^verbatim>\<open>src/agent/publisher.py\<close>: the bounded buffer and the unacked window in front of JetStream.

  The state the two threads share is guarded by one lock, so the atomic actions are those of the
  critical sections: \<open>submit\<close> (pipeline thread), one iteration of \<open>_fill_window\<close>, the acknowledged
  head of the window, and \<open>_requeue\<close> after a failed publish (publisher loop). A run is any
  interleaving of them. The \<open>pending\<close> deque of \<open>_send_loop\<close> is part of the state. \<open>len\<close> is the
  length of a payload, which is opaque here. The NATS client, stream provisioning and the
  subscriptions are not modelled; the reconnect backoff of \<open>_run\<close> is.
\<close>

section \<open>State\<close>

record 'w queued_batch =
  q_subject :: string
  q_payload :: 'w
  q_msg_id :: string
  q_submit_mono_ns :: int

record 'w publisher =
  pub_vehicle_id :: string
  pub_window :: nat
  pub_budget :: int
  pub_buffer :: "'w queued_batch list"
  pub_buffer_bytes :: int
  pub_oldest_pending :: "int option"
  pub_drops :: nat
  pub_published :: nat
  pub_pending :: "'w queued_batch list"

definition publisher_init :: "string \<Rightarrow> int \<Rightarrow> int \<Rightarrow> 'w publisher res" where
  "publisher_init vehicle window budget =
     (if window \<le> 0 then Inl ValueError
      else Inr \<lparr>pub_vehicle_id = vehicle, pub_window = nat window, pub_budget = budget,
                pub_buffer = [], pub_buffer_bytes = 0, pub_oldest_pending = None, pub_drops = 0,
                pub_published = 0, pub_pending = []\<rparr>)"

section \<open>Operations\<close>

text \<open>The shedding loop, over the end of the deque it pops from: pop while over budget and more
  than one batch is left. Returns what is left, its bytes and the number shed.\<close>

fun shed :: "('w \<Rightarrow> nat) \<Rightarrow> int \<Rightarrow> 'w queued_batch list \<Rightarrow> int \<Rightarrow> nat \<Rightarrow> 'w queued_batch list \<times> int \<times> nat" where
  "shed len budget (x # y # xs) bytes drops =
     (if bytes > budget
      then shed len budget (y # xs) (bytes - int (len (q_payload x))) (drops + 1)
      else (x # y # xs, bytes, drops))"
| "shed len budget xs bytes drops = (xs, bytes, drops)"

definition queued :: "'w publisher \<Rightarrow> 'w tick_batch \<Rightarrow> int \<Rightarrow> 'w queued_batch" where
  "queued p b now =
     \<lparr>q_subject = ''tele.'' @ pub_vehicle_id p @ ''.'' @ tb_source_class b, q_payload = tb_payload b,
      q_msg_id = tb_msg_id b, q_submit_mono_ns = now\<rparr>"

definition submit :: "('w \<Rightarrow> nat) \<Rightarrow> 'w tick_batch \<Rightarrow> int \<Rightarrow> 'w publisher \<Rightarrow> 'w publisher" where
  "submit len b now p =
     (let (buf, bytes, drops) = shed len (pub_budget p) (pub_buffer p @ [queued p b now])
            (pub_buffer_bytes p + int (len (tb_payload b))) (pub_drops p)
      in p\<lparr>pub_buffer := buf, pub_buffer_bytes := bytes, pub_drops := drops\<rparr>)"

definition fill_one :: "('w \<Rightarrow> nat) \<Rightarrow> 'w publisher \<Rightarrow> 'w publisher" where
  "fill_one len p =
     (if length (pub_pending p) < pub_window p then
        (case pub_buffer p of
           [] \<Rightarrow> p
         | x # xs \<Rightarrow>
             p\<lparr>pub_buffer := xs, pub_buffer_bytes := pub_buffer_bytes p - int (len (q_payload x)),
               pub_oldest_pending := (if pub_oldest_pending p = None then Some (q_submit_mono_ns x)
                                      else pub_oldest_pending p),
               pub_pending := pub_pending p @ [x]\<rparr>)
      else p)"

fun fill_loop :: "nat \<Rightarrow> ('w \<Rightarrow> nat) \<Rightarrow> 'w publisher \<Rightarrow> 'w publisher" where
  "fill_loop 0 len p = p"
| "fill_loop (Suc n) len p =
     (if length (pub_pending p) < pub_window p \<and> pub_buffer p \<noteq> []
      then fill_loop n len (fill_one len p) else p)"

text \<open>\<open>_fill_window\<close> ends when the window is full or the buffer empty; each pass moves one batch.\<close>

definition fill_window :: "('w \<Rightarrow> nat) \<Rightarrow> 'w publisher \<Rightarrow> 'w publisher" where
  "fill_window len p = fill_loop (length (pub_buffer p)) len p"

text \<open>The head of the window was acknowledged.\<close>

definition ack_head :: "'w publisher \<Rightarrow> 'w publisher" where
  "ack_head p =
     (case pub_pending p of
        [] \<Rightarrow> p
      | x # xs \<Rightarrow>
          p\<lparr>pub_pending := xs, pub_published := pub_published p + 1,
            pub_oldest_pending := (case xs of [] \<Rightarrow> None | y # ys \<Rightarrow> Some (q_submit_mono_ns y))\<rparr>)"

definition requeue :: "('w \<Rightarrow> nat) \<Rightarrow> 'w publisher \<Rightarrow> 'w publisher" where
  "requeue len p =
     (let (rbuf, bytes, drops) = shed len (pub_budget p) (rev (pub_pending p @ pub_buffer p))
            (pub_buffer_bytes p + (\<Sum>x\<leftarrow>pub_pending p. int (len (q_payload x)))) (pub_drops p)
      in p\<lparr>pub_buffer := rev rbuf, pub_buffer_bytes := bytes, pub_drops := drops,
           pub_oldest_pending := None, pub_pending := []\<rparr>)"

definition publish_lag_ms :: "int \<Rightarrow> 'w publisher \<Rightarrow> real" where
  "publish_lag_ms now p =
     (let oldest = (case (pub_oldest_pending p, pub_buffer p) of
                      (None, x # xs) \<Rightarrow> Some (q_submit_mono_ns x)
                    | (o1, _) \<Rightarrow> o1)
      in case oldest of None \<Rightarrow> 0 | Some t \<Rightarrow> of_int (now - t) / 1000000)"

text \<open>What \<open>drain\<close> waits for.\<close>

definition publisher_idle :: "'w publisher \<Rightarrow> bool" where
  "publisher_idle p \<longleftrightarrow> pub_buffer p = [] \<and> pub_oldest_pending p = None"

lemmas publisher_op_defs [op_defs] =
  publisher_init_def submit_def fill_one_def ack_head_def requeue_def queued_def

section \<open>Reconnect backoff\<close>

text \<open>One pass of \<open>_run\<close>: the connect fails, or a session ends with or without having provisioned
  its streams. Returns the pause before the next pass, if any, and the next backoff.\<close>

datatype session_end = ConnectFailed | SessionEnded bool

definition CONNECT_BACKOFF_START_S :: real where "CONNECT_BACKOFF_START_S = 1 / 2"
definition CONNECT_BACKOFF_MAX_S :: real where "CONNECT_BACKOFF_MAX_S = 15"

fun run_pass :: "session_end \<Rightarrow> real \<Rightarrow> real option \<times> real" where
  "run_pass ConnectFailed backoff = (Some backoff, min (backoff * 2) CONNECT_BACKOFF_MAX_S)"
| "run_pass (SessionEnded True) backoff = (None, CONNECT_BACKOFF_START_S)"
| "run_pass (SessionEnded False) backoff = (Some backoff, min (backoff * 2) CONNECT_BACKOFF_MAX_S)"

text \<open>
  The reconnect backoff never leaves its range, so the publisher never hot-loops on a broker
  that refuses it: a failed pass pauses at least half a second and at most fifteen.
\<close>
lemma reconnect_backoff_bounded:
  assumes "CONNECT_BACKOFF_START_S \<le> backoff" and "backoff \<le> CONNECT_BACKOFF_MAX_S"
    and "run_pass s backoff = (pause, backoff')"
  shows "CONNECT_BACKOFF_START_S \<le> backoff' \<and> backoff' \<le> CONNECT_BACKOFF_MAX_S
    \<and> (pause = None \<longleftrightarrow> s = SessionEnded True)
    \<and> (\<forall>t. pause = Some t \<longrightarrow> 1 / 2 \<le> t \<and> t \<le> 15)"
  using assms
  by (cases "(s, backoff)" rule: run_pass.cases)
    (auto simp: CONNECT_BACKOFF_START_S_def CONNECT_BACKOFF_MAX_S_def min_def)

section \<open>Shedding\<close>

abbreviation bytes_of :: "('w \<Rightarrow> nat) \<Rightarrow> 'w queued_batch list \<Rightarrow> int" where
  "bytes_of len xs \<equiv> (\<Sum>x\<leftarrow>xs. int (len (q_payload x)))"

lemma shed_spec:
  assumes "shed len budget xs (bytes_of len xs) d = (ys, bytes, d')"
  shows "bytes = bytes_of len ys \<and> (bytes \<le> budget \<or> length ys \<le> 1)
    \<and> (\<exists>k. ys = drop k xs \<and> d' = d + k \<and> k \<le> length xs \<and> (xs \<noteq> [] \<longrightarrow> k < length xs))"
  using assms
proof (induction len budget xs "bytes_of len xs" d rule: shed.induct)
  case (1 len budget x y xs d)
  show ?case
  proof (cases "bytes_of len (x # y # xs) > budget")
    case True
    with 1(2) have s: "shed len budget (y # xs) (bytes_of len (y # xs)) (d + 1) = (ys, bytes, d')" by simp
    note ih = 1(1)[OF True _ s, simplified]
    then obtain k where "ys = drop k (y # xs)" "d' = d + 1 + k" "k < length (y # xs)" by auto
    with ih have "ys = drop (Suc k) (x # y # xs)" "d' = d + Suc k" "Suc k < length (x # y # xs)"
      by simp_all
    with ih show ?thesis by (intro conjI exI[of _ "Suc k"]) auto
  next
    case False
    with 1(2) show ?thesis by (intro conjI exI[of _ 0]) auto
  qed
qed (auto intro: exI[of _ 0])

section \<open>Invariant\<close>

text \<open>
  The byte count is the bytes buffered, the buffer is within its budget (or down to one batch), the
  window is bounded, and the lag stamp is that of the oldest unacknowledged publish.
\<close>

definition publisher_inv :: "('w \<Rightarrow> nat) \<Rightarrow> 'w publisher \<Rightarrow> bool" where
  [inv_defs]: "publisher_inv len p \<longleftrightarrow>
     pub_buffer_bytes p = bytes_of len (pub_buffer p)
     \<and> (pub_buffer_bytes p \<le> pub_budget p \<or> length (pub_buffer p) \<le> 1)
     \<and> length (pub_pending p) \<le> pub_window p \<and> 0 < pub_window p
     \<and> pub_oldest_pending p = (case pub_pending p of [] \<Rightarrow> None | x # xs \<Rightarrow> Some (q_submit_mono_ns x))"

datatype 'w pub_op = Submit "'w tick_batch" int | FillOne | Ack | Fail

fun pub_step :: "('w \<Rightarrow> nat) \<Rightarrow> 'w pub_op \<Rightarrow> 'w publisher \<Rightarrow> 'w publisher" where
  "pub_step len (Submit b now) p = submit len b now p"
| "pub_step len FillOne p = fill_one len p"
| "pub_step len Ack p = ack_head p"
| "pub_step len Fail p = requeue len p"

fun submissions :: "'w pub_op \<Rightarrow> nat" where
  "submissions (Submit b now) = 1"
| "submissions _ = 0"

text \<open>Every batch in the publisher's hands, oldest first, and everything it answers for.\<close>

definition in_hand :: "'w publisher \<Rightarrow> 'w queued_batch list" where
  "in_hand p = pub_pending p @ pub_buffer p"

definition pub_held :: "'w publisher \<Rightarrow> nat" where
  "pub_held p = pub_published p + pub_drops p + length (in_hand p)"

lemma submit_spec:
  assumes "publisher_inv len p"
  obtains k where "submit len b now p = p\<lparr>pub_buffer := drop k (pub_buffer p @ [queued p b now]),
      pub_buffer_bytes := bytes_of len (drop k (pub_buffer p @ [queued p b now])),
      pub_drops := pub_drops p + k\<rparr>" "k \<le> length (pub_buffer p)"
    "bytes_of len (drop k (pub_buffer p @ [queued p b now])) \<le> pub_budget p
      \<or> length (drop k (pub_buffer p @ [queued p b now])) \<le> 1"
proof -
  let ?xs = "pub_buffer p @ [queued p b now]"
  have b: "pub_buffer_bytes p + int (len (tb_payload b)) = bytes_of len ?xs"
    using assms by (simp add: publisher_inv_def queued_def)
  obtain ys bytes d where s: "shed len (pub_budget p) ?xs (bytes_of len ?xs) (pub_drops p) = (ys, bytes, d)"
    by (metis prod_cases3)
  from shed_spec[OF s] obtain k where "ys = drop k ?xs" "d = pub_drops p + k" "k \<le> length (pub_buffer p)"
    "bytes = bytes_of len ys" "bytes \<le> pub_budget p \<or> length ys \<le> 1" by force
  with s b that show ?thesis by (simp add: submit_def)
qed

lemma requeue_spec:
  assumes "publisher_inv len p"
  obtains k where "requeue len p = p\<lparr>pub_buffer := take (length (in_hand p) - k) (in_hand p),
      pub_buffer_bytes := bytes_of len (take (length (in_hand p) - k) (in_hand p)),
      pub_drops := pub_drops p + k, pub_oldest_pending := None, pub_pending := []\<rparr>"
    "k \<le> length (in_hand p)" "in_hand p \<noteq> [] \<longrightarrow> k < length (in_hand p)"
    "bytes_of len (take (length (in_hand p) - k) (in_hand p)) \<le> pub_budget p
      \<or> length (take (length (in_hand p) - k) (in_hand p)) \<le> 1"
proof -
  let ?xs = "rev (in_hand p)"
  have b: "pub_buffer_bytes p + bytes_of len (pub_pending p) = bytes_of len ?xs"
    using assms by (simp add: publisher_inv_def in_hand_def rev_map[symmetric] sum_list_rev)
  obtain ys bytes d where s: "shed len (pub_budget p) ?xs (bytes_of len ?xs) (pub_drops p) = (ys, bytes, d)"
    by (metis prod_cases3)
  from shed_spec[OF s] obtain k where k: "ys = drop k ?xs" "d = pub_drops p + k" "k \<le> length (in_hand p)"
    "in_hand p \<noteq> [] \<longrightarrow> k < length (in_hand p)" "bytes = bytes_of len ys" "bytes \<le> pub_budget p \<or> length ys \<le> 1"
    by auto
  have r: "rev ys = take (length (in_hand p) - k) (in_hand p)"
    by (simp add: k(1) rev_drop)
  have "bytes_of len (rev ys) = bytes_of len ys" by (simp add: rev_map[symmetric] sum_list_rev)
  with s b k r that show ?thesis
    by (simp add: requeue_def in_hand_def[symmetric]) (metis length_rev)
qed

lemma pub_step_inv: "publisher_inv len p \<Longrightarrow> publisher_inv len (pub_step len e p)"
proof (cases e)
  case (Submit b now)
  assume inv: "publisher_inv len p"
  from submit_spec[OF inv, of b now] obtain k where
    "submit len b now p = p\<lparr>pub_buffer := drop k (pub_buffer p @ [queued p b now]),
      pub_buffer_bytes := bytes_of len (drop k (pub_buffer p @ [queued p b now])),
      pub_drops := pub_drops p + k\<rparr>"
    "bytes_of len (drop k (pub_buffer p @ [queued p b now])) \<le> pub_budget p
      \<or> length (drop k (pub_buffer p @ [queued p b now])) \<le> 1" by blast
  with Submit inv show ?thesis by (simp add: publisher_inv_def)
next
  case Fail
  assume inv: "publisher_inv len p"
  from requeue_spec[OF inv] obtain k where "requeue len p = p\<lparr>pub_buffer := take (length (in_hand p) - k) (in_hand p),
      pub_buffer_bytes := bytes_of len (take (length (in_hand p) - k) (in_hand p)),
      pub_drops := pub_drops p + k, pub_oldest_pending := None, pub_pending := []\<rparr>"
    "bytes_of len (take (length (in_hand p) - k) (in_hand p)) \<le> pub_budget p
      \<or> length (take (length (in_hand p) - k) (in_hand p)) \<le> 1" by blast
  with Fail inv show ?thesis by (simp add: publisher_inv_def)
qed (auto simp: publisher_inv_def fill_one_def ack_head_def split: list.splits)

lemma pub_step_held: "publisher_inv len p \<Longrightarrow> pub_held (pub_step len e p) = pub_held p + submissions e"
proof (cases e)
  case (Submit b now)
  assume inv: "publisher_inv len p"
  from submit_spec[OF inv, of b now] obtain k where
    "submit len b now p = p\<lparr>pub_buffer := drop k (pub_buffer p @ [queued p b now]),
      pub_buffer_bytes := bytes_of len (drop k (pub_buffer p @ [queued p b now])),
      pub_drops := pub_drops p + k\<rparr>" "k \<le> length (pub_buffer p)" by blast
  with Submit show ?thesis by (simp add: pub_held_def in_hand_def)
next
  case Fail
  assume inv: "publisher_inv len p"
  from requeue_spec[OF inv] obtain k where "requeue len p = p\<lparr>pub_buffer := take (length (in_hand p) - k) (in_hand p),
      pub_buffer_bytes := bytes_of len (take (length (in_hand p) - k) (in_hand p)),
      pub_drops := pub_drops p + k, pub_oldest_pending := None, pub_pending := []\<rparr>"
    "k \<le> length (in_hand p)" by blast
  with Fail show ?thesis by (simp add: pub_held_def in_hand_def)
qed (auto simp: pub_held_def in_hand_def fill_one_def ack_head_def split: list.splits)

interpretation pub: ledger "pub_step len" "publisher_inv len" pub_held submissions
  by unfold_locales (auto intro: pub_step_inv simp: pub_step_held)

section \<open>Order\<close>

text \<open>A run observed from outside: the batches submitted and acknowledged so far.\<close>

fun observe_step ::
  "('w \<Rightarrow> nat) \<Rightarrow> 'w pub_op \<Rightarrow> 'w publisher \<times> 'w queued_batch list \<times> 'w queued_batch list
     \<Rightarrow> 'w publisher \<times> 'w queued_batch list \<times> 'w queued_batch list" where
  "observe_step len e (p, sub, acked) =
     (pub_step len e p,
      (case e of Submit b now \<Rightarrow> sub @ [queued p b now] | _ \<Rightarrow> sub),
      (case (e, pub_pending p) of (Ack, x # xs) \<Rightarrow> acked @ [x] | _ \<Rightarrow> acked))"

lemma subseq_drop_middle: "subseq (a @ b @ drop k c) (a @ b @ c)"
  by (simp only: subseq_append' suffix_imp_subseq suffix_drop)

definition in_order :: "'w publisher \<times> 'w queued_batch list \<times> 'w queued_batch list \<Rightarrow> bool" where
  "in_order o1 = (case o1 of (p, sub, acked) \<Rightarrow> subseq (acked @ in_hand p) sub)"

lemma observe_step_in_order:
  assumes "publisher_inv len p" and "in_order (p, sub, acked)"
  shows "in_order (observe_step len e (p, sub, acked))"
proof (cases e)
  case (Submit b now)
  from submit_spec[OF assms(1), of b now] obtain k where k:
    "submit len b now p = p\<lparr>pub_buffer := drop k (pub_buffer p @ [queued p b now]),
      pub_buffer_bytes := bytes_of len (drop k (pub_buffer p @ [queued p b now])),
      pub_drops := pub_drops p + k\<rparr>" by blast
  have "subseq (acked @ pub_pending p @ drop k (pub_buffer p @ [queued p b now]))
      ((acked @ in_hand p) @ [queued p b now])"
    using subseq_drop_middle[of acked "pub_pending p" k "pub_buffer p @ [queued p b now]"]
    by (simp add: in_hand_def)
  also have "subseq ((acked @ in_hand p) @ [queued p b now]) (sub @ [queued p b now])"
    using assms(2) subseq_append[of "acked @ in_hand p" "[queued p b now]" sub] by (simp add: in_order_def)
  finally show ?thesis using Submit k by (simp add: in_order_def in_hand_def)
next
  case Fail
  from requeue_spec[OF assms(1)] obtain k where k: "requeue len p = p\<lparr>pub_buffer := take (length (in_hand p) - k) (in_hand p),
      pub_buffer_bytes := bytes_of len (take (length (in_hand p) - k) (in_hand p)),
      pub_drops := pub_drops p + k, pub_oldest_pending := None, pub_pending := []\<rparr>" by blast
  have "subseq (acked @ take n (in_hand p)) (acked @ in_hand p)" for n
    by (metis list_emb_append_mono subseq_order.order_refl prefix_imp_subseq take_is_prefix)
  with assms(2) have "subseq (acked @ take n (in_hand p)) sub" for n
    unfolding in_order_def prod.case by (metis subseq_order.order_trans)
  moreover have "in_hand (requeue len p) = take (length (in_hand p) - k) (in_hand p)"
    unfolding k by (simp add: in_hand_def)
  ultimately show ?thesis using Fail by (simp add: in_order_def)
qed (use assms(2) in \<open>auto simp: in_order_def in_hand_def fill_one_def ack_head_def split: list.splits\<close>)

lemma observe_run:
  assumes "publisher_inv len p" and "in_order (p, sub, acked)"
  shows "in_order (fold (observe_step len) es (p, sub, acked))
    \<and> fst (fold (observe_step len) es (p, sub, acked)) = fold (pub_step len) es p"
  using assms
proof (induction es arbitrary: p sub acked)
  case (Cons e es)
  obtain sub' acked' where o: "observe_step len e (p, sub, acked) = (pub_step len e p, sub', acked')"
    by simp
  with observe_step_in_order[OF Cons.prems, of e] have "in_order (pub_step len e p, sub', acked')" by simp
  from Cons.IH[OF pub_step_inv[OF Cons.prems(1)] this] o show ?case by simp
qed simp

section \<open>Draining\<close>

lemma fill_one_hand [simp]:
  "in_hand (fill_one len p) = in_hand p" "pub_window (fill_one len p) = pub_window p"
  "pub_published (fill_one len p) = pub_published p" "pub_drops (fill_one len p) = pub_drops p"
  by (auto simp: in_hand_def fill_one_def split: list.splits)

lemma fill_loop_hand [simp]:
  "in_hand (fill_loop n len p) = in_hand p" "pub_window (fill_loop n len p) = pub_window p"
  "pub_published (fill_loop n len p) = pub_published p" "pub_drops (fill_loop n len p) = pub_drops p"
  by (induction n arbitrary: p) simp_all

lemma fill_loop_inv: "publisher_inv len p \<Longrightarrow> publisher_inv len (fill_loop n len p)"
  using pub_step_inv[of len _ FillOne] by (induction n arbitrary: p) simp_all

text \<open>\<open>_fill_window\<close> moves batches until the window is full or nothing is buffered.\<close>

lemma fill_loop_full:
  "n = length (pub_buffer p) \<Longrightarrow>
     pub_buffer (fill_loop n len p) = [] \<or> pub_window p \<le> length (pub_pending (fill_loop n len p))"
proof (induction n arbitrary: p)
  case (Suc n)
  have "length (pub_buffer (fill_one len p)) = n" if "length (pub_pending p) < pub_window p"
    using that Suc.prems by (auto simp: fill_one_def split: list.splits)
  with Suc.IH[of "fill_one len p"] show ?case by (auto simp: not_less)
qed simp

lemma fill_window_pending:
  assumes "0 < pub_window p" and "in_hand p \<noteq> []"
  shows "pub_pending (fill_window len p) \<noteq> []"
  using fill_loop_full[OF refl, of p len] fill_loop_hand(1)[of "length (pub_buffer p)" len p] assms
  by (auto simp: fill_window_def in_hand_def)

text \<open>One pass of \<open>_send_loop\<close> whose publish is acknowledged.\<close>

definition send_pass :: "('w \<Rightarrow> nat) \<Rightarrow> 'w publisher \<Rightarrow> 'w publisher" where
  "send_pass len p = ack_head (fill_window len p)"

lemma send_pass_spec:
  assumes "0 < pub_window p" and "in_hand p = x # xs"
  shows "in_hand (send_pass len p) = xs" "pub_window (send_pass len p) = pub_window p"
    "pub_published (send_pass len p) = pub_published p + 1" "pub_drops (send_pass len p) = pub_drops p"
proof -
  let ?q = "fill_window len p"
  have "in_hand ?q = x # xs" using assms(2) by (simp add: fill_window_def)
  moreover have "pub_pending ?q \<noteq> []" using fill_window_pending[OF assms(1)] assms(2) by simp
  ultimately obtain ys where "pub_pending ?q = x # ys" "xs = ys @ pub_buffer ?q"
    by (cases "pub_pending ?q") (auto simp: in_hand_def)
  then show "in_hand (send_pass len p) = xs" "pub_window (send_pass len p) = pub_window p"
    "pub_published (send_pass len p) = pub_published p + 1" "pub_drops (send_pass len p) = pub_drops p"
    by (simp_all add: send_pass_def ack_head_def in_hand_def)
      (simp_all add: fill_window_def)
qed

lemma send_passes:
  "0 < pub_window p \<Longrightarrow> length (in_hand p) = n \<Longrightarrow>
     in_hand ((send_pass len ^^ n) p) = [] \<and> pub_published ((send_pass len ^^ n) p) = pub_published p + n
       \<and> pub_drops ((send_pass len ^^ n) p) = pub_drops p"
proof (induction n arbitrary: p)
  case (Suc n)
  then obtain x xs where x: "in_hand p = x # xs" "length xs = n" by (cases "in_hand p") auto
  note s = send_pass_spec[OF Suc.prems(1) x(1), of len]
  from Suc.IH[of "send_pass len p"] s x(2) Suc.prems(1) show ?case
    by (simp add: funpow_swap1)
qed simp

section \<open>Properties\<close>

text \<open>
  C5. Under every interleaving of submits, window fills, acknowledgements and failed publishes,
  starting from a fresh publisher: each submitted batch is acknowledged, in hand or counted as
  dropped; the byte count is exact and within the budget unless a single batch is left; the
  unacked window is bounded; and what was acknowledged followed by what is in hand is in
  submission order.
\<close>
theorem publisher_accounts_for_every_batch:
  assumes "publisher_init vehicle window budget = Inr p0"
    and "fold (observe_step len) es (p0, [], []) = (p, sub, acked)"
  shows "pub_published p + pub_drops p + length (in_hand p) = sum_list (map submissions es)
    \<and> pub_buffer_bytes p = bytes_of len (pub_buffer p)
    \<and> (pub_buffer_bytes p \<le> budget \<or> length (pub_buffer p) \<le> 1)
    \<and> int (length (pub_pending p)) \<le> window
    \<and> subseq (acked @ in_hand p) sub"
proof -
  have inv0: "publisher_inv len p0" and held0: "pub_held p0 = 0" and w0: "int (pub_window p0) = window"
    and b0: "pub_budget p0 = budget" and ord0: "in_order (p0, [], [])"
    using assms(1) by (auto simp: publisher_init_def publisher_inv_def pub_held_def in_hand_def in_order_def
        split: if_splits)
  from observe_run[OF inv0 ord0, of es] assms(2)
  have ord: "in_order (p, sub, acked)" and p: "p = fold (pub_step len) es p0" by auto
  have inv: "publisher_inv len p" unfolding p by (rule pub.run_inv[OF inv0])
  have const: "pub_window (fold (pub_step len) es q) = pub_window q \<and> pub_budget (fold (pub_step len) es q) = pub_budget q" for q
  proof (induction es arbitrary: q)
    case (Cons e es)
    have "pub_window (pub_step len e q) = pub_window q \<and> pub_budget (pub_step len e q) = pub_budget q"
      by (cases e) (auto simp: op_defs split: list.splits prod.splits)
    with Cons show ?case by simp
  qed simp
  from pub.run_held[OF inv0, of es] held0 inv ord const[of p0] p w0 b0 show ?thesis
    by (auto simp: pub_held_def publisher_inv_def in_order_def)
qed

definition wit_tick_batch :: "string \<Rightarrow> string tick_batch" where
  "wit_tick_batch payload = \<lparr>tb_source_class = ''can0'', tb_epoch_unix_ms = 5, tb_epoch_mono_ns = 0,
     tb_msg_id = ''can0:5'', tb_payload = payload\<rparr>"

definition wit_publisher :: "string publisher" where
  "wit_publisher = \<lparr>pub_vehicle_id = ''car1'', pub_window = 1, pub_budget = 5, pub_buffer = [],
     pub_buffer_bytes = 0, pub_oldest_pending = None, pub_drops = 0, pub_published = 0, pub_pending = []\<rparr>"

definition wit_pub_ops :: "string pub_op list" where
  "wit_pub_ops = [Submit (wit_tick_batch ''abc'') 1, FillOne, Submit (wit_tick_batch ''de'') 2,
     Submit (wit_tick_batch ''fghi'') 3, Ack, Fail]"

theorem publisher_accounts_for_every_batch_witness:
  "\<exists>p sub acked. fold (observe_step length) wit_pub_ops (wit_publisher, [], []) = (p, sub, acked)
    \<and> pub_published p = 1 \<and> pub_drops p = 1
    \<and> pub_published p + pub_drops p + length (in_hand p) = sum_list (map submissions wit_pub_ops)
    \<and> pub_buffer_bytes p = bytes_of length (pub_buffer p) \<and> subseq (acked @ in_hand p) sub"
proof -
  have i: "publisher_init ''car1'' 1 5 = Inr wit_publisher"
    by (simp add: publisher_init_def wit_publisher_def)
  obtain p sub acked where r: "fold (observe_step length) wit_pub_ops (wit_publisher, [], []) = (p, sub, acked)"
    by (metis prod_cases3)
  then have "pub_published p = 1" "pub_drops p = 1"
    by (auto simp: wit_pub_ops_def wit_publisher_def wit_tick_batch_def op_defs)
  with publisher_accounts_for_every_batch[OF i r] r show ?thesis by blast
qed

text \<open>
  Which end sheds: a submit over budget drops the oldest buffered batches and never the new one
  or one in flight; a requeue after a failed publish keeps the in-flight batches at the front, in
  order, and drops the newest ones instead.
\<close>
theorem shedding_ends:
  assumes "publisher_inv len p"
  shows "(\<exists>k \<le> length (pub_buffer p). in_hand (submit len b now p) =
            pub_pending p @ drop k (pub_buffer p @ [queued p b now])
          \<and> pub_drops (submit len b now p) = pub_drops p + k)
    \<and> (\<exists>k \<le> length (in_hand p). in_hand (requeue len p) = take (length (in_hand p) - k) (in_hand p)
          \<and> pub_drops (requeue len p) = pub_drops p + k
          \<and> (in_hand p \<noteq> [] \<longrightarrow> k < length (in_hand p)))"
proof (intro conjI)
  obtain k where k: "submit len b now p = p\<lparr>pub_buffer := drop k (pub_buffer p @ [queued p b now]),
      pub_buffer_bytes := bytes_of len (drop k (pub_buffer p @ [queued p b now])),
      pub_drops := pub_drops p + k\<rparr>" "k \<le> length (pub_buffer p)"
    by (rule submit_spec[OF assms, of b now]) blast
  have "in_hand (submit len b now p) = pub_pending p @ drop k (pub_buffer p @ [queued p b now])"
    "pub_drops (submit len b now p) = pub_drops p + k"
    unfolding k(1) by (simp_all add: in_hand_def)
  with k(2) show "\<exists>k \<le> length (pub_buffer p). in_hand (submit len b now p) =
            pub_pending p @ drop k (pub_buffer p @ [queued p b now])
          \<and> pub_drops (submit len b now p) = pub_drops p + k"
    by blast
  obtain k where k: "requeue len p = p\<lparr>pub_buffer := take (length (in_hand p) - k) (in_hand p),
      pub_buffer_bytes := bytes_of len (take (length (in_hand p) - k) (in_hand p)),
      pub_drops := pub_drops p + k, pub_oldest_pending := None, pub_pending := []\<rparr>"
    "k \<le> length (in_hand p)" "in_hand p \<noteq> [] \<longrightarrow> k < length (in_hand p)"
    by (rule requeue_spec[OF assms]) blast
  have "in_hand (requeue len p) = take (length (in_hand p) - k) (in_hand p)"
    "pub_drops (requeue len p) = pub_drops p + k"
    unfolding k(1) by (simp_all add: in_hand_def)
  with k(2,3) show "\<exists>k \<le> length (in_hand p). in_hand (requeue len p) =
            take (length (in_hand p) - k) (in_hand p)
          \<and> pub_drops (requeue len p) = pub_drops p + k \<and> (in_hand p \<noteq> [] \<longrightarrow> k < length (in_hand p))"
    by blast
qed

definition wit_requeue_publisher :: "string publisher" where
  "wit_requeue_publisher = (let q = (\<lambda>t pl. \<lparr>q_subject = ''tele.car1.can0'', q_payload = pl,
       q_msg_id = ''can0:5'', q_submit_mono_ns = t\<rparr>)
     in wit_publisher\<lparr>pub_buffer := [q 2 ''def''], pub_buffer_bytes := 3, pub_pending := [q 1 ''abc''],
          pub_oldest_pending := Some 1\<rparr>)"

lemma wit_requeue_inv: "publisher_inv length wit_requeue_publisher"
  by (simp add: publisher_inv_def wit_requeue_publisher_def wit_publisher_def Let_def)

theorem shedding_ends_witness:
  "\<exists>k \<le> length (in_hand wit_requeue_publisher). 0 < k
    \<and> in_hand (requeue length wit_requeue_publisher) =
        take (length (in_hand wit_requeue_publisher) - k) (in_hand wit_requeue_publisher)
    \<and> pub_drops (requeue length wit_requeue_publisher) = pub_drops wit_requeue_publisher + k"
proof -
  have "pub_drops (requeue length wit_requeue_publisher) = 1" "pub_drops wit_requeue_publisher = 0"
    by (simp_all add: requeue_def wit_requeue_publisher_def wit_publisher_def Let_def)
  with shedding_ends[OF wit_requeue_inv] show ?thesis by fastforce
qed

text \<open>
  The lag is the age of the oldest batch not yet acknowledged, and zero exactly when the
  publisher is idle in the sense \<open>drain\<close> waits for; and when the broker acknowledges, as many passes
  of the send loop as there are batches in hand make it idle with nothing more dropped.
\<close>
theorem publisher_drains:
  assumes "publisher_inv len p"
  shows "publish_lag_ms now p =
      (case in_hand p of [] \<Rightarrow> 0 | x # xs \<Rightarrow> of_int (now - q_submit_mono_ns x) / 1000000)
    \<and> (publisher_idle p \<longleftrightarrow> in_hand p = [])
    \<and> in_hand ((send_pass len ^^ length (in_hand p)) p) = []
    \<and> pub_published ((send_pass len ^^ length (in_hand p)) p) = pub_published p + length (in_hand p)
    \<and> pub_drops ((send_pass len ^^ length (in_hand p)) p) = pub_drops p"
proof -
  have "publish_lag_ms now p =
      (case in_hand p of [] \<Rightarrow> 0 | x # xs \<Rightarrow> of_int (now - q_submit_mono_ns x) / 1000000)"
    using assms by (auto simp: publish_lag_ms_def in_hand_def publisher_inv_def split: list.splits)
  moreover have "publisher_idle p \<longleftrightarrow> in_hand p = []"
    using assms by (auto simp: publisher_idle_def in_hand_def publisher_inv_def split: list.splits)
  ultimately show ?thesis
    using send_passes[OF _ refl, of p len] assms by (simp add: publisher_inv_def)
qed

theorem publisher_drains_witness:
  "publish_lag_ms 1000001 wit_requeue_publisher = 1
    \<and> in_hand ((send_pass length ^^ 2) wit_requeue_publisher) = []
    \<and> pub_published ((send_pass length ^^ 2) wit_requeue_publisher) = 2"
proof -
  have h: "length (in_hand wit_requeue_publisher) = 2" "pub_published wit_requeue_publisher = 0"
    "in_hand wit_requeue_publisher \<noteq> []" "q_submit_mono_ns (hd (in_hand wit_requeue_publisher)) = 1"
    by (simp_all add: in_hand_def wit_requeue_publisher_def wit_publisher_def Let_def)
  from publisher_drains[OF wit_requeue_inv, of 1000001] h show ?thesis
    by (auto split: list.splits)
qed

end
