(* ===== verification/Timing_Core.thy ===== *)
theory Timing_Core
  imports Py_Values
begin

text \<open>
  \<^verbatim>\<open>src/timing/timing_core.py\<close>: the lap and sector timing engine. The engine and its serialisable
  state are records; each method is a function on them. Coordinates and times are reals: rounding
  of float arithmetic is not modelled. The \<open>str\<close>-valued enums are datatypes.

  Results: the geometry of a crossing, what an accepted crossing means for its line, and, for every
  stream of fixes, how laps and sectors add up, when a lap is valid and what the best lap is.
\<close>

section \<open>Data\<close>

record gps_point =
  lat :: real
  lon :: real
  gtime :: real

datatype line_type = START_FINISH | SECTOR | PIT_ENTRY_LINE | PIT_EXIT_LINE | UNKNOWN_LINE

record timing_line =
  tl_name :: string
  tl_start :: gps_point
  tl_end :: gps_point
  tl_type :: line_type

datatype event_type = SECTOR_COMPLETED | LAP_COMPLETED | PIT_ENTRY | PIT_EXIT

record timing_event =
  te_type :: event_type
  te_time :: real
  te_line :: string
  te_lat :: real
  te_lon :: real
  te_lap_number :: int
  te_sector :: int
  te_split_time :: real
  te_lap_time :: real
  te_valid :: bool
  te_direction :: string
  te_pit_status :: string

record timing_state =
  lap_number :: int
  expected_idx :: nat
  lap_start_time :: real
  segment_start_time :: real
  sectors_done :: nat
  pit_status :: string
  lap_valid :: bool
  best_lap_time :: real
  last_lap_time :: real
  last_cross_time :: "string \<rightharpoonup> real"
  line_direction :: "string \<rightharpoonup> int"

definition timing_state_default :: timing_state where
  "timing_state_default =
     \<lparr>lap_number = 0, expected_idx = 0, lap_start_time = 0, segment_start_time = 0, sectors_done = 0,
      pit_status = ''track'', lap_valid = True, best_lap_time = 0, last_lap_time = 0,
      last_cross_time = Map.empty, line_direction = Map.empty\<rparr>"

record timing_engine =
  en_min_line_reentry_s :: real
  en_min_lap_time_s :: real
  en_gate_direction :: bool
  en_state :: timing_state
  en_prev :: "gps_point option"
  en_revision :: nat
  en_lap_points :: "timing_line list"
  en_pit_lines :: "timing_line list"

abbreviation n_points :: "timing_engine \<Rightarrow> nat" where
  "n_points e \<equiv> length (en_lap_points e)"

section \<open>Lines\<close>

text \<open>The last run of digits in a name: scanning from the right, digits are collected until a
  non-digit follows them.\<close>

fun last_digits :: "string \<Rightarrow> string \<Rightarrow> string" where
  "last_digits [] digits = digits"
| "last_digits (ch # rest) digits =
     (if is_ascii_digit ch then last_digits rest (ch # digits)
      else if digits \<noteq> [] then digits
      else last_digits rest digits)"

definition sector_num :: "string \<Rightarrow> nat" where
  "sector_num name =
     (let digits = last_digits (rev name) [] in if digits \<noteq> [] then nat_of_digits digits else 0)"

fun is_infix :: "string \<Rightarrow> string \<Rightarrow> bool" where
  "is_infix p [] = (p = [])"
| "is_infix p (c # s) = (take (length p) (c # s) = p \<or> is_infix p s)"

definition classify_line :: "string \<Rightarrow> line_type" where
  "classify_line name =
     (let n = lower name in
      if is_infix ''start'' n \<or> is_infix ''finish'' n then START_FINISH
      else if is_infix ''pit'' n \<and> is_infix ''entry'' n then PIT_ENTRY_LINE
      else if is_infix ''pit'' n \<and> is_infix ''exit'' n then PIT_EXIT_LINE
      else if is_infix ''sector'' n then SECTOR
      else UNKNOWN_LINE)"

definition engine_init ::
  "timing_line list \<Rightarrow> real \<Rightarrow> real \<Rightarrow> bool \<Rightarrow> timing_state option \<Rightarrow> timing_engine" where
  "engine_init lines reentry min_lap gate st =
     (let sf = filter (\<lambda>l. tl_type l = START_FINISH) lines;
          sectors = sort_key (\<lambda>l. sector_num (tl_name l)) (filter (\<lambda>l. tl_type l = SECTOR) lines)
      in \<lparr>en_min_line_reentry_s = reentry, en_min_lap_time_s = min_lap, en_gate_direction = gate,
          en_state = (case st of None \<Rightarrow> timing_state_default | Some s \<Rightarrow> s), en_prev = None, en_revision = 0,
          en_lap_points = (if sf \<noteq> [] then take 1 sf @ sectors else sectors),
          en_pit_lines = filter (\<lambda>l. tl_type l \<in> {PIT_ENTRY_LINE, PIT_EXIT_LINE}) lines\<rparr>)"

section \<open>Geometry\<close>

definition to_meters :: "real \<Rightarrow> real \<Rightarrow> real \<Rightarrow> real \<Rightarrow> real \<times> real" where
  "to_meters la lo ref_lat ref_lon =
     ((lo - ref_lon) * 111320 * cos (ref_lat * pi / 180), (la - ref_lat) * 111320)"

definition segment_intersection ::
  "real \<Rightarrow> real \<Rightarrow> real \<Rightarrow> real \<Rightarrow> real \<Rightarrow> real \<Rightarrow> real \<Rightarrow> real \<Rightarrow> (real \<times> real) option" where
  "segment_intersection x1 y1 x2 y2 x3 y3 x4 y4 =
     (let denom = (x2 - x1) * (y4 - y3) - (y2 - y1) * (x4 - x3) in
      if \<bar>denom\<bar> < 1 / 10 ^ 12 then None
      else
        (let t = ((x3 - x1) * (y4 - y3) - (y3 - y1) * (x4 - x3)) / denom;
             u = ((x3 - x1) * (y2 - y1) - (y3 - y1) * (x2 - x1)) / denom
         in if 0 \<le> t \<and> t \<le> 1 \<and> 0 \<le> u \<and> u \<le> 1
            then Some (t, (x4 - x3) * (y2 - y1) - (y4 - y3) * (x2 - x1))
            else None))"

type_synonym hit = "real \<times> string \<times> int"

definition crossing :: "gps_point \<Rightarrow> gps_point \<Rightarrow> timing_line \<Rightarrow> hit option" where
  "crossing p1 p2 line =
     (let rlat = lat (tl_start line); rlon = lon (tl_start line);
          (ax1, ay1) = to_meters (lat p1) (lon p1) rlat rlon;
          (ax2, ay2) = to_meters (lat p2) (lon p2) rlat rlon;
          (bx1, by1) = to_meters (lat (tl_start line)) (lon (tl_start line)) rlat rlon;
          (bx2, by2) = to_meters (lat (tl_end line)) (lon (tl_end line)) rlat rlon
      in case segment_intersection ax1 ay1 ax2 ay2 bx1 by1 bx2 by2 of
           None \<Rightarrow> None
         | Some (t, cross) \<Rightarrow>
             (let ctime = gtime p1 + t * (gtime p2 - gtime p1); sign = (if cross \<ge> 0 then 1 else -1)
              in Some (ctime, if sign > 0 then ''clockwise'' else ''counterclockwise'', sign)))"

section \<open>Crossings\<close>

definition accept_crossing :: "timing_line \<Rightarrow> hit \<Rightarrow> timing_engine \<Rightarrow> bool \<times> timing_engine" where
  "accept_crossing line h e =
     (let (ctime, dir, sign) = h; st = en_state e in
      if (case last_cross_time st (tl_name line) of
            None \<Rightarrow> False | Some t0 \<Rightarrow> ctime - t0 < en_min_line_reentry_s e)
      then (False, e)
      else if en_gate_direction e \<and> (case line_direction st (tl_name line) of None \<Rightarrow> False | Some d \<Rightarrow> d \<noteq> sign)
      then (False, e)
      else
        (let st1 = (if en_gate_direction e \<and> line_direction st (tl_name line) = None
                    then st\<lparr>line_direction := (line_direction st)(tl_name line \<mapsto> sign)\<rparr> else st)
         in (True, e\<lparr>en_state := st1\<lparr>last_cross_time := (last_cross_time st1)(tl_name line \<mapsto> ctime)\<rparr>,
                     en_revision := en_revision e + 1\<rparr>)))"

definition handle_pit ::
  "timing_line \<Rightarrow> hit \<Rightarrow> gps_point \<Rightarrow> timing_engine \<Rightarrow> timing_event list \<times> timing_engine" where
  "handle_pit line h gps e =
     (let (ctime, dir, sign) = h;
          entry = (tl_type line = PIT_ENTRY_LINE);
          st = (if entry then (en_state e)\<lparr>pit_status := ''pit'', lap_valid := False\<rparr>
                else (en_state e)\<lparr>pit_status := ''track''\<rparr>)
      in ([\<lparr>te_type = (if entry then PIT_ENTRY else PIT_EXIT), te_time = ctime, te_line = tl_name line,
            te_lat = lat gps, te_lon = lon gps, te_lap_number = lap_number st, te_sector = 0,
            te_split_time = 0, te_lap_time = 0, te_valid = True, te_direction = dir,
            te_pit_status = pit_status st\<rparr>],
          e\<lparr>en_state := st\<rparr>))"

definition start_new_lap :: "nat \<Rightarrow> real \<Rightarrow> timing_state \<Rightarrow> timing_state" where
  "start_new_lap n ctime st =
     st\<lparr>lap_start_time := ctime, segment_start_time := ctime, expected_idx := 1 mod n,
        sectors_done := 0, lap_valid := (pit_status st = ''track'')\<rparr>"

definition handle_lap_point ::
  "nat \<Rightarrow> timing_line \<Rightarrow> hit \<Rightarrow> gps_point \<Rightarrow> timing_engine \<Rightarrow> timing_event list \<times> timing_engine" where
  "handle_lap_point idx line h gps e =
     (let (ctime, dir, sign) = h; st = en_state e; n = n_points e in
      if lap_start_time st = 0 then
        (let st1 = (start_new_lap n ctime st)\<lparr>lap_number := 1, expected_idx := (idx + 1) mod n\<rparr>
         in ([], e\<lparr>en_state := (if idx \<noteq> 0 then st1\<lparr>lap_valid := False\<rparr> else st1)\<rparr>))
      else
        (let in_order = (idx = expected_idx st) in
         if idx = 0 then
           (let lap_time = ctime - lap_start_time st in
            if sectors_done st = 0 \<or> lap_time < en_min_lap_time_s e
            then ([], e\<lparr>en_state := start_new_lap n ctime st\<rparr>)
            else
              (let split = ctime - segment_start_time st;
                   valid = (lap_valid st \<and> in_order \<and> pit_status st = ''track'');
                   ev = \<lparr>te_type = SECTOR_COMPLETED, te_time = ctime, te_line = tl_name line,
                         te_lat = lat gps, te_lon = lon gps, te_lap_number = lap_number st,
                         te_sector = int n, te_split_time = split, te_lap_time = 0, te_valid = valid,
                         te_direction = dir, te_pit_status = pit_status st\<rparr>;
                   ev2 = \<lparr>te_type = LAP_COMPLETED, te_time = ctime, te_line = tl_name line,
                         te_lat = lat gps, te_lon = lon gps, te_lap_number = lap_number st,
                         te_sector = 0, te_split_time = 0, te_lap_time = lap_time, te_valid = valid,
                         te_direction = dir, te_pit_status = pit_status st\<rparr>;
                   st1 = st\<lparr>last_lap_time := lap_time,
                            best_lap_time := (if valid \<and> (best_lap_time st = 0 \<or> lap_time < best_lap_time st)
                                              then lap_time else best_lap_time st)\<rparr>
               in ([ev, ev2],
                   e\<lparr>en_state := start_new_lap n ctime (st1\<lparr>lap_number := lap_number st1 + 1\<rparr>)\<rparr>)))
         else
           ([\<lparr>te_type = SECTOR_COMPLETED, te_time = ctime, te_line = tl_name line,
              te_lat = lat gps, te_lon = lon gps, te_lap_number = lap_number st,
              te_sector = int idx, te_split_time = ctime - segment_start_time st, te_lap_time = 0,
              te_valid = (in_order \<and> pit_status st = ''track''), te_direction = dir,
              te_pit_status = pit_status st\<rparr>],
            e\<lparr>en_state := st\<lparr>lap_valid := (lap_valid st \<and> in_order), sectors_done := sectors_done st + 1,
                            segment_start_time := ctime, expected_idx := (idx + 1) mod n\<rparr>\<rparr>)))"

text \<open>The loop over the pit lines, and the loop over the lap points, which stops at the first
  accepted crossing.\<close>

fun pit_loop ::
  "gps_point \<Rightarrow> gps_point \<Rightarrow> timing_line list \<Rightarrow> timing_engine \<Rightarrow> timing_event list \<times> timing_engine" where
  "pit_loop prev gps [] e = ([], e)"
| "pit_loop prev gps (line # lines) e =
     (case crossing prev gps line of
        None \<Rightarrow> pit_loop prev gps lines e
      | Some h \<Rightarrow>
          (let (ok, e1) = accept_crossing line h e in
           if ok then
             (let (evs, e2) = handle_pit line h gps e1; (evs', e3) = pit_loop prev gps lines e2
              in (evs @ evs', e3))
           else pit_loop prev gps lines e1))"

fun lap_loop ::
  "gps_point \<Rightarrow> gps_point \<Rightarrow> nat \<Rightarrow> timing_line list \<Rightarrow> timing_engine \<Rightarrow> timing_event list \<times> timing_engine" where
  "lap_loop prev gps idx [] e = ([], e)"
| "lap_loop prev gps idx (line # lines) e =
     (case crossing prev gps line of
        None \<Rightarrow> lap_loop prev gps (idx + 1) lines e
      | Some h \<Rightarrow>
          (let (ok, e1) = accept_crossing line h e in
           if ok then handle_lap_point idx line h gps e1
           else lap_loop prev gps (idx + 1) lines e1))"

definition process_point :: "gps_point \<Rightarrow> timing_engine \<Rightarrow> timing_event list \<times> timing_engine" where
  "process_point gps e =
     (let e0 = e\<lparr>en_prev := Some gps\<rparr> in
      case en_prev e of
        None \<Rightarrow> ([], e0)
      | Some prev \<Rightarrow>
          (let (evs, e1) = pit_loop prev gps (en_pit_lines e0) e0;
               (evs', e2) = lap_loop prev gps 0 (en_lap_points e1) e1
           in (evs @ evs', e2)))"

record timing_snapshot =
  sn_lap_number :: int
  sn_sector :: nat
  sn_pit_status :: string
  sn_current_lap_time :: real
  sn_current_sector_time :: real
  sn_last_lap_time :: real
  sn_best_lap_time :: real

definition snapshot :: "timing_engine \<Rightarrow> timing_snapshot" where
  "snapshot e =
     (let st = en_state e; now = (case en_prev e of None \<Rightarrow> 0 | Some p \<Rightarrow> gtime p);
          sector = (if lap_start_time st = 0 then 0
                    else if expected_idx st \<noteq> 0 then expected_idx st else n_points e)
      in \<lparr>sn_lap_number = lap_number st, sn_sector = sector, sn_pit_status = pit_status st,
          sn_current_lap_time = (if lap_start_time st \<noteq> 0 then max 0 (now - lap_start_time st) else 0),
          sn_current_sector_time =
            (if segment_start_time st \<noteq> 0 then max 0 (now - segment_start_time st) else 0),
          sn_last_lap_time = last_lap_time st, sn_best_lap_time = best_lap_time st\<rparr>)"

lemmas timing_op_defs [op_defs] =
  accept_crossing_def handle_pit_def start_new_lap_def handle_lap_point_def process_point_def

section \<open>What the steps keep\<close>

text \<open>The configuration of the engine: what no method changes.\<close>

definition engine_config :: "timing_engine \<Rightarrow> real \<times> real \<times> bool \<times> timing_line list \<times> timing_line list" where
  "engine_config e = (en_min_line_reentry_s e, en_min_lap_time_s e, en_gate_direction e, en_lap_points e, en_pit_lines e)"

lemma accept_crossing_config: "accept_crossing line h e = (ok, e') \<Longrightarrow> engine_config e' = engine_config e"
  by (auto simp: accept_crossing_def engine_config_def Let_def split: prod.splits if_splits)

lemma handle_pit_config: "handle_pit line h gps e = (evs, e') \<Longrightarrow> engine_config e' = engine_config e"
  by (auto simp: handle_pit_def engine_config_def Let_def split: prod.splits if_splits)

lemma handle_lap_point_config: "handle_lap_point i line h gps e = (evs, e') \<Longrightarrow> engine_config e' = engine_config e"
  by (auto simp: handle_lap_point_def engine_config_def Let_def split: prod.splits if_splits)

lemma pit_loop_config: "pit_loop prev gps lines e = (evs, e') \<Longrightarrow> engine_config e' = engine_config e"
  by (induction prev gps lines e arbitrary: evs e' rule: pit_loop.induct)
    (auto simp: Let_def split: option.splits prod.splits if_splits dest!: accept_crossing_config handle_pit_config)

lemma lap_loop_config: "lap_loop prev gps i lines e = (evs, e') \<Longrightarrow> engine_config e' = engine_config e"
  by (induction prev gps i lines e arbitrary: evs e' rule: lap_loop.induct)
    (auto simp: Let_def split: option.splits prod.splits if_splits
      dest!: accept_crossing_config handle_lap_point_config)

lemma process_point_config: "process_point gps e = (evs, e') \<Longrightarrow> engine_config e' = engine_config e"
  by (auto simp: process_point_def Let_def split: option.splits prod.splits
      dest!: pit_loop_config lap_loop_config) (simp_all add: engine_config_def)

text \<open>Accepting a crossing touches only the per-line memory.\<close>

definition same_lap :: "timing_state \<Rightarrow> timing_state \<Rightarrow> bool" where
  "same_lap st st' \<longleftrightarrow>
     lap_number st' = lap_number st \<and> expected_idx st' = expected_idx st
     \<and> lap_start_time st' = lap_start_time st \<and> segment_start_time st' = segment_start_time st
     \<and> sectors_done st' = sectors_done st \<and> pit_status st' = pit_status st \<and> lap_valid st' = lap_valid st
     \<and> best_lap_time st' = best_lap_time st \<and> last_lap_time st' = last_lap_time st"

lemma accept_crossing_lap: "accept_crossing line h e = (ok, e') \<Longrightarrow> same_lap (en_state e) (en_state e')"
  by (cases h) (auto simp: accept_crossing_def same_lap_def Let_def split: if_splits)

section \<open>A lap in progress\<close>

definition sector_events :: "timing_event list \<Rightarrow> timing_event list" where
  "sector_events evs = filter (\<lambda>v. te_type v = SECTOR_COMPLETED) evs"

abbreviation splits_of :: "timing_event list \<Rightarrow> real" where
  "splits_of evs \<equiv> (\<Sum>v\<leftarrow>evs. te_split_time v)"

text \<open>
  \<open>sofar\<close> is the list of sector events since the running lap began. The two clocks differ by what
  they add up to; and while the lap is valid they are sectors 1, 2, ... in order, all valid, with
  the next one expected and the car on the track.
\<close>

definition lap_inv :: "timing_engine \<Rightarrow> timing_event list \<Rightarrow> bool" where
  [inv_defs]: "lap_inv e sofar \<longleftrightarrow>
     (let st = en_state e; k = length sofar in
      k = sectors_done st
      \<and> segment_start_time st - lap_start_time st = splits_of sofar
      \<and> (lap_start_time st = 0 \<longrightarrow> k = 0)
      \<and> (\<forall>v \<in> set sofar. te_lap_number v = lap_number st \<and> te_type v = SECTOR_COMPLETED)
      \<and> (lap_valid st \<and> lap_start_time st \<noteq> 0 \<longrightarrow>
           map te_sector sofar = map int [1..<Suc k] \<and> k < n_points e
           \<and> expected_idx st = Suc k mod n_points e \<and> pit_status st = ''track''
           \<and> (\<forall>v \<in> set sofar. te_valid v)))"

lemma lap_inv_fresh: "lap_inv (engine_init lines reentry min_lap gate None) []"
  by (simp add: lap_inv_def engine_init_def timing_state_default_def Let_def)

lemma lap_inv_cong:
  "same_lap (en_state e) (en_state e') \<Longrightarrow> en_lap_points e' = en_lap_points e \<Longrightarrow> lap_inv e' sofar = lap_inv e sofar"
  by (simp add: lap_inv_def same_lap_def Let_def)

lemma accept_crossing_lap_inv:
  assumes "accept_crossing line h e = (ok, e')" and "lap_inv e sofar"
  shows "lap_inv e' sofar"
  using lap_inv_cong[OF accept_crossing_lap[OF assms(1)]] accept_crossing_config[OF assms(1)] assms(2)
  by (simp add: engine_config_def)

lemma handle_pit_lap_inv:
  assumes "handle_pit line h gps e = (evs, e')" and "lap_inv e sofar"
  shows "lap_inv e' sofar \<and> sector_events evs = [] \<and> (\<forall>v \<in> set evs. te_type v \<noteq> LAP_COMPLETED)"
  using assms
  by (cases h) (auto simp: handle_pit_def lap_inv_def sector_events_def Let_def split: if_splits)

lemma pit_loop_lap_inv:
  "pit_loop prev gps lines e = (evs, e') \<Longrightarrow> lap_inv e sofar \<Longrightarrow>
     lap_inv e' sofar \<and> sector_events evs = [] \<and> (\<forall>v \<in> set evs. te_type v \<noteq> LAP_COMPLETED)"
proof (induction prev gps lines e arbitrary: evs e' rule: pit_loop.induct)
  case (2 prev gps line lines e)
  show ?case
  proof (cases "crossing prev gps line")
    case None
    with 2 show ?thesis by simp
  next
    case (Some h)
    obtain ok e1 where a: "accept_crossing line h e = (ok, e1)" by fastforce
    note i1 = accept_crossing_lap_inv[OF a 2(5)]
    show ?thesis
    proof (cases ok)
      case True
      obtain ev1 e2 where p: "handle_pit line h gps e1 = (ev1, e2)" by fastforce
      obtain ev2 e3 where r: "pit_loop prev gps lines e2 = (ev2, e3)" by fastforce
      have "evs = ev1 @ ev2" "e' = e3" using 2(4) Some a True p r by simp_all
      moreover note handle_pit_lap_inv[OF p i1]
      ultimately show ?thesis
        using 2(2)[OF Some a[symmetric] refl True p[symmetric] refl r] by (auto simp: sector_events_def)
    next
      case False
      with 2(3)[OF Some a[symmetric] refl False, of evs e'] 2(4) Some a i1 show ?thesis by simp
    qed
  qed
qed (simp add: sector_events_def)

text \<open>The four things a lap point can do.\<close>

lemma handle_lap_pointE:
  assumes "handle_lap_point idx line (ctime, dir, sign) gps e = (evs, e')"
  obtains
    (start) "lap_start_time (en_state e) = 0" "evs = []"
      "en_state e' = (start_new_lap (n_points e) ctime (en_state e))\<lparr>lap_number := 1,
         expected_idx := (idx + 1) mod n_points e,
         lap_valid := (idx = 0 \<and> pit_status (en_state e) = ''track'')\<rparr>"
  | (resync) "lap_start_time (en_state e) \<noteq> 0" "idx = 0" "evs = []"
      "sectors_done (en_state e) = 0 \<or> ctime - lap_start_time (en_state e) < en_min_lap_time_s e"
      "en_state e' = start_new_lap (n_points e) ctime (en_state e)"
  | (lap) v w where "lap_start_time (en_state e) \<noteq> 0" "idx = 0" "evs = [v, w]"
      "sectors_done (en_state e) \<noteq> 0" "ctime - lap_start_time (en_state e) \<ge> en_min_lap_time_s e"
      "te_type v = SECTOR_COMPLETED" "te_sector v = int (n_points e)"
      "te_split_time v = ctime - segment_start_time (en_state e)" "te_valid v = te_valid w"
      "te_lap_number v = lap_number (en_state e)"
      "te_type w = LAP_COMPLETED" "te_lap_time w = ctime - lap_start_time (en_state e)"
      "te_lap_number w = lap_number (en_state e)"
      "te_valid w = (lap_valid (en_state e) \<and> expected_idx (en_state e) = 0 \<and> pit_status (en_state e) = ''track'')"
      "en_state e' = start_new_lap (n_points e) ctime ((en_state e)\<lparr>
         last_lap_time := te_lap_time w,
         best_lap_time := (if te_valid w \<and> (best_lap_time (en_state e) = 0 \<or> te_lap_time w < best_lap_time (en_state e))
                           then te_lap_time w else best_lap_time (en_state e)),
         lap_number := lap_number (en_state e) + 1\<rparr>)"
  | (sector) v where "lap_start_time (en_state e) \<noteq> 0" "idx \<noteq> 0" "evs = [v]"
      "te_type v = SECTOR_COMPLETED" "te_sector v = int idx"
      "te_split_time v = ctime - segment_start_time (en_state e)"
      "te_valid v = (idx = expected_idx (en_state e) \<and> pit_status (en_state e) = ''track'')"
      "te_lap_number v = lap_number (en_state e)"
      "en_state e' = (en_state e)\<lparr>lap_valid := lap_valid (en_state e) \<and> idx = expected_idx (en_state e),
         sectors_done := sectors_done (en_state e) + 1, segment_start_time := ctime,
         expected_idx := (idx + 1) mod n_points e\<rparr>"
proof (cases "lap_start_time (en_state e) = 0")
  case True
  with assms show ?thesis by (intro start) (auto simp: handle_lap_point_def Let_def start_new_lap_def)
next
  case False
  note f = False
  show ?thesis
  proof (cases "idx = 0")
    case True
    show ?thesis
    proof (cases "sectors_done (en_state e) = 0 \<or> ctime - lap_start_time (en_state e) < en_min_lap_time_s e")
      case True
      with assms f \<open>idx = 0\<close> show ?thesis by (intro resync) (auto simp: handle_lap_point_def Let_def)
    next
      case False
      with assms f \<open>idx = 0\<close> show ?thesis
        by (intro lap[of "hd evs" "hd (tl evs)"]) (auto simp: handle_lap_point_def Let_def)
    qed
  next
    case False
    with assms f show ?thesis by (intro sector[of "hd evs"]) (auto simp: handle_lap_point_def Let_def)
  qed
qed

text \<open>What a completed lap looks like, given its sector events.\<close>

definition lap_complete :: "timing_engine \<Rightarrow> timing_event list \<Rightarrow> timing_event \<Rightarrow> bool" where
  "lap_complete e sectors w \<longleftrightarrow>
     te_lap_time w = splits_of sectors \<and> en_min_lap_time_s e \<le> te_lap_time w
     \<and> (\<forall>v \<in> set sectors. te_lap_number v = te_lap_number w \<and> te_type v = SECTOR_COMPLETED)
     \<and> (te_valid w \<longrightarrow> map te_sector sectors = map int [1..<Suc (n_points e)] \<and> (\<forall>v \<in> set sectors. te_valid v))"

lemma lap_complete_cong:
  "n_points e1 = n_points e \<Longrightarrow> en_min_lap_time_s e1 = en_min_lap_time_s e \<Longrightarrow>
     lap_complete e1 xs w = lap_complete e xs w"
  by (simp add: lap_complete_def)

definition carry :: "timing_engine \<Rightarrow> timing_event list \<Rightarrow> timing_event list \<Rightarrow> timing_event list" where
  "carry e' sofar evs = (if sectors_done (en_state e') = 0 then [] else sofar @ sector_events evs)"

lemma mod_SucD: "k < n \<Longrightarrow> i = Suc k mod n \<Longrightarrow> i \<noteq> 0 \<Longrightarrow> i = Suc k \<and> Suc k < n" for k n i :: nat
  by (metis Suc_lessI mod_less mod_self)

lemma mod_Suc_0D: "k < n \<Longrightarrow> Suc k mod n = 0 \<Longrightarrow> Suc k = n" for k n :: nat
  by (metis Suc_lessI mod_less nat.distinct(1))

lemma handle_lap_point_inv:
  assumes h: "handle_lap_point idx line hit gps e = (evs, e')" and inv: "lap_inv e sofar" and i: "idx < n_points e"
  shows "lap_inv e' (carry e' sofar evs)
    \<and> (\<forall>w \<in> set evs. te_type w = LAP_COMPLETED \<longrightarrow> lap_complete e (sofar @ sector_events evs) w)"
proof -
  obtain ctime dir sign where hit: "hit = (ctime, dir, sign)" by (cases hit)
  have n: "n_points e' = n_points e"
    using handle_lap_point_config[OF h] by (simp add: engine_config_def)
  have k: "length sofar = sectors_done (en_state e)"
    and clk: "segment_start_time (en_state e) - lap_start_time (en_state e) = splits_of sofar"
    and nums: "\<forall>v \<in> set sofar. te_lap_number v = lap_number (en_state e) \<and> te_type v = SECTOR_COMPLETED"
    using inv by (simp_all add: lap_inv_def Let_def)
  have ok: "map te_sector sofar = map int [1..<Suc (length sofar)] \<and> length sofar < n_points e
      \<and> expected_idx (en_state e) = Suc (length sofar) mod n_points e \<and> pit_status (en_state e) = ''track''
      \<and> (\<forall>v \<in> set sofar. te_valid v)" if "lap_valid (en_state e)" "lap_start_time (en_state e) \<noteq> 0"
    using inv that unfolding lap_inv_def Let_def by blast
  note upt_Suc [simp del]
  from h[unfolded hit] show ?thesis
  proof (cases rule: handle_lap_pointE)
    case start
    with i n show ?thesis by (auto simp: lap_inv_def carry_def start_new_lap_def Let_def)
  next
    case resync
    with i n show ?thesis by (auto simp: lap_inv_def carry_def start_new_lap_def Let_def)
  next
    case (lap v w)
    have "lap_complete e (sofar @ [v]) w"
    proof (cases "te_valid w")
      case True
      then have "lap_valid (en_state e)" "expected_idx (en_state e) = 0" using lap(14) by auto
      with ok[OF _ lap(1)] have "Suc (length sofar) = n_points e" using mod_Suc_0D by metis
      with ok[OF \<open>lap_valid (en_state e)\<close> lap(1)] True lap clk nums show ?thesis
        by (simp add: lap_complete_def upt_Suc_append)
    next
      case False
      with lap(5,6,8,10,12,13) clk nums show ?thesis by (simp add: lap_complete_def)
    qed
    with lap i n show ?thesis
      by (auto simp: lap_inv_def carry_def start_new_lap_def sector_events_def Let_def)
  next
    case (sector v)
    have c: "carry e' sofar evs = sofar @ [v]" using sector by (simp add: carry_def sector_events_def)
    have "lap_inv e' (sofar @ [v])"
    proof (cases "lap_valid (en_state e) \<and> idx = expected_idx (en_state e)")
      case True
      note o = ok[OF conjunct1[OF True] sector(1)]
      have idx: "idx = Suc (length sofar)" "Suc (length sofar) < n_points e"
        using o True mod_SucD[of "length sofar" "n_points e" idx] sector(2) by auto
      have "map te_sector (sofar @ [v]) = map int [1..<Suc (Suc (length sofar))]"
        using o sector(5) idx by (simp add: upt_Suc_append)
      moreover have "te_valid v" using sector(7) True o by simp
      moreover have "splits_of (sofar @ [v]) = ctime - lap_start_time (en_state e)"
        using clk sector(6) by simp
      ultimately show ?thesis
        unfolding lap_inv_def Let_def sector(9) using sector(1,4,8) o idx k n nums by simp
    next
      case False
      with sector k clk n nums show ?thesis by (auto simp: lap_inv_def Let_def)
    qed
    with sector c show ?thesis by simp
  qed
qed

lemma accept_crossing_False: "accept_crossing line h e = (False, e') \<Longrightarrow> e' = e"
  by (cases h) (auto simp: accept_crossing_def Let_def split: if_splits)

lemma lap_loopE:
  assumes "lap_loop prev gps i lines e = (evs, e')"
  obtains (quiet) "evs = []" "e' = e"
  | (crossed) j line h e1 where "j < length lines" "crossing prev gps line = Some h"
      "accept_crossing line h e = (True, e1)" "handle_lap_point (i + j) line h gps e1 = (evs, e')"
  using assms
proof (induction prev gps i lines e arbitrary: thesis rule: lap_loop.induct)
  case (2 prev gps i line lines e)
  have go_on: thesis if r: "lap_loop prev gps (i + 1) lines e = (evs, e')"
    and IH: "\<And>P. (evs = [] \<Longrightarrow> e' = e \<Longrightarrow> P) \<Longrightarrow>
      (\<And>j line h e1. j < length lines \<Longrightarrow> crossing prev gps line = Some h \<Longrightarrow>
        accept_crossing line h e = (True, e1) \<Longrightarrow> handle_lap_point (i + 1 + j) line h gps e1 = (evs, e') \<Longrightarrow> P) \<Longrightarrow> P"
    by (rule IH) (use 2(3) in blast, rule 2(4)[of "Suc _"], auto)
  show ?case
  proof (cases "crossing prev gps line")
    case None
    with 2(5) have r: "lap_loop prev gps (i + 1) lines e = (evs, e')" by simp
    show ?thesis by (rule go_on[OF r], rule 2(1)[OF None]) (use r in auto)
  next
    case (Some h)
    obtain ok e1 where a: "accept_crossing line h e = (ok, e1)" by fastforce
    show ?thesis
    proof (cases ok)
      case True
      with 2(5) Some a have "handle_lap_point (i + 0) line h gps e1 = (evs, e')" by simp
      with True a Some show ?thesis by (intro 2(4)[of 0 line h e1]) auto
    next
      case False
      with a accept_crossing_False have e1: "e1 = e" by simp
      with False 2(5) Some a have r: "lap_loop prev gps (i + 1) lines e = (evs, e')" by simp
      show ?thesis by (rule go_on[OF r], rule 2(2)[OF Some a[symmetric] refl False]) (use r e1 in auto)
    qed
  qed
qed simp

lemma lap_loop_inv:
  assumes "lap_loop prev gps 0 (en_lap_points e) e = (evs, e')" and "lap_inv e sofar"
  shows "lap_inv e' (carry e' sofar evs)
    \<and> (\<forall>w \<in> set evs. te_type w = LAP_COMPLETED \<longrightarrow> lap_complete e (sofar @ sector_events evs) w)"
  using assms(1)
proof (cases rule: lap_loopE)
  case quiet
  then have "carry e' sofar evs = sofar"
    using assms(2) by (auto simp: carry_def sector_events_def lap_inv_def Let_def)
  with assms(2) quiet show ?thesis by simp
next
  case (crossed j line h e1)
  have n: "n_points e1 = n_points e" "en_min_lap_time_s e1 = en_min_lap_time_s e"
    using accept_crossing_config[OF crossed(3)] by (simp_all add: engine_config_def)
  have "lap_inv e1 sofar" by (rule accept_crossing_lap_inv[OF crossed(3) assms(2)])
  from handle_lap_point_inv[OF crossed(4) this] crossed(1) n(1) show ?thesis
    unfolding lap_complete_cong[OF n(1,2)] by simp
qed

lemma process_point_lap_inv:
  assumes p: "process_point gps e = (evs, e')" and inv: "lap_inv e sofar"
  shows "lap_inv e' (carry e' sofar evs)
    \<and> (\<forall>w \<in> set evs. te_type w = LAP_COMPLETED \<longrightarrow> lap_complete e (sofar @ sector_events evs) w)"
proof -
  let ?e0 = "e\<lparr>en_prev := Some gps\<rparr>"
  have i0: "lap_inv ?e0 sofar" using inv by (simp add: lap_inv_def)
  show ?thesis
  proof (cases "en_prev e")
    case None
    with p i0 show ?thesis by (auto simp: process_point_def carry_def sector_events_def lap_inv_def Let_def)
  next
    case (Some prev)
    obtain ev1 e1 where a: "pit_loop prev gps (en_pit_lines ?e0) ?e0 = (ev1, e1)" by fastforce
    obtain ev2 e2 where b: "lap_loop prev gps 0 (en_lap_points e1) e1 = (ev2, e2)" by fastforce
    have r: "evs = ev1 @ ev2" "e' = e2" using p Some a b by (simp_all add: process_point_def)
    note pit = pit_loop_lap_inv[OF a i0]
    have c: "n_points e1 = n_points e" "en_min_lap_time_s e1 = en_min_lap_time_s e"
      using pit_loop_config[OF a] by (simp_all add: engine_config_def)
    have se: "sector_events evs = sector_events ev2" using r pit by (simp add: sector_events_def)
    note lap = lap_loop_inv[OF b conjunct1[OF pit]]
    have "carry e' sofar evs = carry e2 sofar ev2" using r se by (simp add: carry_def)
    moreover have "lap_complete e (sofar @ sector_events evs) w" if "w \<in> set evs" "te_type w = LAP_COMPLETED" for w
    proof -
      from that r pit have "w \<in> set ev2" by auto
      with lap that(2) have "lap_complete e1 (sofar @ sector_events ev2) w" by blast
      with se lap_complete_cong[OF c] show ?thesis by simp
    qed
    ultimately show ?thesis using lap r by simp
  qed
qed

text \<open>A stream of fixes, with the sector events of the running lap carried along.\<close>

fun track_step :: "gps_point \<Rightarrow> timing_engine \<times> timing_event list \<Rightarrow> timing_engine \<times> timing_event list" where
  "track_step gps (e, sofar) = (let (evs, e') = process_point gps e in (e', carry e' sofar evs))"

interpretation lap_run: step_machine track_step "\<lambda>(e, sofar). lap_inv e sofar"
  by unfold_locales (auto simp: process_point_lap_inv Let_def split: prod.splits)

section \<open>Crossing geometry\<close>

lemma segment_intersection_sound:
  assumes "segment_intersection x1 y1 x2 y2 x3 y3 x4 y4 = Some (t, cross)"
  shows "0 \<le> t \<and> t \<le> 1 \<and> cross \<noteq> 0
    \<and> (\<exists>u. 0 \<le> u \<and> u \<le> 1 \<and> x1 + t * (x2 - x1) = x3 + u * (x4 - x3) \<and> y1 + t * (y2 - y1) = y3 + u * (y4 - y3))"
proof -
  define d where "d = (x2 - x1) * (y4 - y3) - (y2 - y1) * (x4 - x3)"
  define u where "u = ((x3 - x1) * (y2 - y1) - (y3 - y1) * (x2 - x1)) / d"
  have d0: "d \<noteq> 0" and t: "t = ((x3 - x1) * (y4 - y3) - (y3 - y1) * (x4 - x3)) / d"
    and c: "cross = - d" and b: "0 \<le> t" "t \<le> 1" "0 \<le> u" "u \<le> 1"
    using assms by (auto simp: segment_intersection_def Let_def d_def u_def algebra_simps split: if_splits)
  have "(x1 + t * (x2 - x1)) * d = (x3 + u * (x4 - x3)) * d" "(y1 + t * (y2 - y1)) * d = (y3 + u * (y4 - y3)) * d"
    using d0 by (simp_all add: t u_def d_def divide_simps) (simp_all add: algebra_simps)
  with d0 b c show ?thesis by auto
qed

lemma segment_intersection_complete:
  assumes "1 / 10 ^ 12 \<le> \<bar>(x2 - x1) * (y4 - y3) - (y2 - y1) * (x4 - x3)\<bar>"
    and "0 \<le> t" "t \<le> 1" "0 \<le> u" "u \<le> 1"
    and "x1 + t * (x2 - x1) = x3 + u * (x4 - x3)" "y1 + t * (y2 - y1) = y3 + u * (y4 - y3)"
  shows "\<exists>c. segment_intersection x1 y1 x2 y2 x3 y3 x4 y4 = Some (t, c)"
proof -
  define d where "d = (x2 - x1) * (y4 - y3) - (y2 - y1) * (x4 - x3)"
  have d0: "d \<noteq> 0" and big: "\<not> \<bar>d\<bar> < 1 / 10 ^ 12" using assms(1) by (auto simp: d_def)
  have x3: "x3 = x1 + t * (x2 - x1) - u * (x4 - x3)" and y3: "y3 = y1 + t * (y2 - y1) - u * (y4 - y3)"
    using assms(6,7) by simp_all
  have "(x3 - x1) * (y4 - y3) - (y3 - y1) * (x4 - x3) = t * d"
    using assms(6,7) unfolding d_def by algebra
  then have t: "((x3 - x1) * (y4 - y3) - (y3 - y1) * (x4 - x3)) / d = t" using d0 by simp
  have "(x3 - x1) * (y2 - y1) - (y3 - y1) * (x2 - x1) = u * d"
    using assms(6,7) unfolding d_def by algebra
  then have u: "((x3 - x1) * (y2 - y1) - (y3 - y1) * (x2 - x1)) / d = u" using d0 by simp
  show ?thesis
    using t u big assms(2-5) by (simp add: segment_intersection_def Let_def d_def[symmetric])
qed

lemma crossing_time_between:
  assumes "crossing p1 p2 line = Some (ctime, dir, sign)"
  shows "min (gtime p1) (gtime p2) \<le> ctime \<and> ctime \<le> max (gtime p1) (gtime p2)
    \<and> sign \<in> {1, -1} \<and> dir = (if sign = 1 then ''clockwise'' else ''counterclockwise'')"
proof -
  from assms obtain t cross x1 y1 x2 y2 x3 y3 x4 y4 where
    s: "segment_intersection x1 y1 x2 y2 x3 y3 x4 y4 = Some (t, cross)"
    and c: "ctime = gtime p1 + t * (gtime p2 - gtime p1)"
      "sign = (if cross \<ge> 0 then 1 else -1)" "dir = (if sign > 0 then ''clockwise'' else ''counterclockwise'')"
    by (auto simp: crossing_def Let_def split: option.splits prod.splits)
  from segment_intersection_sound[OF s] have t: "0 \<le> t" "t \<le> 1" by auto
  have "ctime = (1 - t) * gtime p1 + t * gtime p2" using c(1) by (simp add: algebra_simps)
  moreover have "(1 - t) * gtime p1 + t * gtime p2 \<le> (1 - t) * max (gtime p1) (gtime p2) + t * max (gtime p1) (gtime p2)"
    using t by (intro add_mono mult_left_mono) auto
  moreover have "(1 - t) * min (gtime p1) (gtime p2) + t * min (gtime p1) (gtime p2) \<le> (1 - t) * gtime p1 + t * gtime p2"
    using t by (intro add_mono mult_left_mono) auto
  ultimately show ?thesis using c(2,3) by (simp add: algebra_simps)
qed

section \<open>The record of laps\<close>

fun process_all :: "gps_point list \<Rightarrow> timing_engine \<Rightarrow> timing_event list list \<times> timing_engine" where
  "process_all [] e = ([], e)"
| "process_all (g # gs) e =
     (let (evs, e1) = process_point g e; (rest, e2) = process_all gs e1 in (evs # rest, e2))"

definition laps_of :: "timing_event list \<Rightarrow> timing_event list" where
  "laps_of evs = filter (\<lambda>v. te_type v = LAP_COMPLETED) evs"

definition best_of :: "timing_event list \<Rightarrow> real" where
  "best_of laps = (let times = map te_lap_time (filter te_valid laps) in if times = [] then 0 else Min (set times))"

text \<open>
  \<open>laps\<close> are the laps completed so far: they are numbered from one, none is shorter than the
  minimum, and the state's best and last lap are theirs. The engine has seen only positive times.
\<close>

definition record_inv :: "timing_engine \<Rightarrow> timing_event list \<Rightarrow> bool" where
  [inv_defs]: "record_inv e laps \<longleftrightarrow>
     (let st = en_state e in
      best_lap_time st = best_of laps
      \<and> last_lap_time st = (if laps = [] then 0 else te_lap_time (last laps))
      \<and> map te_lap_number laps = map int [1..<Suc (length laps)]
      \<and> (\<forall>w \<in> set laps. en_min_lap_time_s e \<le> te_lap_time w)
      \<and> (if lap_start_time st = 0 then laps = [] \<and> lap_number st = 0
         else lap_number st = int (length laps) + 1)
      \<and> (\<forall>p. en_prev e = Some p \<longrightarrow> 0 < gtime p))"

lemma best_of_snoc:
  assumes "0 < m" and "\<forall>v \<in> set laps. m \<le> te_lap_time v"
  shows "best_of (laps @ [w]) =
    (if te_valid w \<and> (best_of laps = 0 \<or> te_lap_time w < best_of laps) then te_lap_time w else best_of laps)"
proof (cases "filter te_valid laps = []")
  case False
  let ?V = "te_lap_time ` set (filter te_valid laps)"
  have b: "best_of laps = Min ?V" using False by (simp add: best_of_def Let_def)
  have ne: "?V \<noteq> {}" using False by (simp only: image_is_empty set_empty not_False_eq_True)
  then have "Min ?V \<in> ?V" by (intro Min_in) auto
  then obtain v where "v \<in> set laps" "te_lap_time v = Min ?V" by auto
  with assms b have "best_of laps \<noteq> 0" by force
  moreover have "best_of (laps @ [w]) = (if te_valid w then min (te_lap_time w) (best_of laps) else best_of laps)"
    unfolding b using ne False by (auto simp: best_of_def Let_def Min_insert)
  ultimately show ?thesis by auto
qed (simp add: best_of_def Let_def)

text \<open>The pit lines leave the lap record alone.\<close>

lemma handle_pit_record:
  assumes "handle_pit line h gps e = (evs, e')"
  shows "laps_of evs = [] \<and> en_prev e' = en_prev e \<and> lap_number (en_state e') = lap_number (en_state e)
    \<and> lap_start_time (en_state e') = lap_start_time (en_state e)
    \<and> best_lap_time (en_state e') = best_lap_time (en_state e) \<and> last_lap_time (en_state e') = last_lap_time (en_state e)"
  using assms by (cases h) (auto simp: handle_pit_def laps_of_def Let_def split: if_splits)

lemma accept_crossing_prev: "accept_crossing line h e = (ok, e') \<Longrightarrow> en_prev e' = en_prev e"
  by (cases h) (auto simp: accept_crossing_def Let_def split: if_splits)

lemma record_inv_same:
  assumes "en_prev e' = en_prev e" "lap_number (en_state e') = lap_number (en_state e)"
    "lap_start_time (en_state e') = lap_start_time (en_state e)"
    "best_lap_time (en_state e') = best_lap_time (en_state e)"
    "last_lap_time (en_state e') = last_lap_time (en_state e)" "en_min_lap_time_s e' = en_min_lap_time_s e"
  shows "record_inv e' laps = record_inv e laps"
  unfolding record_inv_def Let_def assms ..

lemma accept_crossing_record:
  assumes "accept_crossing line h e = (ok, e')"
  shows "record_inv e' laps = record_inv e laps"
  by (rule record_inv_same)
    (use accept_crossing_lap[OF assms] accept_crossing_prev[OF assms] accept_crossing_config[OF assms]
      in \<open>simp_all add: same_lap_def engine_config_def\<close>)

lemma pit_loop_record:
  "pit_loop prev gps lines e = (evs, e') \<Longrightarrow> laps_of evs = [] \<and> record_inv e' laps = record_inv e laps"
proof (induction prev gps lines e arbitrary: evs e' rule: pit_loop.induct)
  case (2 prev gps line lines e)
  show ?case
  proof (cases "crossing prev gps line")
    case None
    with 2 show ?thesis by simp
  next
    case (Some h)
    obtain ok e1 where a: "accept_crossing line h e = (ok, e1)" by fastforce
    show ?thesis
    proof (cases ok)
      case True
      obtain ev1 e2 where p: "handle_pit line h gps e1 = (ev1, e2)" by fastforce
      obtain ev2 e3 where r: "pit_loop prev gps lines e2 = (ev2, e3)" by fastforce
      have "evs = ev1 @ ev2" "e' = e3" using 2(4) Some a True p r by simp_all
      moreover have "record_inv e2 laps = record_inv e1 laps"
        by (rule record_inv_same)
          (use handle_pit_record[OF p] handle_pit_config[OF p] in \<open>simp_all add: engine_config_def\<close>)
      ultimately show ?thesis
        using 2(2)[OF Some a[symmetric] refl True p[symmetric] refl r] handle_pit_record[OF p]
          accept_crossing_record[OF a] by (simp add: laps_of_def)
    next
      case False
      with 2(3)[OF Some a[symmetric] refl False, of evs e'] 2(4) Some a accept_crossing_record[OF a] show ?thesis
        by simp
    qed
  qed
qed (simp add: laps_of_def)

lemma handle_lap_point_record:
  assumes h: "handle_lap_point idx line (ctime, dir, sign) gps e = (evs, e')" and inv: "record_inv e laps"
    and m: "0 < en_min_lap_time_s e" and pos: "0 < ctime"
  shows "record_inv e' (laps @ laps_of evs)"
proof -
  have c: "en_min_lap_time_s e' = en_min_lap_time_s e" and p: "en_prev e' = en_prev e"
    using handle_lap_point_config[OF h] h
    by (auto simp: engine_config_def handle_lap_point_def Let_def split: if_splits)
  have prev: "\<forall>p. en_prev e = Some p \<longrightarrow> 0 < gtime p"
    and best: "best_lap_time (en_state e) = best_of laps" and mins: "\<forall>w \<in> set laps. en_min_lap_time_s e \<le> te_lap_time w"
    and num: "map te_lap_number laps = map int [1..<Suc (length laps)]"
    and lst: "last_lap_time (en_state e) = (if laps = [] then 0 else te_lap_time (last laps))"
    using inv unfolding record_inv_def Let_def by blast+
  have started: "lap_number (en_state e) = int (length laps) + 1" if "lap_start_time (en_state e) \<noteq> 0"
    using inv that by (simp add: record_inv_def Let_def)
  have fresh: "laps = []" if "lap_start_time (en_state e) = 0"
    using inv that by (simp add: record_inv_def Let_def)
  from h show ?thesis
  proof (cases rule: handle_lap_pointE)
    case start
    with pos fresh best lst prev p show ?thesis by (simp add: record_inv_def Let_def start_new_lap_def laps_of_def)
  next
    case resync
    with pos started best lst num mins prev p c show ?thesis
      unfolding record_inv_def Let_def resync(5) by (simp add: start_new_lap_def laps_of_def)
  next
    case (lap v w)
    then have l: "laps_of evs = [w]" by (simp add: laps_of_def)
    have "map te_lap_number (laps @ [w]) = map int [1..<Suc (length (laps @ [w]))]"
      using num started[OF lap(1)] lap(13) by simp
    moreover have "best_of (laps @ [w]) = best_lap_time (en_state e')"
      using best_of_snoc[OF m mins, of w] best unfolding lap(15) by (auto simp: start_new_lap_def)
    ultimately show ?thesis
      unfolding record_inv_def Let_def l using pos started[OF lap(1)] lap(5,12) mins prev p c
      by (simp add: lap(15) start_new_lap_def)
  next
    case (sector v)
    then have l: "laps_of evs = []" by (simp add: laps_of_def)
    have "record_inv e' laps = record_inv e laps"
      by (rule record_inv_same) (use sector(9) p c in simp_all)
    with inv l show ?thesis by simp
  qed
qed

lemma process_point_record:
  assumes pp: "process_point gps e = (evs, e')" and inv: "record_inv e laps"
    and m: "0 < en_min_lap_time_s e" and pos: "0 < gtime gps"
  shows "record_inv e' (laps @ laps_of evs)"
proof -
  let ?e0 = "e\<lparr>en_prev := Some gps\<rparr>"
  have i0: "record_inv ?e0 laps" using inv pos unfolding record_inv_def Let_def by simp
  show ?thesis
  proof (cases "en_prev e")
    case None
    with pp i0 show ?thesis by (auto simp: process_point_def laps_of_def)
  next
    case (Some prev)
    have pprev: "0 < gtime prev" using inv Some by (simp add: record_inv_def Let_def)
    obtain ev1 e1 where a: "pit_loop prev gps (en_pit_lines ?e0) ?e0 = (ev1, e1)" by fastforce
    obtain ev2 e2 where b: "lap_loop prev gps 0 (en_lap_points e1) e1 = (ev2, e2)" by fastforce
    have r: "evs = ev1 @ ev2" "e' = e2" using pp Some a b by (simp_all add: process_point_def)
    from pit_loop_record[OF a, of laps] i0 have i1: "record_inv e1 laps" "laps_of evs = laps_of ev2"
      by (simp_all add: r laps_of_def)
    have m1: "0 < en_min_lap_time_s e1" using pit_loop_config[OF a] m by (simp add: engine_config_def)
    from b show ?thesis
    proof (cases rule: lap_loopE)
      case quiet
      with i1 r show ?thesis by (simp add: laps_of_def)
    next
      case (crossed j line h e3)
      obtain ctime dir sign where h: "h = (ctime, dir, sign)" by (cases h)
      have "0 < ctime" using crossing_time_between[of prev gps line ctime dir sign] crossed(2) h pos pprev by auto
      moreover have "0 < en_min_lap_time_s e3"
        using accept_crossing_config[OF crossed(3)] m1 by (simp add: engine_config_def)
      moreover have "record_inv e3 laps" using accept_crossing_record[OF crossed(3)] i1(1) by simp
      ultimately show ?thesis using handle_lap_point_record[of _ line ctime dir sign gps e3 ev2 e2 laps] crossed(4) h r i1(2)
        by simp
    qed
  qed
qed

lemma process_all_record:
  assumes "process_all points e = (evss, e')" and "record_inv e laps" and "0 < en_min_lap_time_s e"
    and "\<forall>g \<in> set points. 0 < gtime g"
  shows "record_inv e' (laps @ laps_of (concat evss))"
  using assms
proof (induction points arbitrary: e evss laps)
  case (Cons g gs)
  obtain evs e1 where p: "process_point g e = (evs, e1)" by fastforce
  from Cons.prems(1) p obtain rest where "evss = evs # rest" and r: "process_all gs e1 = (rest, e')"
    by (auto simp: Let_def split: prod.splits)
  moreover have "record_inv e1 (laps @ laps_of evs)"
    using process_point_record[OF p Cons.prems(2,3)] Cons.prems(4) by simp
  moreover have "0 < en_min_lap_time_s e1"
    using process_point_config[OF p] Cons.prems(3) by (simp add: engine_config_def)
  ultimately show ?case using Cons.IH[OF r, of "laps @ laps_of evs"] Cons.prems(4) by (simp add: laps_of_def)
qed (simp add: laps_of_def)

section \<open>Debounce and direction\<close>

text \<open>The per-line memory only moves forward: a later crossing time, a direction once learned.\<close>

definition memory_le :: "timing_engine \<Rightarrow> timing_engine \<Rightarrow> bool" where
  "memory_le e e' \<longleftrightarrow>
     (\<forall>l t. last_cross_time (en_state e) l = Some t \<longrightarrow> (\<exists>t'. last_cross_time (en_state e') l = Some t' \<and> t \<le> t'))
     \<and> (\<forall>l d. line_direction (en_state e) l = Some d \<longrightarrow> line_direction (en_state e') l = Some d)"

lemma memory_le_refl: "memory_le e e"
  by (simp add: memory_le_def)

lemma memory_le_trans: "memory_le e1 e2 \<Longrightarrow> memory_le e2 e3 \<Longrightarrow> memory_le e1 e3"
  unfolding memory_le_def by (meson order_trans)

lemma memory_le_same:
  "last_cross_time (en_state e') = last_cross_time (en_state e) \<Longrightarrow>
   line_direction (en_state e') = line_direction (en_state e) \<Longrightarrow> memory_le e e'"
  by (simp add: memory_le_def)

definition dir_name :: "int \<Rightarrow> string" where
  "dir_name d = (if d = 1 then ''clockwise'' else ''counterclockwise'')"

text \<open>An event's crossing was accepted against the memory of \<open>e\<close> and is in the memory of \<open>e'\<close>.\<close>

definition debounced :: "timing_engine \<Rightarrow> timing_engine \<Rightarrow> timing_event \<Rightarrow> bool" where
  "debounced e e' v \<longleftrightarrow>
     (\<forall>t. last_cross_time (en_state e) (te_line v) = Some t \<longrightarrow> t + en_min_line_reentry_s e \<le> te_time v)
     \<and> (\<exists>t'. last_cross_time (en_state e') (te_line v) = Some t' \<and> te_time v \<le> t')
     \<and> (en_gate_direction e \<longrightarrow>
          map_option dir_name (line_direction (en_state e') (te_line v)) = Some (te_direction v))"

lemma accept_crossing_debounced:
  assumes "accept_crossing line (ctime, dir, sign) e = (True, e1)" and "crossing p1 p2 line = Some (ctime, dir, sign)"
    and "0 \<le> en_min_line_reentry_s e" and "te_line v = tl_name line" "te_time v = ctime" "te_direction v = dir"
  shows "memory_le e e1 \<and> debounced e e1 v"
proof -
  have d: "dir = dir_name sign" using crossing_time_between[OF assms(2)] by (simp add: dir_name_def)
  show ?thesis
    using assms(1,3-6) unfolding d
    by (auto simp: accept_crossing_def memory_le_def debounced_def Let_def split: if_splits option.splits)
qed

lemma memory_leD:
  "memory_le e e' \<Longrightarrow> last_cross_time (en_state e) l = Some t \<Longrightarrow>
     \<exists>t'. last_cross_time (en_state e') l = Some t' \<and> t \<le> t'"
  by (simp add: memory_le_def)

lemma debounced_mono:
  assumes "debounced e1 e2 v" and "memory_le e e1" and "memory_le e2 e3"
    and "en_min_line_reentry_s e1 = en_min_line_reentry_s e" "en_gate_direction e1 = en_gate_direction e"
  shows "debounced e e3 v"
proof -
  have "t + en_min_line_reentry_s e \<le> te_time v" if t: "last_cross_time (en_state e) (te_line v) = Some t" for t
  proof -
    obtain t1 where "last_cross_time (en_state e1) (te_line v) = Some t1" "t \<le> t1"
      using memory_leD[OF assms(2) t] by blast
    with assms(1,4) show ?thesis by (auto simp: debounced_def)
  qed
  moreover have "\<exists>t'. last_cross_time (en_state e3) (te_line v) = Some t' \<and> te_time v \<le> t'"
  proof -
    obtain t2 where t2: "last_cross_time (en_state e2) (te_line v) = Some t2" "te_time v \<le> t2"
      using assms(1) by (auto simp: debounced_def)
    obtain t3 where "last_cross_time (en_state e3) (te_line v) = Some t3" "t2 \<le> t3"
      using memory_leD[OF assms(3) t2(1)] by blast
    with t2(2) show ?thesis by auto
  qed
  moreover have "map_option dir_name (line_direction (en_state e3) (te_line v)) = Some (te_direction v)"
    if "en_gate_direction e"
    using assms(1,3,5) that by (auto simp: debounced_def memory_le_def)
  ultimately show ?thesis unfolding debounced_def by blast
qed

lemma handle_pit_memory:
  assumes "handle_pit line (ctime, dir, sign) gps e = (evs, e')"
  shows "memory_le e e' \<and> (\<forall>v \<in> set evs. te_line v = tl_name line \<and> te_time v = ctime \<and> te_direction v = dir)"
  using assms by (auto simp: handle_pit_def Let_def intro!: memory_le_same split: if_splits)

lemma handle_lap_point_memory:
  assumes "handle_lap_point i line (ctime, dir, sign) gps e = (evs, e')"
  shows "memory_le e e' \<and> (\<forall>v \<in> set evs. te_line v = tl_name line \<and> te_time v = ctime \<and> te_direction v = dir)"
  using assms
  by (auto simp: handle_lap_point_def start_new_lap_def Let_def intro!: memory_le_same split: if_splits)

lemma config_simps:
  "engine_config e' = engine_config e \<Longrightarrow> en_min_line_reentry_s e' = en_min_line_reentry_s e"
  "engine_config e' = engine_config e \<Longrightarrow> en_gate_direction e' = en_gate_direction e"
  by (simp_all add: engine_config_def)

lemma pit_loop_debounced:
  "pit_loop prev gps lines e = (evs, e') \<Longrightarrow> 0 \<le> en_min_line_reentry_s e \<Longrightarrow>
     memory_le e e' \<and> (\<forall>v \<in> set evs. debounced e e' v)"
proof (induction prev gps lines e arbitrary: evs e' rule: pit_loop.induct)
  case (1 prev gps e)
  then show ?case by (simp add: memory_le_refl)
next
  case (2 prev gps line lines e)
  show ?case
  proof (cases "crossing prev gps line")
    case None
    with 2 show ?thesis by simp
  next
    case (Some h)
    obtain ctime dir sign where h: "h = (ctime, dir, sign)" by (cases h)
    obtain ok e1 where a: "accept_crossing line h e = (ok, e1)" by fastforce
    note c1 = accept_crossing_config[OF a]
    show ?thesis
    proof (cases ok)
      case True
      obtain ev1 e2 where p: "handle_pit line h gps e1 = (ev1, e2)" by fastforce
      obtain ev2 e3 where r: "pit_loop prev gps lines e2 = (ev2, e3)" by fastforce
      have ev: "evs = ev1 @ ev2" "e' = e3" using 2(4) Some a True p r by simp_all
      note m2 = handle_pit_memory[OF p[unfolded h]]
      have c2: "engine_config e2 = engine_config e" using handle_pit_config[OF p] c1 by simp
      have IH: "memory_le e2 e3" "\<forall>v \<in> set ev2. debounced e2 e3 v"
        using 2(2)[OF Some a[symmetric] refl True p[symmetric] refl r] 2(5) config_simps(1)[OF c2] by simp_all
      have acc: "memory_le e e1 \<and> debounced e e1 v" if "te_line v = tl_name line" "te_time v = ctime" "te_direction v = dir" for v
        using accept_crossing_debounced[of line ctime dir sign e e1 prev gps v] a True h Some 2(5) that by simp
      have m1: "memory_le e e1"
        using acc[of "\<lparr>te_type = PIT_EXIT, te_time = ctime, te_line = tl_name line, te_lat = 0, te_lon = 0,
          te_lap_number = 0, te_sector = 0, te_split_time = 0, te_lap_time = 0, te_valid = True,
          te_direction = dir, te_pit_status = []\<rparr>"] by simp
      have "debounced e e3 v" if "v \<in> set ev1" for v
        using debounced_mono[of e e1 v e e3] acc[of v] m2 that IH(1) memory_le_refl memory_le_trans by blast
      moreover have "debounced e e3 v" if "v \<in> set ev2" for v
        using debounced_mono[of e2 e3 v e e3] IH(2) that m1 m2 memory_le_refl memory_le_trans config_simps[OF c2] by blast
      ultimately show ?thesis using ev m1 m2 IH(1) memory_le_trans by auto
    next
      case False
      with a accept_crossing_False have "e1 = e" by simp
      with 2(3)[OF Some a[symmetric] refl False, of evs e'] 2(4,5) Some a False show ?thesis by simp
    qed
  qed
qed

lemma process_point_debounced:
  assumes pp: "process_point gps e = (evs, e')" and re: "0 \<le> en_min_line_reentry_s e"
  shows "memory_le e e' \<and> (\<forall>v \<in> set evs. debounced e e' v)"
proof -
  let ?e0 = "e\<lparr>en_prev := Some gps\<rparr>"
  have s0: "memory_le e ?e0" "memory_le ?e0 e" by (simp_all add: memory_le_same)
  show ?thesis
  proof (cases "en_prev e")
    case None
    with pp s0 show ?thesis by (auto simp: process_point_def)
  next
    case (Some prev)
    obtain ev1 e1 where a: "pit_loop prev gps (en_pit_lines ?e0) ?e0 = (ev1, e1)" by fastforce
    obtain ev2 e2 where b: "lap_loop prev gps 0 (en_lap_points e1) e1 = (ev2, e2)" by fastforce
    have r: "evs = ev1 @ ev2" "e' = e2" using pp Some a b by (simp_all add: process_point_def)
    from pit_loop_debounced[OF a] re have m1: "memory_le ?e0 e1" "\<forall>v \<in> set ev1. debounced ?e0 e1 v" by simp_all
    have c1: "engine_config e1 = engine_config e" using pit_loop_config[OF a] by (simp add: engine_config_def)
    have m01: "memory_le e e1" using s0(1) m1(1) memory_le_trans by blast
    have m2: "memory_le e1 e2 \<and> (\<forall>v \<in> set ev2. debounced e1 e2 v)"
      using b
    proof (cases rule: lap_loopE)
      case quiet
      then show ?thesis by (simp add: memory_le_refl)
    next
      case (crossed j line h e3)
      obtain ctime dir sign where h: "h = (ctime, dir, sign)" by (cases h)
      note m3 = handle_lap_point_memory[OF crossed(4)[unfolded h]]
      have acc: "memory_le e1 e3 \<and> debounced e1 e3 v"
        if "te_line v = tl_name line" "te_time v = ctime" "te_direction v = dir" for v
        using accept_crossing_debounced[of line ctime dir sign e1 e3 prev gps v] crossed(2,3) h re
          config_simps(1)[OF c1] that by simp
      have "memory_le e1 e3"
        using acc[of "\<lparr>te_type = PIT_EXIT, te_time = ctime, te_line = tl_name line, te_lat = 0, te_lon = 0,
          te_lap_number = 0, te_sector = 0, te_split_time = 0, te_lap_time = 0, te_valid = True,
          te_direction = dir, te_pit_status = []\<rparr>"] by simp
      moreover have "debounced e1 e2 v" if "v \<in> set ev2" for v
        using debounced_mono[of e1 e3 v e1 e2] acc[of v] m3 that memory_le_refl by blast
      ultimately show ?thesis using m3 memory_le_trans by blast
    qed
    have "debounced e e2 v" if "v \<in> set ev1" for v
      using debounced_mono[of ?e0 e1 v e e2] m1(2) that s0(1) m2 by simp
    moreover have "debounced e e2 v" if "v \<in> set ev2" for v
      using debounced_mono[of e1 e2 v e e2] m2 that m01 memory_le_refl config_simps[OF c1] by blast
    ultimately show ?thesis using r m01 m2 memory_le_trans by auto
  qed
qed

text \<open>Every event of a run against every later one.\<close>

lemma process_all_debounced:
  assumes "process_all points e = (evss, e')" and "0 \<le> en_min_line_reentry_s e"
  shows "memory_le e e' \<and> (\<forall>v \<in> set (concat evss). \<forall>t. last_cross_time (en_state e) (te_line v) = Some t \<longrightarrow>
        t + en_min_line_reentry_s e \<le> te_time v)
    \<and> (\<forall>v \<in> set (concat evss). en_gate_direction e \<longrightarrow>
        map_option dir_name (line_direction (en_state e') (te_line v)) = Some (te_direction v))
    \<and> sorted_wrt (\<lambda>vs ws. \<forall>v \<in> set vs. \<forall>w \<in> set ws. te_line v = te_line w \<longrightarrow>
        te_time v + en_min_line_reentry_s e \<le> te_time w) evss"
  using assms
proof (induction points arbitrary: e evss)
  case Nil
  then show ?case by (simp add: memory_le_refl)
next
  case (Cons g gs)
  obtain evs e1 where p: "process_point g e = (evs, e1)" by fastforce
  from Cons.prems(1) p obtain rest where ev: "evss = evs # rest" and r: "process_all gs e1 = (rest, e')"
    by (auto simp: Let_def split: prod.splits)
  from process_point_debounced[OF p Cons.prems(2)]
  have m1: "memory_le e e1" and d1: "\<And>v. v \<in> set evs \<Longrightarrow> debounced e e1 v" by auto
  note c = config_simps[OF process_point_config[OF p]]
  note IH = Cons.IH[OF r, unfolded c, OF Cons.prems(2)]
  have later: "t + en_min_line_reentry_s e \<le> te_time v"
    if "v \<in> set (concat rest)" "last_cross_time (en_state e) (te_line v) = Some t" for v t
    using memory_leD[OF m1 that(2)] IH that(1) by fastforce
  have pair: "te_time v + en_min_line_reentry_s e \<le> te_time w"
    if vw: "v \<in> set evs" "w \<in> set (concat rest)" "te_line v = te_line w" for v w
  proof -
    from d1[OF vw(1)] obtain t where "last_cross_time (en_state e1) (te_line w) = Some t" "te_time v \<le> t"
      using vw(3) by (auto simp: debounced_def)
    with IH vw(2) show ?thesis by fastforce
  qed
  then have pairs: "\<forall>ws \<in> set rest. \<forall>v \<in> set evs. \<forall>w \<in> set ws. te_line v = te_line w \<longrightarrow>
      te_time v + en_min_line_reentry_s e \<le> te_time w"
    by (intro ballI impI) (metis UN_iff set_concat)
  have dirs: "map_option dir_name (line_direction (en_state e') (te_line v)) = Some (te_direction v)"
    if "v \<in> set evs" "en_gate_direction e" for v
    using d1[OF that(1)] that(2) conjunct1[OF IH] by (auto simp: debounced_def memory_le_def)
  have now: "t + en_min_line_reentry_s e \<le> te_time v"
    if "v \<in> set evs" "last_cross_time (en_state e) (te_line v) = Some t" for v t
    using d1[OF that(1)] that(2) by (simp add: debounced_def)
  show ?case
    unfolding ev concat.simps sorted_wrt.simps set_append ball_Un
  proof (intro conjI)
    show "memory_le e e'" using memory_le_trans[OF m1] IH by blast
  qed (use now later dirs pairs IH in \<open>simp_all del: set_concat\<close>)
qed

section \<open>Properties\<close>

text \<open>
  C7. Geometry of a crossing. Two segments whose directions are not parallel (beyond the code's
  tolerance) are reported to cross exactly when they have a point in common, and the reported
  fraction locates that point on both; so a crossing's time lies between the two fixes it was
  interpolated from.
\<close>
theorem crossing_geometry:
  assumes "1 / 10 ^ 12 \<le> \<bar>(x2 - x1) * (y4 - y3) - (y2 - y1) * (x4 - x3)\<bar>"
  shows "((\<exists>c. segment_intersection x1 y1 x2 y2 x3 y3 x4 y4 = Some (t, c)) \<longleftrightarrow>
      0 \<le> t \<and> t \<le> 1 \<and> (\<exists>u. 0 \<le> u \<and> u \<le> 1 \<and> x1 + t * (x2 - x1) = x3 + u * (x4 - x3)
        \<and> y1 + t * (y2 - y1) = y3 + u * (y4 - y3)))
    \<and> (crossing p1 p2 line = Some (ctime, dir, sign) \<longrightarrow>
        min (gtime p1) (gtime p2) \<le> ctime \<and> ctime \<le> max (gtime p1) (gtime p2))"
proof (intro conjI iffI impI)
  assume "\<exists>c. segment_intersection x1 y1 x2 y2 x3 y3 x4 y4 = Some (t, c)"
  then obtain c where "segment_intersection x1 y1 x2 y2 x3 y3 x4 y4 = Some (t, c)" ..
  from segment_intersection_sound[OF this] show "0 \<le> t" "t \<le> 1"
    "\<exists>u. 0 \<le> u \<and> u \<le> 1 \<and> x1 + t * (x2 - x1) = x3 + u * (x4 - x3) \<and> y1 + t * (y2 - y1) = y3 + u * (y4 - y3)"
    by blast+
next
  assume "0 \<le> t \<and> t \<le> 1 \<and> (\<exists>u. 0 \<le> u \<and> u \<le> 1 \<and> x1 + t * (x2 - x1) = x3 + u * (x4 - x3)
    \<and> y1 + t * (y2 - y1) = y3 + u * (y4 - y3))"
  then show "\<exists>c. segment_intersection x1 y1 x2 y2 x3 y3 x4 y4 = Some (t, c)"
    using segment_intersection_complete[OF assms] by auto
next
  assume "crossing p1 p2 line = Some (ctime, dir, sign)"
  from crossing_time_between[OF this]
  show "min (gtime p1) (gtime p2) \<le> ctime" "ctime \<le> max (gtime p1) (gtime p2)" by blast+
qed

theorem crossing_geometry_witness:
  "\<exists>c. segment_intersection 0 (-1) 0 1 (-1) 0 1 0 = Some (1 / 2, c)"
proof -
  have "1 / 10 ^ 12 \<le> \<bar>(0 - 0) * (0 - 0) - (1 - (-1)) * (1 - (-1) :: real)\<bar>" by simp
  note g = conjunct1[OF crossing_geometry[OF this, of "1 / 2"]]
  show ?thesis by (subst g) (auto intro: exI[of _ "1 / 2"])
qed

text \<open>A straight two-line track for the witnesses: both lines run north from the equator.\<close>

definition wit_line :: "string \<Rightarrow> real \<Rightarrow> line_type \<Rightarrow> timing_line" where
  "wit_line name c ty = \<lparr>tl_name = name, tl_start = \<lparr>lat = 0, lon = c, gtime = 0\<rparr>,
     tl_end = \<lparr>lat = 1, lon = c, gtime = 0\<rparr>, tl_type = ty\<rparr>"

definition wit_fix :: "real \<Rightarrow> real \<Rightarrow> gps_point" where
  "wit_fix a t = \<lparr>lat = 1 / 2, lon = a, gtime = t\<rparr>"

definition wit_track :: "timing_line list" where
  "wit_track = [wit_line ''Start'' 0 START_FINISH, wit_line ''Sector1'' 1 SECTOR]"

definition wit_fixes :: "gps_point list" where
  "wit_fixes = [wit_fix (-1/2) 100, wit_fix (1/2) 101, wit_fix (3/2) 111, wit_fix (-1/2) 151, wit_fix (3/2) 155]"

lemma wit_crossing:
  assumes "1 \<le> \<bar>b - a\<bar>"
  shows "crossing (wit_fix a s) (wit_fix b t) (wit_line name c ty) =
    (if 0 \<le> (c - a) / (b - a) \<and> (c - a) / (b - a) \<le> 1
     then Some (s + (c - a) / (b - a) * (t - s), if b < a then ''clockwise'' else ''counterclockwise'',
                if b < a then 1 else -1)
     else None)"
proof -
  define K :: real where "K = 111320"
  have K: "0 < K" "1 \<le> K * K" by (simp_all add: K_def)
  have m: "to_meters (1 / 2) x 0 c = ((x - c) * K, K / 2)" "to_meters 0 c 0 c = (0, 0)"
    "to_meters 1 c 0 c = (0, K)" for x
    by (simp_all add: to_meters_def K_def)
  have "1 * 1 \<le> \<bar>b - a\<bar> * (K * K)" using assms K by (intro mult_mono) auto
  moreover have "\<bar>(b - a) * (K * K)\<bar> = \<bar>b - a\<bar> * (K * K)" using K by (simp add: abs_mult)
  moreover have "1 / 10 ^ 12 \<le> (1 :: real)" by simp
  ultimately have big: "\<not> \<bar>(b - a) * (K * K)\<bar> < 1 / 10 ^ 12" by linarith
  have ba: "b - a \<noteq> 0" using assms by auto
  have denom: "((b - c) * K - (a - c) * K) * (K - 0) - (K / 2 - K / 2) * (0 - 0) = (b - a) * (K * K)"
    and num: "(0 - (a - c) * K) * (K - 0) - (0 - K / 2) * (0 - 0) = (c - a) * (K * K)"
    and unum: "(0 - (a - c) * K) * (K / 2 - K / 2) - (0 - K / 2) * ((b - c) * K - (a - c) * K) = (b - a) * (K * K) / 2"
    and cross: "(0 - 0) * (K / 2 - K / 2) - (K - 0) * ((b - c) * K - (a - c) * K) = (a - b) * (K * K)"
    by (simp_all add: algebra_simps)
  have t1: "(c - a) * (K * K) / ((b - a) * (K * K)) = (c - a) / (b - a)"
    and u1: "(b - a) * (K * K) / 2 / ((b - a) * (K * K)) = 1 / 2"
    using ba K by simp_all
  have neg: "0 \<le> (a - b) * (K * K) \<longleftrightarrow> b < a"
    using K ba by (simp add: zero_le_mult_iff) linarith
  have "segment_intersection ((a - c) * K) (K / 2) ((b - c) * K) (K / 2) 0 0 0 K =
      (if 0 \<le> (c - a) / (b - a) \<and> (c - a) / (b - a) \<le> 1
       then Some ((c - a) / (b - a), (a - b) * (K * K)) else None)"
    unfolding segment_intersection_def Let_def denom num unum cross t1 u1 using big by simp
  then show ?thesis
    using neg by (simp add: crossing_def wit_fix_def wit_line_def m Let_def)
qed


definition wit_engine :: timing_engine where
  "wit_engine = engine_init wit_track 20 20 False None"

definition wit_events :: "(event_type \<times> string \<times> real \<times> int \<times> real \<times> real) list list" where
  "wit_events = [[], [], [(SECTOR_COMPLETED, ''Sector1'', 106, 1, 11 / 2, 0)],
     [(SECTOR_COMPLETED, ''Start'', 141, 2, 35, 0), (LAP_COMPLETED, ''Start'', 141, 0, 0, 81 / 2)],
     [(SECTOR_COMPLETED, ''Sector1'', 154, 1, 13, 0)]]"

lemma wit_engine_points:
  "en_lap_points wit_engine = [wit_line ''Start'' 0 START_FINISH, wit_line ''Sector1'' 1 SECTOR]"
  "en_pit_lines wit_engine = []" "en_state wit_engine = timing_state_default" "en_prev wit_engine = None"
  "en_min_line_reentry_s wit_engine = 20" "en_min_lap_time_s wit_engine = 20" "\<not> en_gate_direction wit_engine"
  by (simp_all add: wit_engine_def engine_init_def wit_track_def wit_line_def)

lemma wit_name: "tl_name (wit_line name c ty) = name"
  by (simp add: wit_line_def)

lemma wit_run:
  "map (map (\<lambda>v. (te_type v, te_line v, te_time v, te_sector v, te_split_time v, te_lap_time v)))
     (fst (process_all wit_fixes wit_engine)) = wit_events"
  by (simp add: wit_fixes_def wit_events_def process_point_def wit_engine_points wit_crossing wit_name
      accept_crossing_def handle_lap_point_def start_new_lap_def timing_state_default_def Let_def)

lemma run_lap_complete:
  assumes "fold track_step points (engine_init lines reentry min_lap gate None, []) = (e, sofar)"
    and "process_point gps e = (evs, e')" and "w \<in> set evs" and "te_type w = LAP_COMPLETED"
  shows "lap_complete e (sofar @ sector_events evs) w \<and> en_min_lap_time_s e = min_lap
    \<and> n_points e = n_points (engine_init lines reentry min_lap gate None)"
proof -
  let ?s = "(engine_init lines reentry min_lap gate None, [])"
  have "case fold track_step points ?s of (e, sofar) \<Rightarrow> lap_inv e sofar"
    by (rule lap_run.run_inv) (simp add: lap_inv_fresh)
  then have inv: "lap_inv e sofar" using assms(1) by simp
  have "engine_config (fst (fold track_step points s)) = engine_config (fst s)" for s
  proof (induction points arbitrary: s)
    case (Cons p ps)
    have "engine_config (fst (track_step p s)) = engine_config (fst s)"
      by (cases s) (auto simp: Let_def split: prod.splits dest: process_point_config)
    with Cons show ?case by simp
  qed simp
  from this[of ?s] assms(1) have "engine_config e = engine_config (engine_init lines reentry min_lap gate None)"
    by simp
  then have "en_min_lap_time_s e = min_lap" "n_points e = n_points (engine_init lines reentry min_lap gate None)"
    by (simp_all add: engine_config_def) (simp add: engine_init_def Let_def)
  with process_point_lap_inv[OF assms(2) inv] assms(3,4) show ?thesis
    by blast
qed

text \<open>
  C6. Laps add up, for every stream of fixes from a fresh engine: when a lap is completed its time is
  the sum of the splits of the sector events since the lap began, and no lap is shorter than the
  minimum; and when it is reported valid those events are the sectors 1, 2, ... of the track in
  order, every one of them valid.
\<close>
theorem laps_add_up:
  assumes "fold track_step points (engine_init lines reentry min_lap gate None, []) = (e, sofar)"
    and "process_point gps e = (evs, e')" and "w \<in> set evs" and "te_type w = LAP_COMPLETED"
  shows "te_lap_time w = splits_of (sofar @ sector_events evs) \<and> min_lap \<le> te_lap_time w
    \<and> (\<forall>v \<in> set (sofar @ sector_events evs). te_lap_number v = te_lap_number w)
    \<and> (te_valid w \<longrightarrow> map te_sector (sofar @ sector_events evs) = map int [1..<Suc (n_points e)]
        \<and> (\<forall>v \<in> set (sofar @ sector_events evs). te_valid v))"
  using run_lap_complete[OF assms] unfolding lap_complete_def by blast

theorem laps_add_up_witness:
  "\<exists>e sofar evs e' w. fold track_step (take 3 wit_fixes) (wit_engine, []) = (e, sofar)
    \<and> process_point (wit_fixes ! 3) e = (evs, e') \<and> w \<in> set evs \<and> te_type w = LAP_COMPLETED
    \<and> te_lap_time w = splits_of (sofar @ sector_events evs) \<and> 20 \<le> te_lap_time w"
proof -
  obtain e sofar where a: "fold track_step (take 3 wit_fixes) (wit_engine, []) = (e, sofar)" by fastforce
  obtain evs e' where b: "process_point (wit_fixes ! 3) e = (evs, e')" by fastforce
  have "map te_type (fst (process_point (wit_fixes ! 3) (fst (fold track_step (take 3 wit_fixes) (wit_engine, [])))))
      = [SECTOR_COMPLETED, LAP_COMPLETED]"
    by (simp add: wit_fixes_def process_point_def wit_engine_points wit_crossing wit_name eval_nat_numeral
        accept_crossing_def handle_lap_point_def start_new_lap_def timing_state_default_def Let_def)
  then have "LAP_COMPLETED \<in> set (map te_type evs)" using a b by simp
  then obtain w where "w \<in> set evs" "te_type w = LAP_COMPLETED" by auto
  with laps_add_up[OF a[unfolded wit_engine_def] b] a b show ?thesis by blast
qed

text \<open>
  The lap record after any stream of fixes with positive times from a fresh engine: completed
  laps are numbered one, two, three without a gap, the best lap is the fastest of the valid ones
  (zero when there is none), the last lap is the last one, and the snapshot shows them.
\<close>
theorem lap_record:
  assumes "process_all points (engine_init lines reentry min_lap gate None) = (evss, e)"
    and "0 < min_lap" and "\<forall>g \<in> set points. 0 < gtime g"
    and "laps = laps_of (concat evss)"
  shows "map te_lap_number laps = map int [1..<Suc (length laps)]
    \<and> sn_best_lap_time (snapshot e) = best_of laps
    \<and> sn_last_lap_time (snapshot e) = (if laps = [] then 0 else te_lap_time (last laps))
    \<and> sn_lap_number (snapshot e) = (if lap_start_time (en_state e) = 0 then 0 else int (length laps) + 1)"
proof -
  have "record_inv (engine_init lines reentry min_lap gate None) []"
    by (simp add: record_inv_def engine_init_def timing_state_default_def best_of_def Let_def)
  from process_all_record[OF assms(1) this _ assms(3)] assms(2,4)
  have inv: "record_inv e laps" by (simp add: engine_init_def Let_def)
  then show ?thesis by (auto simp: record_inv_def snapshot_def Let_def split: if_splits)
qed

theorem lap_record_witness:
  "\<exists>evss e laps. process_all wit_fixes wit_engine = (evss, e) \<and> laps = laps_of (concat evss)
    \<and> length laps = 1 \<and> map te_lap_number laps = [1] \<and> sn_best_lap_time (snapshot e) = best_of laps"
proof -
  obtain evss e where r: "process_all wit_fixes wit_engine = (evss, e)" by fastforce
  have "map fst (concat wit_events) = map te_type (concat evss)"
    using wit_run r by (simp add: map_concat comp_def flip: wit_run)
  then have "length (filter (\<lambda>t. t = LAP_COMPLETED) (map te_type (concat evss))) = 1"
    by (simp add: wit_events_def flip: \<open>map fst (concat wit_events) = map te_type (concat evss)\<close>)
  then have one: "length (laps_of (concat evss)) = 1" by (simp add: laps_of_def filter_map comp_def)
  have pos: "\<forall>g \<in> set wit_fixes. 0 < gtime g" by (simp add: wit_fixes_def wit_fix_def)
  from lap_record[OF r[unfolded wit_engine_def] _ pos refl] one r show ?thesis by simp
qed

text \<open>
  Anti-jitter: of two events that one timing line causes at different fixes, the later one comes
  at least the re-entry interval after the earlier, and with direction gating on both were crossed
  the same way.
\<close>
theorem crossings_debounced:
  assumes "process_all points (engine_init lines reentry min_lap gate None) = (evss, e)" and "0 \<le> reentry"
    and "i < j" and "j < length evss" and "v \<in> set (evss ! i)" and "w \<in> set (evss ! j)" and "te_line v = te_line w"
  shows "te_time v + reentry \<le> te_time w \<and> (gate \<longrightarrow> te_direction v = te_direction w)"
proof -
  let ?e = "engine_init lines reentry min_lap gate None"
  have c: "en_min_line_reentry_s ?e = reentry" "en_gate_direction ?e = gate"
    by (simp_all add: engine_init_def Let_def)
  note d = process_all_debounced[OF assms(1), unfolded c, OF assms(2)]
  have "v \<in> set (concat evss)" "w \<in> set (concat evss)" using assms(3-6) by (auto intro: nth_mem)
  with d assms(7) have "gate \<longrightarrow> te_direction v = te_direction w" by (metis option.inject)
  moreover have "te_time v + reentry \<le> te_time w"
    using d assms(3-7) by (auto simp: sorted_wrt_iff_nth_less)
  ultimately show ?thesis by simp
qed

theorem crossings_debounced_witness:
  "\<exists>evss e v w. process_all wit_fixes wit_engine = (evss, e) \<and> v \<in> set (evss ! 2) \<and> w \<in> set (evss ! 4)
    \<and> te_line v = te_line w \<and> te_time v + 20 \<le> te_time w"
proof -
  obtain evss e where r: "process_all wit_fixes wit_engine = (evss, e)" by fastforce
  have run: "map (map (\<lambda>v. (te_type v, te_line v, te_time v, te_sector v, te_split_time v, te_lap_time v))) evss = wit_events"
    using wit_run r by simp
  from arg_cong[OF run, of length] have len: "length evss = 5" by (simp add: wit_events_def)
  have at: "map (\<lambda>v. (te_type v, te_line v, te_time v, te_sector v, te_split_time v, te_lap_time v)) (evss ! k) = wit_events ! k"
    if "k < 5" for k
    using arg_cong[OF run, of "\<lambda>l. l ! k"] len that by simp
  from at[of 2] obtain v where v: "evss ! 2 = [v]" "te_line v = ''Sector1''" by (auto simp: wit_events_def)
  from at[of 4] obtain w where w: "evss ! 4 = [w]" "te_line w = ''Sector1''" by (auto simp: wit_events_def)
  from crossings_debounced[OF r[unfolded wit_engine_def], of 2 4 v w] v w len r show ?thesis by auto
qed

end
