(* ===== verification/Lap_Distance.thy ===== *)
theory Lap_Distance
  imports Py_Values
begin

text \<open>
  \<^verbatim>\<open>src/timing/distance_model.py\<close> and \<^verbatim>\<open>src/timing/reference_lap.py\<close>: distance along the lap from
  position deltas, the recorded distance/time curve of a lap, interpolation on it and the live
  delta against the best one. \<open>bisect.bisect_right\<close> is the binary search of the standard library.
\<close>

section \<open>Distance along the lap\<close>

definition EARTH_RADIUS_M :: real where "EARTH_RADIUS_M = 6371000"

definition haversine_m :: "real \<Rightarrow> real \<Rightarrow> real \<Rightarrow> real \<Rightarrow> real" where
  "haversine_m lat1 lon1 lat2 lon2 =
     (let p1 = lat1 * pi / 180; p2 = lat2 * pi / 180;
          dphi = (lat2 - lat1) * pi / 180; dlmb = (lon2 - lon1) * pi / 180;
          a = (sin (dphi / 2))\<^sup>2 + cos p1 * cos p2 * (sin (dlmb / 2))\<^sup>2
      in 2 * EARTH_RADIUS_M * arcsin (min 1 (sqrt a)))"

record distance_model =
  dm_track_length_m :: real
  dm_n_mini_sectors :: int
  dm_lap_distance :: real
  dm_prev :: "(real \<times> real) option"

definition distance_init :: "real \<Rightarrow> int \<Rightarrow> distance_model" where
  "distance_init len n =
     \<lparr>dm_track_length_m = len, dm_n_mini_sectors = max 1 n, dm_lap_distance = 0, dm_prev = None\<rparr>"

definition start_lap :: "distance_model \<Rightarrow> distance_model" where
  "start_lap m = m\<lparr>dm_lap_distance := 0, dm_prev := None\<rparr>"

definition dist_update :: "real \<Rightarrow> real \<Rightarrow> distance_model \<Rightarrow> distance_model" where
  "dist_update la lo m =
     m\<lparr>dm_lap_distance := (case dm_prev m of None \<Rightarrow> dm_lap_distance m
                          | Some (pla, plo) \<Rightarrow> dm_lap_distance m + haversine_m pla plo la lo),
       dm_prev := Some (la, lo)\<rparr>"

definition lap_fraction :: "distance_model \<Rightarrow> real" where
  "lap_fraction m =
     (if dm_track_length_m m \<le> 0 then 0 else min 1 (dm_lap_distance m / dm_track_length_m m))"

text \<open>\<open>int\<close> of a non-negative float is its floor.\<close>

definition mini_sector :: "distance_model \<Rightarrow> int" where
  "mini_sector m =
     (if dm_track_length_m m \<le> 0 then 0
      else min (dm_n_mini_sectors m) (\<lfloor>lap_fraction m * of_int (dm_n_mini_sectors m)\<rfloor> + 1))"

definition distance_snapshot :: "distance_model \<Rightarrow> real \<times> real \<times> int" where
  "distance_snapshot m =
     (py_round_digits (dm_lap_distance m) 2, py_round_digits (lap_fraction m) 5, mini_sector m)"

section \<open>The reference curve\<close>

record reference_lap =
  rl_distances :: "real list"
  rl_times :: "real list"
  rl_lap_time :: real

function bisect_loop :: "real list \<Rightarrow> real \<Rightarrow> nat \<Rightarrow> nat \<Rightarrow> nat" where
  "bisect_loop d x lo hi =
     (if lo < hi then
        (let mid = (lo + hi) div 2
         in if x < d ! mid then bisect_loop d x lo mid else bisect_loop d x (mid + 1) hi)
      else lo)"
  by pat_completeness auto
termination by (relation "measure (\<lambda>(d, x, lo, hi). hi - lo)") auto

declare bisect_loop.simps [simp del]

definition bisect_right :: "real list \<Rightarrow> real \<Rightarrow> nat" where
  "bisect_right d x = bisect_loop d x 0 (length d)"

text \<open>\<open>time_at\<close> for a curve with as many times as distances, which is what \<open>LapRecorder\<close> builds.\<close>

definition time_at :: "reference_lap \<Rightarrow> real \<Rightarrow> real" where
  "time_at r distance =
     (let d = rl_distances r; t = rl_times r in
      if d = [] then 0
      else if distance \<le> d ! 0 then t ! 0
      else if distance \<ge> d ! (length d - 1) then t ! (length t - 1)
      else
        (let i = bisect_right d distance; span = d ! i - d ! (i - 1);
             frac = (if span > 0 then (distance - d ! (i - 1)) / span else 0)
         in t ! (i - 1) + frac * (t ! i - t ! (i - 1))))"

record lap_recorder =
  lr_grid_m :: real
  lr_dist :: "real list"
  lr_time :: "real list"

definition recorder_init :: lap_recorder where
  "recorder_init = \<lparr>lr_grid_m = 5, lr_dist = [], lr_time = []\<rparr>"

definition recorder_reset :: "lap_recorder \<Rightarrow> lap_recorder" where
  "recorder_reset r = r\<lparr>lr_dist := [], lr_time := []\<rparr>"

definition recorder_add :: "real \<Rightarrow> real \<Rightarrow> lap_recorder \<Rightarrow> lap_recorder" where
  "recorder_add distance elapsed r =
     (if lr_dist r \<noteq> [] \<and> (distance \<le> last (lr_dist r) \<or> distance - last (lr_dist r) < lr_grid_m r)
      then r
      else r\<lparr>lr_dist := lr_dist r @ [distance], lr_time := lr_time r @ [elapsed]\<rparr>)"

definition recorder_complete :: "real \<Rightarrow> lap_recorder \<Rightarrow> reference_lap option" where
  "recorder_complete lap_time r =
     (if length (lr_dist r) < 10 then None
      else Some \<lparr>rl_distances = lr_dist r, rl_times = lr_time r, rl_lap_time = lap_time\<rparr>)"

section \<open>Live delta\<close>

type_synonym delta_tracker = "reference_lap option"

definition delta_offer :: "reference_lap option \<Rightarrow> bool \<Rightarrow> delta_tracker \<Rightarrow> bool \<times> delta_tracker" where
  "delta_offer candidate valid ref =
     (case candidate of
        None \<Rightarrow> (False, ref)
      | Some c \<Rightarrow>
          if \<not> valid \<or> rl_lap_time c \<le> 0 then (False, ref)
          else (case ref of
                  None \<Rightarrow> (True, Some c)
                | Some r \<Rightarrow> if rl_lap_time c < rl_lap_time r then (True, Some c) else (False, ref)))"

definition delta :: "real \<Rightarrow> real \<Rightarrow> delta_tracker \<Rightarrow> real option" where
  "delta distance elapsed ref = map_option (\<lambda>r. elapsed - time_at r distance) ref"

definition predicted :: "real \<Rightarrow> real \<Rightarrow> delta_tracker \<Rightarrow> real option" where
  "predicted distance elapsed ref =
     (case (delta distance elapsed ref, ref) of (Some d, Some r) \<Rightarrow> Some (rl_lap_time r + d) | _ \<Rightarrow> None)"

lemmas distance_op_defs [op_defs] =
  distance_init_def start_lap_def dist_update_def recorder_reset_def recorder_add_def
  recorder_complete_def delta_offer_def

section \<open>Distances\<close>

lemma haversine_nonneg: "0 \<le> haversine_m lat1 lon1 lat2 lon2" if "-90 \<le> lat1" "lat1 \<le> 90" "-90 \<le> lat2" "lat2 \<le> 90"
proof -
  have c: "0 \<le> cos (x * pi / 180)" if "-90 \<le> x" "x \<le> 90" for x :: real
  proof (rule cos_ge_zero)
    have "- 90 * (pi / 180) \<le> x * (pi / 180)" using that(1) by (intro mult_right_mono) auto
    then show "- (pi / 2) \<le> x * pi / 180" by simp
    have "x * (pi / 180) \<le> 90 * (pi / 180)" using that(2) by (intro mult_right_mono) auto
    then show "x * pi / 180 \<le> pi / 2" by simp
  qed
  let ?a = "(sin ((lat2 - lat1) * pi / 180 / 2))\<^sup>2
    + cos (lat1 * pi / 180) * cos (lat2 * pi / 180) * (sin ((lon2 - lon1) * pi / 180 / 2))\<^sup>2"
  have "0 \<le> ?a" using c[of lat1] c[of lat2] that by (intro add_nonneg_nonneg mult_nonneg_nonneg) auto
  then have "0 \<le> min 1 (sqrt ?a)" by simp
  then have "0 \<le> arcsin (min 1 (sqrt ?a))"
    using arcsin_le_arcsin[of 0 "min 1 (sqrt ?a)"] by simp
  then show ?thesis by (simp add: haversine_m_def Let_def EARTH_RADIUS_M_def)
qed

definition distance_inv :: "distance_model \<Rightarrow> bool" where
  [inv_defs]: "distance_inv m \<longleftrightarrow> 0 \<le> dm_lap_distance m \<and> 1 \<le> dm_n_mini_sectors m
     \<and> (\<forall>la lo. dm_prev m = Some (la, lo) \<longrightarrow> -90 \<le> la \<and> la \<le> 90)"

datatype dist_op = Fix real real | StartLap

fun dist_step :: "dist_op \<Rightarrow> distance_model \<Rightarrow> distance_model" where
  "dist_step (Fix la lo) m = dist_update la lo m"
| "dist_step StartLap m = start_lap m"

fun valid_op :: "dist_op \<Rightarrow> bool" where
  "valid_op (Fix la lo) = (-90 \<le> la \<and> la \<le> 90)"
| "valid_op StartLap = True"

lemma dist_step_inv: "distance_inv m \<Longrightarrow> valid_op e \<Longrightarrow> distance_inv (dist_step e m)"
  by (cases e) (auto simp: distance_inv_def dist_update_def start_lap_def haversine_nonneg
      intro!: add_nonneg_nonneg haversine_nonneg split: option.splits)

lemma mini_sector_mono:
  assumes "distance_inv m" and "dm_lap_distance m \<le> dm_lap_distance m'"
    and "dm_track_length_m m' = dm_track_length_m m" "dm_n_mini_sectors m' = dm_n_mini_sectors m"
  shows "lap_fraction m \<le> lap_fraction m' \<and> mini_sector m \<le> mini_sector m'"
proof -
  have f: "lap_fraction m \<le> lap_fraction m'"
    using assms(2,3) divide_right_mono[of "dm_lap_distance m" "dm_lap_distance m'" "dm_track_length_m m"]
    by (auto simp: lap_fraction_def min_def)
  then have "lap_fraction m * of_int (dm_n_mini_sectors m) \<le> lap_fraction m' * of_int (dm_n_mini_sectors m)"
    using assms(1) by (intro mult_right_mono) (auto simp: distance_inv_def)
  then have "\<lfloor>lap_fraction m * of_int (dm_n_mini_sectors m)\<rfloor> \<le> \<lfloor>lap_fraction m' * of_int (dm_n_mini_sectors m)\<rfloor>"
    by (rule floor_mono)
  with f assms(3,4) show ?thesis by (auto simp: mini_sector_def)
qed

lemma mini_sector_range:
  assumes "distance_inv m"
  shows "0 \<le> lap_fraction m \<and> lap_fraction m \<le> 1
    \<and> (if dm_track_length_m m \<le> 0 then mini_sector m = 0
       else 1 \<le> mini_sector m \<and> mini_sector m \<le> dm_n_mini_sectors m)"
proof -
  have "0 \<le> lap_fraction m" using assms by (simp add: lap_fraction_def distance_inv_def)
  moreover from this have "0 \<le> \<lfloor>lap_fraction m * of_int (dm_n_mini_sectors m)\<rfloor>"
    using assms by (simp add: distance_inv_def)
  ultimately show ?thesis using assms by (auto simp: mini_sector_def lap_fraction_def distance_inv_def)
qed

section \<open>Interpolation\<close>

lemma bisect_loop_spec:
  assumes "sorted d" and "lo \<le> hi" and "hi \<le> length d"
    and "\<forall>i < lo. d ! i \<le> x" and "\<forall>i. hi \<le> i \<and> i < length d \<longrightarrow> x < d ! i"
  shows "bisect_loop d x lo hi \<le> length d \<and> (\<forall>i < bisect_loop d x lo hi. d ! i \<le> x)
    \<and> (\<forall>i. bisect_loop d x lo hi \<le> i \<and> i < length d \<longrightarrow> x < d ! i)"
  using assms
proof (induction d x lo hi rule: bisect_loop.induct)
  case (1 d x lo hi)
  show ?case
  proof (cases "lo < hi")
    case True
    let ?mid = "(lo + hi) div 2"
    have mid: "lo \<le> ?mid" "?mid < hi" using True by auto
    show ?thesis
    proof (cases "x < d ! ?mid")
      case x: True
      have "x < d ! i" if "?mid \<le> i" "i < length d" for i
        using sorted_nth_mono[OF 1(3) that] x by simp
      with 1(1)[OF True refl x] 1(3-6) mid show ?thesis
        by (subst (1 2 3) bisect_loop.simps) (simp add: True x Let_def)
    next
      case x: False
      have "d ! i \<le> x" if "i < Suc ?mid" for i
        using sorted_nth_mono[OF 1(3), of i ?mid] that x mid 1(5) by auto
      with 1(2)[OF True refl x] 1(3,5,7) mid show ?thesis
        by (subst (1 2 3) bisect_loop.simps) (simp add: True x Let_def)
    qed
  next
    case False
    with 1(3-7) show ?thesis by (subst (1 2 3) bisect_loop.simps) auto
  qed
qed

lemma bisect_right_spec:
  assumes "sorted d"
  shows "bisect_right d x \<le> length d \<and> (\<forall>i < bisect_right d x. d ! i \<le> x)
    \<and> (\<forall>i. bisect_right d x \<le> i \<and> i < length d \<longrightarrow> x < d ! i)"
  using bisect_loop_spec[of d 0 "length d" x] assms by (simp add: bisect_right_def)

text \<open>A recorded curve: one time per distance, distances apart by the grid.\<close>

definition curve_inv :: "real \<Rightarrow> real list \<Rightarrow> real list \<Rightarrow> bool" where
  [inv_defs]: "curve_inv grid d t \<longleftrightarrow> length t = length d \<and> sorted_wrt (\<lambda>x y. x < y \<and> x + grid \<le> y) d"

lemma sorted_wrt_snoc: "sorted_wrt P (xs @ [y]) \<longleftrightarrow> sorted_wrt P xs \<and> (\<forall>x \<in> set xs. P x y)"
  by (simp add: sorted_wrt_append)

lemma recorder_add_curve:
  assumes "curve_inv (lr_grid_m r) (lr_dist r) (lr_time r)"
  shows "curve_inv (lr_grid_m r) (lr_dist (recorder_add d e r)) (lr_time (recorder_add d e r))
    \<and> lr_grid_m (recorder_add d e r) = lr_grid_m r"
proof (cases "lr_dist r = []")
  case False
  then obtain ys y where l: "lr_dist r = ys @ [y]" using rev_exhaust by blast
  have "\<forall>x \<in> set ys. x < y \<and> x + lr_grid_m r \<le> y"
    using assms l by (auto simp: curve_inv_def sorted_wrt_snoc)
  with assms l show ?thesis by (auto simp: curve_inv_def recorder_add_def sorted_wrt_append)
qed (use assms in \<open>simp add: curve_inv_def recorder_add_def\<close>)

lemma curve_sorted: "curve_inv grid d t \<Longrightarrow> sorted d \<and> distinct d"
  using sorted_wrt_mono_rel[of d "\<lambda>x y. x < y \<and> x + grid \<le> y" "(<)"]
  by (simp add: curve_inv_def strict_sorted_iff)

lemma lerp: "(1 - f) * a + f * b = a + f * (b - a)" for f a b :: real
  by (simp add: algebra_simps)

text \<open>Between two recorded distances the time is a convex combination of theirs.\<close>

lemma time_at_between:
  assumes c: "curve_inv grid (rl_distances r) (rl_times r)"
    and lo: "rl_distances r ! 0 < x" and hi: "x < rl_distances r ! (length (rl_distances r) - 1)"
    and ne: "rl_distances r \<noteq> []"
  obtains i f where "Suc i < length (rl_distances r)" "rl_distances r ! i \<le> x" "x < rl_distances r ! Suc i"
    "0 \<le> f" "f < 1" "x = (1 - f) * rl_distances r ! i + f * rl_distances r ! Suc i"
    "time_at r x = (1 - f) * rl_times r ! i + f * rl_times r ! Suc i"
proof -
  let ?d = "rl_distances r" and ?t = "rl_times r"
  let ?i = "bisect_right ?d x"
  note sp = bisect_right_spec[OF conjunct1[OF curve_sorted[OF c]], of x]
  have lt: "?i < length ?d" using sp hi ne by (metis diff_less leD length_greater_0_conv less_one linorder_neqE_nat not_less order.strict_iff_not)
  have pos: "0 < ?i"
  proof (rule ccontr)
    assume "\<not> 0 < ?i"
    then have "x < ?d ! 0" using sp ne by simp
    with lo show False by simp
  qed
  let ?a = "?d ! (?i - 1)" and ?b = "?d ! ?i"
  have ab: "?a \<le> x" "x < ?b" using sp lt pos by auto
  let ?f = "(x - ?a) / (?b - ?a)"
  have f: "0 \<le> ?f" "?f < 1" using ab by (auto simp: divide_less_eq)
  have "x = (1 - ?f) * ?a + ?f * ?b" unfolding lerp using ab by simp
  moreover have "time_at r x = (1 - ?f) * ?t ! (?i - 1) + ?f * ?t ! ?i"
    unfolding lerp using ne lo hi ab by (simp add: time_at_def Let_def not_le)
  ultimately show ?thesis using that[of "?i - 1" ?f] lt pos ab f by simp
qed

lemma time_at_knot:
  assumes c: "curve_inv grid (rl_distances r) (rl_times r)" and j: "j < length (rl_distances r)"
  shows "time_at r (rl_distances r ! j) = rl_times r ! j"
proof -
  let ?d = "rl_distances r" and ?t = "rl_times r"
  have ne: "?d \<noteq> []" and len: "length ?t = length ?d" using j c by (auto simp: curve_inv_def)
  have sd: "sorted ?d" "distinct ?d" using curve_sorted[OF c] by auto
  have lt: "?d ! k < ?d ! l" if "k < l" "l < length ?d" for k l
    using sorted_nth_mono[OF sd(1), of k l] nth_eq_iff_index_eq[OF sd(2), of k l] that by auto
  show ?thesis
  proof (cases "j = 0 \<or> j = length ?d - 1")
    case True
    have "?d ! 0 \<le> ?d ! (length ?d - 1)" using sorted_nth_mono[OF sd(1), of 0] ne by simp
    moreover have "length ?d = 1 \<or> ?d ! 0 < ?d ! (length ?d - 1)"
      using lt[of 0 "length ?d - 1"] ne by (cases "length ?d") auto
    ultimately show ?thesis using True ne len by (auto simp: time_at_def Let_def)
  next
    case False
    with j have inside: "?d ! 0 < ?d ! j" "?d ! j < ?d ! (length ?d - 1)" using lt by auto
    from time_at_between[OF c inside ne] obtain i f where i: "Suc i < length ?d" "?d ! i \<le> ?d ! j" "?d ! j < ?d ! Suc i"
      and f: "0 \<le> f" "f < 1" "?d ! j = (1 - f) * ?d ! i + f * ?d ! Suc i"
      and t: "time_at r (?d ! j) = (1 - f) * ?t ! i + f * ?t ! Suc i" .
    have "j = i"
      using i j lt[of j i] lt[of "Suc i" j] by (metis Suc_lessD less_antisym linorder_neqE_nat not_less order_less_imp_not_less)
    moreover from this f(3) lt[of i "Suc i"] i(1) have "f = 0" by (auto simp: algebra_simps)
    ultimately show ?thesis using t by simp
  qed
qed

lemma time_at_range:
  assumes c: "curve_inv grid (rl_distances r) (rl_times r)" and ne: "rl_distances r \<noteq> []"
  shows "Min (set (rl_times r)) \<le> time_at r x \<and> time_at r x \<le> Max (set (rl_times r))"
proof -
  let ?d = "rl_distances r" and ?t = "rl_times r"
  have len: "length ?t = length ?d" using c by (simp add: curve_inv_def)
  have in_range: "Min (set ?t) \<le> ?t ! k \<and> ?t ! k \<le> Max (set ?t)" if "k < length ?d" for k
    using that len by simp
  consider "x \<le> ?d ! 0" | "\<not> x \<le> ?d ! 0" "?d ! (length ?d - 1) \<le> x"
    | "?d ! 0 < x" "x < ?d ! (length ?d - 1)" by linarith
  then show ?thesis
  proof cases
    case 1
    with in_range[of 0] ne show ?thesis by (simp add: time_at_def)
  next
    case 2
    with in_range[of "length ?d - 1"] ne len show ?thesis by (simp add: time_at_def)
  next
    case 3
    from time_at_between[OF c 3 ne] obtain i f where i: "Suc i < length ?d" and f: "0 \<le> f" "f < 1"
      and t: "time_at r x = (1 - f) * ?t ! i + f * ?t ! Suc i" .
    have "(1 - f) * Min (set ?t) + f * Min (set ?t) \<le> time_at r x"
      "time_at r x \<le> (1 - f) * Max (set ?t) + f * Max (set ?t)"
      unfolding t using f i in_range[of i] in_range[of "Suc i"] by (intro add_mono mult_left_mono; simp)+
    then show ?thesis by (simp add: algebra_simps)
  qed
qed

lemma recorder_run_curve:
  assumes "curve_inv (lr_grid_m r) (lr_dist r) (lr_time r)"
  shows "curve_inv (lr_grid_m r) (lr_dist (fold (\<lambda>(d, e). recorder_add d e) xs r))
      (lr_time (fold (\<lambda>(d, e). recorder_add d e) xs r))"
  using assms
proof (induction xs arbitrary: r)
  case (Cons x xs)
  obtain d e where x: "x = (d, e)" by (cases x)
  from recorder_add_curve[OF Cons.prems, of d e] Cons.IH[of "recorder_add d e r"] show ?case
    by (simp add: x)
qed simp

section \<open>Properties\<close>

text \<open>
  Distance along the lap, whatever fixes arrive (latitudes in range) and whenever laps start:
  distance is never negative, the fraction stays in [0, 1] and the mini-sector in 1..N (0 without a
  track length); a fix never moves any of them backwards; and a new lap starts again at zero.
\<close>
theorem distance_along_lap:
  assumes "\<forall>e \<in> set es. valid_op e" and "-90 \<le> la" "la \<le> 90"
    and m: "m = fold dist_step es (distance_init len n)"
  shows "0 \<le> dm_lap_distance m \<and> 0 \<le> lap_fraction m \<and> lap_fraction m \<le> 1
    \<and> (if len \<le> 0 then mini_sector m = 0 else 1 \<le> mini_sector m \<and> mini_sector m \<le> max 1 n)
    \<and> dm_lap_distance m \<le> dm_lap_distance (dist_update la lo m)
    \<and> lap_fraction m \<le> lap_fraction (dist_update la lo m)
    \<and> mini_sector m \<le> mini_sector (dist_update la lo m)
    \<and> dm_lap_distance (dist_update la lo (start_lap m)) = 0"
proof -
  have run: "distance_inv (fold dist_step es k) \<and> dm_track_length_m (fold dist_step es k) = dm_track_length_m k
      \<and> dm_n_mini_sectors (fold dist_step es k) = dm_n_mini_sectors k" if "distance_inv k" for k
    using assms(1) that
  proof (induction es arbitrary: k)
    case (Cons e es)
    have "dm_track_length_m (dist_step e k) = dm_track_length_m k \<and> dm_n_mini_sectors (dist_step e k) = dm_n_mini_sectors k"
      by (cases e) (simp_all add: dist_update_def start_lap_def)
    with Cons dist_step_inv[OF Cons.prems(2), of e] show ?case by simp
  qed simp
  have "distance_inv (distance_init len n)" by (simp add: distance_inv_def distance_init_def)
  from run[OF this] have inv: "distance_inv m" and c: "dm_track_length_m m = len" "dm_n_mini_sectors m = max 1 n"
    by (simp_all add: m distance_init_def)
  have "dm_lap_distance m \<le> dm_lap_distance (dist_update la lo m)"
    using inv assms(2,3) by (auto simp: dist_update_def distance_inv_def haversine_nonneg split: option.splits)
  moreover from mini_sector_mono[OF inv this]
  have "lap_fraction m \<le> lap_fraction (dist_update la lo m)" "mini_sector m \<le> mini_sector (dist_update la lo m)"
    by (simp_all add: dist_update_def)
  moreover have "dm_lap_distance (dist_update la lo (start_lap m)) = 0"
    by (simp add: dist_update_def start_lap_def)
  moreover have "0 \<le> dm_lap_distance m" using inv by (simp add: distance_inv_def)
  ultimately show ?thesis
    using mini_sector_range[OF inv] unfolding c by blast
qed

theorem distance_along_lap_witness:
  "0 \<le> dm_lap_distance (fold dist_step [Fix 0 0, Fix 1 1] (distance_init 1000 20))
    \<and> mini_sector (fold dist_step [Fix 0 0, Fix 1 1] (distance_init 1000 20)) \<le> 20"
proof -
  have "\<forall>e \<in> set [Fix 0 0, Fix 1 1]. valid_op e" by simp
  from distance_along_lap[OF this, of 0 _ 1000 20] show ?thesis by simp
qed

text \<open>
  The reference curve a lap records: its points are at least a grid apart in increasing distance;
  interpolation returns the recorded time at every recorded distance and stays within the recorded
  times everywhere; so the live delta of a lap against its own curve is zero at each point.
\<close>
theorem reference_curve:
  assumes "recorder_complete lap_time (fold (\<lambda>(d, e). recorder_add d e) xs (recorder_reset rec)) = Some r"
  shows "10 \<le> length (rl_distances r) \<and> length (rl_times r) = length (rl_distances r)
    \<and> sorted_wrt (\<lambda>x y. x < y \<and> x + lr_grid_m rec \<le> y) (rl_distances r)
    \<and> (\<forall>j < length (rl_distances r). time_at r (rl_distances r ! j) = rl_times r ! j
          \<and> delta (rl_distances r ! j) (rl_times r ! j) (Some r) = Some 0
          \<and> predicted (rl_distances r ! j) (rl_times r ! j) (Some r) = Some lap_time)
    \<and> (\<forall>x. Min (set (rl_times r)) \<le> time_at r x \<and> time_at r x \<le> Max (set (rl_times r)))"
proof -
  let ?q = "fold (\<lambda>(d, e). recorder_add d e) xs (recorder_reset rec)"
  have r: "r = \<lparr>rl_distances = lr_dist ?q, rl_times = lr_time ?q, rl_lap_time = lap_time\<rparr>"
    and len: "10 \<le> length (rl_distances r)"
    using assms by (auto simp: recorder_complete_def split: if_splits)
  have c: "curve_inv (lr_grid_m rec) (rl_distances r) (rl_times r)"
    using recorder_run_curve[of "recorder_reset rec" xs] by (simp add: r recorder_reset_def curve_inv_def)
  have ne: "rl_distances r \<noteq> []" using len by auto
  show ?thesis
    using c len time_at_knot[OF c] time_at_range[OF c ne] r
    by (simp add: curve_inv_def delta_def predicted_def)
qed

definition wit_curve :: "(real \<times> real) list" where
  "wit_curve = map (\<lambda>k. (of_nat k * 10, of_nat k)) [0..<10]"

theorem reference_curve_witness:
  "\<exists>r. recorder_complete 60 (fold (\<lambda>(d, e). recorder_add d e) wit_curve (recorder_reset recorder_init)) = Some r
    \<and> 10 \<le> length (rl_distances r)
    \<and> (\<forall>j < length (rl_distances r). time_at r (rl_distances r ! j) = rl_times r ! j)"
proof -
  obtain r where r: "recorder_complete 60 (fold (\<lambda>(d, e). recorder_add d e) wit_curve (recorder_reset recorder_init)) = Some r"
    by (simp add: wit_curve_def upt_rec recorder_add_def recorder_reset_def recorder_init_def recorder_complete_def)
  from reference_curve[OF r] r show ?thesis by blast
qed

text \<open>
  The reference is the best valid lap offered: after any sequence of offers it is the earliest of
  the fastest candidates with a positive time that were offered as valid, and there is none exactly
  when there was no such candidate.
\<close>
theorem reference_is_best_offered:
  assumes "ref = fold (\<lambda>(c, v) s. snd (delta_offer c v s)) offers None"
    and "good = [c. (Some c, v) \<leftarrow> offers, v \<and> 0 < rl_lap_time c]"
  shows "(ref = None \<longleftrightarrow> good = [])
    \<and> (\<forall>r. ref = Some r \<longrightarrow> r \<in> set good \<and> (\<forall>c \<in> set good. rl_lap_time r \<le> rl_lap_time c))"
  using assms
proof (induction offers arbitrary: ref good rule: rev_induct)
  case (snoc o1 offers)
  obtain c v where o1: "o1 = (c, v)" by (cases o1)
  let ?ref = "fold (\<lambda>(c, v) s. snd (delta_offer c v s)) offers None"
  let ?good = "[c. (Some c, v) \<leftarrow> offers, v \<and> 0 < rl_lap_time c]"
  note IH = snoc.IH[OF refl refl]
  show ?case
  proof (cases "c = None \<or> \<not> v \<or> rl_lap_time (the c) \<le> 0")
    case True
    then have "ref = ?ref" "good = ?good"
      using snoc.prems o1 by (auto simp: delta_offer_def split: option.splits)
    with IH show ?thesis by simp
  next
    case False
    then obtain k where k: "c = Some k" "v" "0 < rl_lap_time k" by auto
    then have "good = ?good @ [k]" using snoc.prems(2) o1 by simp
    moreover have "ref = (case ?ref of None \<Rightarrow> Some k | Some r \<Rightarrow> if rl_lap_time k < rl_lap_time r then Some k else Some r)"
      using snoc.prems(1) o1 k by (auto simp: delta_offer_def split: option.splits)
    ultimately show ?thesis
      using IH by (cases "?ref") (simp_all, meson less_imp_le not_less order_trans)
  qed
qed simp

theorem reference_is_best_offered_witness:
  "let k = (\<lambda>t. \<lparr>rl_distances = [0], rl_times = [0], rl_lap_time = t\<rparr>);
       ref = fold (\<lambda>(c, v) s. snd (delta_offer c v s)) [(Some (k 61), True), (Some (k 60), False)] None
   in \<exists>r. ref = Some r \<and> rl_lap_time r = 61"
proof -
  let ?k = "\<lambda>t. \<lparr>rl_distances = [0], rl_times = [0], rl_lap_time = t\<rparr>"
  from reference_is_best_offered[OF refl refl, of "[(Some (?k 61), True), (Some (?k 60), False)]"]
  show ?thesis by (auto simp: Let_def)
qed

end
