(* ===== verification/Timing_App.thy ===== *)
theory Timing_App
  imports Pipeline Timing_Core Lap_Distance
begin

text \<open>
  \<^verbatim>\<open>src/agent/timing_app.py\<close>: the lap timing app on the pipeline's timing tap. It pairs latitude and
  longitude samples of one capture instant into fixes, drives the timing engine, the distance
  model and the reference curve with them and derives the \<open>lap.*\<close> and \<open>timing.*\<close> samples.

  \<open>position_glob\<close> is a predicate on channel names (\<open>fnmatch\<close>), and \<open>dumps\<close> is \<open>json.dumps\<close> with
  sorted keys; both are arguments. A position value is a finite number, as the NMEA parser
  guarantees; \<open>observe\<close> raises ValueError on anything else.
\<close>

section \<open>State\<close>

record track_definition =
  td_name :: string
  td_lines :: "timing_line list"
  td_length_m :: real
  td_mini_sectors :: int

record timing_app =
  ta_subscribed :: "int set"
  ta_lat_id :: int
  ta_lon_id :: int
  ta_tracks_by_name :: "string \<rightharpoonup> track_definition"
  ta_session :: "(string \<times> json) list"
  ta_fixes :: nat
  ta_unpaired_fixes :: nat
  ta_events :: nat
  ta_track_switches :: nat
  ta_pending_lat :: "sample option"
  ta_pending_lon :: "sample option"
  ta_last_emitted :: "string \<rightharpoonup> sample_value"
  ta_track :: track_definition
  ta_engine :: timing_engine
  ta_distance :: distance_model
  ta_recorder :: lap_recorder
  ta_delta :: delta_tracker

definition ends_with :: "string \<Rightarrow> string \<Rightarrow> bool" where
  "ends_with suf s \<longleftrightarrow> length suf \<le> length s \<and> drop (length s - length suf) s = suf"

definition install_track :: "track_definition \<Rightarrow> timing_app \<Rightarrow> timing_app" where
  "install_track track a =
     a\<lparr>ta_track := track, ta_engine := engine_init (td_lines track) 10 20 True None,
       ta_distance := distance_init (td_length_m track) (td_mini_sectors track),
       ta_recorder := recorder_init, ta_delta := None, ta_pending_lat := None, ta_pending_lon := None,
       ta_last_emitted := Map.empty\<rparr>"

definition timing_app_init ::
  "runtime_catalog \<Rightarrow> (string \<Rightarrow> bool) \<Rightarrow> track_definition \<Rightarrow> (string \<rightharpoonup> track_definition) \<Rightarrow> timing_app res" where
  "timing_app_init cat glob track tracks =
     (let subscribed = filter (\<lambda>x. glob (fst x)) (channel_ids cat);
          lat_ids = remdups (map snd (filter (\<lambda>x. ends_with ''.lat'' (fst x)) subscribed));
          lon_ids = remdups (map snd (filter (\<lambda>x. ends_with ''.lon'' (fst x)) subscribed))
      in if subscribed = [] then Inl ValueError
         else if length lat_ids \<noteq> 1 \<or> length lon_ids \<noteq> 1 then Inl ValueError
         else Inr (install_track track
           \<lparr>ta_subscribed = snd ` set subscribed, ta_lat_id = hd lat_ids, ta_lon_id = hd lon_ids,
            ta_tracks_by_name = tracks, ta_session = [], ta_fixes = 0, ta_unpaired_fixes = 0,
            ta_events = 0, ta_track_switches = 0, ta_pending_lat = None, ta_pending_lon = None,
            ta_last_emitted = Map.empty, ta_track = track,
            ta_engine = engine_init (td_lines track) 10 20 True None,
            ta_distance = distance_init (td_length_m track) (td_mini_sectors track),
            ta_recorder = recorder_init, ta_delta = None\<rparr>))"

definition apply_session :: "(string \<times> json) list \<Rightarrow> timing_app \<Rightarrow> timing_app" where
  "apply_session session a =
     (let a1 = a\<lparr>ta_session := session\<rparr> in
      case map_of session ''track_name'' of
        Some (JStr requested) \<Rightarrow>
          if requested \<noteq> [] \<and> requested \<noteq> td_name (ta_track a) then
            (case ta_tracks_by_name a requested of
               None \<Rightarrow> a1
             | Some replacement \<Rightarrow>
                 (install_track replacement a1)\<lparr>ta_track_switches := ta_track_switches a + 1\<rparr>)
          else a1
      | _ \<Rightarrow> a1)"

section \<open>Events\<close>

fun event_type_value :: "event_type \<Rightarrow> string" where
  "event_type_value SECTOR_COMPLETED = ''sector_completed''"
| "event_type_value LAP_COMPLETED = ''lap_completed''"
| "event_type_value PIT_ENTRY = ''pit_entry''"
| "event_type_value PIT_EXIT = ''pit_exit''"

definition SESSION_STAMP_KEYS :: "string list" where
  "SESSION_STAMP_KEYS = [''session_id'', ''driver'', ''stint_number'', ''session_type'', ''track_name'']"

text \<open>The payload of an event before it is printed: its fields, then the session's identity keys.\<close>

definition encode_event :: "(string \<times> json) list \<Rightarrow> timing_event \<Rightarrow> json" where
  "encode_event session v =
     JDict (fold (\<lambda>key payload.
         case map_of session key of
           None \<Rightarrow> payload
         | Some JNull \<Rightarrow> payload
         | Some x \<Rightarrow> AList.update key x payload) SESSION_STAMP_KEYS
       [(''type'', JStr (event_type_value (te_type v))), (''time'', JFloat (Fin (te_time v))),
        (''line'', JStr (te_line v)), (''lap_number'', JInt (te_lap_number v)),
        (''sector'', JInt (te_sector v)), (''split_time'', JFloat (Fin (te_split_time v))),
        (''lap_time'', JFloat (Fin (te_lap_time v))), (''valid'', JBool (te_valid v)),
        (''direction'', JStr (te_direction v)), (''pit_status'', JStr (te_pit_status v)),
        (''lat'', JFloat (Fin (te_lat v))), (''lon'', JFloat (Fin (te_lon v)))])"

section \<open>One fix\<close>

text \<open>\<open>emit\<close>: the derived samples so far and the app, with its memory of what it emitted last.\<close>

definition emit :: "sample \<Rightarrow> bool \<Rightarrow> string \<Rightarrow> sample_value \<Rightarrow> sample list \<times> timing_app \<Rightarrow> sample list \<times> timing_app" where
  "emit fx always name v x =
     (let (out, a) = x in
      if \<not> always \<and> ta_last_emitted a name = Some v then (out, a)
      else (out @ [\<lparr>source_ref = ''derived:'' @ name, t_mono_ns = t_mono_ns fx, t_wall_ms = t_wall_ms fx, svalue = v\<rparr>],
            a\<lparr>ta_last_emitted := (ta_last_emitted a)(name \<mapsto> v)\<rparr>))"

abbreviation vreal :: "real \<Rightarrow> sample_value" where "vreal x \<equiv> VFloat (Fin x)"

definition handle_event ::
  "(json \<Rightarrow> string) \<Rightarrow> sample \<Rightarrow> timing_event \<Rightarrow> sample list \<times> timing_app \<Rightarrow> sample list \<times> timing_app" where
  "handle_event dumps fx v x =
     (let (out, a) = x;
          x1 = emit fx True ''lap.event'' (VStr (dumps (encode_event (ta_session a) v)))
                 (out, a\<lparr>ta_events := ta_events a + 1\<rparr>)
      in if te_type v = LAP_COMPLETED then
           (let (out1, a1) = x1;
                candidate = recorder_complete (te_lap_time v) (ta_recorder a1);
                a2 = a1\<lparr>ta_delta := snd (delta_offer candidate (te_valid v) (ta_delta a1)),
                        ta_recorder := recorder_reset (ta_recorder a1),
                        ta_distance := start_lap (ta_distance a1)\<rparr>;
                x3 = emit fx True ''lap.last_time'' (vreal (te_lap_time v)) (out1, a2);
                best = best_lap_time (en_state (ta_engine a2))
            in if best > 0 then emit fx False ''lap.best_time'' (vreal best) x3 else x3)
         else x1)"

text \<open>The running values at the end of a fix.\<close>

definition emit_running ::
  "sample \<Rightarrow> gps_point \<Rightarrow> timing_engine \<Rightarrow> sample list \<times> timing_app \<Rightarrow> sample list \<times> timing_app" where
  "emit_running fx point e x =
     (let snap = snapshot e;
          x5 = emit fx False ''lap.number'' (VInt (sn_lap_number snap)) x;
          x6 = emit fx False ''lap.sector'' (VInt (int (sn_sector snap))) x5
      in if lap_start_time (en_state e) > 0 then
           (let dist = dm_lap_distance (ta_distance (snd x6));
                elapsed = gtime point - lap_start_time (en_state e);
                ref = ta_delta (snd x6);
                x7 = emit fx True ''timing.distance'' (vreal dist) x6;
                x8 = emit fx True ''timing.lap_elapsed'' (vreal elapsed) x7
            in case delta dist elapsed ref of
                 None \<Rightarrow> x8
               | Some d \<Rightarrow>
                   (let y = emit fx True ''timing.delta_best'' (vreal d) x8
                    in case predicted dist elapsed ref of
                         None \<Rightarrow> y
                       | Some p \<Rightarrow> emit fx True ''timing.predicted_lap'' (vreal p) y))
         else x6)"

text \<open>Before the engine sees the fix: count it, move the distance, record a running lap's curve.\<close>

definition record_fix :: "gps_point \<Rightarrow> timing_app \<Rightarrow> timing_app" where
  "record_fix point a0 =
     (let a = a0\<lparr>ta_fixes := ta_fixes a0 + 1,
                 ta_distance := dist_update (lat point) (lon point) (ta_distance a0)\<rparr>;
          started = lap_start_time (en_state (ta_engine a))
      in if started > 0
         then a\<lparr>ta_recorder := recorder_add (dm_lap_distance (ta_distance a)) (gtime point - started) (ta_recorder a)\<rparr>
         else a)"

text \<open>After it: when timing has just started, anchor the distance at the line.\<close>

definition anchor_lap :: "bool \<Rightarrow> timing_engine \<Rightarrow> timing_app \<Rightarrow> timing_app" where
  "anchor_lap was_running e a =
     (let a2 = a\<lparr>ta_engine := e\<rparr>
      in if \<not> was_running \<and> lap_start_time (en_state e) > 0
         then a2\<lparr>ta_distance := start_lap (ta_distance a2), ta_recorder := recorder_reset (ta_recorder a2)\<rparr>
         else a2)"

definition process_fix ::
  "(json \<Rightarrow> string) \<Rightarrow> sample \<Rightarrow> real \<Rightarrow> real \<Rightarrow> timing_app \<Rightarrow> sample list \<times> timing_app" where
  "process_fix dumps fx la lo a0 =
     (let point = \<lparr>lat = la, lon = lo, gtime = t_wall_ms fx / 1000\<rparr>;
          lap_running = (lap_start_time (en_state (ta_engine a0)) > 0);
          a1 = record_fix point a0;
          (events, e) = process_point point (ta_engine a1);
          a3 = anchor_lap lap_running e a1
      in emit_running fx point e (fold (handle_event dumps fx) events ([], a3)))"

fun position_value :: "sample_value \<Rightarrow> real res" where
  "position_value (VFloat (Fin x)) = Inr x"
| "position_value (VInt n) = Inr (of_int n)"
| "position_value (VBool b) = Inr (of_bool b)"
| "position_value _ = Inl ValueError"

definition timing_observe ::
  "(json \<Rightarrow> string) \<Rightarrow> int \<Rightarrow> sample \<Rightarrow> timing_app \<Rightarrow> sample list res \<times> timing_app" where
  "timing_observe dumps cid s a =
     (if cid \<noteq> ta_lat_id a \<and> cid \<noteq> ta_lon_id a then (Inr [], a)
      else
        (let a1 = (if cid = ta_lat_id a then a\<lparr>ta_pending_lat := Some s\<rparr> else a\<lparr>ta_pending_lon := Some s\<rparr>)
         in case (ta_pending_lat a1, ta_pending_lon a1) of
              (Some la, Some lo) \<Rightarrow>
                if t_mono_ns la \<noteq> t_mono_ns lo
                then (Inr [], a1\<lparr>ta_unpaired_fixes := ta_unpaired_fixes a1 + 1\<rparr>)
                else
                  (let a2 = a1\<lparr>ta_pending_lat := None, ta_pending_lon := None\<rparr>
                   in case (position_value (svalue la), position_value (svalue lo)) of
                        (Inr x, Inr y) \<Rightarrow> (let (out, a3) = process_fix dumps la x y a2 in (Inr out, a3))
                      | _ \<Rightarrow> (Inl ValueError, a2\<lparr>ta_fixes := ta_fixes a2 + 1\<rparr>))
            | _ \<Rightarrow> (Inr [], a1)))"

text \<open>The app as the pipeline's timing tap.\<close>

definition timing_tap :: "(json \<Rightarrow> string) \<Rightarrow> int set \<Rightarrow> timing_app tap" where
  "timing_tap dumps ids = \<lparr>tap_ids = ids, tap_observe = timing_observe dumps\<rparr>"

lemmas app_op_defs [op_defs] =
  install_track_def timing_app_init_def apply_session_def emit_def handle_event_def emit_running_def record_fix_def anchor_lap_def process_fix_def
  timing_observe_def

section \<open>What emitting keeps\<close>

text \<open>Everything but the memory of what was emitted and the counters.\<close>

definition same_timing :: "timing_app \<Rightarrow> timing_app \<Rightarrow> bool" where
  "same_timing a a' \<longleftrightarrow>
     ta_engine a' = ta_engine a \<and> ta_lat_id a' = ta_lat_id a \<and> ta_lon_id a' = ta_lon_id a
     \<and> ta_pending_lat a' = ta_pending_lat a \<and> ta_pending_lon a' = ta_pending_lon a
     \<and> ta_fixes a' = ta_fixes a \<and> ta_unpaired_fixes a' = ta_unpaired_fixes a"

definition same_lap_data :: "timing_app \<Rightarrow> timing_app \<Rightarrow> bool" where
  "same_lap_data a a' \<longleftrightarrow> ta_distance a' = ta_distance a \<and> ta_recorder a' = ta_recorder a \<and> ta_delta a' = ta_delta a"

lemma emit_same: "same_timing (snd x) (snd (emit fx al name v x))" "same_lap_data (snd x) (snd (emit fx al name v x))"
  by (cases x; simp add: emit_def same_timing_def same_lap_data_def)+

lemma same_timing_trans: "same_timing a b \<Longrightarrow> same_timing b c \<Longrightarrow> same_timing a c"
  by (simp add: same_timing_def)

lemma emit_keeps:
  "same_timing a (snd x) \<Longrightarrow> same_timing a (snd (emit fx al name v x))"
  "same_lap_data a (snd x) \<Longrightarrow> same_lap_data a (snd (emit fx al name v x))"
  using emit_same[of x fx al name v] by (simp_all add: same_timing_def same_lap_data_def)

lemma handle_event_same: "same_timing (snd x) (snd (handle_event dumps fx v x))"
proof (cases x)
  case (Pair out a)
  let ?x1 = "emit fx True ''lap.event'' (VStr (dumps (encode_event (ta_session a) v))) (out, a\<lparr>ta_events := ta_events a + 1\<rparr>)"
  have e1: "same_timing a (snd ?x1)"
    using emit_same(1)[of "(out, a\<lparr>ta_events := ta_events a + 1\<rparr>)"] by (simp add: same_timing_def)
  show ?thesis
  proof (cases "te_type v = LAP_COMPLETED")
    case True
    obtain out1 a1 where x1: "?x1 = (out1, a1)" by fastforce
    let ?a2 = "a1\<lparr>ta_delta := snd (delta_offer (recorder_complete (te_lap_time v) (ta_recorder a1)) (te_valid v) (ta_delta a1)),
      ta_recorder := recorder_reset (ta_recorder a1), ta_distance := start_lap (ta_distance a1)\<rparr>"
    have "same_timing a ?a2" using e1 x1 by (simp add: same_timing_def)
    with True x1 Pair show ?thesis
      by (auto simp: handle_event_def Let_def intro!: emit_keeps)
  qed (use e1 Pair in \<open>simp add: handle_event_def\<close>)
qed

lemma fold_handle_event_same: "same_timing (snd x) (snd (fold (handle_event dumps fx) vs x))"
proof (induction vs arbitrary: x)
  case (Cons v vs)
  from same_timing_trans[OF handle_event_same Cons.IH] show ?case by simp
qed (simp add: same_timing_def)

lemma handle_event_lap_data:
  "te_type v \<noteq> LAP_COMPLETED \<Longrightarrow> same_lap_data (snd x) (snd (handle_event dumps fx v x))"
  using emit_same(2)[of "(fst x, (snd x)\<lparr>ta_events := ta_events (snd x) + 1\<rparr>)"]
  by (cases x) (simp add: handle_event_def same_lap_data_def)

lemma fold_handle_event_lap_data:
  "\<forall>v \<in> set vs. te_type v \<noteq> LAP_COMPLETED \<Longrightarrow> same_lap_data (snd x) (snd (fold (handle_event dumps fx) vs x))"
proof (induction vs arbitrary: x)
  case (Cons v vs)
  from Cons.IH[of "handle_event dumps fx v x"] handle_event_lap_data[of v x] Cons.prems show ?case
    by (simp add: same_lap_data_def)
qed (simp add: same_lap_data_def)

section \<open>What is derived\<close>

definition TIMING_CHANNELS :: "string list" where
  "TIMING_CHANNELS = [''lap.event'', ''lap.last_time'', ''lap.best_time'', ''lap.number'', ''lap.sector'',
     ''timing.distance'', ''timing.lap_elapsed'', ''timing.delta_best'', ''timing.predicted_lap'']"

definition derived_ok :: "sample \<Rightarrow> sample list \<Rightarrow> bool" where
  "derived_ok fx out \<longleftrightarrow>
     (\<forall>d \<in> set out. t_mono_ns d = t_mono_ns fx \<and> t_wall_ms d = t_wall_ms fx
        \<and> (\<exists>name \<in> set TIMING_CHANNELS. source_ref d = ''derived:'' @ name))"

lemma emit_derived_ok:
  "derived_ok fx (fst x) \<Longrightarrow> name \<in> set TIMING_CHANNELS \<Longrightarrow> derived_ok fx (fst (emit fx al name v x))"
  by (cases x) (auto simp: emit_def derived_ok_def)

lemma handle_event_derived_ok:
  assumes "derived_ok fx (fst x)"
  shows "derived_ok fx (fst (handle_event dumps fx v x))"
proof (cases x)
  case (Pair out a)
  obtain out1 a1 where x1: "emit fx True ''lap.event'' (VStr (dumps (encode_event (ta_session a) v)))
      (out, a\<lparr>ta_events := ta_events a + 1\<rparr>) = (out1, a1)" by fastforce
  have "derived_ok fx out1"
    using emit_derived_ok[of fx "(out, a\<lparr>ta_events := ta_events a + 1\<rparr>)" "''lap.event''"] assms x1 Pair
    by (metis TIMING_CHANNELS_def fst_conv list.set_intros(1))
  with x1 Pair show ?thesis
    by (auto simp: handle_event_def Let_def TIMING_CHANNELS_def intro!: emit_derived_ok)
qed

lemma fold_handle_event_derived_ok:
  "derived_ok fx (fst x) \<Longrightarrow> derived_ok fx (fst (fold (handle_event dumps fx) vs x))"
  by (induction vs arbitrary: x) (auto simp: handle_event_derived_ok)

section \<open>One fix, summarised\<close>

lemma emit_running_keeps:
  "same_timing a (snd x) \<Longrightarrow> same_timing a (snd (emit_running fx point e x))"
  "same_lap_data a (snd x) \<Longrightarrow> same_lap_data a (snd (emit_running fx point e x))"
  by (simp_all add: emit_running_def Let_def emit_keeps split: option.splits)

lemma emit_running_derived_ok: "derived_ok fx (fst x) \<Longrightarrow> derived_ok fx (fst (emit_running fx point e x))"
  by (simp add: emit_running_def Let_def emit_derived_ok TIMING_CHANNELS_def split: option.splits)

abbreviation fix_point :: "sample \<Rightarrow> real \<Rightarrow> real \<Rightarrow> gps_point" where
  "fix_point fx la lo \<equiv> \<lparr>lat = la, lon = lo, gtime = t_wall_ms fx / 1000\<rparr>"

lemma process_fix_timing:
  "ta_engine (snd (process_fix dumps fx la lo a)) = snd (process_point (fix_point fx la lo) (ta_engine a))
   \<and> ta_fixes (snd (process_fix dumps fx la lo a)) = ta_fixes a + 1
   \<and> ta_unpaired_fixes (snd (process_fix dumps fx la lo a)) = ta_unpaired_fixes a
   \<and> ta_pending_lat (snd (process_fix dumps fx la lo a)) = ta_pending_lat a
   \<and> ta_pending_lon (snd (process_fix dumps fx la lo a)) = ta_pending_lon a
   \<and> ta_lat_id (snd (process_fix dumps fx la lo a)) = ta_lat_id a
   \<and> ta_lon_id (snd (process_fix dumps fx la lo a)) = ta_lon_id a
   \<and> derived_ok fx (fst (process_fix dumps fx la lo a))"
proof -
  obtain events e where p: "process_point (fix_point fx la lo) (ta_engine a) = (events, e)" by fastforce
  let ?r = "record_fix (fix_point fx la lo) a"
  let ?a3 = "anchor_lap (lap_start_time (en_state (ta_engine a)) > 0) e ?r"
  have "ta_engine ?r = ta_engine a" by (simp add: record_fix_def Let_def)
  with p have a3: "process_fix dumps fx la lo a =
      emit_running fx (fix_point fx la lo) e (fold (handle_event dumps fx) events ([], ?a3))"
    by (simp add: process_fix_def Let_def)
  have s: "ta_engine ?a3 = e" "ta_fixes ?a3 = ta_fixes a + 1" "ta_unpaired_fixes ?a3 = ta_unpaired_fixes a"
      "ta_pending_lat ?a3 = ta_pending_lat a" "ta_pending_lon ?a3 = ta_pending_lon a"
      "ta_lat_id ?a3 = ta_lat_id a" "ta_lon_id ?a3 = ta_lon_id a"
    by (simp_all add: anchor_lap_def record_fix_def Let_def)
  have "same_timing ?a3 (snd (process_fix dumps fx la lo a))"
    unfolding a3 using fold_handle_event_same[of "([], ?a3)"] by (intro emit_running_keeps(1)) simp
  moreover have "derived_ok fx (fst (process_fix dumps fx la lo a))"
    unfolding a3 by (intro emit_running_derived_ok fold_handle_event_derived_ok) (simp add: derived_ok_def)
  ultimately show ?thesis using s p by (simp add: same_timing_def)
qed

lemma process_fix_no_lap:
  assumes p: "process_point (fix_point fx la lo) (ta_engine a) = (events, e)"
    and run: "0 < lap_start_time (en_state (ta_engine a))"
    and none: "\<forall>v \<in> set events. te_type v \<noteq> LAP_COMPLETED"
  shows "ta_distance (snd (process_fix dumps fx la lo a)) = dist_update la lo (ta_distance a)
    \<and> ta_delta (snd (process_fix dumps fx la lo a)) = ta_delta a"
proof -
  let ?r = "record_fix (fix_point fx la lo) a"
  let ?a3 = "anchor_lap True e ?r"
  have "ta_engine ?r = ta_engine a" by (simp add: record_fix_def Let_def)
  with p run have a3: "process_fix dumps fx la lo a =
      emit_running fx (fix_point fx la lo) e (fold (handle_event dumps fx) events ([], ?a3))"
    by (simp add: process_fix_def Let_def)
  have "same_lap_data ?a3 (snd (process_fix dumps fx la lo a))"
    unfolding a3 using fold_handle_event_lap_data[OF none, of "([], ?a3)"] by (intro emit_running_keeps(2)) simp
  then show ?thesis by (simp add: same_lap_data_def anchor_lap_def record_fix_def Let_def)
qed

section \<open>Fixes\<close>

text \<open>A fix as two samples of one capture instant, latitude first.\<close>

fun fix_samples :: "int \<Rightarrow> int \<Rightarrow> sample \<times> sample \<Rightarrow> (int \<times> sample) list" where
  "fix_samples lat_id lon_id (la, lo) = [(lat_id, la), (lon_id, lo)]"

fun good_fix :: "sample \<times> sample \<Rightarrow> bool" where
  "good_fix (la, lo) \<longleftrightarrow> t_mono_ns la = t_mono_ns lo
     \<and> \<not> isl (position_value (svalue la)) \<and> \<not> isl (position_value (svalue lo))"

fun point_of :: "sample \<times> sample \<Rightarrow> gps_point" where
  "point_of (la, lo) = fix_point la (projr (position_value (svalue la))) (projr (position_value (svalue lo)))"

fun observe_all :: "(json \<Rightarrow> string) \<Rightarrow> (int \<times> sample) list \<Rightarrow> timing_app \<Rightarrow> sample list res \<times> timing_app" where
  "observe_all dumps [] a = (Inr [], a)"
| "observe_all dumps ((cid, s) # xs) a =
     (case timing_observe dumps cid s a of
        (Inl e, a1) \<Rightarrow> (Inl e, a1)
      | (Inr out, a1) \<Rightarrow>
          (case observe_all dumps xs a1 of (Inl e, a2) \<Rightarrow> (Inl e, a2) | (Inr out', a2) \<Rightarrow> (Inr (out @ out'), a2)))"

text \<open>No half of another fix with this stamp is waiting.\<close>

definition no_stale_half :: "timing_app \<Rightarrow> sample \<Rightarrow> bool" where
  "no_stale_half a s \<longleftrightarrow> (\<forall>q. ta_pending_lon a = Some q \<longrightarrow> t_mono_ns q \<noteq> t_mono_ns s)"

lemma observe_fix:
  assumes "good_fix (la, lo)" and "ta_lat_id a \<noteq> ta_lon_id a" and "no_stale_half a la"
  shows "\<exists>out a'. observe_all dumps (fix_samples (ta_lat_id a) (ta_lon_id a) (la, lo)) a = (Inr out, a')
    \<and> ta_engine a' = snd (process_point (point_of (la, lo)) (ta_engine a))
    \<and> ta_fixes a' = ta_fixes a + 1
    \<and> ta_unpaired_fixes a' = ta_unpaired_fixes a + (if ta_pending_lon a = None then 0 else 1)
    \<and> ta_pending_lat a' = None \<and> ta_pending_lon a' = None
    \<and> ta_lat_id a' = ta_lat_id a \<and> ta_lon_id a' = ta_lon_id a \<and> derived_ok la out"
proof -
  obtain x y where xy: "position_value (svalue la) = Inr x" "position_value (svalue lo) = Inr y"
    and t: "t_mono_ns la = t_mono_ns lo"
    using assms(1) by (cases "position_value (svalue la)"; cases "position_value (svalue lo)") auto
  define a1 where "a1 = a\<lparr>ta_pending_lat := Some la,
    ta_unpaired_fixes := ta_unpaired_fixes a + (if ta_pending_lon a = None then 0 else 1)\<rparr>"
  have o1: "timing_observe dumps (ta_lat_id a) la a = (Inr [], a1)"
    using assms(3) by (auto simp: timing_observe_def no_stale_half_def a1_def split: option.splits)
  let ?a2 = "a1\<lparr>ta_pending_lat := None, ta_pending_lon := None\<rparr>"
  have o2: "timing_observe dumps (ta_lon_id a) lo a1 =
      (Inr (fst (process_fix dumps la x y ?a2)), snd (process_fix dumps la x y ?a2))"
    using assms(2) xy t by (simp add: timing_observe_def a1_def split: prod.splits)
  show ?thesis
    using process_fix_timing[of dumps la x y ?a2] o1 o2 xy by (simp add: a1_def)
qed

lemma observe_all_append:
  "observe_all dumps xs a = (Inr out, a1) \<Longrightarrow> observe_all dumps ys a1 = (Inr out', a2) \<Longrightarrow>
     observe_all dumps (xs @ ys) a = (Inr (out @ out'), a2)"
  by (induction dumps xs a arbitrary: out a1 rule: observe_all.induct)
    (auto split: prod.splits sum.splits)

lemma timing_observe_outputs:
  assumes "timing_observe dumps cid s a = (Inr out, a')" and "d \<in> set out"
  shows "\<exists>name \<in> set TIMING_CHANNELS. source_ref d = ''derived:'' @ name"
proof -
  from assms obtain la x y b where "out = fst (process_fix dumps la x y b)"
    by (auto simp: timing_observe_def Let_def split: if_splits option.splits sum.splits prod.splits) (metis fst_conv)+
  with process_fix_timing[of dumps la x y b] assms(2) show ?thesis by (auto simp: derived_ok_def)
qed

section \<open>Properties\<close>

text \<open>
  C8. The app times exactly the fixes it is given: whatever half of an older fix is still waiting,
  a stream of complete fixes (latitude and longitude of one capture instant) drives the timing
  engine through their points in order, one each; nothing is left waiting; and every derived sample
  carries the capture stamp of a fix and the name of a timing channel.
\<close>
theorem app_times_fixes:
  assumes "\<forall>f \<in> set fs. good_fix f" and "ta_lat_id a \<noteq> ta_lon_id a"
    and "fs \<noteq> []" and "no_stale_half a (fst (hd fs))"
  shows "\<exists>out a'. observe_all dumps (concat (map (fix_samples (ta_lat_id a) (ta_lon_id a)) fs)) a = (Inr out, a')
    \<and> ta_engine a' = snd (process_all (map point_of fs) (ta_engine a))
    \<and> ta_fixes a' = ta_fixes a + length fs \<and> ta_pending_lat a' = None \<and> ta_pending_lon a' = None
    \<and> (\<forall>d \<in> set out. \<exists>f \<in> set fs. derived_ok (fst f) [d])"
  using assms
proof (induction fs arbitrary: a)
  case (Cons f fs)
  obtain la lo where f: "f = (la, lo)" by (cases f)
  from observe_fix[of la lo a dumps] Cons.prems f obtain out a1
    where o: "observe_all dumps (fix_samples (ta_lat_id a) (ta_lon_id a) f) a = (Inr out, a1)"
      and a1: "ta_engine a1 = snd (process_point (point_of f) (ta_engine a))" "ta_fixes a1 = ta_fixes a + 1"
        "ta_pending_lat a1 = None" "ta_pending_lon a1 = None" "ta_lat_id a1 = ta_lat_id a" "ta_lon_id a1 = ta_lon_id a"
        "derived_ok la out" by auto
  have outs: "\<forall>d \<in> set out. derived_ok (fst f) [d]" using a1(7) f by (simp add: derived_ok_def)
  have pp: "snd (process_all (map point_of (f # fs)) (ta_engine a)) = snd (process_all (map point_of fs) (ta_engine a1))"
    using a1(1) by (simp add: Let_def split: prod.splits)
  show ?case
  proof (cases "fs = []")
    case True
    with o a1 outs pp show ?thesis by (intro exI[of _ out] exI[of _ a1]) auto
  next
    case False
    have "no_stale_half a1 (fst (hd fs))" using a1(4) by (simp add: no_stale_half_def)
    from Cons.IH[OF _ _ False this] Cons.prems(1,2) a1(5,6) obtain out' a2
      where o2: "observe_all dumps (concat (map (fix_samples (ta_lat_id a) (ta_lon_id a)) fs)) a1 = (Inr out', a2)"
        and a2: "ta_engine a2 = snd (process_all (map point_of fs) (ta_engine a1))" "ta_fixes a2 = ta_fixes a1 + length fs"
          "ta_pending_lat a2 = None" "ta_pending_lon a2 = None" "\<forall>d \<in> set out'. \<exists>f \<in> set fs. derived_ok (fst f) [d]"
      by auto
    with observe_all_append[OF o o2] a1(2) outs pp show ?thesis
      by (intro exI[of _ "out @ out'"] exI[of _ a2]) auto
  qed
qed simp

definition wit_app :: timing_app where
  "wit_app =
     \<lparr>ta_subscribed = {1, 2}, ta_lat_id = 1, ta_lon_id = 2, ta_tracks_by_name = Map.empty, ta_session = [],
      ta_fixes = 0, ta_unpaired_fixes = 0, ta_events = 0, ta_track_switches = 0,
      ta_pending_lat = None, ta_pending_lon = Some \<lparr>source_ref = ''serial0:lon'', t_mono_ns = 5, t_wall_ms = 0, svalue = VInt 1\<rparr>,
      ta_last_emitted = Map.empty,
      ta_track = \<lparr>td_name = ''oval'', td_lines = wit_track, td_length_m = 1000, td_mini_sectors = 20\<rparr>,
      ta_engine = engine_init wit_track 10 20 True None, ta_distance = distance_init 1000 20,
      ta_recorder = recorder_init, ta_delta = None\<rparr>"

definition wit_half :: "real \<Rightarrow> int \<Rightarrow> real \<Rightarrow> sample" where
  "wit_half x t_ns t_ms = \<lparr>source_ref = ''serial0:x'', t_mono_ns = t_ns, t_wall_ms = t_ms, svalue = VFloat (Fin x)\<rparr>"

theorem app_times_fixes_witness:
  "\<exists>out a'. observe_all (\<lambda>_. []) (concat (map (fix_samples 1 2)
        [(wit_half (1/2) 10 100000, wit_half (-1/2) 10 100000), (wit_half (1/2) 20 101000, wit_half (1/2) 20 101000)]))
      wit_app = (Inr out, a')
    \<and> ta_fixes a' = 2 \<and> ta_pending_lon a' = None"
proof -
  let ?fs = "[(wit_half (1/2) 10 100000, wit_half (-1/2) 10 100000), (wit_half (1/2) 20 101000, wit_half (1/2) 20 101000)]"
  have "\<forall>f \<in> set ?fs. good_fix f" "ta_lat_id wit_app \<noteq> ta_lon_id wit_app" "no_stale_half wit_app (fst (hd ?fs))"
    by (simp_all add: wit_half_def wit_app_def no_stale_half_def)
  from app_times_fixes[OF this(1,2) _ this(3), of "\<lambda>_. []"] show ?thesis
    by (auto simp: wit_app_def)
qed

text \<open>
  The pipeline with the timing app on its tap terminates on every sample, whatever the app's
  state, as long as the app is not subscribed to one of its own output channels.
\<close>
theorem timing_app_ingest_terminates:
  assumes "pipeline_inv p" and "p_fusion p = None" and "p_timing p = Some (timing_tap dumps ids, a)"
    and "\<forall>name \<in> set TIMING_CHANNELS. \<forall>c pol. p_source_map p (''derived:'' @ name) = Some (c, pol) \<longrightarrow> c \<notin> ids"
  shows "\<exists>u p'. ingest 3 sc s p = Some (u, p') \<and> pipeline_inv p'"
proof -
  have "tap_outputs_avoid (p_source_map p) (timing_tap dumps ids) ids"
    unfolding tap_outputs_avoid_def timing_tap_def
    using timing_observe_outputs assms(4) by (simp, metis)
  then have ac: "taps_acyclic p" using assms(2,3) by (simp add: taps_acyclic_def ids_of_def timing_tap_def)
  from ingest_returns[OF ac, of 0 sc s] obtain u p' where "ingest 3 sc s p = Some (u, p')"
    unfolding numeral_3_eq_3 by (metis not_None_eq surj_pair)
  with ingest_inv[OF this assms(1)] show ?thesis by blast
qed

definition wit_timing_pipeline :: "(unit, timing_app) pipeline" where
  "wit_timing_pipeline =
     \<lparr>p_source_map = [''can0:x'' \<mapsto> (1, wit_pl_policy ''car.lat'' None 0),
                      ''derived:lap.number'' \<mapsto> (2147483648, wit_pl_policy ''lap.number'' None 0)],
      p_rbe = rbe_init,
      p_batcher = \<lparr>b_registry_seq = 1,
        b_policies_by_id = [1 \<mapsto> wit_pl_policy ''car.lat'' None 0, 2147483648 \<mapsto> wit_pl_policy ''lap.number'' None 0],
        b_tick_us = 20000, b_tick_ns = 20000000, b_pending = []\<rparr>,
      p_tick_ns = 20000000, p_fusion = None, p_timing = Some (timing_tap (\<lambda>_. []) {1, 2}, wit_app),
      p_staged = [], p_reported_unmapped = {}, p_unmapped_refs = 0, p_encode_failures = 0\<rparr>"

theorem timing_app_ingest_terminates_witness:
  "\<exists>u p'. ingest 3 ''serial0'' (wit_sample 0 7) wit_timing_pipeline = Some (u, p') \<and> pipeline_inv p'"
proof (rule timing_app_ingest_terminates)
  show "pipeline_inv wit_timing_pipeline"
    by (auto simp: pipeline_inv_def wit_timing_pipeline_def split: if_splits)
  show "\<forall>name \<in> set TIMING_CHANNELS. \<forall>c pol.
      p_source_map wit_timing_pipeline (''derived:'' @ name) = Some (c, pol) \<longrightarrow> c \<notin> {1, 2}"
    by (auto simp: wit_timing_pipeline_def split: if_splits)
qed (simp_all add: wit_timing_pipeline_def)

text \<open>
  A resync does not move the distance origin: when a running lap is abandoned at start/finish (a
  re-crossing without sector progress, or an implausibly short lap) the engine restarts its lap
  clock without an event, and the app keeps accumulating distance from the abandoned lap's start
  and offers no new reference.
\<close>
theorem resync_keeps_distance_origin:
  assumes "process_point (fix_point fx la lo) (ta_engine a) = (events, e)"
    and "0 < lap_start_time (en_state (ta_engine a))"
    and "\<forall>v \<in> set events. te_type v \<noteq> LAP_COMPLETED"
  shows "ta_engine (snd (process_fix dumps fx la lo a)) = e
    \<and> ta_distance (snd (process_fix dumps fx la lo a)) = dist_update la lo (ta_distance a)
    \<and> ta_delta (snd (process_fix dumps fx la lo a)) = ta_delta a"
  using process_fix_no_lap[OF assms] process_fix_timing[of dumps fx la lo a] assms(1) by simp

text \<open>The engine of the witness: lap clock running since 100.5 s, no sector crossed, about to cross
  start/finish again the same way.\<close>

definition wit_resync_engine :: timing_engine where
  "wit_resync_engine = (engine_init wit_track 10 20 True None)\<lparr>
     en_prev := Some (wit_fix (-1/2) 120),
     en_state := timing_state_default\<lparr>lap_number := 1, expected_idx := 1, lap_start_time := 201 / 2,
       segment_start_time := 201 / 2, last_cross_time := [''Start'' \<mapsto> 201 / 2], line_direction := [''Start'' \<mapsto> -1]\<rparr>\<rparr>"

lemma wit_type: "tl_type (wit_line name c ty) = ty"
  by (simp add: wit_line_def)

lemma wit_resync_step:
  "\<exists>e. process_point (wit_fix (1/2) 130) wit_resync_engine = ([], e) \<and> lap_start_time (en_state e) = 125"
  by (simp add: process_point_def wit_resync_engine_def engine_init_def wit_track_def wit_crossing wit_name wit_type
      accept_crossing_def handle_lap_point_def start_new_lap_def timing_state_default_def Let_def)

theorem resync_keeps_distance_origin_witness:
  "\<exists>e. lap_start_time (en_state e) = 125
    \<and> ta_engine (snd (process_fix (\<lambda>_. []) (wit_half (1/2) 10 130000) (1/2) (1/2)
          (wit_app\<lparr>ta_engine := wit_resync_engine\<rparr>))) = e
    \<and> ta_distance (snd (process_fix (\<lambda>_. []) (wit_half (1/2) 10 130000) (1/2) (1/2)
          (wit_app\<lparr>ta_engine := wit_resync_engine\<rparr>))) = dist_update (1/2) (1/2) (distance_init 1000 20)"
proof -
  obtain e where e: "process_point (wit_fix (1/2) 130) wit_resync_engine = ([], e)" "lap_start_time (en_state e) = 125"
    using wit_resync_step by blast
  let ?a = "wit_app\<lparr>ta_engine := wit_resync_engine\<rparr>"
  have "process_point (fix_point (wit_half (1/2) 10 130000) (1/2) (1/2)) (ta_engine ?a) = ([], e)"
    using e(1) by (simp add: wit_fix_def wit_half_def)
  moreover have "0 < lap_start_time (en_state (ta_engine ?a))"
    by (simp add: wit_resync_engine_def)
  ultimately show ?thesis
    using resync_keeps_distance_origin[where fx = "wit_half (1/2) 10 130000" and la = "1/2" and lo = "1/2"
        and a = ?a and events = "[]" and e = e and dumps = "\<lambda>_. []"] e(2)
    by (simp add: wit_app_def)
qed

end
