(* ===== verification/Lap_Materialiser.thy ===== *)
theory Lap_Materialiser
  imports Py_Values "HOL-Library.Product_Lexorder"
begin

text \<open>
  \<^verbatim>\<open>src/pit/ingest_writer/laps.py\<close>: fold \<open>lap.event\<close> payloads into lap and sector rows.

  \<open>observe_event\<close> takes what \<open>json.loads\<close> made of the payload (\<open>None\<close> when it raised). Converting a
  string to a number and a non-string to text is Python's \<open>float\<close>, \<open>int\<close> and \<open>str\<close>, passed in a
  \<open>text_conv\<close>. An aware datetime is its epoch seconds, rounded to microseconds and limited to the
  years 1 to 9999 as \<open>datetime.fromtimestamp\<close> does.
\<close>

section \<open>Fields of an event\<close>

fun as_int :: "json option \<Rightarrow> int option res" where
  "as_int (Some (JInt n)) = Inr (Some n)"
| "as_int (Some (JFloat f)) = sbind (int_of_flt f) (\<lambda>n. Inr (Some n))"
| "as_int _ = Inr None"

fun as_float :: "json option \<Rightarrow> flt option" where
  "as_float (Some (JInt n)) = Some (Fin (of_int n))"
| "as_float (Some (JFloat f)) = Some f"
| "as_float _ = None"

fun as_str :: "json option \<Rightarrow> string option" where
  "as_str (Some (JStr s)) = (if s \<noteq> [] then Some s else None)"
| "as_str _ = None"

section \<open>Rows and state\<close>

record sector_row =
  sr_sector :: int
  sr_split_time_s :: "flt option"
  sr_crossed_at :: real

record lap_row =
  lr_vehicle_id :: string
  lr_session_id :: "string option"
  lr_stint_number :: "int option"
  lr_track_name :: "string option"
  lr_lap_number :: int
  lr_crossed_at :: real
  lr_lap_time_s :: "flt option"
  lr_valid :: bool
  lr_pit_status :: "string option"
  lr_direction :: "string option"
  lr_sectors :: "sector_row list"

record pit_status_update =
  pu_vehicle_id :: string
  pu_at :: real
  pu_pit_status :: string

datatype row = Lap lap_row | PitStatus pit_status_update

record materialiser =
  lm_vehicle_id :: string
  lm_sectors :: "((int \<times> int) \<times> sector_row) list"
  lm_highest :: "int option"
  lm_malformed :: nat
  lm_unknown_types :: "string set"
  lm_engine_restarts :: nat
  lm_laps :: nat
  lm_sectors_written :: nat

definition MAX_BUFFERED_SECTORS :: nat where "MAX_BUFFERED_SECTORS = 64"

definition materialiser_init :: "string \<Rightarrow> materialiser" where
  "materialiser_init vehicle =
     \<lparr>lm_vehicle_id = vehicle, lm_sectors = [], lm_highest = None, lm_malformed = 0,
      lm_unknown_types = {}, lm_engine_restarts = 0, lm_laps = 0, lm_sectors_written = 0\<rparr>"

section \<open>Operations\<close>

text \<open>Every exception the conversions raise is caught: the payload is malformed.\<close>

definition parse_event ::
  "text_conv \<Rightarrow> json option \<Rightarrow> materialiser \<Rightarrow> ((string \<times> json) list \<times> string \<times> real \<times> int) option \<times> materialiser" where
  "parse_event tc payload m =
     (let r = (case payload of
                 Some (JDict d) \<Rightarrow>
                   (case map_of d ''type'' of
                      None \<Rightarrow> Inl KeyError
                    | Some t \<Rightarrow>
                        (case map_of d ''time'' of
                           None \<Rightarrow> Inl KeyError
                         | Some tm \<Rightarrow>
                             sbind (py_float tc tm) (\<lambda>f.
                             sbind (fromtimestamp f) (\<lambda>at_s.
                               case map_of d ''lap_number'' of
                                 None \<Rightarrow> Inl KeyError
                               | Some num \<Rightarrow> sbind (py_int tc num) (\<lambda>n. Inr (d, py_str tc t, at_s, n))))))
               | _ \<Rightarrow> Inl TypeError)
      in case r of Inl e \<Rightarrow> (None, m\<lparr>lm_malformed := lm_malformed m + 1\<rparr>) | Inr x \<Rightarrow> (Some x, m))"

definition buffer_sector :: "int \<Rightarrow> (string \<times> json) list \<Rightarrow> real \<Rightarrow> materialiser \<Rightarrow> unit res \<times> materialiser" where
  "buffer_sector lap d at_s m =
     (case as_int (map_of d ''sector'') of
        Inl e \<Rightarrow> (Inl e, m)
      | Inr None \<Rightarrow> (Inr (), m\<lparr>lm_malformed := lm_malformed m + 1\<rparr>)
      | Inr (Some sector) \<Rightarrow>
          (let sectors = (if length (lm_sectors m) \<ge> MAX_BUFFERED_SECTORS
                          then AList.delete (Min (fst ` set (lm_sectors m))) (lm_sectors m)
                          else lm_sectors m)
           in (Inr (), m\<lparr>lm_sectors := AList.update (lap, sector)
                 \<lparr>sr_sector = sector, sr_split_time_s = as_float (map_of d ''split_time''), sr_crossed_at = at_s\<rparr> sectors\<rparr>)))"

definition complete_lap :: "int \<Rightarrow> (string \<times> json) list \<Rightarrow> real \<Rightarrow> materialiser \<Rightarrow> lap_row res \<times> materialiser" where
  "complete_lap lap d at_s m =
     (let rows = map snd (sort_key fst (filter (\<lambda>x. fst (fst x) = lap) (lm_sectors m)));
          m' = m\<lparr>lm_sectors := filter (\<lambda>x. fst (fst x) \<noteq> lap) (lm_sectors m),
                 lm_laps := lm_laps m + 1, lm_sectors_written := lm_sectors_written m + length rows\<rparr>
      in (sbind (as_int (map_of d ''stint_number'')) (\<lambda>stint.
            Inr \<lparr>lr_vehicle_id = lm_vehicle_id m, lr_session_id = as_str (map_of d ''session_id''),
                 lr_stint_number = stint, lr_track_name = as_str (map_of d ''track_name''),
                 lr_lap_number = lap, lr_crossed_at = at_s, lr_lap_time_s = as_float (map_of d ''lap_time''),
                 lr_valid = truthy (case map_of d ''valid'' of None \<Rightarrow> JBool True | Some v \<Rightarrow> v),
                 lr_pit_status = as_str (map_of d ''pit_status''), lr_direction = as_str (map_of d ''direction''),
                 lr_sectors = rows\<rparr>), m'))"

text \<open>A lap number that goes backwards means the engine was rebuilt: forget its sectors.\<close>

definition note_lap_number :: "int \<Rightarrow> materialiser \<Rightarrow> materialiser" where
  "note_lap_number lap m =
     (case lm_highest m of
        Some h \<Rightarrow>
          if lap < h
          then m\<lparr>lm_engine_restarts := lm_engine_restarts m + 1, lm_sectors := [], lm_highest := Some lap\<rparr>
          else m\<lparr>lm_highest := Some (max lap h)\<rparr>
      | None \<Rightarrow> m\<lparr>lm_highest := Some (max lap 0)\<rparr>)"

definition observe_event :: "text_conv \<Rightarrow> json option \<Rightarrow> materialiser \<Rightarrow> row option res \<times> materialiser" where
  "observe_event tc payload m0 =
     (case parse_event tc payload m0 of
        (None, m1) \<Rightarrow> (Inr None, m1)
      | (Some (d, ty, at_s, lap), m1) \<Rightarrow>
          (let m = note_lap_number lap m1 in
           if ty = ''sector_completed'' then
             (case buffer_sector lap d at_s m of (Inl e, m') \<Rightarrow> (Inl e, m') | (Inr _, m') \<Rightarrow> (Inr None, m'))
           else if ty = ''lap_completed'' then
             (case complete_lap lap d at_s m of (Inl e, m') \<Rightarrow> (Inl e, m') | (Inr r, m') \<Rightarrow> (Inr (Some (Lap r)), m'))
           else if ty \<in> {''pit_entry'', ''pit_exit''} then
             (Inr (Some (PitStatus \<lparr>pu_vehicle_id = lm_vehicle_id m, pu_at = at_s,
                pu_pit_status = (case map_of d ''pit_status'' of
                    None \<Rightarrow> ty | Some JNull \<Rightarrow> ty | Some st \<Rightarrow> py_str tc st)\<rparr>)), m)
           else (Inr None, m\<lparr>lm_unknown_types := insert ty (lm_unknown_types m)\<rparr>)))"

lemmas materialiser_op_defs [op_defs] =
  materialiser_init_def parse_event_def buffer_sector_def complete_lap_def note_lap_number_def observe_event_def

section \<open>The sector buffer\<close>

definition materialiser_inv :: "materialiser \<Rightarrow> bool" where
  [inv_defs]: "materialiser_inv m \<longleftrightarrow>
     distinct (map fst (lm_sectors m)) \<and> length (lm_sectors m) \<le> MAX_BUFFERED_SECTORS
     \<and> (\<forall>x \<in> set (lm_sectors m). \<exists>h. lm_highest m = Some h \<and> fst (fst x) \<le> h)"

lemma delete_fresh: "k \<notin> fst ` set al \<Longrightarrow> AList.delete k al = al"
  by (induction al) auto

lemma length_delete_mem:
  "distinct (map fst al) \<Longrightarrow> k \<in> fst ` set al \<Longrightarrow> Suc (length (AList.delete k al)) = length al"
proof (induction al)
  case (Cons x al)
  show ?case
  proof (cases "fst x = k")
    case True
    with Cons.prems(1) have "AList.delete k al = al" by (auto intro: delete_fresh)
    with True show ?thesis by (cases x) simp
  next
    case False
    with Cons show ?thesis by (cases x) auto
  qed
qed simp

lemma length_evict:
  assumes "distinct (map fst al)" and "length al \<le> MAX_BUFFERED_SECTORS"
  shows "length (if length al \<ge> MAX_BUFFERED_SECTORS then AList.delete (Min (fst ` set al)) al else al) < MAX_BUFFERED_SECTORS"
proof (cases "length al \<ge> MAX_BUFFERED_SECTORS")
  case True
  then have "al \<noteq> []" by (auto simp: MAX_BUFFERED_SECTORS_def)
  then have "Min (fst ` set al) \<in> fst ` set al" by (intro Min_in) auto
  from length_delete_mem[OF assms(1) this] True assms(2) show ?thesis by simp
qed simp

lemma note_lap_number_inv:
  assumes "materialiser_inv m"
  shows "materialiser_inv (note_lap_number lap m) \<and> (\<exists>h. lm_highest (note_lap_number lap m) = Some h \<and> lap \<le> h)"
  using assms by (fastforce simp: materialiser_inv_def note_lap_number_def split: option.splits)

lemma buffer_sector_inv:
  assumes "materialiser_inv m" and "\<exists>h. lm_highest m = Some h \<and> lap \<le> h"
  shows "materialiser_inv (snd (buffer_sector lap d at_s m))"
proof (cases "as_int (map_of d ''sector'')")
  case (Inr r)
  show ?thesis
  proof (cases r)
    case (Some sector)
    let ?row = "\<lparr>sr_sector = sector, sr_split_time_s = as_float (map_of d ''split_time''), sr_crossed_at = at_s\<rparr>"
    let ?al = "lm_sectors m"
    let ?ev = "if length ?al \<ge> MAX_BUFFERED_SECTORS then AList.delete (Min (fst ` set ?al)) ?al else ?al"
    have d: "distinct (map fst ?al)" "length ?al \<le> MAX_BUFFERED_SECTORS" using assms(1) by (auto simp: materialiser_inv_def)
    have "length (AList.update (lap, sector) ?row ?ev) \<le> MAX_BUFFERED_SECTORS"
      using length_update_le[of "(lap, sector)" ?row ?ev] length_evict[OF d] by linarith
    moreover have "distinct (map fst (AList.update (lap, sector) ?row ?ev))"
      using d(1) by (intro distinct_update) (simp add: distinct_delete)
    moreover have "\<forall>x \<in> set (AList.update (lap, sector) ?row ?ev). \<exists>h. lm_highest m = Some h \<and> fst (fst x) \<le> h"
    proof
      fix x
      assume "x \<in> set (AList.update (lap, sector) ?row ?ev)"
      then have "x = ((lap, sector), ?row) \<or> x \<in> set ?al"
        using set_update_subset[of "(lap, sector)" ?row ?ev] by (auto simp: AList.delete_eq split: if_splits)
      with assms show "\<exists>h. lm_highest m = Some h \<and> fst (fst x) \<le> h" by (auto simp: materialiser_inv_def)
    qed
    ultimately show ?thesis using Inr Some by (simp add: buffer_sector_def materialiser_inv_def Let_def)
  qed (use assms Inr in \<open>simp add: buffer_sector_def materialiser_inv_def\<close>)
qed (use assms in \<open>simp add: buffer_sector_def\<close>)

lemma complete_lap_inv: "materialiser_inv m \<Longrightarrow> materialiser_inv (snd (complete_lap lap d at_s m))"
  by (auto simp: complete_lap_def materialiser_inv_def Let_def distinct_map_filter
      intro: order_trans[OF length_filter_le])

lemma parse_event_state:
  "parse_event tc payload m = (r, m') \<Longrightarrow> m' = (if r = None then m\<lparr>lm_malformed := lm_malformed m + 1\<rparr> else m)"
  by (auto simp: parse_event_def Let_def split: sum.splits)

fun observe_step :: "text_conv \<Rightarrow> json option \<Rightarrow> materialiser \<Rightarrow> materialiser" where
  "observe_step tc payload m = snd (observe_event tc payload m)"

lemma observe_event_inv:
  assumes "materialiser_inv m"
  shows "materialiser_inv (snd (observe_event tc payload m))"
proof -
  obtain r m1 where p: "parse_event tc payload m = (r, m1)" by fastforce
  have m1: "materialiser_inv m1"
    using parse_event_state[OF p] assms by (simp add: materialiser_inv_def)
  show ?thesis
  proof (cases r)
    case (Some x)
    obtain d ty at_s lap where x: "x = (d, ty, at_s, lap)" by (cases x)
    note n = note_lap_number_inv[OF m1, of lap]
    let ?m = "note_lap_number lap m1"
    have b: "materialiser_inv (snd (buffer_sector lap d at_s ?m))" using n buffer_sector_inv by blast
    have c: "materialiser_inv (snd (complete_lap lap d at_s ?m))" using n complete_lap_inv by blast
    have u: "materialiser_inv (?m\<lparr>lm_unknown_types := insert ty (lm_unknown_types ?m)\<rparr>)"
      using n by (simp add: materialiser_inv_def)
    obtain rb mb where rb: "buffer_sector lap d at_s ?m = (rb, mb)" by fastforce
    obtain rc mc where rc: "complete_lap lap d at_s ?m = (rc, mc)" by fastforce
    have "materialiser_inv mb" "materialiser_inv mc" "materialiser_inv ?m" using b c n rb rc by simp_all
    with u show ?thesis
      by (cases rb; cases rc) (simp_all add: observe_event_def p Some x rb rc Let_def)
  qed (use p m1 in \<open>simp add: observe_event_def\<close>)
qed

interpretation lm: step_machine "observe_step tc" materialiser_inv
  by unfold_locales (simp add: observe_event_inv)

section \<open>Events of one lap\<close>

definition time_ok :: "real \<Rightarrow> bool" where
  "time_ok t \<longleftrightarrow> -62135596800 \<le> py_round_digits t 6 \<and> py_round_digits t 6 < 253402300800"

text \<open>A sector or lap event as the car encodes it.\<close>

definition sector_event :: "(string \<times> json) list \<Rightarrow> int \<Rightarrow> int \<Rightarrow> real \<Rightarrow> real \<Rightarrow> bool" where
  "sector_event d lap sector split t \<longleftrightarrow>
     map_of d ''type'' = Some (JStr ''sector_completed'') \<and> map_of d ''time'' = Some (JFloat (Fin t))
     \<and> map_of d ''lap_number'' = Some (JInt lap) \<and> map_of d ''sector'' = Some (JInt sector)
     \<and> map_of d ''split_time'' = Some (JFloat (Fin split)) \<and> time_ok t"

definition lap_event :: "(string \<times> json) list \<Rightarrow> int \<Rightarrow> real \<Rightarrow> bool \<Rightarrow> real \<Rightarrow> bool" where
  "lap_event d lap lap_time valid t \<longleftrightarrow>
     map_of d ''type'' = Some (JStr ''lap_completed'') \<and> map_of d ''time'' = Some (JFloat (Fin t))
     \<and> map_of d ''lap_number'' = Some (JInt lap) \<and> map_of d ''lap_time'' = Some (JFloat (Fin lap_time))
     \<and> map_of d ''valid'' = Some (JBool valid) \<and> time_ok t
     \<and> (\<forall>x. map_of d ''stint_number'' = Some x \<longrightarrow> (\<exists>n. x = JInt n))"

definition row_of :: "int \<Rightarrow> real \<Rightarrow> real \<Rightarrow> sector_row" where
  "row_of sector split t = \<lparr>sr_sector = sector, sr_split_time_s = Some (Fin split), sr_crossed_at = py_round_digits t 6\<rparr>"

text \<open>The numbering has not gone backwards.\<close>

definition numbering_ok :: "materialiser \<Rightarrow> int \<Rightarrow> bool" where
  "numbering_ok m lap \<longleftrightarrow> 0 \<le> lap \<and> (\<forall>h. lm_highest m = Some h \<longrightarrow> h \<le> lap)"

lemma observe_sector_event:
  assumes "sector_event d lap sector split t" and "numbering_ok m lap"
    and "length (lm_sectors m) < MAX_BUFFERED_SECTORS" and "(lap, sector) \<notin> fst ` set (lm_sectors m)"
  shows "observe_event tc (Some (JDict d)) m =
    (Inr None, m\<lparr>lm_highest := Some lap, lm_sectors := lm_sectors m @ [((lap, sector), row_of sector split t)]\<rparr>)"
proof -
  have p: "parse_event tc (Some (JDict d)) m = (Some (d, ''sector_completed'', py_round_digits t 6, lap), m)"
    using assms(1) by (simp add: sector_event_def parse_event_def fromtimestamp_def time_ok_def Let_def)
  have n: "note_lap_number lap m = m\<lparr>lm_highest := Some lap\<rparr>"
    using assms(2) by (auto simp: numbering_ok_def note_lap_number_def max_def split: option.splits)
  have u: "AList.update (lap, sector) r (lm_sectors m) = lm_sectors m @ [((lap, sector), r)]" for r
    using assms(4) by (rule update_fresh)
  show ?thesis
    using assms(1,3) by (simp add: observe_event_def p n buffer_sector_def sector_event_def row_of_def Let_def u)
qed

fun materialise :: "text_conv \<Rightarrow> json option list \<Rightarrow> materialiser \<Rightarrow> row list res \<times> materialiser" where
  "materialise tc [] m = (Inr [], m)"
| "materialise tc (p # ps) m =
     (case observe_event tc p m of
        (Inl e, m1) \<Rightarrow> (Inl e, m1)
      | (Inr r, m1) \<Rightarrow>
          (case materialise tc ps m1 of
             (Inl e, m2) \<Rightarrow> (Inl e, m2)
           | (Inr rs, m2) \<Rightarrow> (Inr (case r of None \<Rightarrow> rs | Some x \<Rightarrow> x # rs), m2)))"

text \<open>A sector event with its sector number, split and time.\<close>

type_synonym sector_data = "(string \<times> json) list \<times> int \<times> real \<times> real"

abbreviation sec_of :: "sector_data \<Rightarrow> int" where "sec_of x \<equiv> fst (snd x)"

definition is_sector_of :: "int \<Rightarrow> sector_data \<Rightarrow> bool" where
  "is_sector_of lap x \<longleftrightarrow> sector_event (fst x) lap (sec_of x) (fst (snd (snd x))) (snd (snd (snd x)))"

definition sector_row_of :: "sector_data \<Rightarrow> sector_row" where
  "sector_row_of x = row_of (sec_of x) (fst (snd (snd x))) (snd (snd (snd x)))"

definition entry_of :: "int \<Rightarrow> sector_data \<Rightarrow> (int \<times> int) \<times> sector_row" where
  "entry_of lap x = ((lap, sec_of x), sector_row_of x)"

lemma insort_key_map: "insort_key f (g x) (map g ys) = map g (insort_key (\<lambda>x. f (g x)) x ys)"
  by (induction ys) auto

lemma sort_key_map: "sort_key f (map g xs) = map g (sort_key (\<lambda>x. f (g x)) xs)"
  by (induction xs) (simp_all add: insort_key_map)

lemma sort_key_lap: "sort_key (\<lambda>x. (lap :: int, k x :: int)) xs = sort_key k xs"
proof -
  have "insort_key (\<lambda>x. (lap, k x)) y ys = insort_key k y ys" for y ys
    by (induction ys) auto
  then show ?thesis by (induction xs) simp_all
qed

lemma sorted_rows: "map snd (sort_key fst (map (entry_of lap) xs)) = map sector_row_of (sort_key sec_of xs)"
proof -
  have "sort_key (\<lambda>x. fst (entry_of lap x)) xs = sort_key sec_of xs"
    unfolding entry_of_def fst_conv by (rule sort_key_lap)
  then show ?thesis by (simp add: sort_key_map entry_of_def comp_def)
qed

lemma materialise_sectors:
  assumes "\<forall>x \<in> set xs. is_sector_of lap x"
    and "distinct (map sec_of xs)"
    and "\<forall>k \<in> fst ` set (lm_sectors m). fst k = lap \<longrightarrow> snd k \<notin> sec_of ` set xs"
    and "length (lm_sectors m) + length xs \<le> MAX_BUFFERED_SECTORS" and "numbering_ok m lap"
  shows "materialise tc (map (\<lambda>x. Some (JDict (fst x))) xs @ ps) m =
    materialise tc ps (m\<lparr>lm_highest := (if xs = [] then lm_highest m else Some lap),
                         lm_sectors := lm_sectors m @ map (entry_of lap) xs\<rparr>)"
  using assms
proof (induction xs arbitrary: m)
  case (Cons x xs)
  obtain d sector split t where x: "x = (d, sector, split, t)" by (cases x)
  let ?m = "m\<lparr>lm_highest := Some lap, lm_sectors := lm_sectors m @ [entry_of lap x]\<rparr>"
  have "(lap, sector) \<notin> fst ` set (lm_sectors m)" using Cons.prems(3) x by force
  moreover have "sector_event d lap sector split t" using Cons.prems(1) x by (simp add: is_sector_of_def)
  ultimately have o: "observe_event tc (Some (JDict d)) m = (Inr None, ?m)"
    using observe_sector_event[of d lap sector split t m tc] Cons.prems(4,5) x by (simp add: entry_of_def sector_row_of_def)
  have "numbering_ok ?m lap" using Cons.prems(5) by (simp add: numbering_ok_def)
  moreover have "\<forall>k \<in> fst ` set (lm_sectors ?m). fst k = lap \<longrightarrow> snd k \<notin> sec_of ` set xs"
    using Cons.prems(2,3) x by (auto simp: entry_of_def)
  ultimately have "materialise tc (map (\<lambda>x. Some (JDict (fst x))) xs @ ps) ?m =
      materialise tc ps (?m\<lparr>lm_highest := (if xs = [] then lm_highest ?m else Some lap),
                           lm_sectors := lm_sectors ?m @ map (entry_of lap) xs\<rparr>)"
    using Cons.IH[of ?m] Cons.prems(1,2,4) by simp
  with o x show ?case by (simp split: prod.splits sum.splits)
qed simp

lemma lap_row_of_events:
  assumes "\<forall>x \<in> set xs. is_sector_of lap x"
    and "distinct (map sec_of xs)"
    and "\<forall>k \<in> fst ` set (lm_sectors m). fst k \<noteq> lap"
    and "length (lm_sectors m) + length xs \<le> 64" and "numbering_ok m lap"
    and "lap_event w lap lap_time valid t"
  shows "\<exists>r m'. materialise tc (map (\<lambda>x. Some (JDict (fst x))) xs @ [Some (JDict w)]) m = (Inr [Lap r], m')
    \<and> lr_lap_number r = lap \<and> lr_lap_time_s r = Some (Fin lap_time) \<and> lr_valid r = valid
    \<and> lr_sectors r = map sector_row_of (sort_key sec_of xs)
    \<and> lm_sectors m' = lm_sectors m"
proof -
  let ?m = "m\<lparr>lm_highest := (if xs = [] then lm_highest m else Some lap), lm_sectors := lm_sectors m @ map (entry_of lap) xs\<rparr>"
  have run: "materialise tc (map (\<lambda>x. Some (JDict (fst x))) xs @ [Some (JDict w)]) m = materialise tc [Some (JDict w)] ?m"
    by (rule materialise_sectors) (use assms(1-5) in \<open>auto simp: MAX_BUFFERED_SECTORS_def\<close>)
  have p: "parse_event tc (Some (JDict w)) ?m = (Some (w, ''lap_completed'', py_round_digits t 6, lap), ?m)"
    using assms(6) by (simp add: lap_event_def parse_event_def fromtimestamp_def time_ok_def Let_def)
  have n: "note_lap_number lap ?m = ?m\<lparr>lm_highest := Some lap\<rparr>"
    using assms(5) by (auto simp: numbering_ok_def note_lap_number_def max_def split: option.splits)
  obtain stint where st: "as_int (map_of w ''stint_number'') = Inr stint"
    using assms(6) by (cases "map_of w ''stint_number''") (auto simp: lap_event_def)
  have mine: "filter (\<lambda>x. fst (fst x) = lap) (lm_sectors m @ map (entry_of lap) xs) = map (entry_of lap) xs"
    using assms(3) by (simp add: filter_map comp_def entry_of_def filter_empty_conv)
  have others: "filter (\<lambda>x. fst (fst x) \<noteq> lap) (lm_sectors m @ map (entry_of lap) xs) = lm_sectors m"
    using assms(3) by (simp add: filter_map comp_def entry_of_def filter_id_conv)
  show ?thesis
    using assms(6) st by (simp add: run observe_event_def p n complete_lap_def mine others sorted_rows lap_event_def Let_def
        del: filter_append)
qed

section \<open>Properties\<close>

text \<open>
  The sector buffer after any sequence of payloads, malformed ones included: at most 64 sectors,
  one per lap and sector number, none of a lap beyond the highest number seen.
\<close>
theorem sector_buffer_bounded:
  assumes "m = fold (observe_step tc) payloads (materialiser_init vehicle)"
  shows "length (lm_sectors m) \<le> 64 \<and> distinct (map fst (lm_sectors m))
    \<and> (\<forall>((lap, sector), row) \<in> set (lm_sectors m). \<exists>h. lm_highest m = Some h \<and> lap \<le> h)"
proof -
  have "materialiser_inv m" unfolding assms
    by (rule lm.run_inv) (simp add: materialiser_inv_def materialiser_init_def)
  then show ?thesis by (auto simp: materialiser_inv_def MAX_BUFFERED_SECTORS_def)
qed

theorem sector_buffer_bounded_witness:
  "length (lm_sectors (fold (observe_step \<lparr>float_of_str = (\<lambda>_. None), int_of_str = (\<lambda>_. None), str_of = (\<lambda>_. [])\<rparr>)
      [None, Some JNull] (materialiser_init ''car1''))) \<le> 64"
  using sector_buffer_bounded[OF refl] by blast

text \<open>
  A lap row collects the sectors of its lap: whatever other laps have buffered, feeding the sector
  events of a lap (distinct sectors, the numbering not going backwards, room in the buffer) and then
  its lap event yields exactly one row, with the lap's number, time and validity and one sector row
  per event in sector order; the other laps' sectors stay buffered.
\<close>
theorem lap_row_collects_sectors:
  assumes "\<forall>x \<in> set xs. is_sector_of lap x"
    and "distinct (map sec_of xs)"
    and "\<forall>k \<in> fst ` set (lm_sectors m). fst k \<noteq> lap"
    and "length (lm_sectors m) + length xs \<le> 64" and "numbering_ok m lap"
    and "lap_event w lap lap_time valid t"
  shows "\<exists>r m'. materialise tc (map (\<lambda>x. Some (JDict (fst x))) xs @ [Some (JDict w)]) m = (Inr [Lap r], m')
    \<and> lr_lap_number r = lap \<and> lr_lap_time_s r = Some (Fin lap_time) \<and> lr_valid r = valid
    \<and> lr_sectors r = map sector_row_of (sort_key sec_of xs)
    \<and> lm_sectors m' = lm_sectors m"
  by (rule lap_row_of_events[OF assms])

definition wit_sector :: "int \<Rightarrow> real \<Rightarrow> real \<Rightarrow> sector_data" where
  "wit_sector sec split t =
     ([(''type'', JStr ''sector_completed''), (''time'', JFloat (Fin t)), (''lap_number'', JInt 3),
       (''sector'', JInt sec), (''split_time'', JFloat (Fin split))], sec, split, t)"

definition wit_lap_event :: "(string \<times> json) list" where
  "wit_lap_event =
     [(''type'', JStr ''lap_completed''), (''time'', JFloat (Fin 100)), (''lap_number'', JInt 3),
      (''lap_time'', JFloat (Fin 61)), (''valid'', JBool True)]"

definition wit_conv :: text_conv where
  "wit_conv = \<lparr>float_of_str = (\<lambda>_. None), int_of_str = (\<lambda>_. None), str_of = (\<lambda>_. [])\<rparr>"

lemma wit_time_ok: "time_ok (of_int k)" if "0 \<le> k" "k \<le> 1000"
proof -
  have "py_round_digits (of_int k) 6 = of_int k"
    using py_round_of_int[of "k * 1000000"] by (simp add: py_round_digits_def)
  with that show ?thesis by (simp add: time_ok_def)
qed

theorem lap_row_collects_sectors_witness:
  "\<exists>r m'. materialise wit_conv (map (\<lambda>x. Some (JDict (fst x))) [wit_sector 2 31 100, wit_sector 1 30 69]
        @ [Some (JDict wit_lap_event)]) (materialiser_init ''car1'') = (Inr [Lap r], m')
    \<and> lr_lap_number r = 3 \<and> map sr_sector (lr_sectors r) = [1, 2]"
proof -
  have ok: "time_ok 100" "time_ok 69" using wit_time_ok[of 100] wit_time_ok[of 69] by simp_all
  have "\<forall>x \<in> set [wit_sector 2 31 100, wit_sector 1 30 69]. is_sector_of 3 x"
    by (simp add: is_sector_of_def sector_event_def wit_sector_def ok)
  moreover have "lap_event wit_lap_event 3 61 True 100" by (simp add: lap_event_def wit_lap_event_def ok)
  ultimately obtain r m' where
    "materialise wit_conv (map (\<lambda>x. Some (JDict (fst x))) [wit_sector 2 31 100, wit_sector 1 30 69]
        @ [Some (JDict wit_lap_event)]) (materialiser_init ''car1'') = (Inr [Lap r], m')"
    "lr_lap_number r = 3" "lr_sectors r = map sector_row_of (sort_key sec_of [wit_sector 2 31 100, wit_sector 1 30 69])"
    using lap_row_collects_sectors[of "[wit_sector 2 31 100, wit_sector 1 30 69]" 3 "materialiser_init ''car1''"
        wit_lap_event 61 True 100 wit_conv]
    by (auto simp: materialiser_init_def numbering_ok_def wit_sector_def)
  then show ?thesis by (simp add: wit_sector_def sector_row_of_def row_of_def)
qed

text \<open>
  A full buffer loses a sector it has room for: re-reporting a sector that is already buffered
  evicts the oldest one although the dict would not grow.
\<close>
theorem full_buffer_evicts_on_overwrite:
  assumes "materialiser_inv m" and "length (lm_sectors m) = 64"
    and "map_of d ''sector'' = Some (JInt sector)" and "(lap, sector) \<in> fst ` set (lm_sectors m)"
    and "(lap, sector) \<noteq> Min (fst ` set (lm_sectors m))"
  shows "length (lm_sectors (snd (buffer_sector lap d at_s m))) = 63"
proof -
  let ?al = "lm_sectors m" and ?k = "Min (fst ` set (lm_sectors m))"
  have "?al \<noteq> []" using assms(2) by auto
  then have "?k \<in> fst ` set ?al" by (intro Min_in) auto
  moreover have d: "distinct (map fst ?al)" using assms(1) by (simp add: materialiser_inv_def)
  ultimately have "length (AList.delete ?k ?al) = 63" using length_delete_mem[OF d, of ?k] assms(2) by simp
  moreover have "(lap, sector) \<in> fst ` set (AList.delete ?k ?al)"
    using assms(4,5) by (force simp: AList.delete_eq)
  ultimately show ?thesis
    using assms(2,3) by (simp add: buffer_sector_def MAX_BUFFERED_SECTORS_def Let_def length_update_mem)
qed

definition wit_full :: materialiser where
  "wit_full = (materialiser_init ''car1'')\<lparr>lm_highest := Some 1,
     lm_sectors := map (\<lambda>k. ((1, int k), row_of (int k) 1 0)) [0..<64]\<rparr>"

theorem full_buffer_evicts_on_overwrite_witness:
  "length (lm_sectors (snd (buffer_sector 1 [(''sector'', JInt 63)] 0 wit_full))) = 63"
proof (rule full_buffer_evicts_on_overwrite)
  show "materialiser_inv wit_full"
    by (auto simp: materialiser_inv_def wit_full_def MAX_BUFFERED_SECTORS_def distinct_map inj_on_def)
  have keys: "fst ` set (lm_sectors wit_full) = (\<lambda>k. (1, int k)) ` {0..<64}"
    by (auto simp: wit_full_def image_iff)
  show "(1, 63) \<in> fst ` set (lm_sectors wit_full)" unfolding keys by (auto intro: image_eqI[of _ _ 63])
  have "Min (fst ` set (lm_sectors wit_full)) \<le> (1, int 0)"
    unfolding keys by (intro Min_le) auto
  then show "(1, 63) \<noteq> Min (fst ` set (lm_sectors wit_full))"
    by (metis less_eq_prod_simp linorder_not_le of_nat_0 zero_less_numeral order_less_irrefl)
qed (simp_all add: wit_full_def)

end
