(* ===== verification/Lap_Path.thy ===== *)
theory Lap_Path
  imports Timing_App Lap_Materialiser
begin

text \<open>
  A lap from the car's timing engine to the pit's lap table: the events of one lap, encoded by
  \<open>LapTimingApp._encode_event\<close>, folded by \<open>LapMaterialiser.observe\<close>.
\<close>

abbreviation stamp_key :: "(string \<times> json) list \<Rightarrow> string \<Rightarrow> (string \<times> json) list \<Rightarrow> (string \<times> json) list" where
  "stamp_key session key payload \<equiv> (case map_of session key of
      None \<Rightarrow> payload | Some JNull \<Rightarrow> payload | Some x \<Rightarrow> AList.update key x payload)"

lemma map_of_stamped:
  assumes "k \<notin> set keys"
  shows "map_of (fold (stamp_key session) keys base) k = map_of base k"
  using assms
proof (induction keys arbitrary: base)
  case (Cons key keys)
  have "map_of (AList.update key x base) k = map_of base k" for x
    using Cons.prems by (simp add: map_of_update)
  with Cons show ?case by (auto split: option.splits json.splits)
qed simp

lemma map_of_stamped_keys:
  assumes "map_of base k = None" and "\<And>x. map_of session k = Some x \<Longrightarrow> P x"
  shows "map_of (fold (stamp_key session) keys base) k = Some y \<longrightarrow> P y"
  using assms(1)
proof (induction keys arbitrary: base rule: rev_induct)
  case (snoc key keys)
  let ?r = "fold (stamp_key session) keys base"
  have "map_of (AList.update key x ?r) k = Some y \<longrightarrow> P y" if "map_of session key = Some x" for x
    using snoc that assms(2) by (auto simp: map_of_update)
  with snoc show ?case by (auto split: option.splits json.splits)
qed simp

definition event_dict :: "(string \<times> json) list \<Rightarrow> timing_event \<Rightarrow> (string \<times> json) list" where
  "event_dict session v = (case encode_event session v of JDict d \<Rightarrow> d | _ \<Rightarrow> [])"

lemma encode_event_dict: "encode_event session v = JDict (event_dict session v)"
  by (simp add: event_dict_def encode_event_def)

lemma event_dict_fields:
  "map_of (event_dict session v) ''type'' = Some (JStr (event_type_value (te_type v)))"
  "map_of (event_dict session v) ''time'' = Some (JFloat (Fin (te_time v)))"
  "map_of (event_dict session v) ''lap_number'' = Some (JInt (te_lap_number v))"
  "map_of (event_dict session v) ''sector'' = Some (JInt (te_sector v))"
  "map_of (event_dict session v) ''split_time'' = Some (JFloat (Fin (te_split_time v)))"
  "map_of (event_dict session v) ''lap_time'' = Some (JFloat (Fin (te_lap_time v)))"
  "map_of (event_dict session v) ''valid'' = Some (JBool (te_valid v))"
  unfolding event_dict_def encode_event_def json.case
  by (subst map_of_stamped; simp add: SESSION_STAMP_KEYS_def)+

lemma event_dict_stint:
  assumes "\<And>x. map_of session ''stint_number'' = Some x \<Longrightarrow> P x"
    and "map_of (event_dict session v) ''stint_number'' = Some y"
  shows "P y"
proof -
  have "\<exists>base. map_of base ''stint_number'' = None \<and> event_dict session v = fold (stamp_key session) SESSION_STAMP_KEYS base"
    unfolding event_dict_def encode_event_def json.case by (intro exI conjI, rule_tac [2] refl) simp
  with map_of_stamped_keys[of _ "''stint_number''" session P SESSION_STAMP_KEYS y] assms show ?thesis by fastforce
qed

section \<open>Properties\<close>

text \<open>
  C12. A lap the car completes becomes one row at the pit: the sector events since the lap began and
  the lap event, encoded on the car and folded by a materialiser that has seen nothing of that lap,
  give exactly one lap row, with the car's lap number, lap time and validity, whose sector rows are
  the car's sectors in order with its splits; the splits sum to the lap time. Valid laps of tracks
  with at most 64 timing points.
\<close>
theorem lap_reaches_pit:
  assumes "fold track_step points (engine_init lines reentry min_lap gate None, []) = (e, sofar)"
    and "process_point gps e = (evs, e')" and "w \<in> set evs" and "te_type w = LAP_COMPLETED" and "te_valid w"
    and "sectors = sofar @ sector_events evs" and "\<forall>v \<in> set (w # sectors). time_ok (te_time v)"
    and "\<forall>k \<in> fst ` set (lm_sectors m). fst k \<noteq> te_lap_number w"
    and "length (lm_sectors m) + n_points e \<le> 64" and "numbering_ok m (te_lap_number w)"
    and "\<forall>x. map_of session ''stint_number'' = Some x \<longrightarrow> (\<exists>n. x = JInt n)"
  shows "\<exists>r m'. materialise tc (map (\<lambda>v. Some (encode_event session v)) (sectors @ [w])) m = (Inr [Lap r], m')
    \<and> lr_lap_number r = te_lap_number w \<and> lr_lap_time_s r = Some (Fin (te_lap_time w)) \<and> lr_valid r
    \<and> map sr_sector (lr_sectors r) = map int [1..<Suc (n_points e)]
    \<and> map sr_split_time_s (lr_sectors r) = map (\<lambda>v. Some (Fin (te_split_time v))) sectors
    \<and> te_lap_time w = splits_of sectors"
proof -
  have lc: "lap_complete e sectors w" using run_lap_complete[OF assms(1-4)] assms(6) by simp
  then have nums: "\<forall>v \<in> set sectors. te_lap_number v = te_lap_number w \<and> te_type v = SECTOR_COMPLETED"
    and secs: "map te_sector sectors = map int [1..<Suc (n_points e)]" and sum: "te_lap_time w = splits_of sectors"
    using assms(5) by (auto simp: lap_complete_def)
  define xs where "xs = map (\<lambda>v. (event_dict session v, te_sector v, te_split_time v, te_time v)) sectors"
  have sec_xs: "map sec_of xs = map int [1..<Suc (n_points e)]" using secs by (simp add: xs_def comp_def)
  have ev: "\<forall>x \<in> set xs. is_sector_of (te_lap_number w) x"
    using nums assms(7) by (auto simp: xs_def is_sector_of_def sector_event_def event_dict_fields)
  have dist: "distinct (map sec_of xs)" unfolding sec_xs by (simp add: distinct_map)
  have len: "length xs = n_points e" using arg_cong[OF sec_xs, of length] by (simp del: upt_Suc)
  have lev: "lap_event (event_dict session w) (te_lap_number w) (te_lap_time w) True (te_time w)"
    using assms(4,5,7,11) event_dict_stint[of session "\<lambda>x. \<exists>n. x = JInt n" w]
    by (auto simp: lap_event_def event_dict_fields)
  have srt: "sort_key sec_of xs = xs"
  proof (rule sort_key_id_if_sorted)
    show "sorted (map sec_of xs)" unfolding sec_xs by (simp add: sorted_iff_nth_mono del: upt_Suc)
  qed
  have rows: "map sr_sector (map sector_row_of xs) = map int [1..<Suc (n_points e)]"
    "map sr_split_time_s (map sector_row_of xs) = map (\<lambda>v. Some (Fin (te_split_time v))) sectors"
    using secs by (simp_all add: xs_def sector_row_of_def row_of_def comp_def)
  have pay: "map (\<lambda>v. Some (encode_event session v)) (sectors @ [w]) =
      map (\<lambda>x. Some (JDict (fst x))) xs @ [Some (JDict (event_dict session w))]"
    by (simp add: xs_def encode_event_dict)
  obtain r m' where "materialise tc (map (\<lambda>x. Some (JDict (fst x))) xs @ [Some (JDict (event_dict session w))]) m =
      (Inr [Lap r], m')" "lr_lap_number r = te_lap_number w" "lr_lap_time_s r = Some (Fin (te_lap_time w))"
      "lr_valid r" "lr_sectors r = map sector_row_of (sort_key sec_of xs)"
    using lap_row_of_events[OF ev dist assms(8) _ assms(10) lev, of tc] len assms(9) by auto
  then show ?thesis unfolding pay using rows srt sum by auto
qed

lemma wit_lap_run:
  "(let (e, sofar) = fold track_step (take 3 wit_fixes) (wit_engine, []); (evs, e') = process_point (wit_fixes ! 3) e
    in (n_points e, map (\<lambda>v. (te_type v, te_time v, te_valid v, te_lap_number v)) sofar,
        map (\<lambda>v. (te_type v, te_time v, te_valid v, te_lap_number v)) evs)) =
   (2, [(SECTOR_COMPLETED, 106, True, 1)], [(SECTOR_COMPLETED, 141, True, 1), (LAP_COMPLETED, 141, True, 1)])"
  by (simp add: wit_fixes_def process_point_def wit_engine_points wit_crossing wit_name eval_nat_numeral
      accept_crossing_def handle_lap_point_def start_new_lap_def timing_state_default_def carry_def sector_events_def Let_def)

theorem lap_reaches_pit_witness:
  "\<exists>e sofar evs e' w r m'. fold track_step (take 3 wit_fixes) (wit_engine, []) = (e, sofar)
    \<and> process_point (wit_fixes ! 3) e = (evs, e') \<and> w \<in> set evs
    \<and> materialise wit_conv (map (\<lambda>v. Some (encode_event [] v)) ((sofar @ sector_events evs) @ [w])) (materialiser_init ''car1'')
        = (Inr [Lap r], m')
    \<and> lr_lap_number r = te_lap_number w \<and> map sr_sector (lr_sectors r) = [1, 2]"
proof -
  obtain e sofar where a: "fold track_step (take 3 wit_fixes) (wit_engine, []) = (e, sofar)" by fastforce
  obtain evs e' where b: "process_point (wit_fixes ! 3) e = (evs, e')" by fastforce
  have n: "n_points e = 2"
    and s: "map (\<lambda>v. (te_type v, te_time v, te_valid v, te_lap_number v)) sofar = [(SECTOR_COMPLETED, 106, True, 1)]"
    and v: "map (\<lambda>v. (te_type v, te_time v, te_valid v, te_lap_number v)) evs
      = [(SECTOR_COMPLETED, 141, True, 1), (LAP_COMPLETED, 141, True, 1)]"
    using wit_lap_run a b by simp_all
  obtain w where w: "w \<in> set evs" "te_type w = LAP_COMPLETED" "te_valid w" "te_lap_number w = 1" "te_time w = 141"
    using v by (auto intro: that)
  have ok: "time_ok 106" "time_ok 141" using wit_time_ok[of 106] wit_time_ok[of 141] by simp_all
  have times: "\<forall>u \<in> set (w # (sofar @ sector_events evs)). time_ok (te_time u)"
    using s v w ok by (auto simp: sector_events_def split: if_splits)
  obtain r m' where "materialise wit_conv (map (\<lambda>v. Some (encode_event [] v)) ((sofar @ sector_events evs) @ [w]))
      (materialiser_init ''car1'') = (Inr [Lap r], m')" "lr_lap_number r = te_lap_number w"
      "map sr_sector (lr_sectors r) = map int [1..<Suc (n_points e)]"
    using lap_reaches_pit[OF a[unfolded wit_engine_def] b w(1-3) refl times, of "materialiser_init ''car1''" "[]" wit_conv] n w(4)
    by (auto simp: materialiser_init_def numbering_ok_def)
  then show ?thesis using a b w(1) n by (auto simp: eval_nat_numeral)
qed

end
