(* ===== verification/Session_State.thy ===== *)
theory Session_State
  imports Py_Values
begin

text \<open>
  \<^verbatim>\<open>src/pit/session_control/state.py\<close>: the session and driver-stint state machine, its wire payload,
  and the dictionary it is restored from after a restart.

  \<open>now_ms\<close> is resolved by the caller: an operation takes the time it stamps, \<open>_now_ms()\<close> included.
  A session id is the calendar stamp of the C library's \<open>strftime\<close>, here the argument \<open>stamp\<close>, then
  the hex digits of \<open>uuid4()\<close>, the argument \<open>uid\<close>, then the session type.
\<close>

section \<open>State\<close>

definition SESSION_TYPES :: "string list" where
  "SESSION_TYPES = [''practice'', ''qualifying'', ''race'', ''test'']"

record closed_stint =
  cs_driver :: string
  cs_number :: int
  cs_start :: int
  cs_end :: int

record session_state =
  ses_id :: string
  ses_type :: string
  ses_driver :: string
  ses_track :: string
  ses_car :: string
  ses_stint_number :: int
  ses_start_ms :: int
  ses_stint_start_ms :: int
  ses_status :: string
  ses_stints :: "closed_stint list"

definition session_none :: session_state where
  "session_none = \<lparr>ses_id = [], ses_type = [], ses_driver = [], ses_track = [], ses_car = [],
     ses_stint_number = 0, ses_start_ms = 0, ses_stint_start_ms = 0, ses_status = ''none'', ses_stints = []\<rparr>"

section \<open>Operations\<close>

text \<open>\<open>payload\<close> and \<open>to_dict\<close>; \<open>clk\<close> is \<open>_now_ms()\<close>.\<close>

definition payload :: "int option \<Rightarrow> int \<Rightarrow> session_state \<Rightarrow> (string \<times> json) list" where
  "payload now_ms clk s =
     [(''session_id'', JStr (ses_id s)), (''session_type'', JStr (ses_type s)), (''driver'', JStr (ses_driver s)),
      (''track_name'', JStr (ses_track s)), (''car'', JStr (ses_car s)), (''stint_number'', JInt (ses_stint_number s)),
      (''session_start'', JInt (ses_start_ms s)), (''stint_start'', JInt (ses_stint_start_ms s)),
      (''status'', JStr (ses_status s)), (''timestamp'', JInt (case now_ms of None \<Rightarrow> clk | Some n \<Rightarrow> n))]"

definition stint_dict :: "closed_stint \<Rightarrow> json" where
  "stint_dict c = JDict [(''driver'', JStr (cs_driver c)), (''stint_number'', JInt (cs_number c)),
     (''start_ms'', JInt (cs_start c)), (''end_ms'', JInt (cs_end c))]"

definition session_to_dict :: "int \<Rightarrow> session_state \<Rightarrow> (string \<times> json) list" where
  "session_to_dict clk s = AList.update ''stints'' (JList (map stint_dict (ses_stints s))) (payload None clk s)"

definition start_session ::
  "(int \<Rightarrow> string res) \<Rightarrow> string \<Rightarrow> string \<Rightarrow> string \<Rightarrow> string \<Rightarrow> string \<Rightarrow> int \<Rightarrow> session_state
    \<Rightarrow> (string \<times> json) list res \<times> session_state" where
  [op_defs]: "start_session stamp uid session_type driver track_name car now s =
     (if ses_status s = ''active'' then (Inl SessionError, s)
      else let session_type = lower (strip session_type); driver = strip driver in
        if session_type \<notin> set SESSION_TYPES then (Inl SessionError, s)
        else if driver = [] then (Inl SessionError, s)
        else case stamp now of
          Inl e \<Rightarrow> (Inl e, s)
        | Inr st \<Rightarrow>
            (let s' = \<lparr>ses_id = st @ ''-'' @ uid @ ''-'' @ session_type, ses_type = session_type, ses_driver = driver,
                       ses_track = strip track_name, ses_car = strip car, ses_stint_number = 1,
                       ses_start_ms = now, ses_stint_start_ms = now, ses_status = ''active'', ses_stints = []\<rparr>
             in (Inr (payload (Some now) now s'), s')))"

definition close_stint :: "int \<Rightarrow> session_state \<Rightarrow> closed_stint" where
  "close_stint now s = \<lparr>cs_driver = ses_driver s, cs_number = ses_stint_number s,
     cs_start = ses_stint_start_ms s, cs_end = now\<rparr>"

definition change_driver :: "string \<Rightarrow> int \<Rightarrow> session_state \<Rightarrow> (string \<times> json) list res \<times> session_state" where
  [op_defs]: "change_driver driver now s =
     (if ses_status s \<noteq> ''active'' then (Inl SessionError, s)
      else let driver = strip driver in
        if driver = [] then (Inl SessionError, s)
        else if driver = ses_driver s then (Inl SessionError, s)
        else if now < ses_stint_start_ms s then (Inl SessionError, s)
        else let s' = s\<lparr>ses_stints := ses_stints s @ [close_stint now s], ses_driver := driver,
                        ses_stint_number := ses_stint_number s + 1, ses_stint_start_ms := now\<rparr>
             in (Inr (payload (Some now) now s'), s'))"

definition amend_stint_start :: "int \<Rightarrow> session_state \<Rightarrow> (string \<times> json) list res \<times> session_state" where
  [op_defs]: "amend_stint_start at_ms s =
     (if ses_status s \<noteq> ''active'' then (Inl SessionError, s)
      else if ses_stint_number s < 2 then (Inl SessionError, s)
      else if ses_stints s = [] then (Inl IndexError, s)
      else let prev = last (ses_stints s) in
        if at_ms < cs_start prev then (Inl SessionError, s)
        else let s' = s\<lparr>ses_stints := butlast (ses_stints s) @ [prev\<lparr>cs_end := at_ms\<rparr>], ses_stint_start_ms := at_ms\<rparr>
             in (Inr (payload (Some at_ms) at_ms s'), s'))"

definition end_session :: "int \<Rightarrow> session_state \<Rightarrow> (string \<times> json) list res \<times> session_state" where
  [op_defs]: "end_session now s =
     (if ses_status s \<noteq> ''active'' then (Inl SessionError, s)
      else if now < ses_stint_start_ms s then (Inl SessionError, s)
      else let s' = s\<lparr>ses_stints := ses_stints s @ [close_stint now s], ses_status := ''ended''\<rparr>
           in (Inr (payload (Some now) now s'), s'))"

section \<open>Restoring\<close>

definition required_string :: "(string \<times> json) list \<Rightarrow> string \<Rightarrow> string res" where
  "required_string d k =
     (case jget d k of JStr v \<Rightarrow> if strip v = [] then Inl ValueError else Inr (strip v) | _ \<Rightarrow> Inl ValueError)"

definition optional_string :: "(string \<times> json) list \<Rightarrow> string \<Rightarrow> string res" where
  "optional_string d k = (case jget_or d k (JStr []) of JStr v \<Rightarrow> Inr (strip v) | _ \<Rightarrow> Inl TypeError)"

definition required_integer :: "(string \<times> json) list \<Rightarrow> string \<Rightarrow> int res" where
  "required_integer d k = (case jget d k of JInt n \<Rightarrow> Inr n | _ \<Rightarrow> Inl TypeError)"

text \<open>The loop over the stored stints: the closed stints and the last end.\<close>

fun restore_stints :: "int \<Rightarrow> int \<Rightarrow> json list \<Rightarrow> (closed_stint list \<times> int) res" where
  "restore_stints expected previous_end [] = Inr ([], previous_end)"
| "restore_stints expected previous_end (JDict item # items) =
     sbind (required_integer item ''stint_number'') (\<lambda>number.
     sbind (required_integer item ''start_ms'') (\<lambda>start.
     sbind (required_integer item ''end_ms'') (\<lambda>end_ms.
       if number \<noteq> expected \<or> start < previous_end \<or> end_ms < start then Inl ValueError
       else sbind (required_string item ''driver'') (\<lambda>driver.
            sbind (restore_stints (expected + 1) end_ms items) (\<lambda>(history, final).
              Inr (\<lparr>cs_driver = driver, cs_number = number, cs_start = start, cs_end = end_ms\<rparr> # history, final))))))"
| "restore_stints expected previous_end (_ # items) = Inl TypeError"

text \<open>The final checks and the restored object.\<close>

definition restore_checked ::
  "(string \<times> json) list \<Rightarrow> string \<Rightarrow> string \<Rightarrow> int \<Rightarrow> int \<Rightarrow> int \<Rightarrow> closed_stint list \<Rightarrow> int \<Rightarrow> session_state res" where
  "restore_checked d status session_type session_start stint_start stint_number history previous_end =
     (if int (length history) \<noteq> (if status = ''ended'' then stint_number else stint_number - 1) then Inl ValueError
      else sbind (required_string d ''driver'') (\<lambda>driver.
        if status = ''active'' \<and> stint_start < previous_end then Inl ValueError
        else if status = ''ended'' \<and> (driver \<noteq> cs_driver (last history) \<or> stint_start \<noteq> cs_start (last history))
        then Inl ValueError
        else sbind (required_string d ''session_id'') (\<lambda>sid.
             sbind (optional_string d ''track_name'') (\<lambda>track.
             sbind (optional_string d ''car'') (\<lambda>car.
               Inr \<lparr>ses_id = sid, ses_type = session_type, ses_driver = driver, ses_track = track, ses_car = car,
                    ses_stint_number = stint_number, ses_start_ms = session_start, ses_stint_start_ms = stint_start,
                    ses_status = status, ses_stints = history\<rparr>)))))"

definition session_from_dict :: "(string \<times> json) list \<Rightarrow> session_state res" where
  "session_from_dict d =
     (case jget_or d ''status'' (JStr ''none'') of
        JStr v \<Rightarrow>
          (let status = lower (strip v) in
           if status = ''none'' then Inr session_none
           else if status \<notin> {''active'', ''ended''} then Inl ValueError
           else sbind (required_string d ''session_type'') (\<lambda>ty.
             let session_type = lower ty in
             if session_type \<notin> set SESSION_TYPES then Inl ValueError
             else sbind (required_integer d ''session_start'') (\<lambda>session_start.
                  sbind (required_integer d ''stint_start'') (\<lambda>stint_start.
                  sbind (required_integer d ''stint_number'') (\<lambda>stint_number.
                    if session_start < 0 \<or> stint_start < session_start \<or> stint_number < 1 then Inl ValueError
                    else case jget_or d ''stints'' (JList []) of
                      JList items \<Rightarrow>
                        sbind (restore_stints 1 session_start items) (\<lambda>(history, previous_end).
                          restore_checked d status session_type session_start stint_start stint_number history previous_end)
                    | _ \<Rightarrow> Inl TypeError)))))
      | _ \<Rightarrow> Inl TypeError)"

text \<open>With status \<open>ended\<close> and no stint, \<open>closed[-1]\<close> would raise; the length check excludes it, since the
  stint number is at least one.\<close>

section \<open>Runs of operations\<close>

datatype session_op =
    StartSession string string string string string int
  | ChangeDriver string int
  | AmendStintStart int
  | EndSession int

fun session_step :: "(int \<Rightarrow> string res) \<Rightarrow> session_op \<Rightarrow> session_state \<Rightarrow> session_state" where
  "session_step stamp (StartSession uid ty driver track car now) s = snd (start_session stamp uid ty driver track car now s)"
| "session_step stamp (ChangeDriver driver now) s = snd (change_driver driver now s)"
| "session_step stamp (AmendStintStart at_ms) s = snd (amend_stint_start at_ms s)"
| "session_step stamp (EndSession now) s = snd (end_session now s)"

text \<open>The stints tile the time from \<open>t\<close> to \<open>e\<close>, are numbered from \<open>n\<close>, and change driver each time.\<close>

fun tiles :: "int \<Rightarrow> int \<Rightarrow> closed_stint list \<Rightarrow> int \<Rightarrow> bool" where
  "tiles t n [] e = (t = e)"
| "tiles t n (c # cs) e = (cs_number c = n \<and> cs_start c = t \<and> t \<le> cs_end c \<and> tiles (cs_end c) (n + 1) cs e)"

definition named :: "string \<Rightarrow> bool" where
  "named s \<longleftrightarrow> s \<noteq> [] \<and> strip s = s"

definition session_ok :: "session_state \<Rightarrow> bool" where
  [inv_defs]: "session_ok s \<longleftrightarrow> named (ses_id s) \<and> ses_type s \<in> set SESSION_TYPES \<and> named (ses_driver s)
     \<and> strip (ses_track s) = ses_track s \<and> strip (ses_car s) = ses_car s \<and> 0 \<le> ses_start_ms s
     \<and> (\<forall>c \<in> set (ses_stints s). named (cs_driver c))
     \<and> ((ses_status s = ''active'' \<and> tiles (ses_start_ms s) 1 (ses_stints s) (ses_stint_start_ms s)
          \<and> ses_stint_number s = int (length (ses_stints s)) + 1
          \<and> distinct_adj (map cs_driver (ses_stints s) @ [ses_driver s]))
      \<or> (ses_status s = ''ended'' \<and> ses_stints s \<noteq> [] \<and> tiles (ses_start_ms s) 1 (ses_stints s) (cs_end (last (ses_stints s)))
          \<and> ses_stint_number s = int (length (ses_stints s)) \<and> cs_driver (last (ses_stints s)) = ses_driver s
          \<and> cs_start (last (ses_stints s)) = ses_stint_start_ms s \<and> distinct_adj (map cs_driver (ses_stints s))))"

definition session_inv :: "session_state \<Rightarrow> bool" where
  [inv_defs]: "session_inv s \<longleftrightarrow> s = session_none \<or> session_ok s"

definition op_time_ok :: "session_op \<Rightarrow> bool" where
  "op_time_ok x = (case x of StartSession _ _ _ _ _ now \<Rightarrow> 0 \<le> now | _ \<Rightarrow> True)"

definition stamp_ok :: "(int \<Rightarrow> string res) \<Rightarrow> bool" where
  "stamp_ok stamp \<longleftrightarrow> (\<forall>t s. stamp t = Inr s \<longrightarrow> s \<noteq> [] \<and> \<not> is_space (hd s))"

lemma tiles_snoc: "tiles t n (cs @ [c]) e \<longleftrightarrow>
    (\<exists>m. tiles t n cs m \<and> cs_start c = m \<and> cs_number c = n + int (length cs) \<and> m \<le> cs_end c \<and> cs_end c = e)"
  by (induction cs arbitrary: t n) (auto simp: algebra_simps)

lemma tiles_le: "tiles t n cs e \<Longrightarrow> t \<le> e"
  by (induction cs arbitrary: t n) (auto intro: order_trans)

lemma tiles_stint_start: "tiles t n cs e \<Longrightarrow> cs \<noteq> [] \<Longrightarrow> t \<le> cs_start (last cs)"
  by (induction cs arbitrary: t n) (auto intro: order_trans)

lemma tiles_last_end: "tiles t n cs e \<Longrightarrow> cs \<noteq> [] \<Longrightarrow> cs_end (last cs) = e"
  by (induction cs arbitrary: t n) auto


section \<open>The invariant\<close>

lemma named_session_id:
  assumes "st \<noteq> []" and "\<not> is_space (hd st)" and "ty \<in> set SESSION_TYPES"
  shows "named (st @ x @ ty)"
proof -
  have ty: "ty \<noteq> []" "\<not> is_space (last ty)"
    using assms(3) by (auto simp: SESSION_TYPES_def is_space_def)
  have "lstrip (st @ x @ ty) = st @ x @ ty"
    unfolding lstrip_def using assms(1,2) by (intro dropWhile_idem) simp
  moreover have "dropWhile is_space (rev (st @ x @ ty)) = rev (st @ x @ ty)"
    using ty by (intro dropWhile_idem) (simp add: hd_rev hd_append)
  ultimately show ?thesis using assms(1) by (simp add: named_def strip_def)
qed

lemma named_strip: "strip d \<noteq> [] \<Longrightarrow> named (strip d)"
  by (simp add: named_def)

lemma start_session_inv:
  assumes "session_inv s" and "stamp_ok stamp" and "0 \<le> now"
  shows "session_inv (snd (start_session stamp uid ty driver track car now s))"
  using assms named_session_id[of _ "lower (strip ty)" "''-'' @ uid @ ''-''"]
  by (auto simp: start_session_def session_inv_def session_ok_def stamp_ok_def Let_def named_strip split: sum.splits)

lemma session_inv_active: "session_inv s \<Longrightarrow> ses_status s = ''active'' \<Longrightarrow> session_ok s"
  by (auto simp: session_inv_def session_none_def)

lemma distinct_adj_snoc: "distinct_adj (xs @ [x, y]) \<longleftrightarrow> distinct_adj (xs @ [x]) \<and> x \<noteq> y"
  by (induction xs rule: induct_list012) auto

definition session_text_ok :: "session_state \<Rightarrow> bool" where
  "session_text_ok s \<longleftrightarrow> named (ses_id s) \<and> ses_type s \<in> set SESSION_TYPES \<and> named (ses_driver s)
     \<and> strip (ses_track s) = ses_track s \<and> strip (ses_car s) = ses_car s \<and> 0 \<le> ses_start_ms s
     \<and> (\<forall>c \<in> set (ses_stints s). named (cs_driver c))"

lemma session_ok_activeD:
  assumes "session_ok s" and "ses_status s = ''active''"
  shows "session_text_ok s" "tiles (ses_start_ms s) 1 (ses_stints s) (ses_stint_start_ms s)"
    "ses_stint_number s = int (length (ses_stints s)) + 1" "distinct_adj (map cs_driver (ses_stints s) @ [ses_driver s])"
  using assms by (simp_all add: session_ok_def session_text_ok_def)

lemma session_ok_activeI:
  "ses_status s = ''active'' \<Longrightarrow> session_text_ok s \<Longrightarrow> tiles (ses_start_ms s) 1 (ses_stints s) (ses_stint_start_ms s) \<Longrightarrow>
    ses_stint_number s = int (length (ses_stints s)) + 1 \<Longrightarrow> distinct_adj (map cs_driver (ses_stints s) @ [ses_driver s]) \<Longrightarrow>
    session_ok s"
  by (simp add: session_ok_def session_text_ok_def)

lemma change_driver_inv:
  assumes "session_inv s"
  shows "session_inv (snd (change_driver driver now s))"
proof (cases "snd (change_driver driver now s) = s")
  case False
  let ?s' = "s\<lparr>ses_stints := ses_stints s @ [close_stint now s], ses_driver := strip driver,
    ses_stint_number := ses_stint_number s + 1, ses_stint_start_ms := now\<rparr>"
  from False have act: "ses_status s = ''active''" and s': "snd (change_driver driver now s) = ?s'"
    and g: "strip driver \<noteq> []" "strip driver \<noteq> ses_driver s" "ses_stint_start_ms s \<le> now"
    by (auto simp: change_driver_def Let_def split: if_splits)
  note ok = session_ok_activeD[OF session_inv_active[OF assms act] act]
  have "session_ok ?s'"
  proof (rule session_ok_activeI)
    show "session_text_ok ?s'" using ok(1) g(1) by (auto simp: session_text_ok_def close_stint_def named_strip)
  qed (use ok g act in \<open>auto simp: tiles_snoc close_stint_def distinct_adj_snoc\<close>)
  then show ?thesis by (simp add: s' session_inv_def)
qed (use assms in simp)

lemma end_session_inv:
  assumes "session_inv s"
  shows "session_inv (snd (end_session now s))"
proof (cases "snd (end_session now s) = s")
  case False
  let ?s' = "s\<lparr>ses_stints := ses_stints s @ [close_stint now s], ses_status := ''ended''\<rparr>"
  from False have act: "ses_status s = ''active''" and s': "snd (end_session now s) = ?s'" and g: "ses_stint_start_ms s \<le> now"
    by (auto simp: end_session_def Let_def split: if_splits)
  note ok = session_ok_activeD[OF session_inv_active[OF assms act] act]
  have "session_ok ?s'" using ok g
    by (auto simp: session_ok_def session_text_ok_def tiles_snoc close_stint_def)
  then show ?thesis by (simp add: s' session_inv_def)
qed (use assms in simp)

lemma amend_stint_start_inv:
  assumes "session_inv s"
  shows "session_inv (snd (amend_stint_start at_ms s))"
proof (cases "ses_status s = ''active'' \<and> ses_stints s \<noteq> []")
  case True
  then obtain cs c where cs: "ses_stints s = cs @ [c]" by (metis rev_exhaust)
  with session_inv_active[OF assms] True show ?thesis
    by (auto simp: amend_stint_start_def session_inv_def session_ok_def Let_def tiles_snoc)
next
  case False
  with assms show ?thesis by (auto simp: amend_stint_start_def)
qed

lemma session_step_inv: "session_inv s \<Longrightarrow> stamp_ok stamp \<Longrightarrow> op_time_ok x \<Longrightarrow> session_inv (session_step stamp x s)"
  by (cases x) (simp_all add: op_time_ok_def start_session_inv change_driver_inv amend_stint_start_inv end_session_inv)

lemma session_run_inv:
  assumes "stamp_ok stamp" and "\<forall>x \<in> set ops. op_time_ok x"
  shows "session_inv (fold (session_step stamp) ops session_none)"
proof -
  have "session_inv s \<Longrightarrow> session_inv (fold (session_step stamp) ops s)" for s
    using assms(2) by (induction ops arbitrary: s) (auto intro: session_step_inv[OF _ assms(1)])
  then show ?thesis by (simp add: session_inv_def)
qed

section \<open>Restart\<close>

lemma jget_payload [simp]:
  "jget (session_to_dict clk s) ''session_id'' = JStr (ses_id s)"
  "jget (session_to_dict clk s) ''session_type'' = JStr (ses_type s)"
  "jget (session_to_dict clk s) ''driver'' = JStr (ses_driver s)"
  "jget_or (session_to_dict clk s) ''track_name'' x = JStr (ses_track s)"
  "jget_or (session_to_dict clk s) ''car'' x = JStr (ses_car s)"
  "jget (session_to_dict clk s) ''stint_number'' = JInt (ses_stint_number s)"
  "jget (session_to_dict clk s) ''session_start'' = JInt (ses_start_ms s)"
  "jget (session_to_dict clk s) ''stint_start'' = JInt (ses_stint_start_ms s)"
  "jget_or (session_to_dict clk s) ''status'' x = JStr (ses_status s)"
  "jget_or (session_to_dict clk s) ''stints'' x = JList (map stint_dict (ses_stints s))"
  by (simp_all add: jget_def jget_or_def session_to_dict_def payload_def map_of_update)

lemma restore_stints_dict:
  "tiles t n cs e \<Longrightarrow> \<forall>c \<in> set cs. named (cs_driver c) \<Longrightarrow> restore_stints n t (map stint_dict cs) = Inr (cs, e)"
  by (induction cs arbitrary: t n)
    (auto simp: stint_dict_def required_integer_def required_string_def jget_def named_def)

lemma session_types_text:
  "ty \<in> set SESSION_TYPES \<Longrightarrow> strip ty = ty \<and> lower ty = ty \<and> ty \<noteq> []"
  by (auto simp: SESSION_TYPES_def strip_def lstrip_def is_space_def lower_def lower_char_def)

lemma status_text:
  "lower (strip ''active'') = ''active''" "lower (strip ''ended'') = ''ended''" "lower (strip ''none'') = ''none''"
  by (simp_all add: strip_def lstrip_def is_space_def lower_def lower_char_def)

lemma session_from_to_dict:
  assumes "session_inv s"
  shows "session_from_dict (session_to_dict clk s) = Inr s"
proof (cases "s = session_none")
  case True
  then show ?thesis by (simp add: session_from_dict_def status_text session_none_def)
next
  case False
  with assms have ok: "session_ok s" by (simp add: session_inv_def)
  let ?d = "session_to_dict clk s"
  have strs: "required_string ?d ''session_type'' = Inr (ses_type s)" "required_string ?d ''driver'' = Inr (ses_driver s)"
    "required_string ?d ''session_id'' = Inr (ses_id s)" "optional_string ?d ''track_name'' = Inr (ses_track s)"
    "optional_string ?d ''car'' = Inr (ses_car s)"
    using ok session_types_text[of "ses_type s"] by (auto simp: required_string_def optional_string_def session_ok_def named_def)
  have ints: "required_integer ?d k = (case jget ?d k of JInt n \<Rightarrow> Inr n | _ \<Rightarrow> Inl TypeError)" for k
    by (simp add: required_integer_def)
  have ty: "lower (ses_type s) = ses_type s" "ses_type s \<in> set SESSION_TYPES"
    using ok session_types_text by (auto simp: session_ok_def)
  define e where "e = (if ses_status s = ''active'' then ses_stint_start_ms s else cs_end (last (ses_stints s)))"
  have t: "tiles (ses_start_ms s) 1 (ses_stints s) e" using ok by (auto simp: session_ok_def e_def)
  have r: "restore_stints 1 (ses_start_ms s) (map stint_dict (ses_stints s)) = Inr (ses_stints s, e)"
    using t ok by (intro restore_stints_dict) (auto simp: session_ok_def)
  have b: "0 \<le> ses_start_ms s" "ses_start_ms s \<le> ses_stint_start_ms s" "1 \<le> ses_stint_number s"
    using ok tiles_le[OF t] tiles_stint_start[of "ses_start_ms s" 1 "ses_stints s" e]
    by (auto simp: session_ok_def e_def Suc_le_eq)
  show ?thesis
    using ok b by (auto simp: session_from_dict_def status_text strs ints ty r restore_checked_def session_ok_def e_def)
qed

lemma tiles_sum: "tiles t n cs e \<Longrightarrow> (\<Sum>c\<leftarrow>cs. cs_end c - cs_start c) = e - t"
  by (induction cs arbitrary: t n) auto

lemma tiles_numbers: "tiles t n cs e \<Longrightarrow> map cs_number cs = map (\<lambda>i. n + int i) [0..<length cs]"
proof (induction cs arbitrary: t n)
  case (Cons c cs)
  from Cons.IH[of "cs_end c" "n + 1"] Cons.prems
  have "map cs_number cs = map (\<lambda>i. n + 1 + int i) [0..<length cs]" by simp
  with Cons.prems show ?case by (simp add: upt_conv_Cons map_Suc_upt[symmetric] comp_def algebra_simps del: upt_Suc)
qed simp

lemma tiles_contiguous: "tiles t n cs e \<Longrightarrow> Suc i < length cs \<Longrightarrow> cs_end (cs ! i) = cs_start (cs ! Suc i)"
proof (induction cs arbitrary: t n i)
  case (Cons c cs)
  then show ?case by (cases i; cases cs) auto
qed simp

section \<open>Properties\<close>

text \<open>
  C16. A session survives a restart: whatever sequence of operations led to the current state, refused
  ones included, the dictionary it is stored as is accepted and restores exactly that state.
\<close>
theorem session_survives_restart:
  assumes "\<forall>t s. stamp t = Inr s \<longrightarrow> s \<noteq> [] \<and> \<not> is_space (hd s)" and "\<forall>x \<in> set ops. op_time_ok x"
  shows "session_from_dict (session_to_dict clk (fold (session_step stamp) ops session_none)) =
    Inr (fold (session_step stamp) ops session_none)"
  using session_run_inv[OF _ assms(2), of stamp] assms(1) by (simp add: stamp_ok_def session_from_to_dict)

definition wit_ops :: "session_op list" where
  "wit_ops = [StartSession ''ab'' '' Race '' ''Ann'' ''Spa'' ''7'' 1000, ChangeDriver ''Bob'' 5000, ChangeDriver ''Bob'' 6000,
     AmendStintStart 4000, EndSession 3000, EndSession 9000]"

lemma wit_ops_ok: "\<forall>x \<in> set wit_ops. op_time_ok x"
  by (simp add: wit_ops_def op_time_ok_def)

theorem session_survives_restart_witness:
  "session_from_dict (session_to_dict 0 (fold (session_step (\<lambda>t. Inr ''20260101-0000'')) wit_ops session_none)) =
    Inr (fold (session_step (\<lambda>t. Inr ''20260101-0000'')) wit_ops session_none)"
  using session_survives_restart[OF _ wit_ops_ok, of "\<lambda>t. Inr ''20260101-0000''"] by (simp add: is_space_def)



end
