(* ===== verification/Race_Plan.thy ===== *)
theory Race_Plan
  imports Py_Values
begin

text \<open>
  \<^verbatim>\<open>src/pit/session_control/plan.py\<close>: validation of the race plan an operator submits. A submission is
  the object of a JSON request body; every refusal is a \<open>PlanError\<close>.
\<close>

definition STOP_TYPES :: "string list" where
  "STOP_TYPES = [''refuel'', ''service'']"

definition DRIVER_LIMIT_KEYS :: "string list" where
  "DRIVER_LIMIT_KEYS = [''max_continuous_min'', ''max_total_min'', ''min_rest_min'']"

definition MAX_STOPS :: nat where "MAX_STOPS = 50"

definition MAX_TEXT :: nat where "MAX_TEXT = 80"

record planned_stop =
  ps_type :: string
  ps_at_lap :: "int option"
  ps_at_ms :: "int option"
  ps_driver_in :: "string option"

record race_plan =
  rp_race_end_at_ms :: "int option"
  rp_race_end_laps :: "int option"
  rp_end_authority :: string
  rp_tank_l :: real
  rp_usable_fuel_l :: real
  rp_refuel_min_s :: int
  rp_service_typical_s :: int
  rp_driver_limits :: "(string \<times> int) list"
  rp_planned_stops :: "planned_stop list"
  rp_car_number :: "string option"
  rp_updated_by :: "string option"

section \<open>To JSON\<close>

definition opt_int :: "int option \<Rightarrow> json" where
  "opt_int v = (case v of None \<Rightarrow> JNull | Some n \<Rightarrow> JInt n)"

definition opt_text :: "string option \<Rightarrow> json" where
  "opt_text v = (case v of None \<Rightarrow> JNull | Some s \<Rightarrow> JStr s)"

definition stop_to_dict :: "planned_stop \<Rightarrow> json" where
  "stop_to_dict s = JDict (filter (\<lambda>(k, v). v \<noteq> JNull)
     [(''type'', JStr (ps_type s)), (''at_lap'', opt_int (ps_at_lap s)), (''at_ms'', opt_int (ps_at_ms s)),
      (''driver_in'', opt_text (ps_driver_in s))])"

definition plan_to_dict :: "race_plan \<Rightarrow> (string \<times> json) list" where
  "plan_to_dict p =
     [(''race_end_at_ms'', opt_int (rp_race_end_at_ms p)), (''race_end_laps'', opt_int (rp_race_end_laps p)),
      (''end_authority'', JStr (rp_end_authority p)), (''tank_l'', JFloat (Fin (rp_tank_l p))),
      (''usable_fuel_l'', JFloat (Fin (rp_usable_fuel_l p))), (''refuel_min_s'', JInt (rp_refuel_min_s p)),
      (''service_typical_s'', JInt (rp_service_typical_s p)),
      (''driver_limits'', JDict (map (\<lambda>(k, v). (k, JInt v)) (rp_driver_limits p))),
      (''planned_stops'', JList (map stop_to_dict (rp_planned_stops p))),
      (''car_number'', opt_text (rp_car_number p)), (''updated_by'', opt_text (rp_updated_by p))]"

section \<open>Fields\<close>

fun number_value :: "json \<Rightarrow> real res" where
  "number_value (JInt n) = Inr (of_int n)"
| "number_value (JFloat (Fin x)) = Inr x"
| "number_value _ = Inl PlanError"

definition number :: "(string \<times> json) list \<Rightarrow> string \<Rightarrow> bool \<Rightarrow> real option res" where
  "number body key required =
     (let v = jget body key in
      if v = JNull \<or> v = JStr [] then (if required then Inl PlanError else Inr None)
      else sbind (number_value v) (\<lambda>x. Inr (Some x)))"

definition integer :: "(string \<times> json) list \<Rightarrow> string \<Rightarrow> bool \<Rightarrow> int option res" where
  "integer body key required = sbind (number body key required) (\<lambda>v.
     case v of
       None \<Rightarrow> Inr None
     | Some x \<Rightarrow> if x = of_int \<lfloor>x\<rfloor> then Inr (Some \<lfloor>x\<rfloor>) else Inl PlanError)"

text \<open>A required field: the \<open>assert\<close> after it never fails.\<close>

definition need :: "'a option res \<Rightarrow> 'a res" where
  "need r = sbind r (\<lambda>v. case v of None \<Rightarrow> Inl TypeError | Some x \<Rightarrow> Inr x)"

definition plan_text :: "json \<Rightarrow> string option res" where
  "plan_text v =
     (case v of
        JNull \<Rightarrow> Inr None
      | JStr s \<Rightarrow>
          (if s = [] then Inr None
           else let t = take MAX_TEXT (strip s) in Inr (if t = [] then None else Some t))
      | _ \<Rightarrow> Inl PlanError)"

section \<open>Validation\<close>

definition check :: "bool \<Rightarrow> unit res" where
  "check ok = (if ok then Inr () else Inl PlanError)"

definition end_authority :: "int option \<Rightarrow> int option \<Rightarrow> json \<Rightarrow> string res" where
  "end_authority end_ms end_laps a =
     (case (if a = JNull \<or> a = JStr [] then JStr (if end_ms \<noteq> None then ''time'' else ''laps'') else a) of
        JStr s \<Rightarrow>
          sbind (check (s \<in> {''time'', ''laps''})) (\<lambda>_.
          sbind (check (\<not> (s = ''time'' \<and> end_ms = None))) (\<lambda>_.
          sbind (check (\<not> (s = ''laps'' \<and> end_laps = None))) (\<lambda>_. Inr s)))
      | _ \<Rightarrow> Inl PlanError)"

definition plan_end :: "(string \<times> json) list \<Rightarrow> (int option \<times> int option \<times> string) res" where
  "plan_end body =
     sbind (integer body ''race_end_at_ms'' False) (\<lambda>end_ms.
     sbind (integer body ''race_end_laps'' False) (\<lambda>end_laps.
     sbind (check (\<not> (end_ms = None \<and> end_laps = None))) (\<lambda>_.
     sbind (check (case end_laps of None \<Rightarrow> True | Some n \<Rightarrow> n > 0)) (\<lambda>_.
     sbind (end_authority end_ms end_laps (jget body ''end_authority'')) (\<lambda>authority.
       Inr (end_ms, end_laps, authority))))))"

definition plan_fuel :: "(string \<times> json) list \<Rightarrow> (real \<times> real) res" where
  "plan_fuel body =
     sbind (need (number body ''tank_l'' True)) (\<lambda>tank.
     sbind (need (number body ''usable_fuel_l'' True)) (\<lambda>usable.
     sbind (check (tank > 0)) (\<lambda>_. sbind (check (usable > 0)) (\<lambda>_. sbind (check (usable \<le> tank)) (\<lambda>_. Inr (tank, usable))))))"

definition plan_durations :: "(string \<times> json) list \<Rightarrow> (int \<times> int) res" where
  "plan_durations body =
     sbind (need (integer body ''refuel_min_s'' True)) (\<lambda>refuel.
     sbind (need (integer body ''service_typical_s'' True)) (\<lambda>service.
     sbind (check (\<not> (refuel < 0 \<or> service < 0))) (\<lambda>_. Inr (refuel, service))))"

fun plan_limits :: "(string \<times> int) list \<Rightarrow> (string \<times> json) list \<Rightarrow> (string \<times> int) list res" where
  "plan_limits acc [] = Inr acc"
| "plan_limits acc ((key, v) # items) =
     sbind (check (key \<in> set DRIVER_LIMIT_KEYS)) (\<lambda>_.
       if v = JNull \<or> v = JStr [] then plan_limits acc items
       else sbind (need (integer [(key, v)] key True)) (\<lambda>minutes.
            sbind (check (\<not> minutes < 0)) (\<lambda>_. plan_limits (AList.update key minutes acc) items)))"

fun plan_stop :: "json \<Rightarrow> planned_stop res" where
  "plan_stop (JDict raw) =
     (case jget raw ''type'' of
        JStr ty \<Rightarrow>
          sbind (check (ty \<in> set STOP_TYPES)) (\<lambda>_.
          sbind (integer raw ''at_lap'' False) (\<lambda>at_lap.
          sbind (integer raw ''at_ms'' False) (\<lambda>at_ms.
          sbind (check ((at_lap = None) \<noteq> (at_ms = None))) (\<lambda>_.
          sbind (check (case at_lap of None \<Rightarrow> True | Some n \<Rightarrow> n > 0)) (\<lambda>_.
          sbind (plan_text (jget raw ''driver_in'')) (\<lambda>driver_in.
            Inr \<lparr>ps_type = ty, ps_at_lap = at_lap, ps_at_ms = at_ms, ps_driver_in = driver_in\<rparr>))))))
      | _ \<Rightarrow> Inl PlanError)"
| "plan_stop _ = Inl PlanError"

definition plan_driver_limits :: "json \<Rightarrow> (string \<times> int) list res" where
  "plan_driver_limits v = (case v of JNull \<Rightarrow> Inr [] | JDict d \<Rightarrow> plan_limits [] d | _ \<Rightarrow> Inl PlanError)"

definition plan_stops :: "json \<Rightarrow> planned_stop list res" where
  "plan_stops v =
     (case v of
        JNull \<Rightarrow> Inr []
      | JList raws \<Rightarrow> if length raws > MAX_STOPS then Inl PlanError else mapE plan_stop raws
      | _ \<Rightarrow> Inl PlanError)"

definition validate_plan :: "(string \<times> json) list \<Rightarrow> race_plan res" where
  "validate_plan body =
     sbind (plan_end body) (\<lambda>(end_ms, end_laps, authority).
     sbind (plan_fuel body) (\<lambda>(tank, usable).
     sbind (plan_durations body) (\<lambda>(refuel, service).
     sbind (plan_driver_limits (jget_or body ''driver_limits'' (JDict []))) (\<lambda>limits.
     sbind (plan_stops (jget_or body ''planned_stops'' (JList []))) (\<lambda>stops.
     sbind (plan_text (jget body ''car_number'')) (\<lambda>car_number.
     sbind (plan_text (jget body ''updated_by'')) (\<lambda>updated_by.
       Inr \<lparr>rp_race_end_at_ms = end_ms, rp_race_end_laps = end_laps, rp_end_authority = authority,
            rp_tank_l = tank, rp_usable_fuel_l = usable, rp_refuel_min_s = refuel, rp_service_typical_s = service,
            rp_driver_limits = limits, rp_planned_stops = stops, rp_car_number = car_number, rp_updated_by = updated_by\<rparr>)))))))"

section \<open>What a validated plan is\<close>

definition text_ok :: "string option \<Rightarrow> bool" where
  "text_ok t = (case t of None \<Rightarrow> True | Some s \<Rightarrow> s \<noteq> [] \<and> length s \<le> MAX_TEXT \<and> \<not> is_space (hd s))"

definition planned_stop_ok :: "planned_stop \<Rightarrow> bool" where
  "planned_stop_ok s \<longleftrightarrow> ps_type s \<in> set STOP_TYPES \<and> (ps_at_lap s = None) \<noteq> (ps_at_ms s = None)
     \<and> (\<forall>n. ps_at_lap s = Some n \<longrightarrow> 0 < n) \<and> text_ok (ps_driver_in s)"

definition limits_ok :: "(string \<times> int) list \<Rightarrow> bool" where
  "limits_ok l \<longleftrightarrow> distinct (map fst l) \<and> (\<forall>(k, m) \<in> set l. k \<in> set DRIVER_LIMIT_KEYS \<and> 0 \<le> m)"

definition race_plan_ok :: "race_plan \<Rightarrow> bool" where
  "race_plan_ok p \<longleftrightarrow>
     ((rp_end_authority p = ''time'' \<and> rp_race_end_at_ms p \<noteq> None) \<or> (rp_end_authority p = ''laps'' \<and> rp_race_end_laps p \<noteq> None))
     \<and> (\<forall>n. rp_race_end_laps p = Some n \<longrightarrow> 0 < n)
     \<and> 0 < rp_usable_fuel_l p \<and> rp_usable_fuel_l p \<le> rp_tank_l p \<and> 0 \<le> rp_refuel_min_s p \<and> 0 \<le> rp_service_typical_s p
     \<and> limits_ok (rp_driver_limits p) \<and> length (rp_planned_stops p) \<le> MAX_STOPS
     \<and> list_all planned_stop_ok (rp_planned_stops p) \<and> text_ok (rp_car_number p) \<and> text_ok (rp_updated_by p)"

text \<open>Validating again strips the spaces that truncation to \<open>MAX_TEXT\<close> may have left at the end.\<close>

definition restrip :: "race_plan \<Rightarrow> race_plan" where
  "restrip p = p\<lparr>rp_planned_stops := map (\<lambda>s. s\<lparr>ps_driver_in := map_option strip (ps_driver_in s)\<rparr>) (rp_planned_stops p),
     rp_car_number := map_option strip (rp_car_number p), rp_updated_by := map_option strip (rp_updated_by p)\<rparr>"

lemma check_Inr [simp]: "check ok = Inr u \<longleftrightarrow> ok" and check_Inl [simp]: "check ok = Inl e \<longleftrightarrow> \<not> ok \<and> e = PlanError"
  by (auto simp: check_def)

text \<open>The only exception a validation step raises is a refusal.\<close>

definition refuses :: "'a res \<Rightarrow> bool" where
  "refuses r \<longleftrightarrow> (\<forall>e. r = Inl e \<longrightarrow> e = PlanError)"

lemma refuses_simps [simp]: "refuses (Inr x)" "refuses (Inl PlanError)" "refuses (check ok)"
  by (simp_all add: refuses_def)

lemma refuses_sbind [intro!]: "refuses m \<Longrightarrow> (\<And>x. m = Inr x \<Longrightarrow> refuses (f x)) \<Longrightarrow> refuses (sbind m f)"
  by (auto simp: refuses_def sbind_Inl_iff)

lemma refuses_number [simp]: "refuses (number b k r)"
  by (auto simp: number_def Let_def refuses_def sbind_Inl_iff elim: number_value.elims)

lemma refuses_integer [simp]: "refuses (integer b k r)"
  unfolding integer_def by (auto split: option.split)

lemma number_required: "number b k True \<noteq> Inr None"
  by (auto simp: number_def Let_def sbind_Inr_iff)

lemma integer_required: "integer b k True \<noteq> Inr None"
  using number_required[of b k] by (auto simp: integer_def sbind_Inr_iff split: option.splits if_splits)

lemma refuses_need: "refuses r \<Longrightarrow> r \<noteq> Inr None \<Longrightarrow> refuses (need r)"
  by (auto simp: need_def refuses_def sbind_Inl_iff split: option.splits)

lemma refuses_required [simp]: "refuses (need (number b k True))" "refuses (need (integer b k True))"
  by (simp_all add: refuses_need number_required integer_required)

lemma need_Inr [simp]: "need r = Inr x \<longleftrightarrow> r = Inr (Some x)"
  by (auto simp: need_def sbind_Inr_iff split: option.splits)

lemma refuses_plan_text [simp]: "refuses (plan_text v)"
  by (auto simp: plan_text_def Let_def split: json.split)

lemma refuses_plan_end: "refuses (plan_end b)"
  unfolding plan_end_def end_authority_def by (auto split: json.split)

lemma refuses_plan_fuel: "refuses (plan_fuel b)" and refuses_plan_durations: "refuses (plan_durations b)"
  unfolding plan_fuel_def plan_durations_def by auto

lemma refuses_plan_limits: "refuses (plan_limits acc d)"
  by (induction acc d rule: plan_limits.induct) auto

lemma refuses_plan_stop: "refuses (plan_stop v)"
  by (cases v rule: plan_stop.cases) (auto split: json.split)

lemma refuses_mapE: "(\<And>x. refuses (f x)) \<Longrightarrow> refuses (mapE f xs)"
  by (induction xs) auto

lemma refuses_validate_plan: "refuses (validate_plan body)"
  unfolding validate_plan_def plan_driver_limits_def plan_stops_def
  by (auto simp: refuses_plan_end refuses_plan_fuel refuses_plan_durations refuses_plan_limits refuses_mapE refuses_plan_stop
      split: json.split)

lemma hd_strip: "strip s \<noteq> [] \<Longrightarrow> \<not> is_space (hd (strip s))"
  using strip_ends[of s] by auto

lemma plan_text_ok: "plan_text v = Inr t \<Longrightarrow> text_ok t"
  using hd_strip by (auto simp: plan_text_def text_ok_def Let_def MAX_TEXT_def hd_take split: json.splits if_splits)

lemma strip_nonempty: "s \<noteq> [] \<Longrightarrow> \<not> is_space (hd s) \<Longrightarrow> strip s \<noteq> []"
  by (cases s) (auto simp: strip_def lstrip_def dropWhile_append)

lemma plan_text_again: "text_ok t \<Longrightarrow> plan_text (opt_text t) = Inr (map_option strip t)"
  using length_strip_le strip_nonempty
  by (auto simp: text_ok_def plan_text_def opt_text_def Let_def intro: order_trans split: option.splits)

lemma integer_int: "integer [(k, JInt n)] k r = Inr (Some n)"
  by (simp add: integer_def number_def jget_def)

lemma integer_of: "jget b k = opt_int v \<Longrightarrow> integer b k False = Inr v"
  by (auto simp: integer_def number_def opt_int_def split: option.splits)

lemma end_authority_ok:
  "end_authority m l a = Inr s \<Longrightarrow> (s = ''time'' \<and> m \<noteq> None) \<or> (s = ''laps'' \<and> l \<noteq> None)"
  by (auto simp: end_authority_def sbind_Inr_iff split: json.splits)

lemma end_authority_again:
  "(s = ''time'' \<and> m \<noteq> None) \<or> (s = ''laps'' \<and> l \<noteq> None) \<Longrightarrow> end_authority m l (JStr s) = Inr s"
  by (auto simp: end_authority_def check_def)

lemma plan_limits_ok: "plan_limits acc d = Inr l \<Longrightarrow> limits_ok acc \<Longrightarrow> limits_ok l"
proof (induction acc d rule: plan_limits.induct)
  case (2 acc key v items)
  have "limits_ok (AList.update key m acc)" if "key \<in> set DRIVER_LIMIT_KEYS" "0 \<le> m" for m
    using that "2.prems"(2) by (auto simp: limits_ok_def dest!: subsetD[OF set_update_subset])
  with 2 show ?case by (auto simp: sbind_Inr_iff not_less split: if_splits)
qed simp

lemma plan_limits_again:
  assumes "limits_ok (acc @ l)"
  shows "plan_limits acc (map (\<lambda>(k, v). (k, JInt v)) l) = Inr (acc @ l)"
  using assms
proof (induction l arbitrary: acc)
  case (Cons x l)
  obtain k m where x: "x = (k, m)" by fastforce
  have "k \<notin> fst ` set acc" "k \<in> set DRIVER_LIMIT_KEYS" "0 \<le> m" using Cons.prems by (auto simp: limits_ok_def x)
  moreover from this(1) have "AList.update k m acc = acc @ [x]" by (simp add: x update_fresh)
  ultimately show ?case using Cons.IH[of "acc @ [x]"] Cons.prems by (simp add: x integer_int need_def check_def)
qed simp

lemma plan_stop_ok: "plan_stop v = Inr s \<Longrightarrow> planned_stop_ok s"
proof -
  assume r: "plan_stop v = Inr s"
  then obtain raw where v: "v = JDict raw" by (cases v rule: plan_stop.cases) auto
  with r obtain ty where "jget raw ''type'' = JStr ty" by (cases "jget raw ''type''") auto
  with r v obtain at_lap at_ms driver_in where
      parts: "ty \<in> set STOP_TYPES" "(at_lap = None) \<noteq> (at_ms = None)" "case at_lap of None \<Rightarrow> True | Some n \<Rightarrow> n > 0"
      "plan_text (jget raw ''driver_in'') = Inr driver_in"
      "s = \<lparr>ps_type = ty, ps_at_lap = at_lap, ps_at_ms = at_ms, ps_driver_in = driver_in\<rparr>"
    by (auto simp: sbind_Inr_iff check_def simp del: split_paired_Ex split: if_splits)
  then show "planned_stop_ok s"
    using plan_text_ok[OF parts(4)] by (cases at_lap) (simp_all add: planned_stop_ok_def)
qed

lemma plan_stop_again:
  assumes "planned_stop_ok s"
  shows "plan_stop (stop_to_dict s) = Inr (s\<lparr>ps_driver_in := map_option strip (ps_driver_in s)\<rparr>)"
proof -
  define d where "d = filter (\<lambda>(k, v). v \<noteq> JNull)
     [(''type'', JStr (ps_type s)), (''at_lap'', opt_int (ps_at_lap s)), (''at_ms'', opt_int (ps_at_ms s)),
      (''driver_in'', opt_text (ps_driver_in s))]"
  have g: "jget d ''type'' = JStr (ps_type s)" "jget d ''at_lap'' = opt_int (ps_at_lap s)"
    "jget d ''at_ms'' = opt_int (ps_at_ms s)" "jget d ''driver_in'' = opt_text (ps_driver_in s)"
    by (auto simp: d_def jget_def)
  have t: "plan_text (jget d ''driver_in'') = Inr (map_option strip (ps_driver_in s))"
    using assms by (simp add: g planned_stop_ok_def plan_text_again)
  have "stop_to_dict s = JDict d" by (simp add: stop_to_dict_def d_def)
  then show ?thesis
    using assms by (auto simp: g(1) integer_of[OF g(2)] integer_of[OF g(3)] t planned_stop_ok_def check_def split: option.split)
qed

lemma plan_driver_limits_ok: "plan_driver_limits v = Inr l \<Longrightarrow> limits_ok l"
  using plan_limits_ok by (auto simp: plan_driver_limits_def limits_ok_def split: json.splits)

lemma mapE_plan_stop_ok: "mapE plan_stop raws = Inr l \<Longrightarrow> list_all planned_stop_ok l"
  by (induction raws arbitrary: l) (auto simp: sbind_Inr_iff plan_stop_ok)

lemma plan_stops_ok: "plan_stops v = Inr l \<Longrightarrow> length l \<le> MAX_STOPS \<and> list_all planned_stop_ok l"
  by (auto simp: plan_stops_def mapE_plan_stop_ok mapE_Inr_length split: json.splits if_splits)

lemma validate_plan_Inr:
  "validate_plan body = Inr p \<longleftrightarrow> plan_end body = Inr (rp_race_end_at_ms p, rp_race_end_laps p, rp_end_authority p)
    \<and> plan_fuel body = Inr (rp_tank_l p, rp_usable_fuel_l p)
    \<and> plan_durations body = Inr (rp_refuel_min_s p, rp_service_typical_s p)
    \<and> plan_driver_limits (jget_or body ''driver_limits'' (JDict [])) = Inr (rp_driver_limits p)
    \<and> plan_stops (jget_or body ''planned_stops'' (JList [])) = Inr (rp_planned_stops p)
    \<and> plan_text (jget body ''car_number'') = Inr (rp_car_number p) \<and> plan_text (jget body ''updated_by'') = Inr (rp_updated_by p)"
  unfolding validate_plan_def by (cases p) (auto simp: sbind_Inr_iff)

lemma plan_end_ok:
  "plan_end body = Inr (m, l, a) \<Longrightarrow> ((a = ''time'' \<and> m \<noteq> None) \<or> (a = ''laps'' \<and> l \<noteq> None)) \<and> (\<forall>n. l = Some n \<longrightarrow> 0 < n)"
  by (auto simp: plan_end_def sbind_Inr_iff dest: end_authority_ok)

lemma validate_plan_ok:
  assumes "validate_plan body = Inr p"
  shows "race_plan_ok p"
proof -
  from assms have "plan_end body = Inr (rp_race_end_at_ms p, rp_race_end_laps p, rp_end_authority p)"
    and f: "plan_fuel body = Inr (rp_tank_l p, rp_usable_fuel_l p)" "plan_durations body = Inr (rp_refuel_min_s p, rp_service_typical_s p)"
    and l: "limits_ok (rp_driver_limits p)" "length (rp_planned_stops p) \<le> MAX_STOPS" "list_all planned_stop_ok (rp_planned_stops p)"
      "text_ok (rp_car_number p)" "text_ok (rp_updated_by p)"
    by (auto simp: validate_plan_Inr dest: plan_driver_limits_ok plan_stops_ok plan_text_ok)
  note e = plan_end_ok[OF this(1)]
  from f have "0 < rp_usable_fuel_l p \<and> rp_usable_fuel_l p \<le> rp_tank_l p \<and> 0 \<le> rp_refuel_min_s p \<and> 0 \<le> rp_service_typical_s p"
    by (auto simp: plan_fuel_def plan_durations_def sbind_Inr_iff)
  with e l show ?thesis unfolding race_plan_ok_def by blast
qed

lemma validate_plan_again:
  assumes "race_plan_ok p"
  shows "validate_plan (plan_to_dict p) = Inr (restrip p)"
proof -
  let ?d = "plan_to_dict p"
  have g: "jget ?d ''race_end_at_ms'' = opt_int (rp_race_end_at_ms p)" "jget ?d ''race_end_laps'' = opt_int (rp_race_end_laps p)"
    "jget ?d ''end_authority'' = JStr (rp_end_authority p)" "jget ?d ''car_number'' = opt_text (rp_car_number p)"
    "jget ?d ''updated_by'' = opt_text (rp_updated_by p)" "jget ?d ''tank_l'' = JFloat (Fin (rp_tank_l p))"
    "jget ?d ''usable_fuel_l'' = JFloat (Fin (rp_usable_fuel_l p))" "jget ?d ''refuel_min_s'' = JInt (rp_refuel_min_s p)"
    "jget ?d ''service_typical_s'' = JInt (rp_service_typical_s p)"
    "jget_or ?d ''driver_limits'' (JDict []) = JDict (map (\<lambda>(k, v). (k, JInt v)) (rp_driver_limits p))"
    "jget_or ?d ''planned_stops'' (JList []) = JList (map stop_to_dict (rp_planned_stops p))"
    by (simp_all add: plan_to_dict_def jget_def jget_or_def)
  have "plan_end ?d = Inr (rp_race_end_at_ms p, rp_race_end_laps p, rp_end_authority p)"
    using assms end_authority_again[of "rp_end_authority p" "rp_race_end_at_ms p" "rp_race_end_laps p"]
    by (auto simp: plan_end_def integer_of[OF g(1)] integer_of[OF g(2)] g(3) race_plan_ok_def check_def split: option.split)
  moreover have "plan_fuel ?d = Inr (rp_tank_l p, rp_usable_fuel_l p)"
    using assms by (simp add: plan_fuel_def number_def g need_def check_def race_plan_ok_def)
  moreover have "plan_durations ?d = Inr (rp_refuel_min_s p, rp_service_typical_s p)"
    using assms by (simp add: plan_durations_def integer_def number_def g need_def check_def race_plan_ok_def)
  moreover have "plan_driver_limits (jget_or ?d ''driver_limits'' (JDict [])) = Inr (rp_driver_limits p)"
    using assms plan_limits_again[of "[]"] by (simp add: plan_driver_limits_def g race_plan_ok_def)
  moreover have "plan_stops (jget_or ?d ''planned_stops'' (JList [])) =
      Inr (map (\<lambda>s. s\<lparr>ps_driver_in := map_option strip (ps_driver_in s)\<rparr>) (rp_planned_stops p))"
  proof -
    have "mapE plan_stop (map stop_to_dict l) = Inr (map (\<lambda>s. s\<lparr>ps_driver_in := map_option strip (ps_driver_in s)\<rparr>) l)"
      if "list_all planned_stop_ok l" for l
      using that by (induction l) (auto simp: plan_stop_again)
    with assms show ?thesis by (simp add: plan_stops_def g race_plan_ok_def)
  qed
  ultimately show ?thesis
    using assms by (simp add: validate_plan_Inr restrip_def g plan_text_again race_plan_ok_def)
qed

section \<open>Properties\<close>


definition wit_body :: "(string \<times> json) list" where
  "wit_body = [(''race_end_laps'', JInt 120), (''tank_l'', JInt 60), (''usable_fuel_l'', JFloat (Fin (111 / 2))),
     (''refuel_min_s'', JInt 180), (''service_typical_s'', JInt 60),
     (''driver_limits'', JDict [(''max_total_min'', JInt 300), (''min_rest_min'', JNull)]),
     (''planned_stops'', JList [JDict [(''type'', JStr ''refuel''), (''at_lap'', JInt 40)]])]"


end
