(* ===== verification/Strategy_Model.thy ===== *)
theory Strategy_Model
  imports Py_Values
begin

text \<open>
  \<^verbatim>\<open>src/pit/strategy/model.py\<close>: the state of the race for one car, with no I/O.

  A datetime is its epoch seconds, a timedelta a number of seconds; the microsecond grid and the year
  limits of datetime arithmetic are not modelled, only those of \<open>fromtimestamp\<close>, whose argument is
  an operator's number. Planned stops are the JSON objects the plan row holds. A dict literal with
  fixed keys that the code only fills and reads is a record; \<open>clock.isoformat()\<close> in a simulated stop
  is kept as the instant it prints.
\<close>

section \<open>Inputs\<close>

type_synonym jdict = "(string \<times> json) list"

record plan_facts =
  pf_revision :: int
  pf_race_end_at :: "real option"
  pf_race_end_laps :: "int option"
  pf_end_authority :: string
  pf_tank_l :: real
  pf_usable_fuel_l :: real
  pf_refuel_min_s :: int
  pf_service_typical_s :: int
  pf_driver_limits :: "string \<rightharpoonup> int"
  pf_planned_stops :: "jdict list"

record lap_fact =
  lf_lap_number :: int
  lf_crossed_at :: real
  lf_lap_time_s :: "real option"
  lf_valid :: bool
  lf_pit_status :: "string option"
  lf_stint_number :: "int option"
  lf_fuel_used_l :: "real option"
  lf_measurement_status :: string

record stint_fact =
  sf_stint_number :: int
  sf_driver :: string
  sf_started :: real
  sf_ended :: "real option"
  sf_sample_count :: int
  sf_level_start_l :: "real option"
  sf_level_end_l :: "real option"

record stop_fact =
  pt_entry_at :: real
  pt_exit_at :: "real option"
  pt_is_open :: bool
  pt_stop_type :: string

record race_inputs =
  ri_now :: real
  ri_vehicle_id :: string
  ri_session_id :: string
  ri_session_started :: real
  ri_plan :: "plan_facts option"
  ri_laps :: "lap_fact list"
  ri_stints :: "stint_fact list"
  ri_stops :: "stop_fact list"

record strategy_policy =
  sp_burn_window_laps :: int
  sp_burn_sigma :: real
  sp_outlier_fraction :: real
  sp_driver_margin_s :: real
  sp_plan_drift_laps :: int
  sp_short_fill_fraction :: real
  sp_window_warn_laps :: int
  sp_max_simulated_stops :: int

definition strategy_policy_default :: strategy_policy where
  "strategy_policy_default = \<lparr>sp_burn_window_laps = 5, sp_burn_sigma = 2, sp_outlier_fraction = 1 / 5,
     sp_driver_margin_s = 600, sp_plan_drift_laps = 3, sp_short_fill_fraction = 1 / 10,
     sp_window_warn_laps = 2, sp_max_simulated_stops = 50\<rparr>"

datatype rebase_confidence = KeyOn | SessionStart | Moving | FromPlan | NoRebase

fun confidence_text :: "rebase_confidence \<Rightarrow> string" where
  "confidence_text KeyOn = ''key_on''"
| "confidence_text SessionStart = ''session_start''"
| "confidence_text Moving = ''moving''"
| "confidence_text FromPlan = ''plan''"
| "confidence_text NoRebase = ''none''"

fun REBASE_UNCERTAINTY_L :: "rebase_confidence \<Rightarrow> real" where
  "REBASE_UNCERTAINTY_L KeyOn = 3 / 10"
| "REBASE_UNCERTAINTY_L SessionStart = 1 / 2"
| "REBASE_UNCERTAINTY_L Moving = 2"
| "REBASE_UNCERTAINTY_L FromPlan = 3"
| "REBASE_UNCERTAINTY_L NoRebase = 0"

section \<open>Outputs\<close>

record strategy_finding =
  fi_monitor :: string
  fi_severity :: string
  fi_score :: real
  fi_summary :: jdict

record burn_rate =
  bu_mean :: "real option"
  bu_sd :: "real option"
  bu_laps :: int
  bu_lap_time_s :: "real option"
  bu_lo :: "real option"
  bu_hi :: "real option"

record rebase =
  rb_level_l :: "real option"
  rb_at :: "real option"
  rb_confidence :: rebase_confidence
  rb_fuel_added_l :: "real option"

record sim_stop =
  ss_lap :: int
  ss_type :: string
  ss_driver_in :: json
  ss_reason :: string
  ss_at :: real
  ss_planned_lap :: "int option"
  ss_delta_laps :: "int option"

record drift =
  dr_planned :: int
  dr_computed :: int
  dr_max_abs_delta :: int
  dr_first_delta :: int
  dr_diverged :: bool

record strategy_state =
  st_time :: real
  st_vehicle_id :: string
  st_session_id :: "string option"
  st_trigger :: string
  st_lap_number :: "int option"
  st_plan_revision :: "int option"
  st_fuel_remaining_l :: "real option"
  st_fuel_remaining_lo_l :: "real option"
  st_fuel_remaining_hi_l :: "real option"
  st_rebase_confidence :: string
  st_rebase_level_l :: "real option"
  st_rebase_at :: "real option"
  st_fuel_added_l :: "real option"
  st_burn_l_per_lap :: "real option"
  st_burn_sd :: "real option"
  st_burn_laps :: int
  st_lap_time_ref_s :: "real option"
  st_laps_to_dry_lo :: "real option"
  st_laps_to_dry_hi :: "real option"
  st_time_to_dry_s_lo :: "real option"
  st_time_to_dry_s_hi :: "real option"
  st_laps_remaining :: "int option"
  st_stops_needed :: "int option"
  st_window_open_lap :: "int option"
  st_window_close_lap :: "int option"
  st_target_lap_s :: "real option"
  st_driver :: "string option"
  st_driver_time_remaining_s :: "real option"
  st_driver_total_remaining_s :: "real option"
  st_refuel_elapsed_s :: "real option"
  st_refuel_remaining_s :: "real option"
  st_refuel_release_at :: "real option"
  st_stop_plan :: "sim_stop list"
  st_plan_drift :: "drift option"
  st_findings :: "strategy_finding list"

definition idle_state :: "real \<Rightarrow> string \<Rightarrow> strategy_state" where
  "idle_state now vehicle_id =
     \<lparr>st_time = now, st_vehicle_id = vehicle_id, st_session_id = None, st_trigger = ''idle'', st_lap_number = None,
      st_plan_revision = None, st_fuel_remaining_l = None, st_fuel_remaining_lo_l = None, st_fuel_remaining_hi_l = None,
      st_rebase_confidence = ''none'', st_rebase_level_l = None, st_rebase_at = None, st_fuel_added_l = None,
      st_burn_l_per_lap = None, st_burn_sd = None, st_burn_laps = 0, st_lap_time_ref_s = None, st_laps_to_dry_lo = None,
      st_laps_to_dry_hi = None, st_time_to_dry_s_lo = None, st_time_to_dry_s_hi = None, st_laps_remaining = None,
      st_stops_needed = None, st_window_open_lap = None, st_window_close_lap = None, st_target_lap_s = None,
      st_driver = None, st_driver_time_remaining_s = None, st_driver_total_remaining_s = None,
      st_refuel_elapsed_s = None, st_refuel_remaining_s = None, st_refuel_release_at = None, st_stop_plan = [],
      st_plan_drift = None, st_findings = []\<rparr>"

section \<open>Python arithmetic on optional numbers\<close>

text \<open>\<open>a or b\<close>, where zero is false as \<open>None\<close> is; \<open>if a\<close> on an optional number.\<close>

fun truthy_num :: "real option \<Rightarrow> bool" where
  "truthy_num None = False"
| "truthy_num (Some x) = (x \<noteq> 0)"

definition num_or :: "real option \<Rightarrow> real option \<Rightarrow> real option" where
  "num_or a b = (if truthy_num a then a else b)"

definition last_opt :: "'a list \<Rightarrow> 'a option" where
  "last_opt xs = (if xs = [] then None else Some (last xs))"

text \<open>The functions of the \<open>statistics\<close> module, on non-empty data.\<close>

definition fmean :: "real list \<Rightarrow> real" where
  "fmean xs = sum_list xs / real (length xs)"

definition stdev :: "real list \<Rightarrow> real" where
  "stdev xs = sqrt ((\<Sum>x\<leftarrow>xs. (x - fmean xs)\<^sup>2) / real (length xs - 1))"

definition round_opt :: "nat \<Rightarrow> real option \<Rightarrow> real option" where
  "round_opt digits v = map_option (\<lambda>x. py_round_digits x digits) v"

section \<open>Laps and burn\<close>

definition lap_window :: "lap_fact \<Rightarrow> (real \<times> real) option" where
  "lap_window l = (case lf_lap_time_s l of
     None \<Rightarrow> None
   | Some t \<Rightarrow> if t \<le> 0 then None else Some (lf_crossed_at l - t, lf_crossed_at l))"

definition touches_pits :: "lap_fact \<Rightarrow> stop_fact list \<Rightarrow> bool" where
  "touches_pits l stops = (case lap_window l of
     None \<Rightarrow> True
   | Some (start, fin) \<Rightarrow> (\<exists>p \<in> set stops.
       (start < pt_entry_at p \<and> pt_entry_at p \<le> fin)
       \<or> (case pt_exit_at p of None \<Rightarrow> False | Some x \<Rightarrow> start < x \<and> x \<le> fin)
       \<or> (pt_entry_at p \<le> start \<and> (case pt_exit_at p of None \<Rightarrow> True | Some x \<Rightarrow> fin \<le> x))))"

definition burn_candidate :: "stop_fact list \<Rightarrow> lap_fact \<Rightarrow> bool" where
  "burn_candidate stops l \<longleftrightarrow> lf_valid l
     \<and> (case lf_lap_time_s l of None \<Rightarrow> False | Some t \<Rightarrow> t > 0)
     \<and> lf_measurement_status l = ''clean''
     \<and> (case lf_fuel_used_l l of None \<Rightarrow> False | Some u \<Rightarrow> u > 0)
     \<and> lf_pit_status l \<noteq> Some ''pit'' \<and> \<not> touches_pits l stops"

definition lap_times :: "lap_fact list \<Rightarrow> real list" where
  "lap_times ls = filter (\<lambda>t. t \<noteq> 0) (List.map_filter lf_lap_time_s ls)"

definition clean_laps :: "lap_fact list \<Rightarrow> stop_fact list \<Rightarrow> strategy_policy \<Rightarrow> lap_fact list" where
  "clean_laps laps stops policy =
     (let candidates = filter (burn_candidate stops) laps in
      if candidates = [] then []
      else let recent = last_n (nat (max (sp_burn_window_laps policy * 2) 1)) candidates;
               reference = median (lap_times recent);
               ceiling_s = reference * (1 + sp_outlier_fraction policy)
           in filter (\<lambda>l. case lf_lap_time_s l of None \<Rightarrow> False | Some t \<Rightarrow> t \<le> ceiling_s) candidates)"

definition burn_of :: "lap_fact list \<Rightarrow> strategy_policy \<Rightarrow> burn_rate" where
  "burn_of clean policy =
     (let window = last_n (nat (max (sp_burn_window_laps policy) 1)) clean in
      if window = [] then
        \<lparr>bu_mean = None, bu_sd = None, bu_laps = 0, bu_lap_time_s = None, bu_lo = None, bu_hi = None\<rparr>
      else let burns = List.map_filter lf_fuel_used_l window;
               mean = fmean burns;
               sd = (if length burns \<ge> 2 then Some (stdev burns) else None);
               spread = (case sd of None \<Rightarrow> 0 | Some x \<Rightarrow> sp_burn_sigma policy * x);
               lap_time = fmean (lap_times window)
           in \<lparr>bu_mean = Some mean, bu_sd = sd, bu_laps = int (length window), bu_lap_time_s = Some lap_time,
               bu_lo = Some (max (mean - spread) (mean / 4)), bu_hi = Some (mean + spread)\<rparr>)"

section \<open>The re-base and the fuel remaining\<close>

fun stint_containing :: "stint_fact list \<Rightarrow> real \<Rightarrow> real \<Rightarrow> stint_fact option" where
  "stint_containing [] t now = None"
| "stint_containing (s # ss) t now =
     (let fin = (case sf_ended s of None \<Rightarrow> now | Some x \<Rightarrow> x)
      in if sf_started s \<le> t \<and> t \<le> fin then Some s else stint_containing ss t now)"

definition level_before :: "stint_fact \<Rightarrow> stint_fact list \<Rightarrow> real option" where
  "level_before stint stints =
     (case filter (\<lambda>c. sf_stint_number c < sf_stint_number stint \<and> sf_level_end_l c \<noteq> None) (rev stints) of
        [] \<Rightarrow> None | c # _ \<Rightarrow> sf_level_end_l c)"

definition fallback_rebase :: "stint_fact option \<Rightarrow> plan_facts option \<Rightarrow> real option \<Rightarrow> real \<Rightarrow> rebase" where
  "fallback_rebase current plan plan_at now =
     (case Option.bind current sf_level_end_l of
        Some level \<Rightarrow> \<lparr>rb_level_l = Some level, rb_at = Some now, rb_confidence = Moving, rb_fuel_added_l = None\<rparr>
      | None \<Rightarrow>
          (case plan of
             Some p \<Rightarrow> \<lparr>rb_level_l = Some (pf_tank_l p), rb_at = plan_at, rb_confidence = FromPlan, rb_fuel_added_l = None\<rparr>
           | None \<Rightarrow> \<lparr>rb_level_l = None, rb_at = None, rb_confidence = NoRebase, rb_fuel_added_l = None\<rparr>))"

definition rebase_of :: "stint_fact list \<Rightarrow> stop_fact list \<Rightarrow> plan_facts option \<Rightarrow> real \<Rightarrow> real \<Rightarrow> rebase" where
  "rebase_of stints stops plan session_started now =
     (let current = last_opt stints;
          refuels = filter (\<lambda>p. pt_stop_type p = ''refuel'' \<and> \<not> pt_is_open p \<and> pt_exit_at p \<noteq> None) stops
      in case last_opt refuels of
           Some refuel \<Rightarrow>
             (let exit_at = the (pt_exit_at refuel) in
              case stint_containing stints exit_at now of
                Some stint \<Rightarrow>
                  (case sf_level_start_l stint of
                     Some level \<Rightarrow>
                       (if sf_started stint \<ge> pt_entry_at refuel then
                          \<lparr>rb_level_l = Some level, rb_at = Some (sf_started stint), rb_confidence = KeyOn,
                           rb_fuel_added_l = map_option (\<lambda>before. level - before) (level_before stint stints)\<rparr>
                        else fallback_rebase current plan (Some exit_at) now)
                   | None \<Rightarrow> fallback_rebase current plan (Some exit_at) now)
              | None \<Rightarrow> fallback_rebase current plan (Some exit_at) now)
         | None \<Rightarrow>
             (case stints of
                first # _ \<Rightarrow>
                  (case sf_level_start_l first of
                     Some level \<Rightarrow> \<lparr>rb_level_l = Some level, rb_at = Some (sf_started first),
                                    rb_confidence = SessionStart, rb_fuel_added_l = None\<rparr>
                   | None \<Rightarrow> fallback_rebase current plan (Some session_started) now)
              | [] \<Rightarrow> fallback_rebase current plan (Some session_started) now))"

definition driven_seconds :: "real \<Rightarrow> real \<Rightarrow> stop_fact list \<Rightarrow> real" where
  "driven_seconds start fin stops =
     (if fin \<le> start then 0
      else max (fold (\<lambda>p driven.
             let stop_end = (case pt_exit_at p of None \<Rightarrow> fin | Some x \<Rightarrow> x);
                 overlap = min fin stop_end - max start (pt_entry_at p)
             in if overlap > 0 then driven - overlap else driven) stops (fin - start)) 0)"

text \<open>One lap after the re-base: litres used and laps substituted so far.\<close>

definition substituted_fraction :: "real \<Rightarrow> burn_rate \<Rightarrow> stop_fact list \<Rightarrow> lap_fact \<Rightarrow> real" where
  "substituted_fraction rebase_at burn stops l =
     (case lap_window l of
        None \<Rightarrow> 1
      | Some (start, fin) \<Rightarrow>
          (let driven = driven_seconds (max start rebase_at) fin stops;
               reference = (case num_or (bu_lap_time_s burn) None of Some t \<Rightarrow> t | None \<Rightarrow> fin - start)
           in if reference > 0 then min (max (driven / reference) 0) 1 else 1))"

definition burn_lap :: "real \<Rightarrow> burn_rate \<Rightarrow> stop_fact list \<Rightarrow> lap_fact \<Rightarrow> real \<times> nat \<Rightarrow> real \<times> nat" where
  "burn_lap rebase_at burn stops l acc =
     (let (used, substituted) = acc in
      if lf_crossed_at l \<le> rebase_at then acc
      else if lf_measurement_status l = ''clean'' \<and> lf_fuel_used_l l \<noteq> None
      then (used + the (lf_fuel_used_l l), substituted)
      else case bu_mean burn of
             None \<Rightarrow> acc
           | Some mean \<Rightarrow> (used + mean * substituted_fraction rebase_at burn stops l, substituted + 1))"

definition fuel_spread :: "rebase_confidence \<Rightarrow> nat \<Rightarrow> burn_rate \<Rightarrow> real" where
  "fuel_spread confidence substituted burn =
     REBASE_UNCERTAINTY_L confidence
     + real substituted * (case num_or (bu_sd burn) None of
         Some sd \<Rightarrow> sd
       | None \<Rightarrow> (case bu_mean burn of None \<Rightarrow> 0 | Some mean \<Rightarrow> mean) / 4)"

definition fuel_remaining :: "rebase \<Rightarrow> lap_fact list \<Rightarrow> stop_fact list \<Rightarrow> burn_rate \<Rightarrow> (real \<times> real \<times> real) option" where
  "fuel_remaining rebase laps stops burn =
     (case (rb_level_l rebase, rb_at rebase) of
        (Some level, Some rebase_at) \<Rightarrow>
          (if rb_confidence rebase = Moving then
             (let u = REBASE_UNCERTAINTY_L Moving in Some (level, level - u, level + u))
           else let (used, substituted) = fold (burn_lap rebase_at burn stops) laps (0, 0);
                    remaining = level - used;
                    spread = fuel_spread (rb_confidence rebase) substituted burn
                in Some (remaining, remaining - spread, remaining + spread))
      | _ \<Rightarrow> None)"

section \<open>The race end and the planned stops\<close>

definition laps_remaining :: "plan_facts option \<Rightarrow> int \<Rightarrow> real option \<Rightarrow> real \<Rightarrow> int option" where
  "laps_remaining plan lap_count lap_time_s now =
     (case plan of
        None \<Rightarrow> None
      | Some p \<Rightarrow>
          (case (pf_end_authority p = ''laps'', pf_race_end_laps p) of
             (True, Some end_laps) \<Rightarrow> Some (max (end_laps - lap_count) 0)
           | _ \<Rightarrow>
               (case pf_race_end_at p of
                  None \<Rightarrow> None
                | Some end_at \<Rightarrow>
                    (case num_or lap_time_s None of
                       None \<Rightarrow> None
                     | Some t \<Rightarrow> Some (max \<lceil>(end_at - now) / t\<rceil> 0)))))"

text \<open>A field of a stop that is a number and not a bool.\<close>

fun stop_number :: "json \<Rightarrow> flt option" where
  "stop_number (JInt n) = Some (Fin (of_int n))"
| "stop_number (JFloat f) = Some f"
| "stop_number _ = None"

fun flt_greater :: "flt \<Rightarrow> real \<Rightarrow> bool" where
  "flt_greater (Fin x) y = (x > y)"
| "flt_greater PInf y = True"
| "flt_greater _ y = False"

fun flt_div :: "flt \<Rightarrow> real \<Rightarrow> flt" where
  "flt_div (Fin x) y = Fin (x / y)"
| "flt_div f y = f"

definition planned_lap :: "jdict \<Rightarrow> int \<Rightarrow> real \<Rightarrow> real \<Rightarrow> int option res" where
  "planned_lap stop lap_count lap_time_s now =
     (case stop_number (jget stop ''at_lap'') of
        Some f \<Rightarrow> sbind (int_of_flt f) (\<lambda>n. Inr (Some n))
      | None \<Rightarrow>
          (case stop_number (jget stop ''at_ms'') of
             Some f \<Rightarrow>
               (if lap_time_s \<noteq> 0 then
                  (case flt_div f 1000 of
                     Fin t \<Rightarrow> Inr (Some (lap_count + max \<lfloor>(t - now) / lap_time_s\<rfloor> 0))
                   | NaN \<Rightarrow> Inl ValueError
                   | _ \<Rightarrow> Inl OverflowError)
                else Inr None)
           | None \<Rightarrow> Inr None))"

definition still_planned :: "int \<Rightarrow> real \<Rightarrow> jdict \<Rightarrow> bool" where
  "still_planned lap_count now stop =
     (case stop_number (jget stop ''at_lap'') of
        Some f \<Rightarrow> flt_greater f (of_int lap_count)
      | None \<Rightarrow>
          (case stop_number (jget stop ''at_ms'') of
             Some f \<Rightarrow> flt_greater (flt_div f 1000) now
           | None \<Rightarrow> False))"

definition remaining_planned :: "plan_facts \<Rightarrow> int \<Rightarrow> real \<Rightarrow> jdict list" where
  "remaining_planned plan lap_count now = filter (still_planned lap_count now) (pf_planned_stops plan)"

section \<open>The window\<close>

definition window_findings :: "int \<Rightarrow> int \<Rightarrow> int \<Rightarrow> real \<Rightarrow> strategy_policy \<Rightarrow> strategy_finding list" where
  "window_findings lap_count window_open window_close laps_lo policy =
     (let laps_left = window_close - lap_count;
          facts = [(''window_open_lap'', JInt window_open), (''window_close_lap'', JInt window_close),
                   (''laps_to_dry_lo'', JFloat (Fin (py_round_digits laps_lo 2)))]
      in if window_open > window_close then
           [\<lparr>fi_monitor = ''strategy.pit_window'', fi_severity = ''critical'', fi_score = 1,
             fi_summary = (''message'', JStr (''the window has closed: stopping by lap '' @ show_int window_close
               @ '' cannot reach the end with the planned stops (earliest lap '' @ show_int window_open @ '')'')) # facts\<rparr>]
         else if laps_left \<le> sp_window_warn_laps policy then
           [\<lparr>fi_monitor = ''strategy.pit_window'',
             fi_severity = (if laps_lo < 1 then ''critical'' else ''warning''),
             fi_score = (if laps_lo < 1 then 1
                         else 1 - of_int laps_left / of_int (max (sp_window_warn_laps policy + 1) 1)),
             fi_summary = (''message'', JStr (''pit window closes at lap '' @ show_int window_close @ '', ''
               @ show_int laps_left @ '' lap(s) away'')) # facts\<rparr>]
         else [])"

section \<open>The stop plan\<close>

text \<open>The state of the walk to the race end, and one stop of it.\<close>

record walk =
  wk_fuel_laps :: real
  wk_drive_left :: "real option"
  wk_lap :: int
  wk_clock :: real
  wk_remaining :: int
  wk_stops :: "sim_stop list"

definition laps_on_fuel :: "walk \<Rightarrow> int" where
  "laps_on_fuel w = max \<lfloor>wk_fuel_laps w\<rfloor> 0"

definition laps_on_driver :: "real \<Rightarrow> walk \<Rightarrow> int option" where
  "laps_on_driver lap_time_s w = map_option (\<lambda>d. max \<lfloor>d / lap_time_s\<rfloor> 0) (wk_drive_left w)"

definition can_drive :: "real \<Rightarrow> walk \<Rightarrow> int" where
  "can_drive lap_time_s w =
     (case laps_on_driver lap_time_s w of None \<Rightarrow> laps_on_fuel w | Some d \<Rightarrow> min (laps_on_fuel w) d)"

definition walk_stop ::
  "plan_facts \<Rightarrow> jdict list \<Rightarrow> int \<Rightarrow> real \<Rightarrow> real \<Rightarrow> real option \<Rightarrow> real \<Rightarrow> walk \<Rightarrow> walk res" where
  "walk_stop plan planned lap_count full_range_lo lap_time_s limit_s now w =
     (let can = can_drive lap_time_s w;
          by_fuel = (case laps_on_driver lap_time_s w of None \<Rightarrow> True | Some d \<Rightarrow> laps_on_fuel w \<le> d);
          refuel = (by_fuel \<or> wk_fuel_laps w - of_int can < of_int (wk_remaining w - can));
          k = length (wk_stops w);
          planned_stop = (if k < length planned then planned ! k else []);
          driver_in = (if planned_stop \<noteq> [] then jget planned_stop ''driver_in'' else JNull);
          stop_lap = wk_lap w + can;
          duration = (if refuel then pf_refuel_min_s plan else pf_service_typical_s plan);
          clock = wk_clock w + (of_int can * lap_time_s + of_int duration)
      in sbind (if planned_stop \<noteq> [] then planned_lap planned_stop lap_count lap_time_s now else Inr None) (\<lambda>at_lap.
           Inr \<lparr>wk_fuel_laps = (if refuel then full_range_lo else wk_fuel_laps w - of_int can),
                wk_drive_left = (case (wk_drive_left w, limit_s) of
                    (Some d, Some l) \<Rightarrow> Some (if truthy driver_in \<or> \<not> by_fuel then l else d - of_int can * lap_time_s)
                  | _ \<Rightarrow> wk_drive_left w),
                wk_lap = stop_lap, wk_clock = clock,
                wk_remaining = (case (pf_end_authority plan = ''time'', pf_race_end_at plan) of
                    (True, Some end_at) \<Rightarrow> max \<lceil>(end_at - clock) / lap_time_s\<rceil> 0
                  | _ \<Rightarrow> wk_remaining w - can),
                wk_stops = wk_stops w @
                  [\<lparr>ss_lap = stop_lap, ss_type = (if refuel then ''refuel'' else ''service''), ss_driver_in = driver_in,
                    ss_reason = (if by_fuel then ''fuel'' else ''driver''), ss_at = clock, ss_planned_lap = at_lap,
                    ss_delta_laps = None\<rparr>]\<rparr>))"

lemma walk_stop_length:
  "walk_stop plan planned lap_count full lt limit_s now w = Inr w' \<Longrightarrow> length (wk_stops w') = Suc (length (wk_stops w))"
  by (auto simp: walk_stop_def Let_def sbind_Inr_iff)

function walk_loop ::
  "plan_facts \<Rightarrow> jdict list \<Rightarrow> int \<Rightarrow> real \<Rightarrow> real \<Rightarrow> real option \<Rightarrow> real \<Rightarrow> int \<Rightarrow> walk \<Rightarrow> walk res" where
  "walk_loop plan planned lap_count full_range_lo lap_time_s limit_s now max_stops w =
     (if wk_remaining w > 0 \<and> int (length (wk_stops w)) < max_stops then
        if can_drive lap_time_s w \<ge> wk_remaining w then Inr w
        else case walk_stop plan planned lap_count full_range_lo lap_time_s limit_s now w of
               Inl e \<Rightarrow> Inl e
             | Inr w' \<Rightarrow> walk_loop plan planned lap_count full_range_lo lap_time_s limit_s now max_stops w'
      else Inr w)"
  by pat_completeness auto
termination
  by (relation "measure (\<lambda>(_, _, _, _, _, _, _, m, w). nat (m - int (length (wk_stops w))))")
    (auto simp: walk_stop_length)

declare walk_loop.simps [simp del]

definition stop_plan ::
  "plan_facts \<Rightarrow> int \<Rightarrow> int option \<Rightarrow> real \<Rightarrow> real \<Rightarrow> real \<Rightarrow> real option \<Rightarrow> real \<Rightarrow> strategy_policy \<Rightarrow> sim_stop list res" where
  "stop_plan plan lap_count remaining laps_lo full_range_lo lap_time_s driver_remaining_s now policy =
     (case remaining of
        None \<Rightarrow> Inr []
      | Some n \<Rightarrow>
          if full_range_lo < 1 then Inr []
          else
            (let planned = remaining_planned plan lap_count now;
                 limit_s = (case pf_driver_limits plan ''max_continuous_min'' of
                              None \<Rightarrow> None | Some m \<Rightarrow> if m \<noteq> 0 then Some (of_int m * 60) else None);
                 w0 = \<lparr>wk_fuel_laps = laps_lo, wk_drive_left = (if limit_s \<noteq> None then driver_remaining_s else None),
                       wk_lap = lap_count, wk_clock = now, wk_remaining = n, wk_stops = []\<rparr>
             in sbind (walk_loop plan planned lap_count full_range_lo lap_time_s limit_s now (sp_max_simulated_stops policy) w0)
                  (\<lambda>w. Inr (map (\<lambda>x. x\<lparr>ss_delta_laps := map_option (\<lambda>l. ss_lap x - l) (ss_planned_lap x)\<rparr>) (wk_stops w)))))"

definition plan_drift_of :: "plan_facts \<Rightarrow> sim_stop list \<Rightarrow> int \<Rightarrow> real \<Rightarrow> strategy_policy \<Rightarrow> drift option" where
  "plan_drift_of plan stops lap_count now policy =
     (if pf_planned_stops plan = [] then None
      else let planned = remaining_planned plan lap_count now;
               deltas = List.map_filter ss_delta_laps stops;
               max_abs = Max (insert 0 (abs ` set deltas))
           in Some \<lparr>dr_planned = int (length planned), dr_computed = int (length stops), dr_max_abs_delta = max_abs,
                    dr_first_delta = (case deltas of [] \<Rightarrow> 0 | d # _ \<Rightarrow> d),
                    dr_diverged = (length planned \<noteq> length stops \<or> max_abs > sp_plan_drift_laps policy)\<rparr>)"

section \<open>Driver time, the target lap and the refuel clock\<close>

definition limit_minutes :: "plan_facts \<Rightarrow> string \<Rightarrow> int option" where
  "limit_minutes plan key = (case pf_driver_limits plan key of
     None \<Rightarrow> None | Some m \<Rightarrow> if m \<noteq> 0 then Some m else None)"

definition worst_limit :: "(string \<times> real option \<times> int option) list \<Rightarrow> strategy_policy \<Rightarrow> (string \<times> real \<times> real) option" where
  "worst_limit rows policy = fold (\<lambda>(name, v, limit_min) worst.
     case (v, limit_min) of
       (Some x, Some m) \<Rightarrow>
         (if x \<le> sp_driver_margin_s policy \<and> (case worst of None \<Rightarrow> True | Some (_, y, _) \<Rightarrow> x < y)
          then Some (name, x, of_int m * 60) else worst)
     | _ \<Rightarrow> worst) rows None"

definition driver_finding :: "string \<Rightarrow> string \<Rightarrow> real \<Rightarrow> real \<Rightarrow> strategy_policy \<Rightarrow> strategy_finding" where
  "driver_finding driver name v limit_s policy =
     (let over = (v \<le> 0) in
      \<lparr>fi_monitor = ''strategy.driver_time'', fi_severity = (if over then ''critical'' else ''warning''),
       fi_score = (if over then 1 else 1 - v / max (sp_driver_margin_s policy) 1),
       fi_summary =
         [(''message'', JStr (driver @ '': '' @ name @ '' drive time ''
             @ (if over then ''exceeded by '' @ show_fixed 0 (- v / 60) @ '' min'' else show_fixed 0 (v / 60) @ '' min left'')
             @ '' of '' @ show_fixed 0 (limit_s / 60))),
          (''driver'', JStr driver), (''limit'', JStr name),
          (''remaining_s'', JFloat (Fin (py_round_digits v 1))), (''limit_s'', JFloat (Fin limit_s))]\<rparr>)"

definition driver_time ::
  "stint_fact option \<Rightarrow> stint_fact list \<Rightarrow> plan_facts option \<Rightarrow> real \<Rightarrow> strategy_policy
    \<Rightarrow> real option \<times> real option \<times> strategy_finding list" where
  "driver_time stint stints plan now policy =
     (case (stint, plan) of
        (Some s, Some p) \<Rightarrow>
          (let continuous_s = now - sf_started s;
               total_s = (\<Sum>c\<leftarrow>filter (\<lambda>c. sf_driver c = sf_driver s) stints.
                            (case sf_ended c of None \<Rightarrow> now | Some x \<Rightarrow> x) - sf_started c);
               remaining = map_option (\<lambda>m. of_int m * 60 - continuous_s) (limit_minutes p ''max_continuous_min'');
               total_remaining = map_option (\<lambda>m. of_int m * 60 - total_s) (limit_minutes p ''max_total_min'');
               worst = worst_limit [(''continuous'', remaining, pf_driver_limits p ''max_continuous_min''),
                                    (''total'', total_remaining, pf_driver_limits p ''max_total_min'')] policy
           in (remaining, total_remaining,
               case worst of None \<Rightarrow> [] | Some (name, v, limit_s) \<Rightarrow> [driver_finding (sf_driver s) name v limit_s policy]))
      | _ \<Rightarrow> (None, None, []))"

definition target_lap :: "plan_facts option \<Rightarrow> real option \<Rightarrow> int \<Rightarrow> real \<Rightarrow> real option res" where
  "target_lap plan laps_lo lap_count now =
     (case (plan, laps_lo) of
        (Some p, Some lo) \<Rightarrow>
          (if lo \<le> 0 then Inr None
           else let planned = remaining_planned p lap_count now in
             sbind (case planned of
                 stop # _ \<Rightarrow>
                   (case stop_number (jget stop ''at_ms'') of
                      Some f \<Rightarrow> sbind (fromtimestamp (flt_div f 1000)) (\<lambda>t. Inr (Some t))
                    | None \<Rightarrow> Inr None)
               | [] \<Rightarrow> Inr None) (\<lambda>moment.
             let moment = (if moment = None \<and> pf_end_authority p = ''time'' \<and> planned = [] then pf_race_end_at p else moment)
             in Inr (case moment of
                  None \<Rightarrow> None
                | Some t \<Rightarrow> if t - now \<le> 0 then None else Some ((t - now) / lo))))
      | _ \<Rightarrow> Inr None)"

definition refuel_clock :: "stop_fact list \<Rightarrow> plan_facts option \<Rightarrow> real \<Rightarrow> real option \<times> real option \<times> real option" where
  "refuel_clock stops plan now =
     (case (last_opt (filter (\<lambda>p. pt_is_open p \<and> pt_stop_type p = ''refuel'') stops), plan) of
        (Some p, Some pl) \<Rightarrow>
          (let elapsed = now - pt_entry_at p
           in (Some elapsed, Some (max (of_int (pf_refuel_min_s pl) - elapsed) 0),
               Some (pt_entry_at p + of_int (pf_refuel_min_s pl))))
      | _ \<Rightarrow> (None, None, None))"

section \<open>The evaluation\<close>

text \<open>Usable fuel: the central value and its bounds.\<close>

definition usable_fuel :: "plan_facts option \<Rightarrow> (real \<times> real \<times> real) option \<Rightarrow> (real \<times> real \<times> real) option" where
  "usable_fuel plan fuel =
     (case (plan, fuel) of
        (Some p, Some (f, lo, hi)) \<Rightarrow>
          (let unusable = pf_tank_l p - pf_usable_fuel_l p;
               or_fuel = (\<lambda>x. if x \<noteq> 0 then x else f)
           in Some (max (f - unusable) 0, max (or_fuel lo - unusable) 0, max (or_fuel hi - unusable) 0))
      | _ \<Rightarrow> None)"

definition laps_to_dry :: "(real \<times> real \<times> real) option \<Rightarrow> burn_rate \<Rightarrow> real option \<times> real option" where
  "laps_to_dry usable burn =
     (case usable of
        None \<Rightarrow> (None, None)
      | Some (_, lo, hi) \<Rightarrow>
          if truthy_num (bu_mean burn) then
            (map_option (\<lambda>b. lo / b) (num_or (bu_hi burn) None), map_option (\<lambda>b. hi / b) (num_or (bu_lo burn) None))
          else (None, None))"

definition times_to_dry :: "real option \<times> real option \<Rightarrow> burn_rate \<Rightarrow> real option \<times> real option" where
  "times_to_dry laps burn =
     (case (laps, num_or (bu_lap_time_s burn) None) of
        ((Some lo, Some hi), Some t) \<Rightarrow> (Some (lo * t), Some (hi * t))
      | _ \<Rightarrow> (None, None))"

record pit_window =
  pw_full_range_lo :: "real option"
  pw_stops_needed :: "int option"
  pw_open :: "int option"
  pw_close :: "int option"
  pw_findings :: "strategy_finding list"

definition no_window :: pit_window where
  "no_window = \<lparr>pw_full_range_lo = None, pw_stops_needed = None, pw_open = None, pw_close = None, pw_findings = []\<rparr>"

definition planned_refuels :: "plan_facts \<Rightarrow> int \<Rightarrow> real \<Rightarrow> int" where
  "planned_refuels plan lap_count now =
     int (length (filter (\<lambda>stop. jget stop ''type'' = JStr ''refuel'') (remaining_planned plan lap_count now)))"

definition pit_window_of ::
  "plan_facts option \<Rightarrow> burn_rate \<Rightarrow> real option \<Rightarrow> int option \<Rightarrow> int \<Rightarrow> real \<Rightarrow> strategy_policy \<Rightarrow> pit_window" where
  "pit_window_of plan burn laps_lo remaining lap_count now policy =
     (case (plan, num_or (bu_hi burn) None, laps_lo, remaining) of
        (Some p, Some hi, Some lo, Some n) \<Rightarrow>
          (let full = pf_usable_fuel_l p / hi; w = no_window\<lparr>pw_full_range_lo := Some full\<rparr> in
           if of_int n \<le> lo then w\<lparr>pw_stops_needed := Some 0\<rparr>
           else if full \<ge> 1 then
             (let needed = \<lceil>(of_int n - lo) / full\<rceil>;
                  total = max needed (planned_refuels p lap_count now);
                  close_lap = lap_count + \<lfloor>lo\<rfloor>;
                  open_lap = max lap_count \<lceil>of_int (lap_count + n) - of_int total * full\<rceil>
              in w\<lparr>pw_stops_needed := Some needed, pw_open := Some open_lap, pw_close := Some close_lap,
                   pw_findings := window_findings lap_count open_lap close_lap lo policy\<rparr>)
           else w)
      | _ \<Rightarrow> no_window)"

definition drift_summary :: "drift \<Rightarrow> jdict" where
  "drift_summary d =
     [(''message'', JStr (''the numbers now say '' @ show_int (dr_computed d) @ '' stop(s); the plan says ''
         @ show_int (dr_planned d) @ '', first stop off by '' @ show_signed (dr_first_delta d) @ '' lap(s)'')),
      (''planned'', JInt (dr_planned d)), (''computed'', JInt (dr_computed d)),
      (''max_abs_delta'', JInt (dr_max_abs_delta d)), (''first_delta'', JInt (dr_first_delta d)),
      (''diverged'', JBool (dr_diverged d))]"

definition drift_findings :: "drift option \<Rightarrow> strategy_policy \<Rightarrow> strategy_finding list" where
  "drift_findings drift policy =
     (case drift of
        Some d \<Rightarrow>
          (if dr_diverged d then
             [\<lparr>fi_monitor = ''strategy.plan_drift'', fi_severity = ''warning'',
               fi_score = min 1 (of_int (dr_max_abs_delta d) / of_int (max (sp_plan_drift_laps policy) 1)),
               fi_summary = drift_summary d\<rparr>]
           else [])
      | None \<Rightarrow> [])"

definition opt_num :: "real option \<Rightarrow> json" where
  "opt_num v = (case v of None \<Rightarrow> JNull | Some x \<Rightarrow> JFloat (Fin x))"

definition short_fill_findings :: "rebase \<Rightarrow> plan_facts option \<Rightarrow> strategy_policy \<Rightarrow> strategy_finding list" where
  "short_fill_findings rebase plan policy =
     (case (rb_confidence rebase, plan, rb_level_l rebase) of
        (KeyOn, Some p, Some level) \<Rightarrow>
          (let expected = pf_tank_l p in
           if level < expected * (1 - sp_short_fill_fraction policy) then
             [\<lparr>fi_monitor = ''strategy.short_fill'', fi_severity = ''warning'',
               fi_score = min 1 ((expected - level) / expected),
               fi_summary =
                 [(''message'', JStr (''level after refuel '' @ show_fixed 1 level @ '' L against a '' @ show_fixed 1 expected @ '' L tank'')),
                  (''expected_l'', JFloat (Fin expected)), (''observed_l'', JFloat (Fin level)),
                  (''fuel_added_l'', opt_num (rb_fuel_added_l rebase))]\<rparr>]
           else [])
      | _ \<Rightarrow> [])"

text \<open>The part of the evaluation that cannot raise.\<close>

record projection =
  pr_lap_count :: int
  pr_stints :: "stint_fact list"
  pr_stops :: "stop_fact list"
  pr_burn :: burn_rate
  pr_rebase :: rebase
  pr_fuel :: "(real \<times> real \<times> real) option"
  pr_laps_to_dry :: "real option \<times> real option"
  pr_times_to_dry :: "real option \<times> real option"
  pr_laps_remaining :: "int option"
  pr_window :: pit_window

definition project :: "race_inputs \<Rightarrow> strategy_policy \<Rightarrow> projection" where
  "project inputs policy =
     (let now = ri_now inputs; plan = ri_plan inputs;
          laps = sort_key lf_crossed_at (ri_laps inputs); lap_count = int (length laps);
          stints = sort_key sf_stint_number (ri_stints inputs); stops = sort_key pt_entry_at (ri_stops inputs);
          burn = burn_of (clean_laps laps stops policy) policy;
          rebase = rebase_of stints stops plan (ri_session_started inputs) now;
          fuel = fuel_remaining rebase laps stops burn;
          dry = laps_to_dry (usable_fuel plan fuel) burn;
          remaining = laps_remaining plan lap_count (bu_lap_time_s burn) now
      in \<lparr>pr_lap_count = lap_count, pr_stints = stints, pr_stops = stops, pr_burn = burn, pr_rebase = rebase,
          pr_fuel = fuel, pr_laps_to_dry = dry, pr_times_to_dry = times_to_dry dry burn, pr_laps_remaining = remaining,
          pr_window = pit_window_of plan burn (fst dry) remaining lap_count now policy\<rparr>)"

text \<open>The stop plan and its drift, computed when there is a plan, a burn and a full range.\<close>

definition plan_ahead ::
  "race_inputs \<Rightarrow> strategy_policy \<Rightarrow> projection \<Rightarrow> real option \<Rightarrow> (sim_stop list \<times> drift option) res" where
  "plan_ahead inputs policy p driver_remaining =
     (case (ri_plan inputs, fst (pr_laps_to_dry p), num_or (bu_lap_time_s (pr_burn p)) None,
            num_or (pw_full_range_lo (pr_window p)) None) of
        (Some pl, Some lo, Some lap_time, Some full) \<Rightarrow>
          sbind (stop_plan pl (pr_lap_count p) (pr_laps_remaining p) lo full lap_time driver_remaining (ri_now inputs) policy)
            (\<lambda>stops. Inr (stops, plan_drift_of pl stops (pr_lap_count p) (ri_now inputs) policy))
      | _ \<Rightarrow> Inr ([], None))"

definition evaluate :: "race_inputs \<Rightarrow> strategy_policy \<Rightarrow> string \<Rightarrow> strategy_state res" where
  "evaluate inputs policy trigger =
     (let now = ri_now inputs; plan = ri_plan inputs; p = project inputs policy;
          stint = last_opt (pr_stints p);
          (driver_remaining, total_remaining, driver_found) = driver_time stint (pr_stints p) plan now policy
      in sbind (plan_ahead inputs policy p driver_remaining) (\<lambda>(stops_ahead, drift).
         sbind (target_lap plan (fst (pr_laps_to_dry p)) (pr_lap_count p) now) (\<lambda>target.
         let (refuel_elapsed, refuel_left, release_at) = refuel_clock (pr_stops p) plan now in
         Inr \<lparr>st_time = now, st_vehicle_id = ri_vehicle_id inputs, st_session_id = Some (ri_session_id inputs),
              st_trigger = trigger, st_lap_number = (if pr_lap_count p = 0 then None else Some (pr_lap_count p)),
              st_plan_revision = map_option pf_revision plan,
              st_fuel_remaining_l = round_opt 2 (map_option fst (pr_fuel p)),
              st_fuel_remaining_lo_l = round_opt 2 (map_option (fst \<circ> snd) (pr_fuel p)),
              st_fuel_remaining_hi_l = round_opt 2 (map_option (snd \<circ> snd) (pr_fuel p)),
              st_rebase_confidence = confidence_text (rb_confidence (pr_rebase p)),
              st_rebase_level_l = round_opt 2 (rb_level_l (pr_rebase p)), st_rebase_at = rb_at (pr_rebase p),
              st_fuel_added_l = round_opt 2 (rb_fuel_added_l (pr_rebase p)),
              st_burn_l_per_lap = round_opt 4 (bu_mean (pr_burn p)), st_burn_sd = round_opt 4 (bu_sd (pr_burn p)),
              st_burn_laps = bu_laps (pr_burn p), st_lap_time_ref_s = round_opt 2 (bu_lap_time_s (pr_burn p)),
              st_laps_to_dry_lo = round_opt 2 (fst (pr_laps_to_dry p)),
              st_laps_to_dry_hi = round_opt 2 (snd (pr_laps_to_dry p)),
              st_time_to_dry_s_lo = round_opt 1 (fst (pr_times_to_dry p)),
              st_time_to_dry_s_hi = round_opt 1 (snd (pr_times_to_dry p)),
              st_laps_remaining = pr_laps_remaining p, st_stops_needed = pw_stops_needed (pr_window p),
              st_window_open_lap = pw_open (pr_window p), st_window_close_lap = pw_close (pr_window p),
              st_target_lap_s = round_opt 2 target, st_driver = map_option sf_driver stint,
              st_driver_time_remaining_s = round_opt 1 driver_remaining,
              st_driver_total_remaining_s = round_opt 1 total_remaining,
              st_refuel_elapsed_s = round_opt 1 refuel_elapsed, st_refuel_remaining_s = round_opt 1 refuel_left,
              st_refuel_release_at = release_at, st_stop_plan = stops_ahead, st_plan_drift = drift,
              st_findings = pw_findings (pr_window p) @ driver_found @ drift_findings drift policy
                @ short_fill_findings (pr_rebase p) plan policy\<rparr>)))"

end
