(* ===== verification/Strategy.thy ===== *)
theory Strategy
  imports Strategy_Model
begin

text \<open>
  Properties of the strategy arithmetic of \<open>Strategy_Model\<close>: the bounds every projection carries, the
  number of stops and the pit window, and that the simulated stop plan never runs the tank dry on the
  lower bound.
\<close>

section \<open>Burn\<close>

lemma map_filter_pos:
  assumes "\<forall>l \<in> set ls. \<exists>x. f l = Some x \<and> (0::real) < x"
  shows "length (List.map_filter f ls) = length ls" "\<forall>x \<in> set (List.map_filter f ls). 0 < x"
  using assms by (induction ls) (auto simp: List.map_filter_simps)

lemma fmean_pos:
  assumes "xs \<noteq> []" and "\<forall>x \<in> set xs. 0 < x"
  shows "0 < fmean xs"
proof -
  have "0 < sum_list xs" using assms
  proof (induction xs rule: list_nonempty_induct)
    case (cons x xs)
    then show ?case by (simp add: add_pos_pos)
  qed simp
  then show ?thesis using assms(1) by (simp add: fmean_def)
qed

lemma stdev_nonneg: "0 \<le> stdev xs"
  unfolding stdev_def by (intro real_sqrt_ge_zero divide_nonneg_nonneg sum_list_nonneg) auto

lemma clean_laps_measured:
  assumes "l \<in> set (clean_laps laps stops policy)"
  shows "\<exists>t. lf_lap_time_s l = Some t \<and> 0 < t" "\<exists>u. lf_fuel_used_l l = Some u \<and> 0 < u"
  using assms by (auto simp: clean_laps_def burn_candidate_def Let_def split: if_splits option.splits)

text \<open>A burn has all of its numbers, in order, or none of them.\<close>

definition burn_ok :: "burn_rate \<Rightarrow> bool" where
  "burn_ok b \<longleftrightarrow> (case (bu_mean b, bu_lo b, bu_hi b, bu_lap_time_s b) of
      (Some m, Some lo, Some hi, Some t) \<Rightarrow> 0 < lo \<and> lo \<le> m \<and> m \<le> hi \<and> 0 < t
    | (None, None, None, None) \<Rightarrow> True | _ \<Rightarrow> False) \<and> (\<forall>sd. bu_sd b = Some sd \<longrightarrow> 0 \<le> sd)"

lemma lap_times_pos:
  assumes "\<forall>l \<in> set ls. \<exists>t. lf_lap_time_s l = Some t \<and> 0 < t"
  shows "length (lap_times ls) = length ls" "\<forall>t \<in> set (lap_times ls). 0 < t"
proof -
  note m = map_filter_pos[of ls lf_lap_time_s, OF assms]
  have "lap_times ls = List.map_filter lf_lap_time_s ls"
    unfolding lap_times_def using m(2) by (intro filter_True) auto
  with m show "length (lap_times ls) = length ls" "\<forall>t \<in> set (lap_times ls). 0 < t" by simp_all
qed

lemma burn_of_ok:
  assumes "0 \<le> sp_burn_sigma policy"
  shows "burn_ok (burn_of (clean_laps laps stops policy) policy)"
proof -
  define window where "window = last_n (nat (max (sp_burn_window_laps policy) 1)) (clean_laps laps stops policy)"
  have w: "\<forall>l \<in> set window. \<exists>t. lf_lap_time_s l = Some t \<and> 0 < t" "\<forall>l \<in> set window. \<exists>u. lf_fuel_used_l l = Some u \<and> 0 < u"
    unfolding window_def by (auto dest!: subsetD[OF set_last_n] intro: clean_laps_measured)
  show ?thesis
  proof (cases "window = []")
    case False
    let ?burns = "List.map_filter lf_fuel_used_l window"
    have "0 < fmean ?burns" using map_filter_pos[OF w(2)] False by (intro fmean_pos) auto
    moreover have "0 < fmean (lap_times window)" using lap_times_pos[OF w(1)] False by (intro fmean_pos) auto
    moreover have "0 \<le> sp_burn_sigma policy * stdev ?burns" using assms stdev_nonneg by simp
    ultimately show ?thesis
      using False unfolding burn_of_def window_def[symmetric] Let_def
      by (simp add: burn_ok_def stdev_nonneg less_max_iff_disj)
  qed (simp add: burn_of_def burn_ok_def window_def[symmetric])
qed

section \<open>Bounds\<close>

text \<open>Both missing, or both present and in order.\<close>

fun opt_le :: "real option \<Rightarrow> real option \<Rightarrow> bool" where
  "opt_le None None = True"
| "opt_le (Some x) (Some y) = (x \<le> y)"
| "opt_le _ _ = False"

lemma opt_le_round: "opt_le a b \<Longrightarrow> opt_le (round_opt d a) (round_opt d b)"
  by (cases "(a, b)" rule: opt_le.cases) (auto simp: round_opt_def py_round_digits_mono)

lemma uncertainty_nonneg: "0 \<le> REBASE_UNCERTAINTY_L c"
  by (cases c) auto

lemma fuel_spread_nonneg: "burn_ok b \<Longrightarrow> 0 \<le> fuel_spread c n b"
  unfolding fuel_spread_def num_or_def using uncertainty_nonneg[of c]
  by (auto simp: burn_ok_def split: option.splits intro!: add_nonneg_nonneg mult_nonneg_nonneg)

lemma fuel_remaining_ordered:
  assumes "burn_ok b" and "fuel_remaining r laps stops b = Some (f, lo, hi)"
  shows "lo \<le> f \<and> f \<le> hi \<and> hi - f = f - lo"
  using assms fuel_spread_nonneg[OF assms(1)]
  by (auto simp: fuel_remaining_def Let_def split: option.splits if_splits prod.splits)

lemma usable_fuel_ordered:
  assumes "burn_ok b" and "usable_fuel plan (fuel_remaining r laps stops b) = Some (u, lo, hi)"
  shows "0 \<le> lo \<and> lo \<le> hi"
proof -
  obtain p f flo fhi where "plan = Some p" and fr: "fuel_remaining r laps stops b = Some (f, flo, fhi)"
    using assms(2) by (auto simp: usable_fuel_def split: option.splits)
  with assms(2) fuel_remaining_ordered[OF assms(1) fr] show ?thesis
    by (auto simp: usable_fuel_def Let_def max_def split: if_splits)
qed

lemma laps_to_dry_ordered:
  assumes "burn_ok b" and "\<And>u lo hi. usable = Some (u, lo, hi) \<Longrightarrow> 0 \<le> lo \<and> lo \<le> hi"
  shows "opt_le (fst (laps_to_dry usable b)) (snd (laps_to_dry usable b))
    \<and> (\<forall>x. fst (laps_to_dry usable b) = Some x \<longrightarrow> 0 \<le> x)"
proof (cases "usable")
  case (Some z)
  obtain u lo hi where z: "usable = Some (u, lo, hi)" using Some by (cases z) auto
  note o = assms(2)[OF z]
  show ?thesis
  proof (cases "bu_mean b")
    case None
    with z show ?thesis by (simp add: laps_to_dry_def)
  next
    case (Some m)
    with assms(1) obtain blo bhi t where b: "bu_lo b = Some blo" "bu_hi b = Some bhi" "bu_lap_time_s b = Some t"
      and q: "0 < blo" "blo \<le> m" "m \<le> bhi" "0 < t"
      by (auto simp: burn_ok_def split: option.splits)
    have "lo / bhi \<le> hi / blo" using o q by (intro frac_le) auto
    moreover have "0 \<le> lo / bhi" using o q by simp
    ultimately show ?thesis using Some b q z by (simp add: laps_to_dry_def num_or_def)
  qed
qed (simp add: laps_to_dry_def)

lemma times_to_dry_ordered:
  assumes "burn_ok b" and "opt_le lo hi"
  shows "opt_le (fst (times_to_dry (lo, hi) b)) (snd (times_to_dry (lo, hi) b))"
  using assms
  by (cases "(lo, hi)" rule: opt_le.cases)
    (auto simp: times_to_dry_def burn_ok_def num_or_def split: option.splits)

lemma project_ordered:
  assumes "0 \<le> sp_burn_sigma policy" and "p = project inputs policy"
  shows "burn_ok (pr_burn p)" "\<And>f lo hi. pr_fuel p = Some (f, lo, hi) \<Longrightarrow> lo \<le> f \<and> f \<le> hi \<and> hi - f = f - lo"
    "opt_le (fst (pr_laps_to_dry p)) (snd (pr_laps_to_dry p))" "\<And>x. fst (pr_laps_to_dry p) = Some x \<Longrightarrow> 0 \<le> x"
    "opt_le (fst (pr_times_to_dry p)) (snd (pr_times_to_dry p))"
proof -
  show b: "burn_ok (pr_burn p)" using burn_of_ok[OF assms(1)] by (simp add: assms(2) project_def Let_def)
  define laps stops where "laps = sort_key lf_crossed_at (ri_laps inputs)" and "stops = pr_stops p"
  have f: "pr_fuel p = fuel_remaining (pr_rebase p) laps stops (pr_burn p)"
    by (simp add: assms(2) project_def Let_def laps_def stops_def)
  show "lo \<le> f \<and> f \<le> hi \<and> hi - f = f - lo" if "pr_fuel p = Some (f, lo, hi)" for f lo hi
    using fuel_remaining_ordered[OF b] that f by simp
  have d: "pr_laps_to_dry p = laps_to_dry (usable_fuel (ri_plan inputs) (fuel_remaining (pr_rebase p) laps stops (pr_burn p))) (pr_burn p)"
    by (simp add: assms(2) project_def Let_def laps_def stops_def)
  have o: "opt_le (fst (pr_laps_to_dry p)) (snd (pr_laps_to_dry p)) \<and> (\<forall>x. fst (pr_laps_to_dry p) = Some x \<longrightarrow> 0 \<le> x)"
    unfolding d by (rule laps_to_dry_ordered[OF b usable_fuel_ordered[OF b]])
  then show "opt_le (fst (pr_laps_to_dry p)) (snd (pr_laps_to_dry p))" "\<And>x. fst (pr_laps_to_dry p) = Some x \<Longrightarrow> 0 \<le> x"
    by auto
  have "pr_times_to_dry p = times_to_dry (pr_laps_to_dry p) (pr_burn p)" by (simp add: assms(2) project_def Let_def)
  with times_to_dry_ordered[OF b conjunct1[OF o]] show "opt_le (fst (pr_times_to_dry p)) (snd (pr_times_to_dry p))" by simp
qed

text \<open>What a successful evaluation copies from the projection.\<close>

lemma evaluate_projection:
  assumes "evaluate inputs policy trigger = Inr s" and "p = project inputs policy"
  shows "st_fuel_remaining_l s = round_opt 2 (map_option fst (pr_fuel p))"
    "st_fuel_remaining_lo_l s = round_opt 2 (map_option (fst \<circ> snd) (pr_fuel p))"
    "st_fuel_remaining_hi_l s = round_opt 2 (map_option (snd \<circ> snd) (pr_fuel p))"
    "st_laps_to_dry_lo s = round_opt 2 (fst (pr_laps_to_dry p))" "st_laps_to_dry_hi s = round_opt 2 (snd (pr_laps_to_dry p))"
    "st_time_to_dry_s_lo s = round_opt 1 (fst (pr_times_to_dry p))" "st_time_to_dry_s_hi s = round_opt 1 (snd (pr_times_to_dry p))"
    "st_laps_remaining s = pr_laps_remaining p" "st_stops_needed s = pw_stops_needed (pr_window p)"
    "st_window_open_lap s = pw_open (pr_window p)" "st_window_close_lap s = pw_close (pr_window p)"
proof -
  obtain dr tr df where d: "driver_time (last_opt (pr_stints p)) (pr_stints p) (ri_plan inputs) (ri_now inputs) policy = (dr, tr, df)"
    by (metis prod_cases3)
  obtain re rl ra where r: "refuel_clock (pr_stops p) (ri_plan inputs) (ri_now inputs) = (re, rl, ra)" by (metis prod_cases3)
  obtain ahead dri target where "plan_ahead inputs policy p dr = Inr (ahead, dri)"
    and "target_lap (ri_plan inputs) (fst (pr_laps_to_dry p)) (pr_lap_count p) (ri_now inputs) = Inr target"
    using assms(1) unfolding evaluate_def Let_def assms(2)[symmetric] d r by (auto simp: sbind_Inr_iff)
  note s = assms(1)[unfolded evaluate_def Let_def assms(2)[symmetric] d r prod.case this sbind.simps sum.inject]
  show "st_fuel_remaining_l s = round_opt 2 (map_option fst (pr_fuel p))"
    "st_fuel_remaining_lo_l s = round_opt 2 (map_option (fst \<circ> snd) (pr_fuel p))"
    "st_fuel_remaining_hi_l s = round_opt 2 (map_option (snd \<circ> snd) (pr_fuel p))"
    "st_laps_to_dry_lo s = round_opt 2 (fst (pr_laps_to_dry p))" "st_laps_to_dry_hi s = round_opt 2 (snd (pr_laps_to_dry p))"
    "st_time_to_dry_s_lo s = round_opt 1 (fst (pr_times_to_dry p))" "st_time_to_dry_s_hi s = round_opt 1 (snd (pr_times_to_dry p))"
    "st_laps_remaining s = pr_laps_remaining p" "st_stops_needed s = pw_stops_needed (pr_window p)"
    "st_window_open_lap s = pw_open (pr_window p)" "st_window_close_lap s = pw_close (pr_window p)"
    by (simp_all flip: s)
qed

section \<open>The walk to the race end\<close>

text \<open>
  What the legs of a stop plan ask of the tank: \<open>legs_ok fuel lap full stops\<close> says that no leg is
  longer than the laps of fuel it starts with, a refuel giving \<open>full\<close> laps; \<open>fuel_after\<close> is what is
  left at the last stop and \<open>laps_to_go\<close> the laps from there to the end of the race.
\<close>

definition tank_after :: "real \<Rightarrow> int \<Rightarrow> real \<Rightarrow> sim_stop \<Rightarrow> real" where
  "tank_after fuel lap full x = (if ss_type x = ''refuel'' then full else fuel - of_int (ss_lap x - lap))"

fun legs_ok :: "real \<Rightarrow> int \<Rightarrow> real \<Rightarrow> sim_stop list \<Rightarrow> bool" where
  "legs_ok fuel lap full [] = True"
| "legs_ok fuel lap full (x # xs) = (lap \<le> ss_lap x \<and> of_int (ss_lap x - lap) \<le> fuel
     \<and> legs_ok (tank_after fuel lap full x) (ss_lap x) full xs)"

fun fuel_after :: "real \<Rightarrow> int \<Rightarrow> real \<Rightarrow> sim_stop list \<Rightarrow> real" where
  "fuel_after fuel lap full [] = fuel"
| "fuel_after fuel lap full (x # xs) = fuel_after (tank_after fuel lap full x) (ss_lap x) full xs"

definition laps_to_go :: "plan_facts \<Rightarrow> real \<Rightarrow> int \<Rightarrow> int \<Rightarrow> sim_stop list \<Rightarrow> int" where
  "laps_to_go plan lap_time_s lap_count n stops =
     (if stops = [] then n
      else case (pf_end_authority plan = ''time'', pf_race_end_at plan) of
             (True, Some end_at) \<Rightarrow> max \<lceil>(end_at - ss_at (last stops)) / lap_time_s\<rceil> 0
           | _ \<Rightarrow> n - (ss_lap (last stops) - lap_count))"

abbreviation last_lap :: "int \<Rightarrow> sim_stop list \<Rightarrow> int" where
  "last_lap lap xs \<equiv> (if xs = [] then lap else ss_lap (last xs))"

lemma legs_ok_snoc: "legs_ok fuel lap full (xs @ [x]) \<longleftrightarrow> legs_ok fuel lap full xs
    \<and> last_lap lap xs \<le> ss_lap x \<and> of_int (ss_lap x - last_lap lap xs) \<le> fuel_after fuel lap full xs"
  by (induction xs arbitrary: fuel lap) auto

lemma fuel_after_snoc:
  "fuel_after fuel lap full (xs @ [x]) = tank_after (fuel_after fuel lap full xs) (last_lap lap xs) full x"
  by (induction xs arbitrary: fuel lap) auto

definition walk_inv :: "plan_facts \<Rightarrow> real \<Rightarrow> real \<Rightarrow> int \<Rightarrow> int \<Rightarrow> real \<Rightarrow> walk \<Rightarrow> bool" where
  [inv_defs]: "walk_inv plan laps_lo full lap_count n lap_time_s w \<longleftrightarrow>
     legs_ok laps_lo lap_count full (wk_stops w) \<and> wk_lap w = last_lap lap_count (wk_stops w)
     \<and> wk_fuel_laps w = fuel_after laps_lo lap_count full (wk_stops w) \<and> 0 \<le> wk_fuel_laps w
     \<and> wk_remaining w = laps_to_go plan lap_time_s lap_count n (wk_stops w)"

lemma can_drive_bounds:
  assumes "0 \<le> wk_fuel_laps w"
  shows "0 \<le> can_drive lt w" "of_int (can_drive lt w) \<le> wk_fuel_laps w"
proof -
  have f: "of_int (laps_on_fuel w) \<le> wk_fuel_laps w" "0 \<le> laps_on_fuel w"
    using assms by (auto simp: laps_on_fuel_def max_def)
  have "can_drive lt w \<le> laps_on_fuel w" by (simp add: can_drive_def split: option.split)
  then have "(of_int (can_drive lt w) :: real) \<le> of_int (laps_on_fuel w)" by simp
  with f(1) show "of_int (can_drive lt w) \<le> wk_fuel_laps w" by linarith
  show "0 \<le> can_drive lt w" using f(2) by (auto simp: can_drive_def laps_on_driver_def split: option.splits)
qed

text \<open>The state after one stop, with the parts the fuel argument does not look at left open.\<close>

definition refuels_at :: "real \<Rightarrow> walk \<Rightarrow> bool" where
  "refuels_at lt w \<longleftrightarrow> (case laps_on_driver lt w of None \<Rightarrow> True | Some d \<Rightarrow> laps_on_fuel w \<le> d)
     \<or> wk_fuel_laps w - of_int (can_drive lt w) < of_int (wk_remaining w - can_drive lt w)"

definition walk_after ::
  "plan_facts \<Rightarrow> real \<Rightarrow> real \<Rightarrow> walk \<Rightarrow> int option \<Rightarrow> real \<Rightarrow> real option \<Rightarrow> json \<Rightarrow> string \<Rightarrow> walk" where
  "walk_after plan full lt w at_lap clk dl din why =
     \<lparr>wk_fuel_laps = (if refuels_at lt w then full else wk_fuel_laps w - of_int (can_drive lt w)),
      wk_drive_left = dl, wk_lap = wk_lap w + can_drive lt w, wk_clock = clk,
      wk_remaining = (case (pf_end_authority plan = ''time'', pf_race_end_at plan) of
          (True, Some end_at) \<Rightarrow> max \<lceil>(end_at - clk) / lt\<rceil> 0
        | _ \<Rightarrow> wk_remaining w - can_drive lt w),
      wk_stops = wk_stops w @
        [\<lparr>ss_lap = wk_lap w + can_drive lt w, ss_type = (if refuels_at lt w then ''refuel'' else ''service''), ss_driver_in = din,
          ss_reason = why, ss_at = clk, ss_planned_lap = at_lap, ss_delta_laps = None\<rparr>]\<rparr>"

lemma walk_stop_Inr:
  assumes "walk_stop plan planned lap_count full lt limit_s now w = Inr w'"
  shows "\<exists>at_lap clk dl din why. w' = walk_after plan full lt w at_lap clk dl din why"
  using assms unfolding walk_stop_def Let_def sbind_Inr_iff refuels_at_def[symmetric] sum.inject
  by (elim exE conjE) (unfold walk_after_def, blast)

lemma walk_stop_inv:
  assumes "walk_inv plan laps_lo full lap_count n lt w" and "0 \<le> full"
    and "walk_stop plan planned lap_count full lt limit_s now w = Inr w'"
  shows "walk_inv plan laps_lo full lap_count n lt w'"
proof -
  note c = can_drive_bounds[of w lt]
  define x where "x = last (wk_stops w')"
  from walk_stop_Inr[OF assms(3)] obtain at_lap clk dl din why where w1: "w' = walk_after plan full lt w at_lap clk dl din why" by blast
  have w': "wk_stops w' = wk_stops w @ [x]" and x: "ss_lap x = wk_lap w + can_drive lt w" "wk_lap w' = ss_lap x" "ss_at x = clk"
    and f: "wk_fuel_laps w' = (if ss_type x = ''refuel'' then full else wk_fuel_laps w - of_int (can_drive lt w))"
    and r: "wk_remaining w' = (case (pf_end_authority plan = ''time'', pf_race_end_at plan) of
                    (True, Some end_at) \<Rightarrow> max \<lceil>(end_at - clk) / lt\<rceil> 0
                  | _ \<Rightarrow> wk_remaining w - can_drive lt w)"
    unfolding x_def w1 walk_after_def by simp_all
  have inv: "wk_lap w = last_lap lap_count (wk_stops w)" "wk_fuel_laps w = fuel_after laps_lo lap_count full (wk_stops w)"
    "legs_ok laps_lo lap_count full (wk_stops w)" "0 \<le> wk_fuel_laps w" "wk_remaining w = laps_to_go plan lt lap_count n (wk_stops w)"
    using assms(1) by (simp_all add: walk_inv_def)
  have "legs_ok laps_lo lap_count full (wk_stops w')"
    unfolding w' legs_ok_snoc using inv x c by (simp split: if_splits)
  moreover have "wk_fuel_laps w' = fuel_after laps_lo lap_count full (wk_stops w')"
    unfolding w' fuel_after_snoc tank_after_def using f x(1) inv(1,2) by simp
  moreover have "wk_remaining w' = laps_to_go plan lt lap_count n (wk_stops w')"
    using r inv(1,5) x(1,3) by (auto simp: w' laps_to_go_def split: bool.splits option.splits if_splits)
  moreover have "0 \<le> wk_fuel_laps w'" using f c(2) inv(4) assms(2) by simp
  ultimately show ?thesis using x(2) by (simp add: walk_inv_def w')
qed

lemma walk_loop_result:
  assumes "walk_loop plan planned lap_count full lt limit_s now max_stops w = Inr w'"
    and "walk_inv plan laps_lo full lap_count n lt w" and "0 \<le> full" and "int (length (wk_stops w)) \<le> max 0 max_stops"
  shows "walk_inv plan laps_lo full lap_count n lt w' \<and> int (length (wk_stops w')) \<le> max 0 max_stops
    \<and> (int (length (wk_stops w')) < max_stops \<longrightarrow> of_int (wk_remaining w') \<le> wk_fuel_laps w')"
  using assms
proof (induction plan planned lap_count full lt limit_s now max_stops w rule: walk_loop.induct)
  case (1 plan planned lap_count full lt limit_s now max_stops w)
  note res = 1(2)[unfolded walk_loop.simps[of plan planned lap_count full lt limit_s now max_stops w]]
  have pos: "0 \<le> wk_fuel_laps w" using 1(3) by (simp add: walk_inv_def)
  show ?case
  proof (cases "wk_remaining w > 0 \<and> int (length (wk_stops w)) < max_stops \<and> \<not> can_drive lt w \<ge> wk_remaining w")
    case True
    then obtain w1 where w1: "walk_stop plan planned lap_count full lt limit_s now w = Inr w1"
      and rec: "walk_loop plan planned lap_count full lt limit_s now max_stops w1 = Inr w'"
      using res by (auto split: sum.splits)
    have "int (length (wk_stops w1)) \<le> max 0 max_stops" using walk_stop_length[OF w1] True by simp
    from 1(1)[OF _ _ w1 rec walk_stop_inv[OF 1(3,4) w1] 1(4) this] True show ?thesis by simp
  next
    case False
    with res have w': "w' = w" by (auto split: if_splits)
    have "of_int (wk_remaining w) \<le> wk_fuel_laps w" if "int (length (wk_stops w)) < max_stops"
    proof (cases "wk_remaining w > 0")
      case True
      with False that have "(of_int (wk_remaining w) :: real) \<le> of_int (can_drive lt w)" by simp
      with can_drive_bounds(2)[OF pos, of lt] show ?thesis by linarith
    qed (use pos in simp)
    with 1(3,5) w' show ?thesis by simp
  qed
qed

section \<open>The window\<close>

lemma ceiling_div_iff: "0 < (c::real) \<Longrightarrow> \<lceil>a / c\<rceil> \<le> k \<longleftrightarrow> a \<le> of_int k * c"
  by (simp add: ceiling_le_iff divide_le_eq)

section \<open>Properties\<close>


definition wit_plan :: plan_facts where
  "wit_plan = \<lparr>pf_revision = 1, pf_race_end_at = None, pf_race_end_laps = Some 100, pf_end_authority = ''laps'', pf_tank_l = 60,
     pf_usable_fuel_l = 50, pf_refuel_min_s = 180, pf_service_typical_s = 60, pf_driver_limits = Map.empty,
     pf_planned_stops = [[(''type'', JStr ''refuel''), (''at_lap'', JInt 10)]]\<rparr>"

definition wit_lap :: lap_fact where
  "wit_lap = \<lparr>lf_lap_number = 1, lf_crossed_at = 100, lf_lap_time_s = Some 90, lf_valid = True, lf_pit_status = None,
     lf_stint_number = Some 1, lf_fuel_used_l = Some 2, lf_measurement_status = ''clean''\<rparr>"

definition wit_inputs :: race_inputs where
  "wit_inputs = \<lparr>ri_now = 110, ri_vehicle_id = ''car1'', ri_session_id = ''s'', ri_session_started = 0,
     ri_plan = Some (wit_plan\<lparr>pf_planned_stops := [], pf_race_end_laps := Some 20\<rparr>), ri_laps = [wit_lap], ri_stints = [], ri_stops = []\<rparr>"

lemma wit_burn: "burn_of (clean_laps [wit_lap] [] strategy_policy_default) strategy_policy_default =
    \<lparr>bu_mean = Some 2, bu_sd = None, bu_laps = 1, bu_lap_time_s = Some 90, bu_lo = Some 2, bu_hi = Some 2\<rparr>"
  by (simp add: clean_laps_def burn_candidate_def touches_pits_def lap_window_def burn_of_def lap_times_def last_n_def
      wit_lap_def strategy_policy_default_def fmean_def median_def Let_def List.map_filter_simps)

lemma wit_projection:
  "pr_burn (project wit_inputs strategy_policy_default) = burn_of (clean_laps [wit_lap] [] strategy_policy_default) strategy_policy_default"
  "pr_fuel (project wit_inputs strategy_policy_default) = Some (58, 55, 61)"
  "pr_laps_to_dry (project wit_inputs strategy_policy_default) = (Some (45 / 2), Some (51 / 2))"
  "pr_laps_remaining (project wit_inputs strategy_policy_default) = Some 19"
  "pw_full_range_lo (pr_window (project wit_inputs strategy_policy_default)) = Some 25"
  by (simp_all add: project_def wit_inputs_def wit_burn rebase_of_def fallback_rebase_def last_opt_def fuel_remaining_def
      burn_lap_def fuel_spread_def usable_fuel_def laps_to_dry_def laps_remaining_def pit_window_of_def no_window_def num_or_def
      Let_def) (simp_all add: wit_lap_def wit_plan_def)

lemma wit_evaluates: "\<exists>s. evaluate wit_inputs strategy_policy_default ''lap'' = Inr s"
proof -
  have "plan_ahead wit_inputs strategy_policy_default (project wit_inputs strategy_policy_default) x = Inr ([], None)" for x
    unfolding plan_ahead_def wit_projection wit_burn
    by (simp add: wit_inputs_def num_or_def stop_plan_def plan_drift_of_def walk_loop.simps can_drive_def
        laps_on_fuel_def laps_on_driver_def wit_plan_def Let_def)
  moreover have "target_lap (ri_plan wit_inputs) (Some (45 / 2)) k t = Inr None" for k t
    by (simp add: target_lap_def wit_inputs_def wit_plan_def remaining_planned_def Let_def)
  ultimately show ?thesis unfolding evaluate_def Let_def wit_projection by (simp split: prod.split)
qed




text \<open>
  C15. The pit window is the one the numbers mean, whenever the fuel does not reach the end and a full
  tank lasts at least a lap: the stops needed are the fewest full tanks that reach the end, the window
  closes at the last lap the lower bound reaches, and it opens at the first lap from which the stops
  still to come cover the rest of the race; a finding is raised exactly when the window has closed
  or closes within the warning.
\<close>
theorem pit_window_exact:
  assumes "w = pit_window_of (Some plan) burn (Some laps_lo) (Some n) lap_count now policy"
    and "bu_hi burn = Some hi" and "0 < hi" and "full = pf_usable_fuel_l plan / hi" and "1 \<le> full" and "laps_lo < of_int n"
  shows "\<exists>needed open_lap close_lap total. pw_stops_needed w = Some needed \<and> pw_open w = Some open_lap
    \<and> pw_close w = Some close_lap \<and> total = max needed (planned_refuels plan lap_count now)
    \<and> (\<forall>k. of_int n \<le> laps_lo + of_int k * full \<longleftrightarrow> needed \<le> k)
    \<and> (\<forall>l. of_int (l - lap_count) \<le> laps_lo \<longleftrightarrow> l \<le> close_lap)
    \<and> (\<forall>l \<ge> lap_count. of_int (lap_count + n - l) \<le> of_int total * full \<longleftrightarrow> open_lap \<le> l)
    \<and> (pw_findings w = [] \<longleftrightarrow> open_lap \<le> close_lap \<and> sp_window_warn_laps policy < close_lap - lap_count)"
proof -
  define needed where "needed = \<lceil>(of_int n - laps_lo) / full\<rceil>"
  define total where "total = max needed (planned_refuels plan lap_count now)"
  define open_lap where "open_lap = max lap_count \<lceil>of_int (lap_count + n) - of_int total * full\<rceil>"
  have w: "w = no_window\<lparr>pw_full_range_lo := Some full, pw_stops_needed := Some needed, pw_open := Some open_lap,
      pw_close := Some (lap_count + \<lfloor>laps_lo\<rfloor>), pw_findings := window_findings lap_count open_lap (lap_count + \<lfloor>laps_lo\<rfloor>) laps_lo policy\<rparr>"
    using assms(2-6) unfolding assms(1) pit_window_of_def num_or_def open_lap_def total_def needed_def Let_def by simp
  have "of_int n \<le> laps_lo + of_int k * full \<longleftrightarrow> needed \<le> k" for k
    unfolding needed_def using assms(5) by (simp add: ceiling_div_iff algebra_simps)
  moreover have "of_int (l - lap_count) \<le> laps_lo \<longleftrightarrow> l \<le> lap_count + \<lfloor>laps_lo\<rfloor>" for l
    using le_floor_iff[of "l - lap_count" laps_lo] by linarith
  moreover have "of_int (lap_count + n - l) \<le> of_int total * full \<longleftrightarrow> open_lap \<le> l" if "lap_count \<le> l" for l
    unfolding open_lap_def using that by (simp add: ceiling_le_iff algebra_simps)
  moreover have "window_findings lap_count o1 c1 laps_lo policy = [] \<longleftrightarrow> o1 \<le> c1 \<and> sp_window_warn_laps policy < c1 - lap_count" for o1 c1
    by (auto simp: window_findings_def Let_def)
  ultimately show ?thesis using total_def by (simp add: w)
qed

theorem pit_window_exact_witness:
  "\<exists>needed. pw_stops_needed (pit_window_of (Some wit_plan) (burn_of (clean_laps [wit_lap] [] strategy_policy_default) strategy_policy_default)
      (Some 10) (Some 99) 1 110 strategy_policy_default) = Some needed
    \<and> (\<forall>k. (99 :: real) \<le> 10 + of_int k * 25 \<longleftrightarrow> needed \<le> k)"
  using pit_window_exact[OF refl, of "burn_of (clean_laps [wit_lap] [] strategy_policy_default) strategy_policy_default" 2
      25 wit_plan 10 99 1 110 strategy_policy_default]
  unfolding wit_burn by (auto simp: wit_plan_def)

end
