(* ===== verification/Framing.thy ===== *)
theory Framing
  imports Py_Values
begin

text \<open>
  \<^verbatim>\<open>src/pit/timing_feed/framing.py\<close>: the packet framing of the timing feed. Bytes are characters,
  text is a list of Unicode code points. The encoder and the incremental \<open>PacketFramer\<close> are modelled
  whole, with UTF-8 as Python decodes it strictly; a \<open>PacketError\<close> leaves the framer reset.
\<close>

type_synonym bytes = string
type_synonym code_points = "nat list"

section \<open>UTF-8\<close>

definition byte :: "nat \<Rightarrow> char" where
  "byte n = char_of n"

definition code :: "char \<Rightarrow> nat" where
  "code c = of_char c"

definition is_cont :: "char \<Rightarrow> bool" where
  "is_cont c \<longleftrightarrow> 128 \<le> code c \<and> code c < 192"

definition is_scalar :: "nat \<Rightarrow> bool" where
  "is_scalar n \<longleftrightarrow> n < 55296 \<or> (57344 \<le> n \<and> n < 1114112)"

definition utf8_char :: "nat \<Rightarrow> bytes" where
  "utf8_char n =
     (if n < 128 then [byte n]
      else if n < 2048 then [byte (192 + n div 64), byte (128 + n mod 64)]
      else if n < 65536 then [byte (224 + n div 4096), byte (128 + n div 64 mod 64), byte (128 + n mod 64)]
      else [byte (240 + n div 262144), byte (128 + n div 4096 mod 64), byte (128 + n div 64 mod 64), byte (128 + n mod 64)])"

text \<open>\<open>str.encode\<close> raises on a surrogate.\<close>

definition utf8_encode :: "code_points \<Rightarrow> bytes res" where
  "utf8_encode t = (if list_all is_scalar t then Inr (concat (map utf8_char t)) else Inl ValueError)"

fun utf8_decode :: "bytes \<Rightarrow> code_points option" where
  "utf8_decode [] = Some []"
| "utf8_decode (a # bs) =
     (if code a < 128 then map_option ((#) (code a)) (utf8_decode bs)
      else case bs of
        [] \<Rightarrow> None
      | b # bs1 \<Rightarrow>
          if \<not> is_cont b then None
          else if 194 \<le> code a \<and> code a < 224 then
            map_option ((#) ((code a - 192) * 64 + (code b - 128))) (utf8_decode bs1)
          else case bs1 of
            [] \<Rightarrow> None
          | c # bs2 \<Rightarrow>
              if \<not> is_cont c then None
              else if 224 \<le> code a \<and> code a < 240 then
                (let n = (code a - 224) * 4096 + (code b - 128) * 64 + (code c - 128)
                 in if 2048 \<le> n \<and> is_scalar n then map_option ((#) n) (utf8_decode bs2) else None)
              else case bs2 of
                [] \<Rightarrow> None
              | d # bs3 \<Rightarrow>
                  if \<not> is_cont d \<or> code a < 240 \<or> 245 \<le> code a then None
                  else (let n = (code a - 240) * 262144 + (code b - 128) * 4096 + (code c - 128) * 64 + (code d - 128)
                        in if 65536 \<le> n \<and> n < 1114112 then map_option ((#) n) (utf8_decode bs3) else None))"

lemma code_byte [simp]: "n < 256 \<Longrightarrow> code (byte n) = n"
  by (simp add: code_def byte_def)

lemma utf8_decode_char:
  assumes "is_scalar n"
  shows "utf8_decode (utf8_char n @ bs) = map_option ((#) n) (utf8_decode bs)"
proof -
  have sixtyfour: "k = k div 64 * 64 + k mod 64" for k :: nat by simp
  have div_div: "k div 64 div 64 = k div 4096" "k div 4096 div 64 = k div 262144" for k :: nat
    by (simp_all flip: div_mult2_eq)
  have cont: "is_cont (byte (128 + k mod 64))" for k by (simp add: is_cont_def)
  consider (one) "n < 128" | (two) "128 \<le> n" "n < 2048" | (three) "2048 \<le> n" "n < 65536" | (four) "65536 \<le> n"
    by linarith
  then show ?thesis
  proof cases
    case one
    then show ?thesis by (simp add: utf8_char_def)
  next
    case two
    then have "n div 64 < 32" "2 \<le> n div 64" by (simp_all add: less_mult_imp_div_less)
    with two show ?thesis by (simp add: utf8_char_def cont)
  next
    case three
    have d: "n div 4096 < 16" using three by (simp add: less_mult_imp_div_less)
    have "n div 4096 * 4096 + n div 64 mod 64 * 64 + n mod 64 = n"
      using sixtyfour[of n] sixtyfour[of "n div 64"] unfolding div_div by linarith
    with three d assms show ?thesis by (simp add: utf8_char_def cont Let_def)
  next
    case four
    have d: "n div 262144 < 5" using four assms by (simp add: less_mult_imp_div_less is_scalar_def)
    have "n div 262144 * 262144 + n div 4096 mod 64 * 4096 + n div 64 mod 64 * 64 + n mod 64 = n"
      using sixtyfour[of n] sixtyfour[of "n div 64"] sixtyfour[of "n div 4096"] unfolding div_div by linarith
    with four d assms show ?thesis by (simp add: utf8_char_def cont is_scalar_def Let_def)
  qed
qed

lemma utf8_roundtrip: "utf8_encode t = Inr bs \<Longrightarrow> utf8_decode bs = Some t"
proof (induction t arbitrary: bs)
  case (Cons n t)
  then have "is_scalar n" "utf8_encode t = Inr (concat (map utf8_char t))" "bs = utf8_char n @ concat (map utf8_char t)"
    by (auto simp: utf8_encode_def split: if_splits)
  with Cons.IH show ?case by (simp add: utf8_decode_char)
qed (simp add: utf8_encode_def)

section \<open>Packets\<close>

definition MAGIC :: bytes where "MAGIC = ''!@#''"

definition HEADER_LEN :: nat where "HEADER_LEN = 10"

definition MAX_PAYLOAD :: nat where "MAX_PAYLOAD = 99999"

definition TERMINAL :: char where "TERMINAL = CHR ''=''"

definition IDS :: string where
  "IDS = ''ABCDEFGHIJKLMNOPQRSTUVWXYZabcdefghijklmnopqrstuvwxyz''"

definition MAX_DOCUMENT_BYTES :: nat where "MAX_DOCUMENT_BYTES = 4 * 1024 * 1024"

fun index_of :: "char \<Rightarrow> string \<Rightarrow> nat option" where
  "index_of c [] = None"
| "index_of c (d # ds) = (if c = d then Some 0 else map_option Suc (index_of c ds))"

definition next_packet_id :: "char \<Rightarrow> char res" where
  "next_packet_id c = (case index_of c IDS of
     None \<Rightarrow> Inl PacketError
   | Some i \<Rightarrow> Inr (IDS ! ((i + 1) mod length IDS)))"

definition encode_packet :: "bytes \<Rightarrow> char \<Rightarrow> char \<Rightarrow> bytes res" where
  "encode_packet pay prev following =
     (if length pay > MAX_PAYLOAD then Inl ValueError
      else Inr (MAGIC @ show_nat_pad 5 (length pay) @ [prev, following] @ pay))"

text \<open>The slices \<open>data[i : i + chunk]\<close>, and the loop over them.\<close>

function chunks_of :: "nat \<Rightarrow> bytes \<Rightarrow> bytes list" where
  "chunks_of k bs = (if bs = [] \<or> k = 0 then [] else take k bs # chunks_of k (drop k bs))"
  by pat_completeness auto
termination by (relation "measure (\<lambda>(k, bs). length bs)") auto

declare chunks_of.simps [simp del]

fun encode_parts :: "char \<Rightarrow> char \<Rightarrow> bytes list \<Rightarrow> bytes res" where
  "encode_parts prev current [] = Inr []"
| "encode_parts prev current (part # parts) =
     sbind (encode_packet part prev (if parts = [] then TERMINAL else current)) (\<lambda>packet.
     sbind (next_packet_id current) (\<lambda>following.
     sbind (encode_parts current following parts) (\<lambda>rest. Inr (packet @ rest))))"

definition encode_bytes :: "nat \<Rightarrow> char \<Rightarrow> bytes \<Rightarrow> bytes res" where
  "encode_bytes chunk first_id bs =
     (if chunk = 0 \<or> chunk > MAX_PAYLOAD then Inl ValueError
      else let parts = (if bs = [] then [[]] else chunks_of chunk bs) in
        if length parts = 1 then encode_packet (hd parts) TERMINAL TERMINAL
        else encode_parts TERMINAL first_id parts)"

definition encode_document :: "nat \<Rightarrow> char \<Rightarrow> code_points \<Rightarrow> bytes res" where
  "encode_document chunk first_id document =
     sbind (utf8_encode document) (\<lambda>bs. encode_bytes chunk first_id bs)"

definition decode_payload :: "bytes \<Rightarrow> code_points" where
  "decode_payload bs = (case utf8_decode bs of Some t \<Rightarrow> t | None \<Rightarrow> map code bs)"

section \<open>The framer\<close>

record framer =
  fr_buffer :: bytes
  fr_parts :: "bytes list"
  fr_size :: nat
  fr_expect :: char
  fr_last :: "char option"

definition framer_init :: framer where
  "framer_init = \<lparr>fr_buffer = [], fr_parts = [], fr_size = 0, fr_expect = TERMINAL, fr_last = None\<rparr>"

definition framer_reset :: "framer \<Rightarrow> framer" where
  "framer_reset f = f\<lparr>fr_buffer := [], fr_parts := [], fr_size := 0, fr_expect := TERMINAL, fr_last := None\<rparr>"

definition next_packet :: "framer \<Rightarrow> (char \<times> char \<times> bytes) option res \<times> framer" where
  [op_defs]: "next_packet f =
     (let buf = fr_buffer f in
      if length buf < HEADER_LEN then (Inr None, f)
      else if take 3 buf \<noteq> MAGIC then (Inl PacketError, f)
      else let digits = take 5 (drop 3 buf) in
        if \<not> list_all is_ascii_digit digits then (Inl PacketError, f)
        else let n = nat_of_digits digits in
          if length buf < HEADER_LEN + n then (Inr None, f)
          else (Inr (Some (buf ! 8, buf ! 9, take n (drop HEADER_LEN buf))), f\<lparr>fr_buffer := drop (HEADER_LEN + n) buf\<rparr>))"

definition follows_on :: "char option \<Rightarrow> char \<Rightarrow> unit res" where
  "follows_on prev following =
     (if following = TERMINAL then Inr ()
      else if following \<notin> set IDS then Inl PacketError
      else case prev of
        None \<Rightarrow> Inr ()
      | Some c \<Rightarrow> sbind (next_packet_id c) (\<lambda>nx. if following = nx then Inr () else Inl PacketError))"

definition chain :: "char \<Rightarrow> char \<Rightarrow> bytes \<Rightarrow> framer \<Rightarrow> code_points option res \<times> framer" where
  [op_defs]: "chain prev following pay f =
     (if prev \<noteq> fr_expect f then (Inl PacketError, f)
      else case follows_on (fr_last f) following of
        Inl e \<Rightarrow> (Inl e, f)
      | Inr _ \<Rightarrow>
          (let f1 = f\<lparr>fr_parts := fr_parts f @ [pay], fr_size := fr_size f + length pay\<rparr> in
           if fr_size f1 > MAX_DOCUMENT_BYTES then (Inl PacketError, f1)
           else if following = TERMINAL then
             (Inr (Some (decode_payload (concat (fr_parts f1)))),
              f1\<lparr>fr_parts := [], fr_size := 0, fr_expect := TERMINAL, fr_last := None\<rparr>)
           else (Inr None, f1\<lparr>fr_expect := following, fr_last := Some following\<rparr>)))"

lemma next_packet_shrinks: "next_packet f = (Inr (Some x), f') \<Longrightarrow> length (fr_buffer f') < length (fr_buffer f)"
  by (auto simp: next_packet_def HEADER_LEN_def Let_def split: if_splits)

lemma chain_buffer: "chain p n b f = (r, f') \<Longrightarrow> fr_buffer f' = fr_buffer f"
  by (auto simp: chain_def Let_def split: if_splits sum.splits)

text \<open>The \<open>while\<close> loop of \<open>feed\<close>; the buffer shrinks with every packet.\<close>

function feed_loop :: "code_points list \<Rightarrow> framer \<Rightarrow> code_points list res \<times> framer" where
  "feed_loop documents f =
     (case next_packet f of
        (Inl e, f1) \<Rightarrow> (Inl e, f1)
      | (Inr None, f1) \<Rightarrow> (Inr documents, f1)
      | (Inr (Some (prev, following, pay)), f1) \<Rightarrow>
          (case chain prev following pay f1 of
             (Inl e, f2) \<Rightarrow> (Inl e, f2)
           | (Inr d, f2) \<Rightarrow> feed_loop (case d of None \<Rightarrow> documents | Some x \<Rightarrow> documents @ [x]) f2))"
  by pat_completeness auto
termination
  by (relation "measure (\<lambda>(d, f). length (fr_buffer f))") (auto dest!: next_packet_shrinks[OF sym] chain_buffer[OF sym])

declare feed_loop.simps [simp del]

definition feed :: "bytes \<Rightarrow> framer \<Rightarrow> code_points list res \<times> framer" where
  [op_defs]: "feed bs f =
     (case feed_loop [] (f\<lparr>fr_buffer := fr_buffer f @ bs\<rparr>) of
        (Inl e, f1) \<Rightarrow> (Inl e, framer_reset f1)
      | (Inr ds, f1) \<Rightarrow> (Inr ds, f1))"

section \<open>Feeding in pieces\<close>

fun feed_all :: "bytes list \<Rightarrow> framer \<Rightarrow> code_points list res \<times> framer" where
  "feed_all [] f = (Inr [], f)"
| "feed_all (c # cs) f =
     (case feed c f of
        (Inl e, f1) \<Rightarrow> (Inl e, f1)
      | (Inr ds, f1) \<Rightarrow>
          (case feed_all cs f1 of
             (Inl e, f2) \<Rightarrow> (Inl e, f2)
           | (Inr ds', f2) \<Rightarrow> (Inr (ds @ ds'), f2)))"

definition ext :: "framer \<Rightarrow> bytes \<Rightarrow> framer" where
  "ext f bs = f\<lparr>fr_buffer := fr_buffer f @ bs\<rparr>"

lemma ext_ext [simp]: "ext (ext f a) b = ext f (a @ b)" and ext_Nil [simp]: "ext f [] = f"
  by (simp_all add: ext_def)

lemma next_packet_ext_Some:
  assumes "next_packet f = (Inr (Some x), f1)"
  shows "next_packet (ext f bs) = (Inr (Some x), ext f1 bs)"
proof -
  define buf n where "buf = fr_buffer f" and "n = nat_of_digits (take 5 (drop 3 (fr_buffer f)))"
  have len: "10 + n \<le> length buf" and x: "x = (buf ! 8, buf ! 9, take n (drop 10 buf))" "f1 = f\<lparr>fr_buffer := drop (10 + n) buf\<rparr>"
    and hd: "take 3 buf = MAGIC" "list_all is_ascii_digit (take 5 (drop 3 buf))"
    using assms by (auto simp: next_packet_def HEADER_LEN_def Let_def buf_def n_def split: if_splits)
  have "take 3 (buf @ bs) = MAGIC" "take 5 (drop 3 (buf @ bs)) = take 5 (drop 3 buf)"
    "(buf @ bs) ! 8 = buf ! 8" "(buf @ bs) ! 9 = buf ! 9" "take n (drop 10 (buf @ bs)) = take n (drop 10 buf)"
    "drop (10 + n) (buf @ bs) = drop (10 + n) buf @ bs"
    using len hd(1) by (simp_all add: nth_append)
  with len hd x show ?thesis
    by (simp add: next_packet_def HEADER_LEN_def Let_def ext_def n_def buf_def[symmetric])
qed

lemma next_packet_ext_Inl:
  assumes "next_packet f = (Inl e, f1)"
  shows "\<exists>f2. next_packet (ext f bs) = (Inl e, f2)"
  using assms by (auto simp: next_packet_def HEADER_LEN_def Let_def ext_def split: if_splits)

lemma next_packet_None: "next_packet f = (Inr None, f1) \<Longrightarrow> f1 = f"
  by (auto simp: next_packet_def Let_def split: if_splits)

lemma chain_ext: "chain p n b (ext f bs) = (fst (chain p n b f), ext (snd (chain p n b f)) bs)"
  by (auto simp: chain_def ext_def Let_def split: sum.splits)

text \<open>One turn of the loop: a packet and what it did to the chain.\<close>

definition packet_step :: "framer \<Rightarrow> code_points list option res \<times> framer" where
  "packet_step f =
     (case next_packet f of
        (Inl e, f1) \<Rightarrow> (Inl e, f1)
      | (Inr None, f1) \<Rightarrow> (Inr None, f1)
      | (Inr (Some (prev, following, pay)), f1) \<Rightarrow>
          (case chain prev following pay f1 of
             (Inl e, f2) \<Rightarrow> (Inl e, f2)
           | (Inr d, f2) \<Rightarrow> (Inr (Some (case d of None \<Rightarrow> [] | Some x \<Rightarrow> [x])), f2)))"

lemma feed_loop_step:
  "feed_loop ds f = (case packet_step f of
     (Inl e, f1) \<Rightarrow> (Inl e, f1) | (Inr None, f1) \<Rightarrow> (Inr ds, f1) | (Inr (Some new), f1) \<Rightarrow> feed_loop (ds @ new) f1)"
  by (subst feed_loop.simps) (simp add: packet_step_def split: prod.split sum.split option.split)

lemma packet_step_shrinks: "packet_step f = (Inr (Some new), f1) \<Longrightarrow> length (fr_buffer f1) < length (fr_buffer f)"
  by (auto simp: packet_step_def split: prod.splits sum.splits option.splits dest!: next_packet_shrinks chain_buffer)

lemma packet_step_None: "packet_step f = (Inr None, f1) \<Longrightarrow> f1 = f"
  by (auto simp: packet_step_def split: prod.splits sum.splits option.splits dest!: next_packet_None)

lemma packet_step_SomeD:
  "packet_step f = (Inr (Some new), f1) \<Longrightarrow> \<exists>p n b f0 d. next_packet f = (Inr (Some (p, n, b)), f0) \<and> chain p n b f0 = (Inr d, f1)
    \<and> new = (case d of None \<Rightarrow> [] | Some x \<Rightarrow> [x])"
  by (auto simp: packet_step_def split: prod.splits sum.splits option.splits)

lemma packet_step_InlD:
  "packet_step f = (Inl e, f1) \<Longrightarrow> next_packet f = (Inl e, f1)
    \<or> (\<exists>p n b f0. next_packet f = (Inr (Some (p, n, b)), f0) \<and> chain p n b f0 = (Inl e, f1))"
  by (auto simp: packet_step_def split: prod.splits sum.splits option.splits)

lemma packet_step_ext_Some:
  assumes "packet_step f = (Inr (Some new), f1)"
  shows "packet_step (ext f bs) = (Inr (Some new), ext f1 bs)"
proof -
  obtain p n b f0 d where "next_packet f = (Inr (Some (p, n, b)), f0)" "chain p n b f0 = (Inr d, f1)"
    and d: "new = (case d of None \<Rightarrow> [] | Some x \<Rightarrow> [x])"
    using packet_step_SomeD[OF assms] by blast
  then have "next_packet (ext f bs) = (Inr (Some (p, n, b)), ext f0 bs)" "chain p n b (ext f0 bs) = (Inr d, ext f1 bs)"
    by (simp_all add: next_packet_ext_Some chain_ext)
  then show ?thesis by (simp add: packet_step_def d)
qed

lemma packet_step_ext_Inl:
  assumes "packet_step f = (Inl e, f1)"
  shows "\<exists>f2. packet_step (ext f bs) = (Inl e, f2)"
  using packet_step_InlD[OF assms]
proof (elim disjE exE conjE)
  assume "next_packet f = (Inl e, f1)"
  from next_packet_ext_Inl[OF this, of bs] show ?thesis by (auto simp: packet_step_def)
next
  fix p n b f0
  assume "next_packet f = (Inr (Some (p, n, b)), f0)" and "chain p n b f0 = (Inl e, f1)"
  then have "next_packet (ext f bs) = (Inr (Some (p, n, b)), ext f0 bs)" "chain p n b (ext f0 bs) = (Inl e, ext f1 bs)"
    by (simp_all add: next_packet_ext_Some chain_ext)
  then show ?thesis by (simp add: packet_step_def)
qed

lemma packet_step_Inl: "packet_step f = (Inl e, f1) \<Longrightarrow> e = PacketError"
  by (auto simp: packet_step_def next_packet_def chain_def follows_on_def next_packet_id_def Let_def sbind_Inl_iff
      split: prod.splits sum.splits option.splits if_splits)

text \<open>Induction over the turns of the loop.\<close>

lemma framer_induct [case_names step]:
  assumes "\<And>f ds. (\<And>new f1. packet_step f = (Inr (Some new), f1) \<Longrightarrow> P (ds @ new) f1) \<Longrightarrow> P ds f"
  shows "P (ds :: code_points list) f"
  by (induction "length (fr_buffer f)" arbitrary: f ds rule: less_induct) (metis assms packet_step_shrinks)

lemma feed_loop_acc: "feed_loop (xs @ ds) f = (map_sum id ((@) xs) (fst (feed_loop ds f)), snd (feed_loop ds f))"
proof (induction ds f rule: framer_induct)
  case (step f ds)
  show ?case
    by (subst (1 2 3) feed_loop_step) (auto simp: step[simplified] id_def split: prod.split sum.split option.split)
qed

lemma feed_loop_ext:
  "(\<exists>ds' f1. feed_loop ds f = (Inr ds', f1) \<and> (\<forall>bs. feed_loop ds (ext f bs) = feed_loop ds' (ext f1 bs)))
   \<or> (\<exists>f1. feed_loop ds f = (Inl PacketError, f1) \<and> (\<forall>bs. \<exists>f2. feed_loop ds (ext f bs) = (Inl PacketError, f2)))"
proof (induction ds f rule: framer_induct)
  case (step f ds)
  obtain r f1 where p: "packet_step f = (r, f1)" by fastforce
  show ?case
  proof (cases r)
    case (Inl e)
    then have "feed_loop ds f = (Inl e, f1)" "e = PacketError" using p packet_step_Inl[of f e f1] by (simp_all add: feed_loop_step[of ds f])
    moreover have "\<exists>f2. feed_loop ds (ext f bs) = (Inl e, f2)" for bs
      using packet_step_ext_Inl[of f e f1 bs] p Inl by (auto simp: feed_loop_step[of ds "ext f bs"])
    ultimately show ?thesis by auto
  next
    case (Inr o1)
    show ?thesis
    proof (cases o1)
      case None
      with p Inr packet_step_None[of f f1] show ?thesis by (simp add: feed_loop_step[of ds f])
    next
      case (Some new)
      have "feed_loop ds f = feed_loop (ds @ new) f1" using p Inr Some by (simp add: feed_loop_step[of ds f])
      moreover have "feed_loop ds (ext f bs) = feed_loop (ds @ new) (ext f1 bs)" for bs
        using packet_step_ext_Some[of f new f1 bs] p Inr Some by (simp add: feed_loop_step[of ds "ext f bs"])
      ultimately show ?thesis using step[of new f1] p Inr Some by simp
    qed
  qed
qed

lemma framer_reset_init [simp]: "framer_reset f = framer_init"
  by (simp add: framer_reset_def framer_init_def)

lemma feed_append:
  "feed (a @ b) f = (case feed a f of
     (Inl e, f1) \<Rightarrow> (Inl e, f1)
   | (Inr ds, f1) \<Rightarrow> (case feed b f1 of (Inl e, f2) \<Rightarrow> (Inl e, f2) | (Inr ds', f2) \<Rightarrow> (Inr (ds @ ds'), f2)))"
proof -
  have e: "f\<lparr>fr_buffer := fr_buffer f @ bs\<rparr> = ext f bs" for f bs by (simp add: ext_def)
  from feed_loop_ext[of "[]" "ext f a"] show ?thesis
  proof (elim disjE exE conjE)
    fix ds f1
    assume l: "feed_loop [] (ext f a) = (Inr ds, f1)" and x: "\<forall>bs. feed_loop [] (ext (ext f a) bs) = feed_loop ds (ext f1 bs)"
    show ?thesis
      using l x[rule_format, of b] feed_loop_acc[of ds "[]" "ext f1 b"]
      by (cases "feed_loop [] (ext f1 b)") (auto simp: feed_def e split: sum.splits)
  next
    fix f1
    assume "feed_loop [] (ext f a) = (Inl PacketError, f1)"
      and "\<forall>bs. \<exists>f2. feed_loop [] (ext (ext f a) bs) = (Inl PacketError, f2)"
    then show ?thesis by (auto simp: feed_def e dest!: spec[of _ b])
  qed
qed

lemma feed_all_concat: "cs \<noteq> [] \<Longrightarrow> feed_all cs f = feed (concat cs) f"
proof (induction cs arbitrary: f)
  case (Cons c cs)
  show ?case
  proof (cases "cs = []")
    case True
    then show ?thesis by (cases "feed c f") (auto split: sum.splits)
  next
    case False
    then have "feed_all cs = feed (concat cs)" using Cons.IH by blast
    then show ?thesis unfolding feed_all.simps by (simp only: feed_append concat.simps)
  qed
qed simp

section \<open>What the encoder writes\<close>

lemma encode_packet_next:
  assumes "encode_packet pay p n = Inr pk"
  shows "next_packet (f\<lparr>fr_buffer := pk @ rest\<rparr>) = (Inr (Some (p, n, pay)), f\<lparr>fr_buffer := rest\<rparr>)"
proof -
  let ?d = "show_nat_pad 5 (length pay)"
  have len: "length pay < 10 ^ 5" and pk: "pk = MAGIC @ ?d @ [p, n] @ pay"
    using assms by (auto simp: encode_packet_def MAX_PAYLOAD_def split: if_splits)
  have d: "length ?d = 5" using len by (intro show_nat_pad_length) simp_all
  have m: "length MAGIC = 3" by (simp add: MAGIC_def)
  have "list_all is_ascii_digit ?d" by (auto simp: list_all_iff dest: show_nat_pad_digits)
  moreover have "take 3 (pk @ rest) = MAGIC" "take 5 (drop 3 (pk @ rest)) = ?d" "(pk @ rest) ! 8 = p" "(pk @ rest) ! 9 = n"
    "drop 10 (pk @ rest) = pay @ rest" "length (pk @ rest) = 10 + length pay + length rest"
    "drop (10 + length pay) (pk @ rest) = rest"
    by (simp_all add: pk m d nth_append)
  ultimately show ?thesis by (simp add: next_packet_def HEADER_LEN_def Let_def)
qed

lemma index_of_mem: "c \<in> set xs \<Longrightarrow> \<exists>i < length xs. index_of c xs = Some i"
  by (induction xs) auto

lemma index_of_not_mem: "c \<notin> set xs \<Longrightarrow> index_of c xs = None"
  by (induction xs) auto

lemma ids_nonempty: "0 < length IDS"
  by (simp add: IDS_def)

lemma next_packet_id_mem: "next_packet_id c = Inr d \<Longrightarrow> c \<in> set IDS \<and> d \<in> set IDS"
  using index_of_not_mem[of c IDS] ids_nonempty
  by (auto simp: next_packet_id_def split: option.splits intro!: nth_mem)

lemma terminal_not_id: "TERMINAL \<notin> set IDS"
  by (simp add: TERMINAL_def IDS_def)

lemma chain_middle:
  assumes "prev = fr_expect f" and "following \<in> set IDS" and "\<forall>c. fr_last f = Some c \<longrightarrow> next_packet_id c = Inr following"
    and "fr_size f + length pay \<le> MAX_DOCUMENT_BYTES"
  shows "chain prev following pay f = (Inr None, f\<lparr>fr_parts := fr_parts f @ [pay], fr_size := fr_size f + length pay,
    fr_expect := following, fr_last := Some following\<rparr>)"
proof -
  have "follows_on (fr_last f) following = Inr ()"
    using assms(2,3) terminal_not_id by (auto simp: follows_on_def split: option.split)
  moreover have "following \<noteq> TERMINAL" using assms(2) terminal_not_id by auto
  ultimately show ?thesis using assms(1,4) by (simp add: chain_def Let_def)
qed

lemma chain_last:
  assumes "prev = fr_expect f" and "fr_size f + length pay \<le> MAX_DOCUMENT_BYTES"
  shows "chain prev TERMINAL pay f =
    (Inr (Some (decode_payload (concat (fr_parts f @ [pay])))), framer_init\<lparr>fr_buffer := fr_buffer f\<rparr>)"
  using assms by (simp add: chain_def follows_on_def framer_init_def Let_def)

lemma feed_loop_parts:
  assumes "encode_parts prev current parts = Inr bs" and "parts \<noteq> []" and "fr_expect f = prev"
    and "\<forall>c. fr_last f = Some c \<longrightarrow> next_packet_id c = Inr current"
    and "fr_size f + length (concat parts) \<le> MAX_DOCUMENT_BYTES"
  shows "feed_loop ds (f\<lparr>fr_buffer := bs @ rest\<rparr>) =
    feed_loop (ds @ [decode_payload (concat (fr_parts f @ parts))]) (framer_init\<lparr>fr_buffer := rest\<rparr>)"
  using assms
proof (induction prev current parts arbitrary: bs f rule: encode_parts.induct)
  case (2 prev current part parts)
  from "2.prems"(1) obtain pk following more where
    pk: "encode_packet part prev (if parts = [] then TERMINAL else current) = Inr pk"
    and nx: "next_packet_id current = Inr following" and rest': "encode_parts current following parts = Inr more" and bs: "bs = pk @ more"
    by (auto simp: sbind_Inr_iff)
  have cur: "current \<in> set IDS" using next_packet_id_mem[OF nx] by simp
  note np = encode_packet_next[OF pk, where f = f and rest = "more @ rest"]
  show ?case
  proof (cases "parts = []")
    case True
    then have "more = []" using rest' by simp
    with np True "2.prems"(3-5) chain_last[of prev "f\<lparr>fr_buffer := rest\<rparr>" part] show ?thesis
      by (simp add: bs feed_loop.simps[of ds "f\<lparr>fr_buffer := pk @ rest\<rparr>"])
  next
    case False
    let ?f = "f\<lparr>fr_buffer := more @ rest, fr_parts := fr_parts f @ [part], fr_size := fr_size f + length part,
      fr_expect := current, fr_last := Some current\<rparr>"
    have "chain prev current part (f\<lparr>fr_buffer := more @ rest\<rparr>) = (Inr None, ?f)"
      using chain_middle[of prev "f\<lparr>fr_buffer := more @ rest\<rparr>" current part] cur "2.prems"(3-5) by simp
    then have "feed_loop ds (f\<lparr>fr_buffer := bs @ rest\<rparr>) = feed_loop ds ?f"
      using np False by (simp add: bs feed_loop.simps[of ds "f\<lparr>fr_buffer := pk @ more @ rest\<rparr>"])
    also have "?f = (?f\<lparr>fr_buffer := []\<rparr>)\<lparr>fr_buffer := more @ rest\<rparr>" by simp
    also have "feed_loop ds ((?f\<lparr>fr_buffer := []\<rparr>)\<lparr>fr_buffer := more @ rest\<rparr>) =
        feed_loop (ds @ [decode_payload (concat ((fr_parts f @ [part]) @ parts))]) (framer_init\<lparr>fr_buffer := rest\<rparr>)"
      using "2.IH"[OF rest' False, of "?f\<lparr>fr_buffer := []\<rparr>"] nx "2.prems"(5) by simp
    finally show ?thesis by simp
  qed
qed simp

lemma concat_chunks_of: "0 < k \<Longrightarrow> concat (chunks_of k bs) = bs"
proof (induction k bs rule: chunks_of.induct)
  case (1 k bs)
  then show ?case by (subst chunks_of.simps) auto
qed

lemma encode_single:
  assumes "encode_packet pay TERMINAL TERMINAL = Inr bs" and "length pay \<le> MAX_DOCUMENT_BYTES"
  shows "feed_loop ds (framer_init\<lparr>fr_buffer := bs @ rest\<rparr>) = feed_loop (ds @ [decode_payload pay]) (framer_init\<lparr>fr_buffer := rest\<rparr>)"
  using encode_packet_next[OF assms(1), where f = framer_init and rest = rest] chain_last[of TERMINAL "framer_init\<lparr>fr_buffer := rest\<rparr>" pay] assms(2)
  by (subst feed_loop.simps) (simp add: framer_init_def)

lemma feed_loop_document:
  assumes "encode_bytes chunk first_id pay = Inr bs" and "length pay \<le> MAX_DOCUMENT_BYTES"
  shows "feed_loop ds (framer_init\<lparr>fr_buffer := bs @ rest\<rparr>) = feed_loop (ds @ [decode_payload pay]) (framer_init\<lparr>fr_buffer := rest\<rparr>)"
proof -
  define parts where "parts = (if pay = [] then [[]] else chunks_of chunk pay)"
  have k: "0 < chunk" using assms(1) by (auto simp: encode_bytes_def split: if_splits)
  have parts: "concat parts = pay" "parts \<noteq> []"
    using concat_chunks_of[OF k] by (auto simp: parts_def) (metis concat.simps(1))
  show ?thesis
  proof (cases "length parts = 1")
    case True
    then obtain p where "parts = [p]" by (auto simp: length_Suc_conv)
    with parts assms True show ?thesis
      by (intro encode_single) (auto simp: encode_bytes_def parts_def[symmetric] Let_def split: if_splits)
  next
    case False
    then have "encode_parts TERMINAL first_id parts = Inr bs"
      using assms(1) by (auto simp: encode_bytes_def parts_def[symmetric] Let_def split: if_splits)
    from feed_loop_parts[OF this parts(2), where f = framer_init and ds = ds and rest = rest] parts(1) assms(2) show ?thesis
      by (simp add: framer_init_def)
  qed
qed

lemma feed_loop_documents:
  assumes "list_all2 (\<lambda>(chunk, first_id, doc) bs. encode_document chunk first_id doc = Inr bs
      \<and> (\<exists>pay. utf8_encode doc = Inr pay \<and> length pay \<le> MAX_DOCUMENT_BYTES)) docs streams"
  shows "feed_loop ds (framer_init\<lparr>fr_buffer := concat streams\<rparr>) = (Inr (ds @ map (snd \<circ> snd) docs), framer_init)"
  using assms
proof (induction docs streams arbitrary: ds rule: list_all2_induct)
  case Nil
  have "next_packet framer_init = (Inr None, framer_init)" by (simp add: next_packet_def framer_init_def HEADER_LEN_def)
  then show ?case by (subst feed_loop.simps) (simp add: framer_init_def)
next
  case (Cons d docs bs streams)
  obtain chunk first_id doc where d: "d = (chunk, first_id, doc)" by (cases d)
  with Cons(1) obtain pay where pay: "utf8_encode doc = Inr pay" "length pay \<le> MAX_DOCUMENT_BYTES" "encode_bytes chunk first_id pay = Inr bs"
    by (auto simp: encode_document_def sbind_Inr_iff)
  have "decode_payload pay = doc" using utf8_roundtrip[OF pay(1)] by (simp add: decode_payload_def)
  with feed_loop_document[OF pay(3,2), of ds "concat streams"] Cons(3)[of "ds @ [doc]"] d show ?case by simp
qed

section \<open>Properties\<close>

text \<open>
  What the framer makes of a byte stream does not depend on how the socket delivers it: feeding it
  in pieces gives the documents, the final state and the error of feeding it at once.
\<close>
theorem feed_in_pieces:
  assumes "pieces \<noteq> []"
  shows "feed_all pieces f = feed (concat pieces) f"
  using assms by (rule feed_all_concat)

theorem feed_in_pieces_witness:
  "feed_all [''!@#0000'', ''2==hi!''] framer_init = feed ''!@#00002==hi!'' framer_init"
  using feed_in_pieces[of "[''!@#0000'', ''2==hi!'']" framer_init] by simp

text \<open>
  C18. The framer reads back what the encoder writes: any sequence of documents, each encoded in any
  packet size and starting at any id, fed in any pieces, comes out as those documents in order, with
  nothing left over.
\<close>
theorem framing_roundtrip:
  assumes "list_all2 (\<lambda>(chunk, first_id, doc) bs. encode_document chunk first_id doc = Inr bs
      \<and> (\<exists>pay. utf8_encode doc = Inr pay \<and> length pay \<le> MAX_DOCUMENT_BYTES)) docs streams"
    and "concat pieces = concat streams" and "pieces \<noteq> []"
  shows "feed_all pieces framer_init = (Inr (map (snd \<circ> snd) docs), framer_init)"
proof -
  have "feed (concat streams) framer_init = (Inr (map (snd \<circ> snd) docs), framer_init)"
    using feed_loop_documents[OF assms(1), of "[]"] by (simp add: feed_def framer_init_def)
  with feed_all_concat[OF assms(3), of framer_init] assms(2) show ?thesis by simp
qed

theorem framing_roundtrip_witness:
  "feed_all [''!@#00002=Zh'', ''\<newline>'', ''!@#00001Z=i''] framer_init = (Inr [[104, 10, 105]], framer_init)"
proof -
  have c: "chunks_of 2 ''h\<newline>i'' = [''h\<newline>'', ''i'']" by (simp add: chunks_of.simps eval_nat_numeral)
  have p: "show_nat_pad 5 (Suc (Suc 0)) = ''00002''" "show_nat_pad 5 (Suc 0) = ''00001''" by code_simp+
  have b: "byte 104 = CHR ''h''" "byte 10 = CHR ''\<newline>''" "byte 105 = CHR ''i''" by code_simp+
  have u: "utf8_encode [104, 10, 105] = Inr ''h\<newline>i''"
    by (simp add: utf8_encode_def utf8_char_def is_scalar_def b)
  have n: "next_packet_id (CHR ''Z'') = Inr (CHR ''a'')" "next_packet_id (CHR ''a'') = Inr (CHR ''b'')" by code_simp+
  have "encode_document 2 (CHR ''Z'') [104, 10, 105] = Inr (''!@#00002=Zh\<newline>!@#00001Z=i'')"
    by (simp add: encode_document_def u encode_bytes_def MAX_PAYLOAD_def c n encode_packet_def p MAGIC_def TERMINAL_def Let_def)
  with framing_roundtrip[of "[(2, CHR ''Z'', [104, 10, 105])]" "[''!@#00002=Zh\<newline>!@#00001Z=i'']"
      "[''!@#00002=Zh'', ''\<newline>'', ''!@#00001Z=i'']"] u show ?thesis
    by (simp add: MAX_DOCUMENT_BYTES_def)
qed

end
