(* ===== verification/Limiter.thy ===== *)
theory Limiter
  imports Registry_Cache "HOL-Library.Multiset" "HOL-Library.Option_ord" "HOL-Library.Product_Lexorder" "HOL-Library.List_Lexorder" "HOL-Library.Char_ord"
begin

text \<open>
  \<^verbatim>\<open>src/pit/live_decoder/config.py\<close> and \<^verbatim>\<open>limiter.py\<close>: which channels the live view shows and how often,
  and the conflating limiter that enforces it, with the calls the decoder service makes on it for a
  message and for an idle poll.

  Time is the monotonic clock in seconds. The two \<open>defaultdict\<close> counters are functions, the dict of
  channel states is an association list in insertion order. A sort with \<open>reverse=True\<close> keeps equal
  elements in order, so it is \<open>rev \<circ> sort \<circ> rev\<close>; the key \<open>float("-inf")\<close> of a channel that was
  never published is \<open>None\<close>, the least value of an option.
\<close>

section \<open>Globs\<close>

text \<open>\<open>fnmatch.fnmatchcase\<close>: the rest of the pattern after an opening bracket is split into the class and
  what follows it; a bracket that is never closed stands for itself.\<close>

definition split_class :: "string \<Rightarrow> (string \<times> string) option" where
  "split_class s =
     (let a = (if s \<noteq> [] \<and> hd s = CHR ''!'' then 1 else 0);
          b = (if a < length s \<and> s ! a = CHR '']'' then a + 1 else a);
          j = b + length (takeWhile (\<lambda>c. c \<noteq> CHR '']'') (drop b s))
      in if j < length s then Some (take j s, drop (Suc j) s) else None)"

function in_class :: "char \<Rightarrow> string \<Rightarrow> bool" where
  "in_class c [] = False"
| "in_class c (a # xs) =
     (case xs of
        h # b # ys \<Rightarrow>
          if h = CHR ''-'' then (a \<le> c \<and> c \<le> b) \<or> in_class c ys else c = a \<or> in_class c xs
      | _ \<Rightarrow> c = a \<or> in_class c xs)"
  by pat_completeness auto
termination by (relation "measure (\<lambda>(c, xs). length xs)") auto

definition class_matches :: "string \<Rightarrow> char \<Rightarrow> bool" where
  "class_matches cls c =
     (if cls \<noteq> [] \<and> hd cls = CHR ''!'' then \<not> in_class c (tl cls) else in_class c cls)"

lemma split_class_shorter: "split_class s = Some (cls, rest) \<Longrightarrow> length rest < length s"
  by (auto simp: split_class_def Let_def split: if_splits)

function glob_match :: "string \<Rightarrow> string \<Rightarrow> bool" where
  "glob_match [] s = (s = [])"
| "glob_match (p # ps) s =
     (if p = CHR ''*'' then glob_match ps s \<or> (if s = [] then False else glob_match (p # ps) (tl s))
      else if p = CHR ''?'' then s \<noteq> [] \<and> glob_match ps (tl s)
      else if p = CHR ''['' then
        (case split_class ps of
           None \<Rightarrow> s \<noteq> [] \<and> hd s = p \<and> glob_match ps (tl s)
         | Some (cls, rest) \<Rightarrow> s \<noteq> [] \<and> class_matches cls (hd s) \<and> glob_match rest (tl s))
      else s \<noteq> [] \<and> hd s = p \<and> glob_match ps (tl s))"
  by pat_completeness auto
termination
  by (relation "measure (\<lambda>(p, s). length p + length s)") (auto dest!: split_class_shorter simp: neq_Nil_conv)

section \<open>Configuration\<close>

record live_defaults =
  ld_max_hz :: real
  ld_total_max_hz :: real

record channel_rule =
  cr_match :: string
  cr_max_hz :: "real option"

record live_config =
  lc_vehicle :: "string option"
  lc_defaults :: live_defaults
  lc_channels :: "channel_rule list"

definition rule_for :: "live_config \<Rightarrow> string \<Rightarrow> channel_rule option" where
  "rule_for cfg name = List.find (\<lambda>r. glob_match (cr_match r) name) (lc_channels cfg)"

definition max_hz_for :: "live_config \<Rightarrow> string \<Rightarrow> real option" where
  "max_hz_for cfg name =
     (case rule_for cfg name of
        None \<Rightarrow> None
      | Some r \<Rightarrow> Some (case cr_max_hz r of None \<Rightarrow> ld_max_hz (lc_defaults cfg) | Some hz \<Rightarrow> hz))"

definition unmatched_rules :: "live_config \<Rightarrow> channel_registry \<Rightarrow> string list" where
  "unmatched_rules cfg reg =
     map cr_match (filter (\<lambda>r. \<not> list_ex (\<lambda>n. glob_match (cr_match r) n) (map ch_name (reg_channels reg))) (lc_channels cfg))"

section \<open>State\<close>

definition EPSILON :: real where "EPSILON = 1 / 10 ^ 9"

record live_update =
  lu_channel :: string
  lu_capture_unix_ms :: real
  lu_value :: "sample_value option"
  lu_conflate :: bool

record channel_state =
  cs_interval_s :: real
  cs_pending :: "live_update option"
  cs_next_due :: "real option"
  cs_last_published :: "real option"

record limiter =
  li_config :: live_config
  li_suppressed :: "string \<Rightarrow> nat"
  li_published :: "string \<Rightarrow> nat"
  li_aggregate_sheds :: nat
  li_states :: "(string \<times> channel_state) list"
  li_aggregate_at :: "real option"
  li_aggregate_tokens :: real

definition channel_state_new :: "real \<Rightarrow> channel_state" where
  "channel_state_new interval = \<lparr>cs_interval_s = interval, cs_pending = None, cs_next_due = None, cs_last_published = None\<rparr>"

definition limiter_init :: "live_config \<Rightarrow> limiter" where
  "limiter_init cfg = \<lparr>li_config = cfg, li_suppressed = (\<lambda>_. 0), li_published = (\<lambda>_. 0), li_aggregate_sheds = 0,
     li_states = [], li_aggregate_at = None, li_aggregate_tokens = 0\<rparr>"

definition reconfigure :: "live_config \<Rightarrow> limiter \<Rightarrow> limiter" where
  "reconfigure cfg l = l\<lparr>li_config := cfg, li_states := [], li_aggregate_at := None, li_aggregate_tokens := 0\<rparr>"

definition count_one :: "string \<Rightarrow> (string \<Rightarrow> nat) \<Rightarrow> string \<Rightarrow> nat" where
  "count_one ch f = f(ch := f ch + 1)"

definition suppress :: "string \<Rightarrow> limiter \<Rightarrow> limiter" where
  "suppress ch l = l\<lparr>li_suppressed := count_one ch (li_suppressed l)\<rparr>"

definition due :: "real \<Rightarrow> real option \<Rightarrow> bool" where
  "due now d = (case d of None \<Rightarrow> True | Some t \<Rightarrow> now + EPSILON \<ge> t)"

definition set_state :: "string \<Rightarrow> channel_state \<Rightarrow> limiter \<Rightarrow> limiter" where
  "set_state ch s l = l\<lparr>li_states := AList.update ch s (li_states l)\<rparr>"

section \<open>Operations\<close>

definition offer :: "decoded_sample \<Rightarrow> real \<Rightarrow> limiter \<Rightarrow> live_update list \<times> limiter" where
  [op_defs]: "offer smp now l =
     (let ch = ch_name (ds_channel smp) in
      case max_hz_for (li_config l) ch of
        None \<Rightarrow> ([], l)
      | Some hz \<Rightarrow>
          (let update = \<lparr>lu_channel = ch, lu_capture_unix_ms = ds_capture_unix_ms smp, lu_value = ds_value smp, lu_conflate = (hz \<noteq> 0)\<rparr>;
               l0 = (if map_of (li_states l) ch = None then set_state ch (channel_state_new 0) l else l)
           in if hz = 0 then ([update], l0)
              else
                (let interval = 1 / hz;
                     st0 = the (map_of (li_states l0) ch);
                     st = (if cs_interval_s st0 \<noteq> interval then channel_state_new interval else st0);
                     l1 = set_state ch st l0;
                     l2 = (if cs_pending st \<noteq> None then suppress ch l1 else l1)
                 in if due now (cs_next_due st)
                    then ([update], set_state ch (st\<lparr>cs_pending := None\<rparr>) l2)
                    else ([], set_state ch (st\<lparr>cs_pending := Some update\<rparr>) l2))))"

definition last_published :: "limiter \<Rightarrow> string \<Rightarrow> real option" where
  "last_published l ch = Option.bind (map_of (li_states l) ch) cs_last_published"

definition rank :: "limiter \<Rightarrow> live_update list \<Rightarrow> live_update list" where
  "rank l us = rev (sort_key (\<lambda>u. (last_published l (lu_channel u), lu_channel u)) (rev us))"

definition is_ready :: "real \<Rightarrow> channel_state \<Rightarrow> bool" where
  "is_ready now st \<longleftrightarrow> cs_pending st \<noteq> None \<and> cs_next_due st \<noteq> None \<and> due now (cs_next_due st)"

definition drain_pending :: "real \<Rightarrow> limiter \<Rightarrow> live_update list \<times> limiter" where
  [op_defs]: "drain_pending now l =
     (let ready = List.map_filter (\<lambda>(ch, st). if is_ready now st then cs_pending st else None) (li_states l);
          l' = l\<lparr>li_states := map (\<lambda>(ch, st). (ch, if is_ready now st then st\<lparr>cs_pending := None\<rparr> else st)) (li_states l)\<rparr>
      in (rank l' ready, l'))"

text \<open>The loop of \<open>conflate_candidates\<close>: a later update of a limited channel takes the place of the
  earlier one, which is suppressed.\<close>

fun place_update :: "live_update \<Rightarrow> live_update list \<Rightarrow> live_update list" where
  "place_update u [] = []"
| "place_update u (x # xs) = (if lu_conflate x \<and> lu_channel x = lu_channel u then u # xs else x # place_update u xs)"

definition conflate_step :: "live_update \<Rightarrow> live_update list \<times> limiter \<Rightarrow> live_update list \<times> limiter" where
  "conflate_step u acc =
     (let (kept, l) = acc in
      if \<not> lu_conflate u then (kept @ [u], l)
      else if list_ex (\<lambda>x. lu_conflate x \<and> lu_channel x = lu_channel u) kept
      then (place_update u kept, suppress (lu_channel u) l)
      else (kept @ [u], l))"

definition conflate_candidates :: "live_update list \<Rightarrow> limiter \<Rightarrow> live_update list \<times> limiter" where
  [op_defs]: "conflate_candidates us l = fold conflate_step us ([], l)"

definition refill_aggregate :: "real \<Rightarrow> real \<Rightarrow> limiter \<Rightarrow> limiter" where
  "refill_aggregate now limit l =
     (if limit = 0 then l
      else let capacity = max 1 limit;
               tokens = (case li_aggregate_at l of
                   None \<Rightarrow> capacity
                 | Some t \<Rightarrow> if now < t then capacity
                             else min capacity (li_aggregate_tokens l + (now - t) * limit))
           in l\<lparr>li_aggregate_tokens := tokens, li_aggregate_at := Some now\<rparr>)"

definition accept_update :: "real \<Rightarrow> live_update \<Rightarrow> limiter \<Rightarrow> limiter" where
  "accept_update now u l =
     (let l1 = l\<lparr>li_published := count_one (lu_channel u) (li_published l)\<rparr>
      in case map_of (li_states l1) (lu_channel u) of
           None \<Rightarrow> l1
         | Some st \<Rightarrow> set_state (lu_channel u)
             (st\<lparr>cs_last_published := Some now, cs_next_due := Some (now + cs_interval_s st)\<rparr>) l1)"

definition reject_update :: "live_update \<Rightarrow> limiter \<Rightarrow> limiter" where
  "reject_update u l = suppress (lu_channel u) (l\<lparr>li_aggregate_sheds := li_aggregate_sheds l + 1\<rparr>)"

definition admit :: "live_update list \<Rightarrow> real \<Rightarrow> limiter \<Rightarrow> live_update list \<times> limiter" where
  [op_defs]: "admit candidates now l =
     (let ranked = rank l candidates;
          limit = ld_total_max_hz (lc_defaults (li_config l));
          l1 = refill_aggregate now limit l;
          available = (if limit = 0 then length ranked
                       else min (length ranked) (nat (trunc_real (li_aggregate_tokens l1 + EPSILON))));
          accepted = take available ranked; rejected = drop available ranked;
          l2 = fold reject_update rejected (fold (accept_update now) accepted l1)
      in (accepted, if limit \<noteq> 0 then l2\<lparr>li_aggregate_tokens := li_aggregate_tokens l2 - real (length accepted)\<rparr> else l2))"

section \<open>The service's calls\<close>

text \<open>A decoded message at \<open>now\<close>, and an idle poll; both publish what \<open>admit\<close> returns.\<close>

fun offer_step :: "real \<Rightarrow> decoded_sample \<Rightarrow> live_update list \<times> limiter \<Rightarrow> live_update list \<times> limiter" where
  "offer_step now smp (us, l) = (us @ fst (offer smp now l), snd (offer smp now l))"

definition handle_samples :: "decoded_sample list \<Rightarrow> real \<Rightarrow> limiter \<Rightarrow> live_update list \<times> limiter" where
  [op_defs]: "handle_samples samples now l =
     (let (offered, l1) = fold (offer_step now) samples ([], l);
          (drained, l2) = drain_pending now l1;
          (kept, l3) = conflate_candidates (offered @ drained) l2
      in admit kept now l3)"

definition idle_poll :: "real \<Rightarrow> limiter \<Rightarrow> live_update list \<times> limiter" where
  [op_defs]: "idle_poll now l = (let (drained, l1) = drain_pending now l in admit drained now l1)"

datatype live_event = Message "decoded_sample list" real | Poll real

fun event_time :: "live_event \<Rightarrow> real" where
  "event_time (Message _ now) = now"
| "event_time (Poll now) = now"

fun limiter_event :: "live_event \<Rightarrow> limiter \<Rightarrow> live_update list \<times> limiter" where
  "limiter_event (Message samples now) l = handle_samples samples now l"
| "limiter_event (Poll now) l = idle_poll now l"

definition limiter_step :: "live_event \<Rightarrow> limiter \<Rightarrow> limiter" where
  "limiter_step ev l = snd (limiter_event ev l)"

fun run_limiter :: "live_event list \<Rightarrow> limiter \<Rightarrow> live_update list list \<times> limiter" where
  "run_limiter [] l = ([], l)"
| "run_limiter (ev # evs) l =
     (let (out, l1) = limiter_event ev l; (outs, l2) = run_limiter evs l1 in (out # outs, l2))"

section \<open>The aggregate budget\<close>

abbreviation bucket :: "limiter \<Rightarrow> live_config \<times> real option \<times> real" where
  "bucket l \<equiv> (li_config l, li_aggregate_at l, li_aggregate_tokens l)"

lemma bucket_set_state [simp]: "bucket (set_state ch st l) = bucket l" and bucket_suppress [simp]: "bucket (suppress ch l) = bucket l"
  by (simp_all add: set_state_def suppress_def)

lemma bucket_offer: "bucket (snd (offer smp now l)) = bucket l"
  by (simp add: offer_def Let_def set_state_def suppress_def split: option.split)

lemma bucket_offers: "bucket (snd (fold (offer_step now) samples x)) = bucket (snd x)"
proof (induction samples arbitrary: x)
  case (Cons smp samples)
  then show ?case by (cases x) (simp add: bucket_offer)
qed simp

lemma bucket_drain: "bucket (snd (drain_pending now l)) = bucket l"
  by (simp add: drain_pending_def Let_def)

lemma bucket_conflate: "bucket (snd (fold conflate_step us x)) = bucket (snd x)"
proof (induction us arbitrary: x)
  case (Cons u us)
  have "bucket (snd (conflate_step u x)) = bucket (snd x)" by (cases x) (simp add: conflate_step_def suppress_def)
  with Cons show ?case by simp
qed simp

lemma bucket_accept: "bucket (fold (accept_update now) us l) = bucket l"
proof (induction us arbitrary: l)
  case (Cons u us)
  have "bucket (accept_update now u l) = bucket l" by (simp add: accept_update_def Let_def set_state_def split: option.split)
  with Cons show ?case by simp
qed simp

lemma bucket_reject: "bucket (fold reject_update us l) = bucket l"
  by (induction us arbitrary: l) (simp_all add: reject_update_def suppress_def)

text \<open>The tokens a step starts with, and what it may publish.\<close>

definition tokens_at :: "real \<Rightarrow> real \<Rightarrow> real option \<Rightarrow> real \<Rightarrow> real" where
  "tokens_at limit now last_at tokens =
     (case last_at of
        None \<Rightarrow> max 1 limit
      | Some t \<Rightarrow> if now < t then max 1 limit else min (max 1 limit) (tokens + (now - t) * limit))"

lemma nat_trunc_le: "0 < k \<Longrightarrow> k \<le> nat (trunc_real x) \<Longrightarrow> real k \<le> x"
  by (auto simp: trunc_real_def split: if_splits) linarith+

lemma admit_bucket:
  assumes "admit us now l = (out, l')" and "bucket l = (cfg, last_at, tokens)" and "limit = ld_total_max_hz (lc_defaults cfg)" and "limit \<noteq> 0"
  shows "bucket l' = (cfg, Some now, tokens_at limit now last_at tokens - real (length out))
    \<and> real (length out) \<le> max 0 (tokens_at limit now last_at tokens + EPSILON)"
proof -
  define l1 where "l1 = refill_aggregate now limit l"
  define tk where "tk = tokens_at limit now last_at tokens"
  have b: "bucket l1 = (cfg, Some now, tk)"
    using assms(2,4) by (auto simp: l1_def refill_aggregate_def tk_def tokens_at_def Let_def split: option.split)
  define k where "k = min (length (rank l us)) (nat (trunc_real (tk + EPSILON)))"
  have out: "out = take k (rank l us)"
    and l': "l' = (fold reject_update (drop k (rank l us)) (fold (accept_update now) out l1))
      \<lparr>li_aggregate_tokens := li_aggregate_tokens (fold reject_update (drop k (rank l us)) (fold (accept_update now) out l1)) - real (length out)\<rparr>"
    using assms b by (auto simp: admit_def Let_def l1_def k_def)
  have "bucket (fold reject_update (drop k (rank l us)) (fold (accept_update now) out l1)) = (cfg, Some now, tk)"
    using b by (simp only: bucket_reject bucket_accept)
  then have "bucket l' = (cfg, Some now, tk - real (length out))" by (simp add: l')
  moreover have "real (length out) \<le> max 0 (tk + EPSILON)"
    using nat_trunc_le[of "length out" "tk + EPSILON"] by (cases "length out = 0") (simp_all add: out k_def le_max_iff_disj)
  ultimately show ?thesis by (simp add: tk_def)
qed

lemma event_bucket:
  assumes "limiter_event ev l = (out, l')" and "bucket l = (cfg, last_at, tokens)" and "limit = ld_total_max_hz (lc_defaults cfg)" and "limit \<noteq> 0"
  shows "bucket l' = (cfg, Some (event_time ev), tokens_at limit (event_time ev) last_at tokens - real (length out))
    \<and> real (length out) \<le> max 0 (tokens_at limit (event_time ev) last_at tokens + EPSILON)"
proof (cases ev)
  case (Message samples now)
  obtain offered l1 drained l2 kept l3 where o: "fold (offer_step now) samples ([], l) = (offered, l1)"
    and d: "drain_pending now l1 = (drained, l2)" and c: "conflate_candidates (offered @ drained) l2 = (kept, l3)"
    by (metis surj_pair)
  have "bucket l3 = bucket l"
    using bucket_offers[of now samples "([], l)"] bucket_drain[of now l1] bucket_conflate[of "offered @ drained" "([], l2)"] o d c
    by (simp add: conflate_candidates_def)
  with admit_bucket[of kept now l3 out l'] assms Message o d c show ?thesis by (simp add: handle_samples_def)
next
  case (Poll now)
  obtain drained l1 where d: "drain_pending now l = (drained, l1)" by fastforce
  with bucket_drain[of now l] admit_bucket[of drained now l1 out l'] assms Poll show ?thesis by (simp add: idle_poll_def)
qed

lemma budget_step:
  fixes k r tk q e total :: real
  assumes "k \<le> max 0 (tk + e)" and "r \<le> max 0 (tk - k + q + e)" and "0 \<le> k" and "0 \<le> q" and "tk + q \<le> total"
  shows "k + r \<le> max 0 (total + e)"
  using assms unfolding max_def by argo

lemma run_budget:
  assumes "run_limiter evs l = (outs, l')" and "bucket l = (cfg, Some a, tokens)" and "limit = ld_total_max_hz (lc_defaults cfg)"
    and "0 < limit" and "sorted (a # map event_time evs)" and "\<forall>ev \<in> set evs. event_time ev \<le> b"
  shows "real (length (concat outs)) \<le> max 0 (tokens + limit * (b - a) + EPSILON)"
  using assms
proof (induction evs arbitrary: l outs a tokens)
  case (Cons ev evs)
  let ?t = "event_time ev"
  obtain out l1 outs1 where e: "limiter_event ev l = (out, l1)" and r: "run_limiter evs l1 = (outs1, l')" and outs: "outs = out # outs1"
    using Cons.prems(1) by (auto split: prod.splits)
  define tk where "tk = tokens_at limit ?t (Some a) tokens"
  have at: "a \<le> ?t" "?t \<le> b" using Cons.prems(5,6) by auto
  have tk: "tk \<le> tokens + limit * (?t - a)" using at by (simp add: tk_def tokens_at_def mult.commute)
  have b1: "bucket l1 = (cfg, Some ?t, tk - real (length out))" and k: "real (length out) \<le> max 0 (tk + EPSILON)"
    using event_bucket[OF e Cons.prems(2,3)] Cons.prems(4) by (simp_all add: tk_def)
  have IH: "real (length (concat outs1)) \<le> max 0 (tk - real (length out) + limit * (b - ?t) + EPSILON)"
    using Cons.IH[OF r b1 Cons.prems(3,4)] Cons.prems(5,6) by simp
  have "0 \<le> limit * (b - ?t)" using at Cons.prems(4) by simp
  moreover have "tk + limit * (b - ?t) \<le> tokens + limit * (b - a)" using tk by (simp add: algebra_simps)
  ultimately show ?case using budget_step[OF k IH] by (simp add: outs)
qed simp

lemma run_budget_fresh:
  assumes "run_limiter evs l = (outs, l')" and "limit = ld_total_max_hz (lc_defaults (li_config l))"
    and "0 < limit" and "sorted (a # map event_time evs)" and "\<forall>ev \<in> set evs. event_time ev \<le> b"
  shows "real (length (concat outs)) \<le> max 0 (max 1 limit + limit * (b - a) + EPSILON)"
proof (cases evs)
  case (Cons ev evs')
  let ?t = "event_time ev"
  obtain out l1 outs1 where e: "limiter_event ev l = (out, l1)" and r: "run_limiter evs' l1 = (outs1, l')" and outs: "outs = out # outs1"
    using assms(1) Cons by (auto split: prod.splits)
  define tk where "tk = tokens_at limit ?t (li_aggregate_at l) (li_aggregate_tokens l)"
  have at: "a \<le> ?t" "?t \<le> b" using assms(4,5) Cons by auto
  have tk: "tk \<le> max 1 limit" by (simp add: tk_def tokens_at_def split: option.split)
  have b1: "bucket l1 = (li_config l, Some ?t, tk - real (length out))" and k: "real (length out) \<le> max 0 (tk + EPSILON)"
    using event_bucket[OF e refl assms(2)] assms(3) by (simp_all add: tk_def)
  have rest: "real (length (concat outs1)) \<le> max 0 (tk - real (length out) + limit * (b - ?t) + EPSILON)"
    using run_budget[OF r b1 assms(2,3)] assms(4,5) Cons by simp
  have "0 \<le> limit * (b - ?t)" "limit * (b - ?t) \<le> limit * (b - a)" using at assms(3) by simp_all
  then have "tk + limit * (b - ?t) \<le> max 1 limit + limit * (b - a)" using tk by linarith
  with budget_step[OF k rest] \<open>0 \<le> limit * (b - ?t)\<close> show ?thesis by (simp add: outs)
qed (use assms(1) in simp)

section \<open>Channel states\<close>

definition state_ok :: "live_config \<Rightarrow> string \<Rightarrow> channel_state \<Rightarrow> bool" where
  "state_ok cfg ch st \<longleftrightarrow> (\<exists>hz. max_hz_for cfg ch = Some hz \<and> (hz = 0 \<longrightarrow> cs_pending st = None) \<and> (hz \<noteq> 0 \<longrightarrow> cs_interval_s st = 1 / hz))
     \<and> (\<forall>u. cs_pending st = Some u \<longrightarrow> lu_channel u = ch \<and> lu_conflate u)"

definition limiter_inv :: "live_config \<Rightarrow> limiter \<Rightarrow> bool" where
  [inv_defs]: "limiter_inv cfg l \<longleftrightarrow> li_config l = cfg \<and> distinct (map fst (li_states l))
     \<and> (\<forall>ch st. map_of (li_states l) ch = Some st \<longrightarrow> state_ok cfg ch st)"

text \<open>Updates on their way to \<open>admit\<close>: their channel has a state, and a limited one is due.\<close>

definition in_flight :: "live_config \<Rightarrow> real \<Rightarrow> limiter \<Rightarrow> live_update list \<Rightarrow> bool" where
  "in_flight cfg now l us \<longleftrightarrow> (\<forall>u \<in> set us. \<exists>st. map_of (li_states l) (lu_channel u) = Some st
     \<and> (\<forall>hz. max_hz_for cfg (lu_channel u) = Some hz \<and> hz \<noteq> 0 \<longrightarrow> lu_conflate u \<and> due now (cs_next_due st)))"

text \<open>Nothing of a channel's timing is touched before \<open>admit\<close>.\<close>

definition same_due :: "limiter \<Rightarrow> limiter \<Rightarrow> bool" where
  "same_due l l' \<longleftrightarrow> (\<forall>ch st. map_of (li_states l) ch = Some st \<longrightarrow>
     (\<exists>st'. map_of (li_states l') ch = Some st' \<and> cs_next_due st' = cs_next_due st \<and> cs_interval_s st' = cs_interval_s st))"

definition count_updates :: "string \<Rightarrow> live_update list \<Rightarrow> nat" where
  "count_updates c us = length (filter (\<lambda>u. lu_channel u = c) us)"

definition is_pending :: "limiter \<Rightarrow> string \<Rightarrow> bool" where
  "is_pending l c = (case map_of (li_states l) c of None \<Rightarrow> False | Some st \<Rightarrow> cs_pending st \<noteq> None)"

definition accounted :: "string \<Rightarrow> limiter \<Rightarrow> nat" where
  "accounted c l = li_published l c + li_suppressed l c + of_bool (is_pending l c)"

lemma count_updates_simps [simp]:
  "count_updates c [] = 0" "count_updates c (u # us) = of_bool (lu_channel u = c) + count_updates c us"
  "count_updates c (us @ vs) = count_updates c us + count_updates c vs"
  by (simp_all add: count_updates_def)

lemma same_due_refl: "same_due l l" and same_due_trans: "same_due l l1 \<Longrightarrow> same_due l1 l2 \<Longrightarrow> same_due l l2"
  unfolding same_due_def by blast (metis (no_types, lifting))

lemma in_flight_same_due: "in_flight cfg now l us \<Longrightarrow> same_due l l' \<Longrightarrow> in_flight cfg now l' us"
  unfolding in_flight_def same_due_def by (metis (no_types, lifting))

lemma in_flight_append: "in_flight cfg now l (us @ vs) \<longleftrightarrow> in_flight cfg now l us \<and> in_flight cfg now l vs"
  by (auto simp: in_flight_def)

lemma map_of_set_state [simp]: "map_of (li_states (set_state ch st l)) = (map_of (li_states l))(ch \<mapsto> st)"
  by (simp add: set_state_def map_of_update)

text \<open>What \<open>offer\<close> does to a limited channel.\<close>

definition offered_state :: "real \<Rightarrow> string \<Rightarrow> limiter \<Rightarrow> channel_state" where
  "offered_state hz ch l = (case map_of (li_states l) ch of None \<Rightarrow> channel_state_new (1 / hz) | Some st \<Rightarrow> st)"

lemma offer_limited:
  assumes "limiter_inv cfg l" and "ch = ch_name (ds_channel smp)" and "max_hz_for cfg ch = Some hz" and "hz \<noteq> 0"
    and "offer smp now l = (out, l')"
    and "u = \<lparr>lu_channel = ch, lu_capture_unix_ms = ds_capture_unix_ms smp, lu_value = ds_value smp, lu_conflate = True\<rparr>"
    and "st = offered_state hz ch l"
  shows "out = (if due now (cs_next_due st) then [u] else [])"
    "map_of (li_states l') = (map_of (li_states l))(ch \<mapsto> st\<lparr>cs_pending := if due now (cs_next_due st) then None else Some u\<rparr>)"
    "li_suppressed l' = (if cs_pending st \<noteq> None then count_one ch (li_suppressed l) else li_suppressed l)"
    "li_published l' = li_published l" "li_config l' = cfg" "distinct (map fst (li_states l'))"
proof -
  have cfg: "li_config l = cfg" and ok: "\<And>s. map_of (li_states l) ch = Some s \<Longrightarrow> state_ok cfg ch s" and d: "distinct (map fst (li_states l))"
    using assms(1) by (auto simp: limiter_inv_def)
  define l0 where "l0 = (if map_of (li_states l) ch = None then set_state ch (channel_state_new 0) l else l)"
  have st: "(if cs_interval_s (the (map_of (li_states l0) ch)) \<noteq> 1 / hz then channel_state_new (1 / hz) else the (map_of (li_states l0) ch)) = st"
  proof (cases "map_of (li_states l) ch")
    case None
    then show ?thesis using assms(4) by (simp add: assms(7) offered_state_def l0_def channel_state_new_def)
  next
    case (Some s)
    then have "cs_interval_s s = 1 / hz" using ok assms(3,4) by (auto simp: state_ok_def)
    with Some show ?thesis by (simp add: assms(7) offered_state_def l0_def)
  qed
  note r = assms(5)[unfolded offer_def Let_def assms(2)[symmetric] cfg assms(3) option.case l0_def[symmetric] st]
  have d0: "distinct (map fst (li_states l0))" using d by (simp add: l0_def set_state_def)
  show "out = (if due now (cs_next_due st) then [u] else [])" "li_published l' = li_published l" "li_config l' = cfg"
    "distinct (map fst (li_states l'))"
    "li_suppressed l' = (if cs_pending st \<noteq> None then count_one ch (li_suppressed l) else li_suppressed l)"
    using r assms(4,6) d d0 cfg by (auto simp: set_state_def suppress_def l0_def split: if_splits)
  show "map_of (li_states l') = (map_of (li_states l))(ch \<mapsto> st\<lparr>cs_pending := if due now (cs_next_due st) then None else Some u\<rparr>)"
    using r assms(4,6) by (auto simp: set_state_def suppress_def l0_def map_of_update split: if_splits)
qed

lemma offer_free:
  assumes "limiter_inv cfg l" and "ch = ch_name (ds_channel smp)" and "max_hz_for cfg ch = Some 0" and "offer smp now l = (out, l')"
  shows "\<exists>u. out = [u] \<and> lu_channel u = ch" "li_suppressed l' = li_suppressed l" "li_published l' = li_published l" "li_config l' = cfg"
    "distinct (map fst (li_states l'))"
    "map_of (li_states l') = (if map_of (li_states l) ch = None then (map_of (li_states l))(ch \<mapsto> channel_state_new 0) else map_of (li_states l))"
  using assms by (auto simp: offer_def Let_def limiter_inv_def set_state_def map_of_update)

lemma offer_none:
  assumes "limiter_inv cfg l" and "max_hz_for cfg (ch_name (ds_channel smp)) = None"
  shows "offer smp now l = ([], l)"
  using assms by (simp add: offer_def limiter_inv_def Let_def)

lemma offer_step_props:
  assumes "limiter_inv cfg l" and "offer smp now l = (out, l')"
  shows "limiter_inv cfg l'" "same_due l l'" "in_flight cfg now l' out"
    "accounted c l' + count_updates c out = accounted c l + of_bool (ch_name (ds_channel smp) = c \<and> max_hz_for cfg c \<noteq> None)"
proof -
  define ch where "ch = ch_name (ds_channel smp)"
  have ok: "\<And>x s. map_of (li_states l) x = Some s \<Longrightarrow> state_ok cfg x s" using assms(1) by (auto simp: limiter_inv_def)
  have "limiter_inv cfg l' \<and> same_due l l' \<and> in_flight cfg now l' out
    \<and> accounted c l' + count_updates c out = accounted c l + of_bool (ch = c \<and> max_hz_for cfg c \<noteq> None)"
  proof (cases "max_hz_for cfg ch")
    case None
    with offer_none[OF assms(1)] assms have "out = []" "l' = l" by (auto simp: ch_def)
    with assms(1) None show ?thesis by (auto simp: same_due_refl in_flight_def)
  next
    case (Some hz)
    show ?thesis
    proof (cases "hz = 0")
      case True
      note f = offer_free[OF assms(1) ch_def Some[unfolded True] assms(2)]
      have "state_ok cfg x s" if "map_of (li_states l') x = Some s" for x s
        using that ok Some True by (auto simp: f(6) state_ok_def channel_state_new_def split: if_splits)
      moreover obtain u where u: "out = [u]" "lu_channel u = ch" using f(1) by blast
      moreover have "is_pending l' c = is_pending l c"
        by (auto simp: is_pending_def f(6) channel_state_new_def split: option.splits)
      moreover have "same_due l l'" by (auto simp: same_due_def f(6))
      moreover have "in_flight cfg now l' out" using u Some True f(6) by (auto simp: in_flight_def)
      ultimately show ?thesis using f Some by (auto simp: limiter_inv_def accounted_def)
    next
      case False
      define st u where "st = offered_state hz ch l"
        and "u = \<lparr>lu_channel = ch, lu_capture_unix_ms = ds_capture_unix_ms smp, lu_value = ds_value smp, lu_conflate = True\<rparr>"
      note f = offer_limited[OF assms(1) ch_def Some False assms(2) u_def st_def]
      have so: "state_ok cfg ch st"
        using ok[of ch] Some False by (auto simp: st_def offered_state_def state_ok_def channel_state_new_def split: option.splits)
      then have "state_ok cfg ch (st\<lparr>cs_pending := None\<rparr>)" "state_ok cfg ch (st\<lparr>cs_pending := Some u\<rparr>)"
        using Some False by (auto simp: state_ok_def u_def)
      then have "state_ok cfg x s" if "map_of (li_states l') x = Some s" for x s
        using that ok by (auto simp: f(2) split: if_splits)
      moreover have "same_due l l'" by (auto simp: same_due_def f(2) st_def offered_state_def)
      moreover have "in_flight cfg now l' out" by (auto simp: in_flight_def f(1,2) u_def)
      moreover have p: "is_pending l ch = (cs_pending st \<noteq> None)"
        by (auto simp: is_pending_def st_def offered_state_def channel_state_new_def split: option.splits)
      have "accounted c l' + count_updates c out = accounted c l + of_bool (ch = c)"
      proof (cases "ch = c")
        case True
        have "is_pending l' c = (\<not> due now (cs_next_due st))" by (simp add: is_pending_def f(2) True[symmetric])
        with p True show ?thesis by (auto simp: accounted_def f(1,3,4) count_one_def u_def)
      next
        case False
        then have "is_pending l' c = is_pending l c" by (simp add: is_pending_def f(2))
        with False show ?thesis by (auto simp: accounted_def f(1,3,4) count_one_def u_def)
      qed
      ultimately show ?thesis using f Some by (auto simp: limiter_inv_def)
    qed
  qed
  then show "limiter_inv cfg l'" "same_due l l'" "in_flight cfg now l' out"
    "accounted c l' + count_updates c out = accounted c l + of_bool (ch_name (ds_channel smp) = c \<and> max_hz_for cfg c \<noteq> None)"
    by (simp_all add: ch_def)
qed

lemma offers_props:
  assumes "limiter_inv cfg l" and "in_flight cfg now l us" and "fold (offer_step now) samples (us, l) = (us', l')"
  shows "limiter_inv cfg l' \<and> same_due l l' \<and> in_flight cfg now l' us'
    \<and> accounted c l' + count_updates c us' = accounted c l + count_updates c us
      + length (filter (\<lambda>smp. ch_name (ds_channel smp) = c \<and> max_hz_for cfg c \<noteq> None) samples)"
  using assms
proof (induction samples arbitrary: us l)
  case (Cons smp samples)
  obtain out l1 where o: "offer smp now l = (out, l1)" by fastforce
  note p = offer_step_props[OF Cons.prems(1) o]
  have "in_flight cfg now l1 (us @ out)"
    using p(3) in_flight_same_due[OF Cons.prems(2) p(2)] by (simp add: in_flight_append)
  from Cons.IH[OF p(1) this] Cons.prems(3) o have
    "limiter_inv cfg l' \<and> same_due l1 l' \<and> in_flight cfg now l' us'
      \<and> accounted c l' + count_updates c us' = accounted c l1 + count_updates c (us @ out)
        + length (filter (\<lambda>smp. ch_name (ds_channel smp) = c \<and> max_hz_for cfg c \<noteq> None) samples)"
    by simp
  with p(4)[of c] same_due_trans[OF p(2)] show ?case by auto
qed (simp add: same_due_refl)

lemma map_of_map_snd: "map_of (map (\<lambda>(k, v). (k, f v)) al) k = map_option f (map_of al k)"
  by (induction al) auto

lemma count_drained:
  assumes "distinct (map fst al)" and "\<forall>ch st. map_of al ch = Some st \<longrightarrow> (\<forall>u. cs_pending st = Some u \<longrightarrow> lu_channel u = ch)"
  shows "count_updates c (List.map_filter (\<lambda>(ch, st). if is_ready now st then cs_pending st else None) al) =
    of_bool (\<exists>st. map_of al c = Some st \<and> is_ready now st)"
  using assms
proof (induction al)
  case (Cons x al)
  obtain ch st where x: "x = (ch, st)" by fastforce
  have al: "ch \<notin> dom (map_of al)" using Cons.prems(1) by (simp add: x dom_map_of_conv_image_fst)
  then have "\<forall>k s. map_of al k = Some s \<longrightarrow> (\<forall>u. cs_pending s = Some u \<longrightarrow> lu_channel u = k)"
    using Cons.prems(2) by (simp add: x domIff) (metis option.distinct(1))
  then have IH: "count_updates c (List.map_filter (\<lambda>(ch, st). if is_ready now st then cs_pending st else None) al) =
      of_bool (\<exists>st. map_of al c = Some st \<and> is_ready now st)" using Cons.IH Cons.prems(1) by simp
  have "\<exists>u. cs_pending st = Some u \<and> lu_channel u = ch" if "is_ready now st"
    using that Cons.prems(2)[rule_format, of ch st] by (auto simp: x is_ready_def)
  with IH al show ?case by (auto simp: x List.map_filter_simps split: option.splits)
qed simp

lemma mset_rank [simp]: "mset (rank l us) = mset us"
  by (simp add: rank_def)

lemma set_rank [simp]: "set (rank l us) = set us"
  by (metis mset_rank set_mset_mset)

lemma count_rank [simp]: "count_updates c (rank l us) = count_updates c us"
  by (metis count_updates_def mset_rank mset_filter size_mset)

lemma drain_unique:
  assumes "limiter_inv cfg l" and "drain_pending now l = (us, l')"
  shows "count_updates c us \<le> 1"
proof -
  have "count_updates c (List.map_filter (\<lambda>(ch, st). if is_ready now st then cs_pending st else None) (li_states l)) \<le> 1"
    using assms(1) by (subst count_drained) (auto simp: limiter_inv_def state_ok_def)
  with assms(2) show ?thesis by (auto simp: drain_pending_def Let_def)
qed

lemma drain_props:
  assumes "limiter_inv cfg l" and "drain_pending now l = (us, l')"
  shows "limiter_inv cfg l'" "same_due l l'" "in_flight cfg now l' us" "accounted c l' + count_updates c us = accounted c l"
proof -
  let ?f = "\<lambda>st. if is_ready now st then st\<lparr>cs_pending := None\<rparr> else st"
  define ready where "ready = List.map_filter (\<lambda>(ch, st). if is_ready now st then cs_pending st else None) (li_states l)"
  have inv: "li_config l = cfg" "distinct (map fst (li_states l))" and ok: "\<And>ch st. map_of (li_states l) ch = Some st \<Longrightarrow> state_ok cfg ch st"
    using assms(1) by (auto simp: limiter_inv_def)
  have l': "l' = l\<lparr>li_states := map (\<lambda>(ch, st). (ch, ?f st)) (li_states l)\<rparr>" and us: "us = rank l' ready"
    using assms(2) by (auto simp: drain_pending_def Let_def ready_def)
  have m: "map_of (li_states l') c = map_option ?f (map_of (li_states l) c)" for c
    by (simp add: l' map_of_map_snd[of ?f])
  have "map fst (li_states l') = map fst (li_states l)" by (simp add: l' comp_def split_def)
  moreover have "state_ok cfg ch (st\<lparr>cs_pending := None\<rparr>)" if "state_ok cfg ch st" for ch st using that by (auto simp: state_ok_def)
  moreover have "li_config l' = cfg" using inv(1) by (simp add: l')
  ultimately show "limiter_inv cfg l'" using inv(2) ok unfolding limiter_inv_def m by auto
  show "same_due l l'" by (auto simp: same_due_def m)
  show "in_flight cfg now l' us"
  proof -
    have "\<exists>st. map_of (li_states l) (lu_channel u) = Some st \<and> is_ready now st \<and> lu_conflate u" if u: "u \<in> set ready" for u
    proof -
      obtain ch st where "(ch, st) \<in> set (li_states l)" and st: "is_ready now st" "cs_pending st = Some u"
        using u by (auto simp: ready_def List.map_filter_def split: if_splits)
      with inv(2) have "map_of (li_states l) ch = Some st" by simp
      with ok[OF this] st show ?thesis by (auto simp: state_ok_def)
    qed
    then show ?thesis by (fastforce simp: in_flight_def us m is_ready_def)
  qed
  have "count_updates c us = of_bool (\<exists>st. map_of (li_states l) c = Some st \<and> is_ready now st)"
    unfolding us count_rank ready_def using inv(2) ok by (intro count_drained) (auto simp: state_ok_def)
  moreover have "li_published l' = li_published l" "li_suppressed l' = li_suppressed l" by (simp_all add: l')
  moreover have "of_bool (is_pending l' c) + of_bool (\<exists>st. map_of (li_states l) c = Some st \<and> is_ready now st) = (of_bool (is_pending l c) :: nat)"
    by (cases "map_of (li_states l) c") (auto simp: is_pending_def m is_ready_def)
  ultimately show "accounted c l' + count_updates c us = accounted c l" by (simp add: accounted_def)
qed

text \<open>Conflation keeps the states, keeps one update of a limited channel, and suppresses the others.\<close>

lemma place_update_props:
  assumes "list_ex (\<lambda>x. lu_conflate x \<and> lu_channel x = lu_channel u) xs"
  shows "set (place_update u xs) \<subseteq> insert u (set xs)" "map lu_channel (place_update u xs) = map lu_channel xs"
  using assms by (induction xs) auto

lemma count_place:
  assumes "list_ex (\<lambda>x. lu_conflate x \<and> lu_channel x = lu_channel u) xs"
  shows "count_updates c (place_update u xs) = count_updates c xs"
proof -
  have "count_updates c us = length (filter (\<lambda>k. k = c) (map lu_channel us))" for us
    by (induction us) auto
  then show ?thesis by (simp only: place_update_props(2)[OF assms])
qed

definition unique_limited :: "live_config \<Rightarrow> live_update list \<Rightarrow> bool" where
  "unique_limited cfg us \<longleftrightarrow> (\<forall>c hz. max_hz_for cfg c = Some hz \<and> hz \<noteq> 0 \<longrightarrow> count_updates c us \<le> 1)"

lemma count_zero: "\<not> list_ex (\<lambda>x. lu_channel x = c) us \<longleftrightarrow> count_updates c us = 0"
  by (induction us) auto

lemma conflate_props:
  assumes "in_flight cfg now l (kept @ us)" and "unique_limited cfg kept" and "fold conflate_step us (kept, l) = (kept', l')"
  shows "in_flight cfg now l kept' \<and> unique_limited cfg kept' \<and> li_states l' = li_states l \<and> li_config l' = li_config l
    \<and> accounted c l' + count_updates c kept' = accounted c l + count_updates c kept + count_updates c us"
  using assms
proof (induction us arbitrary: kept l)
  case (Cons u us)
  obtain kept1 l1 where s: "conflate_step u (kept, l) = (kept1, l1)" by fastforce
  have lim: "lu_conflate x" if "x \<in> set (kept @ u # us)" "max_hz_for cfg (lu_channel x) = Some hz" "hz \<noteq> 0" for x hz
    using that Cons.prems(1) by (auto simp: in_flight_def)
  have *: "in_flight cfg now l (kept1 @ us) \<and> unique_limited cfg kept1 \<and> li_states l1 = li_states l \<and> li_config l1 = li_config l
    \<and> accounted c l1 + count_updates c kept1 = accounted c l + count_updates c kept + of_bool (lu_channel u = c)"
  proof (cases "lu_conflate u \<and> list_ex (\<lambda>x. lu_conflate x \<and> lu_channel x = lu_channel u) kept")
    case True
    then have ex: "list_ex (\<lambda>x. lu_conflate x \<and> lu_channel x = lu_channel u) kept" by simp
    have "kept1 = place_update u kept" "l1 = suppress (lu_channel u) l" using s True by (auto simp: conflate_step_def)
    with place_update_props[OF ex] count_place[OF ex] Cons.prems(1,2) show ?thesis
      by (auto simp: in_flight_def unique_limited_def suppress_def accounted_def count_one_def is_pending_def)
  next
    case False
    then have k: "kept1 = kept @ [u]" "l1 = l" using s by (auto simp: conflate_step_def split: if_splits)
    have "count_updates (lu_channel u) kept = 0" if "max_hz_for cfg (lu_channel u) = Some hz" "hz \<noteq> 0" for hz
    proof -
      have "lu_conflate x" if "x \<in> set kept" "lu_channel x = lu_channel u" for x
        using lim[of x hz] that \<open>max_hz_for cfg (lu_channel u) = Some hz\<close> \<open>hz \<noteq> 0\<close> by auto
      moreover have "lu_conflate u" using lim[of u hz] that by simp
      ultimately have "\<not> list_ex (\<lambda>x. lu_channel x = lu_channel u) kept" using False by (auto simp: list_ex_iff)
      then show ?thesis by (simp add: count_zero)
    qed
    with k Cons.prems(1,2) show ?thesis by (auto simp: unique_limited_def)
  qed
  then have fl: "in_flight cfg now l1 (kept1 @ us)" by (simp add: in_flight_def)
  from Cons.IH[OF fl] Cons.prems(3) s * show ?case by (auto simp: in_flight_def)
qed (simp add: in_flight_append)

lemma states_accept:
  "map_of (li_states (fold (accept_update now) us l)) c =
    (if c \<in> lu_channel ` set us
     then map_option (\<lambda>st. st\<lparr>cs_last_published := Some now, cs_next_due := Some (now + cs_interval_s st)\<rparr>) (map_of (li_states l) c)
     else map_of (li_states l) c)"
proof (induction us arbitrary: l)
  case (Cons u us)
  have "map_of (li_states (accept_update now u l)) c =
    (if c = lu_channel u
     then map_option (\<lambda>st. st\<lparr>cs_last_published := Some now, cs_next_due := Some (now + cs_interval_s st)\<rparr>) (map_of (li_states l) c)
     else map_of (li_states l) c)"
    by (auto simp: accept_update_def Let_def split: option.split)
  with Cons show ?case by (auto simp: option.map_comp comp_def)
qed simp

lemma counters_accept:
  "li_published (fold (accept_update now) us l) c = li_published l c + count_updates c us"
  "li_suppressed (fold (accept_update now) us l) = li_suppressed l" "li_config (fold (accept_update now) us l) = li_config l"
  "distinct (map fst (li_states l)) \<Longrightarrow> distinct (map fst (li_states (fold (accept_update now) us l)))"
  by (induction us arbitrary: l)
    (auto simp: accept_update_def Let_def set_state_def count_one_def split: option.split)

lemma reject_props:
  "li_states (fold reject_update us l) = li_states l" "li_published (fold reject_update us l) = li_published l"
  "li_suppressed (fold reject_update us l) c = li_suppressed l c + count_updates c us"
  "li_config (fold reject_update us l) = li_config l"
  by (induction us arbitrary: l) (auto simp: reject_update_def suppress_def count_one_def)

lemma refill_keeps:
  "li_states (refill_aggregate now limit l) = li_states l" "li_published (refill_aggregate now limit l) = li_published l"
  "li_suppressed (refill_aggregate now limit l) = li_suppressed l" "li_config (refill_aggregate now limit l) = li_config l"
  by (simp_all add: refill_aggregate_def Let_def)

lemma admit_props:
  assumes "admit us now l = (out, l')"
  shows "set out \<subseteq> set us" "count_updates c out \<le> count_updates c us"
    "map_of (li_states l') c = (if c \<in> lu_channel ` set out
     then map_option (\<lambda>st. st\<lparr>cs_last_published := Some now, cs_next_due := Some (now + cs_interval_s st)\<rparr>) (map_of (li_states l) c)
     else map_of (li_states l) c)"
    "li_config l' = li_config l" "distinct (map fst (li_states l)) \<Longrightarrow> distinct (map fst (li_states l'))"
    "accounted c l' = accounted c l + count_updates c us" "li_published l' c = li_published l c + count_updates c out"
proof -
  obtain k limit tk where out: "out = take k (rank l us)"
    and l': "l' = (fold reject_update (drop k (rank l us)) (fold (accept_update now) out (refill_aggregate now limit l)))\<lparr>li_aggregate_tokens := tk\<rparr>"
  proof -
    let ?limit = "ld_total_max_hz (lc_defaults (li_config l))"
    let ?l1 = "refill_aggregate now ?limit l"
    let ?k = "if ?limit = 0 then length (rank l us) else min (length (rank l us)) (nat (trunc_real (li_aggregate_tokens ?l1 + EPSILON)))"
    let ?l2 = "fold reject_update (drop ?k (rank l us)) (fold (accept_update now) (take ?k (rank l us)) ?l1)"
    have e: "out = take ?k (rank l us)"
      "l' = (if ?limit \<noteq> 0 then ?l2\<lparr>li_aggregate_tokens := li_aggregate_tokens ?l2 - real (length out)\<rparr> else ?l2)"
      using assms unfolding admit_def Let_def by auto
    show ?thesis
    proof (rule that[OF e(1)])
      show "l' = (fold reject_update (drop ?k (rank l us)) (fold (accept_update now) out ?l1))\<lparr>li_aggregate_tokens :=
        (if ?limit \<noteq> 0 then li_aggregate_tokens ?l2 - real (length out) else li_aggregate_tokens ?l2)\<rparr>"
        unfolding e(2) unfolding e(1) by simp
    qed
  qed
  show "set out \<subseteq> set us" using set_take_subset[of k "rank l us"] by (simp add: out)
  have split: "count_updates c us = count_updates c out + count_updates c (drop k (rank l us))"
    using count_updates_simps(3)[of c "take k (rank l us)" "drop k (rank l us)"] by (simp add: out)
  then show "count_updates c out \<le> count_updates c us" by simp
  show st: "map_of (li_states l') c = (if c \<in> lu_channel ` set out
     then map_option (\<lambda>st. st\<lparr>cs_last_published := Some now, cs_next_due := Some (now + cs_interval_s st)\<rparr>) (map_of (li_states l) c)
     else map_of (li_states l) c)"
    by (simp add: l' reject_props states_accept refill_keeps)
  show "li_config l' = li_config l" "distinct (map fst (li_states l)) \<Longrightarrow> distinct (map fst (li_states l'))"
    "li_published l' c = li_published l c + count_updates c out"
    by (simp_all add: l' reject_props counters_accept refill_keeps)
  have "is_pending l' c = is_pending l c" by (auto simp: is_pending_def st split: option.splits)
  then show "accounted c l' = accounted c l + count_updates c us"
    using split by (simp add: accounted_def l' reject_props counters_accept refill_keeps)
qed

section \<open>One event\<close>

fun event_cost :: "live_config \<Rightarrow> string \<Rightarrow> live_event \<Rightarrow> nat" where
  "event_cost cfg c (Message samples now) =
     length (filter (\<lambda>smp. ch_name (ds_channel smp) = c \<and> max_hz_for cfg c \<noteq> None) samples)"
| "event_cost cfg c (Poll now) = 0"

lemma event_admits:
  assumes "limiter_inv cfg l" and "limiter_event ev l = (out, l')"
  shows "\<exists>kept l3. limiter_inv cfg l3 \<and> same_due l l3 \<and> in_flight cfg (event_time ev) l3 kept \<and> unique_limited cfg kept
    \<and> admit kept (event_time ev) l3 = (out, l') \<and> (\<forall>c. accounted c l3 + count_updates c kept = accounted c l + event_cost cfg c ev)"
proof (cases ev)
  case (Message samples now)
  obtain offered l1 drained l2 kept l3 where o: "fold (offer_step now) samples ([], l) = (offered, l1)"
    and d: "drain_pending now l1 = (drained, l2)" and c: "conflate_candidates (offered @ drained) l2 = (kept, l3)"
    by (metis surj_pair)
  have "in_flight cfg now l []" by (simp add: in_flight_def)
  note po = offers_props[OF assms(1) this o]
  have l1: "limiter_inv cfg l1" using po by simp
  note pd = drain_props[OF l1 d]
  have "in_flight cfg now l2 ([] @ (offered @ drained))"
    using po pd(3) in_flight_same_due[OF _ pd(2)] by (simp add: in_flight_append)
  moreover have "unique_limited cfg []" by (simp add: unique_limited_def)
  ultimately have pc: "in_flight cfg now l2 kept \<and> unique_limited cfg kept \<and> li_states l3 = li_states l2 \<and> li_config l3 = li_config l2
      \<and> accounted c l3 + count_updates c kept = accounted c l2 + count_updates c (offered @ drained)" for c
    using conflate_props[of cfg now l2 "[]" "offered @ drained" kept l3 c] c by (simp add: conflate_candidates_def)
  have st: "li_states l3 = li_states l2" "li_config l3 = li_config l2" using pc by simp_all
  have "same_due l l2" using same_due_trans[OF _ pd(2)] po by blast
  then have "same_due l l3" by (simp add: same_due_def st)
  moreover have "limiter_inv cfg l3" using pd(1) by (simp add: limiter_inv_def st)
  moreover have "in_flight cfg now l3 kept" using pc by (simp add: in_flight_def st)
  moreover have "accounted c l3 + count_updates c kept = accounted c l + event_cost cfg c ev" for c
    using pc[of c] pd(4)[of c] offers_props[OF assms(1) \<open>in_flight cfg now l []\<close> o, of c] Message by simp
  moreover have "admit kept now l3 = (out, l')" using assms(2) Message o d c by (simp add: handle_samples_def)
  ultimately show ?thesis using pc Message by auto
next
  case (Poll now)
  obtain drained l1 where d: "drain_pending now l = (drained, l1)" by fastforce
  note pd = drain_props[OF assms(1) d]
  have "unique_limited cfg drained" using drain_unique[OF assms(1) d] by (simp add: unique_limited_def)
  moreover have "admit drained now l1 = (out, l')" using assms(2) Poll d by (simp add: idle_poll_def)
  ultimately show ?thesis using pd Poll by auto
qed

lemma event_props:
  assumes "limiter_inv cfg l" and "limiter_event ev l = (out, l')"
  shows "limiter_inv cfg l'" "accounted c l' = accounted c l + event_cost cfg c ev"
    "max_hz_for cfg c = Some hz \<Longrightarrow> hz \<noteq> 0 \<Longrightarrow> count_updates c out \<le> 1"
proof -
  obtain kept l3 where l3: "limiter_inv cfg l3" and u: "unique_limited cfg kept" and a: "admit kept (event_time ev) l3 = (out, l')"
    and acc: "accounted c l3 + count_updates c kept = accounted c l + event_cost cfg c ev"
    using event_admits[OF assms] by blast
  note p = admit_props[OF a]
  have "state_ok cfg ch st" if h: "map_of (li_states l') ch = Some st" for ch st
  proof -
    obtain st3 where "map_of (li_states l3) ch = Some st3" "cs_pending st = cs_pending st3" "cs_interval_s st = cs_interval_s st3"
      using h p(3)[of ch] by (cases "map_of (li_states l3) ch") (auto split: if_splits)
    with l3 show ?thesis by (auto simp: limiter_inv_def state_ok_def)
  qed
  then show "limiter_inv cfg l'" using l3 p(4,5) by (simp add: limiter_inv_def)
  show "accounted c l' = accounted c l + event_cost cfg c ev" using p(6)[of c] acc by simp
  show "count_updates c out \<le> 1" if "max_hz_for cfg c = Some hz" "hz \<noteq> 0"
    using u that p(2)[of c] by (fastforce simp: unique_limited_def)
qed

text \<open>The channel was last published at \<open>t\<close> and may be again an interval later.\<close>

definition published_at :: "string \<Rightarrow> real \<Rightarrow> real \<Rightarrow> limiter \<Rightarrow> bool" where
  "published_at c interval t l \<longleftrightarrow>
     (\<exists>st. map_of (li_states l) c = Some st \<and> cs_interval_s st = interval \<and> cs_next_due st = Some (t + interval))"

lemma event_publishes:
  assumes "limiter_inv cfg l" and "limiter_event ev l = (out, l')" and "max_hz_for cfg c = Some hz" and "hz \<noteq> 0"
    and "c \<in> lu_channel ` set out"
  shows "published_at c (1 / hz) (event_time ev) l'"
proof -
  obtain kept l3 where l3: "limiter_inv cfg l3" "in_flight cfg (event_time ev) l3 kept" and a: "admit kept (event_time ev) l3 = (out, l')"
    using event_admits[OF assms(1,2)] by blast
  note p = admit_props[OF a]
  obtain st where st: "map_of (li_states l3) c = Some st" using assms(5) p(1) l3(2) by (fastforce simp: in_flight_def)
  then have "state_ok cfg c st" using l3(1) by (simp add: limiter_inv_def)
  then have "cs_interval_s st = 1 / hz" using assms(3,4) by (auto simp: state_ok_def)
  with st assms(5) show ?thesis by (simp add: published_at_def p(3))
qed

lemma event_spacing:
  assumes "limiter_inv cfg l" and "limiter_event ev l = (out, l')" and "max_hz_for cfg c = Some hz" and "hz \<noteq> 0"
    and "published_at c (1 / hz) t l"
  shows "if c \<in> lu_channel ` set out then t + 1 / hz \<le> event_time ev + EPSILON else published_at c (1 / hz) t l'"
proof -
  obtain kept l3 where s: "same_due l l3" and f: "in_flight cfg (event_time ev) l3 kept" and a: "admit kept (event_time ev) l3 = (out, l')"
    using event_admits[OF assms(1,2)] by blast
  note p = admit_props[OF a]
  have "published_at c (1 / hz) t l3" using assms(5) s unfolding published_at_def same_due_def by metis
  then obtain st where st: "map_of (li_states l3) c = Some st" "cs_interval_s st = 1 / hz" "cs_next_due st = Some (t + 1 / hz)"
    by (auto simp: published_at_def)
  show ?thesis
  proof (cases "c \<in> lu_channel ` set out")
    case True
    then obtain u where "u \<in> set kept" "lu_channel u = c" using p(1) by auto
    with f st assms(3,4) have "due (event_time ev) (Some (t + 1 / hz))" by (auto simp: in_flight_def)
    with True show ?thesis by (simp add: due_def)
  next
    case False
    with st show ?thesis by (simp add: published_at_def p(3))
  qed
qed

lemma limiter_step_inv: "limiter_inv cfg l \<Longrightarrow> limiter_inv cfg (limiter_step ev l)"
  unfolding limiter_step_def using event_props(1) by (metis surj_pair snd_conv)

interpretation live: ledger limiter_step "limiter_inv cfg" "accounted c" "event_cost cfg c"
proof
  fix l ev
  assume "limiter_inv cfg l"
  then show "limiter_inv cfg (limiter_step ev l)" by (rule limiter_step_inv)
  show "accounted c (limiter_step ev l) = accounted c l + event_cost cfg c ev"
    unfolding limiter_step_def using event_props(2)[OF \<open>limiter_inv cfg l\<close>] by (metis surj_pair snd_conv)
qed

lemma run_limiter_state: "snd (run_limiter evs l) = fold limiter_step evs l"
proof (induction evs arbitrary: l)
  case (Cons ev evs)
  from Cons[of "snd (limiter_event ev l)"] show ?case by (simp add: limiter_step_def Let_def split_def)
qed simp

lemma limiter_init_inv: "limiter_inv cfg (limiter_init cfg)"
  by (simp add: limiter_inv_def limiter_init_def)

lemma run_limiter_split:
  assumes "run_limiter evs l = (outs, l')" and "k \<le> length evs"
  shows "length outs = length evs" "run_limiter (take k evs) l = (take k outs, snd (run_limiter (take k evs) l))"
    "run_limiter (drop k evs) (snd (run_limiter (take k evs) l)) = (drop k outs, l')"
proof -
  have "length outs = length evs \<and> run_limiter (take k evs) l = (take k outs, snd (run_limiter (take k evs) l))
    \<and> run_limiter (drop k evs) (snd (run_limiter (take k evs) l)) = (drop k outs, l')"
    using assms
  proof (induction evs arbitrary: l outs k)
    case (Cons ev evs)
    obtain out l1 outs1 where e: "limiter_event ev l = (out, l1)" and r: "run_limiter evs l1 = (outs1, l')" and outs: "outs = out # outs1"
      using Cons.prems(1) by (auto split: prod.splits)
    show ?case
    proof (cases k)
      case 0
      then show ?thesis using Cons.prems(1) Cons.IH[OF r, of 0] outs by simp
    next
      case (Suc m)
      with Cons.IH[OF r, of m] Cons.prems(2) e outs show ?thesis by (auto split: prod.splits)
    qed
  qed simp
  then show "length outs = length evs" "run_limiter (take k evs) l = (take k outs, snd (run_limiter (take k evs) l))"
    "run_limiter (drop k evs) (snd (run_limiter (take k evs) l)) = (drop k outs, l')" by auto
qed

lemma run_spacing:
  assumes "limiter_inv cfg l" and "run_limiter evs l = (outs, l')" and "max_hz_for cfg c = Some hz" and "hz \<noteq> 0"
    and "published_at c (1 / hz) t l" and "sorted (t # map event_time evs)" and "j < length evs" and "c \<in> lu_channel ` set (outs ! j)"
  shows "t + 1 / hz \<le> event_time (evs ! j) + EPSILON"
  using assms
proof (induction evs arbitrary: l outs t j)
  case (Cons ev evs)
  obtain out l1 outs1 where e: "limiter_event ev l = (out, l1)" and r: "run_limiter evs l1 = (outs1, l')" and outs: "outs = out # outs1"
    using Cons.prems(2) by (auto split: prod.splits)
  note sp = event_spacing[OF Cons.prems(1) e Cons.prems(3,4,5)]
  have l1: "limiter_inv cfg l1" by (rule event_props(1)[OF Cons.prems(1) e])
  show ?case
  proof (cases j)
    case 0
    with sp Cons.prems(8) show ?thesis by (simp add: outs)
  next
    case (Suc m)
    have m: "m < length evs" "c \<in> lu_channel ` set (outs1 ! m)" using Cons.prems(7,8) Suc by (simp_all add: outs)
    define t1 where "t1 = (if c \<in> lu_channel ` set out then event_time ev else t)"
    have "published_at c (1 / hz) t1 l1"
      using sp event_publishes[OF Cons.prems(1) e Cons.prems(3,4)] by (simp add: t1_def)
    moreover have "sorted (t1 # map event_time evs)" "t \<le> t1" using Cons.prems(6) by (auto simp: t1_def)
    ultimately have "t1 + 1 / hz \<le> event_time (evs ! m) + EPSILON" using Cons.IH[OF l1 r Cons.prems(3,4) _ _ m] by blast
    with \<open>t \<le> t1\<close> Suc show ?thesis by simp
  qed
qed simp

lemma run_limiter_at:
  assumes "run_limiter evs (limiter_init cfg) = (outs, l')" and "k < length evs"
  shows "\<exists>lk l1. limiter_inv cfg lk \<and> limiter_event (evs ! k) lk = (outs ! k, l1)
    \<and> run_limiter (drop k evs) lk = (drop k outs, l') \<and> run_limiter (drop (Suc k) evs) l1 = (drop (Suc k) outs, l')"
proof -
  define lk where "lk = snd (run_limiter (take k evs) (limiter_init cfg))"
  have r: "run_limiter (drop k evs) lk = (drop k outs, l')" and len: "length outs = length evs"
    using run_limiter_split[OF assms(1), of k] assms(2) by (simp_all add: lk_def)
  have inv: "limiter_inv cfg lk" unfolding lk_def run_limiter_state by (rule live.run_inv[OF limiter_init_inv])
  obtain l1 where "limiter_event (evs ! k) lk = (outs ! k, l1)" "run_limiter (drop (Suc k) evs) l1 = (drop (Suc k) outs, l')"
    using r assms(2) len by (auto simp: Cons_nth_drop_Suc[symmetric] split: prod.splits)
  with inv r show ?thesis by blast
qed

lemma aggregate_between:
  assumes "run_limiter evs (limiter_init cfg) = (outs, l')" and "sorted (map event_time evs)" and "i \<le> j" and "j < length evs"
    and "limit = ld_total_max_hz (lc_defaults cfg)" and "0 < limit"
  shows "real (length (concat (take (Suc j - i) (drop i outs))))
    \<le> max 1 limit + limit * (event_time (evs ! j) - event_time (evs ! i)) + EPSILON"
proof -
  let ?t = "\<lambda>k. event_time (evs ! k)" and ?evs = "take (Suc j - i) (drop i evs)" and ?outs = "take (Suc j - i) (drop i outs)"
  obtain li where li: "limiter_inv cfg li" and r: "run_limiter (drop i evs) li = (drop i outs, l')"
    using run_limiter_at[OF assms(1), of i] assms(3,4) by auto
  have k: "run_limiter ?evs li = (?outs, snd (run_limiter ?evs li))"
    using run_limiter_split(2)[OF r, of "Suc j - i"] assms(3,4) by simp
  have le: "?t i \<le> event_time x \<and> event_time x \<le> ?t j" if x: "x \<in> set ?evs" for x
  proof -
    obtain m where "m < length ?evs" "x = ?evs ! m" using x by (auto simp: in_set_conv_nth)
    then have "x = evs ! (i + m)" "i + m \<le> j" using assms(3,4) by auto
    then show ?thesis
      using sorted_nth_mono[OF assms(2), of "i + m" j] sorted_nth_mono[OF assms(2), of i "i + m"] assms(4) by simp
  qed
  have "sorted (map event_time ?evs)"
    using assms(2) by (simp add: take_map[symmetric] drop_map[symmetric] sorted_wrt_take sorted_wrt_drop)
  with le have "sorted (?t i # map event_time ?evs)" by auto
  from run_budget_fresh[OF k _ assms(6) this, of "?t j"] le li assms(5)
  have "real (length (concat ?outs)) \<le> max 0 (max 1 limit + limit * (?t j - ?t i) + EPSILON)" by (simp add: limiter_inv_def)
  moreover have "0 \<le> max 1 limit + limit * (?t j - ?t i) + EPSILON"
    using sorted_nth_mono[OF assms(2), of i j] assms(3,4,6) by (simp add: EPSILON_def)
  ultimately show ?thesis by simp
qed

lemma spacing_between:
  assumes "run_limiter evs (limiter_init cfg) = (outs, l')" and "sorted (map event_time evs)" and "i < j" and "j < length evs"
    and "max_hz_for cfg c = Some hz" and "hz \<noteq> 0" and "c \<in> lu_channel ` set (outs ! i)" and "c \<in> lu_channel ` set (outs ! j)"
  shows "event_time (evs ! i) + 1 / hz \<le> event_time (evs ! j) + EPSILON"
proof -
  obtain li l1 where li: "limiter_inv cfg li" and e: "limiter_event (evs ! i) li = (outs ! i, l1)"
    and r: "run_limiter (drop (Suc i) evs) l1 = (drop (Suc i) outs, l')"
    using run_limiter_at[OF assms(1), of i] assms(3,4) by auto
  have idx: "drop (Suc i) evs ! (j - Suc i) = evs ! j" "drop (Suc i) outs ! (j - Suc i) = outs ! j" "j - Suc i < length (drop (Suc i) evs)"
    using assms(3,4) run_limiter_split(1)[OF assms(1), of 0] by simp_all
  have "sorted (map event_time (drop i evs))" using assms(2) by (simp add: drop_map[symmetric] sorted_wrt_drop)
  then have "sorted (event_time (evs ! i) # map event_time (drop (Suc i) evs))"
    using Cons_nth_drop_Suc[of i evs] assms(3,4) by (metis list.simps(9) order.strict_trans)
  from run_spacing[OF event_props(1)[OF li e] r assms(5,6) event_publishes[OF li e assms(5-7)] this idx(3)] assms(8)
  show ?thesis by (simp only: idx)
qed

section \<open>Properties\<close>

text \<open>
  C20. The live view never exceeds its rates, whatever samples arrive: between any two events of a run
  the number of updates published is at most one burst and the total rate times the time between
  them, and two publications of a channel with a rate limit are at least its interval apart, up to
  the tolerance of the clock comparison, with at most one per event.
\<close>
theorem live_rates_hold:
  assumes "run_limiter evs (limiter_init cfg) = (outs, l')" and "sorted (map event_time evs)" and "i \<le> j" and "j < length evs"
    and "limit = ld_total_max_hz (lc_defaults cfg)"
  shows "(0 < limit \<longrightarrow> real (length (concat (take (Suc j - i) (drop i outs))))
      \<le> max 1 limit + limit * (event_time (evs ! j) - event_time (evs ! i)) + EPSILON)
    \<and> (\<forall>c hz. max_hz_for cfg c = Some hz \<and> 0 < hz \<longrightarrow> count_updates c (outs ! j) \<le> 1
        \<and> (i < j \<and> c \<in> lu_channel ` set (outs ! i) \<and> c \<in> lu_channel ` set (outs ! j) \<longrightarrow>
            event_time (evs ! i) + 1 / hz \<le> event_time (evs ! j) + EPSILON))"
proof (intro conjI allI impI)
  fix c hz
  assume hz: "max_hz_for cfg c = Some hz \<and> 0 < hz"
  then show "count_updates c (outs ! j) \<le> 1"
    using run_limiter_at[OF assms(1,4)] event_props(3)[of cfg _ "evs ! j" "outs ! j" _ c hz] by auto
  assume "i < j \<and> c \<in> lu_channel ` set (outs ! i) \<and> c \<in> lu_channel ` set (outs ! j)"
  with hz show "event_time (evs ! i) + 1 / hz \<le> event_time (evs ! j) + EPSILON"
    by (intro spacing_between[OF assms(1,2) _ assms(4), where c = c]) simp_all
qed (rule aggregate_between[OF assms])

definition wit_cfg :: live_config where
  "wit_cfg = \<lparr>lc_vehicle = None, lc_defaults = \<lparr>ld_max_hz = 10, ld_total_max_hz = 500\<rparr>,
     lc_channels = [\<lparr>cr_match = ''a.*'', cr_max_hz = Some 5\<rparr>, \<lparr>cr_match = ''*'', cr_max_hz = None\<rparr>]\<rparr>"

definition wit_decoded :: decoded_sample where
  "wit_decoded = \<lparr>ds_capture_unix_ms = 0, ds_channel = \<lparr>ch_id = 1, ch_name = ''a.b'', ch_source_ref = [], ch_units = [],
     ch_type = DOUBLE, ch_scale = 1, ch_offset = 0\<rparr>, ds_value = None\<rparr>"

theorem live_rates_hold_witness:
  "real (length (concat (fst (run_limiter [Message [wit_decoded] 0, Message [wit_decoded] (1 / 10), Poll 1] (limiter_init wit_cfg)))))
    \<le> 1000 + EPSILON"
proof -
  let ?evs = "[Message [wit_decoded] 0, Message [wit_decoded] (1 / 10), Poll 1]"
  obtain outs l' where r: "run_limiter ?evs (limiter_init wit_cfg) = (outs, l')" by fastforce
  have "length outs = 3" using run_limiter_split(1)[OF r, of 0] by simp
  with live_rates_hold[OF r _ _ _ refl, of 0 2] r show ?thesis by (simp add: wit_cfg_def)
qed

text \<open>
  Every sample of a selected channel is accounted for: after any run, the samples offered are
  exactly those published, those counted as suppressed, and the one still pending, if any.
\<close>
theorem live_accounts_for_every_sample:
  "sum_list (map (event_cost cfg c) evs) =
    (let l = snd (run_limiter evs (limiter_init cfg))
     in li_published l c + li_suppressed l c + of_bool (is_pending l c))"
proof -
  have "accounted c (limiter_init cfg) = 0" by (simp add: accounted_def limiter_init_def is_pending_def)
  with live.run_held[OF limiter_init_inv, where c = c and es = evs and cfg = cfg] show ?thesis
    by (simp add: run_limiter_state accounted_def Let_def)
qed

end
