(* ===== verification/Extrapolator.thy ===== *)
theory Extrapolator
  imports Py_Values Rbe
begin

text \<open>
  \<^verbatim>\<open>src/pit/timing_extrapolator/engine.py\<close>, the sample loop of its service, and
  \<^verbatim>\<open>src/pit/timing_display.py\<close>: the pit-side lap and sector clocks, extrapolated between crossings, and
  how they are shown.

  Times come from events and can be any float, so they are \<open>flt\<close> with Python's comparison rules:
  every comparison with NaN is false, \<open>max\<close> and \<open>min\<close> keep their first argument unless the second
  is strictly better. \<open>loads\<close> is \<open>json.loads\<close>; a \<open>JSONDecodeError\<close> is a \<open>ValueError\<close>.
\<close>

section \<open>Float operations\<close>

fun flt_less :: "flt \<Rightarrow> flt \<Rightarrow> bool" where
  "flt_less (Fin x) (Fin y) = (x < y)"
| "flt_less NaN _ = False"
| "flt_less _ NaN = False"
| "flt_less NInf y = (y \<noteq> NInf)"
| "flt_less x PInf = (x \<noteq> PInf)"
| "flt_less _ _ = False"

fun flt_minus :: "flt \<Rightarrow> flt \<Rightarrow> flt" where
  "flt_minus (Fin x) (Fin y) = Fin (x - y)"
| "flt_minus NaN _ = NaN"
| "flt_minus _ NaN = NaN"
| "flt_minus PInf PInf = NaN"
| "flt_minus NInf NInf = NaN"
| "flt_minus PInf _ = PInf"
| "flt_minus NInf _ = NInf"
| "flt_minus (Fin _) PInf = NInf"
| "flt_minus (Fin _) NInf = PInf"

fun flt_abs :: "flt \<Rightarrow> flt" where
  "flt_abs (Fin x) = Fin \<bar>x\<bar>"
| "flt_abs NaN = NaN"
| "flt_abs _ = PInf"

text \<open>Multiplication by a finite number.\<close>

fun flt_times :: "flt \<Rightarrow> real \<Rightarrow> flt" where
  "flt_times (Fin x) y = Fin (x * y)"
| "flt_times NaN y = NaN"
| "flt_times PInf y = (if y = 0 then NaN else if y > 0 then PInf else NInf)"
| "flt_times NInf y = (if y = 0 then NaN else if y > 0 then NInf else PInf)"

definition flt_max :: "flt \<Rightarrow> flt \<Rightarrow> flt" where
  "flt_max a b = (if flt_less a b then b else a)"

definition flt_min :: "flt \<Rightarrow> flt \<Rightarrow> flt" where
  "flt_min a b = (if flt_less b a then b else a)"

fun json_of :: "sample_value option \<Rightarrow> json" where
  "json_of None = JNull"
| "json_of (Some (VFloat f)) = JFloat f"
| "json_of (Some (VInt n)) = JInt n"
| "json_of (Some (VBool b)) = JBool b"
| "json_of (Some (VStr s)) = JStr s"

section \<open>State\<close>

record clock_policy =
  cp_fallback_max_lap_s :: real
  cp_max_clock_offset_s :: real
  cp_max_clock_stratum :: int
  cp_allowed_clock_sources :: "string list"
  cp_best_lap_multiple :: real

definition clock_policy_default :: clock_policy where
  "clock_policy_default = \<lparr>cp_fallback_max_lap_s = 300, cp_max_clock_offset_s = 1 / 10, cp_max_clock_stratum = 4,
     cp_allowed_clock_sources = [''GPS'', ''PPS'', ''NTP''], cp_best_lap_multiple = 3\<rparr>"

record clock_value =
  cv_value :: "flt option"
  cv_status :: string
  cv_reason :: "string option"

record extrapolator =
  ex_policy :: clock_policy
  ex_lap_started_at :: "flt option"
  ex_sector_started_at :: "flt option"
  ex_best_lap_s :: "flt option"
  ex_clock :: "string \<rightharpoonup> sample_value option"

definition extrapolator_init :: "clock_policy \<Rightarrow> extrapolator" where
  "extrapolator_init policy = \<lparr>ex_policy = policy, ex_lap_started_at = None, ex_sector_started_at = None,
     ex_best_lap_s = None, ex_clock = Map.empty\<rparr>"

section \<open>Observing a sample\<close>

text \<open>\<open>event[key]\<close> converted with \<open>float\<close>.\<close>

definition event_float :: "text_conv \<Rightarrow> (string \<times> json) list \<Rightarrow> string \<Rightarrow> flt res" where
  "event_float tc d k = (case map_of d k of None \<Rightarrow> Inl KeyError | Some v \<Rightarrow> py_float tc v)"

definition observe_event_dict ::
  "text_conv \<Rightarrow> (string \<times> json) list \<Rightarrow> extrapolator \<Rightarrow> (string \<times> clock_value) list res \<times> extrapolator" where
  [op_defs]: "observe_event_dict tc d x =
     (case event_float tc d ''time'' of
        Inl e \<Rightarrow> (Inl e, x)
      | Inr crossed_at \<Rightarrow>
          if jget d ''type'' = JStr ''sector_completed'' then
            (case event_float tc d ''split_time'' of
               Inl e \<Rightarrow> (Inl e, x)
             | Inr split \<Rightarrow>
                 (let x1 = x\<lparr>ex_sector_started_at := Some crossed_at\<rparr> in
                  case py_int tc (jget_or d ''sector'' (JInt 0)) of
                    Inl e \<Rightarrow> (Inl e, x1)
                  | Inr n \<Rightarrow>
                      (Inr [(''timing.sector_elapsed_pit'', \<lparr>cv_value = Some split, cv_status = ''authoritative'', cv_reason = None\<rparr>)],
                       if n = 1 \<and> ex_lap_started_at x1 = None
                       then x1\<lparr>ex_lap_started_at := Some (flt_minus crossed_at split)\<rparr> else x1)))
          else if jget d ''type'' = JStr ''lap_completed'' then
            (let x1 = x\<lparr>ex_lap_started_at := Some crossed_at, ex_sector_started_at := Some crossed_at\<rparr> in
             case event_float tc d ''lap_time'' of
               Inl e \<Rightarrow> (Inl e, x1)
             | Inr t \<Rightarrow> (Inr [(''timing.lap_elapsed_pit'', \<lparr>cv_value = Some t, cv_status = ''authoritative'', cv_reason = None\<rparr>)], x1))
          else (Inr [], x))"

definition extrapolator_observe ::
  "(string \<Rightarrow> json res) \<Rightarrow> text_conv \<Rightarrow> string \<Rightarrow> sample_value option \<Rightarrow> extrapolator
    \<Rightarrow> (string \<times> clock_value) list res \<times> extrapolator" where
  [op_defs]: "extrapolator_observe loads tc ch v x =
     (if take 15 ch = ''sys.host.clock_'' then (Inr [], x\<lparr>ex_clock := (ex_clock x)(ch \<mapsto> v)\<rparr>)
      else if ch = ''lap.best_time'' then
        (case py_float tc (json_of v) of
           Inl e \<Rightarrow> (Inl e, x)
         | Inr best \<Rightarrow> (Inr [], if flt_less (Fin 0) best then x\<lparr>ex_best_lap_s := Some best\<rparr> else x))
      else if ch = ''lap.event'' then
        (case loads (py_str tc (json_of v)) of
           Inl e \<Rightarrow> (Inl e, x)
         | Inr (JDict d) \<Rightarrow> observe_event_dict tc d x
         | Inr _ \<Rightarrow> (Inl AttributeError, x))
      else (Inr [], x))"

section \<open>The clocks\<close>

definition runaway_bound :: "extrapolator \<Rightarrow> flt" where
  "runaway_bound x =
     (case ex_best_lap_s x of
        None \<Rightarrow> Fin (cp_fallback_max_lap_s (ex_policy x))
      | Some best \<Rightarrow> flt_min (Fin (cp_fallback_max_lap_s (ex_policy x))) (flt_times best (cp_best_lap_multiple (ex_policy x))))"

definition clock_gate_reason :: "text_conv \<Rightarrow> extrapolator \<Rightarrow> string option" where
  "clock_gate_reason tc x =
     (case (ex_clock x ''sys.host.clock_offset_s'', ex_clock x ''sys.host.clock_stratum'', ex_clock x ''sys.host.clock_source'') of
        (Some off, Some stratum, Some source) \<Rightarrow>
          (case py_float tc (json_of off) of
             Inl _ \<Rightarrow> Some ''clock_health_invalid''
           | Inr f \<Rightarrow>
               if flt_less (Fin (cp_max_clock_offset_s (ex_policy x))) (flt_abs f) then Some ''clock_offset''
               else case py_int tc (json_of stratum) of
                 Inl _ \<Rightarrow> Some ''clock_health_invalid''
               | Inr n \<Rightarrow>
                   if n > cp_max_clock_stratum (ex_policy x) then Some ''clock_stratum''
                   else if upper (py_str tc (json_of source)) \<notin> set (cp_allowed_clock_sources (ex_policy x)) then Some ''clock_source''
                   else None)
      | _ \<Rightarrow> Some ''clock_health_missing'')"

definition clock_of :: "flt \<Rightarrow> string option \<Rightarrow> flt \<Rightarrow> flt \<Rightarrow> clock_value" where
  "clock_of now reason bound started_at =
     (if reason \<noteq> None then \<lparr>cv_value = None, cv_status = ''gated'', cv_reason = reason\<rparr>
      else let elapsed = flt_max (Fin 0) (flt_minus now started_at) in
        if flt_less bound elapsed then \<lparr>cv_value = Some bound, cv_status = ''degraded'', cv_reason = Some ''runaway''\<rparr>
        else \<lparr>cv_value = Some elapsed, cv_status = ''extrapolating'', cv_reason = None\<rparr>)"

definition tick :: "text_conv \<Rightarrow> flt \<Rightarrow> extrapolator \<Rightarrow> (string \<times> clock_value) list" where
  [op_defs]: "tick tc now x =
     List.map_filter (\<lambda>(ch, started). map_option (\<lambda>s. (ch, clock_of now (clock_gate_reason tc x) (runaway_bound x) s)) started)
       [(''timing.lap_elapsed_pit'', ex_lap_started_at x), (''timing.sector_elapsed_pit'', ex_sector_started_at x)]"

section \<open>The service's sample loop\<close>

definition INPUT_CHANNELS :: "string list" where
  "INPUT_CHANNELS = [''lap.event'', ''lap.best_time'', ''lap.sector'', ''sys.host.clock_offset_s'', ''sys.host.clock_stratum'',
     ''sys.host.clock_source'']"

definition CAUGHT :: "exn list" where
  "CAUGHT = [KeyError, TypeError, ValueError, OverflowError]"

text \<open>One sample: the clock values published, the engine and the count of malformed events; an
  exception that is not caught leaves the loop.\<close>

definition handle_clock_sample ::
  "(string \<Rightarrow> json res) \<Rightarrow> text_conv \<Rightarrow> string \<times> sample_value option \<Rightarrow> extrapolator \<times> nat
    \<Rightarrow> (string \<times> clock_value) list res \<times> extrapolator \<times> nat" where
  [op_defs]: "handle_clock_sample loads tc smp s =
     (let (ch, v) = smp; (x, malformed) = s in
      if ch \<notin> set INPUT_CHANNELS then (Inr [], x, malformed)
      else case extrapolator_observe loads tc ch v x of
             (Inr out, x1) \<Rightarrow> (Inr out, x1, malformed)
           | (Inl e, x1) \<Rightarrow> if e \<in> set CAUGHT then (Inr [], x1, malformed + 1) else (Inl e, x1, malformed))"

text \<open>The samples of one decoded batch, in order.\<close>

fun handle_clock_samples ::
  "(string \<Rightarrow> json res) \<Rightarrow> text_conv \<Rightarrow> (string \<times> sample_value option) list \<Rightarrow> extrapolator \<times> nat
    \<Rightarrow> (string \<times> clock_value) list res \<times> extrapolator \<times> nat" where
  "handle_clock_samples loads tc [] s = (Inr [], s)"
| "handle_clock_samples loads tc (smp # rest) s =
     (case handle_clock_sample loads tc smp s of
        (Inl e, s1) \<Rightarrow> (Inl e, s1)
      | (Inr out, s1) \<Rightarrow>
          (case handle_clock_samples loads tc rest s1 of
             (Inl e, s2) \<Rightarrow> (Inl e, s2)
           | (Inr outs, s2) \<Rightarrow> (Inr (out @ outs), s2)))"

section \<open>The outbox\<close>

text \<open>
  The queue between the engine and the MQTT task holds two items. When it is full it is emptied into a
  dictionary by channel, so a later item of a channel replaces an earlier one in its place, and filled again.
\<close>

type_synonym clock_item = "string \<times> clock_value \<times> real"

definition OUTPUT_CHANNELS :: "string list" where
  "OUTPUT_CHANNELS = [''timing.lap_elapsed_pit'', ''timing.sector_elapsed_pit'']"

record timing_outbox =
  ob_queue :: "clock_item list"
  ob_drops :: nat

definition outbox_init :: timing_outbox where
  "outbox_init = \<lparr>ob_queue = [], ob_drops = 0\<rparr>"

definition OUTBOX_SIZE :: nat where
  "OUTBOX_SIZE = 2"

definition queue_publish :: "clock_item \<Rightarrow> timing_outbox \<Rightarrow> unit res \<times> timing_outbox" where
  [op_defs]: "queue_publish it ob =
     (if fst it \<notin> set OUTPUT_CHANNELS then (Inl ValueError, ob)
      else if OUTBOX_SIZE \<le> length (ob_queue ob) then
        (let by_channel = AList.update (fst it) it (fold (\<lambda>q. AList.update (fst q) q) (ob_queue ob) [])
         in (Inr (), \<lparr>ob_queue = take OUTBOX_SIZE (map snd by_channel), ob_drops = ob_drops ob + 1\<rparr>))
      else (Inr (), ob\<lparr>ob_queue := ob_queue ob @ [it]\<rparr>))"

text \<open>\<open>_outbox.get\<close> by the MQTT task: the head of the queue, if there is one.\<close>

definition outbox_get :: "timing_outbox \<Rightarrow> clock_item option \<times> timing_outbox" where
  [op_defs]: "outbox_get ob =
     (case ob_queue ob of [] \<Rightarrow> (None, ob) | it # rest \<Rightarrow> (Some it, ob\<lparr>ob_queue := rest\<rparr>))"

section \<open>Display\<close>

definition LIVE_TENTHS :: "string list" where
  "LIVE_TENTHS = [''timing.lap_elapsed'', ''timing.predicted_lap'']"

definition DEFINITIVE_MILLIS :: "string list" where
  "DEFINITIVE_MILLIS = [''lap.last_time'', ''lap.best_time'']"

definition SIGNED_TENTHS :: "string list" where
  "SIGNED_TENTHS = [''timing.delta_best'']"

definition lap_time_display :: "nat \<Rightarrow> real \<Rightarrow> string" where
  "lap_time_display decimals seconds =
     (let scale = 10 ^ decimals;
          total = nat (py_round (\<bar>seconds\<bar> * real scale));
          rest = total mod (60 * scale);
          whole = show_nat_pad 2 (rest div scale)
      in (if seconds < 0 then ''-'' else []) @ show_nat (total div (60 * scale)) @ '':''
         @ (if decimals = 0 then show_nat_pad 3 rest else whole @ ''.'' @ show_nat_pad decimals (rest mod scale)))"

definition signed_tenths :: "real \<Rightarrow> string" where
  "signed_tenths x = (if x < 0 then [] else ''+'') @ show_fixed 1 x"

definition display_for :: "string \<Rightarrow> sample_value option \<Rightarrow> string option" where
  "display_for ch v =
     (case (case v of Some (VInt n) \<Rightarrow> Some (Fin (of_int n)) | Some (VFloat f) \<Rightarrow> Some f | _ \<Rightarrow> None) of
        Some (Fin x) \<Rightarrow>
          if ch \<in> set LIVE_TENTHS then Some (lap_time_display 1 x)
          else if ch \<in> set DEFINITIVE_MILLIS then Some (lap_time_display 3 x)
          else if ch \<in> set SIGNED_TENTHS then Some (signed_tenths x)
          else None
      | _ \<Rightarrow> None)"

text \<open>What a pit clock shows: a dash when it is gated. Rounding a non-finite reading raises.\<close>

datatype display = GATED_DISPLAY | Shown string

definition pit_clock_display :: "flt option \<Rightarrow> string \<Rightarrow> display res" where
  "pit_clock_display v status =
     (case v of
        None \<Rightarrow> Inr GATED_DISPLAY
      | Some (Fin x) \<Rightarrow> Inr (Shown (lap_time_display (if status = ''authoritative'' then 3 else 1) x))
      | Some NaN \<Rightarrow> Inl ValueError
      | Some _ \<Rightarrow> Inl OverflowError)"

lemma lap_time_display_fields:
  assumes "0 < decimals" "0 \<le> x"
  shows "\<exists>m s f. lap_time_display decimals x = show_nat m @ '':'' @ show_nat_pad 2 s @ ''.'' @ show_nat_pad decimals f
    \<and> s < 60 \<and> f < 10 ^ decimals \<and> int (m * (60 * 10 ^ decimals) + s * 10 ^ decimals + f) = py_round (x * 10 ^ decimals)"
proof -
  define sc :: nat where "sc = 10 ^ decimals"
  define total where "total = nat (py_round (\<bar>x\<bar> * real sc))"
  have sc: "0 < sc" by (simp add: sc_def)
  have "total = total div (60 * sc) * (60 * sc) + (total mod (60 * sc) div sc) * sc + total mod (60 * sc) mod sc"
    by (simp only: add.assoc div_mult_mod_eq)
  moreover have "total mod (60 * sc) div sc < 60" using sc by (simp add: less_mult_imp_div_less)
  moreover have "int total = py_round (x * 10 ^ decimals)"
    using assms by (simp add: total_def sc_def py_round_nonneg)
  moreover have "total mod (60 * sc) mod sc < sc" using sc by simp
  ultimately show ?thesis
    using assms unfolding sc_def[symmetric]
    by (intro exI[of _ "total div (60 * sc)"] exI[of _ "total mod (60 * sc) div sc"] exI[of _ "total mod (60 * sc) mod sc"])
      (simp add: lap_time_display_def Let_def total_def sc_def)
qed

section \<open>Properties\<close>

subsection \<open>The clocks read by a tick\<close>

lemma flt_max_minus_cases:
  "(\<exists>t. flt_max (Fin 0) (flt_minus a b) = Fin t \<and> 0 \<le> t) \<or> flt_max (Fin 0) (flt_minus a b) = PInf"
  by (cases "flt_minus a b") (auto simp: flt_max_def)

definition best_ok :: "extrapolator \<Rightarrow> bool" where
  [inv_defs]: "best_ok x = (\<forall>b. ex_best_lap_s x = Some b \<longrightarrow> flt_less (Fin 0) b)"

lemma observe_event_dict_keeps:
  "ex_policy (snd (observe_event_dict tc d x)) = ex_policy x"
  "ex_best_lap_s (snd (observe_event_dict tc d x)) = ex_best_lap_s x"
  "ex_clock (snd (observe_event_dict tc d x)) = ex_clock x"
  by (auto simp: observe_event_dict_def Let_def split: sum.splits)

lemma observe_policy [simp]: "ex_policy (snd (extrapolator_observe loads tc ch v x)) = ex_policy x"
  by (auto simp: extrapolator_observe_def observe_event_dict_keeps split: sum.splits json.splits)

lemma observe_best_ok: "best_ok x \<Longrightarrow> best_ok (snd (extrapolator_observe loads tc ch v x))"
  by (auto simp: extrapolator_observe_def best_ok_def observe_event_dict_keeps split: sum.splits json.splits)

lemma handle_clock_sample_engine:
  "snd (handle_clock_sample loads tc (ch, v) (x, m)) = (x', m') \<Longrightarrow>
   x' = x \<or> x' = snd (extrapolator_observe loads tc ch v x)"
  by (auto simp: handle_clock_sample_def Let_def split: if_splits prod.splits sum.splits)

definition sample_step ::
  "(string \<Rightarrow> json res) \<Rightarrow> text_conv \<Rightarrow> string \<times> sample_value option \<Rightarrow> extrapolator \<times> nat \<Rightarrow> extrapolator \<times> nat" where
  "sample_step loads tc smp s = snd (handle_clock_sample loads tc smp s)"

lemma sample_step_inv:
  "best_ok (fst s) \<and> ex_policy (fst s) = p \<Longrightarrow>
   best_ok (fst (sample_step loads tc smp s)) \<and> ex_policy (fst (sample_step loads tc smp s)) = p"
  using handle_clock_sample_engine[of loads tc "fst smp" "snd smp" "fst s" "snd s"]
  by (cases "snd (handle_clock_sample loads tc smp s)") (force simp: sample_step_def dest: observe_best_ok)

interpretation clocks: step_machine "sample_step loads tc" "\<lambda>s. best_ok (fst s) \<and> ex_policy (fst s) = p"
  by unfold_locales (rule sample_step_inv)

lemma handle_clock_samples_run:
  "\<exists>n. snd (handle_clock_samples loads tc smps s) = fold (sample_step loads tc) (take n smps) s"
proof (induction smps arbitrary: s)
  case (Cons smp rest)
  obtain r s1 where h: "handle_clock_sample loads tc smp s = (r, s1)" by (rule prod.exhaust)
  obtain n where n: "snd (handle_clock_samples loads tc rest s1) = fold (sample_step loads tc) (take n rest) s1"
    using Cons.IH by blast
  from h have step: "sample_step loads tc smp s = s1" by (simp add: sample_step_def)
  show ?case
  proof (cases r)
    case (Inl e)
    with h step show ?thesis by (intro exI[of _ 1]) simp
  next
    case (Inr out)
    with h n step show ?thesis
      by (intro exI[of _ "Suc n"]) (auto split: prod.splits sum.splits)
  qed
qed simp

lemma runaway_bound_range:
  assumes "best_ok x" "0 \<le> cp_fallback_max_lap_s (ex_policy x)" "0 < cp_best_lap_multiple (ex_policy x)"
  shows "\<exists>b. runaway_bound x = Fin b \<and> 0 \<le> b \<and> b \<le> cp_fallback_max_lap_s (ex_policy x)"
proof (cases "ex_best_lap_s x")
  case None
  with assms show ?thesis by (simp add: runaway_bound_def)
next
  case (Some best)
  with assms(1) have "flt_less (Fin 0) best" by (simp add: best_ok_def)
  with assms Some show ?thesis by (cases best) (auto simp: runaway_bound_def flt_min_def)
qed

definition clock_reading :: "flt \<Rightarrow> flt \<Rightarrow> real \<Rightarrow> clock_value \<Rightarrow> bool" where
  "clock_reading now started b cv =
     (\<exists>t. cv_value cv = Some (Fin t) \<and> 0 \<le> t \<and> t \<le> b \<and>
        (\<forall>n s. now = Fin n \<longrightarrow> started = Fin s \<longrightarrow> t = min b (max 0 (n - s))) \<and>
        (cv_status cv = ''degraded'' \<longleftrightarrow> flt_less (Fin b) (flt_minus now started)) \<and>
        (cv_status cv = ''degraded'' \<or> cv_status cv = ''extrapolating''))"

lemma clock_of_reading:
  assumes "0 \<le> b" shows "clock_reading now started b (clock_of now None (Fin b) started)"
  using assms by (cases now; cases started) (auto simp: clock_reading_def clock_of_def flt_max_def Let_def)

text \<open>
  Feed the service any batch of samples, malformed ones included. What a tick then shows for a
  clock that has started is either gated, without a number, exactly when the clock-health gate gives a
  reason; or the time since the crossing, never negative and never above the runaway bound, which
  itself never exceeds the configured longest lap. The status is degraded exactly when the elapsed
  time is past the bound. Not-a-number and infinite event times are covered.
\<close>

theorem tick_reads_bounded_clocks:
  assumes "0 \<le> cp_fallback_max_lap_s policy" "0 < cp_best_lap_multiple policy"
    and "snd (handle_clock_samples loads tc smps (extrapolator_init policy, 0)) = (x, malformed)"
    and "(ch, cv) \<in> set (tick tc now x)"
  shows "\<exists>started b. started \<in> set_option (if ch = ''timing.lap_elapsed_pit'' then ex_lap_started_at x else ex_sector_started_at x)
    \<and> runaway_bound x = Fin b \<and> 0 \<le> b \<and> b \<le> cp_fallback_max_lap_s policy
    \<and> (case clock_gate_reason tc x of
         Some r \<Rightarrow> cv = \<lparr>cv_value = None, cv_status = ''gated'', cv_reason = Some r\<rparr>
       | None \<Rightarrow> clock_reading now started b cv)"
proof -
  obtain n where run: "(x, malformed) = fold (sample_step loads tc) (take n smps) (extrapolator_init policy, 0)"
    using handle_clock_samples_run[of loads tc smps] assms(3) by metis
  have "best_ok x \<and> ex_policy x = policy"
    using clocks.run_inv[where s = "(extrapolator_init policy, 0)" and p = policy and es = "take n smps" and loads = loads and tc = tc] run[symmetric]
    by (simp add: extrapolator_init_def best_ok_def)
  then obtain b where b: "runaway_bound x = Fin b" "0 \<le> b" "b \<le> cp_fallback_max_lap_s policy"
    using runaway_bound_range[of x] assms(1,2) by auto
  obtain started where started:
      "started \<in> set_option (if ch = ''timing.lap_elapsed_pit'' then ex_lap_started_at x else ex_sector_started_at x)"
      "cv = clock_of now (clock_gate_reason tc x) (runaway_bound x) started"
    using assms(4) by (force simp: tick_def map_filter_simps split: option.splits if_splits)
  have "case clock_gate_reason tc x of
         Some r \<Rightarrow> cv = \<lparr>cv_value = None, cv_status = ''gated'', cv_reason = Some r\<rparr>
       | None \<Rightarrow> clock_reading now started b cv"
    using started(2) b clock_of_reading[OF b(2)] by (auto simp: clock_of_def split: option.split)
  with started(1) b show ?thesis by blast
qed

definition wit_loads :: "string \<Rightarrow> json res" where
  "wit_loads s =
     (if s = ''lap'' then Inr (JDict [(''type'', JStr ''lap_completed''), (''time'', JInt 100), (''lap_time'', JInt 60)])
      else if s = ''list'' then Inr (JList [])
      else Inl ValueError)"

definition wit_conv :: text_conv where
  "wit_conv = \<lparr>float_of_str = (\<lambda>s. None), int_of_str = (\<lambda>s. None), str_of = (\<lambda>j. [])\<rparr>"

definition wit_clock_samples :: "(string \<times> sample_value option) list" where
  "wit_clock_samples = [(''sys.host.clock_offset_s'', Some (VFloat (Fin 0))), (''sys.host.clock_stratum'', Some (VInt 1)),
     (''sys.host.clock_source'', Some (VStr ''gps'')), (''lap.best_time'', Some (VFloat (Fin 60))),
     (''lap.event'', Some (VStr ''lap'')), (''lap.event'', Some (VStr ''junk''))]"

definition wit_clock_state :: extrapolator where
  "wit_clock_state = fst (snd (handle_clock_samples wit_loads wit_conv wit_clock_samples (extrapolator_init clock_policy_default, 0)))"

lemmas wit_clock_defs =
  wit_clock_samples_def wit_loads_def wit_conv_def clock_policy_default_def extrapolator_init_def
  handle_clock_sample_def extrapolator_observe_def observe_event_dict_def INPUT_CHANNELS_def CAUGHT_def event_float_def
  jget_def jget_or_def

lemma wit_clock_run:
  "snd (handle_clock_samples wit_loads wit_conv wit_clock_samples (extrapolator_init clock_policy_default, 0)) = (wit_clock_state, 1)
   \<and> ex_lap_started_at wit_clock_state = Some (Fin 100) \<and> ex_best_lap_s wit_clock_state = Some (Fin 60)
   \<and> ex_sector_started_at wit_clock_state = Some (Fin 100) \<and> ex_policy wit_clock_state = clock_policy_default
   \<and> ex_clock wit_clock_state = [''sys.host.clock_offset_s'' \<mapsto> Some (VFloat (Fin 0)), ''sys.host.clock_stratum'' \<mapsto> Some (VInt 1),
       ''sys.host.clock_source'' \<mapsto> Some (VStr ''gps'')]"
  unfolding wit_clock_state_def by (simp add: wit_clock_defs)

lemma upper_gps: "upper ''gps'' = ''GPS''"
  by code_simp

lemma wit_clock_tick:
  "tick wit_conv (Fin 500) wit_clock_state =
     [(''timing.lap_elapsed_pit'', \<lparr>cv_value = Some (Fin 180), cv_status = ''degraded'', cv_reason = Some ''runaway''\<rparr>),
      (''timing.sector_elapsed_pit'', \<lparr>cv_value = Some (Fin 180), cv_status = ''degraded'', cv_reason = Some ''runaway''\<rparr>)]"
  using wit_clock_run
  by (simp add: tick_def map_filter_simps clock_of_def clock_gate_reason_def runaway_bound_def flt_min_def flt_max_def
      clock_policy_default_def wit_conv_def upper_gps Let_def)

theorem tick_reads_bounded_clocks_witness:
  "\<exists>b. runaway_bound wit_clock_state = Fin b \<and> 0 \<le> b \<and> b \<le> 300"
  using tick_reads_bounded_clocks[of clock_policy_default wit_loads wit_conv wit_clock_samples wit_clock_state 1
      "''timing.lap_elapsed_pit''"
      "\<lparr>cv_value = Some (Fin 180), cv_status = ''degraded'', cv_reason = Some ''runaway''\<rparr>" "Fin 500"]
    wit_clock_run wit_clock_tick
  by (auto simp: clock_policy_default_def)

subsection \<open>Malformed events\<close>

text \<open>A payload that is JSON but not an object: \<open>event.get\<close> does not exist on it.\<close>

definition not_an_object :: "(string \<Rightarrow> json res) \<Rightarrow> text_conv \<Rightarrow> string \<times> sample_value option \<Rightarrow> bool" where
  "not_an_object loads tc smp =
     (fst smp = ''lap.event'' \<and>
      (case loads (py_str tc (json_of (snd smp))) of Inr (JDict d) \<Rightarrow> False | Inr j \<Rightarrow> True | Inl e \<Rightarrow> False))"

lemma py_float_exn: "py_float tc j = Inl e \<Longrightarrow> e \<in> {TypeError, ValueError}"
  by (cases j) (auto split: option.splits)

lemma py_int_exn: "py_int tc j = Inl e \<Longrightarrow> e \<in> {TypeError, ValueError, OverflowError}"
proof (cases j)
  case (JFloat f)
  then show "py_int tc j = Inl e \<Longrightarrow> ?thesis" by (cases f) auto
qed (auto split: option.splits)

lemma event_float_exn: "event_float tc d k = Inl e \<Longrightarrow> e \<in> {KeyError, TypeError, ValueError}"
  by (auto simp: event_float_def split: option.splits dest: py_float_exn)

lemma observe_event_dict_exn: "fst (observe_event_dict tc d x) = Inl e \<Longrightarrow> e \<in> set CAUGHT"
  by (auto simp: observe_event_dict_def CAUGHT_def Let_def split: sum.splits if_splits dest!: event_float_exn py_int_exn)

lemma observe_exn:
  assumes "\<forall>s e. loads s = Inl e \<longrightarrow> e = ValueError" and "fst (extrapolator_observe loads tc ch v x) = Inl e"
  shows "e \<in> set CAUGHT \<or> e = AttributeError \<and> not_an_object loads tc (ch, v)"
  using assms
  by (auto simp: extrapolator_observe_def not_an_object_def CAUGHT_def split: sum.splits if_splits json.splits
      dest!: py_float_exn dest: observe_event_dict_exn)

lemma handle_clock_sample_exn:
  assumes "\<forall>s e. loads s = Inl e \<longrightarrow> e = ValueError"
  shows "if not_an_object loads tc smp then fst (handle_clock_sample loads tc smp s) = Inl AttributeError
         else \<exists>out. fst (handle_clock_sample loads tc smp s) = Inr out"
proof (cases "not_an_object loads tc smp")
  case True
  then show ?thesis
    by (cases smp; cases s)
      (auto simp: not_an_object_def handle_clock_sample_def extrapolator_observe_def INPUT_CHANNELS_def CAUGHT_def
        split: sum.splits json.splits)
next
  case False
  obtain ch v where smp: "smp = (ch, v)" by (cases smp)
  obtain x m where s: "s = (x, m)" by (cases s)
  have "e \<in> set CAUGHT" if "fst (extrapolator_observe loads tc ch v x) = Inl e" for e
    using observe_exn[of loads tc ch v x e] assms that False smp by blast
  then show ?thesis
    using False smp s by (cases "extrapolator_observe loads tc ch v x") (auto simp: handle_clock_sample_def split: sum.splits)
qed

text \<open>
  \<open>json.loads\<close> raising nothing but \<open>JSONDecodeError\<close>, a batch of samples of any content leaves the
  loop by an exception exactly when one of them is a lap event whose payload is valid JSON but not an
  object; the exception is \<open>AttributeError\<close>, which the loop does not catch. Missing keys, wrong types,
  text that is not a number and text that is not JSON are all counted and skipped.
\<close>

theorem samples_escape_only_on_non_object:
  assumes "\<forall>s e. loads s = Inl e \<longrightarrow> e = ValueError"
  shows "fst (handle_clock_samples loads tc smps (x, malformed)) = Inl e \<longleftrightarrow>
         e = AttributeError \<and> (\<exists>smp \<in> set smps. not_an_object loads tc smp)"
proof (induction smps arbitrary: x malformed)
  case (Cons smp rest)
  obtain r x1 m1 where h: "handle_clock_sample loads tc smp (x, malformed) = (r, x1, m1)" by (rule prod_cases3)
  have r: "if not_an_object loads tc smp then r = Inl AttributeError else \<exists>out. r = Inr out"
    using handle_clock_sample_exn[OF assms, of tc smp "(x, malformed)"] unfolding h by (auto split: if_splits)
  obtain rs s2 where rest: "handle_clock_samples loads tc rest (x1, m1) = (rs, s2)" by (rule prod.exhaust)
  show ?case
  proof (cases "not_an_object loads tc smp")
    case True
    with h r show ?thesis by auto
  next
    case False
    with r obtain out where "r = Inr out" by auto
    with h rest False Cons.IH[of x1 m1] show ?thesis by (cases rs) auto
  qed
qed simp

theorem samples_escape_only_on_non_object_witness:
  "fst (handle_clock_samples wit_loads wit_conv [(''lap.event'', Some (VStr ''junk'')), (''lap.event'', Some (VStr ''list''))]
     (extrapolator_init clock_policy_default, 0)) = Inl AttributeError"
proof -
  have "\<forall>s e. wit_loads s = Inl e \<longrightarrow> e = ValueError" by (auto simp: wit_loads_def split: if_splits)
  from samples_escape_only_on_non_object[OF this, of wit_conv
      "[(''lap.event'', Some (VStr ''junk'')), (''lap.event'', Some (VStr ''list''))]"
      "extrapolator_init clock_policy_default" 0 AttributeError]
  moreover have "not_an_object wit_loads wit_conv (''lap.event'', Some (VStr ''list''))"
    by (simp add: not_an_object_def wit_loads_def)
  ultimately show ?thesis by (simp del: handle_clock_samples.simps)
qed

subsection \<open>The outbox loses only what a newer reading replaces\<close>

datatype outbox_op = Publish clock_item | Get

text \<open>The outbox, what the MQTT task has taken from it, and what was handed to it and accepted.\<close>

definition outbox_step ::
  "outbox_op \<Rightarrow> timing_outbox \<times> clock_item list \<times> clock_item list \<Rightarrow> timing_outbox \<times> clock_item list \<times> clock_item list" where
  "outbox_step op s =
     (case s of (ob, got, sent) \<Rightarrow>
        (case op of
           Publish it \<Rightarrow> (case queue_publish it ob of (Inl e, ob1) \<Rightarrow> (ob1, got, sent) | (Inr _, ob1) \<Rightarrow> (ob1, got, sent @ [it]))
         | Get \<Rightarrow> (case outbox_get ob of (None, ob1) \<Rightarrow> (ob1, got, sent) | (Some it, ob1) \<Rightarrow> (ob1, got @ [it], sent))))"

definition on :: "string \<Rightarrow> clock_item list \<Rightarrow> clock_item list" where
  "on c = filter (\<lambda>it. fst it = c)"

text \<open>A sublist in the same order that still ends with the latest element.\<close>

definition keeps :: "'a list \<Rightarrow> 'a list \<Rightarrow> bool" where
  "keeps xs ys = (subseq xs ys \<and> (ys \<noteq> [] \<longrightarrow> xs \<noteq> [] \<and> last xs = last ys))"

lemma keeps_refl [simp]: "keeps xs xs"
  by (simp add: keeps_def)

lemma keeps_trans: "keeps xs ys \<Longrightarrow> keeps ys zs \<Longrightarrow> keeps xs zs"
  unfolding keeps_def by (auto intro: subseq_order.order_trans)

lemma keeps_append_left: "keeps xs ys \<Longrightarrow> keeps (zs @ xs) (zs @ ys)"
  by (cases "ys = []") (auto simp: keeps_def intro: list_emb_append_mono)

lemma keeps_append_right: "keeps xs ys \<Longrightarrow> keeps (xs @ zs) (ys @ zs)"
  by (cases "zs = []") (auto simp: keeps_def intro: list_emb_append_mono)

lemma on_append [simp]: "on c (xs @ ys) = on c xs @ on c ys"
  by (simp add: on_def)

lemma on_simps: "on c [] = []" "on c (x # xs) = (if fst x = c then x # on c xs else on c xs)"
  by (simp_all add: on_def)

definition outbox_inv :: "timing_outbox \<times> clock_item list \<times> clock_item list \<Rightarrow> bool" where
  [inv_defs]: "outbox_inv s =
     (case s of (ob, got, sent) \<Rightarrow>
        length (ob_queue ob) \<le> OUTBOX_SIZE \<and> fst ` set (ob_queue ob) \<subseteq> set OUTPUT_CHANNELS
        \<and> (\<forall>c. keeps (on c (got @ ob_queue ob)) (on c sent))
        \<and> length got + length (ob_queue ob) + ob_drops ob \<le> length sent)"

lemma two_channels:
  assumes "length q = 2" "fst ` set q \<subseteq> set OUTPUT_CHANNELS" "fst it \<in> set OUTPUT_CHANNELS"
  defines "q' \<equiv> take 2 (map snd (AList.update (fst it) it (fold (\<lambda>z. AList.update (fst z) z) q [])))"
  shows "keeps (on c q') (on c (q @ [it]))" "length q' \<le> 2" "set q' \<subseteq> insert it (set q)"
proof -
  obtain a b where q: "q = [a, b]" using assms(1) by (auto simp: length_Suc_conv numeral_2_eq_2)
  with assms(2,3) have "fst it = fst a \<or> fst it = fst b \<or> fst a = fst b"
    by (auto simp: OUTPUT_CHANNELS_def)
  then show "keeps (on c q') (on c (q @ [it]))" "set q' \<subseteq> insert it (set q)"
    by (auto simp: q'_def q keeps_def on_def)
  show "length q' \<le> 2" by (simp add: q'_def)
qed

lemma queue_publish_keeps:
  assumes "length (ob_queue ob) \<le> OUTBOX_SIZE" "fst ` set (ob_queue ob) \<subseteq> set OUTPUT_CHANNELS"
    and "fst it \<in> set OUTPUT_CHANNELS"
  shows "\<exists>ob1. queue_publish it ob = (Inr (), ob1) \<and> length (ob_queue ob1) \<le> OUTBOX_SIZE
    \<and> fst ` set (ob_queue ob1) \<subseteq> set OUTPUT_CHANNELS \<and> (\<forall>c. keeps (on c (ob_queue ob1)) (on c (ob_queue ob @ [it])))
    \<and> length (ob_queue ob1) + ob_drops ob1 \<le> length (ob_queue ob) + ob_drops ob + 1"
proof (cases "OUTBOX_SIZE \<le> length (ob_queue ob)")
  case True
  with assms(1) have "length (ob_queue ob) = 2" by (simp add: OUTBOX_SIZE_def)
  note q = two_channels[OF this assms(2,3)]
  have "fst ` set (take 2 (map snd (AList.update (fst it) it (fold (\<lambda>z. AList.update (fst z) z) (ob_queue ob) []))))
      \<subseteq> set OUTPUT_CHANNELS"
    using q(3) assms(2,3) by blast
  with True q(1,2) assms \<open>length (ob_queue ob) = 2\<close> show ?thesis
    by (simp add: queue_publish_def Let_def OUTBOX_SIZE_def)
next
  case False
  with assms show ?thesis by (simp add: queue_publish_def)
qed

lemma outbox_step_inv:
  assumes "outbox_inv s" shows "outbox_inv (outbox_step op s)"
proof (cases s)
  case (fields ob got sent)
  note inv = assms[unfolded fields outbox_inv_def, simplified]
  show ?thesis
  proof (cases op)
    case (Publish it)
    show ?thesis
    proof (cases "fst it \<in> set OUTPUT_CHANNELS")
      case True
      then obtain ob1 where ob1: "queue_publish it ob = (Inr (), ob1)" "length (ob_queue ob1) \<le> OUTBOX_SIZE"
          "fst ` set (ob_queue ob1) \<subseteq> set OUTPUT_CHANNELS" "\<And>c. keeps (on c (ob_queue ob1)) (on c (ob_queue ob @ [it]))"
          "length (ob_queue ob1) + ob_drops ob1 \<le> length (ob_queue ob) + ob_drops ob + 1"
        using queue_publish_keeps[of ob it] inv by blast
      have "keeps (on c (got @ ob_queue ob1)) (on c (sent @ [it]))" for c
      proof -
        have "keeps (on c (got @ ob_queue ob1)) (on c (got @ ob_queue ob) @ on c [it])"
          using ob1(4)[of c] by (simp add: keeps_append_left)
        moreover have "keeps (on c (got @ ob_queue ob) @ on c [it]) (on c sent @ on c [it])"
          using inv by (intro keeps_append_right) simp
        ultimately show ?thesis by (simp add: keeps_trans)
      qed
      with fields Publish ob1 inv show ?thesis by (simp add: outbox_step_def outbox_inv_def)
    qed (use fields Publish inv in \<open>simp add: outbox_step_def outbox_inv_def queue_publish_def\<close>)
  next
    case Get
    with fields inv show ?thesis
      by (cases "ob_queue ob") (auto simp: outbox_step_def outbox_inv_def outbox_get_def on_simps split: if_splits)
  qed
qed

definition accepted :: "outbox_op \<Rightarrow> clock_item list" where
  "accepted op = (case op of Publish it \<Rightarrow> if fst it \<in> set OUTPUT_CHANNELS then [it] else [] | Get \<Rightarrow> [])"

lemma outbox_step_sent: "snd (snd (outbox_step op s)) = snd (snd s) @ accepted op"
  by (cases s; cases op)
    (auto simp: outbox_step_def queue_publish_def outbox_get_def accepted_def Let_def split: list.split)

interpretation outbox: step_machine outbox_step outbox_inv
  by unfold_locales (rule outbox_step_inv)

text \<open>
  For every interleaving of publishing and taking, the outbox holds at most two readings, and what
  the MQTT task has taken followed by what waits is, channel by channel, a selection of the accepted
  readings in their order that ends with the latest one: a slow broker costs intermediate readings,
  never the newest. The drop counter never counts more than what was lost, and a reading on any other
  channel is refused.
\<close>

theorem outbox_keeps_latest:
  "case fold outbox_step ops (outbox_init, [], []) of (ob, got, sent) \<Rightarrow>
     length (ob_queue ob) \<le> OUTBOX_SIZE
     \<and> (\<forall>c. keeps (on c (got @ ob_queue ob)) (on c sent))
     \<and> length got + length (ob_queue ob) + ob_drops ob \<le> length sent
     \<and> sent = concat (map accepted ops)"
proof -
  have sent: "snd (snd (fold outbox_step ops s)) = snd (snd s) @ concat (map accepted ops)" for s
    by (induction ops arbitrary: s) (simp_all add: outbox_step_sent)
  have "outbox_inv (fold outbox_step ops (outbox_init, [], []))"
    by (rule outbox.run_inv) (simp add: outbox_inv_def outbox_init_def on_simps)
  with sent[of "(outbox_init, [], [])"] show ?thesis
    by (auto simp: outbox_inv_def split: prod.splits)
qed

end
