(* ===== verification/Ingest_Store.thy ===== *)
theory Ingest_Store
  imports Registry_Cache Lap_Materialiser
begin

text \<open>
  \<^verbatim>\<open>src/pit/ingest_writer/store.py\<close>: the tables the ingest writer keeps and the transactions it runs
  on them.

  A table with a unique key is an association list from the key; \<open>ON CONFLICT DO UPDATE\<close> is
  \<open>AList.update\<close>, which keeps the position of an existing row, \<open>DO NOTHING\<close> leaves the row. A lap is
  identified by its unique key, the vehicle and the crossing instant, in place of the serial \<open>lap_id\<close>.
  A serial key is a counter that every insert advances, also one that ends in a conflict. The
  tables \<open>sessions\<close> and \<open>stints\<close> belong to session control and are only read here.

  How the database answers a transaction is an argument, \<open>outcome\<close>: committed, unreachable before
  the commit, connection lost after the commit was applied, or rejected; a transaction is all or nothing.
\<close>

type_synonym sample_row = "real \<times> int \<times> flt option \<times> string option"

record map_entry =
  me_channel_key :: int
  me_source_ref :: string
  me_units :: string
  me_value_type :: value_type
  me_scale :: real
  me_offset :: real

record stored_lap =
  sl_session_id :: "string option"
  sl_stint_id :: "int option"
  sl_track_name :: "string option"
  sl_lap_number :: int
  sl_lap_time_s :: "flt option"
  sl_valid :: bool
  sl_pit_status :: "string option"
  sl_direction :: "string option"

type_synonym lap_key = "string \<times> real"

record pit_db =
  pd_registries :: "((string \<times> int) \<times> real option) list"
  pd_channels :: "((string \<times> string) \<times> (int \<times> string \<times> value_type)) list"
  pd_next_key :: int
  pd_channel_map :: "((string \<times> int \<times> int) \<times> map_entry) list"
  pd_samples :: "sample_row list"
  pd_laps :: "(lap_key \<times> stored_lap) list"
  pd_lap_sectors :: "((lap_key \<times> int) \<times> (flt option \<times> real)) list"
  pd_cursor :: "nat option"
  pd_sessions :: "string list"
  pd_stints :: "((string \<times> int) \<times> int) list"

definition read_cursor :: "pit_db \<Rightarrow> nat" where
  "read_cursor db = (case pd_cursor db of None \<Rightarrow> 0 | Some n \<Rightarrow> n)"

section \<open>Registering a generation\<close>

definition epoch_ms_to_datetime :: "int \<Rightarrow> real option res" where
  "epoch_ms_to_datetime ms =
     (if ms = 0 then Inr None else sbind (fromtimestamp (Fin (of_int ms / 1000))) (\<lambda>t. Inr (Some t)))"

definition upsert_channel :: "string \<Rightarrow> channel \<Rightarrow> pit_db \<Rightarrow> int \<times> pit_db" where
  "upsert_channel vehicle ch db =
     (let k = (vehicle, ch_name ch);
          key = (case map_of (pd_channels db) k of Some (n, _) \<Rightarrow> n | None \<Rightarrow> pd_next_key db)
      in (key, db\<lparr>pd_channels := AList.update k (key, ch_units ch, ch_type ch) (pd_channels db),
                  pd_next_key := pd_next_key db + 1\<rparr>))"

definition register_channel :: "string \<Rightarrow> int \<Rightarrow> channel \<Rightarrow> (int \<times> int) list \<times> pit_db \<Rightarrow> (int \<times> int) list \<times> pit_db" where
  "register_channel vehicle seq ch s =
     (let (key, db) = upsert_channel vehicle ch (snd s)
      in (AList.update (ch_id ch) key (fst s),
          db\<lparr>pd_channel_map := AList.update (vehicle, seq, ch_id ch)
               \<lparr>me_channel_key = key, me_source_ref = ch_source_ref ch, me_units = ch_units ch, me_value_type = ch_type ch,
                me_scale = ch_scale ch, me_offset = ch_offset ch\<rparr> (pd_channel_map db)\<rparr>))"

definition upsert_registry :: "string \<Rightarrow> channel_registry \<Rightarrow> pit_db \<Rightarrow> (int \<times> int) list res \<times> pit_db" where
  [op_defs]: "upsert_registry vehicle reg db =
     (case epoch_ms_to_datetime (reg_created_unix_ms reg) of
        Inl e \<Rightarrow> (Inl e, db)
      | Inr created \<Rightarrow>
          (let k = (vehicle, reg_seq reg);
               db1 = (if map_of (pd_registries db) k = None
                      then db\<lparr>pd_registries := pd_registries db @ [(k, created)]\<rparr> else db);
               (keys, db2) = fold (register_channel vehicle (reg_seq reg)) (reg_channels reg) ([], db1)
           in (Inr keys, db2)))"

section \<open>Laps\<close>

text \<open>The session and stint of a lap as far as they exist; what was found is cached until the next connection.\<close>

record session_cache =
  sc_sessions_seen :: "string set"
  sc_stints :: "(string \<times> int) \<rightharpoonup> int"

definition session_cache_init :: session_cache where
  "session_cache_init = \<lparr>sc_sessions_seen = {}, sc_stints = Map.empty\<rparr>"

definition resolve_session :: "pit_db \<Rightarrow> lap_row \<Rightarrow> session_cache \<Rightarrow> (string option \<times> int option) \<times> session_cache" where
  "resolve_session db lap sc =
     (case lr_session_id lap of
        None \<Rightarrow> ((None, None), sc)
      | Some sid \<Rightarrow>
          if sid \<notin> sc_sessions_seen sc \<and> sid \<notin> set (pd_sessions db) then ((None, None), sc)
          else
            (let sc1 = sc\<lparr>sc_sessions_seen := insert sid (sc_sessions_seen sc)\<rparr> in
             case lr_stint_number lap of
               None \<Rightarrow> ((Some sid, None), sc1)
             | Some n \<Rightarrow>
                 (case sc_stints sc1 (sid, n) of
                    Some i \<Rightarrow> ((Some sid, Some i), sc1)
                  | None \<Rightarrow>
                      (case map_of (pd_stints db) (sid, n) of
                         None \<Rightarrow> ((Some sid, None), sc1)
                       | Some i \<Rightarrow> ((Some sid, Some i), sc1\<lparr>sc_stints := (sc_stints sc1)((sid, n) \<mapsto> i)\<rparr>)))))"

definition write_sector :: "lap_key \<Rightarrow> sector_row \<Rightarrow> pit_db \<Rightarrow> pit_db" where
  "write_sector k sec db =
     db\<lparr>pd_lap_sectors := AList.update (k, sr_sector sec) (sr_split_time_s sec, sr_crossed_at sec) (pd_lap_sectors db)\<rparr>"

definition write_lap :: "lap_row \<Rightarrow> pit_db \<times> session_cache \<Rightarrow> pit_db \<times> session_cache" where
  "write_lap lap s =
     (let (db, sc) = s;
          ((sid, stint), sc1) = resolve_session db lap sc;
          k = (lr_vehicle_id lap, lr_crossed_at lap);
          db1 = db\<lparr>pd_laps := AList.update k
            \<lparr>sl_session_id = sid, sl_stint_id = stint, sl_track_name = lr_track_name lap, sl_lap_number = lr_lap_number lap,
             sl_lap_time_s = lr_lap_time_s lap, sl_valid = lr_valid lap, sl_pit_status = lr_pit_status lap,
             sl_direction = lr_direction lap\<rparr> (pd_laps db)\<rparr>
      in (fold (write_sector k) (lr_sectors lap) db1, sc1))"

text \<open>A pit entry or exit lands on the latest lap of the vehicle completed by then.\<close>

definition update_pit_status :: "pit_status_update \<Rightarrow> pit_db \<Rightarrow> pit_db" where
  "update_pit_status u db =
     (let ks = filter (\<lambda>(v, t). v = pu_vehicle_id u \<and> t \<le> pu_at u) (map fst (pd_laps db))
      in if ks = [] then db
         else let k = (pu_vehicle_id u, Max (snd ` set ks))
              in db\<lparr>pd_laps := map (\<lambda>(k', l). (k', if k' = k then l\<lparr>sl_pit_status := Some (pu_pit_status u)\<rparr> else l)) (pd_laps db)\<rparr>)"

section \<open>One flush\<close>

definition upsert_cursor :: "nat \<Rightarrow> pit_db \<Rightarrow> pit_db" where
  "upsert_cursor seq db =
     (case pd_cursor db of
        None \<Rightarrow> db\<lparr>pd_cursor := Some seq\<rparr>
      | Some n \<Rightarrow> if n < seq then db\<lparr>pd_cursor := Some seq\<rparr> else db)"

definition apply_flush ::
  "sample_row list \<Rightarrow> lap_row list \<Rightarrow> pit_status_update list \<Rightarrow> nat \<Rightarrow> pit_db \<times> session_cache \<Rightarrow> pit_db \<times> session_cache" where
  "apply_flush rows laps pits seq s =
     (let (db, sc) = s;
          (db1, sc1) = fold write_lap laps (db\<lparr>pd_samples := pd_samples db @ rows\<rparr>, sc);
          db2 = fold update_pit_status pits db1
      in (if seq > 0 then upsert_cursor seq db2 else db2, sc1))"

datatype outcome = Committed | Unreachable | Lost_After_Commit | Rejected

datatype write_result = Done | OperationalError | DatabaseError

definition store_flush ::
  "outcome \<Rightarrow> sample_row list \<Rightarrow> lap_row list \<Rightarrow> pit_status_update list \<Rightarrow> nat \<Rightarrow> pit_db \<times> session_cache
    \<Rightarrow> write_result \<times> pit_db \<times> session_cache" where
  [op_defs]: "store_flush out rows laps pits seq s =
     (case out of
        Committed \<Rightarrow> (Done, apply_flush rows laps pits seq s)
      | Unreachable \<Rightarrow> (OperationalError, s)
      | Lost_After_Commit \<Rightarrow> (OperationalError, apply_flush rows laps pits seq s)
      | Rejected \<Rightarrow> (DatabaseError, s))"

section \<open>What a committed flush does to samples and cursor\<close>

definition written :: "pit_db \<Rightarrow> sample_row list \<times> nat option" where
  "written db = (pd_samples db, pd_cursor db)"

lemma written_simps [simp]:
  "written (write_sector k sec db) = written db" "written (db\<lparr>pd_laps := l\<rparr>) = written db"
  "written (update_pit_status u db) = written db"
  by (simp_all add: written_def write_sector_def update_pit_status_def Let_def)

lemma written_write_lap [simp]: "written (fst (write_lap lap s)) = written (fst s)"
proof (cases s)
  case (Pair db sc)
  obtain sid stint sc1 where "resolve_session db lap sc = ((sid, stint), sc1)" by (metis surj_pair)
  with Pair show ?thesis by (simp add: write_lap_def Let_def fold_keeps[of written])
qed

lemma read_cursor_upsert: "read_cursor (upsert_cursor seq db) = max (read_cursor db) seq"
  by (simp add: upsert_cursor_def read_cursor_def split: option.split)

lemma apply_flush_written:
  "pd_samples (fst (apply_flush rows laps pits seq (db, sc))) = pd_samples db @ rows
   \<and> read_cursor (fst (apply_flush rows laps pits seq (db, sc))) = max (read_cursor db) seq"
proof -
  define db0 where "db0 = db\<lparr>pd_samples := pd_samples db @ rows\<rparr>"
  obtain db1 sc1 where f: "fold write_lap laps (db0, sc) = (db1, sc1)" by (rule prod.exhaust)
  have "written db1 = written db0"
    using fold_keeps[of "\<lambda>s. written (fst s)" write_lap laps "(db0, sc)"] f by simp
  then have w: "written (fold update_pit_status pits db1) = written db0"
    by (simp add: fold_keeps[of written])
  then have "pd_samples (fold update_pit_status pits db1) = pd_samples db @ rows"
    "read_cursor (fold update_pit_status pits db1) = read_cursor db"
    by (simp_all add: written_def db0_def read_cursor_def)
  then show ?thesis
    using f[unfolded db0_def]
    by (auto simp: apply_flush_def Let_def read_cursor_upsert) (simp add: upsert_cursor_def split: option.split)
qed

section \<open>Channel identity\<close>

definition channel_key :: "pit_db \<Rightarrow> string \<times> string \<Rightarrow> int option" where
  "channel_key db k = map_option fst (map_of (pd_channels db) k)"

definition keys_inv :: "pit_db \<Rightarrow> bool" where
  [inv_defs]: "keys_inv db \<longleftrightarrow>
     (\<forall>k n. channel_key db k = Some n \<longrightarrow> n < pd_next_key db)
     \<and> (\<forall>j k n. channel_key db j = Some n \<longrightarrow> channel_key db k = Some n \<longrightarrow> j = k)"

lemma upsert_channel_key:
  assumes "upsert_channel vehicle ch db = (key, db1)"
  shows "channel_key db1 = (channel_key db)((vehicle, ch_name ch) \<mapsto> key)"
    and "channel_key db (vehicle, ch_name ch) = Some n \<Longrightarrow> key = n"
  using assms by (auto simp: upsert_channel_def channel_key_def Let_def map_of_update fun_eq_iff split: option.splits)

lemma fresh_key:
  fixes f :: "'k \<Rightarrow> int option"
  assumes "\<forall>k n. f k = Some n \<longrightarrow> n < m" "\<forall>j k n. f j = Some n \<longrightarrow> f k = Some n \<longrightarrow> j = k"
    and "f k0 = Some v \<or> f k0 = None \<and> v = m"
  shows "\<forall>k n. (f(k0 \<mapsto> v)) k = Some n \<longrightarrow> n < m + 1"
    and "\<forall>j k n. (f(k0 \<mapsto> v)) j = Some n \<longrightarrow> (f(k0 \<mapsto> v)) k = Some n \<longrightarrow> j = k"
proof -
  have lt: "n < m" if "f k = Some n" for k n using assms(1) that by blast
  show "\<forall>k n. (f(k0 \<mapsto> v)) k = Some n \<longrightarrow> n < m + 1"
    using assms(3) lt by (auto split: if_splits) (force dest: lt)+
  have "v \<noteq> n" if "f k = Some n" "k \<noteq> k0" for k n
    using assms(2,3) that lt by fastforce
  then show "\<forall>j k n. (f(k0 \<mapsto> v)) j = Some n \<longrightarrow> (f(k0 \<mapsto> v)) k = Some n \<longrightarrow> j = k"
    using assms(2) by (metis fun_upd_apply option.inject)
qed

lemma upsert_channel_inv:
  assumes "keys_inv db" "upsert_channel vehicle ch db = (key, db1)"
  shows "keys_inv db1"
proof -
  have next_key: "pd_next_key db1 = pd_next_key db + 1" using assms(2) by (auto simp: upsert_channel_def Let_def)
  have key: "channel_key db (vehicle, ch_name ch) = Some key \<or> channel_key db (vehicle, ch_name ch) = None \<and> key = pd_next_key db"
    using assms(2) by (auto simp: upsert_channel_def channel_key_def Let_def split: option.splits)
  show ?thesis
    using fresh_key[of "channel_key db" "pd_next_key db" "(vehicle, ch_name ch)" key] key assms(1) unfolding keys_inv_def upsert_channel_key(1)[OF assms(2)] next_key by blast
qed

definition key_dict :: "(string \<times> string \<Rightarrow> int option) \<Rightarrow> string \<Rightarrow> channel list \<Rightarrow> (int \<times> int) list \<Rightarrow> (int \<times> int) list" where
  "key_dict f vehicle = fold (\<lambda>ch. AList.update (ch_id ch) (the (f (vehicle, ch_name ch))))"

text \<open>What registering channels keeps of the other tables.\<close>

definition same_rows :: "pit_db \<Rightarrow> pit_db \<Rightarrow> bool" where
  "same_rows db db' \<longleftrightarrow> pd_samples db' = pd_samples db \<and> pd_cursor db' = pd_cursor db \<and> pd_laps db' = pd_laps db
     \<and> pd_lap_sectors db' = pd_lap_sectors db"

lemma same_rows_refl [simp]: "same_rows db db"
  by (simp add: same_rows_def)

lemma register_channels:
  assumes "fold (register_channel vehicle seq) chs (ks, db) = (ks', db')"
  shows "(\<forall>k n. channel_key db k = Some n \<longrightarrow> channel_key db' k = Some n)
    \<and> ks' = key_dict (channel_key db') vehicle chs ks
    \<and> (\<forall>ch \<in> set chs. channel_key db' (vehicle, ch_name ch) \<noteq> None)
    \<and> (keys_inv db \<longrightarrow> keys_inv db') \<and> same_rows db db'"
  using assms
proof (induction chs arbitrary: ks db)
  case Nil
  then show ?case by (simp add: key_dict_def)
next
  case (Cons ch chs)
  obtain key db1 where up: "upsert_channel vehicle ch db = (key, db1)" by (rule prod.exhaust)
  define db2 where "db2 = snd (register_channel vehicle seq ch (ks, db))"
  have reg: "register_channel vehicle seq ch (ks, db) = (AList.update (ch_id ch) key ks, db2)"
    by (simp add: db2_def register_channel_def up)
  have ck: "channel_key db2 = channel_key db1" and nk: "pd_next_key db2 = pd_next_key db1"
    by (simp_all add: db2_def register_channel_def up channel_key_def fun_eq_iff)
  have sr: "same_rows db db2"
    using up by (auto simp: db2_def register_channel_def same_rows_def upsert_channel_def Let_def)
  from Cons.prems reg have rest: "fold (register_channel vehicle seq) chs (AList.update (ch_id ch) key ks, db2) = (ks', db')"
    by simp
  note IH = Cons.IH[OF rest]
  have key: "channel_key db2 (vehicle, ch_name ch) = Some key" by (simp add: ck upsert_channel_key(1)[OF up])
  have "keys_inv db2 = keys_inv db1" by (simp only: keys_inv_def ck nk)
  then have "keys_inv db \<longrightarrow> keys_inv db2" using upsert_channel_inv[OF _ up] by blast
  moreover have "channel_key db' k = Some n" if "channel_key db k = Some n" for k n
  proof -
    have "channel_key db2 k = Some n"
    proof (cases "k = (vehicle, ch_name ch)")
      case True
      with upsert_channel_key(2)[OF up] that key show ?thesis by simp
    next
      case False
      with that show ?thesis by (simp add: ck upsert_channel_key(1)[OF up])
    qed
    with IH show ?thesis by blast
  qed
  moreover have "channel_key db' (vehicle, ch_name ch) = Some key" using IH key by blast
  moreover have "ks' = key_dict (channel_key db') vehicle (ch # chs) ks"
    using IH \<open>channel_key db' (vehicle, ch_name ch) = Some key\<close> by (simp add: key_dict_def)
  moreover have "same_rows db db'" using IH sr by (simp add: same_rows_def)
  moreover have "\<forall>c \<in> set (ch # chs). channel_key db' (vehicle, ch_name c) \<noteq> None"
    using IH \<open>channel_key db' (vehicle, ch_name ch) = Some key\<close> by simp
  ultimately show ?case using IH by blast
qed

lemma upsert_registry_keys:
  assumes "upsert_registry vehicle reg db = (r, db')"
  shows "(\<forall>k n. channel_key db k = Some n \<longrightarrow> channel_key db' k = Some n)
    \<and> (keys_inv db \<longrightarrow> keys_inv db') \<and> same_rows db db'
    \<and> (\<forall>keys. r = Inr keys \<longrightarrow> keys = key_dict (channel_key db') vehicle (reg_channels reg) []
         \<and> (\<forall>ch \<in> set (reg_channels reg). channel_key db' (vehicle, ch_name ch) \<noteq> None))"
proof (cases "epoch_ms_to_datetime (reg_created_unix_ms reg)")
  case (Inl e)
  with assms show ?thesis by (auto simp: upsert_registry_def)
next
  case (Inr created)
  define db1 where "db1 = (if map_of (pd_registries db) (vehicle, reg_seq reg) = None
      then db\<lparr>pd_registries := pd_registries db @ [((vehicle, reg_seq reg), created)]\<rparr> else db)"
  have same: "channel_key db1 = channel_key db" "keys_inv db1 = keys_inv db" "same_rows db db1"
    by (auto simp: db1_def channel_key_def keys_inv_def same_rows_def)
  obtain keys db2 where f: "fold (register_channel vehicle (reg_seq reg)) (reg_channels reg) ([], db1) = (keys, db2)"
    by (rule prod.exhaust)
  with assms Inr have "r = Inr keys" "db' = db2" by (auto simp: upsert_registry_def Let_def db1_def)
  with register_channels[OF f] same show ?thesis by (auto simp: same_rows_def)
qed

definition upsert_step :: "string \<times> channel_registry \<Rightarrow> pit_db \<Rightarrow> pit_db" where
  "upsert_step op db = snd (upsert_registry (fst op) (snd op) db)"

interpretation keys: step_machine upsert_step keys_inv
  by unfold_locales (metis upsert_step_def upsert_registry_keys prod.collapse)

lemma upsert_run_keeps: "channel_key db k = Some n \<Longrightarrow> channel_key (fold upsert_step ops db) k = Some n"
proof (induction ops arbitrary: db)
  case (Cons op ops)
  have "channel_key (upsert_step op db) k = Some n"
    using upsert_registry_keys[of "fst op" "snd op" db] Cons.prems by (metis upsert_step_def prod.collapse)
  with Cons.IH show ?case by simp
qed simp

lemma key_dict_cong:
  "(\<And>ch. ch \<in> set chs \<Longrightarrow> f (vehicle, ch_name ch) = g (vehicle, ch_name ch)) \<Longrightarrow>
   key_dict f vehicle chs ks = key_dict g vehicle chs ks"
  by (induction chs arbitrary: ks) (simp_all add: key_dict_def)

text \<open>
  A channel's key is its identity. Whatever generations are recorded before and after, two
  channels never share a key, and recording a generation again returns the keys it returned the first time.
\<close>

theorem channel_keys_are_identities:
  assumes "upsert_registry vehicle reg (fold upsert_step before db0) = (Inr keys, db)" and "pd_channels db0 = []"
  shows "keys_inv (fold upsert_step after db)
    \<and> fst (upsert_registry vehicle reg (fold upsert_step after db)) = Inr keys"
proof
  have "keys_inv (fold upsert_step before db0)"
    using assms(2) by (intro keys.run_inv) (simp add: keys_inv_def channel_key_def)
  with upsert_registry_keys[OF assms(1)] show "keys_inv (fold upsert_step after db)"
    by (intro keys.run_inv) blast
  obtain r db' where again: "upsert_registry vehicle reg (fold upsert_step after db) = (r, db')" by (rule prod.exhaust)
  have "r = Inr (key_dict (channel_key db') vehicle (reg_channels reg) [])"
  proof (cases r)
    case (Inl e)
    with assms(1) again show ?thesis
      by (auto simp: upsert_registry_def Let_def split: sum.splits prod.splits)
  next
    case (Inr ks)
    with upsert_registry_keys[OF again] show ?thesis by blast
  qed
  moreover have "channel_key db' (vehicle, ch_name ch) = channel_key db (vehicle, ch_name ch)" if "ch \<in> set (reg_channels reg)" for ch
  proof -
    from upsert_registry_keys[OF assms(1)] that obtain n where "channel_key db (vehicle, ch_name ch) = Some n" by blast
    with upsert_run_keeps[of db _ n after] upsert_registry_keys[OF again] show ?thesis by auto
  qed
  ultimately show "fst (upsert_registry vehicle reg (fold upsert_step after db)) = Inr keys"
    using upsert_registry_keys[OF assms(1)] again key_dict_cong[of "reg_channels reg" "channel_key db'" vehicle "channel_key db" "[]"]
    by simp
qed

definition db_init :: pit_db where
  "db_init = \<lparr>pd_registries = [], pd_channels = [], pd_next_key = 1, pd_channel_map = [], pd_samples = [], pd_laps = [],
     pd_lap_sectors = [], pd_cursor = None, pd_sessions = [], pd_stints = []\<rparr>"

definition wit_channel :: "int \<Rightarrow> string \<Rightarrow> channel" where
  "wit_channel i nm = \<lparr>ch_id = i, ch_name = nm, ch_source_ref = nm, ch_units = [], ch_type = DOUBLE, ch_scale = 0, ch_offset = 0\<rparr>"

definition wit_gen :: "int \<Rightarrow> channel list \<Rightarrow> channel_registry" where
  "wit_gen seq chs = \<lparr>reg_seq = seq, reg_vehicle_id = ''car'', reg_created_unix_ms = 0, reg_channels = chs\<rparr>"

theorem channel_keys_are_identities_witness:
  "fst (upsert_registry ''car'' (wit_gen 1 [wit_channel 1 ''rpm'', wit_channel 2 ''oil''])
     (fold upsert_step [(''car'', wit_gen 2 [wit_channel 1 ''oil'', wit_channel 2 ''fuel''])]
       (snd (upsert_registry ''car'' (wit_gen 1 [wit_channel 1 ''rpm'', wit_channel 2 ''oil'']) db_init)))) = Inr [(1, 1), (2, 2)]"
proof -
  have "fst (upsert_registry ''car'' (wit_gen 1 [wit_channel 1 ''rpm'', wit_channel 2 ''oil'']) db_init) = Inr [(1, 1), (2, 2)]"
    by (simp add: db_init_def upsert_registry_def wit_gen_def wit_channel_def epoch_ms_to_datetime_def register_channel_def
        upsert_channel_def Let_def)
  then have "upsert_registry ''car'' (wit_gen 1 [wit_channel 1 ''rpm'', wit_channel 2 ''oil'']) (fold upsert_step [] db_init)
      = (Inr [(1, 1), (2, 2)], snd (upsert_registry ''car'' (wit_gen 1 [wit_channel 1 ''rpm'', wit_channel 2 ''oil'']) db_init))"
    by (simp add: prod_eq_iff)
  moreover have "pd_channels db_init = []" by (simp add: db_init_def)
  ultimately show ?thesis by (rule channel_keys_are_identities[THEN conjunct2])
qed

end
