(* ===== verification/Ingest_Writer.thy ===== *)
theory Ingest_Writer
  imports Ingest_Store
begin

text \<open>
  \<^verbatim>\<open>src/pit/ingest_writer/writer.py\<close>: the durable consumer that turns stream messages into rows.

  The record \<open>ingest_writer\<close> is the object together with what the outside sees of it: the database
  (\<open>iw_db\<close>), the sequence numbers acknowledged to the stream (\<open>iw_acked\<close>) and those of messages whose
  flush the database refused for good (\<open>iw_refused\<close>). An acknowledgement that fails is one the
  stream does not see, and the caller goes on, so it is only a redelivery later.

  One round of \<open>_consume\<close> is \<open>consume_pass\<close>; what it meets (the messages fetched, whether the flush
  timer has run out, how the database answers the two attempts of a flush, the registries on the
  catalog subject) is the record \<open>pass_input\<close>. An exception ends the process, and the next start reads
  the cursor from the database. Recording a registry is retried until it lands; the errors counted
  while it does not are left out, as are the lag and staleness figures of the health page.
\<close>

section \<open>Messages and rows\<close>

record 'w stream_msg =
  im_seq :: nat
  im_header :: "string option"
  im_subject :: string
  im_data :: 'w

definition MSG_TYPE_REGISTRY :: string where "MSG_TYPE_REGISTRY = ''registry''"

definition REGISTRY_SOURCE_CLASS :: string where "REGISTRY_SOURCE_CLASS = ''catalog''"

definition LAP_EVENT_CHANNEL :: string where "LAP_EVENT_CHANNEL = ''lap.event''"

definition AGENT_STATUS_CHANNEL :: string where "AGENT_STATUS_CHANNEL = ''sys.agent.status''"

definition is_registry :: "string \<Rightarrow> 'w stream_msg \<Rightarrow> bool" where
  "is_registry vehicle msg =
     (case im_header msg of
        Some h \<Rightarrow> if h \<noteq> [] then h = MSG_TYPE_REGISTRY
                  else im_subject msg = ''tele.'' @ vehicle @ ''.'' @ REGISTRY_SOURCE_CLASS
      | None \<Rightarrow> im_subject msg = ''tele.'' @ vehicle @ ''.'' @ REGISTRY_SOURCE_CLASS)"

record batch_rows =
  br_rows :: "sample_row list"
  br_lap_events :: "string list"
  br_agent_status :: bool
  br_dropped :: nat
  br_unresolved :: nat

definition batch_rows_init :: batch_rows where
  "batch_rows_init = \<lparr>br_rows = [], br_lap_events = [], br_agent_status = False, br_dropped = 0, br_unresolved = 0\<rparr>"

text \<open>The number and the text of a row; \<open>None\<close> when the sample carries no value.\<close>

fun row_value :: "sample_value option \<Rightarrow> (flt option \<times> string option) option" where
  "row_value (Some (VStr s)) = Some (None, Some s)"
| "row_value (Some (VBool b)) = Some (Some (Fin (of_bool b)), None)"
| "row_value (Some (VInt n)) = Some (Some (Fin (of_int n)), None)"
| "row_value (Some (VFloat f)) = Some (Some f, None)"
| "row_value None = None"

definition row_of_sample :: "(int \<times> int \<rightharpoonup> int) \<Rightarrow> int \<Rightarrow> decoded_sample \<Rightarrow> batch_rows \<Rightarrow> batch_rows res" where
  "row_of_sample keys seq smp br =
     (case keys (seq, ch_id (ds_channel smp)) of
        None \<Rightarrow> Inr (br\<lparr>br_unresolved := br_unresolved br + 1\<rparr>)
      | Some key \<Rightarrow>
          (case row_value (ds_value smp) of
             None \<Rightarrow> Inr (br\<lparr>br_dropped := br_dropped br + 1\<rparr>)
           | Some (number, txt) \<Rightarrow>
               sbind (fromtimestamp (Fin (ds_capture_unix_ms smp / 1000))) (\<lambda>t.
                 let br1 = br\<lparr>br_rows := br_rows br @ [(t, key, number, txt)]\<rparr> in
                 if ch_name (ds_channel smp) = LAP_EVENT_CHANNEL \<and> txt \<noteq> None
                 then Inr (br1\<lparr>br_lap_events := br_lap_events br1 @ [the txt]\<rparr>)
                 else if ch_name (ds_channel smp) = AGENT_STATUS_CHANNEL then Inr (br1\<lparr>br_agent_status := True\<rparr>)
                 else Inr br1)))"

fun rows_loop :: "(int \<times> int \<rightharpoonup> int) \<Rightarrow> int \<Rightarrow> decoded_sample list \<Rightarrow> batch_rows \<Rightarrow> batch_rows res" where
  "rows_loop keys seq [] br = Inr br"
| "rows_loop keys seq (smp # rest) br = sbind (row_of_sample keys seq smp br) (rows_loop keys seq rest)"

definition rows_from_batch :: "decoded_batch \<Rightarrow> (int \<times> int \<rightharpoonup> int) \<Rightarrow> batch_rows res" where
  "rows_from_batch batch keys = rows_loop keys (db_registry_seq batch) (db_samples batch) batch_rows_init"

section \<open>The writer\<close>

record writer_settings =
  ws_vehicle_id :: string
  ws_batch_rows :: nat
  ws_max_buffered_rows :: nat

text \<open>Code outside the repository: protobuf and the conversions of the standard library.\<close>

record 'w ingest_env =
  ie_settings :: writer_settings
  ie_pb :: "'w pb_runtime"
  ie_parse_registry :: "'w \<Rightarrow> channel_registry option"
  ie_loads :: "string \<Rightarrow> json option"
  ie_conv :: text_conv

record ingest_health =
  ih_flushes :: nat
  ih_rows_written :: nat
  ih_last_stream_seq :: nat
  ih_registries :: nat
  ih_messages_skipped :: nat
  ih_samples_dropped :: nat
  ih_unresolved_channels :: nat
  ih_unknown_seq_stalls :: nat
  ih_stalled :: bool
  ih_laps_written :: nat
  ih_sectors_written :: nat
  ih_laps_dropped :: nat
  ih_db_errors :: nat
  ih_data_errors :: nat
  ih_dropped_flushes :: nat

definition ingest_health_init :: ingest_health where
  "ingest_health_init = \<lparr>ih_flushes = 0, ih_rows_written = 0, ih_last_stream_seq = 0, ih_registries = 0,
     ih_messages_skipped = 0, ih_samples_dropped = 0, ih_unresolved_channels = 0, ih_unknown_seq_stalls = 0, ih_stalled = False,
     ih_laps_written = 0, ih_sectors_written = 0, ih_laps_dropped = 0, ih_db_errors = 0, ih_data_errors = 0,
     ih_dropped_flushes = 0\<rparr>"

record 'w ingest_writer =
  iw_cache :: registry_cache
  iw_laps :: materialiser
  iw_keys :: "int \<times> int \<rightharpoonup> int"
  iw_cursor :: nat
  iw_max_seq :: nat
  iw_rows :: "sample_row list"
  iw_lap_rows :: "lap_row list"
  iw_pit_updates :: "pit_status_update list"
  iw_pending :: "'w stream_msg list"
  iw_buffered :: "nat set"
  iw_held :: "'w stream_msg list"
  iw_paused :: bool
  iw_health :: ingest_health
  iw_sessions :: session_cache
  iw_db :: pit_db
  iw_acked :: "nat set"
  iw_refused :: "nat set"

definition ack :: "'w stream_msg \<Rightarrow> 'w ingest_writer \<Rightarrow> 'w ingest_writer" where
  "ack msg w = w\<lparr>iw_acked := insert (im_seq msg) (iw_acked w)\<rparr>"

definition count :: "(ingest_health \<Rightarrow> ingest_health) \<Rightarrow> 'w ingest_writer \<Rightarrow> 'w ingest_writer" where
  "count f w = w\<lparr>iw_health := f (iw_health w)\<rparr>"

section \<open>Registries\<close>

definition apply_registry :: "'w ingest_env \<Rightarrow> channel_registry \<Rightarrow> 'w ingest_writer \<Rightarrow> unit res \<times> 'w ingest_writer" where
  [op_defs]: "apply_registry env reg w =
     (case upsert_registry (ws_vehicle_id (ie_settings env)) reg (iw_db w) of
        (Inl e, db) \<Rightarrow> (Inl e, w)
      | (Inr keys, db) \<Rightarrow>
          (Inr (), w\<lparr>iw_db := db,
             iw_keys := fold (\<lambda>(i, k) m. m((reg_seq reg, i) \<mapsto> k)) keys (iw_keys w),
             iw_cache := snd (add_registry reg (iw_cache w))\<rparr>))"

fun scan_registries :: "'w ingest_env \<Rightarrow> 'w list \<Rightarrow> 'w ingest_writer \<Rightarrow> unit res \<times> 'w ingest_writer" where
  "scan_registries env [] w = (Inr (), w)"
| "scan_registries env (p # ps) w =
     (case ie_parse_registry env p of
        None \<Rightarrow> (Inl DecodeError, w)
      | Some reg \<Rightarrow> (case apply_registry env reg w of (Inl e, w1) \<Rightarrow> (Inl e, w1) | (Inr _, w1) \<Rightarrow> scan_registries env ps w1))"

section \<open>One message\<close>

definition materialise_lap :: "'w ingest_env \<Rightarrow> string \<Rightarrow> 'w ingest_writer \<Rightarrow> unit res \<times> 'w ingest_writer" where
  [op_defs]: "materialise_lap env payload w =
     (case observe_event (ie_conv env) (ie_loads env payload) (iw_laps w) of
        (Inl e, m) \<Rightarrow> (Inl e, w\<lparr>iw_laps := m\<rparr>)
      | (Inr None, m) \<Rightarrow> (Inr (), w\<lparr>iw_laps := m\<rparr>)
      | (Inr (Some (Lap r)), m) \<Rightarrow> (Inr (), w\<lparr>iw_laps := m, iw_lap_rows := iw_lap_rows w @ [r]\<rparr>)
      | (Inr (Some (PitStatus u)), m) \<Rightarrow> (Inr (), w\<lparr>iw_laps := m, iw_pit_updates := iw_pit_updates w @ [u]\<rparr>))"

fun materialise_laps :: "'w ingest_env \<Rightarrow> string list \<Rightarrow> 'w ingest_writer \<Rightarrow> unit res \<times> 'w ingest_writer" where
  "materialise_laps env [] w = (Inr (), w)"
| "materialise_laps env (p # ps) w =
     (case materialise_lap env p w of (Inl e, w1) \<Rightarrow> (Inl e, w1) | (Inr _, w1) \<Rightarrow> materialise_laps env ps w1)"

text \<open>What a decoded batch adds to the buffer.\<close>

definition buffer_batch ::
  "'w ingest_env \<Rightarrow> 'w stream_msg \<Rightarrow> batch_rows \<Rightarrow> 'w ingest_writer \<Rightarrow> unit res \<times> 'w ingest_writer" where
  [op_defs]: "buffer_batch env msg br w =
     (case materialise_laps env (br_lap_events br)
             (count (\<lambda>h. h\<lparr>ih_samples_dropped := ih_samples_dropped h + br_dropped br,
                          ih_unresolved_channels := ih_unresolved_channels h + br_unresolved br\<rparr>)
               (w\<lparr>iw_rows := iw_rows w @ br_rows br\<rparr>)) of
        (Inl e, w1) \<Rightarrow> (Inl e, w1)
      | (Inr _, w1) \<Rightarrow>
          (Inr (), w1\<lparr>iw_pending := iw_pending w1 @ [msg], iw_buffered := insert (im_seq msg) (iw_buffered w1),
                      iw_max_seq := max (iw_max_seq w1) (im_seq msg)\<rparr>))"

text \<open>\<open>_handle\<close>: the generation to stall on, if the batch names one that is not known.\<close>

definition handle :: "'w ingest_env \<Rightarrow> 'w stream_msg \<Rightarrow> 'w ingest_writer \<Rightarrow> int option res \<times> 'w ingest_writer" where
  [op_defs]: "handle env msg w =
     (if im_seq msg \<le> iw_cursor w \<or> im_seq msg \<in> iw_buffered w then
        (Inr None, count (\<lambda>h. h\<lparr>ih_messages_skipped := ih_messages_skipped h + 1\<rparr>) (ack msg w))
      else if is_registry (ws_vehicle_id (ie_settings env)) msg then
        (case ie_parse_registry env (im_data msg) of
           None \<Rightarrow> (Inl DecodeError, w)
         | Some reg \<Rightarrow>
             (case apply_registry env reg w of
                (Inl e, w1) \<Rightarrow> (Inl e, w1)
              | (Inr _, w1) \<Rightarrow> (Inr None, count (\<lambda>h. h\<lparr>ih_registries := ih_registries h + 1\<rparr>) (ack msg w1))))
      else case pb_parse (ie_pb env) (im_data msg) of
          None \<Rightarrow> (Inl DecodeError, w)
        | Some b \<Rightarrow>
            (case decode_batch b (iw_cache w) of
               ((None, reason), rc) \<Rightarrow>
                 (let w1 = w\<lparr>iw_cache := rc\<rparr> in
                  if reason = Some REJECT_UNKNOWN_SEQ then (Inr (Some (sb_registry_seq b)), w1)
                  else (Inr None, ack msg w1\<lparr>iw_max_seq := max (iw_max_seq w1) (im_seq msg)\<rparr>))
             | ((Some batch, _), rc) \<Rightarrow>
                 (let w1 = w\<lparr>iw_cache := rc\<rparr> in
                  case rows_from_batch batch (iw_keys w1) of
                    Inl e \<Rightarrow> (Inl e, w1)
                  | Inr br \<Rightarrow>
                      (case buffer_batch env msg br w1 of (Inl e, w2) \<Rightarrow> (Inl e, w2) | (Inr _, w2) \<Rightarrow> (Inr None, w2)))))"

section \<open>Flush\<close>

definition pending_work :: "'w ingest_writer \<Rightarrow> bool" where
  "pending_work w \<longleftrightarrow> iw_rows w \<noteq> [] \<or> iw_lap_rows w \<noteq> [] \<or> iw_pit_updates w \<noteq> [] \<or> iw_max_seq w > iw_cursor w"

definition write_flush :: "outcome \<Rightarrow> lap_row list \<Rightarrow> pit_status_update list \<Rightarrow> 'w ingest_writer \<Rightarrow> write_result \<times> 'w ingest_writer" where
  [op_defs]: "write_flush out laps pits w =
     (case store_flush out (iw_rows w) laps pits (iw_max_seq w) (iw_db w, iw_sessions w) of
        (r, db, sc) \<Rightarrow> (r, w\<lparr>iw_db := db, iw_sessions := sc\<rparr>))"

text \<open>A new connection forgets the sessions and stints it had found.\<close>

definition reconnect_db :: "'w ingest_writer \<Rightarrow> 'w ingest_writer" where
  "reconnect_db w = count (\<lambda>h. h\<lparr>ih_db_errors := ih_db_errors h + 1\<rparr>) (w\<lparr>iw_sessions := session_cache_init\<rparr>)"

definition ack_pending :: "'w ingest_writer \<Rightarrow> 'w ingest_writer" where
  "ack_pending w = fold ack (iw_pending w) w"

definition discard :: "'w ingest_writer \<Rightarrow> 'w ingest_writer" where
  "discard w = w\<lparr>iw_rows := [], iw_lap_rows := [], iw_pit_updates := [], iw_pending := [], iw_buffered := {},
     iw_paused := False\<rparr>"

definition advance :: "'w ingest_writer \<Rightarrow> 'w ingest_writer" where
  "advance w = w\<lparr>iw_cursor := max (iw_cursor w) (iw_max_seq w)\<rparr>"

definition flush_landed :: "bool \<Rightarrow> 'w ingest_writer \<Rightarrow> 'w ingest_writer" where
  "flush_landed laps_landed w0 =
     (let w = advance w0;
          w1 = count (\<lambda>h. let h1 = h\<lparr>ih_flushes := ih_flushes h + 1, ih_rows_written := ih_rows_written h + length (iw_rows w),
                               ih_last_stream_seq := max (ih_last_stream_seq h) (iw_cursor w)\<rparr> in
                 if laps_landed
                 then h1\<lparr>ih_laps_written := ih_laps_written h1 + length (iw_lap_rows w),
                         ih_sectors_written := ih_sectors_written h1 + (\<Sum>l\<leftarrow>iw_lap_rows w. length (lr_sectors l))\<rparr>
                 else h1\<lparr>ih_laps_dropped := ih_laps_dropped h1 + length (iw_lap_rows w)\<rparr>) w
      in discard (ack_pending w1))"

definition flush_refused :: "'w ingest_writer \<Rightarrow> 'w ingest_writer" where
  "flush_refused w0 =
     (let w = advance (count (\<lambda>h. h\<lparr>ih_dropped_flushes := ih_dropped_flushes h + 1,
                                    ih_laps_dropped := ih_laps_dropped h + length (iw_lap_rows w0)\<rparr>) w0);
          w1 = w\<lparr>iw_refused := iw_refused w \<union> im_seq ` set (iw_pending w)\<rparr>
      in discard (ack_pending w1))"

definition flush :: "outcome \<times> outcome \<Rightarrow> 'w ingest_writer \<Rightarrow> bool \<times> 'w ingest_writer" where
  [op_defs]: "flush outs w =
     (if \<not> pending_work w then (True, w)
      else case write_flush (fst outs) (iw_lap_rows w) (iw_pit_updates w) w of
          (Done, w1) \<Rightarrow> (True, flush_landed True w1)
        | (OperationalError, w1) \<Rightarrow> (False, reconnect_db w1)
        | (DatabaseError, w1) \<Rightarrow>
            (case write_flush (snd outs) [] [] (count (\<lambda>h. h\<lparr>ih_data_errors := ih_data_errors h + 1\<rparr>) w1) of
               (Done, w2) \<Rightarrow> (True, flush_landed False w2)
             | (OperationalError, w2) \<Rightarrow> (False, reconnect_db w2)
             | (DatabaseError, w2) \<Rightarrow> (False, flush_refused w2)))"

section \<open>The consume loop\<close>

fun handle_all ::
  "'w ingest_env \<Rightarrow> outcome \<times> outcome \<Rightarrow> 'w stream_msg list \<Rightarrow> 'w ingest_writer \<Rightarrow> int option res \<times> 'w ingest_writer" where
  "handle_all env outs [] w = (Inr None, w)"
| "handle_all env outs (m # ms) w =
     (case handle env m w of
        (Inl e, w1) \<Rightarrow> (Inl e, w1)
      | (Inr None, w1) \<Rightarrow> handle_all env outs ms w1
      | (Inr (Some barrier), w1) \<Rightarrow>
          (Inr (Some barrier),
           snd (flush outs (count (\<lambda>h. h\<lparr>ih_unknown_seq_stalls := ih_unknown_seq_stalls h + 1, ih_stalled := True\<rparr>)
             (w1\<lparr>iw_held := m # ms\<rparr>)))))"

definition recover_registry :: "'w ingest_env \<Rightarrow> 'w list \<Rightarrow> int \<Rightarrow> 'w ingest_writer \<Rightarrow> unit res \<times> 'w ingest_writer" where
  [op_defs]: "recover_registry env scan seq w =
     (case scan_registries env scan w of
        (Inl e, w1) \<Rightarrow> (Inl e, w1)
      | (Inr _, w1) \<Rightarrow> (Inr (), if known (iw_cache w1) seq then count (\<lambda>h. h\<lparr>ih_stalled := False\<rparr>) w1 else w1))"

record 'w pass_input =
  pin_fetched :: "'w stream_msg list"
  pin_due :: bool
  pin_outcomes :: "outcome \<times> outcome"
  pin_scan :: "'w list"

definition process_messages ::
  "'w ingest_env \<Rightarrow> 'w pass_input \<Rightarrow> 'w stream_msg list \<Rightarrow> 'w ingest_writer \<Rightarrow> unit res \<times> 'w ingest_writer" where
  [op_defs]: "process_messages env inp ms w =
     (case handle_all env (pin_outcomes inp) ms w of
        (Inl e, w1) \<Rightarrow> (Inl e, w1)
      | (Inr (Some barrier), w1) \<Rightarrow> recover_registry env (pin_scan inp) barrier w1
      | (Inr None, w1) \<Rightarrow>
          (Inr (), if length (iw_rows w1) \<ge> ws_batch_rows (ie_settings env) \<or> pin_due inp
                   then snd (flush (pin_outcomes inp) w1) else w1))"

definition consume_pass :: "'w ingest_env \<Rightarrow> 'w pass_input \<Rightarrow> 'w ingest_writer \<Rightarrow> unit res \<times> 'w ingest_writer" where
  [op_defs]: "consume_pass env inp w =
     (if iw_held w \<noteq> [] then process_messages env inp (iw_held w) (w\<lparr>iw_held := []\<rparr>)
      else if length (iw_rows w) \<ge> ws_max_buffered_rows (ie_settings env)
      then (Inr (), snd (flush (pin_outcomes inp) (w\<lparr>iw_paused := True\<rparr>)))
      else process_messages env inp (pin_fetched inp) w)"

text \<open>A start of the process on what the database and the stream hold.\<close>

definition writer_start :: "'w ingest_env \<Rightarrow> pit_db \<Rightarrow> nat set \<Rightarrow> nat set \<Rightarrow> 'w ingest_writer" where
  "writer_start env db acked refused =
     \<lparr>iw_cache = cache_init, iw_laps = materialiser_init (ws_vehicle_id (ie_settings env)), iw_keys = Map.empty,
      iw_cursor = read_cursor db, iw_max_seq = read_cursor db, iw_rows = [], iw_lap_rows = [], iw_pit_updates = [],
      iw_pending = [], iw_buffered = {}, iw_held = [], iw_paused = False, iw_health = ingest_health_init,
      iw_sessions = session_cache_init, iw_db = db, iw_acked = acked, iw_refused = refused\<rparr>"

datatype 'w ingest_event = Pass "'w pass_input" | Restart "'w list"

text \<open>A pass that ends in an exception ends the process; \<open>Restart\<close> is a start, whatever ended the
  previous one, with the registries its first scan finds. A start whose
  scan raises goes on here with what it had scanned; the process would be started again.\<close>

definition restart :: "'w ingest_env \<Rightarrow> 'w list \<Rightarrow> 'w ingest_writer \<Rightarrow> 'w ingest_writer" where
  "restart env scan w = snd (scan_registries env scan (writer_start env (iw_db w) (iw_acked w) (iw_refused w)))"

definition ingest_step :: "'w ingest_env \<Rightarrow> 'w ingest_event \<Rightarrow> 'w ingest_writer \<Rightarrow> 'w ingest_writer" where
  "ingest_step env ev w =
     (case ev of
        Pass inp \<Rightarrow> (case consume_pass env inp w of (Inr _, w1) \<Rightarrow> w1 | (Inl e, w1) \<Rightarrow> restart env [] w1)
      | Restart scan \<Rightarrow> restart env scan w)"

section \<open>What the operations leave alone\<close>

text \<open>The part of the state that decides what is written and acknowledged.\<close>

definition core where
  "core w = (iw_cursor w, iw_max_seq w, iw_rows w, iw_pending w, iw_buffered w, iw_held w,
     pd_samples (iw_db w), read_cursor (iw_db w), iw_acked w, iw_refused w)"

lemma core_iff:
  "core w = core w' \<longleftrightarrow> iw_cursor w = iw_cursor w' \<and> iw_max_seq w = iw_max_seq w' \<and> iw_rows w = iw_rows w'
     \<and> iw_pending w = iw_pending w' \<and> iw_buffered w = iw_buffered w' \<and> iw_held w = iw_held w'
     \<and> pd_samples (iw_db w) = pd_samples (iw_db w') \<and> read_cursor (iw_db w) = read_cursor (iw_db w')
     \<and> iw_acked w = iw_acked w' \<and> iw_refused w = iw_refused w'"
  by (auto simp: core_def)

lemma core_simps [simp]:
  "core (count f w) = core w" "core (w\<lparr>iw_cache := rc\<rparr>) = core w" "core (reconnect_db w) = core w"
  "core (w\<lparr>iw_paused := p\<rparr>) = core w"
  by (simp_all add: core_def count_def reconnect_db_def)

lemma core_apply_registry [simp]: "core (snd (apply_registry env reg w)) = core w"
proof (cases "upsert_registry (ws_vehicle_id (ie_settings env)) reg (iw_db w)")
  case (Pair r db)
  then have "same_rows (iw_db w) db" using upsert_registry_keys by blast
  then have "pd_samples db = pd_samples (iw_db w)" "read_cursor db = read_cursor (iw_db w)"
    by (simp_all add: same_rows_def read_cursor_def)
  with Pair show ?thesis by (cases r) (simp_all add: apply_registry_def core_def)
qed

lemma core_scan_registries [simp]: "core (snd (scan_registries env ps w)) = core w"
proof (induction ps arbitrary: w)
  case (Cons p ps)
  have "core w1 = core w" if "apply_registry env reg w = (r, w1)" for reg r w1
    using core_apply_registry[of env reg w] that by simp
  then show ?case using Cons.IH by (auto split: option.split prod.split sum.split)
qed simp

lemma core_materialise_laps [simp]: "core (snd (materialise_laps env ps w)) = core w"
proof (induction ps arbitrary: w)
  case (Cons p ps)
  have "core (snd (materialise_lap env p w)) = core w"
    by (auto simp: materialise_lap_def core_def split: prod.split sum.split option.split row.split)
  then have "core w1 = core w" if "materialise_lap env p w = (r, w1)" for r w1 using that by simp
  then show ?case using Cons.IH by (auto split: prod.split sum.split)
qed simp

lemma core_recover_registry [simp]: "core (snd (recover_registry env scan seq w)) = core w"
proof (cases "scan_registries env scan w")
  case (Pair r w1)
  with core_scan_registries[of env scan w] show ?thesis by (auto simp: recover_registry_def split: sum.split)
qed

section \<open>The contract of the stream and the database\<close>

definition batches :: "'w ingest_env \<Rightarrow> 'w stream_msg list \<Rightarrow> 'w stream_msg list" where
  "batches env stream = filter (\<lambda>m. \<not> is_registry (ws_vehicle_id (ie_settings env)) m) stream"

definition bad_version :: "'w ingest_env \<Rightarrow> 'w stream_msg \<Rightarrow> bool" where
  "bad_version env m =
     (case pb_parse (ie_pb env) (im_data m) of None \<Rightarrow> False | Some b \<Rightarrow> sb_format_version b \<notin> SUPPORTED_FORMAT_VERSIONS)"

text \<open>The rows a message gives with the registries known when it is handled.\<close>

definition rows_of_msg :: "'w ingest_env \<Rightarrow> 'w stream_msg \<Rightarrow> sample_row list \<Rightarrow> bool" where
  "rows_of_msg env m rows =
     (\<exists>b rc batch keys br. pb_parse (ie_pb env) (im_data m) = Some b \<and> fst (decode_batch b rc) = (Some batch, None)
        \<and> rows_from_batch batch keys = Inr br \<and> rows = br_rows br)"

text \<open>Each message comes after every earlier batch that still has to be delivered: it was seen, or it is in front.\<close>

fun in_order :: "'w stream_msg list \<Rightarrow> nat set \<Rightarrow> 'w stream_msg list \<Rightarrow> bool" where
  "in_order bs seen [] = True"
| "in_order bs seen (m # ms) =
     ((\<forall>s \<in> set bs. im_seq s < im_seq m \<longrightarrow> im_seq s \<in> seen) \<and> in_order bs (insert (im_seq m) seen) ms)"

definition seen :: "'w ingest_writer \<Rightarrow> nat set" where
  "seen w = {n. n \<le> iw_max_seq w} \<union> iw_acked w"

text \<open>A fetch in order, of messages of the stream, none twice and none whose rows wait to be written.\<close>

definition orderly :: "'w ingest_env \<Rightarrow> 'w stream_msg list \<Rightarrow> 'w stream_msg list \<Rightarrow> 'w ingest_writer \<Rightarrow> bool" where
  "orderly env stream ms w \<longleftrightarrow> set ms \<subseteq> set stream \<and> distinct (map im_seq ms)
     \<and> im_seq ` set ms \<inter> iw_buffered w = {} \<and> in_order (batches env stream) (seen w) ms"

fun orderly_event :: "'w ingest_env \<Rightarrow> 'w stream_msg list \<Rightarrow> 'w ingest_event \<Rightarrow> 'w ingest_writer \<Rightarrow> bool" where
  "orderly_event env stream (Pass inp) w \<longleftrightarrow>
     fst (pin_outcomes inp) \<noteq> Lost_After_Commit \<and> snd (pin_outcomes inp) \<noteq> Lost_After_Commit
     \<and> (iw_held w = [] \<longrightarrow> orderly env stream (pin_fetched inp) w)"
| "orderly_event env stream (Restart scan) w = True"

lemma in_order_mono: "in_order bs a ms \<Longrightarrow> a \<subseteq> b \<Longrightarrow> in_order bs b ms"
proof (induction ms arbitrary: a b)
  case (Cons m ms)
  from Cons.prems Cons.IH[of "insert (im_seq m) a" "insert (im_seq m) b"] show ?case by auto
qed simp

section \<open>Every batch once\<close>

text \<open>
  The log of the writer: \<open>c\<close> are the messages committed and \<open>b\<close> those buffered, each with its rows.
\<close>

type_synonym msg_log = "(nat \<times> sample_row list) list"

text \<open>The table holds the rows of the committed messages, the buffer those of the others.\<close>

definition rows_ok :: "msg_log \<Rightarrow> msg_log \<Rightarrow> 'w ingest_writer \<Rightarrow> bool" where
  "rows_ok c b w \<longleftrightarrow> pd_samples (iw_db w) = concat (map snd c) \<and> iw_rows w = concat (map snd b)
     \<and> map fst b = map im_seq (iw_pending w) \<and> iw_buffered w = fst ` set b"

definition seqs_ok :: "msg_log \<Rightarrow> msg_log \<Rightarrow> 'w ingest_writer \<Rightarrow> bool" where
  "seqs_ok c b w \<longleftrightarrow> distinct (map fst (c @ b)) \<and> (\<forall>n \<in> fst ` set c. n \<le> read_cursor (iw_db w))
     \<and> read_cursor (iw_db w) \<le> iw_cursor w \<and> iw_cursor w \<le> iw_max_seq w
     \<and> (\<forall>n \<in> fst ` set b. iw_cursor w < n \<and> n \<le> iw_max_seq w)"

definition sources_ok :: "'w ingest_env \<Rightarrow> 'w stream_msg list \<Rightarrow> msg_log \<Rightarrow> bool" where
  "sources_ok env stream l \<longleftrightarrow>
     (\<forall>e \<in> set l. \<exists>m \<in> set (batches env stream). im_seq m = fst e \<and> rows_of_msg env m (snd e))"

definition settled :: "'w ingest_env \<Rightarrow> msg_log \<Rightarrow> 'w ingest_writer \<Rightarrow> 'w stream_msg \<Rightarrow> bool" where
  "settled env l w m \<longleftrightarrow> im_seq m \<in> fst ` set l \<or> im_seq m \<in> iw_refused w \<or> bad_version env m"

definition covered :: "'w ingest_env \<Rightarrow> 'w stream_msg list \<Rightarrow> msg_log \<Rightarrow> 'w ingest_writer \<Rightarrow> bool" where
  "covered env stream l w \<longleftrightarrow> (\<forall>m \<in> set (batches env stream). im_seq m \<le> iw_max_seq w \<longrightarrow> settled env l w m)"

definition acks_ok :: "'w ingest_env \<Rightarrow> 'w stream_msg list \<Rightarrow> msg_log \<Rightarrow> 'w ingest_writer \<Rightarrow> bool" where
  "acks_ok env stream c w \<longleftrightarrow> (\<forall>m \<in> set (batches env stream). im_seq m \<in> iw_acked w \<longrightarrow> settled env c w m)"

definition log_ok :: "'w ingest_env \<Rightarrow> 'w stream_msg list \<Rightarrow> msg_log \<Rightarrow> msg_log \<Rightarrow> 'w ingest_writer \<Rightarrow> bool" where
  [inv_defs]: "log_ok env stream c b w \<longleftrightarrow>
     rows_ok c b w \<and> seqs_ok c b w \<and> sources_ok env stream (c @ b) \<and> covered env stream (c @ b) w \<and> acks_ok env stream c w"

lemmas log_parts = rows_ok_def seqs_ok_def sources_ok_def covered_def acks_ok_def settled_def

definition ingest_inv :: "'w ingest_env \<Rightarrow> 'w stream_msg list \<Rightarrow> 'w ingest_writer \<Rightarrow> bool" where
  [inv_defs]: "ingest_inv env stream w \<longleftrightarrow> (\<exists>c b. log_ok env stream c b w) \<and> orderly env stream (iw_held w) w"

lemma log_ok_cong: "core w = core w' \<Longrightarrow> log_ok env stream c b w = log_ok env stream c b w'"
  unfolding core_iff log_ok_def log_parts by simp

lemma orderly_cong: "core w = core w' \<Longrightarrow> orderly env stream ms w = orderly env stream ms w'"
  by (simp add: core_iff orderly_def seen_def)

lemma ingest_inv_cong: "core w = core w' \<Longrightarrow> ingest_inv env stream w = ingest_inv env stream w'"
  using log_ok_cong[of w w'] orderly_cong[of w w'] by (simp add: ingest_inv_def core_iff)

lemma log_ok_simps [simp]: "log_ok env stream c b (w\<lparr>iw_held := h\<rparr>) = log_ok env stream c b w"
  by (simp add: log_ok_def log_parts)

lemma orderly_held [simp]: "orderly env stream ms (w\<lparr>iw_held := h\<rparr>) = orderly env stream ms w"
  by (simp add: orderly_def seen_def)

subsection \<open>A start\<close>

definition durable where
  "durable w = (pd_samples (iw_db w), read_cursor (iw_db w), iw_acked w, iw_refused w)"

lemma durable_core: "core w = core w' \<Longrightarrow> durable w = durable w'"
  by (simp add: core_iff durable_def)

lemma settled_append: "settled env (c @ b) w m \<longleftrightarrow> settled env c w m \<or> im_seq m \<in> fst ` set b"
  by (auto simp: settled_def)

text \<open>Up to the cursor nothing is only buffered.\<close>

lemma committed_below:
  assumes "log_ok env stream c b w" "m \<in> set (batches env stream)" "im_seq m \<le> iw_cursor w"
  shows "settled env c w m"
proof -
  from assms(1) have q: "seqs_ok c b w" and "covered env stream (c @ b) w" by (simp_all add: log_ok_def)
  with assms(2,3) have "settled env (c @ b) w m" by (simp add: covered_def seqs_ok_def)
  moreover from q assms(3) have "im_seq m \<notin> fst ` set b" by (fastforce simp: seqs_ok_def)
  ultimately show ?thesis by (simp add: settled_append)
qed

lemma start_log:
  assumes "log_ok env stream c b w" "durable w = durable w'"
  shows "log_ok env stream c [] (writer_start env (iw_db w') (iw_acked w') (iw_refused w'))" (is "log_ok _ _ _ _ ?s")
proof -
  from assms(1) have parts: "rows_ok c b w" "seqs_ok c b w" "sources_ok env stream (c @ b)" "acks_ok env stream c w"
    by (simp_all add: log_ok_def)
  have "settled env c w m" if "m \<in> set (batches env stream)" "im_seq m \<le> read_cursor (iw_db w)" for m
    using committed_below[OF assms(1) that(1)] that(2) parts(2) by (simp add: seqs_ok_def)
  then have "covered env stream (c @ []) ?s"
    using assms(2) by (simp add: covered_def settled_def durable_def writer_start_def)
  moreover have "rows_ok c [] ?s" using parts(1) assms(2) by (simp add: rows_ok_def durable_def writer_start_def)
  moreover have "seqs_ok c [] ?s" using parts(2) assms(2) by (simp add: seqs_ok_def durable_def writer_start_def)
  moreover have "sources_ok env stream (c @ [])" using parts(3) by (simp add: sources_ok_def)
  moreover have "acks_ok env stream c ?s"
    using parts(4) assms(2) by (simp add: acks_ok_def settled_def durable_def writer_start_def)
  ultimately show ?thesis by (simp add: log_ok_def)
qed

text \<open>What is on disk and with the stream is enough to go on after a crash.\<close>

definition recoverable :: "'w ingest_env \<Rightarrow> 'w stream_msg list \<Rightarrow> 'w ingest_writer \<Rightarrow> bool" where
  "recoverable env stream w' \<longleftrightarrow> (\<exists>c b w. log_ok env stream c b w \<and> durable w = durable w')"

lemma recoverableI: "log_ok env stream c b w \<Longrightarrow> durable w = durable w' \<Longrightarrow> recoverable env stream w'"
  unfolding recoverable_def by blast

lemma restart_inv:
  assumes "recoverable env stream w'"
  shows "ingest_inv env stream (restart env scan w')"
proof -
  from assms obtain c b w where log: "log_ok env stream c b w" "durable w = durable w'"
    unfolding recoverable_def by blast
  have core: "core (restart env scan w') = core (writer_start env (iw_db w') (iw_acked w') (iw_refused w'))"
    by (simp add: restart_def)
  have "ingest_inv env stream (writer_start env (iw_db w') (iw_acked w') (iw_refused w'))"
    unfolding ingest_inv_def using start_log[OF log] by (auto simp: orderly_def writer_start_def)
  then show ?thesis using ingest_inv_cong[OF core] by blast
qed

subsection \<open>A message\<close>

lemma distinct_seq: "distinct (map im_seq stream) \<Longrightarrow> m \<in> set stream \<Longrightarrow> m' \<in> set stream \<Longrightarrow> im_seq m = im_seq m' \<Longrightarrow> m = m'"
  by (meson distinct_map inj_onD)

lemma log_ack:
  assumes "log_ok env stream c b w"
    and "\<And>m. m \<in> set (batches env stream) \<Longrightarrow> im_seq m = im_seq msg \<Longrightarrow> settled env c w m"
  shows "log_ok env stream c b (ack msg w)"
proof -
  have "acks_ok env stream c (ack msg w)"
    using assms by (auto simp: log_ok_def acks_ok_def settled_def ack_def)
  moreover have "rows_ok c b (ack msg w) = rows_ok c b w" "seqs_ok c b (ack msg w) = seqs_ok c b w"
    "covered env stream (c @ b) (ack msg w) = covered env stream (c @ b) w"
    by (simp_all add: rows_ok_def seqs_ok_def covered_def settled_def ack_def)
  ultimately show ?thesis using assms(1) by (simp add: log_ok_def)
qed

text \<open>A message in order extends what is covered.\<close>

lemma covered_advance:
  assumes log: "log_ok env stream c b w"
    and ord: "\<forall>s \<in> set (batches env stream). im_seq s < im_seq msg \<longrightarrow> im_seq s \<in> seen w"
    and m: "m \<in> set (batches env stream)" "im_seq m \<le> max (iw_max_seq w) (im_seq msg)" "im_seq m \<noteq> im_seq msg"
  shows "settled env (c @ b) w m"
proof (cases "im_seq m \<le> iw_max_seq w")
  case True
  with log m(1) show ?thesis by (simp add: log_ok_def covered_def)
next
  case False
  with ord m have "im_seq m \<in> iw_acked w" by (auto simp: seen_def)
  with log m(1) show ?thesis by (simp add: log_ok_def acks_ok_def settled_append)
qed

lemma log_bad_version:
  assumes log: "log_ok env stream c b w" and "distinct (map im_seq stream)" "msg \<in> set stream"
    and ord: "\<forall>s \<in> set (batches env stream). im_seq s < im_seq msg \<longrightarrow> im_seq s \<in> seen w" and "bad_version env msg"
  shows "log_ok env stream c b (ack msg (w\<lparr>iw_max_seq := max (iw_max_seq w) (im_seq msg)\<rparr>))"
proof (rule log_ack)
  let ?w = "w\<lparr>iw_max_seq := max (iw_max_seq w) (im_seq msg)\<rparr>"
  have same: "bad_version env m" if "m \<in> set (batches env stream)" "im_seq m = im_seq msg" for m
    using distinct_seq[OF assms(2), of m msg] that assms(3,5) by (auto simp: batches_def)
  have "settled env (c @ b) ?w m" if "m \<in> set (batches env stream)" "im_seq m \<le> max (iw_max_seq w) (im_seq msg)" for m
    using covered_advance[OF log ord that] same[OF that(1)] by (auto simp: settled_def)
  then have "covered env stream (c @ b) ?w" by (simp add: covered_def)
  moreover have "seqs_ok c b ?w" using log by (auto simp: log_ok_def seqs_ok_def)
  moreover have "rows_ok c b ?w = rows_ok c b w" "acks_ok env stream c ?w = acks_ok env stream c w"
    by (simp_all add: rows_ok_def acks_ok_def settled_def)
  ultimately show "log_ok env stream c b ?w" using log by (simp add: log_ok_def)
  show "settled env c ?w m" if "m \<in> set (batches env stream)" "im_seq m = im_seq msg" for m
    using same[OF that] by (simp add: settled_def)
qed

lemma log_buffer:
  assumes log: "log_ok env stream c b w" and "msg \<in> set (batches env stream)"
    and ord: "\<forall>s \<in> set (batches env stream). im_seq s < im_seq msg \<longrightarrow> im_seq s \<in> seen w"
    and new: "iw_cursor w < im_seq msg" "im_seq msg \<notin> iw_buffered w" and rows: "rows_of_msg env msg rows"
    and w': "w' = w\<lparr>iw_rows := iw_rows w @ rows, iw_pending := iw_pending w @ [msg], iw_buffered := insert (im_seq msg) (iw_buffered w),
        iw_max_seq := max (iw_max_seq w) (im_seq msg)\<rparr>"
  shows "log_ok env stream c (b @ [(im_seq msg, rows)]) w'"
proof -
  from log have parts: "rows_ok c b w" "seqs_ok c b w" "sources_ok env stream (c @ b)" "acks_ok env stream c w"
    by (simp_all add: log_ok_def)
  have "settled env (c @ b @ [(im_seq msg, rows)]) w' m"
    if "m \<in> set (batches env stream)" "im_seq m \<le> max (iw_max_seq w) (im_seq msg)" for m
    using covered_advance[OF log ord that] by (cases "im_seq m = im_seq msg") (auto simp: settled_def w')
  then have "covered env stream (c @ b @ [(im_seq msg, rows)]) w'" by (simp add: covered_def w')
  moreover have "im_seq msg \<notin> fst ` set b" using parts(1) new(2) by (simp add: rows_ok_def)
  then have "seqs_ok c (b @ [(im_seq msg, rows)]) w'"
    using parts(2) new(1) by (fastforce simp: seqs_ok_def w')
  moreover have "rows_ok c (b @ [(im_seq msg, rows)]) w'" using parts(1) by (simp add: rows_ok_def w')
  moreover have "sources_ok env stream (c @ b @ [(im_seq msg, rows)])"
    using parts(3) rows assms(2) by (auto simp: sources_ok_def)
  moreover have "acks_ok env stream c w'" using parts(4) by (simp add: acks_ok_def settled_def w')
  ultimately show ?thesis by (simp add: log_ok_def)
qed

lemma buffer_batch_core:
  assumes "buffer_batch env msg br w = (r, w')"
  shows "case r of Inl e \<Rightarrow> durable w' = durable w
    | Inr _ \<Rightarrow> core w' = core (w\<lparr>iw_rows := iw_rows w @ br_rows br, iw_pending := iw_pending w @ [msg],
        iw_buffered := insert (im_seq msg) (iw_buffered w), iw_max_seq := max (iw_max_seq w) (im_seq msg)\<rparr>)"
proof -
  define w0 where "w0 = count (\<lambda>h. h\<lparr>ih_samples_dropped := ih_samples_dropped h + br_dropped br,
      ih_unresolved_channels := ih_unresolved_channels h + br_unresolved br\<rparr>) (w\<lparr>iw_rows := iw_rows w @ br_rows br\<rparr>)"
  obtain q w1 where m: "materialise_laps env (br_lap_events br) w0 = (q, w1)" by (rule prod.exhaust)
  then have c: "core w1 = core (w\<lparr>iw_rows := iw_rows w @ br_rows br\<rparr>)"
    using core_materialise_laps[of env "br_lap_events br" w0] by (simp add: w0_def)
  show ?thesis
    using assms m c by (cases q) (auto simp: buffer_batch_def w0_def[symmetric] core_iff durable_def)
qed

text \<open>What one message does to the log, by the way it is handled.\<close>

definition handled ::
  "'w ingest_env \<Rightarrow> 'w stream_msg list \<Rightarrow> msg_log \<Rightarrow> 'w stream_msg \<Rightarrow> 'w ingest_writer \<Rightarrow> int option res \<times> 'w ingest_writer \<Rightarrow> bool" where
  "handled env stream c msg w res =
     (case res of
        (Inl e, w') \<Rightarrow> durable w' = durable w
      | (Inr None, w') \<Rightarrow> (\<exists>b'. log_ok env stream c b' w') \<and> iw_held w' = iw_held w \<and> insert (im_seq msg) (seen w) \<subseteq> seen w'
          \<and> iw_buffered w' \<subseteq> insert (im_seq msg) (iw_buffered w)
      | (Inr (Some k), w') \<Rightarrow> core w' = core w)"

lemma handled_core:
  assumes "log_ok env stream c b w1" "core w' = core w1" "iw_held w1 = iw_held w" "insert (im_seq msg) (seen w) \<subseteq> seen w1"
    "iw_buffered w1 \<subseteq> insert (im_seq msg) (iw_buffered w)"
  shows "handled env stream c msg w (Inr None, w')"
  using assms log_ok_cong[OF assms(2)] by (auto simp: handled_def core_iff seen_def)

lemma handled_ack:
  assumes "log_ok env stream c b w" "core w' = core (ack msg w)"
    and "\<And>m. m \<in> set (batches env stream) \<Longrightarrow> im_seq m = im_seq msg \<Longrightarrow> settled env c w m"
  shows "handled env stream c msg w (Inr None, w')"
  using log_ack[OF assms(1,3)] assms(2) by (rule handled_core) (auto simp: ack_def seen_def)

lemma handle_registry_log:
  assumes log: "log_ok env stream c b w" and st: "distinct (map im_seq stream)" "msg \<in> set stream"
    and new: "iw_cursor w < im_seq msg" "im_seq msg \<notin> iw_buffered w" "is_registry (ws_vehicle_id (ie_settings env)) msg"
  shows "handled env stream c msg w (handle env msg w)"
proof (cases "ie_parse_registry env (im_data msg)")
  case None
  with new show ?thesis by (simp add: handle_def handled_def)
next
  case (Some rg)
  obtain q w1 where a: "apply_registry env rg w = (q, w1)" by (rule prod.exhaust)
  then have c1: "core w1 = core w" using core_apply_registry[of env rg w] by simp
  show ?thesis
  proof (cases q)
    case (Inl e)
    with new Some a have "handle env msg w = (Inl e, w1)" by (simp add: handle_def)
    with durable_core[OF c1] show ?thesis by (simp add: handled_def)
  next
    case (Inr u)
    with new Some a have "handle env msg w = (Inr None, count (\<lambda>h. h\<lparr>ih_registries := ih_registries h + 1\<rparr>) (ack msg w1))"
      by (simp add: handle_def)
    moreover have "core (count (\<lambda>h. h\<lparr>ih_registries := ih_registries h + 1\<rparr>) (ack msg w1)) = core (ack msg w)"
      using c1 by (simp add: core_iff ack_def)
    moreover have "settled env c w m" if "m \<in> set (batches env stream)" "im_seq m = im_seq msg" for m
      using distinct_seq[OF st(1)] st(2) new(3) that by (auto simp: batches_def)
    ultimately show ?thesis using handled_ack[OF log] by simp
  qed
qed

lemma handle_decoded_log:
  assumes log: "log_ok env stream c b w" and st: "msg \<in> set (batches env stream)"
    and ord: "\<forall>s \<in> set (batches env stream). im_seq s < im_seq msg \<longrightarrow> im_seq s \<in> seen w"
    and new: "iw_cursor w < im_seq msg" "im_seq msg \<notin> iw_buffered w"
    and parse: "pb_parse (ie_pb env) (im_data msg) = Some bt" and d: "decode_batch bt (iw_cache w) = ((Some bd, None), rc)"
  shows "handled env stream c msg w (handle env msg w)"
proof (cases "rows_from_batch bd (iw_keys w)")
  case (Inl e)
  with st new parse d show ?thesis by (simp add: handle_def handled_def batches_def durable_def)
next
  case (Inr br)
  obtain q w2 where bb: "buffer_batch env msg br (w\<lparr>iw_cache := rc\<rparr>) = (q, w2)" by (rule prod.exhaust)
  note bc = buffer_batch_core[OF bb]
  show ?thesis
  proof (cases q)
    case (Inl e)
    with st new parse d Inr bb have "handle env msg w = (Inl e, w2)" by (simp add: handle_def batches_def Let_def)
    with bc Inl show ?thesis by (simp add: handled_def durable_def)
  next
    case (Inr u)
    with st new parse d \<open>rows_from_batch bd (iw_keys w) = Inr br\<close> bb have h: "handle env msg w = (Inr None, w2)"
      by (simp add: handle_def batches_def Let_def)
    define w3 where "w3 = w\<lparr>iw_rows := iw_rows w @ br_rows br, iw_pending := iw_pending w @ [msg],
        iw_buffered := insert (im_seq msg) (iw_buffered w), iw_max_seq := max (iw_max_seq w) (im_seq msg)\<rparr>"
    have "rows_of_msg env msg (br_rows br)"
      using parse d \<open>rows_from_batch bd (iw_keys w) = Inr br\<close> unfolding rows_of_msg_def by (metis fst_conv)
    then have "log_ok env stream c (b @ [(im_seq msg, br_rows br)]) w3"
      by (rule log_buffer[OF log st ord new _ w3_def])
    moreover have "core w2 = core w3" using bc Inr by (simp add: core_iff w3_def)
    ultimately show ?thesis unfolding h by (rule handled_core) (auto simp: w3_def seen_def)
  qed
qed

lemma handle_batch_log:
  assumes log: "log_ok env stream c b w" and st: "distinct (map im_seq stream)" "msg \<in> set (batches env stream)"
    and ord: "\<forall>s \<in> set (batches env stream). im_seq s < im_seq msg \<longrightarrow> im_seq s \<in> seen w"
    and new: "iw_cursor w < im_seq msg" "im_seq msg \<notin> iw_buffered w"
  shows "handled env stream c msg w (handle env msg w)"
proof (cases "pb_parse (ie_pb env) (im_data msg)")
  case None
  with st new show ?thesis by (simp add: handle_def handled_def batches_def)
next
  case (Some bt)
  show ?thesis
  proof (cases rule: decode_batch_cases[of bt "iw_cache w"])
    case bad
    obtain rc where d: "decode_batch bt (iw_cache w) = ((None, Some REJECT_BAD_VERSION), rc)"
      using bad(2) by (metis prod.collapse)
    let ?w = "ack msg (w\<lparr>iw_max_seq := max (iw_max_seq w) (im_seq msg)\<rparr>)"
    obtain w' where h: "handle env msg w = (Inr None, w')" "core w' = core ?w"
      using d Some st new
      by (simp add: handle_def batches_def REJECT_BAD_VERSION_def REJECT_UNKNOWN_SEQ_def core_def ack_def Let_def)
    have "bad_version env msg" using bad(1) Some by (simp add: bad_version_def SUPPORTED_FORMAT_VERSIONS_def)
    then have "log_ok env stream c b ?w" using log_bad_version[OF log st(1) _ ord] st(2) by (simp add: batches_def)
    then show ?thesis unfolding h(1) using h(2) by (rule handled_core) (auto simp: ack_def seen_def)
  next
    case unknown
    then obtain rc where "decode_batch bt (iw_cache w) = ((None, Some REJECT_UNKNOWN_SEQ), rc)" by (metis prod.collapse)
    with Some st new show ?thesis by (simp add: handle_def handled_def batches_def Let_def)
  next
    case (ok chs)
    then obtain bd rc where "decode_batch bt (iw_cache w) = ((Some bd, None), rc)" by (metis prod.collapse)
    with handle_decoded_log[OF log st(2) ord new Some] show ?thesis by blast
  qed
qed

lemma handle_log:
  assumes log: "log_ok env stream c b w" and st: "distinct (map im_seq stream)" "msg \<in> set stream"
    and ord: "\<forall>s \<in> set (batches env stream). im_seq s < im_seq msg \<longrightarrow> im_seq s \<in> seen w"
    and fresh: "im_seq msg \<notin> iw_buffered w"
  shows "handled env stream c msg w (handle env msg w)"
proof (cases "im_seq msg \<le> iw_cursor w")
  case True
  then have "handle env msg w = (Inr None, count (\<lambda>h. h\<lparr>ih_messages_skipped := ih_messages_skipped h + 1\<rparr>) (ack msg w))"
    by (simp add: handle_def)
  moreover have "settled env c w m" if "m \<in> set (batches env stream)" "im_seq m = im_seq msg" for m
    using committed_below[OF log that(1)] that(2) True by simp
  ultimately show ?thesis using handled_ack[OF log] by simp
next
  case False
  then show ?thesis
    using handle_registry_log[OF log st _ fresh] handle_batch_log[OF log st(1) _ ord _ fresh] st(2)
    by (cases "is_registry (ws_vehicle_id (ie_settings env)) msg") (auto simp: batches_def)
qed

subsection \<open>A flush\<close>

lemma write_flush_cases:
  assumes "write_flush out laps pits w = (r, w')" "out \<noteq> Lost_After_Commit"
  shows "if r = Done
    then \<exists>db sc. w' = w\<lparr>iw_db := db, iw_sessions := sc\<rparr> \<and> pd_samples db = pd_samples (iw_db w) @ iw_rows w
           \<and> read_cursor db = max (read_cursor (iw_db w)) (iw_max_seq w)
    else core w' = core w \<and> iw_lap_rows w' = iw_lap_rows w"
proof (cases out)
  case Committed
  obtain db sc where a: "apply_flush (iw_rows w) laps pits (iw_max_seq w) (iw_db w, iw_sessions w) = (db, sc)" by (rule prod.exhaust)
  have "r = Done" "w' = w\<lparr>iw_db := db, iw_sessions := sc\<rparr>"
    using assms(1) Committed a by (simp_all add: write_flush_def store_flush_def)
  moreover have "pd_samples db = pd_samples (iw_db w) @ iw_rows w" "read_cursor db = max (read_cursor (iw_db w)) (iw_max_seq w)"
    using apply_flush_written[of "iw_rows w" laps pits "iw_max_seq w" "iw_db w" "iw_sessions w"] a by simp_all
  ultimately show ?thesis by auto
qed (use assms in \<open>auto simp: write_flush_def store_flush_def core_def\<close>)

lemma ack_pending_simps:
  "ack_pending w = w\<lparr>iw_acked := iw_acked w \<union> im_seq ` set (iw_pending w)\<rparr>"
proof -
  have "fold ack ms w = w\<lparr>iw_acked := iw_acked w \<union> im_seq ` set ms\<rparr>" for ms and w :: "'w ingest_writer"
    by (induction ms arbitrary: w) (simp_all add: ack_def)
  then show ?thesis by (simp add: ack_pending_def)
qed

lemma flush_landed_core:
  "core (flush_landed l w) =
     (max (iw_cursor w) (iw_max_seq w), iw_max_seq w, [], [], {}, iw_held w, pd_samples (iw_db w), read_cursor (iw_db w),
      iw_acked w \<union> im_seq ` set (iw_pending w), iw_refused w)"
  by (simp add: flush_landed_def Let_def core_def discard_def ack_pending_simps count_def advance_def)

lemma flush_refused_core:
  "core (flush_refused w) =
     (max (iw_cursor w) (iw_max_seq w), iw_max_seq w, [], [], {}, iw_held w, pd_samples (iw_db w), read_cursor (iw_db w),
      iw_acked w \<union> im_seq ` set (iw_pending w), iw_refused w \<union> im_seq ` set (iw_pending w))"
  by (simp add: flush_refused_def Let_def core_def discard_def ack_pending_simps count_def advance_def)

lemma log_landed:
  assumes log: "log_ok env stream c b w"
    and db: "pd_samples db = pd_samples (iw_db w) @ iw_rows w" "read_cursor db = max (read_cursor (iw_db w)) (iw_max_seq w)"
  shows "log_ok env stream (c @ b) [] (flush_landed l (w\<lparr>iw_db := db, iw_sessions := sc\<rparr>))" (is "log_ok _ _ _ _ ?w")
proof -
  from log have parts: "rows_ok c b w" "seqs_ok c b w" "sources_ok env stream (c @ b)" "covered env stream (c @ b) w" "acks_ok env stream c w"
    by (simp_all add: log_ok_def)
  note core = flush_landed_core[of l "w\<lparr>iw_db := db, iw_sessions := sc\<rparr>", unfolded core_def, simplified]
  have "rows_ok (c @ b) [] ?w" using parts(1) db by (simp add: rows_ok_def core)
  moreover have "seqs_ok (c @ b) [] ?w" using parts(2) db by (fastforce simp: seqs_ok_def core)
  moreover have "covered env stream ((c @ b) @ []) ?w" using parts(4) by (simp add: covered_def settled_def core)
  moreover have "im_seq ` set (iw_pending w) = fst ` set b" using parts(1) by (metis rows_ok_def list.set_map)
  then have "acks_ok env stream (c @ b) ?w"
    using parts(5) by (auto simp: acks_ok_def settled_def core)
  ultimately show ?thesis using parts(3) by (simp add: log_ok_def)
qed

lemma log_refused:
  assumes log: "log_ok env stream c b w" shows "log_ok env stream c [] (flush_refused w)" (is "log_ok _ _ _ _ ?w")
proof -
  from log have parts: "rows_ok c b w" "seqs_ok c b w" "sources_ok env stream (c @ b)" "covered env stream (c @ b) w" "acks_ok env stream c w"
    by (simp_all add: log_ok_def)
  note core = flush_refused_core[of w, unfolded core_def, simplified]
  have pend: "im_seq ` set (iw_pending w) = fst ` set b" using parts(1) by (metis rows_ok_def list.set_map)
  have "rows_ok c [] ?w" using parts(1) by (simp add: rows_ok_def core)
  moreover have "seqs_ok c [] ?w" using parts(2) by (fastforce simp: seqs_ok_def core)
  moreover have "sources_ok env stream (c @ [])" using parts(3) by (simp add: sources_ok_def)
  moreover have "covered env stream (c @ []) ?w" using parts(4) pend by (auto simp: covered_def settled_def core)
  moreover have "acks_ok env stream c ?w" using parts(5) pend by (auto simp: acks_ok_def settled_def core)
  ultimately show ?thesis by (simp add: log_ok_def)
qed

lemma orderly_after_flush:
  assumes "orderly env stream (iw_held w) w" "iw_held w' = iw_held w" "iw_buffered w' = {}" "iw_max_seq w' = iw_max_seq w"
    "iw_acked w \<subseteq> iw_acked w'"
  shows "orderly env stream (iw_held w') w'"
  using assms by (auto simp: orderly_def seen_def elim!: in_order_mono)

lemma landed_inv:
  assumes "ingest_inv env stream w" "write_flush out laps pits w = (Done, w1)" "out \<noteq> Lost_After_Commit"
  shows "ingest_inv env stream (flush_landed l w1)"
proof -
  from write_flush_cases[OF assms(2,3)] obtain db sc where w1: "w1 = w\<lparr>iw_db := db, iw_sessions := sc\<rparr>"
      "pd_samples db = pd_samples (iw_db w) @ iw_rows w" "read_cursor db = max (read_cursor (iw_db w)) (iw_max_seq w)" by auto
  from assms(1) obtain c b where "log_ok env stream c b w" by (auto simp: ingest_inv_def)
  then have "log_ok env stream (c @ b) [] (flush_landed l w1)" unfolding w1(1) by (rule log_landed[OF _ w1(2,3)])
  moreover have "orderly env stream (iw_held (flush_landed l w1)) (flush_landed l w1)"
    by (rule orderly_after_flush[where w = w])
      (use assms(1) flush_landed_core[of l w1] w1 in \<open>auto simp: ingest_inv_def core_def\<close>)
  ultimately show ?thesis by (auto simp: ingest_inv_def)
qed

lemma refused_inv:
  assumes "ingest_inv env stream w" shows "ingest_inv env stream (flush_refused w)"
proof -
  from assms obtain c b where "log_ok env stream c b w" by (auto simp: ingest_inv_def)
  then have "log_ok env stream c [] (flush_refused w)" by (rule log_refused)
  moreover have "orderly env stream (iw_held (flush_refused w)) (flush_refused w)"
    by (rule orderly_after_flush[where w = w])
      (use assms flush_refused_core[of w] in \<open>auto simp: ingest_inv_def core_def\<close>)
  ultimately show ?thesis by (auto simp: ingest_inv_def)
qed

lemma flush_inv:
  assumes inv: "ingest_inv env stream w" and outs: "fst outs \<noteq> Lost_After_Commit" "snd outs \<noteq> Lost_After_Commit"
  shows "ingest_inv env stream (snd (flush outs w))"
proof -
  obtain r1 w1 where f1: "write_flush (fst outs) (iw_lap_rows w) (iw_pit_updates w) w = (r1, w1)" by (rule prod.exhaust)
  define w1' where "w1' = count (\<lambda>h. h\<lparr>ih_data_errors := ih_data_errors h + 1\<rparr>) w1"
  obtain r2 w2 where f2: "write_flush (snd outs) [] [] w1' = (r2, w2)" by (rule prod.exhaust)
  have inv1: "ingest_inv env stream w1" "ingest_inv env stream w1'" if "r1 \<noteq> Done"
    using write_flush_cases[OF f1 outs(1)] that inv ingest_inv_cong[of w1 w] ingest_inv_cong[of w1' w1] by (simp_all add: w1'_def)
  have inv2: "ingest_inv env stream w2" if "r1 \<noteq> Done" "r2 \<noteq> Done"
    using write_flush_cases[OF f2 outs(2)] that inv1(2) ingest_inv_cong[of w2 w1'] by simp
  have cong: "ingest_inv env stream (reconnect_db v)" if "ingest_inv env stream v" for v
    using that ingest_inv_cong[of "reconnect_db v" v] by simp
  have land1: "ingest_inv env stream (flush_landed True w1)" if "r1 = Done"
    using landed_inv[OF inv _ outs(1)] f1 that by blast
  have land2: "ingest_inv env stream (flush_landed False w2)" if "r1 \<noteq> Done" "r2 = Done"
    using landed_inv[OF inv1(2) _ outs(2)] f2 that by blast
  show ?thesis
    using f1 f2[unfolded w1'_def] inv land1 land2 inv1 inv2 cong refused_inv[of env stream w2]
    by (cases r1; cases r2) (simp_all add: flush_def)
qed

subsection \<open>A pass\<close>

lemma orderly_tail:
  assumes "orderly env stream (m # ms) w" "insert (im_seq m) (seen w) \<subseteq> seen w'" "iw_buffered w' \<subseteq> insert (im_seq m) (iw_buffered w)"
  shows "orderly env stream ms w'"
proof -
  have "im_seq ` set ms \<inter> iw_buffered w' \<subseteq> im_seq ` set ms \<inter> insert (im_seq m) (iw_buffered w)" using assms(3) by blast
  moreover have "im_seq ` set ms \<inter> insert (im_seq m) (iw_buffered w) = {}" using assms(1) by (auto simp: orderly_def)
  ultimately show ?thesis using assms(1,2) by (auto simp: orderly_def elim!: in_order_mono)
qed

lemma handle_all_inv:
  assumes "log_ok env stream c b w" "orderly env stream ms w" "iw_held w = []" and st: "distinct (map im_seq stream)"
    and outs: "fst outs \<noteq> Lost_After_Commit" "snd outs \<noteq> Lost_After_Commit"
    and "handle_all env outs ms w = (r, w')"
  shows "case r of Inl e \<Rightarrow> recoverable env stream w' | Inr _ \<Rightarrow> ingest_inv env stream w'"
  using assms(1-3,7)
proof (induction ms arbitrary: b w)
  case Nil
  then have "ingest_inv env stream w'" unfolding ingest_inv_def orderly_def by auto
  with Nil show ?case by auto
next
  case (Cons m ms)
  obtain q w1 where h: "handle env m w = (q, w1)" by (rule prod.exhaust)
  have "handled env stream c m w (q, w1)"
    using handle_log[OF Cons.prems(1) st, of m] Cons.prems(2) h by (simp add: orderly_def)
  note hd = this[unfolded handled_def, simplified]
  consider (exn) e where "q = Inl e" | (next_msg) "q = Inr None" | (barrier) k where "q = Inr (Some k)"
    by (cases q) auto
  then show ?case
  proof cases
    case exn
    with hd have "durable w = durable w1" by simp
    then have "recoverable env stream w1" by (rule recoverableI[OF Cons.prems(1)])
    with Cons.prems(4) h exn show ?thesis by auto
  next
    case next_msg
    with hd obtain b' where b': "log_ok env stream c b' w1" "iw_held w1 = iw_held w"
        "insert (im_seq m) (seen w) \<subseteq> seen w1" "iw_buffered w1 \<subseteq> insert (im_seq m) (iw_buffered w)" by auto
    from Cons.IH[OF b'(1) orderly_tail[OF Cons.prems(2) b'(3,4)]] b'(2) Cons.prems(3,4) h next_msg show ?thesis by simp
  next
    case barrier
    with hd have core: "core w1 = core w" by simp
    define w2 where "w2 = count (\<lambda>h. h\<lparr>ih_unknown_seq_stalls := ih_unknown_seq_stalls h + 1, ih_stalled := True\<rparr>) (w1\<lparr>iw_held := m # ms\<rparr>)"
    have "ingest_inv env stream (w1\<lparr>iw_held := m # ms\<rparr>)"
      using Cons.prems(1,2) log_ok_cong[OF core] orderly_cong[OF core] by (auto simp: ingest_inv_def)
    then have "ingest_inv env stream w2" using ingest_inv_cong[of w2 "w1\<lparr>iw_held := m # ms\<rparr>"] by (simp add: w2_def)
    from flush_inv[OF this outs] Cons.prems(4) h barrier show ?thesis by (auto simp: w2_def)
  qed
qed

lemma process_messages_inv:
  assumes "log_ok env stream c b w" "orderly env stream ms w" "iw_held w = []" and st: "distinct (map im_seq stream)"
    and outs: "fst (pin_outcomes inp) \<noteq> Lost_After_Commit" "snd (pin_outcomes inp) \<noteq> Lost_After_Commit"
    and "process_messages env inp ms w = (r, w')"
  shows "case r of Inl e \<Rightarrow> recoverable env stream w' | Inr _ \<Rightarrow> ingest_inv env stream w'"
proof -
  obtain q w1 where h: "handle_all env (pin_outcomes inp) ms w = (q, w1)" by (rule prod.exhaust)
  note all = handle_all_inv[OF assms(1-3) st outs h]
  consider (exn) e where "q = Inl e" | (finished) "q = Inr None" | (barrier) k where "q = Inr (Some k)" by (cases q) auto
  then show ?thesis
  proof cases
    case exn
    with all assms(7) h show ?thesis by (auto simp: process_messages_def)
  next
    case finished
    with all have "ingest_inv env stream w1" by simp
    with flush_inv[OF _ outs, of env stream w1] assms(7) h finished show ?thesis
      by (auto simp: process_messages_def split: if_splits)
  next
    case barrier
    obtain q2 w2 where rr: "recover_registry env (pin_scan inp) k w1 = (q2, w2)" by (rule prod.exhaust)
    then have core: "core w2 = core w1" using core_recover_registry[of env "pin_scan inp" k w1] by simp
    from all barrier have inv: "ingest_inv env stream w1" by simp
    then have "ingest_inv env stream w2" using ingest_inv_cong[OF core] by blast
    moreover from inv obtain c' b' where "log_ok env stream c' b' w1" unfolding ingest_inv_def by blast
    then have "recoverable env stream w2" using durable_core[OF core] by (intro recoverableI) simp_all
    ultimately show ?thesis using assms(7) h rr barrier by (cases q2) (auto simp: process_messages_def)
  qed
qed

lemma ingest_step_inv:
  assumes st: "distinct (map im_seq stream)" and inv: "ingest_inv env stream w" and ev: "orderly_event env stream ev w"
  shows "ingest_inv env stream (ingest_step env ev w)"
proof (cases ev)
  case (Restart scan)
  from inv have "recoverable env stream w" unfolding ingest_inv_def using recoverableI by blast
  with Restart show ?thesis by (simp add: ingest_step_def restart_inv)
next
  case (Pass inp)
  from inv obtain c b where log: "log_ok env stream c b w" and held: "orderly env stream (iw_held w) w"
    by (auto simp: ingest_inv_def)
  from ev Pass have outs: "fst (pin_outcomes inp) \<noteq> Lost_After_Commit" "snd (pin_outcomes inp) \<noteq> Lost_After_Commit"
    and fetch: "iw_held w = [] \<Longrightarrow> orderly env stream (pin_fetched inp) w" by auto
  obtain r w' where p: "consume_pass env inp w = (r, w')" by (rule prod.exhaust)
  have paused: "ingest_inv env stream (snd (flush (pin_outcomes inp) (w\<lparr>iw_paused := True\<rparr>)))"
    using flush_inv[OF _ outs, of env stream "w\<lparr>iw_paused := True\<rparr>"] ingest_inv_cong[of "w\<lparr>iw_paused := True\<rparr>" w] inv by simp
  have "case r of Inl e \<Rightarrow> recoverable env stream w' | Inr _ \<Rightarrow> ingest_inv env stream w'"
  proof (cases "iw_held w = []")
    case True
    show ?thesis
      using p True paused process_messages_inv[OF log fetch[OF True] True st outs, of r w']
      by (auto simp: consume_pass_def split: if_splits)
  next
    case False
    with p have "process_messages env inp (iw_held w) (w\<lparr>iw_held := []\<rparr>) = (r, w')" by (simp add: consume_pass_def)
    with process_messages_inv[of env stream c b "w\<lparr>iw_held := []\<rparr>" "iw_held w" inp r w'] log held st outs show ?thesis by simp
  qed
  then show ?thesis
    using p Pass restart_inv[of env stream w' "[]"] by (cases r) (auto simp: ingest_step_def)
qed

text \<open>The environment's side: every event is orderly, every message has its own place in the stream.\<close>

definition orderly_stream :: "'w ingest_env \<Rightarrow> 'w stream_msg list \<Rightarrow> 'w ingest_event \<Rightarrow> 'w ingest_writer \<Rightarrow> bool" where
  "orderly_stream env stream ev w \<longleftrightarrow> distinct (map im_seq stream) \<and> orderly_event env stream ev w"

interpretation ingest: guarded_machine "ingest_step env" "orderly_stream env stream" "ingest_inv env stream"
  by unfold_locales (auto simp: orderly_stream_def intro: ingest_step_inv)

lemma start_inv:
  assumes "pd_samples db = []" "pd_cursor db = None" "\<forall>m \<in> set stream. 0 < im_seq m"
  shows "ingest_inv env stream (writer_start env db {} {})"
proof -
  have "log_ok env stream [] [] (writer_start env db {} {})"
    using assms by (auto simp: log_ok_def log_parts writer_start_def batches_def read_cursor_def)
  moreover have "orderly env stream (iw_held (writer_start env db {} {})) (writer_start env db {} {})"
    by (simp add: orderly_def writer_start_def)
  ultimately show ?thesis unfolding ingest_inv_def by blast
qed

section \<open>Properties\<close>


type_synonym wit_wire = "channel_registry + sample_batch"

definition wit_ienv :: "wit_wire ingest_env" where
  "wit_ienv = \<lparr>ie_settings = \<lparr>ws_vehicle_id = ''car'', ws_batch_rows = 5000, ws_max_buffered_rows = 200000\<rparr>,
     ie_pb = \<lparr>pb_store = Some, pb_header_ok = (\<lambda>_ _ _. True), pb_serialize = Inr,
              pb_parse = (\<lambda>x. case x of Inl r \<Rightarrow> None | Inr b \<Rightarrow> Some b)\<rparr>,
     ie_parse_registry = (\<lambda>x. case x of Inl r \<Rightarrow> Some r | Inr b \<Rightarrow> None),
     ie_loads = (\<lambda>s. None), ie_conv = \<lparr>float_of_str = (\<lambda>s. None), int_of_str = (\<lambda>s. None), str_of = (\<lambda>j. [])\<rparr>\<rparr>"

definition wit_msg :: "nat \<Rightarrow> real \<Rightarrow> wit_wire stream_msg" where
  "wit_msg n v = \<lparr>im_seq = n, im_header = Some ''batch'', im_subject = ''tele.car.can'',
     im_data = Inr \<lparr>sb_registry_seq = 1, sb_epoch_unix_ms = 0, sb_epoch_mono_ns = 0,
       sb_samples = [\<lparr>ws_channel_id = 1, ws_t_offset_us = 0, ws_value = Some (WD (Fin v))\<rparr>], sb_format_version = 1\<rparr>\<rparr>"

definition wit_catalog :: "wit_wire list" where
  "wit_catalog = [Inl (wit_gen 1 [wit_channel 1 ''rpm''])]"

definition wit_pass :: "wit_wire stream_msg list \<Rightarrow> bool \<Rightarrow> outcome \<Rightarrow> wit_wire ingest_event" where
  "wit_pass ms due out = Pass \<lparr>pin_fetched = ms, pin_due = due, pin_outcomes = (out, Committed), pin_scan = wit_catalog\<rparr>"

lemma wit_msg_simps [simp]: "im_seq (wit_msg n v) = n" "\<not> is_registry vehicle (wit_msg n v)"
  by (simp_all add: wit_msg_def is_registry_def MSG_TYPE_REGISTRY_def)

definition wit_row :: "real \<Rightarrow> sample_row" where
  "wit_row v = (0, 1, Some (Fin v), None)"

lemma fromtimestamp_0: "fromtimestamp (Fin 0) = Inr 0"
  using py_round_of_int[of 0] by (simp add: fromtimestamp_def py_round_digits_def)


lemmas wit_start_defs = restart_def wit_catalog_def writer_start_def apply_registry_def upsert_registry_def
    wit_gen_def wit_channel_def epoch_ms_to_datetime_def db_init_def register_channel_def upsert_channel_def add_registry_def
    cache_init_def Let_def read_cursor_def

lemmas wit_pass_defs = wit_pass_def ingest_step_def consume_pass_def process_messages_def handle_def
    decode_batch_def SUPPORTED_FORMAT_VERSIONS_def decode_sample_def channel_table_def physical_value_def rows_from_batch_def
    row_of_sample_def fromtimestamp_0 buffer_batch_def batch_rows_init_def LAP_EVENT_CHANNEL_def AGENT_STATUS_CHANNEL_def
    count_def wit_row_def map_filter_simps wit_msg_def is_registry_def MSG_TYPE_REGISTRY_def ack_def

lemmas wit_flush_defs = flush_def pending_work_def write_flush_def store_flush_def apply_flush_def upsert_cursor_def
    flush_landed_def advance_def ack_pending_def discard_def reconnect_db_def

lemma wit_orderly_run:
  "guarded_run (orderly_stream wit_ienv [wit_msg 1 5, wit_msg 2 6]) (ingest_step wit_ienv)
     [Restart wit_catalog, wit_pass [wit_msg 1 5, wit_msg 2 6] True Unreachable, wit_pass [] True Committed]
     (writer_start wit_ienv db_init {} {})"
  by (simp add: orderly_stream_def orderly_def seen_def batches_def wit_start_defs wit_pass_defs wit_ienv_def wit_flush_defs)

lemma wit_orderly_end:
  "let w = fold (ingest_step wit_ienv) [Restart wit_catalog, wit_pass [wit_msg 1 5, wit_msg 2 6] True Unreachable, wit_pass [] True Committed]
     (writer_start wit_ienv db_init {} {})
   in pd_samples (iw_db w) = [wit_row 5, wit_row 6] \<and> read_cursor (iw_db w) = 2"
  unfolding Let_def
  by (simp add: wit_start_defs wit_pass_defs wit_ienv_def wit_flush_defs)



subsection \<open>A healthy pass\<close>

text \<open>A batch of a known generation that decodes and converts without an exception.\<close>

definition clean :: "'w ingest_env \<Rightarrow> 'w ingest_writer \<Rightarrow> 'w stream_msg \<Rightarrow> bool" where
  "clean env w m \<longleftrightarrow> \<not> is_registry (ws_vehicle_id (ie_settings env)) m
     \<and> (\<exists>b bd br. pb_parse (ie_pb env) (im_data m) = Some b \<and> fst (decode_batch b (iw_cache w)) = (Some bd, None)
          \<and> rows_from_batch bd (iw_keys w) = Inr br
          \<and> (\<forall>p \<in> set (br_lap_events br). \<forall>mat. \<exists>r. fst (observe_event (ie_conv env) (ie_loads env p) mat) = Inr r))"

definition pending_ok :: "'w ingest_writer \<Rightarrow> bool" where
  "pending_ok w \<longleftrightarrow> (\<forall>n \<in> iw_buffered w. n \<le> iw_max_seq w) \<and> iw_cursor w \<le> iw_max_seq w
     \<and> (\<forall>m \<in> set (iw_pending w). iw_cursor w < im_seq m \<and> im_seq m \<le> iw_max_seq w)"

lemma pending_ok_inv:
  assumes "ingest_inv env stream w" shows "pending_ok w"
proof -
  from assms obtain c b where p: "rows_ok c b w" "seqs_ok c b w" unfolding ingest_inv_def log_ok_def by blast
  then have "im_seq ` set (iw_pending w) = fst ` set b" by (metis rows_ok_def list.set_map)
  with p show ?thesis unfolding pending_ok_def rows_ok_def seqs_ok_def by (metis imageI)
qed

text \<open>What handling clean messages keeps.\<close>

definition grows :: "'w ingest_writer \<Rightarrow> 'w ingest_writer \<Rightarrow> bool" where
  "grows w w' \<longleftrightarrow> rc_channels (iw_cache w') = rc_channels (iw_cache w) \<and> iw_keys w' = iw_keys w \<and> iw_held w' = iw_held w
     \<and> iw_cursor w' = iw_cursor w \<and> iw_max_seq w \<le> iw_max_seq w' \<and> set (iw_pending w) \<subseteq> set (iw_pending w')
     \<and> iw_acked w \<subseteq> iw_acked w' \<and> set (iw_rows w) \<subseteq> set (iw_rows w') \<and> pd_samples (iw_db w') = pd_samples (iw_db w)"

definition taken :: "'w ingest_writer \<Rightarrow> 'w stream_msg \<Rightarrow> bool" where
  "taken w m \<longleftrightarrow> im_seq m \<le> iw_max_seq w \<and> (im_seq m \<in> iw_acked w \<or> im_seq m \<in> im_seq ` set (iw_pending w))"

lemma materialise_laps_clean:
  assumes "\<forall>p \<in> set ps. \<forall>mat. \<exists>r. fst (observe_event (ie_conv env) (ie_loads env p) mat) = Inr r"
  shows "\<exists>w'. materialise_laps env ps w = (Inr (), w') \<and> iw_cache w' = iw_cache w \<and> iw_keys w' = iw_keys w"
  using assms
proof (induction ps arbitrary: w)
  case (Cons p ps)
  obtain r m where "observe_event (ie_conv env) (ie_loads env p) (iw_laps w) = (Inr r, m)"
    using Cons.prems by (metis list.set_intros(1) prod.collapse)
  then have "\<exists>w1. materialise_lap env p w = (Inr (), w1) \<and> iw_cache w1 = iw_cache w \<and> iw_keys w1 = iw_keys w"
    by (cases r) (auto simp: materialise_lap_def split: row.split)
  then obtain w1 where w1: "materialise_lap env p w = (Inr (), w1)" "iw_cache w1 = iw_cache w" "iw_keys w1 = iw_keys w" by blast
  with Cons.IH[of w1] Cons.prems show ?case by simp
qed simp

lemma clean_grows: "clean env w m \<Longrightarrow> grows w w' \<Longrightarrow> clean env w' m"
proof -
  assume c: "clean env w m" and g: "grows w w'"
  have "fst (decode_batch b (iw_cache w')) = fst (decode_batch b (iw_cache w))" for b
    using g by (simp add: grows_def decode_batch_def split: option.split)
  with c g show "clean env w' m" by (simp add: clean_def grows_def)
qed

lemma handle_clean:
  assumes clean: "clean env w m" and ok: "pending_ok w"
  shows "\<exists>w'. handle env m w = (Inr None, w') \<and> grows w w' \<and> pending_ok w' \<and> taken w' m"
proof (cases "im_seq m \<le> iw_cursor w \<or> im_seq m \<in> iw_buffered w")
  case True
  then have "handle env m w = (Inr None, count (\<lambda>h. h\<lparr>ih_messages_skipped := ih_messages_skipped h + 1\<rparr>) (ack m w))"
    by (simp add: handle_def)
  moreover have "im_seq m \<le> iw_max_seq w" using True ok by (auto simp: pending_ok_def)
  ultimately show ?thesis using ok by (auto simp: grows_def pending_ok_def taken_def count_def ack_def)
next
  case False
  obtain b bd br rc where b: "pb_parse (ie_pb env) (im_data m) = Some b" "decode_batch b (iw_cache w) = ((Some bd, None), rc)"
      "rows_from_batch bd (iw_keys w) = Inr br"
      and laps: "\<forall>p \<in> set (br_lap_events br). \<forall>mat. \<exists>r. fst (observe_event (ie_conv env) (ie_loads env p) mat) = Inr r"
    using clean unfolding clean_def by (metis prod.collapse)
  have rc: "rc_channels rc = rc_channels (iw_cache w)" using decode_batch_frame(2)[of b "iw_cache w"] b(2) by simp
  let ?w = "w\<lparr>iw_cache := rc\<rparr>"
  let ?w0 = "count (\<lambda>h. h\<lparr>ih_samples_dropped := ih_samples_dropped h + br_dropped br,
      ih_unresolved_channels := ih_unresolved_channels h + br_unresolved br\<rparr>) (?w\<lparr>iw_rows := iw_rows ?w @ br_rows br\<rparr>)"
  obtain w1 where w1: "materialise_laps env (br_lap_events br) ?w0 = (Inr (), w1)" "iw_cache w1 = rc" "iw_keys w1 = iw_keys w"
    using materialise_laps_clean[OF laps, of ?w0] by (auto simp: count_def)
  have core: "core w1 = core (w\<lparr>iw_rows := iw_rows w @ br_rows br\<rparr>)"
    using core_materialise_laps[of env "br_lap_events br" ?w0] unfolding w1(1) by (simp add: core_iff count_def)
  let ?w' = "w1\<lparr>iw_pending := iw_pending w1 @ [m], iw_buffered := insert (im_seq m) (iw_buffered w1),
      iw_max_seq := max (iw_max_seq w1) (im_seq m)\<rparr>"
  have "handle env m w = (Inr None, ?w')"
    using False clean b w1(1) by (simp add: handle_def clean_def Let_def buffer_batch_def)
  moreover have "grows w ?w'" using core rc w1(2,3) by (auto simp: grows_def core_iff)
  moreover have "taken ?w' m" by (simp add: taken_def)
  moreover have "pending_ok ?w'" using ok False core unfolding pending_ok_def core_iff by (fastforce simp: not_le le_max_iff_disj)
  ultimately show ?thesis by blast
qed

lemma grows_trans: "grows a b \<Longrightarrow> grows b c \<Longrightarrow> grows a c"
  unfolding grows_def by (auto dest: order_trans)

lemma taken_grows: "taken w m \<Longrightarrow> grows w w' \<Longrightarrow> taken w' m"
  unfolding taken_def grows_def by (meson image_mono order_trans subsetD)

lemma handle_all_clean:
  assumes "\<forall>m \<in> set ms. clean env w m" "pending_ok w"
  shows "\<exists>w'. handle_all env outs ms w = (Inr None, w') \<and> grows w w' \<and> pending_ok w' \<and> (\<forall>m \<in> set ms. taken w' m)"
  using assms
proof (induction ms arbitrary: w)
  case Nil
  then show ?case by (simp add: grows_def)
next
  case (Cons m ms)
  then obtain w1 where w1: "handle env m w = (Inr None, w1)" "grows w w1" "pending_ok w1" "taken w1 m"
    using handle_clean[of env w m] by auto
  moreover have "\<forall>m \<in> set ms. clean env w1 m" using Cons.prems(1) clean_grows[OF _ w1(2)] by simp
  ultimately obtain w' where "handle_all env outs ms w1 = (Inr None, w')" "grows w1 w'" "pending_ok w'" "\<forall>m \<in> set ms. taken w' m"
    using Cons.IH[of w1] by blast
  with w1 grows_trans[OF w1(2)] taken_grows[OF w1(4)] show ?case by auto
qed

lemma flush_committed:
  assumes ok: "pending_ok w" and out: "fst outs = Committed" and f: "flush outs w = (r, w')"
  shows "iw_rows w' = [] \<and> iw_pending w' = [] \<and> iw_held w' = iw_held w \<and> iw_cursor w' = iw_max_seq w
    \<and> iw_acked w' = iw_acked w \<union> im_seq ` set (iw_pending w) \<and> pd_samples (iw_db w') = pd_samples (iw_db w) @ iw_rows w"
proof (cases "pending_work w")
  case False
  then have "iw_max_seq w \<le> iw_cursor w" by (simp add: pending_work_def)
  with ok have "\<forall>m \<in> set (iw_pending w). False" unfolding pending_ok_def by (meson leD order_trans)
  then have "iw_pending w = []" by (cases "iw_pending w") auto
  with False ok f show ?thesis by (auto simp: flush_def pending_work_def pending_ok_def)
next
  case True
  obtain q w1 where q: "write_flush (fst outs) (iw_lap_rows w) (iw_pit_updates w) w = (q, w1)" by (rule prod.exhaust)
  then have "q = Done" using out by (auto simp: write_flush_def store_flush_def split: prod.splits)
  with write_flush_cases[OF q] out obtain db sc where
    w1: "w1 = w\<lparr>iw_db := db, iw_sessions := sc\<rparr>" "pd_samples db = pd_samples (iw_db w) @ iw_rows w" by auto
  have "w' = flush_landed True w1" using f True q \<open>q = Done\<close> by (simp add: flush_def)
  with flush_landed_core[of True w1] w1 ok show ?thesis by (simp add: core_def pending_ok_def)
qed


definition wit_ready :: "wit_wire ingest_writer" where
  "wit_ready = restart wit_ienv wit_catalog (writer_start wit_ienv db_init {} {})"


end
