(* ===== verification/Watch_Monitors.thy ===== *)
theory Watch_Monitors
  imports Py_Values
begin

text \<open>
  \<^verbatim>\<open>src/pit/watch/monitors.py\<close>, the envelope of \<^verbatim>\<open>src/pit/watch/engine.py\<close> and their configuration:
  the one-second monitors that learn a baseline and open and close findings.

  Readings are a map from channel to value, capture time and unit. A monitor is only asked for an
  opinion (\<open>valid\<close>) when all its channels have a reading, which the engine checks; \<open>reading_value\<close> and
  \<open>reading_unit\<close> read a missing channel as zero and the empty unit. Floats are exact reals, \<open>uid\<close> is the identifier a new finding gets, a bin or group key is
  the list of numbers its text is made of, the learned mean and scale of a drift monitor are zero until its
  baseline is frozen, of a baseline lap only the mean is kept, and the text of the messages is left out of the summaries.
\<close>

section \<open>Readings, gates and rows\<close>

record reading =
  re_value :: real
  re_time :: real
  re_unit :: string

type_synonym readings = "string \<rightharpoonup> reading"

definition reading_value :: "readings \<Rightarrow> string \<Rightarrow> real" where
  "reading_value rs c = (case rs c of None \<Rightarrow> 0 | Some r \<Rightarrow> re_value r)"

definition reading_unit :: "readings \<Rightarrow> string \<Rightarrow> string" where
  "reading_unit rs c = (case rs c of None \<Rightarrow> [] | Some r \<Rightarrow> re_unit r)"

definition units_of :: "readings \<Rightarrow> string list \<Rightarrow> (string \<times> string) list" where
  "units_of rs cs = map (\<lambda>c. (c, reading_unit rs c)) cs"

record when_gate =
  wh_channel :: string
  wh_above :: "real option"
  wh_below :: "real option"
  wh_between :: "(real \<times> real) option"
  wh_equals :: "real option"

definition when_ok :: "when_gate \<Rightarrow> bool" where
  "when_ok w \<longleftrightarrow> \<not> (wh_above w = None \<and> wh_below w = None \<and> wh_between w = None \<and> wh_equals w = None)
     \<and> (case wh_between w of None \<Rightarrow> True | Some (a, b) \<Rightarrow> a < b)"

definition when_holds :: "when_gate \<Rightarrow> real \<Rightarrow> bool" where
  "when_holds w v =
     ((case wh_above w of None \<Rightarrow> True | Some a \<Rightarrow> v > a)
      \<and> (case wh_below w of None \<Rightarrow> True | Some b \<Rightarrow> v < b)
      \<and> (case wh_between w of None \<Rightarrow> True | Some (a, b) \<Rightarrow> a \<le> v \<and> v \<le> b)
      \<and> (case wh_equals w of None \<Rightarrow> True | Some e \<Rightarrow> v = e))"

definition gates_hold :: "when_gate list \<Rightarrow> readings \<Rightarrow> bool" where
  "gates_hold ws rs = list_all (\<lambda>w. when_holds w (reading_value rs (wh_channel w))) ws"

text \<open>The evidence a finding carries, per kind of monitor.\<close>

record bin_evidence =
  be_channel :: string
  be_index :: int
  be_lower :: "real option"
  be_upper :: "real option"
  be_observed :: real
  be_unit :: string

record lap_entry =
  le_lap_number :: json
  le_at :: real
  le_mean :: real
  le_n :: int
  le_residual :: real
  le_cusum :: real

datatype evidence =
    EnvelopeEvidence (ee_samples: int) (ee_mad: real) (ee_bins: "bin_evidence list")
  | DriftEvidence (de_scale: real) (de_cusum: real) (de_up: bool) (de_series: "lap_entry list")
  | RatioEvidence (re_samples: int) (re_mad: real) (re_low: bool) (re_meaning: "string option") (re_group: "int option")
  | CounterEvidence (ce_rate: real) (ce_limit: real) (ce_span: real)

record watch_summary =
  ws_target :: string
  ws_expected :: real
  ws_observed :: real
  ws_unit :: string
  ws_residual :: real
  ws_session :: "string option"
  ws_evidence :: evidence

record watch_finding =
  wf_id :: string
  wf_opened :: real
  wf_closed :: "real option"
  wf_severity :: string
  wf_peak :: real
  wf_summary :: watch_summary

record watch_row =
  wr_time :: real
  wr_score :: "real option"
  wr_residual :: "real option"
  wr_expected :: "real option"
  wr_observed :: "real option"
  wr_status :: string
  wr_finding :: "watch_finding option"

definition row_at :: "real \<Rightarrow> watch_row" where
  "row_at t = \<lparr>wr_time = t, wr_score = None, wr_residual = None, wr_expected = None, wr_observed = None,
     wr_status = ''gated'', wr_finding = None\<rparr>"

text \<open>\<open>_transition\<close>: what the row reports, and the finding that stays open.\<close>

definition transition ::
  "string \<Rightarrow> real \<Rightarrow> bool \<Rightarrow> real \<Rightarrow> watch_summary \<Rightarrow> string \<Rightarrow> watch_finding option \<Rightarrow> watch_finding option \<times> watch_finding option" where
  [op_defs]: "transition uid t open_now score summary severity held =
     (if open_now then
        (let f = (case held of
               None \<Rightarrow> \<lparr>wf_id = uid, wf_opened = t, wf_closed = None, wf_severity = severity, wf_peak = score, wf_summary = summary\<rparr>
             | Some f \<Rightarrow> f);
             f = (if score \<ge> wf_peak f then f\<lparr>wf_peak := score, wf_summary := summary\<rparr> else f)
         in (Some f, Some f))
      else case held of
          Some f \<Rightarrow> (Some (f\<lparr>wf_closed := Some t\<rparr>), None)
        | None \<Rightarrow> (None, None))"

section \<open>Statistics\<close>

definition mean_of :: "real list \<Rightarrow> real" where
  "mean_of xs = sum_list xs / of_nat (length xs)"

definition pstdev :: "real list \<Rightarrow> real" where
  "pstdev xs = sqrt (sum_list (map (\<lambda>x. (x - mean_of xs)\<^sup>2) xs) / of_nat (length xs))"

record bin_stats =
  bs_median :: real
  bs_mad :: real
  bs_count :: int

definition stats_of :: "real list \<Rightarrow> bin_stats" where
  "stats_of xs = (let c = median xs in \<lparr>bs_median = c, bs_mad = median (map (\<lambda>v. \<bar>v - c\<bar>) xs), bs_count = int (length xs)\<rparr>)"

text \<open>The exponential score: a fraction of the way from the old score to the new evidence.\<close>

definition score_gain :: "real \<Rightarrow> real" where
  "score_gain window = 1 - exp (- 1 / window)"

definition smooth :: "real \<Rightarrow> real \<Rightarrow> real \<Rightarrow> real" where
  "smooth window evidence score = score + score_gain window * (evidence - score)"

section \<open>Envelope\<close>

record condition =
  co_channel :: string
  co_bins :: real
  co_active_above :: "real option"

record envelope_config =
  ec_target :: string
  ec_conditions :: "condition list"
  ec_baseline_seconds :: int
  ec_min_bin_samples :: int
  ec_residual_sigma :: real
  ec_min_scale :: real
  ec_score_window :: real
  ec_open_above :: real
  ec_severity :: string

definition envelope_channels :: "envelope_config \<Rightarrow> string list" where
  "envelope_channels cfg = ec_target cfg # map co_channel (ec_conditions cfg)"

record envelope =
  en_config :: envelope_config
  en_learned :: int
  en_frozen :: bool
  en_bins :: "(int list \<times> real list) list"
  en_table :: "(int list \<times> bin_stats) list"
  en_units :: "(string \<times> string) list"
  en_score :: real
  en_finding :: "watch_finding option"
  en_session :: "string option"

definition envelope_new :: "envelope_config \<Rightarrow> envelope" where
  "envelope_new cfg = \<lparr>en_config = cfg, en_learned = 0, en_frozen = False, en_bins = [], en_table = [], en_units = [],
     en_score = 0, en_finding = None, en_session = None\<rparr>"

definition freeze_bins :: "('k \<times> real list) list \<Rightarrow> ('k \<times> bin_stats) list \<Rightarrow> ('k \<times> bin_stats) list" where
  "freeze_bins bins table = fold (\<lambda>(k, xs) t. AList.update k (stats_of xs) t) bins table"

definition envelope_freeze :: "envelope \<Rightarrow> envelope" where
  "envelope_freeze e = e\<lparr>en_table := freeze_bins (en_bins e) (en_table e), en_bins := [], en_frozen := True\<rparr>"

definition bin_index :: "readings \<Rightarrow> condition \<Rightarrow> int" where
  "bin_index rs c = (case co_active_above c of
     Some a \<Rightarrow> of_bool (reading_value rs (co_channel c) > a)
   | None \<Rightarrow> \<lfloor>reading_value rs (co_channel c) / co_bins c\<rfloor>)"

definition append_bin :: "'k \<Rightarrow> real \<Rightarrow> ('k \<times> real list) list \<Rightarrow> ('k \<times> real list) list" where
  "append_bin k v bins = AList.update k ((case map_of bins k of None \<Rightarrow> [] | Some xs \<Rightarrow> xs) @ [v]) bins"

definition bin_evidence_of :: "readings \<Rightarrow> condition \<Rightarrow> bin_evidence" where
  "bin_evidence_of rs c = (let i = bin_index rs c in
     \<lparr>be_channel = co_channel c, be_index = i,
      be_lower = (if co_active_above c = None then Some (of_int i * co_bins c) else None),
      be_upper = (if co_active_above c = None then Some (of_int (i + 1) * co_bins c) else None),
      be_observed = reading_value rs (co_channel c), be_unit = reading_unit rs (co_channel c)\<rparr>)"

text \<open>The part of \<open>evaluate\<close> after the baseline is frozen and the bin has enough samples.\<close>

definition envelope_residual :: "readings \<Rightarrow> bin_stats \<Rightarrow> envelope_config \<Rightarrow> real" where
  "envelope_residual rs stats cfg =
     (reading_value rs (ec_target cfg) - bs_median stats) / max (ec_min_scale cfg) (1.4826 * bs_mad stats)"

definition envelope_score :: "readings \<Rightarrow> bin_stats \<Rightarrow> envelope \<Rightarrow> real" where
  "envelope_score rs stats e = smooth (ec_score_window (en_config e))
     (of_bool (\<bar>envelope_residual rs stats (en_config e)\<bar> > ec_residual_sigma (en_config e))) (en_score e)"

definition envelope_summary :: "readings \<Rightarrow> bin_stats \<Rightarrow> envelope \<Rightarrow> watch_summary" where
  "envelope_summary rs stats e = (let cfg = en_config e in
     \<lparr>ws_target = ec_target cfg, ws_expected = bs_median stats, ws_observed = reading_value rs (ec_target cfg),
      ws_unit = reading_unit rs (ec_target cfg), ws_residual = envelope_residual rs stats cfg, ws_session = en_session e,
      ws_evidence = EnvelopeEvidence (bs_count stats) (bs_mad stats) (map (bin_evidence_of rs) (ec_conditions cfg))\<rparr>)"

definition envelope_judge :: "string \<Rightarrow> real \<Rightarrow> readings \<Rightarrow> bin_stats \<Rightarrow> envelope \<Rightarrow> watch_row \<times> envelope" where
  [op_defs]: "envelope_judge uid t rs stats e =
     (let cfg = en_config e; score = envelope_score rs stats e
      in case transition uid t (score > ec_open_above cfg) score (envelope_summary rs stats e) (ec_severity cfg) (en_finding e) of
        (reported, held) \<Rightarrow>
          ((row_at t)\<lparr>wr_score := Some score, wr_residual := Some (envelope_residual rs stats cfg), wr_expected := Some (bs_median stats),
             wr_observed := Some (reading_value rs (ec_target cfg)), wr_status := ''ready'', wr_finding := reported\<rparr>,
           e\<lparr>en_score := score, en_finding := held\<rparr>))"

definition envelope_evaluate :: "string \<Rightarrow> real \<Rightarrow> readings \<Rightarrow> bool \<Rightarrow> envelope \<Rightarrow> watch_row \<times> envelope" where
  [op_defs]: "envelope_evaluate uid t rs valid e =
     (if \<not> valid then (row_at t, e)
      else let cfg = en_config e; units = units_of rs (envelope_channels cfg) in
        if en_units e \<noteq> [] \<and> units \<noteq> en_units e then ((row_at t)\<lparr>wr_status := ''unit_mismatch''\<rparr>, e)
        else let e = e\<lparr>en_units := units\<rparr>;
                 observed = reading_value rs (ec_target cfg);
                 key = map (bin_index rs) (ec_conditions cfg);
                 seen = (row_at t)\<lparr>wr_observed := Some observed\<rparr>
          in if \<not> en_frozen e then
               (let e1 = e\<lparr>en_bins := append_bin key observed (en_bins e), en_learned := en_learned e + 1\<rparr>
                in (seen\<lparr>wr_status := ''learning''\<rparr>,
                    if en_learned e1 \<ge> ec_baseline_seconds cfg then envelope_freeze e1 else e1))
             else case map_of (en_table e) key of
                 None \<Rightarrow> (seen\<lparr>wr_status := ''insufficient_bin''\<rparr>, e)
               | Some stats \<Rightarrow>
                   if bs_count stats < ec_min_bin_samples cfg then (seen\<lparr>wr_status := ''insufficient_bin''\<rparr>, e)
                   else envelope_judge uid t rs stats e)"

type_synonym envelope_model = "int \<times> envelope_config \<times> envelope"

definition envelope_snapshot :: "envelope \<Rightarrow> envelope_model" where
  "envelope_snapshot e = (1, en_config e, e)"

definition envelope_restore :: "envelope_model \<Rightarrow> envelope \<Rightarrow> envelope res" where
  "envelope_restore m e = (case m of (version, cfg, st) \<Rightarrow>
     if version \<noteq> 1 \<or> cfg \<noteq> en_config e then Inl ValueError
     else Inr (e\<lparr>en_session := en_session st, en_learned := en_learned st, en_frozen := en_frozen st, en_bins := en_bins st,
       en_table := en_table st, en_units := en_units st, en_score := en_score st, en_finding := en_finding st\<rparr>))"

section \<open>Drift\<close>

datatype drift_direction = Both | Up | Down

record drift_config =
  dc_target :: string
  dc_when :: "when_gate list"
  dc_baseline_laps :: int
  dc_min_lap_samples :: int
  dc_min_scale :: real
  dc_cusum_k :: real
  dc_cusum_h :: real
  dc_direction :: drift_direction
  dc_severity :: string

definition drift_channels :: "drift_config \<Rightarrow> string list" where
  "drift_channels cfg = dc_target cfg # map wh_channel (dc_when cfg)"

record drift_monitor =
  dr_config :: drift_config
  dr_frozen :: bool
  dr_learned :: int
  dr_units :: "(string \<times> string) list"
  dr_session :: "string option"
  dr_baseline :: "real list"
  dr_mean :: real
  dr_scale :: real
  dr_laps :: "lap_entry list"
  dr_up :: real
  dr_down :: real
  dr_score :: real
  dr_calm :: int
  dr_sum :: real
  dr_n :: int
  dr_dirty :: bool
  dr_pending :: "watch_finding option"
  dr_finding :: "watch_finding option"

definition drift_new :: "drift_config \<Rightarrow> drift_monitor" where
  "drift_new cfg = \<lparr>dr_config = cfg, dr_frozen = False, dr_learned = 0, dr_units = [], dr_session = None, dr_baseline = [],
     dr_mean = 0, dr_scale = 0, dr_laps = [], dr_up = 0, dr_down = 0, dr_score = 0, dr_calm = 0, dr_sum = 0, dr_n = 0,
     dr_dirty = False, dr_pending = None, dr_finding = None\<rparr>"

definition MAX_LAP_SERIES :: nat where "MAX_LAP_SERIES = 200"

definition drift_freeze :: "drift_monitor \<Rightarrow> drift_monitor" where
  "drift_freeze d = d\<lparr>dr_mean := mean_of (dr_baseline d), dr_scale := max (dc_min_scale (dr_config d)) (pstdev (dr_baseline d)),
     dr_frozen := True\<rparr>"

definition on_pit :: "drift_monitor \<Rightarrow> drift_monitor" where
  "on_pit d = d\<lparr>dr_dirty := True\<rparr>"

text \<open>One lap's residual into the two sums, in the directions the configuration watches.\<close>

definition cusum_step :: "real \<Rightarrow> bool \<Rightarrow> real \<Rightarrow> real \<Rightarrow> real" where
  "cusum_step k watched residual c = (if watched then max 0 (c + residual - k) else c)"

text \<open>The two sums and the count of calm laps after a lap. Three calm laps in a row with a finding open start the sums over.\<close>

definition drift_sums :: "real \<Rightarrow> drift_monitor \<Rightarrow> real \<times> real \<times> int" where
  "drift_sums residual d =
     (let cfg = dr_config d;
          up = cusum_step (dc_cusum_k cfg) (dc_direction cfg \<in> {Both, Up}) residual (dr_up d);
          down = cusum_step (dc_cusum_k cfg) (dc_direction cfg \<in> {Both, Down}) (- residual) (dr_down d);
          calm = (if \<bar>residual\<bar> \<le> 1 then dr_calm d + 1 else 0)
      in if dr_finding d \<noteq> None \<and> calm \<ge> 3 then (0, 0, calm) else (up, down, calm))"

definition lap_residual :: "real \<Rightarrow> drift_monitor \<Rightarrow> real" where
  "lap_residual lap_mean d = (lap_mean - dr_mean d) / dr_scale d"

definition lap_drift_summary :: "real \<Rightarrow> real \<Rightarrow> real \<Rightarrow> lap_entry list \<Rightarrow> drift_monitor \<Rightarrow> watch_summary" where
  "lap_drift_summary lap_mean up down laps d =
     \<lparr>ws_target = dc_target (dr_config d), ws_expected = dr_mean d, ws_observed = lap_mean,
      ws_unit = (case map_of (dr_units d) (dc_target (dr_config d)) of None \<Rightarrow> [] | Some u \<Rightarrow> u),
      ws_residual = lap_residual lap_mean d, ws_session = dr_session d,
      ws_evidence = DriftEvidence (dr_scale d) (max up down) (up \<ge> down) (last_n 30 laps)\<rparr>"

definition judge_lap :: "string \<Rightarrow> json \<Rightarrow> real \<Rightarrow> int \<Rightarrow> real \<Rightarrow> drift_monitor \<Rightarrow> drift_monitor" where
  [op_defs]: "judge_lap uid lap_number lap_mean n t d =
     (case drift_sums (lap_residual lap_mean d) d of (up, down, calm) \<Rightarrow>
        let cfg = dr_config d;
            statistic = max up down;
            score = min 1 (statistic / dc_cusum_h cfg);
            laps = last_n MAX_LAP_SERIES (dr_laps d @ [\<lparr>le_lap_number = lap_number, le_at = t, le_mean = lap_mean, le_n = n,
              le_residual = lap_residual lap_mean d, le_cusum = statistic\<rparr>])
        in case transition uid t (statistic \<ge> dc_cusum_h cfg) score (lap_drift_summary lap_mean up down laps d) (dc_severity cfg) (dr_finding d) of
          (reported, held) \<Rightarrow>
            d\<lparr>dr_up := up, dr_down := down, dr_calm := calm, dr_score := score, dr_laps := laps, dr_pending := reported,
              dr_finding := held\<rparr>)"

definition on_lap :: "string \<Rightarrow> bool \<Rightarrow> json \<Rightarrow> real \<Rightarrow> drift_monitor \<Rightarrow> drift_monitor" where
  [op_defs]: "on_lap uid event_valid lap_number t d =
     (let n = dr_n d; total = dr_sum d; dirty = dr_dirty d;
          d = d\<lparr>dr_sum := 0, dr_n := 0, dr_dirty := False\<rparr> in
      if \<not> (event_valid \<and> \<not> dirty \<and> n \<ge> dc_min_lap_samples (dr_config d)) then d
      else let lap_mean = total / of_int n in
        if \<not> dr_frozen d then
          (let d = d\<lparr>dr_baseline := dr_baseline d @ [lap_mean]\<rparr>;
               d = d\<lparr>dr_learned := int (length (dr_baseline d))\<rparr>
           in if dr_learned d \<ge> dc_baseline_laps (dr_config d) then drift_freeze d else d)
        else judge_lap uid lap_number lap_mean n t d)"

definition drift_evaluate :: "real \<Rightarrow> readings \<Rightarrow> bool \<Rightarrow> drift_monitor \<Rightarrow> watch_row \<times> drift_monitor" where
  [op_defs]: "drift_evaluate t rs valid d =
     (let result = (row_at t)\<lparr>wr_finding := dr_pending d\<rparr>; d = d\<lparr>dr_pending := None\<rparr>; cfg = dr_config d in
      if \<not> valid then (result, d)
      else let units = units_of rs (drift_channels cfg) in
        if dr_units d \<noteq> [] \<and> units \<noteq> dr_units d then (result\<lparr>wr_status := ''unit_mismatch''\<rparr>, d)
        else let observed = reading_value rs (dc_target cfg);
                 d = d\<lparr>dr_units := units\<rparr>;
                 d = (if gates_hold (dc_when cfg) rs then d\<lparr>dr_sum := dr_sum d + observed, dr_n := dr_n d + 1\<rparr> else d);
                 seen = result\<lparr>wr_observed := Some observed\<rparr>
          in if \<not> dr_frozen d then (seen\<lparr>wr_status := ''learning''\<rparr>, d)
             else (seen\<lparr>wr_score := Some (dr_score d),
                     wr_residual := (if dr_laps d = [] then None else Some (le_residual (last (dr_laps d)))),
                     wr_expected := Some (dr_mean d), wr_status := ''ready''\<rparr>, d))"

type_synonym drift_model = "int \<times> drift_config \<times> drift_monitor"

definition drift_snapshot :: "drift_monitor \<Rightarrow> drift_model" where
  "drift_snapshot d = (1, dr_config d, d\<lparr>dr_laps := last_n MAX_LAP_SERIES (dr_laps d), dr_pending := None\<rparr>)"

definition drift_restore :: "drift_model \<Rightarrow> drift_monitor \<Rightarrow> drift_monitor res" where
  "drift_restore m d = (case m of (version, cfg, st) \<Rightarrow>
     if version \<noteq> 1 \<or> cfg \<noteq> dr_config d then Inl ValueError
     else Inr (d\<lparr>dr_session := dr_session st, dr_learned := dr_learned st, dr_frozen := dr_frozen st, dr_units := dr_units st,
       dr_baseline := dr_baseline st, dr_mean := dr_mean st, dr_scale := dr_scale st, dr_laps := dr_laps st, dr_up := dr_up st,
       dr_down := dr_down st, dr_score := dr_score st, dr_calm := dr_calm st, dr_finding := dr_finding st, dr_sum := dr_sum st,
       dr_n := dr_n st, dr_dirty := dr_dirty st\<rparr>))"

section \<open>Ratio\<close>

record ratio_config =
  rc_numerator :: string
  rc_denominators :: "string list"
  rc_per :: "string option"
  rc_when :: "when_gate list"
  rc_baseline_seconds :: int
  rc_min_group_samples :: int
  rc_residual_sigma :: real
  rc_min_scale :: real
  rc_score_window :: real
  rc_open_above :: real
  rc_low_means :: "string option"
  rc_high_means :: "string option"
  rc_severity :: string

definition ratio_channels :: "ratio_config \<Rightarrow> string list" where
  "ratio_channels cfg = rc_numerator cfg # rc_denominators cfg @ (case rc_per cfg of None \<Rightarrow> [] | Some p \<Rightarrow> [p])
     @ map wh_channel (rc_when cfg)"

record ratio =
  ra_config :: ratio_config
  ra_learned :: int
  ra_frozen :: bool
  ra_groups :: "(int option \<times> real list) list"
  ra_table :: "(int option \<times> bin_stats) list"
  ra_units :: "(string \<times> string) list"
  ra_score :: real
  ra_finding :: "watch_finding option"
  ra_session :: "string option"

definition ratio_new :: "ratio_config \<Rightarrow> ratio" where
  "ratio_new cfg = \<lparr>ra_config = cfg, ra_learned = 0, ra_frozen = False, ra_groups = [], ra_table = [], ra_units = [], ra_score = 0,
     ra_finding = None, ra_session = None\<rparr>"

definition ratio_freeze :: "ratio \<Rightarrow> ratio" where
  "ratio_freeze r = r\<lparr>ra_table := freeze_bins (ra_groups r) (ra_table r), ra_groups := [], ra_frozen := True\<rparr>"

definition ratio_of :: "ratio_config \<Rightarrow> readings \<Rightarrow> real option" where
  "ratio_of cfg rs = (let d = mean_of (map (reading_value rs) (rc_denominators cfg))
     in if d \<le> 0 then None else Some (reading_value rs (rc_numerator cfg) / d))"

definition ratio_key :: "ratio_config \<Rightarrow> readings \<Rightarrow> int option" where
  "ratio_key cfg rs = map_option (\<lambda>p. trunc_real (reading_value rs p)) (rc_per cfg)"

definition ratio_residual :: "real \<Rightarrow> bin_stats \<Rightarrow> ratio_config \<Rightarrow> real" where
  "ratio_residual observed stats cfg = (observed - bs_median stats) / max (rc_min_scale cfg) (1.4826 * bs_mad stats)"

definition ratio_score :: "real \<Rightarrow> bin_stats \<Rightarrow> ratio \<Rightarrow> real" where
  "ratio_score observed stats r = smooth (rc_score_window (ra_config r))
     (of_bool (\<bar>ratio_residual observed stats (ra_config r)\<bar> > rc_residual_sigma (ra_config r))) (ra_score r)"

definition ratio_summary :: "readings \<Rightarrow> real \<Rightarrow> bin_stats \<Rightarrow> ratio \<Rightarrow> watch_summary" where
  "ratio_summary rs observed stats r = (let cfg = ra_config r; low = (observed < bs_median stats) in
     \<lparr>ws_target = rc_numerator cfg, ws_expected = bs_median stats, ws_observed = observed, ws_unit = [],
      ws_residual = ratio_residual observed stats cfg, ws_session = ra_session r,
      ws_evidence = RatioEvidence (bs_count stats) (bs_mad stats) low (if low then rc_low_means cfg else rc_high_means cfg)
        (ratio_key cfg rs)\<rparr>)"

definition ratio_judge :: "string \<Rightarrow> real \<Rightarrow> readings \<Rightarrow> real \<Rightarrow> bin_stats \<Rightarrow> ratio \<Rightarrow> watch_row \<times> ratio" where
  [op_defs]: "ratio_judge uid t rs observed stats r =
     (let cfg = ra_config r; score = ratio_score observed stats r
      in case transition uid t (score > rc_open_above cfg) score (ratio_summary rs observed stats r) (rc_severity cfg) (ra_finding r) of
        (reported, held) \<Rightarrow>
          ((row_at t)\<lparr>wr_score := Some score, wr_residual := Some (ratio_residual observed stats cfg), wr_expected := Some (bs_median stats),
             wr_observed := Some observed, wr_status := ''ready'', wr_finding := reported\<rparr>,
           r\<lparr>ra_score := score, ra_finding := held\<rparr>))"

definition ratio_evaluate :: "string \<Rightarrow> real \<Rightarrow> readings \<Rightarrow> bool \<Rightarrow> ratio \<Rightarrow> watch_row \<times> ratio" where
  [op_defs]: "ratio_evaluate uid t rs valid r =
     (let cfg = ra_config r in
      if \<not> valid \<or> \<not> gates_hold (rc_when cfg) rs then (row_at t, r)
      else let units = units_of rs (ratio_channels cfg) in
        if ra_units r \<noteq> [] \<and> units \<noteq> ra_units r then ((row_at t)\<lparr>wr_status := ''unit_mismatch''\<rparr>, r)
        else let r = r\<lparr>ra_units := units\<rparr> in
          case ratio_of cfg rs of
            None \<Rightarrow> (row_at t, r)
          | Some observed \<Rightarrow>
              (let key = ratio_key cfg rs; seen = (row_at t)\<lparr>wr_observed := Some observed\<rparr> in
               if \<not> ra_frozen r then
                 (let r1 = r\<lparr>ra_groups := append_bin key observed (ra_groups r), ra_learned := ra_learned r + 1\<rparr>
                  in (seen\<lparr>wr_status := ''learning''\<rparr>,
                      if ra_learned r1 \<ge> rc_baseline_seconds cfg then ratio_freeze r1 else r1))
               else case map_of (ra_table r) key of
                   None \<Rightarrow> (seen\<lparr>wr_status := ''insufficient_group''\<rparr>, r)
                 | Some stats \<Rightarrow>
                     if bs_count stats < rc_min_group_samples cfg then (seen\<lparr>wr_status := ''insufficient_group''\<rparr>, r)
                     else ratio_judge uid t rs observed stats r))"

type_synonym ratio_model = "int \<times> ratio_config \<times> ratio"

definition ratio_snapshot :: "ratio \<Rightarrow> ratio_model" where
  "ratio_snapshot r = (1, ra_config r, r)"

definition ratio_restore :: "ratio_model \<Rightarrow> ratio \<Rightarrow> ratio res" where
  "ratio_restore m r = (case m of (version, cfg, st) \<Rightarrow>
     if version \<noteq> 1 \<or> cfg \<noteq> ra_config r then Inl ValueError
     else Inr (r\<lparr>ra_session := ra_session st, ra_learned := ra_learned st, ra_frozen := ra_frozen st, ra_groups := ra_groups st,
       ra_table := ra_table st, ra_units := ra_units st, ra_score := ra_score st, ra_finding := ra_finding st\<rparr>))"

section \<open>Counter\<close>

record counter_config =
  cc_channel :: string
  cc_when :: "when_gate list"
  cc_score_window :: real
  cc_open_above :: real
  cc_severity :: string

definition counter_channels :: "counter_config \<Rightarrow> string list" where
  "counter_channels cfg = cc_channel cfg # map wh_channel (cc_when cfg)"

record counter =
  cn_config :: counter_config
  cn_units :: "(string \<times> string) list"
  cn_history :: "(real \<times> real) list"
  cn_score :: real
  cn_finding :: "watch_finding option"
  cn_session :: "string option"

definition MAX_COUNTER_HISTORY :: nat where "MAX_COUNTER_HISTORY = 3600"

definition counter_new :: "counter_config \<Rightarrow> counter" where
  "counter_new cfg = \<lparr>cn_config = cfg, cn_units = [], cn_history = [], cn_score = 0, cn_finding = None, cn_session = None\<rparr>"

text \<open>The bounded history with the new entry, and what of it is within the window.\<close>

definition push_history :: "real \<Rightarrow> real \<Rightarrow> real \<Rightarrow> (real \<times> real) list \<Rightarrow> (real \<times> real) list" where
  "push_history window t v h = dropWhile (\<lambda>x. t - fst x > window) (last_n MAX_COUNTER_HISTORY (h @ [(t, v)]))"

definition counter_evaluate :: "string \<Rightarrow> real \<Rightarrow> readings \<Rightarrow> bool \<Rightarrow> counter \<Rightarrow> watch_row \<times> counter" where
  [op_defs]: "counter_evaluate uid t rs valid c =
     (let cfg = cn_config c in
      if \<not> valid \<or> \<not> gates_hold (cc_when cfg) rs then (row_at t, c)
      else let observed = reading_value rs (cc_channel cfg);
               history = push_history (cc_score_window cfg) t observed (cn_history c);
               c = c\<lparr>cn_units := units_of rs (counter_channels cfg), cn_history := history\<rparr>
        in case history of
            [] \<Rightarrow> (row_at t, c)
          | (first_at, first_value) # _ \<Rightarrow>
              (let span = t - first_at; seen = (row_at t)\<lparr>wr_observed := Some observed, wr_expected := Some first_value\<rparr> in
               if span < min (cc_score_window cfg) 10 then (seen\<lparr>wr_status := ''warming''\<rparr>, c)
               else let rise = max 0 (observed - first_value);
                        rate = rise * 60 / span;
                        score = min 1 (rate / cc_open_above cfg);
                        summary = \<lparr>ws_target = cc_channel cfg, ws_expected = first_value, ws_observed = observed,
                          ws_unit = reading_unit rs (cc_channel cfg), ws_residual = rise, ws_session = cn_session c,
                          ws_evidence = CounterEvidence rate (cc_open_above cfg) span\<rparr>
                 in case transition uid t (rate \<ge> cc_open_above cfg) score summary (cc_severity cfg) (cn_finding c) of
                      (reported, held) \<Rightarrow>
                        (seen\<lparr>wr_score := Some score, wr_residual := Some rise, wr_status := ''ready'', wr_finding := reported\<rparr>,
                         c\<lparr>cn_score := score, cn_finding := held\<rparr>)))"

type_synonym counter_model = "int \<times> counter_config \<times> counter"

definition counter_snapshot :: "counter \<Rightarrow> counter_model" where
  "counter_snapshot c = (1, cn_config c, c)"

definition counter_restore :: "counter_model \<Rightarrow> counter \<Rightarrow> counter res" where
  "counter_restore m c = (case m of (version, cfg, st) \<Rightarrow>
     if version \<noteq> 1 \<or> cfg \<noteq> cn_config c then Inl ValueError
     else Inr (c\<lparr>cn_session := cn_session st, cn_units := cn_units st, cn_history := last_n MAX_COUNTER_HISTORY (cn_history st),
       cn_score := cn_score st, cn_finding := cn_finding st\<rparr>))"

section \<open>Scores\<close>

lemma score_gain_bounds: "0 < w \<Longrightarrow> 0 < score_gain w \<and> score_gain w < 1"
  by (simp add: score_gain_def divide_neg_pos)

lemma smooth_bounds:
  assumes "0 < w" "0 \<le> e" "e \<le> 1" "0 \<le> s" "s \<le> 1"
  shows "0 \<le> smooth w e s \<and> smooth w e s \<le> 1"
proof -
  note g = score_gain_bounds[OF assms(1)]
  have eq: "smooth w e s = (1 - score_gain w) * s + score_gain w * e" by (simp add: smooth_def algebra_simps)
  from g assms show ?thesis unfolding eq by (auto intro!: convex_bound_le)
qed

section \<open>The contract of a monitor\<close>

text \<open>
  What the three per-second kinds promise: a second without an opinion leaves the finding alone and
  reports none; a second with one has a score between zero and one and moves the finding by \<open>transition\<close>,
  opening it exactly when the score is an alarm.
\<close>

definition opinion :: "watch_row \<Rightarrow> bool" where
  "opinion r \<longleftrightarrow> wr_status r = ''ready''"

text \<open>A run of a monitor over consecutive seconds: the rows and the monitor after them.\<close>

fun monitor_run ::
  "(string \<Rightarrow> real \<Rightarrow> readings \<Rightarrow> bool \<Rightarrow> 'm \<Rightarrow> watch_row \<times> 'm) \<Rightarrow> (string \<times> real \<times> readings \<times> bool) list \<Rightarrow> 'm \<Rightarrow> watch_row list \<times> 'm" where
  "monitor_run evaluate [] m = ([], m)"
| "monitor_run evaluate ((uid, t, rs, valid) # xs) m =
     (case evaluate uid t rs valid m of (r, m1) \<Rightarrow> (case monitor_run evaluate xs m1 of (rows, m2) \<Rightarrow> (r # rows, m2)))"

definition scores :: "watch_row list \<Rightarrow> real list" where
  "scores rows = concat (map (\<lambda>r. case wr_score r of None \<Rightarrow> [] | Some s \<Rightarrow> [s]) rows)"

locale finding_monitor =
  fixes evaluate :: "string \<Rightarrow> real \<Rightarrow> readings \<Rightarrow> bool \<Rightarrow> 'm \<Rightarrow> watch_row \<times> 'm"
    and held :: "'m \<Rightarrow> watch_finding option" and inv :: "'m \<Rightarrow> bool" and alarm :: "'m \<Rightarrow> real \<Rightarrow> bool"
  assumes keeps: "inv m \<Longrightarrow> evaluate uid t rs valid m = (r, m') \<Longrightarrow> inv m' \<and> alarm m' = alarm m"
    and silent: "inv m \<Longrightarrow> evaluate uid t rs valid m = (r, m') \<Longrightarrow> \<not> opinion r \<Longrightarrow>
      wr_score r = None \<and> wr_finding r = None \<and> held m' = held m"
    and speaks: "inv m \<Longrightarrow> evaluate uid t rs valid m = (r, m') \<Longrightarrow> opinion r \<Longrightarrow>
      valid \<and> (\<exists>score summary severity. wr_score r = Some score \<and> 0 \<le> score \<and> score \<le> 1
        \<and> transition uid t (alarm m score) score summary severity (held m) = (wr_finding r, held m'))"
begin

lemma monitor_run_inv: "inv m \<Longrightarrow> monitor_run evaluate xs m = (rows, m') \<Longrightarrow> inv m' \<and> alarm m' = alarm m"
proof (induction xs arbitrary: m rows)
  case (Cons x xs)
  obtain uid t rs valid where x: "x = (uid, t, rs, valid)" by (rule prod_cases4)
  with Cons.prems obtain r m1 rows1 where "evaluate uid t rs valid m = (r, m1)" "monitor_run evaluate xs m1 = (rows1, m')"
    by (auto split: prod.splits)
  with Cons keeps[of m uid t rs valid r m1] show ?case by metis
qed simp

text \<open>An open finding is closed only by a second with an opinion whose score is no alarm, and that second reports it closed.\<close>

lemma closed_by_health:
  assumes "inv m" "evaluate uid t rs valid m = (r, m')" "held m = Some f" "held m' = None"
  shows "valid \<and> opinion r \<and> (\<exists>score. wr_score r = Some score \<and> \<not> alarm m score) \<and> wr_finding r = Some (f\<lparr>wf_closed := Some t\<rparr>)"
proof -
  have "opinion r" using silent[OF assms(1,2)] assms(3,4) by auto
  with speaks[OF assms(1,2)] assms(3,4) show ?thesis by (auto simp: transition_def Let_def split: if_splits)
qed

lemma open_step:
  assumes "inv m" "evaluate uid t rs valid m = (r, m')" "held m = Some f" "held m' \<noteq> None"
  shows "\<exists>f'. held m' = Some f' \<and> wf_id f' = wf_id f \<and> wf_opened f' = wf_opened f \<and> wf_closed f' = wf_closed f
    \<and> wf_peak f' = (case wr_score r of None \<Rightarrow> wf_peak f | Some s \<Rightarrow> max (wf_peak f) s)"
proof (cases "opinion r")
  case False
  with silent[OF assms(1,2)] assms(3) show ?thesis by auto
next
  case True
  with speaks[OF assms(1,2)] assms(3,4) show ?thesis by (auto simp: transition_def Let_def max_def split: if_splits)
qed

text \<open>Over a run in which no second is healthy the finding stays the same one, and its peak is the greatest score seen.\<close>

lemma finding_survives:
  assumes "inv m" "monitor_run evaluate xs m = (rows, m')" "held m = Some f" "\<forall>r \<in> set rows. \<forall>score. wr_score r = Some score \<longrightarrow> alarm m score"
  shows "\<exists>f'. held m' = Some f' \<and> wf_id f' = wf_id f \<and> wf_opened f' = wf_opened f \<and> wf_peak f' = fold max (scores rows) (wf_peak f)"
  using assms
proof (induction xs arbitrary: m rows f)
  case Nil
  then show ?case by (simp add: scores_def)
next
  case (Cons x xs)
  obtain uid t rs valid where x: "x = (uid, t, rs, valid)" by (rule prod_cases4)
  with Cons.prems obtain r m1 rows1 where ev: "evaluate uid t rs valid m = (r, m1)" and run: "monitor_run evaluate xs m1 = (rows1, m')" "rows = r # rows1"
    by (auto split: prod.splits)
  have "held m1 \<noteq> None" using closed_by_health[OF Cons.prems(1) ev Cons.prems(3)] Cons.prems(4) run(2) by auto
  from open_step[OF Cons.prems(1) ev Cons.prems(3) this] obtain f1
    where f1: "held m1 = Some f1" "wf_id f1 = wf_id f" "wf_opened f1 = wf_opened f"
      "wf_peak f1 = (case wr_score r of None \<Rightarrow> wf_peak f | Some s \<Rightarrow> max (wf_peak f) s)" by blast
  note k = keeps[OF Cons.prems(1) ev]
  from Cons.IH[of m1 rows1 f1] k run f1(1) Cons.prems(4)
  obtain f' where "held m' = Some f'" "wf_id f' = wf_id f1" "wf_opened f' = wf_opened f1" "wf_peak f' = fold max (scores rows1) (wf_peak f1)"
    by auto
  with f1 run(2) show ?case by (auto simp: scores_def max.commute split: option.splits)
qed

end

definition envelope_ok :: "envelope \<Rightarrow> bool" where
  [inv_defs]: "envelope_ok e \<longleftrightarrow> 0 \<le> en_score e \<and> en_score e \<le> 1 \<and> 0 < ec_score_window (en_config e)"

definition ratio_ok :: "ratio \<Rightarrow> bool" where
  [inv_defs]: "ratio_ok r \<longleftrightarrow> 0 \<le> ra_score r \<and> ra_score r \<le> 1 \<and> 0 < rc_score_window (ra_config r)"

definition counter_ok :: "counter \<Rightarrow> bool" where
  [inv_defs]: "counter_ok c \<longleftrightarrow> 0 < cc_score_window (cn_config c) \<and> 0 < cc_open_above (cn_config c)
     \<and> length (cn_history c) \<le> MAX_COUNTER_HISTORY"

lemma envelope_judge_props:
  assumes "envelope_ok e" "envelope_judge uid t rs stats e = (r, e')"
  shows "envelope_ok e'" "en_config e' = en_config e" "opinion r"
    "\<exists>score summary severity. wr_score r = Some score \<and> 0 \<le> score \<and> score \<le> 1
      \<and> transition uid t (score > ec_open_above (en_config e)) score summary severity (en_finding e) = (wr_finding r, en_finding e')"
proof -
  have b: "0 \<le> envelope_score rs stats e" "envelope_score rs stats e \<le> 1"
    unfolding envelope_score_def using assms(1) smooth_bounds by (auto simp: envelope_ok_def)
  let ?s = "envelope_score rs stats e"
  obtain reported held where tr: "transition uid t (?s > ec_open_above (en_config e)) ?s (envelope_summary rs stats e)
      (ec_severity (en_config e)) (en_finding e) = (reported, held)" by (rule prod.exhaust)
  with assms(2) have r: "wr_score r = Some ?s" "wr_finding r = reported" "opinion r" and e': "e' = e\<lparr>en_score := ?s, en_finding := held\<rparr>"
    by (auto simp: envelope_judge_def opinion_def Let_def)
  from assms(1) b e' r show "envelope_ok e'" "en_config e' = en_config e" "opinion r" by (simp_all add: envelope_ok_def)
  from b r tr e' show "\<exists>score summary severity. wr_score r = Some score \<and> 0 \<le> score \<and> score \<le> 1
      \<and> transition uid t (score > ec_open_above (en_config e)) score summary severity (en_finding e) = (wr_finding r, en_finding e')"
    by (intro exI conjI) auto
qed

interpretation env: finding_monitor envelope_evaluate en_finding envelope_ok "\<lambda>e score. score > ec_open_above (en_config e)"
proof
  fix e uid t rs valid r e'
  assume ok: "envelope_ok e" and ev: "envelope_evaluate uid t rs valid e = (r, e')"
  consider (judged) stats where "valid" "envelope_judge uid t rs stats (e\<lparr>en_units := units_of rs (envelope_channels (en_config e))\<rparr>) = (r, e')"
    | (silent) "\<not> opinion r" "wr_score r = None" "wr_finding r = None" "en_finding e' = en_finding e" "en_score e' = en_score e" "en_config e' = en_config e"
    using ev by (auto simp: envelope_evaluate_def envelope_freeze_def opinion_def row_at_def Let_def split: if_splits option.splits)
  note cases = this
  have ok1: "envelope_ok (e\<lparr>en_units := u\<rparr>)" for u using ok by (simp add: envelope_ok_def)
  show "envelope_ok e' \<and> (\<lambda>score. score > ec_open_above (en_config e')) = (\<lambda>score. score > ec_open_above (en_config e))"
    using cases
  proof cases
    case (judged stats)
    from envelope_judge_props(1,2)[OF ok1 judged(2)] show ?thesis by simp
  qed (use ok in \<open>simp add: envelope_ok_def\<close>)
  { assume "\<not> opinion r"
    then show "wr_score r = None \<and> wr_finding r = None \<and> en_finding e' = en_finding e"
      using cases envelope_judge_props(3)[OF ok1] by metis }
  { assume "opinion r"
    then obtain stats where j: "valid" "envelope_judge uid t rs stats (e\<lparr>en_units := units_of rs (envelope_channels (en_config e))\<rparr>) = (r, e')"
      using cases by metis
    from envelope_judge_props(4)[OF ok1 j(2)] j(1)
    show "valid \<and> (\<exists>score summary severity. wr_score r = Some score \<and> 0 \<le> score \<and> score \<le> 1
        \<and> transition uid t (score > ec_open_above (en_config e)) score summary severity (en_finding e) = (wr_finding r, en_finding e'))"
      by simp }
qed

lemma ratio_judge_props:
  assumes "ratio_ok m" "ratio_judge uid t rs observed stats m = (r, m')"
  shows "ratio_ok m'" "ra_config m' = ra_config m" "opinion r"
    "\<exists>score summary severity. wr_score r = Some score \<and> 0 \<le> score \<and> score \<le> 1
      \<and> transition uid t (score > rc_open_above (ra_config m)) score summary severity (ra_finding m) = (wr_finding r, ra_finding m')"
proof -
  have b: "0 \<le> ratio_score observed stats m" "ratio_score observed stats m \<le> 1"
    unfolding ratio_score_def using assms(1) smooth_bounds by (auto simp: ratio_ok_def)
  let ?s = "ratio_score observed stats m"
  obtain reported held where tr: "transition uid t (?s > rc_open_above (ra_config m)) ?s (ratio_summary rs observed stats m)
      (rc_severity (ra_config m)) (ra_finding m) = (reported, held)" by (rule prod.exhaust)
  with assms(2) have r: "wr_score r = Some ?s" "wr_finding r = reported" "opinion r" and m': "m' = m\<lparr>ra_score := ?s, ra_finding := held\<rparr>"
    by (auto simp: ratio_judge_def opinion_def Let_def)
  from assms(1) b m' r show "ratio_ok m'" "ra_config m' = ra_config m" "opinion r" by (simp_all add: ratio_ok_def)
  from b r tr m' show "\<exists>score summary severity. wr_score r = Some score \<and> 0 \<le> score \<and> score \<le> 1
      \<and> transition uid t (score > rc_open_above (ra_config m)) score summary severity (ra_finding m) = (wr_finding r, ra_finding m')"
    by (intro exI conjI) auto
qed

lemma ratio_evaluate_cases:
  assumes "ratio_evaluate uid t rs valid m = (r, m')"
  obtains (judged) observed stats where "valid" "ratio_judge uid t rs observed stats (m\<lparr>ra_units := units_of rs (ratio_channels (ra_config m))\<rparr>) = (r, m')"
    | (silent) "\<not> opinion r" "wr_score r = None" "wr_finding r = None" "ra_finding m' = ra_finding m" "ra_score m' = ra_score m" "ra_config m' = ra_config m"
  using assms by (auto simp: ratio_evaluate_def ratio_freeze_def opinion_def row_at_def Let_def split: if_splits option.splits)

interpretation rat: finding_monitor ratio_evaluate ra_finding ratio_ok "\<lambda>m score. score > rc_open_above (ra_config m)"
proof
  fix m uid t rs valid r m'
  assume ok: "ratio_ok m" and ev: "ratio_evaluate uid t rs valid m = (r, m')"
  have ok1: "ratio_ok (m\<lparr>ra_units := u\<rparr>)" for u using ok by (simp add: ratio_ok_def)
  show "ratio_ok m' \<and> (\<lambda>score. score > rc_open_above (ra_config m')) = (\<lambda>score. score > rc_open_above (ra_config m))"
    using ev
  proof (cases rule: ratio_evaluate_cases)
    case (judged observed stats)
    from ratio_judge_props(1,2)[OF ok1 judged(2)] show ?thesis by simp
  qed (use ok in \<open>simp add: ratio_ok_def\<close>)
  { assume "\<not> opinion r"
    with ev show "wr_score r = None \<and> wr_finding r = None \<and> ra_finding m' = ra_finding m"
      by (cases rule: ratio_evaluate_cases) (use ratio_judge_props(3)[OF ok1] in auto) }
  { assume "opinion r"
    with ev obtain observed stats where j: "valid" "ratio_judge uid t rs observed stats (m\<lparr>ra_units := units_of rs (ratio_channels (ra_config m))\<rparr>) = (r, m')"
      by (cases rule: ratio_evaluate_cases) auto
    from ratio_judge_props(4)[OF ok1 j(2)] j(1)
    show "valid \<and> (\<exists>score summary severity. wr_score r = Some score \<and> 0 \<le> score \<and> score \<le> 1
        \<and> transition uid t (score > rc_open_above (ra_config m)) score summary severity (ra_finding m) = (wr_finding r, ra_finding m'))"
      by simp }
qed

lemma push_history_props:
  assumes "0 \<le> window"
  shows "push_history window t v h \<noteq> []" "last (push_history window t v h) = (t, v)"
    "length (push_history window t v h) \<le> MAX_COUNTER_HISTORY" "t - fst (hd (push_history window t v h)) \<le> window"
proof -
  let ?l = "last_n MAX_COUNTER_HISTORY (h @ [(t, v)])"
  have l: "?l \<noteq> []" "last ?l = (t, v)" using last_n_props(3,4)[of "h @ [(t, v)]" MAX_COUNTER_HISTORY] by (simp_all add: MAX_COUNTER_HISTORY_def)
  then have mem: "(t, v) \<in> set ?l" using last_in_set by metis
  then show ne: "push_history window t v h \<noteq> []" using assms by (auto simp: push_history_def dropWhile_eq_Nil_conv intro!: bexI[of _ "(t, v)"])
  have "takeWhile (\<lambda>x. t - fst x > window) ?l @ push_history window t v h = ?l" by (simp add: push_history_def)
  then show "last (push_history window t v h) = (t, v)" using l(2) ne by (metis last_appendR)
  show "length (push_history window t v h) \<le> MAX_COUNTER_HISTORY"
    unfolding push_history_def using last_n_props(1) length_dropWhile_le by (metis order_trans)
  show "t - fst (hd (push_history window t v h)) \<le> window"
    using hd_dropWhile[of "\<lambda>x. t - fst x > window" ?l] ne by (simp add: push_history_def)
qed

lemma rate_alarm: "0 < (b :: real) \<Longrightarrow> (rate \<ge> b) = (min 1 (rate / b) \<ge> 1)"
  by (simp add: field_simps)

lemma counter_evaluate_cases:
  assumes ok: "counter_ok m" and ev: "counter_evaluate uid t rs valid m = (r, m')"
  shows "counter_ok m' \<and> cn_config m' = cn_config m
    \<and> (if opinion r then valid \<and> (\<exists>score summary severity. wr_score r = Some score \<and> 0 \<le> score \<and> score \<le> 1
          \<and> transition uid t (score \<ge> 1) score summary severity (cn_finding m) = (wr_finding r, cn_finding m'))
       else wr_score r = None \<and> wr_finding r = None \<and> cn_finding m' = cn_finding m)"
proof (cases "valid \<and> gates_hold (cc_when (cn_config m)) rs")
  case False
  with ev ok show ?thesis by (auto simp: counter_evaluate_def opinion_def row_at_def Let_def)
next
  case True
  let ?cfg = "cn_config m" let ?v = "reading_value rs (cc_channel (cn_config m))"
  have w: "0 < cc_score_window ?cfg" "0 < cc_open_above ?cfg" using ok by (simp_all add: counter_ok_def)
  note h = push_history_props[of "cc_score_window ?cfg" t ?v "cn_history m"]
  obtain a v0 rest where hist: "push_history (cc_score_window ?cfg) t ?v (cn_history m) = (a, v0) # rest"
    using h(1) w(1) by (cases "push_history (cc_score_window ?cfg) t ?v (cn_history m)") auto
  let ?c = "m\<lparr>cn_units := units_of rs (counter_channels ?cfg), cn_history := (a, v0) # rest\<rparr>"
  have ok1: "counter_ok ?c" using ok h(3) w(1) hist by (simp add: counter_ok_def)
  show ?thesis
  proof (cases "t - a < min (cc_score_window ?cfg) 10")
    case warming: True
    with ev True hist ok1 show ?thesis by (auto simp: counter_evaluate_def opinion_def row_at_def Let_def)
  next
    case False
    let ?rate = "max 0 (?v - v0) * 60 / (t - a)" let ?s = "min 1 (?rate / cc_open_above ?cfg)"
    have span: "0 < t - a" using False w(1) by (auto simp: min_def split: if_splits)
    have score: "0 \<le> ?s" "?s \<le> 1" using w(2) span by auto
    have alarm: "(?rate \<ge> cc_open_above ?cfg) = (?s \<ge> 1)" by (rule rate_alarm[OF w(2)])
    obtain summary where ev': "(case transition uid t (?rate \<ge> cc_open_above ?cfg) ?s summary (cc_severity ?cfg) (cn_finding m) of (reported, held) \<Rightarrow>
        ((row_at t)\<lparr>wr_observed := Some ?v, wr_expected := Some v0, wr_score := Some ?s, wr_residual := Some (max 0 (?v - v0)), wr_status := ''ready'', wr_finding := reported\<rparr>,
         ?c\<lparr>cn_score := ?s, cn_finding := held\<rparr>)) = (r, m')"
      using ev True False hist unfolding counter_evaluate_def Let_def by (simp only: simp_thms if_False if_True not_True_eq_False list.case prod.case) auto
    obtain reported held where tr: "transition uid t (?rate \<ge> cc_open_above ?cfg) ?s summary (cc_severity ?cfg) (cn_finding m) = (reported, held)"
      by (rule prod.exhaust)
    with ev' have "wr_score r = Some ?s" "wr_finding r = reported" "opinion r" "m' = ?c\<lparr>cn_score := ?s, cn_finding := held\<rparr>"
      by (auto simp: opinion_def)
    with tr score alarm ok1 True show ?thesis by (auto simp: counter_ok_def)
  qed
qed

interpretation cnt: finding_monitor counter_evaluate cn_finding counter_ok "\<lambda>m score. score \<ge> 1"
  by unfold_locales (use counter_evaluate_cases in \<open>fastforce split: if_splits\<close>)+


section \<open>The drift statistic\<close>

text \<open>The accumulated excess of residuals over the allowance, and the greatest over all recent stretches of laps.\<close>

definition excess :: "real \<Rightarrow> real list \<Rightarrow> real" where
  "excess k xs = (\<Sum>x\<leftarrow>xs. x - k)"

definition greatest_excess :: "real \<Rightarrow> real list \<Rightarrow> real" where
  "greatest_excess k xs = Max ((\<lambda>i. excess k (drop i xs)) ` {..length xs})"

lemma greatest_excess_snoc: "greatest_excess k (xs @ [x]) = max 0 (greatest_excess k xs + x - k)"
proof -
  have idx: "{..length (xs @ [x])} = insert (length (xs @ [x])) {..length xs}" by auto
  have img: "(\<lambda>i. excess k (drop i (xs @ [x]))) ` {..length xs} = (\<lambda>e. e + (x - k)) ` (\<lambda>i. excess k (drop i xs)) ` {..length xs}"
    by (auto simp: excess_def image_iff)
  have "Max ((\<lambda>e. e + (x - k)) ` (\<lambda>i. excess k (drop i xs)) ` {..length xs}) = greatest_excess k xs + (x - k)"
    unfolding greatest_excess_def by (rule mono_Max_commute[symmetric]) (auto intro: monoI)
  moreover have "excess k (drop (length (xs @ [x])) (xs @ [x])) = 0" by (simp add: excess_def)
  ultimately show ?thesis
    unfolding greatest_excess_def[of k "xs @ [x]"] idx image_insert img by (subst Max_insert) (auto simp: algebra_simps)
qed

lemma greatest_excess_fold: "fold (\<lambda>x c. max 0 (c + x - k)) xs 0 = greatest_excess k xs"
  by (induction xs rule: rev_induct) (simp_all add: greatest_excess_snoc, simp add: greatest_excess_def excess_def)

lemma greatest_excess_ge: "h \<le> greatest_excess k xs \<longleftrightarrow> (\<exists>i \<le> length xs. h \<le> excess k (drop i xs))"
  unfolding greatest_excess_def by (subst Max_ge_iff) auto

type_synonym lap_report = "string \<times> json \<times> real \<times> int \<times> real"

definition judge_report :: "lap_report \<Rightarrow> drift_monitor \<Rightarrow> drift_monitor" where
  "judge_report rep d = (case rep of (uid, lap_number, lap_mean, n, t) \<Rightarrow> judge_lap uid lap_number lap_mean n t d)"

definition residuals :: "drift_monitor \<Rightarrow> lap_report list \<Rightarrow> real list" where
  "residuals d reps = map (\<lambda>rep. (fst (snd (snd rep)) - dr_mean d) / dr_scale d) reps"

definition never_opened :: "drift_monitor \<Rightarrow> lap_report list \<Rightarrow> bool" where
  "never_opened d reps \<longleftrightarrow> (\<forall>j \<le> length reps. dr_finding (fold judge_report (take j reps) d) = None)"

lemma judge_lap_fields:
  assumes "drift_sums (lap_residual lap_mean d) d = (up, down, calm)"
  shows "dr_up (judge_lap uid no lap_mean n t d) = up" "dr_down (judge_lap uid no lap_mean n t d) = down"
    "dr_mean (judge_lap uid no lap_mean n t d) = dr_mean d" "dr_scale (judge_lap uid no lap_mean n t d) = dr_scale d"
    "dr_config (judge_lap uid no lap_mean n t d) = dr_config d"
    "length (dr_laps (judge_lap uid no lap_mean n t d)) \<le> MAX_LAP_SERIES"
    "dr_score (judge_lap uid no lap_mean n t d) = min 1 (max up down / dc_cusum_h (dr_config d))"
    "dr_finding d = None \<Longrightarrow> (dr_finding (judge_lap uid no lap_mean n t d) = None) = (max up down < dc_cusum_h (dr_config d))"
proof -
  have tr: "(snd (transition uid t now score summary severity None) = None) = (\<not> now)" for now score summary severity
    by (simp add: transition_def Let_def)
  show "dr_up (judge_lap uid no lap_mean n t d) = up" "dr_down (judge_lap uid no lap_mean n t d) = down"
    "dr_mean (judge_lap uid no lap_mean n t d) = dr_mean d" "dr_scale (judge_lap uid no lap_mean n t d) = dr_scale d"
    "dr_config (judge_lap uid no lap_mean n t d) = dr_config d"
    "length (dr_laps (judge_lap uid no lap_mean n t d)) \<le> MAX_LAP_SERIES"
    "dr_score (judge_lap uid no lap_mean n t d) = min 1 (max up down / dc_cusum_h (dr_config d))"
    by (simp_all add: judge_lap_def assms Let_def last_n_props(1) del: max_less_iff_conj split: prod.split)
  assume "dr_finding d = None"
  then have "dr_finding (judge_lap uid no lap_mean n t d) = snd (transition uid t (max up down \<ge> dc_cusum_h (dr_config d)) (min 1 (max up down / dc_cusum_h (dr_config d)))
      (lap_drift_summary lap_mean up down (dr_laps (judge_lap uid no lap_mean n t d)) d) (dc_severity (dr_config d)) None)"
    by (simp add: judge_lap_def assms Let_def del: le_max_iff_disj split: prod.split)
  then show "(dr_finding (judge_lap uid no lap_mean n t d) = None) = (max up down < dc_cusum_h (dr_config d))"
    by (simp add: tr not_le del: le_max_iff_disj)
qed

lemma judge_report_fixed:
  "dr_mean (judge_report rep d) = dr_mean d" "dr_scale (judge_report rep d) = dr_scale d" "dr_config (judge_report rep d) = dr_config d"
proof -
  obtain uid no m n t where rep: "rep = (uid, no, m, n, t)" by (rule prod_cases5)
  obtain up down calm where "drift_sums (lap_residual m d) d = (up, down, calm)" by (rule prod_cases3)
  from judge_lap_fields(3-5)[OF this] show "dr_mean (judge_report rep d) = dr_mean d" "dr_scale (judge_report rep d) = dr_scale d"
      "dr_config (judge_report rep d) = dr_config d" by (simp_all add: rep judge_report_def)
qed

lemma judge_reports_fixed:
  "dr_mean (fold judge_report reps d) = dr_mean d" "dr_scale (fold judge_report reps d) = dr_scale d"
  "dr_config (fold judge_report reps d) = dr_config d"
  by (induction reps arbitrary: d) (simp_all add: judge_report_fixed)

lemma judge_report_sums:
  assumes "dr_finding d = None" "dc_direction (dr_config d) = Both"
  shows "dr_up (judge_report rep d) = max 0 (dr_up d + hd (residuals d [rep]) - dc_cusum_k (dr_config d))"
    "dr_down (judge_report rep d) = max 0 (dr_down d - hd (residuals d [rep]) - dc_cusum_k (dr_config d))"
    "(dr_finding (judge_report rep d) = None) = (max (dr_up (judge_report rep d)) (dr_down (judge_report rep d)) < dc_cusum_h (dr_config d))"
proof -
  obtain uid no m n t where rep: "rep = (uid, no, m, n, t)" by (rule prod_cases5)
  let ?r = "lap_residual m d" let ?k = "dc_cusum_k (dr_config d)"
  have sums: "drift_sums ?r d = (max 0 (dr_up d + ?r - ?k), max 0 (dr_down d + - ?r - ?k), if \<bar>?r\<bar> \<le> 1 then dr_calm d + 1 else 0)"
    using assms by (simp add: drift_sums_def cusum_step_def Let_def)
  note f = judge_lap_fields[OF sums]
  have r: "hd (residuals d [rep]) = ?r" by (simp add: residuals_def rep lap_residual_def)
  show "dr_up (judge_report rep d) = max 0 (dr_up d + hd (residuals d [rep]) - ?k)"
    "dr_down (judge_report rep d) = max 0 (dr_down d - hd (residuals d [rep]) - ?k)"
    unfolding r by (simp_all add: rep judge_report_def f(1,2))
  show "(dr_finding (judge_report rep d) = None) = (max (dr_up (judge_report rep d)) (dr_down (judge_report rep d)) < dc_cusum_h (dr_config d))"
    using f(8)[OF assms(1)] by (simp add: rep judge_report_def f(1,2) del: max_less_iff_conj)
qed

lemma drift_run:
  assumes "dr_up d = 0" "dr_down d = 0" "dr_finding d = None" "dc_direction (dr_config d) = Both"
  shows "(never_opened d reps \<longrightarrow> dr_up (fold judge_report reps d) = greatest_excess (dc_cusum_k (dr_config d)) (residuals d reps)
        \<and> dr_down (fold judge_report reps d) = greatest_excess (dc_cusum_k (dr_config d)) (map uminus (residuals d reps)))
    \<and> (never_opened d reps \<longleftrightarrow> (\<forall>j \<le> length reps. j > 0 \<longrightarrow>
         max (greatest_excess (dc_cusum_k (dr_config d)) (residuals d (take j reps)))
           (greatest_excess (dc_cusum_k (dr_config d)) (map uminus (residuals d (take j reps)))) < dc_cusum_h (dr_config d)))"
proof (induction reps rule: rev_induct)
  case Nil
  then show ?case using assms by (simp add: never_opened_def residuals_def greatest_excess_def excess_def)
next
  case (snoc rep reps)
  let ?d1 = "fold judge_report reps d" let ?k = "dc_cusum_k (dr_config d)"
  have split: "never_opened d (reps @ [rep]) \<longleftrightarrow> never_opened d reps \<and> dr_finding (judge_report rep ?d1) = None"
    by (auto simp: never_opened_def le_Suc_eq)
  have res: "residuals d (reps @ [rep]) = residuals d reps @ [hd (residuals ?d1 [rep])]"
    by (simp add: residuals_def judge_reports_fixed)
  have step: "dr_up (judge_report rep ?d1) = greatest_excess ?k (residuals d (reps @ [rep])) \<and>
      dr_down (judge_report rep ?d1) = greatest_excess ?k (map uminus (residuals d (reps @ [rep]))) \<and>
      (dr_finding (judge_report rep ?d1) = None) = (max (greatest_excess ?k (residuals d (reps @ [rep])))
           (greatest_excess ?k (map uminus (residuals d (reps @ [rep])))) < dc_cusum_h (dr_config d))" if n: "never_opened d reps"
  proof -
    have f: "dr_finding ?d1 = None" using n by (auto simp: never_opened_def)
    have dir: "dc_direction (dr_config ?d1) = Both" using assms(4) by (simp add: judge_reports_fixed)
    note sums = judge_report_sums[OF f dir, of rep]
    show ?thesis using sums snoc.IH n by (simp add: res greatest_excess_snoc judge_reports_fixed algebra_simps)
  qed
  show ?case
  proof (intro conjI)
    show "never_opened d (reps @ [rep]) \<longrightarrow> dr_up (fold judge_report (reps @ [rep]) d) = greatest_excess ?k (residuals d (reps @ [rep]))
        \<and> dr_down (fold judge_report (reps @ [rep]) d) = greatest_excess ?k (map uminus (residuals d (reps @ [rep])))"
      using split step by simp
    show "never_opened d (reps @ [rep]) \<longleftrightarrow> (\<forall>j \<le> length (reps @ [rep]). j > 0 \<longrightarrow>
         max (greatest_excess ?k (residuals d (take j (reps @ [rep])))) (greatest_excess ?k (map uminus (residuals d (take j (reps @ [rep])))))
           < dc_cusum_h (dr_config d))"
      using split step snoc.IH by (auto simp: le_Suc_eq)
  qed
qed

lemma excess_bound:
  assumes "0 < h"
  shows "greatest_excess k xs < h \<longleftrightarrow> (\<forall>i \<le> length xs. excess k (drop i xs) < h)"
  using greatest_excess_ge[of h k xs] by (meson not_le)

text \<open>
  C26. The drift monitor opens a finding exactly on a sustained change. From a frozen baseline, laps
  leave the monitor quiet if and only if over no stretch of consecutive laps the residuals, in baseline standard deviations
  and in either direction, exceed the allowance per lap by the threshold in total; the two running
  sums are the greatest such excess over the stretches that end with the last lap.
\<close>
theorem drift_opens_on_sustained_change:
  assumes "dr_up d = 0" and "dr_down d = 0" and "dr_finding d = None" and "dc_direction (dr_config d) = Both" and "0 < dc_cusum_h (dr_config d)"
  shows "(never_opened d reps \<longleftrightarrow> (\<forall>i j. i \<le> j \<and> j \<le> length reps \<longrightarrow>
      excess (dc_cusum_k (dr_config d)) (drop i (residuals d (take j reps))) < dc_cusum_h (dr_config d)
      \<and> excess (dc_cusum_k (dr_config d)) (drop i (map uminus (residuals d (take j reps)))) < dc_cusum_h (dr_config d)))
    \<and> (never_opened d reps \<longrightarrow> dr_up (fold judge_report reps d) = greatest_excess (dc_cusum_k (dr_config d)) (residuals d reps)
      \<and> dr_down (fold judge_report reps d) = greatest_excess (dc_cusum_k (dr_config d)) (map uminus (residuals d reps)))"
proof (intro conjI impI)
  let ?k = "dc_cusum_k (dr_config d)" let ?h = "dc_cusum_h (dr_config d)"
  note run = drift_run[OF assms(1-4), of reps]
  have len: "length (residuals d (take j reps)) = min j (length reps)" for j by (simp add: residuals_def)
  have "never_opened d reps \<longleftrightarrow> (\<forall>j \<le> length reps. greatest_excess ?k (residuals d (take j reps)) < ?h
      \<and> greatest_excess ?k (map uminus (residuals d (take j reps))) < ?h)"
    using run assms(5) by (auto simp: residuals_def greatest_excess_def excess_def)
  also have "\<dots> \<longleftrightarrow> (\<forall>i j. i \<le> j \<and> j \<le> length reps \<longrightarrow> excess ?k (drop i (residuals d (take j reps))) < ?h
      \<and> excess ?k (drop i (map uminus (residuals d (take j reps)))) < ?h)"
    by (auto simp: excess_bound[OF assms(5)] len)
  finally show "never_opened d reps \<longleftrightarrow> (\<forall>i j. i \<le> j \<and> j \<le> length reps \<longrightarrow> excess ?k (drop i (residuals d (take j reps))) < ?h
      \<and> excess ?k (drop i (map uminus (residuals d (take j reps)))) < ?h)" .
  assume "never_opened d reps"
  with run show "dr_up (fold judge_report reps d) = greatest_excess ?k (residuals d reps)"
    and "dr_down (fold judge_report reps d) = greatest_excess ?k (map uminus (residuals d reps))" by blast+
qed

definition wit_drift :: drift_monitor where
  "wit_drift = (drift_new \<lparr>dc_target = ''oil'', dc_when = [], dc_baseline_laps = 5, dc_min_lap_samples = 20, dc_min_scale = 1 / 100,
     dc_cusum_k = 1 / 2, dc_cusum_h = 4, dc_direction = Both, dc_severity = ''warning''\<rparr>)\<lparr>dr_frozen := True, dr_mean := 90, dr_scale := 1\<rparr>"

theorem drift_opens_on_sustained_change_witness:
  "\<not> never_opened wit_drift [(''a'', JInt 6, 93, 60, 1), (''b'', JInt 7, 93, 60, 2)]"
proof -
  let ?reps = "[(''a'', JInt 6, 93, 60, 1), (''b'', JInt 7, 93, 60, 2)]"
  have "excess (dc_cusum_k (dr_config wit_drift)) (drop 0 (residuals wit_drift (take 2 ?reps))) = 5"
    by (simp add: excess_def residuals_def wit_drift_def drift_new_def)
  moreover have "dc_cusum_h (dr_config wit_drift) = 4" by (simp add: wit_drift_def drift_new_def)
  ultimately have "\<not> excess (dc_cusum_k (dr_config wit_drift)) (drop 0 (residuals wit_drift (take 2 ?reps))) < dc_cusum_h (dr_config wit_drift)" by linarith
  with drift_opens_on_sustained_change[of wit_drift ?reps, THEN conjunct1] show ?thesis
    by (force simp: wit_drift_def drift_new_def)
qed

definition wit_finding :: watch_finding where
  "wit_finding = \<lparr>wf_id = ''f'', wf_opened = 0, wf_closed = None, wf_severity = ''warning'', wf_peak = 9 / 10,
     wf_summary = \<lparr>ws_target = ''oil'', ws_expected = 0, ws_observed = 0, ws_unit = [], ws_residual = 0, ws_session = None, ws_evidence = CounterEvidence 0 1 1\<rparr>\<rparr>"

definition wit_envelope :: envelope where
  "wit_envelope = (envelope_new \<lparr>ec_target = ''oil'', ec_conditions = [], ec_baseline_seconds = 180, ec_min_bin_samples = 50, ec_residual_sigma = 3,
     ec_min_scale = 1 / 100, ec_score_window = 30, ec_open_above = 4 / 5, ec_severity = ''warning''\<rparr>)\<lparr>en_frozen := True, en_finding := Some wit_finding\<rparr>"

definition wit_ratio :: ratio where
  "wit_ratio = ratio_new \<lparr>rc_numerator = ''a'', rc_denominators = [''b''], rc_per = None, rc_when = [], rc_baseline_seconds = 180, rc_min_group_samples = 30,
     rc_residual_sigma = 3, rc_min_scale = 1 / 1000, rc_score_window = 30, rc_open_above = 4 / 5, rc_low_means = None, rc_high_means = None, rc_severity = ''warning''\<rparr>"

definition wit_counter :: counter where
  "wit_counter = counter_new \<lparr>cc_channel = ''c'', cc_when = [], cc_score_window = 60, cc_open_above = 1, cc_severity = ''warning''\<rparr>"


section \<open>Checkpoints\<close>

datatype drift_op = OnPit | OnLap string bool json real | EvaluateDrift real readings bool

fun drift_step :: "drift_op \<Rightarrow> drift_monitor \<Rightarrow> drift_monitor" where
  "drift_step OnPit d = on_pit d"
| "drift_step (OnLap uid valid lap_number t) d = on_lap uid valid lap_number t d"
| "drift_step (EvaluateDrift t rs valid) d = snd (drift_evaluate t rs valid d)"

definition drift_ok :: "drift_config \<Rightarrow> drift_monitor \<Rightarrow> bool" where
  [inv_defs]: "drift_ok cfg d \<longleftrightarrow> dr_config d = cfg \<and> length (dr_laps d) \<le> MAX_LAP_SERIES \<and> 0 \<le> dr_score d \<and> dr_score d \<le> 1
     \<and> 0 \<le> dr_up d \<and> 0 \<le> dr_down d \<and> 0 < dc_cusum_h cfg"

lemma drift_sums_nonneg: "0 \<le> dr_up d \<Longrightarrow> 0 \<le> dr_down d \<Longrightarrow> drift_sums r d = (up, down, calm) \<Longrightarrow> 0 \<le> up \<and> 0 \<le> down"
  by (auto simp: drift_sums_def cusum_step_def Let_def split: if_splits)

lemma judge_lap_ok:
  assumes "drift_ok cfg d" shows "drift_ok cfg (judge_lap uid no lap_mean n t d)"
proof -
  obtain up down calm where s: "drift_sums (lap_residual lap_mean d) d = (up, down, calm)" by (rule prod_cases3)
  note f = judge_lap_fields[OF s, of uid no n t]
  from drift_sums_nonneg[OF _ _ s] assms have "0 \<le> up" "0 \<le> down" by (simp_all add: drift_ok_def)
  with f assms show ?thesis by (auto simp: drift_ok_def)
qed

lemma drift_step_ok:
  assumes "drift_ok cfg d" shows "drift_ok cfg (drift_step x d)"
proof (cases x)
  case OnPit
  with assms show ?thesis by (simp add: drift_ok_def on_pit_def)
next
  case (OnLap uid valid no t)
  have "drift_ok cfg (d\<lparr>dr_sum := 0, dr_n := 0, dr_dirty := False\<rparr>)" using assms by (simp add: drift_ok_def)
  from judge_lap_ok[OF this] OnLap assms show ?thesis
    by (simp add: on_lap_def Let_def) (simp add: drift_ok_def drift_freeze_def)
next
  case (EvaluateDrift t rs valid)
  with assms show ?thesis by (auto simp: drift_evaluate_def drift_ok_def Let_def split: if_splits)
qed

interpretation drifts: step_machine drift_step "drift_ok cfg" for cfg
  by unfold_locales (rule drift_step_ok)

text \<open>
  A checkpoint restores the monitor. Whatever a monitor has seen, the model it writes and a fresh
  monitor of the same configuration give back the same monitor (a drift monitor without the one report it had
  not yet handed over), so that learning and open findings survive a restart; a model fitted under
  another configuration is refused. The drift score stays between zero and one throughout.
\<close>
theorem checkpoint_roundtrip:
  assumes "counter_ok c" and "0 < dc_cusum_h cfg" and "d = fold drift_step ops (drift_new cfg)"
  shows "envelope_restore (envelope_snapshot e) (envelope_new (en_config e)) = Inr e
    \<and> ratio_restore (ratio_snapshot q) (ratio_new (ra_config q)) = Inr q
    \<and> counter_restore (counter_snapshot c) (counter_new (cn_config c)) = Inr c
    \<and> drift_restore (drift_snapshot d) (drift_new cfg) = Inr (d\<lparr>dr_pending := None\<rparr>)
    \<and> 0 \<le> dr_score d \<and> dr_score d \<le> 1
    \<and> (\<forall>cfg'. cfg' \<noteq> cfg \<longrightarrow> drift_restore (drift_snapshot d) (drift_new cfg') = Inl ValueError)
    \<and> (\<forall>cfg'. cfg' \<noteq> en_config e \<longrightarrow> envelope_restore (envelope_snapshot e) (envelope_new cfg') = Inl ValueError)"
proof -
  have "drift_ok cfg (drift_new cfg)" using assms(2) by (simp add: drift_ok_def drift_new_def)
  from drifts.run_inv[OF this, of ops] assms(3) have ok: "drift_ok cfg d" by simp
  then have "last_n MAX_LAP_SERIES (dr_laps d) = dr_laps d" by (simp add: drift_ok_def last_n_props(2))
  moreover have "last_n MAX_COUNTER_HISTORY (cn_history c) = cn_history c" using assms(1) by (simp add: counter_ok_def last_n_props(2))
  ultimately show ?thesis using ok
    by (simp add: envelope_restore_def envelope_snapshot_def envelope_new_def ratio_restore_def ratio_snapshot_def ratio_new_def
        counter_restore_def counter_snapshot_def counter_new_def drift_restore_def drift_snapshot_def drift_new_def drift_ok_def)
qed

theorem checkpoint_roundtrip_witness:
  "counter_restore (counter_snapshot wit_counter) (counter_new (cn_config wit_counter)) = Inr wit_counter
    \<and> drift_restore (drift_snapshot (fold drift_step [OnPit] (drift_new (dr_config wit_drift)))) (drift_new (dr_config wit_drift))
      = Inr ((fold drift_step [OnPit] (drift_new (dr_config wit_drift)))\<lparr>dr_pending := None\<rparr>)"
  using checkpoint_roundtrip[where c = wit_counter and cfg = "dr_config wit_drift" and ops = "[OnPit]" and e = wit_envelope and q = wit_ratio, OF _ _ refl]
  by (simp add: counter_ok_def wit_counter_def counter_new_def wit_drift_def drift_new_def)

end
