(* ===== verification/Watch_Engine.thy ===== *)
theory Watch_Engine
  imports Watch_Monitors
begin

text \<open>
  \<^verbatim>\<open>src/pit/watch/engine.py\<close> (\<open>WatchEngine\<close>) and the consumer of \<^verbatim>\<open>src/pit/watch/service.py\<close>: the
  newest reading per channel, the one-second tick over all monitors, the reorder buffer in front
  of them and the roll-back of a second that could not be written.

  The monitors are the envelope, drift, ratio and counter kinds; the whole-car kind is a regression
  over numpy matrices and is not modelled. \<open>loads\<close> is \<open>json.loads\<close>, \<open>uid\<close> gives each monitor the
  identifier a new finding gets. The heap of pending samples is the list of its entries in heap order,
  by capture time and arrival.
\<close>

section \<open>Monitors\<close>

datatype monitor = MEnvelope envelope | MDrift drift_monitor | MRatio ratio | MCounter counter

datatype monitor_config = CEnvelope envelope_config | CDrift drift_config | CRatio ratio_config | CCounter counter_config

fun build_monitor :: "monitor_config \<Rightarrow> monitor" where
  "build_monitor (CEnvelope cfg) = MEnvelope (envelope_new cfg)"
| "build_monitor (CDrift cfg) = MDrift (drift_new cfg)"
| "build_monitor (CRatio cfg) = MRatio (ratio_new cfg)"
| "build_monitor (CCounter cfg) = MCounter (counter_new cfg)"

fun monitor_channels :: "monitor \<Rightarrow> string list" where
  "monitor_channels (MEnvelope e) = envelope_channels (en_config e)"
| "monitor_channels (MDrift d) = drift_channels (dr_config d)"
| "monitor_channels (MRatio r) = ratio_channels (ra_config r)"
| "monitor_channels (MCounter c) = counter_channels (cn_config c)"

fun evaluate_monitor :: "string \<Rightarrow> real \<Rightarrow> readings \<Rightarrow> bool \<Rightarrow> monitor \<Rightarrow> watch_row \<times> monitor" where
  "evaluate_monitor uid t rs valid (MEnvelope e) = map_prod id MEnvelope (envelope_evaluate uid t rs valid e)"
| "evaluate_monitor uid t rs valid (MDrift d) = map_prod id MDrift (drift_evaluate t rs valid d)"
| "evaluate_monitor uid t rs valid (MRatio r) = map_prod id MRatio (ratio_evaluate uid t rs valid r)"
| "evaluate_monitor uid t rs valid (MCounter c) = map_prod id MCounter (counter_evaluate uid t rs valid c)"

section \<open>Engine\<close>

record watch_engine =
  we_rpm_min :: real
  we_max_age :: real
  we_monitors :: "(string \<times> monitor) list"
  we_readings :: readings
  we_pit_status :: json
  we_pit_time :: "real option"
  we_last_tick :: "int option"

definition engine_new :: "real \<Rightarrow> real \<Rightarrow> (string \<times> monitor_config) list \<Rightarrow> watch_engine" where
  "engine_new rpm_min max_age cfgs = \<lparr>we_rpm_min = rpm_min, we_max_age = max_age,
     we_monitors = map (\<lambda>(name, cfg). (name, build_monitor cfg)) cfgs, we_readings = Map.empty, we_pit_status = JNull,
     we_pit_time = None, we_last_tick = None\<rparr>"

definition input_channels :: "watch_engine \<Rightarrow> string set" where
  "input_channels g = {''car.rpm'', ''lap.event''} \<union> (\<Union>(name, m) \<in> set (we_monitors g). set (monitor_channels m))"

text \<open>Lap boundaries and pit visits go to the monitors that reason per lap.\<close>

fun lap_to_monitor :: "string \<Rightarrow> (string \<times> json) list \<Rightarrow> real \<Rightarrow> monitor \<Rightarrow> monitor" where
  "lap_to_monitor uid event t (MDrift d) =
     MDrift (on_lap uid (truthy (jget_or event ''valid'' (JBool True))) (jget event ''lap_number'') t d)"
| "lap_to_monitor uid event t m = m"

fun pit_to_monitor :: "monitor \<Rightarrow> monitor" where
  "pit_to_monitor (MDrift d) = MDrift (on_pit d)"
| "pit_to_monitor m = m"

definition watch_lap_event :: "(string \<Rightarrow> string) \<Rightarrow> (string \<times> json) list \<Rightarrow> real \<Rightarrow> watch_engine \<Rightarrow> watch_engine" where
  [op_defs]: "watch_lap_event uid event t g =
     (let kind = jget event ''type'' in
      if kind = JStr ''lap_completed'' then
        g\<lparr>we_monitors := map (\<lambda>(name, m). (name, lap_to_monitor (uid name) event t m)) (we_monitors g)\<rparr>
      else if kind \<in> {JStr ''pit_entry'', JStr ''pit_exit''} \<or> jget event ''pit_status'' = JStr ''pit'' then
        g\<lparr>we_monitors := map (\<lambda>(name, m). (name, pit_to_monitor m)) (we_monitors g)\<rparr>
      else g)"

text \<open>The value of a numeric sample; a boolean is a number in Python.\<close>

fun finite_number :: "json \<Rightarrow> real option" where
  "finite_number (JInt n) = Some (of_int n)"
| "finite_number (JFloat (Fin x)) = Some x"
| "finite_number (JBool b) = Some (of_bool b)"
| "finite_number _ = None"

definition before_tick :: "real \<Rightarrow> watch_engine \<Rightarrow> bool" where
  "before_tick t g = (case we_last_tick g of None \<Rightarrow> False | Some k \<Rightarrow> t \<le> of_int k)"

definition take_reading :: "string \<Rightarrow> json \<Rightarrow> real \<Rightarrow> string \<Rightarrow> watch_engine \<Rightarrow> watch_engine" where
  "take_reading channel v t unit g =
     (case finite_number v of
        None \<Rightarrow> g
      | Some x \<Rightarrow>
          if (case we_readings g channel of None \<Rightarrow> True | Some r \<Rightarrow> re_time r \<le> t)
          then g\<lparr>we_readings := (we_readings g)(channel \<mapsto> \<lparr>re_value = x, re_time = t, re_unit = unit\<rparr>)\<rparr>
          else g)"

definition take_lap_event :: "(string \<Rightarrow> string) \<Rightarrow> json \<Rightarrow> real \<Rightarrow> watch_engine \<Rightarrow> watch_engine" where
  "take_lap_event uid event t g = (case event of
     JDict d \<Rightarrow>
       if (case we_pit_time g of None \<Rightarrow> True | Some p \<Rightarrow> p \<le> t)
       then watch_lap_event uid d t (g\<lparr>we_pit_status := jget d ''pit_status'', we_pit_time := Some t\<rparr>)
       else g
   | _ \<Rightarrow> g)"

definition engine_observe ::
  "(string \<Rightarrow> json res) \<Rightarrow> (string \<Rightarrow> string) \<Rightarrow> string \<Rightarrow> json \<Rightarrow> flt \<Rightarrow> string \<Rightarrow> watch_engine \<Rightarrow> watch_engine res" where
  [op_defs]: "engine_observe loads uid channel v at_s unit g =
     (case at_s of
        Fin t \<Rightarrow>
          if channel \<notin> input_channels g then Inr g
          else if before_tick t g then Inr g
          else if channel = ''lap.event'' then
            sbind (case v of JStr s \<Rightarrow> loads s | _ \<Rightarrow> Inr v) (\<lambda>event. Inr (take_lap_event uid event t g))
          else Inr (take_reading channel v t unit g)
      | _ \<Rightarrow> Inr g)"

definition fresh_for :: "real \<Rightarrow> watch_engine \<Rightarrow> monitor \<Rightarrow> bool" where
  "fresh_for t g m = list_all (\<lambda>c. case we_readings g c of None \<Rightarrow> False | Some r \<Rightarrow> 0 \<le> t - re_time r \<and> t - re_time r \<le> we_max_age g)
     (''car.rpm'' # monitor_channels m)"

definition valid_for :: "real \<Rightarrow> bool \<Rightarrow> watch_engine \<Rightarrow> monitor \<Rightarrow> bool" where
  "valid_for t active g m = (active \<and> fresh_for t g m \<and> we_pit_status g = JStr ''track''
     \<and> reading_value (we_readings g) ''car.rpm'' > we_rpm_min g)"

definition tick_monitor :: "(string \<Rightarrow> string) \<Rightarrow> real \<Rightarrow> bool \<Rightarrow> watch_engine \<Rightarrow> string \<times> monitor \<Rightarrow> (string \<times> watch_row) \<times> (string \<times> monitor)" where
  [op_defs]: "tick_monitor uid t active g nm = (case nm of (name, m) \<Rightarrow>
     (case evaluate_monitor (uid name) t (we_readings g) (valid_for t active g m) m of (r, m1) \<Rightarrow>
        let r = (if \<not> fresh_for t g m then r\<lparr>wr_status := ''missing_or_stale''\<rparr>
                 else if \<not> active then r\<lparr>wr_status := ''no_session''\<rparr> else r)
        in ((name, r), (name, m1))))"

definition engine_tick :: "(string \<Rightarrow> string) \<Rightarrow> int \<Rightarrow> bool \<Rightarrow> watch_engine \<Rightarrow> (string \<times> watch_row) list \<times> watch_engine" where
  [op_defs]: "engine_tick uid k active g =
     (if (case we_last_tick g of None \<Rightarrow> False | Some l \<Rightarrow> k \<le> l) then ([], g)
      else let out = map (tick_monitor uid (of_int k) active g) (we_monitors g)
        in (map fst out, g\<lparr>we_last_tick := Some k, we_monitors := map snd out\<rparr>))"

section \<open>Consumer\<close>

record watch_sample =
  sm_channel :: string
  sm_value :: json
  sm_capture_ms :: real
  sm_unit :: string

record watch_service =
  wsv_engine :: watch_engine
  wsv_pending :: "((real \<times> int) \<times> watch_sample) list"
  wsv_sequence :: int
  wsv_dropped :: nat
  wsv_malformed :: nat
  wsv_backfill :: nat

definition BACKFILL_MAX_AGE_S :: real where "BACKFILL_MAX_AGE_S = 30"
definition FUTURE_TOLERANCE_S :: real where "FUTURE_TOLERANCE_S = 5"
definition MAX_PENDING :: nat where "MAX_PENDING = 50000"

definition in_live_window :: "real \<Rightarrow> real \<Rightarrow> bool" where
  "in_live_window now t \<longleftrightarrow> \<not> (t < now - BACKFILL_MAX_AGE_S \<or> t > now + FUTURE_TOLERANCE_S)"

fun heap_push :: "(real \<times> int) \<times> watch_sample \<Rightarrow> ((real \<times> int) \<times> watch_sample) list \<Rightarrow> ((real \<times> int) \<times> watch_sample) list" where
  "heap_push x [] = [x]"
| "heap_push x (y # ys) =
     (if fst (fst x) < fst (fst y) \<or> fst (fst x) = fst (fst y) \<and> snd (fst x) < snd (fst y) then x # y # ys else y # heap_push x ys)"

definition admit_sample :: "real \<Rightarrow> watch_sample \<Rightarrow> watch_service \<Rightarrow> watch_service" where
  [op_defs]: "admit_sample now x s =
     (let t = sm_capture_ms x / 1000 in
      if sm_channel x \<notin> input_channels (wsv_engine s) then s
      else if \<not> in_live_window now t then s\<lparr>wsv_dropped := wsv_dropped s + 1\<rparr>
      else if length (wsv_pending s) \<ge> MAX_PENDING then s\<lparr>wsv_dropped := wsv_dropped s + 1\<rparr>
      else s\<lparr>wsv_sequence := wsv_sequence s + 1, wsv_pending := heap_push ((t, wsv_sequence s + 1), x) (wsv_pending s)\<rparr>)"

text \<open>A decoded batch, judged by its epoch first.\<close>

definition handle_batch :: "real \<Rightarrow> real \<Rightarrow> watch_sample list \<Rightarrow> watch_service \<Rightarrow> watch_service" where
  [op_defs]: "handle_batch now epoch samples s =
     (if \<not> in_live_window now epoch then s\<lparr>wsv_backfill := wsv_backfill s + 1\<rparr> else fold (admit_sample now) samples s)"

definition observe_pending :: "(string \<Rightarrow> json res) \<Rightarrow> (string \<Rightarrow> string) \<Rightarrow> watch_sample \<Rightarrow> watch_service \<Rightarrow> exn option \<times> watch_service" where
  "observe_pending loads uid x s =
     (case engine_observe loads uid (sm_channel x) (sm_value x) (Fin (sm_capture_ms x / 1000)) (sm_unit x) (wsv_engine s) of
        Inr g \<Rightarrow> (None, s\<lparr>wsv_engine := g\<rparr>)
      | Inl e \<Rightarrow> if e \<in> {ValueError, TypeError} then (None, s\<lparr>wsv_malformed := wsv_malformed s + 1\<rparr>) else (Some e, s))"

fun drain_until ::
  "(string \<Rightarrow> json res) \<Rightarrow> (string \<Rightarrow> string) \<Rightarrow> real \<Rightarrow> ((real \<times> int) \<times> watch_sample) list \<Rightarrow> watch_service \<Rightarrow> exn option \<times> watch_service" where
  "drain_until loads uid t [] s = (None, s\<lparr>wsv_pending := []\<rparr>)"
| "drain_until loads uid t ((key, x) # rest) s =
     (if fst key \<le> t then
        (case observe_pending loads uid x (s\<lparr>wsv_pending := rest\<rparr>) of
           (Some e, s1) \<Rightarrow> (Some e, s1)
         | (None, s1) \<Rightarrow> drain_until loads uid t rest s1)
      else (None, s\<lparr>wsv_pending := (key, x) # rest\<rparr>))"

text \<open>One second of the service: drain, tick, write in one transaction, and put the engine back when the
  write fails. The rows are what was written.\<close>

definition service_tick ::
  "(string \<Rightarrow> json res) \<Rightarrow> (string \<Rightarrow> string) \<Rightarrow> int \<Rightarrow> bool \<Rightarrow> bool \<Rightarrow> watch_service \<Rightarrow> (string \<times> watch_row) list res \<times> watch_service" where
  [op_defs]: "service_tick loads uid k active write_ok s =
     (case drain_until loads uid (of_int k) (wsv_pending s) s of
        (Some e, s1) \<Rightarrow> (Inl e, s1)
      | (None, s1) \<Rightarrow>
          (case engine_tick uid k active (wsv_engine s1) of (rows, g) \<Rightarrow>
             if rows = [] then (Inr [], s1\<lparr>wsv_engine := g\<rparr>)
             else if write_ok then (Inr rows, s1\<lparr>wsv_engine := g\<rparr>)
             else (Inl PsycopgError, s1)))"

section \<open>Opinions rest on fresh data\<close>

lemma gated_no_opinion:
  assumes "evaluate_monitor uid t rs False m = (r, m')" shows "\<not> opinion r"
  using assms by (cases m) (auto simp: envelope_evaluate_def drift_evaluate_def ratio_evaluate_def counter_evaluate_def opinion_def row_at_def Let_def)

lemma tick_rows:
  assumes "engine_tick uid k active g = (rows, g')" "(name, r) \<in> set rows"
  obtains m where "(name, m) \<in> set (we_monitors g)" "(name, r) = fst (tick_monitor uid (of_int k) active g (name, m))"
    "\<not> before_tick (of_int k) g"
proof -
  have out: "rows = map fst (map (tick_monitor uid (of_int k) active g) (we_monitors g))" "\<not> before_tick (of_int k) g"
    using assms by (auto simp: engine_tick_def before_tick_def Let_def split: if_splits option.splits)
  then obtain n m where nm: "(n, m) \<in> set (we_monitors g)" "(name, r) = fst (tick_monitor uid (of_int k) active g (n, m))"
    using assms(2) by auto
  moreover have "n = name" using nm(2) by (auto simp: tick_monitor_def Let_def split: prod.splits if_splits)
  ultimately show ?thesis using that out(2) by blast
qed

lemma tick_opinion:
  assumes "(name, r) = fst (tick_monitor uid t active g (name, m))" "opinion r"
  shows "valid_for t active g m"
proof (rule ccontr)
  assume nv: "\<not> valid_for t active g m"
  obtain r0 m1 where ev: "evaluate_monitor (uid name) t (we_readings g) False m = (r0, m1)" by (rule prod.exhaust)
  from gated_no_opinion[OF ev] ev nv assms show False
    by (auto simp: tick_monitor_def opinion_def Let_def split: if_splits)
qed

text \<open>
  A monitor has an opinion only on fresh data of a car that is racing. Whenever a row of a tick carries
  one, a session is active, the car is on track with the engine above the configured speed, every channel the monitor reads has a
  reading whose age is between zero and the limit, and the second had not been evaluated before; a sample that arrives
  for a second already evaluated changes nothing.
\<close>
theorem opinion_needs_fresh_data:
  assumes "engine_tick uid k active g = (rows, g')" and "(name, r) \<in> set rows" and "opinion r"
  shows "active \<and> we_pit_status g = JStr ''track''
    \<and> (\<exists>m. (name, m) \<in> set (we_monitors g) \<and> (\<forall>c \<in> set (''car.rpm'' # monitor_channels m).
         \<exists>x. we_readings g c = Some x \<and> re_time x \<le> of_int k \<and> of_int k - re_time x \<le> we_max_age g))
    \<and> (\<exists>x. we_readings g ''car.rpm'' = Some x \<and> re_value x > we_rpm_min g)
    \<and> (\<forall>l. we_last_tick g = Some l \<longrightarrow> l < k)
    \<and> (\<forall>loads uid' c v t unit. t \<le> of_int k \<longrightarrow> engine_observe loads uid' c v (Fin t) unit g' = Inr g')"
proof -
  obtain m where m: "(name, m) \<in> set (we_monitors g)" "(name, r) = fst (tick_monitor uid (of_int k) active g (name, m))"
      "\<not> before_tick (of_int k) g" using tick_rows[OF assms(1,2)] .
  have v: "valid_for (of_int k) active g m" by (rule tick_opinion[OF m(2) assms(3)])
  then have fresh: "\<forall>c \<in> set (''car.rpm'' # monitor_channels m). \<exists>x. we_readings g c = Some x \<and> re_time x \<le> of_int k \<and> of_int k - re_time x \<le> we_max_age g"
    by (fastforce simp: valid_for_def fresh_for_def list_all_iff split: option.splits)
  have "we_last_tick g' = Some k" using assms(1) m(3) by (auto simp: engine_tick_def before_tick_def Let_def split: if_splits option.splits)
  then have late: "t \<le> of_int k \<longrightarrow> engine_observe loads uid' c v (Fin t) unit g' = Inr g'" for loads uid' c v t unit
    by (simp add: engine_observe_def before_tick_def)
  have rpm: "\<exists>x. we_readings g ''car.rpm'' = Some x \<and> re_value x > we_rpm_min g"
    using fresh v by (force simp: valid_for_def reading_value_def)
  show ?thesis using m fresh v rpm late by (auto simp: valid_for_def before_tick_def)
qed

definition wit_watch_engine :: watch_engine where
  "wit_watch_engine = \<lparr>we_rpm_min = 1200, we_max_age = 10, we_monitors = [(''m'', MCounter (wit_counter\<lparr>cn_history := [(0, 5)]\<rparr>))],
     we_readings = [''car.rpm'' \<mapsto> \<lparr>re_value = 3000, re_time = 19, re_unit = ''rpm''\<rparr>, ''c'' \<mapsto> \<lparr>re_value = 5, re_time = 20, re_unit = []\<rparr>],
     we_pit_status = JStr ''track'', we_pit_time = Some 1, we_last_tick = Some 19\<rparr>"

lemma wit_tick: "\<exists>r g'. engine_tick (\<lambda>n. n) 20 True wit_watch_engine = ([(''m'', r)], g') \<and> opinion r"
  by (simp add: engine_tick_def tick_monitor_def counter_evaluate_def push_history_def last_n_def MAX_COUNTER_HISTORY_def wit_watch_engine_def
      wit_counter_def counter_new_def valid_for_def fresh_for_def gates_hold_def reading_value_def counter_channels_def transition_def opinion_def Let_def)

theorem opinion_needs_fresh_data_witness:
  "\<exists>r g'. engine_tick (\<lambda>n. n) 20 True wit_watch_engine = ([(''m'', r)], g') \<and> opinion r
     \<and> engine_observe (\<lambda>s. Inl ValueError) (\<lambda>n. n) ''c'' (JInt 9) (Fin 20) [] g' = Inr g'"
proof -
  obtain r g' where t: "engine_tick (\<lambda>n. n) 20 True wit_watch_engine = ([(''m'', r)], g')" "opinion r" using wit_tick by blast
  from opinion_needs_fresh_data[OF t(1), of "''m''" r] t show ?thesis by simp
qed

section \<open>The reorder buffer\<close>

definition key_less :: "real \<times> int \<Rightarrow> real \<times> int \<Rightarrow> bool" where
  "key_less a b \<longleftrightarrow> fst a < fst b \<or> fst a = fst b \<and> snd a < snd b"

definition buffer_ok :: "watch_service \<Rightarrow> bool" where
  [inv_defs]: "buffer_ok s \<longleftrightarrow> sorted_wrt (\<lambda>x y. key_less (fst x) (fst y)) (wsv_pending s) \<and> length (wsv_pending s) \<le> MAX_PENDING
     \<and> (\<forall>x \<in> set (wsv_pending s). snd (fst x) \<le> wsv_sequence s)"

lemma key_less_trans: "key_less a b \<Longrightarrow> key_less b c \<Longrightarrow> key_less a c"
  by (auto simp: key_less_def)

lemma heap_push_set: "set (heap_push x ys) = insert x (set ys)" "length (heap_push x ys) = Suc (length ys)"
  by (induction ys) auto

lemma heap_push_sorted:
  assumes "sorted_wrt (\<lambda>x y. key_less (fst x) (fst y)) ys" "\<forall>y \<in> set ys. snd (fst y) < snd (fst x)"
  shows "sorted_wrt (\<lambda>x y. key_less (fst x) (fst y)) (heap_push x ys)"
  using assms
proof (induction ys)
  case (Cons y ys)
  show ?case
  proof (cases "key_less (fst x) (fst y)")
    case True
    then have "key_less (fst x) (fst z)" if "z \<in> set ys" for z using Cons.prems(1) that key_less_trans[OF True] by auto
    with True Cons.prems show ?thesis by (auto simp: key_less_def)
  next
    case False
    then have "key_less (fst y) (fst x)" using Cons.prems(2) by (auto simp: key_less_def)
    with False Cons show ?thesis by (auto simp: heap_push_set key_less_def)
  qed
qed simp

lemma admit_sample_ok: "buffer_ok s \<Longrightarrow> buffer_ok (admit_sample now x s)"
  using heap_push_sorted[of "wsv_pending s" "((sm_capture_ms x / 1000, wsv_sequence s + 1), x)"]
  by (fastforce simp: admit_sample_def buffer_ok_def Let_def heap_push_set)

interpretation admission: step_machine "admit_sample now" buffer_ok for now
  by unfold_locales (rule admit_sample_ok)

lemma handle_batch_ok: "buffer_ok s \<Longrightarrow> buffer_ok (handle_batch now epoch samples s)"
  using admission.run_inv[of s now samples] by (auto simp: handle_batch_def buffer_ok_def)

lemma observe_pending_buffer:
  "wsv_pending (snd (observe_pending loads uid x s)) = wsv_pending s" "wsv_sequence (snd (observe_pending loads uid x s)) = wsv_sequence s"
  by (auto simp: observe_pending_def split: sum.split)

text \<open>Draining leaves a tail of the buffer, and all of it is later than the second when nothing raised.\<close>

lemma drain_tail:
  "drain_until loads uid t xs s = (e, s') \<Longrightarrow> wsv_sequence s' = wsv_sequence s \<and> (\<exists>dn. xs = dn @ wsv_pending s')
     \<and> (e = None \<longrightarrow> wsv_pending s' = dropWhile (\<lambda>x. fst (fst x) \<le> t) xs)"
proof (induction loads uid t xs s rule: drain_until.induct)
  case (2 loads uid t key x rest s)
  show ?case
  proof (cases "fst key \<le> t")
    case True
    obtain e1 s1 where o1: "observe_pending loads uid x (s\<lparr>wsv_pending := rest\<rparr>) = (e1, s1)" by (rule prod.exhaust)
    have f: "wsv_pending s1 = rest" "wsv_sequence s1 = wsv_sequence s"
      using observe_pending_buffer[of loads uid x "s\<lparr>wsv_pending := rest\<rparr>"] o1 by simp_all
    show ?thesis
    proof (cases e1)
      case None
      with "2.prems" True o1 have d: "drain_until loads uid t rest s1 = (e, s')" by simp
      obtain dn where "wsv_sequence s' = wsv_sequence s1" "rest = dn @ wsv_pending s'"
          "e = None \<longrightarrow> wsv_pending s' = dropWhile (\<lambda>x. fst (fst x) \<le> t) rest"
        using "2.IH"[OF True o1[symmetric] None d] by blast
      then show ?thesis using True f by (auto intro: exI[of _ "(key, x) # dn"])
    next
      case (Some ex)
      with "2.prems" True o1 f show ?thesis by (auto intro: exI[of _ "[(key, x)]"])
    qed
  next
    case False
    with "2.prems" show ?thesis by auto
  qed
qed auto

lemma service_tick_buffer:
  assumes "service_tick loads uid k active ok s = (r, s')"
  shows "wsv_sequence s' = wsv_sequence s \<and> (\<exists>dn. wsv_pending s = dn @ wsv_pending s')
    \<and> (\<forall>rows. r = Inr rows \<longrightarrow> wsv_pending s' = dropWhile (\<lambda>x. fst (fst x) \<le> of_int k) (wsv_pending s))"
proof -
  obtain e s1 where d: "drain_until loads uid (of_int k) (wsv_pending s) s = (e, s1)" by (rule prod.exhaust)
  have f: "wsv_pending s' = wsv_pending s1" "wsv_sequence s' = wsv_sequence s1" "\<forall>rows. r = Inr rows \<longrightarrow> e = None"
    using assms d by (auto simp: service_tick_def split: option.splits prod.splits if_splits)
  from drain_tail[OF d] f show ?thesis by auto
qed

datatype watch_op = WatchBatch real real "watch_sample list" | WatchTick "string \<Rightarrow> string" int bool bool

fun watch_step :: "(string \<Rightarrow> json res) \<Rightarrow> watch_op \<Rightarrow> watch_service \<Rightarrow> watch_service" where
  "watch_step loads (WatchBatch now epoch samples) s = handle_batch now epoch samples s"
| "watch_step loads (WatchTick uid k active ok) s = snd (service_tick loads uid k active ok s)"

lemma watch_step_ok: "buffer_ok s \<Longrightarrow> buffer_ok (watch_step loads x s)"
proof (cases x)
  case (WatchTick uid k active ok)
  assume inv: "buffer_ok s"
  obtain r s' where t: "service_tick loads uid k active ok s = (r, s')" by (rule prod.exhaust)
  from service_tick_buffer[OF t] obtain d where "wsv_pending s = d @ wsv_pending s'" "wsv_sequence s' = wsv_sequence s" by blast
  with inv WatchTick t show ?thesis by (auto simp: buffer_ok_def sorted_wrt_append)
qed (simp add: handle_batch_ok)

interpretation watch: step_machine "watch_step loads" buffer_ok for loads
  by unfold_locales (rule watch_step_ok)

definition service_new :: "watch_engine \<Rightarrow> watch_service" where
  "service_new g = \<lparr>wsv_engine = g, wsv_pending = [], wsv_sequence = 0, wsv_dropped = 0, wsv_malformed = 0, wsv_backfill = 0\<rparr>"

text \<open>
  Whatever batches arrive in whatever order, the buffer stays within its bound and in capture order, a
  second that is evaluated leaves only later samples behind, and a second whose rows could not be written leaves no trace in the monitors: evaluating it again
  gives exactly the rows and the state that the failed attempt would have given.
\<close>
theorem unwritten_second_repeats:
  assumes "s = fold (watch_step loads) ops (service_new g)"
  shows "length (wsv_pending s) \<le> MAX_PENDING \<and> sorted_wrt (\<lambda>x y. key_less (fst x) (fst y)) (wsv_pending s)
    \<and> (\<forall>uid k active ok rows s'. service_tick loads uid k active ok s = (Inr rows, s') \<longrightarrow> (\<forall>x \<in> set (wsv_pending s'). of_int k < fst (fst x)))
    \<and> (\<forall>uid k active s1. drain_until loads uid (of_int k) (wsv_pending s) s = (None, s1) \<longrightarrow>
         snd (service_tick loads uid k active False s) = (if fst (engine_tick uid k active (wsv_engine s1)) = [] then snd (service_tick loads uid k active True s) else s1)
         \<and> service_tick loads uid k active True s1 = service_tick loads uid k active True s)"
proof -
  have "buffer_ok (service_new g)" by (simp add: buffer_ok_def service_new_def)
  from watch.run_inv[OF this, of loads ops] assms have ok: "buffer_ok s" by simp
  have later: "of_int k < fst (fst x)" if mem: "x \<in> set (dropWhile (\<lambda>x. fst (fst x) \<le> of_int k) (wsv_pending s))" for x k
  proof -
    have srt: "sorted_wrt (\<lambda>x y. key_less (fst x) (fst y)) (dropWhile (\<lambda>x. fst (fst x) \<le> of_int k) (wsv_pending s))"
      using ok sorted_wrt_dropWhile by (auto simp: buffer_ok_def)
    obtain y ys where y: "dropWhile (\<lambda>x. fst (fst x) \<le> of_int k) (wsv_pending s) = y # ys" using mem
      by (cases "dropWhile (\<lambda>x. fst (fst x) \<le> of_int k) (wsv_pending s)") auto
    then have "of_int k < fst (fst y)" by (metis (mono_tags, lifting) dropWhile_eq_Cons_conv not_le)
    with srt y mem show ?thesis by (fastforce simp: key_less_def)
  qed
  have stay: "drain_until loads uid (of_int k) (wsv_pending s1) s1 = (None, s1)"
    if d: "drain_until loads uid (of_int k) (wsv_pending s) s = (None, s1)" for uid k s1
  proof -
    have p: "wsv_pending s1 = dropWhile (\<lambda>x. fst (fst x) \<le> of_int k) (wsv_pending s)" using drain_tail[OF d] by simp
    show ?thesis
    proof (cases "wsv_pending s1")
      case Nil
      then show ?thesis by simp
    next
      case (Cons y ys)
      then have "of_int k < fst (fst y)" using later[of y k] p by simp
      with Cons show ?thesis by (cases y) auto
    qed
  qed
  have retry: "snd (service_tick loads uid k active False s) = (if fst (engine_tick uid k active (wsv_engine s1)) = [] then snd (service_tick loads uid k active True s) else s1)
      \<and> service_tick loads uid k active True s1 = service_tick loads uid k active True s"
    if "drain_until loads uid (of_int k) (wsv_pending s) s = (None, s1)" for uid k active s1
    using that stay[OF that] by (simp add: service_tick_def split: prod.split)
  have after: "\<forall>x \<in> set (wsv_pending s'). of_int k < fst (fst x)" if t: "service_tick loads uid k active ok s = (Inr rows, s')" for uid k active ok rows s'
    using service_tick_buffer[OF t] later by auto
  show ?thesis
  proof (intro conjI allI impI)
    show "length (wsv_pending s) \<le> MAX_PENDING" "sorted_wrt (\<lambda>x y. key_less (fst x) (fst y)) (wsv_pending s)"
      using ok by (simp_all add: buffer_ok_def)
  qed (rule after, assumption | use retry in blast)+
qed

theorem unwritten_second_repeats_witness:
  "service_tick (\<lambda>s. Inl ValueError) (\<lambda>n. n) 20 True True (service_new wit_watch_engine)
     = service_tick (\<lambda>s. Inl ValueError) (\<lambda>n. n) 20 True True (snd (service_tick (\<lambda>s. Inl ValueError) (\<lambda>n. n) 20 True False (service_new wit_watch_engine)))"
proof -
  let ?s = "service_new wit_watch_engine"
  have d: "drain_until (\<lambda>s. Inl ValueError) (\<lambda>n. n) (of_int 20) (wsv_pending ?s) ?s = (None, ?s)"
    by (simp add: service_new_def)
  obtain r g' where "engine_tick (\<lambda>n. n) 20 True wit_watch_engine = ([(''m'', r)], g')" using wit_tick by blast
  then have rows: "fst (engine_tick (\<lambda>n. n) 20 True (wsv_engine ?s)) \<noteq> []" by (simp add: service_new_def)
  have "?s = fold (watch_step (\<lambda>s. Inl ValueError)) [] (service_new wit_watch_engine)" by simp
  from conjunct2[OF conjunct2[OF conjunct2[OF unwritten_second_repeats[OF this]]], rule_format, OF d, of True] rows
  have "snd (service_tick (\<lambda>s. Inl ValueError) (\<lambda>n. n) 20 True False ?s) = ?s" by presburger
  then show ?thesis by simp
qed

end
