(* ===== verification/Alert_Book.thy ===== *)
theory Alert_Book
  imports Py_Values "HOL-Library.Sublist"
begin

text \<open>
  \<^verbatim>\<open>src/pit/notifier/alerts.py\<close>: parsing of alert notifications and the book of what is firing and who has
  acknowledged it.

  A datetime is its epoch seconds. \<open>iso_time\<close> is the parsing of a timestamp's text, \<open>digest\<close> the hash over
  the labels that stands in for a missing fingerprint, and text of numbers comes from \<open>text_conv\<close>.
\<close>

section \<open>Parsing\<close>

definition SEVERITIES :: "string list" where "SEVERITIES = [''none'', ''warning'', ''critical'']"
definition MAX_ALERTS_PER_NOTIFICATION :: nat where "MAX_ALERTS_PER_NOTIFICATION = 50"
definition MAX_TEXT_CHARS :: nat where "MAX_TEXT_CHARS = 240"
definition MAX_LABELS :: nat where "MAX_LABELS = 32"
definition TEST_ALERT_NAME :: string where "TEST_ALERT_NAME = ''notifier-test''"

text \<open>An unknown severity ranks as the loudest.\<close>

definition severity_rank :: "string \<Rightarrow> nat" where
  "severity_rank s = (if s = ''none'' then 0 else if s = ''warning'' then 1 else 2)"

record alert =
  al_fingerprint :: string
  al_name :: string
  al_status :: string
  al_severity :: string
  al_started_at :: real
  al_labels :: "(string \<times> string) list"
  al_annotations :: "(string \<times> string) list"
  al_rule_uid :: "string option"
  al_summary :: string

fun alert_text :: "text_conv \<Rightarrow> json \<Rightarrow> string" where
  "alert_text tc (JBool b) = (if b then ''true'' else ''false'')"
| "alert_text tc (JStr s) = take MAX_TEXT_CHARS s"
| "alert_text tc (JInt n) = take MAX_TEXT_CHARS (str_of tc (JInt n))"
| "alert_text tc (JFloat x) = take MAX_TEXT_CHARS (str_of tc (JFloat x))"
| "alert_text tc _ = []"

fun string_map_loop :: "text_conv \<Rightarrow> (string \<times> json) list \<Rightarrow> (string \<times> string) list \<Rightarrow> (string \<times> string) list" where
  "string_map_loop tc [] out = out"
| "string_map_loop tc ((k, v) # items) out =
     (if length out \<ge> MAX_LABELS then out
      else string_map_loop tc items (if k \<noteq> [] then AList.update (take MAX_TEXT_CHARS k) (alert_text tc v) out else out))"

fun string_map :: "text_conv \<Rightarrow> json \<Rightarrow> (string \<times> string) list" where
  "string_map tc (JDict d) = string_map_loop tc d []"
| "string_map tc _ = []"

text \<open>A timestamp before the year 2000 is not one.\<close>

definition YEAR_2000 :: real where "YEAR_2000 = 946684800"

fun parse_time :: "(string \<Rightarrow> real option) \<Rightarrow> json \<Rightarrow> real \<Rightarrow> real" where
  "parse_time iso_time (JStr s) fallback =
     (if s = [] then fallback
      else case iso_time s of None \<Rightarrow> fallback | Some t \<Rightarrow> if t \<ge> YEAR_2000 then t else fallback)"
| "parse_time iso_time _ fallback = fallback"

text \<open>The rule id in a generator URL: the first match of \<open>/alerting/grafana/<uid>/view\<close>.\<close>

definition match_uid :: "string \<Rightarrow> string option" where
  "match_uid s =
     (if prefix ''/alerting/grafana/'' s then
        (let rest = drop 18 s; uid = takeWhile (\<lambda>c. c \<notin> set ''/?#'') rest
         in if uid \<noteq> [] \<and> prefix ''/view'' (drop (length uid) rest) then Some uid else None)
      else None)"

fun generator_uid :: "string \<Rightarrow> string option" where
  "generator_uid [] = match_uid []"
| "generator_uid (c # cs) = (case match_uid (c # cs) of Some u \<Rightarrow> Some u | None \<Rightarrow> generator_uid cs)"

definition label_or :: "(string \<times> string) list \<Rightarrow> string \<Rightarrow> string \<Rightarrow> string" where
  "label_or labels k other = (case map_of labels k of Some v \<Rightarrow> if v = [] then other else v | None \<Rightarrow> other)"

definition parse_alert :: "text_conv \<Rightarrow> (string \<Rightarrow> real option) \<Rightarrow> ((string \<times> string) list \<Rightarrow> string) \<Rightarrow> real \<Rightarrow> (string \<times> json) list \<Rightarrow> alert option" where
  [op_defs]: "parse_alert tc iso_time digest now raw =
     (let labels = string_map tc (jget raw ''labels'');
          annotations = string_map tc (jget raw ''annotations'');
          name = label_or labels ''alertname'' ''unnamed''
      in case jget raw ''status'' of
          JStr status \<Rightarrow>
            if status \<notin> {''firing'', ''resolved''} then None
            else let given = alert_text tc (jget raw ''fingerprint'');
                     fingerprint = (if given = [] then take 16 (digest labels) else given);
                     labelled = (case map_of labels ''severity'' of None \<Rightarrow> [] | Some v \<Rightarrow> v);
                     severity = (if labelled \<in> set SEVERITIES then labelled else ''critical'');
                     rule_uid = (case map_of labels ''__alert_rule_uid__'' of
                         Some v \<Rightarrow> if v = [] then generator_uid (alert_text tc (jget raw ''generatorURL'')) else Some v
                       | None \<Rightarrow> generator_uid (alert_text tc (jget raw ''generatorURL'')))
                 in Some \<lparr>al_fingerprint = fingerprint, al_name = name, al_status = status, al_severity = severity,
                      al_started_at = parse_time iso_time (jget raw ''startsAt'') now, al_labels = labels, al_annotations = annotations,
                      al_rule_uid = rule_uid, al_summary = label_or annotations ''summary'' name\<rparr>
        | _ \<Rightarrow> None)"

fun parse_items :: "text_conv \<Rightarrow> (string \<Rightarrow> real option) \<Rightarrow> ((string \<times> string) list \<Rightarrow> string) \<Rightarrow> real \<Rightarrow> json list \<Rightarrow> alert list" where
  "parse_items tc iso_time digest now [] = []"
| "parse_items tc iso_time digest now (JDict raw # items) =
     (case parse_alert tc iso_time digest now raw of None \<Rightarrow> [] | Some a \<Rightarrow> [a]) @ parse_items tc iso_time digest now items"
| "parse_items tc iso_time digest now (_ # items) = parse_items tc iso_time digest now items"

definition parse_notification :: "text_conv \<Rightarrow> (string \<Rightarrow> real option) \<Rightarrow> ((string \<times> string) list \<Rightarrow> string) \<Rightarrow> real \<Rightarrow> json \<Rightarrow> alert list" where
  [op_defs]: "parse_notification tc iso_time digest now p = (case p of
     JDict d \<Rightarrow> (case jget d ''alerts'' of JList raws \<Rightarrow> parse_items tc iso_time digest now (take MAX_ALERTS_PER_NOTIFICATION raws) | _ \<Rightarrow> [])
   | _ \<Rightarrow> [])"

section \<open>The book\<close>

record active_alert =
  aa_alert :: alert
  aa_first_seen :: real
  aa_last_seen :: real
  aa_acked_at :: "real option"
  aa_acked_by :: "string option"
  aa_note :: "string option"
  aa_last_notified :: "(string \<times> real) list"

definition acknowledged :: "active_alert \<Rightarrow> bool" where
  "acknowledged e \<longleftrightarrow> aa_acked_at e \<noteq> None"

definition active_new :: "alert \<Rightarrow> real \<Rightarrow> active_alert" where
  "active_new a now = \<lparr>aa_alert = a, aa_first_seen = now, aa_last_seen = now, aa_acked_at = None, aa_acked_by = None,
     aa_note = None, aa_last_notified = []\<rparr>"

record alert_event =
  av_kind :: string
  av_alert :: alert
  av_at :: real
  av_by :: "string option"
  av_note :: "string option"

definition plain_event :: "string \<Rightarrow> alert \<Rightarrow> real \<Rightarrow> alert_event" where
  "plain_event kind a now = \<lparr>av_kind = kind, av_alert = a, av_at = now, av_by = None, av_note = None\<rparr>"

record alert_book =
  bk_heartbeat_rule :: string
  bk_expected_s :: real
  bk_missed :: int
  bk_keep_s :: real
  bk_max_history :: nat
  bk_active :: "(string \<times> active_alert) list"
  bk_history :: "alert_event list"
  bk_heartbeat_seen :: "real option"
  bk_heartbeats :: nat
  bk_notifications :: nat

definition book_new :: "string \<Rightarrow> real \<Rightarrow> int \<Rightarrow> alert_book" where
  "book_new rule expected missed = \<lparr>bk_heartbeat_rule = rule, bk_expected_s = expected, bk_missed = missed, bk_keep_s = 3600,
     bk_max_history = 500, bk_active = [], bk_history = [], bk_heartbeat_seen = None, bk_heartbeats = 0, bk_notifications = 0\<rparr>"

definition is_heartbeat :: "alert_book \<Rightarrow> alert \<Rightarrow> bool" where
  "is_heartbeat b a \<longleftrightarrow> map_of (al_labels a) ''kind'' = Some ''heartbeat'' \<or> al_rule_uid a = Some (bk_heartbeat_rule b)
     \<or> al_name a = bk_heartbeat_rule b"

definition remember :: "alert_event list \<Rightarrow> alert_book \<Rightarrow> alert_book" where
  "remember evs b = b\<lparr>bk_history := last_n (bk_max_history b) (bk_history b @ evs)\<rparr>"

definition receive_one :: "real \<Rightarrow> alert \<Rightarrow> alert_event list \<times> alert_book \<Rightarrow> alert_event list \<times> alert_book" where
  [op_defs]: "receive_one now a eb = (case eb of (evs, b) \<Rightarrow>
     if is_heartbeat b a then
       (evs, if al_status a = ''firing'' then b\<lparr>bk_heartbeat_seen := Some now, bk_heartbeats := bk_heartbeats b + 1\<rparr> else b)
     else case map_of (bk_active b) (al_fingerprint a) of
         None \<Rightarrow>
           if al_status a = ''firing'' then
             (evs @ [plain_event ''firing'' a now], b\<lparr>bk_active := AList.update (al_fingerprint a) (active_new a now) (bk_active b)\<rparr>)
           else (evs, b)
       | Some e \<Rightarrow>
           if al_status a = ''firing'' then
             (evs, b\<lparr>bk_active := AList.update (al_fingerprint a) (e\<lparr>aa_last_seen := now\<rparr>) (bk_active b)\<rparr>)
           else (evs @ [plain_event ''resolved'' a now], b\<lparr>bk_active := AList.delete (al_fingerprint a) (bk_active b)\<rparr>))"

definition book_receive :: "alert list \<Rightarrow> real \<Rightarrow> alert_book \<Rightarrow> alert_event list \<times> alert_book" where
  [op_defs]: "book_receive alerts now b =
     (case fold (receive_one now) alerts ([], b\<lparr>bk_notifications := bk_notifications b + 1\<rparr>) of (evs, b1) \<Rightarrow> (evs, remember evs b1))"

definition book_ack :: "string \<Rightarrow> string \<Rightarrow> string option \<Rightarrow> real \<Rightarrow> alert_book \<Rightarrow> alert_event option \<times> alert_book" where
  [op_defs]: "book_ack fp by_name comment now b = (case map_of (bk_active b) fp of
     None \<Rightarrow> (None, b)
   | Some e \<Rightarrow>
       (let ev = \<lparr>av_kind = ''ack'', av_alert = aa_alert e, av_at = now, av_by = Some by_name, av_note = comment\<rparr>;
            b1 = remember [ev] (b\<lparr>bk_active := AList.update fp (e\<lparr>aa_acked_at := Some now, aa_acked_by := Some by_name, aa_note := comment\<rparr>) (bk_active b)\<rparr>)
        in (Some ev,
            if al_name (aa_alert e) = TEST_ALERT_NAME
            then remember [plain_event ''resolved'' (aa_alert e) now] (b1\<lparr>bk_active := AList.delete fp (bk_active b1)\<rparr>)
            else b1)))"

text \<open>A test alert; \<open>hhmmss\<close> is the time of day in its fingerprint. The em dash is written as its UTF-8 bytes.\<close>

definition em_dash :: string where
  "em_dash = [char_of (226 :: nat), char_of (128 :: nat), char_of (148 :: nat)]"

definition test_alert :: "string \<Rightarrow> string \<Rightarrow> real \<Rightarrow> alert" where
  "test_alert hhmmss severity now =
     (let summary = ''Test alert ('' @ severity @ '') '' @ em_dash @ '' acknowledge to clear''
      in \<lparr>al_fingerprint = ''test-'' @ hhmmss, al_name = TEST_ALERT_NAME, al_status = ''firing'',
       al_severity = severity, al_started_at = now, al_labels = [(''alertname'', TEST_ALERT_NAME), (''severity'', severity)],
       al_annotations = [(''summary'', summary)], al_rule_uid = None, al_summary = summary\<rparr>)"

definition raise_test :: "string \<Rightarrow> string \<Rightarrow> real \<Rightarrow> alert_book \<Rightarrow> alert_event list \<times> alert_book" where
  [op_defs]: "raise_test hhmmss severity now b = book_receive [test_alert hhmmss severity now] now b"

definition unacknowledged :: "alert_book \<Rightarrow> (string \<times> active_alert) list" where
  "unacknowledged b = filter (\<lambda>x. \<not> acknowledged (snd x)) (bk_active b)"

definition heartbeat_age_s :: "real \<Rightarrow> alert_book \<Rightarrow> real option" where
  "heartbeat_age_s now b = map_option (\<lambda>t. max 0 (now - t)) (bk_heartbeat_seen b)"

definition heartbeat_ok :: "real \<Rightarrow> alert_book \<Rightarrow> bool option" where
  "heartbeat_ok now b = map_option (\<lambda>age. age \<le> bk_expected_s b * of_int (bk_missed b)) (heartbeat_age_s now b)"

text \<open>The page: the loudest alerts first, then the oldest; the history of the last hour, at most a hundred events.\<close>

definition snapshot_active :: "alert_book \<Rightarrow> active_alert list" where
  "snapshot_active b =
     concat (map (\<lambda>rank. sort_key (\<lambda>e. al_started_at (aa_alert e)) (filter (\<lambda>e. severity_rank (al_severity (aa_alert e)) = rank) (map snd (bk_active b)))) [2, 1, 0])"

definition snapshot_critical :: "alert_book \<Rightarrow> nat" where
  "snapshot_critical b = length (filter (\<lambda>e. \<not> acknowledged e \<and> al_severity (aa_alert e) = ''critical'') (snapshot_active b))"

definition snapshot_history :: "real \<Rightarrow> alert_book \<Rightarrow> alert_event list" where
  "snapshot_history now b = last_n 100 (filter (\<lambda>ev. av_at ev \<ge> now - bk_keep_s b) (bk_history b))"

section \<open>What the parser lets through\<close>

definition alert_bounded :: "alert \<Rightarrow> bool" where
  [inv_defs]: "alert_bounded a \<longleftrightarrow> length (al_labels a) \<le> MAX_LABELS \<and> length (al_annotations a) \<le> MAX_LABELS
     \<and> distinct (map fst (al_labels a)) \<and> al_severity a \<in> set SEVERITIES \<and> al_status a \<in> {''firing'', ''resolved''}
     \<and> (\<forall>(k, v) \<in> set (al_labels a) \<union> set (al_annotations a). length k \<le> MAX_TEXT_CHARS \<and> length v \<le> MAX_TEXT_CHARS)
     \<and> length (al_fingerprint a) \<le> MAX_TEXT_CHARS \<and> length (al_name a) \<le> MAX_TEXT_CHARS
     \<and> length (al_summary a) \<le> MAX_TEXT_CHARS"

definition texts_bounded :: "(string \<times> string) list \<Rightarrow> bool" where
  "texts_bounded m \<longleftrightarrow> distinct (map fst m) \<and> length m \<le> MAX_LABELS
     \<and> (\<forall>(k, v) \<in> set m. length k \<le> MAX_TEXT_CHARS \<and> length v \<le> MAX_TEXT_CHARS)"

lemma alert_text_bounded: "length (alert_text tc j) \<le> MAX_TEXT_CHARS"
  by (cases j) (auto simp: MAX_TEXT_CHARS_def)

lemma texts_bounded_update:
  assumes "texts_bounded m" "length m < MAX_LABELS" "length k \<le> MAX_TEXT_CHARS" "length v \<le> MAX_TEXT_CHARS"
  shows "texts_bounded (AList.update k v m)"
  using assms set_update_subset[of k v m] length_update_le[of k v m] distinct_update[of m k v]
  unfolding texts_bounded_def by (auto simp del: distinct_update)

lemma string_map_loop_bounded: "texts_bounded out \<Longrightarrow> texts_bounded (string_map_loop tc items out)"
proof (induction tc items out rule: string_map_loop.induct)
  case (2 tc k v items out)
  then show ?case using texts_bounded_update[of out "take MAX_TEXT_CHARS k" "alert_text tc v"] by (simp add: alert_text_bounded)
qed simp

lemma string_map_bounded: "texts_bounded (string_map tc j)"
  using string_map_loop_bounded[of "[]"] by (cases j) (simp_all add: texts_bounded_def)

lemma label_or_bounded:
  assumes "texts_bounded m" "length other \<le> MAX_TEXT_CHARS" shows "length (label_or m k other) \<le> MAX_TEXT_CHARS"
  using assms by (auto simp: label_or_def texts_bounded_def split: option.splits dest!: map_of_SomeD)

lemma parse_alert_bounded:
  assumes "parse_alert tc iso_time digest now raw = Some a" shows "alert_bounded a"
proof -
  let ?l = "string_map tc (jget raw ''labels'')" and ?n = "string_map tc (jget raw ''annotations'')"
  let ?name = "label_or ?l ''alertname'' ''unnamed''"
  have b: "texts_bounded ?l" "texts_bounded ?n" by (rule string_map_bounded)+
  have nm: "length ?name \<le> MAX_TEXT_CHARS" by (rule label_or_bounded[OF b(1)]) (simp add: MAX_TEXT_CHARS_def)
  have sm: "length (label_or ?n ''summary'' ?name) \<le> MAX_TEXT_CHARS" by (rule label_or_bounded[OF b(2) nm])
  have fp: "length (take 16 (digest ?l)) \<le> MAX_TEXT_CHARS" by (simp add: MAX_TEXT_CHARS_def)
  define f where "f = (let given = alert_text tc (jget raw ''fingerprint'') in if given = [] then take 16 (digest ?l) else given)"
  define v where "v = (let l = (case map_of ?l ''severity'' of None \<Rightarrow> [] | Some v \<Rightarrow> v) in if l \<in> set SEVERITIES then l else ''critical'')"
  have f: "length f \<le> MAX_TEXT_CHARS" using fp alert_text_bounded by (simp add: f_def Let_def)
  have v: "v \<in> set SEVERITIES" by (simp add: v_def Let_def) (simp add: SEVERITIES_def)
  obtain st where st: "jget raw ''status'' = JStr st" "st \<in> {''firing'', ''resolved''}"
    and a: "al_fingerprint a = f" "al_name a = ?name" "al_status a = st" "al_severity a = v" "al_labels a = ?l" "al_annotations a = ?n"
      "al_summary a = label_or ?n ''summary'' ?name"
    using assms unfolding parse_alert_def Let_def f_def v_def
    by (cases "jget raw ''status''") (simp_all split: if_splits, auto)
  show ?thesis unfolding alert_bounded_def a using b st(2) v f nm sm by (auto simp: texts_bounded_def)
qed

lemma parse_items_bounded:
  "length (parse_items tc iso_time digest now items) \<le> length items
   \<and> (\<forall>a \<in> set (parse_items tc iso_time digest now items). alert_bounded a)"
  by (induction tc iso_time digest now items rule: parse_items.induct)
    (auto dest: parse_alert_bounded split: option.splits)

text \<open>
  The webhook is unauthenticated, and the parser bounds what a caller can put on the page: whatever JSON
  value is posted, at most fifty alerts come out, and each has a status the book knows, a severity of the
  configured scale, at most thirty-two labels and annotations with distinct label names, and every text
  (label names and values, name, fingerprint, summary) of at most 240 characters.
\<close>
theorem notification_bounded:
  "length (parse_notification tc iso_time digest now p) \<le> MAX_ALERTS_PER_NOTIFICATION
   \<and> list_all alert_bounded (parse_notification tc iso_time digest now p)"
proof -
  have "length (parse_items tc iso_time digest now (take MAX_ALERTS_PER_NOTIFICATION raws)) \<le> MAX_ALERTS_PER_NOTIFICATION
    \<and> (\<forall>a \<in> set (parse_items tc iso_time digest now (take MAX_ALERTS_PER_NOTIFICATION raws)). alert_bounded a)" for raws
    using parse_items_bounded[of tc iso_time digest now "take MAX_ALERTS_PER_NOTIFICATION raws"] by auto
  then show ?thesis by (auto simp: parse_notification_def list_all_iff split: json.splits)
qed

section \<open>The book refines one small automaton per alert\<close>

text \<open>An alert is idle, sounding, or silenced by an acknowledgement; the flag marks a test alert.\<close>

datatype phase = Idle | Sounding bool | Silenced bool

definition phase_of :: "alert_book \<Rightarrow> string \<Rightarrow> phase" where
  "phase_of b fp = (case map_of (bk_active b) fp of None \<Rightarrow> Idle
     | Some e \<Rightarrow> (if acknowledged e then Silenced else Sounding) (al_name (aa_alert e) = TEST_ALERT_NAME))"

definition heartbeat_alert :: "string \<Rightarrow> alert \<Rightarrow> bool" where
  "heartbeat_alert rule a \<longleftrightarrow> map_of (al_labels a) ''kind'' = Some ''heartbeat'' \<or> al_rule_uid a = Some rule \<or> al_name a = rule"

definition phase_alert :: "string \<Rightarrow> string \<Rightarrow> alert \<Rightarrow> phase \<Rightarrow> phase" where
  "phase_alert rule fp a p =
     (if heartbeat_alert rule a \<or> al_fingerprint a \<noteq> fp then p
      else if al_status a = ''firing'' then (if p = Idle then Sounding (al_name a = TEST_ALERT_NAME) else p)
      else Idle)"

fun phase_ack :: "phase \<Rightarrow> phase" where
  "phase_ack Idle = Idle"
| "phase_ack (Sounding test) = (if test then Idle else Silenced test)"
| "phase_ack (Silenced test) = (if test then Idle else Silenced test)"

text \<open>What an alert that reaches the automaton announces.\<close>

definition phase_events :: "string \<Rightarrow> string \<Rightarrow> alert \<Rightarrow> phase \<Rightarrow> string list" where
  "phase_events rule fp a p =
     (let q = phase_alert rule fp a p
      in if p = Idle \<and> q \<noteq> Idle then [''firing''] else if p \<noteq> Idle \<and> q = Idle then [''resolved''] else [])"

fun phase_run :: "string \<Rightarrow> string \<Rightarrow> alert list \<Rightarrow> phase \<Rightarrow> string list" where
  "phase_run rule fp [] p = []"
| "phase_run rule fp (a # as) p = phase_events rule fp a p @ phase_run rule fp as (phase_alert rule fp a p)"

datatype book_op =
    BkReceive "alert list" real
  | BkAck string string "string option" real
  | BkTest string string real

definition book_op_alerts :: "book_op \<Rightarrow> alert list" where
  "book_op_alerts bop = (case bop of BkReceive as _ \<Rightarrow> as | BkAck _ _ _ _ \<Rightarrow> [] | BkTest h sev now \<Rightarrow> [test_alert h sev now])"

fun book_events :: "book_op \<Rightarrow> alert_book \<Rightarrow> alert_event list" where
  "book_events (BkReceive as now) b = fst (book_receive as now b)"
| "book_events (BkAck fp by_name comment now) b = (case fst (book_ack fp by_name comment now b) of None \<Rightarrow> [] | Some ev \<Rightarrow> [ev])"
| "book_events (BkTest h sev now) b = fst (raise_test h sev now b)"

fun book_step :: "book_op \<Rightarrow> alert_book \<Rightarrow> alert_book" where
  "book_step (BkReceive as now) b = snd (book_receive as now b)"
| "book_step (BkAck fp by_name comment now) b = snd (book_ack fp by_name comment now b)"
| "book_step (BkTest h sev now) b = snd (raise_test h sev now b)"

definition phase_step :: "string \<Rightarrow> string \<Rightarrow> book_op \<Rightarrow> phase \<Rightarrow> phase" where
  "phase_step rule fp bop p = (case bop of
     BkAck fp1 _ _ _ \<Rightarrow> if fp1 = fp then phase_ack p else p
   | _ \<Rightarrow> fold (phase_alert rule fp) (book_op_alerts bop) p)"

lemma is_heartbeat_rule: "is_heartbeat b a \<longleftrightarrow> heartbeat_alert (bk_heartbeat_rule b) a"
  by (simp add: is_heartbeat_def heartbeat_alert_def)

lemma receive_one_phase:
  assumes "receive_one now a (evs, b) = (evs1, b1)"
  shows "phase_of b1 fp = phase_alert (bk_heartbeat_rule b) fp a (phase_of b fp)"
    and "map av_kind (filter (\<lambda>ev. al_fingerprint (av_alert ev) = fp) evs1)
       = map av_kind (filter (\<lambda>ev. al_fingerprint (av_alert ev) = fp) evs) @ phase_events (bk_heartbeat_rule b) fp a (phase_of b fp)"
    and "bk_heartbeat_rule b1 = bk_heartbeat_rule b"
  using assms
  by (auto simp: receive_one_def is_heartbeat_rule phase_of_def phase_alert_def phase_events_def Let_def map_of_update delete_conv'
      acknowledged_def active_new_def plain_event_def split: if_splits option.splits)

lemma receive_fold_phase:
  assumes "fold (receive_one now) as (evs, b) = (evs1, b1)"
  shows "phase_of b1 fp = fold (phase_alert (bk_heartbeat_rule b) fp) as (phase_of b fp)
    \<and> map av_kind (filter (\<lambda>ev. al_fingerprint (av_alert ev) = fp) evs1)
       = map av_kind (filter (\<lambda>ev. al_fingerprint (av_alert ev) = fp) evs) @ phase_run (bk_heartbeat_rule b) fp as (phase_of b fp)
    \<and> bk_heartbeat_rule b1 = bk_heartbeat_rule b"
  using assms
proof (induction as arbitrary: evs b)
  case (Cons a as)
  obtain evs2 b2 where r: "receive_one now a (evs, b) = (evs2, b2)" by (rule prod.exhaust)
  from Cons.prems r have "fold (receive_one now) as (evs2, b2) = (evs1, b1)" by simp
  from Cons.IH[OF this] receive_one_phase[OF r] show ?case by simp
qed simp

lemma phase_of_remember [simp]: "phase_of (remember evs b) fp = phase_of b fp" "bk_heartbeat_rule (remember evs b) = bk_heartbeat_rule b"
  by (simp_all add: phase_of_def remember_def)

lemma book_receive_phase:
  assumes "book_receive as now b = (evs, b1)"
  shows "phase_of b1 fp = fold (phase_alert (bk_heartbeat_rule b) fp) as (phase_of b fp)
    \<and> map av_kind (filter (\<lambda>ev. al_fingerprint (av_alert ev) = fp) evs) = phase_run (bk_heartbeat_rule b) fp as (phase_of b fp)
    \<and> bk_heartbeat_rule b1 = bk_heartbeat_rule b"
proof -
  let ?b = "b\<lparr>bk_notifications := bk_notifications b + 1\<rparr>"
  obtain evs2 b2 where f: "fold (receive_one now) as ([], ?b) = (evs2, b2)" by (rule prod.exhaust)
  have "phase_of ?b fp = phase_of b fp" by (simp add: phase_of_def)
  with receive_fold_phase[OF f, of fp] assms f show ?thesis by (auto simp: book_receive_def)
qed

lemma book_ack_phase:
  assumes "book_ack fp1 by_name comment now b = (ev, b1)"
  shows "phase_of b1 fp = (if fp1 = fp then phase_ack (phase_of b fp) else phase_of b fp)"
    and "bk_heartbeat_rule b1 = bk_heartbeat_rule b"
  using assms
  by (auto simp: book_ack_def Let_def phase_of_def remember_def map_of_update delete_conv' acknowledged_def
      split: option.splits if_splits)

lemma book_step_phase:
  "phase_of (book_step bop b) fp = phase_step (bk_heartbeat_rule b) fp bop (phase_of b fp)
   \<and> bk_heartbeat_rule (book_step bop b) = bk_heartbeat_rule b"
proof (cases bop)
  case (BkReceive as now)
  then show ?thesis using book_receive_phase[of as now b "fst (book_receive as now b)" "snd (book_receive as now b)" fp] by (simp add: phase_step_def book_op_alerts_def prod_eq_iff)
next
  case (BkAck fp1 by_name comment now)
  then show ?thesis using book_ack_phase[of fp1 by_name comment now b "fst (book_ack fp1 by_name comment now b)" "snd (book_ack fp1 by_name comment now b)"] by (simp add: phase_step_def prod_eq_iff)
next
  case (BkTest h sev now)
  then show ?thesis
    using book_receive_phase[of "[test_alert h sev now]" now b "fst (book_receive [test_alert h sev now] now b)" "snd (book_receive [test_alert h sev now] now b)" fp]
    by (simp add: phase_step_def book_op_alerts_def raise_test_def prod_eq_iff)
qed

lemma book_run_phase:
  "phase_of (fold book_step ops b) fp = fold (phase_step (bk_heartbeat_rule b) fp) ops (phase_of b fp)
   \<and> bk_heartbeat_rule (fold book_step ops b) = bk_heartbeat_rule b"
  by (induction ops arbitrary: b) (simp_all add: book_step_phase)

text \<open>
  The alert book is, for each fingerprint, a three-state automaton. Whatever notifications, acknowledgements
  and test alerts arrive in whatever order, an alert is on the page exactly while it has fired and not been
  resolved, acknowledged exactly while it has been acknowledged since it started firing (acknowledging a test
  alert ends it, an alert that fires again after a resolution sounds again), and heartbeats never reach the
  page; and every notification announces exactly the transitions it causes, in order.
\<close>
theorem book_is_automaton:
  "phase_of (fold book_step ops (book_new rule expected missed)) fp = fold (phase_step rule fp) ops Idle
   \<and> map av_kind (filter (\<lambda>ev. al_fingerprint (av_alert ev) = fp)
       (fst (book_receive as now (fold book_step ops (book_new rule expected missed)))))
     = phase_run rule fp as (fold (phase_step rule fp) ops Idle)"
proof -
  let ?b = "fold book_step ops (book_new rule expected missed)"
  have r: "phase_of (book_new rule expected missed) fp = Idle" "bk_heartbeat_rule (book_new rule expected missed) = rule"
    by (simp_all add: phase_of_def book_new_def)
  have p: "phase_of ?b fp = fold (phase_step rule fp) ops Idle" "bk_heartbeat_rule ?b = rule"
    using book_run_phase[of ops "book_new rule expected missed" fp] r by simp_all
  show ?thesis
    using book_receive_phase[of as now ?b "fst (book_receive as now ?b)" "snd (book_receive as now ?b)" fp] p by simp
qed

section \<open>The book's own invariant\<close>

definition book_inv :: "alert_book \<Rightarrow> bool" where
  [inv_defs]: "book_inv b \<longleftrightarrow> distinct (map fst (bk_active b)) \<and> length (bk_history b) \<le> bk_max_history b
     \<and> (\<forall>(fp, e) \<in> set (bk_active b). al_fingerprint (aa_alert e) = fp \<and> al_status (aa_alert e) = ''firing'')"

lemma book_inv_remember: "book_inv b \<Longrightarrow> book_inv (remember evs b)"
  using last_n_props(1) by (auto simp: book_inv_def remember_def)

lemma book_inv_delete: "book_inv b \<Longrightarrow> book_inv (b\<lparr>bk_active := AList.delete fp (bk_active b)\<rparr>)"
  using distinct_delete[of "bk_active b" fp] by (auto simp: book_inv_def AList.delete_eq)

lemma book_inv_update:
  assumes "book_inv b" "al_fingerprint (aa_alert e) = fp" "al_status (aa_alert e) = ''firing''"
  shows "book_inv (b\<lparr>bk_active := AList.update fp e (bk_active b)\<rparr>)"
  using assms set_update_subset[of fp e "bk_active b"] by (auto simp: book_inv_def)

lemma book_inv_entry:
  "book_inv b \<Longrightarrow> map_of (bk_active b) fp = Some e \<Longrightarrow> al_fingerprint (aa_alert e) = fp \<and> al_status (aa_alert e) = ''firing''"
  by (auto simp: book_inv_def dest!: map_of_SomeD)

lemma book_inv_receive_one: "book_inv (snd eb) \<Longrightarrow> book_inv (snd (receive_one now a eb))"
  using book_inv_entry[of "snd eb" "al_fingerprint a"]
  by (cases eb, auto simp: receive_one_def active_new_def split: option.splits intro!: book_inv_update book_inv_delete)
    (auto simp: book_inv_def)

lemma book_inv_receive: "book_inv b \<Longrightarrow> book_inv (snd (book_receive as now b))"
proof -
  assume "book_inv b"
  then have "book_inv (snd ([] :: alert_event list, b\<lparr>bk_notifications := bk_notifications b + 1\<rparr>))" by (simp add: book_inv_def)
  then have "book_inv (snd (fold (receive_one now) as ([], b\<lparr>bk_notifications := bk_notifications b + 1\<rparr>)))"
    by (induction as rule: rev_induct) (simp_all add: book_inv_receive_one)
  then show ?thesis by (auto simp: book_receive_def split: prod.splits intro: book_inv_remember)
qed

lemma book_inv_ack: "book_inv b \<Longrightarrow> book_inv (snd (book_ack fp by_name comment now b))"
  using book_inv_entry[of b fp]
  by (auto simp: book_ack_def Let_def split: option.splits intro!: book_inv_update book_inv_delete book_inv_remember)

interpretation alert_book: step_machine book_step book_inv
proof
  fix b bop assume "book_inv b"
  then show "book_inv (book_step bop b)"
    by (cases bop) (auto simp: raise_test_def book_inv_receive book_inv_ack)
qed

lemma book_new_inv: "book_inv (book_new rule expected missed)"
  by (simp add: book_inv_def book_new_def)

lemmas book_reachable_inv = alert_book.run_inv[OF book_new_inv]

end
