(* ===== verification/Dispatcher.thy ===== *)
theory Dispatcher
  imports Alert_Book
begin

text \<open>
  \<^verbatim>\<open>src/pit/notifier/channels.py\<close> and \<^verbatim>\<open>push.py\<close>: the delivery channels, who hears what, repeats, and the
  retry queue.

  A channel is one of the four the service builds. What the network answers to the n-th delivery of a
  process and the monotonic clock after it are given by \<open>world\<close>; \<open>dp_calls\<close> is the history of deliveries
  (how often the message had been tried, channel, message, outcome), which the code does not keep and
  which indexes the world. \<open>dumps\<close> and \<open>iso_text\<close> stand for \<open>json.dumps\<close> and \<open>datetime.isoformat\<close>.
\<close>

section \<open>Messages\<close>

record message =
  ms_kind :: string
  ms_title :: string
  ms_body :: string
  ms_severity :: string
  ms_fingerprint :: string
  ms_at :: real
  ms_url :: "string option"

definition kind_label :: "string \<Rightarrow> string" where
  "kind_label kind =
     (case map_of [(''firing'', ''FIRING''), (''resolved'', ''resolved''), (''repeat'', ''STILL FIRING''), (''ack'', ''ack'')] kind of
        None \<Rightarrow> kind | Some l \<Rightarrow> l)"

definition present :: "string option \<Rightarrow> string option" where
  "present s = (case s of None \<Rightarrow> None | Some t \<Rightarrow> if t = [] then None else Some t)"

definition render :: "alert_event \<Rightarrow> message" where
  [op_defs]: "render ev =
     (let a = av_alert ev;
          body = al_summary a @ '' ('' @ al_severity a @ '')''
            @ (case present (av_by ev) of None \<Rightarrow> [] | Some who \<Rightarrow> '' '' @ em_dash @ '' acknowledged by '' @ who)
            @ (case present (av_note ev) of None \<Rightarrow> [] | Some comment \<Rightarrow> '': '' @ comment)
      in \<lparr>ms_kind = av_kind ev, ms_title = kind_label (av_kind ev) @ '': '' @ al_summary a, ms_body = body,
          ms_severity = al_severity a, ms_fingerprint = al_fingerprint a, ms_at = av_at ev,
          ms_url = map_of (al_annotations a) ''runbook_url''\<rparr>)"

section \<open>Channels\<close>

record ntfy =
  nt_url :: string
  nt_critical_topic :: string
  nt_warning_topic :: string
  nt_public_url :: "string option"
  nt_token :: "string option"

record discord =
  di_webhook_url :: string
  di_public_url :: "string option"

datatype channel_kind = LogChannel | AnnunciatorChannel | NtfyChannel ntfy | DiscordChannel discord

record alert_channel =
  ac_name :: string
  ac_min_severity :: string
  ac_repeat_s :: "real option"
  ac_kind :: channel_kind

text \<open>What a delivery ends in: done, \<open>Retryable\<close>, or any other exception.\<close>

datatype delivery = Delivered | RetryLater | Broken

datatype post_result = PostStatus int | PostUnreachable

fun raise_for_status :: "post_result \<Rightarrow> delivery" where
  "raise_for_status PostUnreachable = RetryLater"
| "raise_for_status (PostStatus n) =
     (if 200 \<le> n \<and> n < 300 then Delivered else if n = 429 \<or> n \<ge> 500 then RetryLater else Broken)"

definition jstrs :: "string list \<Rightarrow> json" where
  "jstrs xs = JList (map JStr xs)"

definition is_firing :: "message \<Rightarrow> bool" where
  "is_firing m \<longleftrightarrow> ms_kind m \<in> {''firing'', ''repeat''}"

definition ntfy_topic :: "ntfy \<Rightarrow> message \<Rightarrow> string" where
  "ntfy_topic c m = (if ms_severity m = ''critical'' then nt_critical_topic c else nt_warning_topic c)"

definition ntfy_priority :: "message \<Rightarrow> int \<times> string" where
  "ntfy_priority m =
     (if is_firing m then (if ms_severity m = ''critical'' then (5, ''rotating_light'') else (3, ''warning''))
      else if ms_kind m = ''resolved'' then (2, ''white_check_mark'') else (1, ''eyes''))"

definition ntfy_actions :: "(json \<Rightarrow> string) \<Rightarrow> string \<Rightarrow> message \<Rightarrow> json" where
  "ntfy_actions dumps public_url m = JList [
     JDict [(''action'', JStr ''http''), (''label'', JStr ''Acknowledge''), (''url'', JStr (public_url @ ''/ack'')),
       (''method'', JStr ''POST''), (''headers'', JDict [(''Content-Type'', JStr ''application/json'')]),
       (''body'', JStr (dumps (JDict [(''fingerprint'', JStr (ms_fingerprint m)), (''by'', JStr ''phone (ntfy)'')]))),
       (''clear'', JBool True)],
     JDict [(''action'', JStr ''view''), (''label'', JStr ''Open annunciator''), (''url'', JStr (public_url @ ''/''))]]"

definition ntfy_payload :: "(json \<Rightarrow> string) \<Rightarrow> ntfy \<Rightarrow> message \<Rightarrow> string \<Rightarrow> (string \<times> json) list" where
  [op_defs]: "ntfy_payload dumps c m topic =
     [(''topic'', JStr topic), (''title'', JStr (ms_title m)), (''message'', JStr (ms_body m)),
      (''priority'', JInt (fst (ntfy_priority m))), (''tags'', jstrs [snd (ntfy_priority m)])]
     @ (case present (nt_public_url c) of
          None \<Rightarrow> []
        | Some u \<Rightarrow> (''click'', JStr (u @ ''/'')) # (if is_firing m then [(''actions'', ntfy_actions dumps u m)] else []))"

definition discord_colour :: "message \<Rightarrow> int" where
  "discord_colour m =
     (if ms_kind m = ''resolved'' then 0x2B7A3A
      else if ms_severity m = ''critical'' then 0xB00020 else if ms_severity m = ''warning'' then 0xE6A100 else 0x808080)"

definition discord_payload :: "(real \<Rightarrow> string) \<Rightarrow> discord \<Rightarrow> message \<Rightarrow> (string \<times> json) list" where
  [op_defs]: "discord_payload iso_text c m =
     [(''username'', JStr ''openlaps''),
      (''embeds'', JList [JDict ([(''title'', JStr (ms_title m)), (''description'', JStr (ms_body m)),
          (''color'', JInt (discord_colour m)), (''timestamp'', JStr (iso_text (ms_at m)))]
        @ (case present (di_public_url c) of None \<Rightarrow> [] | Some u \<Rightarrow> [(''url'', JStr (u @ ''/''))]))])]"

section \<open>The pages that are open\<close>

text \<open>Each server-sent-events client has a queue of at most \<open>bc_max_queue\<close> payloads; a full one misses the payload.\<close>

datatype sse = SseMessage string message | SseSnapshot "active_alert list" nat "alert_event list"

record broadcaster =
  bc_clients :: "(nat \<times> sse list) list"
  bc_next :: nat
  bc_max_queue :: nat

definition broadcaster_new :: broadcaster where
  "broadcaster_new = \<lparr>bc_clients = [], bc_next = 0, bc_max_queue = 200\<rparr>"

definition subscribe :: "broadcaster \<Rightarrow> nat \<times> broadcaster" where
  [op_defs]: "subscribe bc = (bc_next bc, bc\<lparr>bc_clients := bc_clients bc @ [(bc_next bc, [])], bc_next := bc_next bc + 1\<rparr>)"

definition unsubscribe :: "nat \<Rightarrow> broadcaster \<Rightarrow> broadcaster" where
  [op_defs]: "unsubscribe i bc = bc\<lparr>bc_clients := filter (\<lambda>(j, _). j \<noteq> i) (bc_clients bc)\<rparr>"

definition bc_publish :: "sse \<Rightarrow> broadcaster \<Rightarrow> broadcaster" where
  [op_defs]: "bc_publish p bc =
     bc\<lparr>bc_clients := map (\<lambda>(i, q). (i, if length q < bc_max_queue bc then q @ [p] else q)) (bc_clients bc)\<rparr>"

text \<open>One payload for client \<open>i\<close>, or nothing after the timeout.\<close>

definition sse_drain :: "nat \<Rightarrow> broadcaster \<Rightarrow> sse option \<times> broadcaster" where
  [op_defs]: "sse_drain i bc = (case map_of (bc_clients bc) i of
     Some (p # q) \<Rightarrow> (Some p, bc\<lparr>bc_clients := AList.update i q (bc_clients bc)\<rparr>)
   | _ \<Rightarrow> (None, bc))"

section \<open>The dispatcher\<close>

record pending =
  pn_channel :: alert_channel
  pn_message :: message
  pn_attempts :: nat
  pn_due_at :: real
  pn_deadline :: real

record world =
  wd_post :: "nat \<Rightarrow> post_result"
  wd_clock :: "nat \<Rightarrow> real"

record dispatcher =
  dp_channels :: "alert_channel list"
  dp_retry_deadline_s :: real
  dp_queue :: "pending list"
  dp_delivered :: nat
  dp_failed :: nat
  dp_expired :: nat
  dp_per_channel :: "(string \<times> nat) list"
  dp_broadcaster :: broadcaster
  dp_calls :: "(nat \<times> alert_channel \<times> message \<times> delivery) list"

definition dispatcher_new :: "alert_channel list \<Rightarrow> real \<Rightarrow> dispatcher" where
  "dispatcher_new chans deadline = \<lparr>dp_channels = chans, dp_retry_deadline_s = deadline, dp_queue = [], dp_delivered = 0,
     dp_failed = 0, dp_expired = 0, dp_per_channel = [], dp_broadcaster = broadcaster_new, dp_calls = []\<rparr>"

definition BACKOFF_S :: "real list" where "BACKOFF_S = [2, 5, 15, 30, 60]"

definition backoff :: "nat \<Rightarrow> real" where
  "backoff attempts = BACKOFF_S ! min attempts (length BACKOFF_S - 1)"

text \<open>\<open>channel.deliver(message)\<close>.\<close>

definition deliver_outcome :: "world \<Rightarrow> alert_channel \<Rightarrow> dispatcher \<Rightarrow> delivery" where
  "deliver_outcome w ch d = (case ac_kind ch of
     LogChannel \<Rightarrow> Delivered
   | AnnunciatorChannel \<Rightarrow> Delivered
   | _ \<Rightarrow> raise_for_status (wd_post w (length (dp_calls d))))"

definition deliver_effect :: "alert_channel \<Rightarrow> message \<Rightarrow> dispatcher \<Rightarrow> dispatcher" where
  "deliver_effect ch m d =
     (if ac_kind ch = AnnunciatorChannel then d\<lparr>dp_broadcaster := bc_publish (SseMessage (ac_name ch) m) (dp_broadcaster d)\<rparr> else d)"

definition call_channel :: "world \<Rightarrow> alert_channel \<Rightarrow> message \<Rightarrow> nat \<Rightarrow> dispatcher \<Rightarrow> dispatcher" where
  "call_channel w ch m k d =
     (deliver_effect ch m d)\<lparr>dp_calls := dp_calls d @ [(k, ch, m, deliver_outcome w ch d)]\<rparr>"

definition count_delivered :: "alert_channel \<Rightarrow> dispatcher \<Rightarrow> dispatcher" where
  "count_delivered ch d = d\<lparr>dp_delivered := dp_delivered d + 1,
     dp_per_channel := AList.update (ac_name ch) ((case map_of (dp_per_channel d) (ac_name ch) of None \<Rightarrow> 0 | Some n \<Rightarrow> n) + 1) (dp_per_channel d)\<rparr>"

definition enqueue_retry :: "pending \<Rightarrow> dispatcher \<Rightarrow> dispatcher" where
  "enqueue_retry p d = d\<lparr>dp_queue := dp_queue d @ [p]\<rparr>"

definition mono_now :: "world \<Rightarrow> dispatcher \<Rightarrow> real" where
  "mono_now w d = wd_clock w (length (dp_calls d))"

text \<open>\<open>deadline or now\<close>: a deadline of exactly zero counts as none.\<close>

definition first_deadline :: "real \<Rightarrow> nat \<Rightarrow> real \<Rightarrow> real" where
  "first_deadline retry_s k now = (if k = 0 \<and> now + retry_s \<noteq> 0 then now + retry_s else now)"

definition attempt :: "world \<Rightarrow> alert_channel \<Rightarrow> message \<Rightarrow> nat \<Rightarrow> dispatcher \<Rightarrow> bool \<times> dispatcher" where
  [op_defs]: "attempt w ch m k d =
     (let d1 = call_channel w ch m k d in
      case deliver_outcome w ch d of
        RetryLater \<Rightarrow>
          (let now = mono_now w d1
           in (False, enqueue_retry \<lparr>pn_channel = ch, pn_message = m, pn_attempts = k + 1, pn_due_at = now + backoff k,
                 pn_deadline = first_deadline (dp_retry_deadline_s d1) k now\<rparr> d1))
      | Broken \<Rightarrow> (False, d1\<lparr>dp_failed := dp_failed d1 + 1\<rparr>)
      | Delivered \<Rightarrow> (True, count_delivered ch d1))"

definition retry :: "world \<Rightarrow> pending \<Rightarrow> dispatcher \<Rightarrow> bool \<times> dispatcher" where
  [op_defs]: "retry w p d =
     (let d1 = call_channel w (pn_channel p) (pn_message p) (pn_attempts p) d in
      case deliver_outcome w (pn_channel p) d of
        RetryLater \<Rightarrow>
          (False, enqueue_retry (p\<lparr>pn_attempts := pn_attempts p + 1, pn_due_at := mono_now w d1 + backoff (pn_attempts p)\<rparr>) d1)
      | Broken \<Rightarrow> (False, d1\<lparr>dp_failed := dp_failed d1 + 1\<rparr>)
      | Delivered \<Rightarrow> (True, count_delivered (pn_channel p) d1))"

definition wants :: "alert \<Rightarrow> alert_channel \<Rightarrow> bool" where
  "wants a ch \<longleftrightarrow> severity_rank (ac_min_severity ch) \<le> severity_rank (al_severity a)"

text \<open>When a channel was last told of an active alert.\<close>

definition set_notified :: "string \<Rightarrow> alert_channel \<Rightarrow> real \<Rightarrow> alert_book \<Rightarrow> alert_book" where
  "set_notified fp ch t b = (case map_of (bk_active b) fp of
     None \<Rightarrow> b
   | Some e \<Rightarrow> b\<lparr>bk_active := AList.update fp (e\<lparr>aa_last_notified := AList.update (ac_name ch) t (aa_last_notified e)\<rparr>) (bk_active b)\<rparr>)"

definition announce_one :: "world \<Rightarrow> alert_event \<Rightarrow> alert_channel \<Rightarrow> dispatcher \<times> alert_book \<Rightarrow> dispatcher \<times> alert_book" where
  "announce_one w ev ch db =
     (if wants (av_alert ev) ch then
        (case attempt w ch (render ev) 0 (fst db) of
           (ok, d) \<Rightarrow> (d, if ok then set_notified (al_fingerprint (av_alert ev)) ch (av_at ev) (snd db) else snd db))
      else db)"

definition announce :: "world \<Rightarrow> alert_event \<Rightarrow> dispatcher \<times> alert_book \<Rightarrow> dispatcher \<times> alert_book" where
  [op_defs]: "announce w ev db = fold (announce_one w ev) (dp_channels (fst db)) db"

text \<open>Repeats: for each unacknowledged alert and each repeating channel that wants it, a delivery when the channel was
  never told or not within its interval.\<close>

definition repeat_wanted :: "alert_channel \<Rightarrow> active_alert \<Rightarrow> real \<Rightarrow> bool" where
  "repeat_wanted ch e now = (case ac_repeat_s ch of
     None \<Rightarrow> False
   | Some r \<Rightarrow> wants (aa_alert e) ch
       \<and> (case map_of (aa_last_notified e) (ac_name ch) of None \<Rightarrow> True | Some t \<Rightarrow> now - t \<ge> r))"

definition repeat_one :: "world \<Rightarrow> real \<Rightarrow> string \<Rightarrow> alert_channel \<Rightarrow> alert_event list \<times> dispatcher \<times> alert_book \<Rightarrow> alert_event list \<times> dispatcher \<times> alert_book" where
  "repeat_one w now fp ch s = (case s of (evs, d, b) \<Rightarrow>
     (case map_of (bk_active b) fp of
        None \<Rightarrow> s
      | Some e \<Rightarrow>
          if repeat_wanted ch e now then
            (let ev = plain_event ''repeat'' (aa_alert e) now in
             case attempt w ch (render ev) 0 d of
               (ok, d1) \<Rightarrow> if ok then (evs @ [ev], d1, set_notified fp ch now b) else (evs, d1, b))
          else s))"

definition repeat_alert :: "world \<Rightarrow> real \<Rightarrow> string \<Rightarrow> alert_event list \<times> dispatcher \<times> alert_book \<Rightarrow> alert_event list \<times> dispatcher \<times> alert_book" where
  "repeat_alert w now fp s = fold (repeat_one w now fp) (dp_channels (fst (snd s))) s"

definition repeat_due :: "world \<Rightarrow> real \<Rightarrow> dispatcher \<times> alert_book \<Rightarrow> alert_event list \<times> dispatcher \<times> alert_book" where
  [op_defs]: "repeat_due w now db = fold (repeat_alert w now) (map fst (unacknowledged (snd db))) ([], db)"

definition pump_one :: "world \<Rightarrow> real \<Rightarrow> pending \<Rightarrow> nat \<times> dispatcher \<Rightarrow> nat \<times> dispatcher" where
  "pump_one w now p nd =
     (if now > pn_deadline p then (fst nd, (snd nd)\<lparr>dp_expired := dp_expired (snd nd) + 1\<rparr>)
      else case retry w p (snd nd) of (ok, d) \<Rightarrow> (if ok then fst nd + 1 else fst nd, d))"

definition pump :: "world \<Rightarrow> dispatcher \<Rightarrow> nat \<times> dispatcher" where
  [op_defs]: "pump w d =
     (let now = mono_now w d
      in fold (pump_one w now) (filter (\<lambda>p. pn_due_at p \<le> now) (dp_queue d))
           (0, d\<lparr>dp_queue := filter (\<lambda>p. \<not> pn_due_at p \<le> now) (dp_queue d)\<rparr>))"

definition pending_count :: "dispatcher \<Rightarrow> nat" where
  "pending_count d = length (dp_queue d)"

section \<open>Every message is accounted for\<close>

text \<open>Messages handed to a channel for the first time, and what became of them.\<close>

definition offered :: "dispatcher \<Rightarrow> nat" where
  "offered d = length (filter (\<lambda>c. fst c = 0) (dp_calls d))"

definition deliveries_settled :: "dispatcher \<Rightarrow> nat" where
  "deliveries_settled d = dp_delivered d + dp_failed d + dp_expired d"

definition calls_with :: "delivery \<Rightarrow> dispatcher \<Rightarrow> nat" where
  "calls_with out d = length (filter (\<lambda>c. snd (snd (snd c)) = out) (dp_calls d))"

text \<open>\<open>n\<close> messages are in hand, taken off the queue by a pump that has not dealt with them yet.\<close>

definition accounts :: "nat \<Rightarrow> dispatcher \<Rightarrow> bool" where
  [inv_defs]: "accounts n d \<longleftrightarrow> offered d = deliveries_settled d + pending_count d + n
     \<and> list_all (\<lambda>p. 0 < pn_attempts p) (dp_queue d)
     \<and> dp_delivered d = calls_with Delivered d \<and> dp_failed d = calls_with Broken d
     \<and> distinct (map fst (dp_per_channel d)) \<and> sum_list (map snd (dp_per_channel d)) = dp_delivered d"

lemma sum_list_count:
  "sum_list (map snd (AList.update k ((case map_of al k of None \<Rightarrow> 0 | Some n \<Rightarrow> n) + 1) al)) = Suc (sum_list (map snd al))"
  by (induction al) (auto split: option.splits)

lemma call_channel_fields [simp]:
  "dp_channels (call_channel w ch m k d) = dp_channels d" "dp_queue (call_channel w ch m k d) = dp_queue d"
  "dp_retry_deadline_s (call_channel w ch m k d) = dp_retry_deadline_s d"
  "dp_delivered (call_channel w ch m k d) = dp_delivered d" "dp_failed (call_channel w ch m k d) = dp_failed d"
  "dp_expired (call_channel w ch m k d) = dp_expired d" "dp_per_channel (call_channel w ch m k d) = dp_per_channel d"
  "dp_calls (call_channel w ch m k d) = dp_calls d @ [(k, ch, m, deliver_outcome w ch d)]"
  by (simp_all add: call_channel_def deliver_effect_def)

lemma attempt_fields:
  "dp_channels (snd (attempt w ch m k d)) = dp_channels d"
  "dp_calls (snd (attempt w ch m k d)) = dp_calls d @ [(k, ch, m, deliver_outcome w ch d)]"
  "dp_retry_deadline_s (snd (attempt w ch m k d)) = dp_retry_deadline_s d"
  "fst (attempt w ch m k d) \<longleftrightarrow> deliver_outcome w ch d = Delivered"
  by (auto simp: attempt_def Let_def enqueue_retry_def count_delivered_def split: delivery.splits)

lemma retry_fields:
  "dp_channels (snd (retry w p d)) = dp_channels d"
  "dp_calls (snd (retry w p d)) = dp_calls d @ [(pn_attempts p, pn_channel p, pn_message p, deliver_outcome w (pn_channel p) d)]"
  "fst (retry w p d) \<longleftrightarrow> deliver_outcome w (pn_channel p) d = Delivered"
  by (auto simp: retry_def Let_def enqueue_retry_def count_delivered_def split: delivery.splits)

lemma attempt_accounts: "accounts n d \<Longrightarrow> accounts n (snd (attempt w ch m 0 d))"
  by (cases "deliver_outcome w ch d")
    (auto simp: attempt_def Let_def accounts_def offered_def deliveries_settled_def pending_count_def calls_with_def enqueue_retry_def
      count_delivered_def sum_list_count[simplified])

lemma retry_accounts: "accounts (Suc n) d \<Longrightarrow> 0 < pn_attempts p \<Longrightarrow> accounts n (snd (retry w p d))"
  by (cases "deliver_outcome w (pn_channel p) d")
    (auto simp: retry_def Let_def accounts_def offered_def deliveries_settled_def pending_count_def calls_with_def enqueue_retry_def
      count_delivered_def sum_list_count[simplified])

lemma announce_one_accounts: "accounts n (fst db) \<Longrightarrow> accounts n (fst (announce_one w ev ch db))"
  using attempt_accounts[of n "fst db" w ch "render ev"] by (auto simp: announce_one_def split: prod.splits)

lemma announce_accounts: "accounts n (fst db) \<Longrightarrow> accounts n (fst (announce w ev db))"
  unfolding announce_def
  by (rule fold_invariant[where Q = "\<lambda>_. True" and P = "\<lambda>db. accounts n (fst db)"]) (simp_all add: announce_one_accounts)

lemma repeat_one_accounts: "accounts n (fst (snd s)) \<Longrightarrow> accounts n (fst (snd (repeat_one w now fp ch s)))"
  using attempt_accounts[of n "fst (snd s)" w ch]
  by (auto simp: repeat_one_def Let_def split: prod.splits option.splits)
     (metis snd_conv)+

lemma repeat_due_accounts: "accounts n (fst db) \<Longrightarrow> accounts n (fst (snd (repeat_due w now db)))"
proof -
  assume a: "accounts n (fst db)"
  have "accounts n (fst (snd (repeat_alert w now fp s)))" if "accounts n (fst (snd s))" for fp s
    unfolding repeat_alert_def
    by (rule fold_invariant[where Q = "\<lambda>_. True" and P = "\<lambda>s. accounts n (fst (snd s))"]) (simp_all add: repeat_one_accounts that)
  then show ?thesis unfolding repeat_due_def
    by (intro fold_invariant[where Q = "\<lambda>_. True" and P = "\<lambda>s. accounts n (fst (snd s))"]) (simp_all add: a)
qed

lemma pump_loop_accounts:
  assumes "accounts (length ps) (snd nd)" "list_all (\<lambda>p. 0 < pn_attempts p) ps"
  shows "accounts 0 (snd (fold (pump_one w now) ps nd))"
  using assms
proof (induction ps arbitrary: nd)
  case (Cons p ps)
  have "accounts (length ps) (snd (pump_one w now p nd))"
  proof (cases "now > pn_deadline p")
    case True
    with Cons.prems(1) show ?thesis
      by (simp add: pump_one_def accounts_def offered_def deliveries_settled_def pending_count_def calls_with_def)
  next
    case False
    with retry_accounts[of "length ps" "snd nd" p w] Cons.prems show ?thesis by (auto simp: pump_one_def split: prod.splits)
  qed
  with Cons show ?case by simp
qed simp

lemma pump_accounts: "accounts 0 d \<Longrightarrow> accounts 0 (snd (pump w d))"
proof -
  assume a: "accounts 0 d"
  let ?due = "filter (\<lambda>p. pn_due_at p \<le> mono_now w d) (dp_queue d)"
  let ?d = "d\<lparr>dp_queue := filter (\<lambda>p. \<not> pn_due_at p \<le> mono_now w d) (dp_queue d)\<rparr>"
  have "accounts (length ?due) ?d"
    using a sum_length_filter_compl[of "\<lambda>p. pn_due_at p \<le> mono_now w d" "dp_queue d"]
    by (auto simp: accounts_def offered_def deliveries_settled_def pending_count_def calls_with_def list_all_iff)
  moreover have "list_all (\<lambda>p. 0 < pn_attempts p) ?due" using a by (auto simp: accounts_def list_all_iff)
  ultimately show ?thesis unfolding pump_def Let_def using pump_loop_accounts[of ?due "(0, ?d)"] by simp
qed

section \<open>Fan-out\<close>

lemma announce_loop_calls:
  "map (\<lambda>c. (fst c, fst (snd c), fst (snd (snd c)))) (dp_calls (fst (fold (announce_one w ev) chans db)))
   = map (\<lambda>c. (fst c, fst (snd c), fst (snd (snd c)))) (dp_calls (fst db)) @ map (\<lambda>ch. (0, ch, render ev)) (filter (wants (av_alert ev)) chans)"
proof (induction chans arbitrary: db)
  case (Cons ch chans)
  have "dp_calls (fst (announce_one w ev ch db)) = dp_calls (fst db) @ (if wants (av_alert ev) ch then [(0, ch, render ev, deliver_outcome w ch (fst db))] else [])"
    using attempt_fields(2)[of w ch "render ev" 0 "fst db"] by (auto simp: announce_one_def split: prod.splits)
  with Cons.IH show ?case by simp
qed simp

end
