(* ===== verification/Session_Database.thy ===== *)
theory Session_Database
  imports Session_State Race_Plan Ingest_Store "HOL-Library.Multiset"
begin

text \<open>
  \<^verbatim>\<open>src/pit/session_control/database.py\<close>: the tables of sessions, drivers and stints, the snapshot
  that is written to them, and the durable retry queue.

  A queued snapshot is the dictionary \<open>to_dict\<close> makes; the queue is an ordered dictionary by session
  id, and its file holds the list of its values. How the database answers is an \<open>outcome\<close> as in the
  ingest store: \<open>Unreachable\<close> and \<open>Lost_After_Commit\<close> are the timeouts and connection errors that
  \<open>record\<close> catches, \<open>Rejected\<close> is any other \<open>psycopg.Error\<close>, which it does not. Whether a write of the
  queue file succeeds is an argument too; the file is replaced atomically. \<open>clk\<close> is the clock \<open>to_dict\<close> reads.
\<close>

type_synonym jdict = "(string \<times> json) list"

section \<open>Tables\<close>

record session_row =
  sv_vehicle_id :: string
  sv_session_type :: string
  sv_track_name :: "string option"
  sv_car :: "string option"
  sv_started :: real
  sv_ended :: "real option"
  sv_status :: string

record stint_row =
  sw_stint_id :: int
  sw_driver_id :: int
  sw_started :: real
  sw_ended :: "real option"

record race_db =
  rd_sessions :: "(string \<times> session_row) list"
  rd_drivers :: "(string \<times> int) list"
  rd_next_driver :: int
  rd_stints :: "((string \<times> int) \<times> stint_row) list"
  rd_next_stint :: int
  rd_laps :: "(lap_key \<times> stored_lap) list"
  rd_plans :: "((string \<times> int) \<times> race_plan) list"

section \<open>Reading a snapshot\<close>

fun as_str_or_empty :: "json \<Rightarrow> string" where
  "as_str_or_empty (JStr s) = s"
| "as_str_or_empty _ = []"

definition need_str :: "jdict \<Rightarrow> string \<Rightarrow> string res" where
  "need_str d k = (let v = as_str_or_empty (jget d k) in if v = [] then Inl ValueError else Inr v)"

definition need_int :: "jdict \<Rightarrow> string \<Rightarrow> int res" where
  "need_int d k = (case jget d k of JInt n \<Rightarrow> Inr n | _ \<Rightarrow> Inl ValueError)"

definition timestamp_ms :: "int \<Rightarrow> real res" where
  "timestamp_ms ms = fromtimestamp (Fin (of_int ms / 1000))"

fun dict_of :: "json \<Rightarrow> jdict res" where
  "dict_of (JDict d) = Inr d"
| "dict_of _ = Inl TypeError"

fun closed_stints :: "json \<Rightarrow> jdict list res" where
  "closed_stints (JList items) = mapE dict_of items"
| "closed_stints _ = Inl TypeError"

text \<open>The value of \<open>stint["end_ms"]\<close> as a timestamp when it is an integer; a bool is one.\<close>

fun end_stamp :: "json \<Rightarrow> real option res" where
  "end_stamp (JInt n) = sbind (timestamp_ms n) (\<lambda>t. Inr (Some t))"
| "end_stamp (JBool b) = sbind (timestamp_ms (of_bool b)) (\<lambda>t. Inr (Some t))"
| "end_stamp _ = Inr None"

section \<open>Writing a snapshot\<close>

definition upsert_driver :: "string \<Rightarrow> race_db \<Rightarrow> int \<times> race_db" where
  "upsert_driver name db =
     (let i = (case map_of (rd_drivers db) name of Some n \<Rightarrow> n | None \<Rightarrow> rd_next_driver db)
      in (i, db\<lparr>rd_drivers := AList.update name i (rd_drivers db), rd_next_driver := rd_next_driver db + 1\<rparr>))"

definition upsert_stint :: "string \<Rightarrow> int \<Rightarrow> int \<Rightarrow> real \<Rightarrow> real option \<Rightarrow> race_db \<Rightarrow> race_db" where
  "upsert_stint sid num driver_id started ended db =
     (let i = (case map_of (rd_stints db) (sid, num) of Some r \<Rightarrow> sw_stint_id r | None \<Rightarrow> rd_next_stint db)
      in db\<lparr>rd_stints := AList.update (sid, num)
              \<lparr>sw_stint_id = i, sw_driver_id = driver_id, sw_started = started, sw_ended = ended\<rparr> (rd_stints db),
            rd_next_stint := rd_next_stint db + 1\<rparr>)"

definition write_stint :: "string \<Rightarrow> jdict \<Rightarrow> race_db \<Rightarrow> race_db res" where
  "write_stint sid stint db =
     sbind (need_str stint ''driver'') (\<lambda>driver.
       let (driver_id, db1) = upsert_driver driver db in
       sbind (case map_of stint ''end_ms'' of None \<Rightarrow> Inl KeyError | Some v \<Rightarrow> Inr v) (\<lambda>end_ms.
       sbind (need_int stint ''stint_number'') (\<lambda>num.
       sbind (need_int stint ''start_ms'') (\<lambda>start.
       sbind (timestamp_ms start) (\<lambda>started.
       sbind (end_stamp end_ms) (\<lambda>ended. Inr (upsert_stint sid num driver_id started ended db1)))))))"

fun write_stints :: "string \<Rightarrow> jdict list \<Rightarrow> race_db \<Rightarrow> race_db res" where
  "write_stints sid [] db = Inr db"
| "write_stints sid (d # ds) db = sbind (write_stint sid d db) (write_stints sid ds)"

text \<open>Laps of the session that point at another stint than the one whose time they fall in are moved to it.\<close>

definition in_window :: "real \<Rightarrow> stint_row \<Rightarrow> bool" where
  "in_window t r \<longleftrightarrow> sw_started r \<le> t \<and> (case sw_ended r of None \<Rightarrow> True | Some e \<Rightarrow> t < e)"

definition rewindow_lap :: "string \<Rightarrow> ((string \<times> int) \<times> stint_row) list \<Rightarrow> lap_key \<times> stored_lap \<Rightarrow> lap_key \<times> stored_lap" where
  "rewindow_lap sid stints l =
     (case sl_stint_id (snd l) of
        None \<Rightarrow> l
      | Some cur \<Rightarrow>
          if sl_session_id (snd l) \<noteq> Some sid then l
          else case find (\<lambda>((s, n), r). s = sid \<and> sw_stint_id r \<noteq> cur \<and> in_window (snd (fst l)) r) stints of
            None \<Rightarrow> l
          | Some (k, r) \<Rightarrow> (fst l, (snd l)\<lparr>sl_stint_id := Some (sw_stint_id r)\<rparr>))"

definition nullif_empty :: "string \<Rightarrow> string option" where
  "nullif_empty s = (if s = [] then None else Some s)"

text \<open>The end of an ended session: the latest end of its stints.\<close>

definition ended_at :: "string \<Rightarrow> jdict list \<Rightarrow> real option res" where
  "ended_at status closed_ds =
     (if status \<noteq> ''ended'' then Inr None
      else sbind (mapE (\<lambda>d. need_int d ''end_ms'') closed_ds) (\<lambda>ends.
        if ends = [] then Inr None else sbind (timestamp_ms (Max (set ends))) (\<lambda>t. Inr (Some t))))"

definition open_stint :: "string \<Rightarrow> jdict \<Rightarrow> jdict list res" where
  "open_stint status d =
     (if status \<noteq> ''active'' then Inr []
      else sbind (need_str d ''driver'') (\<lambda>driver.
           sbind (need_int d ''stint_number'') (\<lambda>num.
           sbind (need_int d ''stint_start'') (\<lambda>start.
             Inr [[(''driver'', JStr driver), (''stint_number'', JInt num), (''start_ms'', JInt start), (''end_ms'', JNull)]]))))"

text \<open>\<open>_write_state\<close> as one transaction: the tables it commits, or the exception that rolls it back.\<close>

definition write_state :: "string \<Rightarrow> jdict \<Rightarrow> race_db \<Rightarrow> race_db res" where
  [op_defs]: "write_state vehicle d db =
     sbind (need_str d ''session_id'') (\<lambda>sid.
     sbind (need_str d ''status'') (\<lambda>status.
     sbind (sbind (need_int d ''session_start'') timestamp_ms) (\<lambda>started.
     sbind (closed_stints (jget d ''stints'')) (\<lambda>closed_ds.
     sbind (ended_at status closed_ds) (\<lambda>ended_at.
     sbind (need_str d ''session_type'') (\<lambda>ty.
       let row = \<lparr>sv_vehicle_id = vehicle, sv_session_type = ty, sv_track_name = nullif_empty (as_str_or_empty (jget d ''track_name'')),
                  sv_car = nullif_empty (as_str_or_empty (jget d ''car'')), sv_started = started, sv_ended = ended_at, sv_status = status\<rparr>;
           db1 = db\<lparr>rd_sessions := AList.update sid row (rd_sessions db)\<rparr>
       in sbind (open_stint status d) (\<lambda>open_ds.
          sbind (write_stints sid (closed_ds @ open_ds) db1) (\<lambda>db2.
            Inr (db2\<lparr>rd_laps := map (rewindow_lap sid (rd_stints db2)) (rd_laps db2)\<rparr>)))))))))"

section \<open>The retry queue\<close>

record session_database =
  sdb_vehicle :: string
  sdb_connected :: bool
  sdb_pending :: "(string \<times> jdict) list"
  sdb_queue_file :: "jdict list option"
  sdb_connects :: nat
  sdb_errors :: nat
  sdb_tables :: race_db

text \<open>A value removed and put back goes to the end, as \<open>OrderedDict\<close> does.\<close>

definition persist_pending :: "bool \<Rightarrow> session_database \<Rightarrow> unit res \<times> session_database" where
  "persist_pending file_ok d =
     (if file_ok then (Inr (), d\<lparr>sdb_queue_file := Some (map snd (sdb_pending d))\<rparr>) else (Inl OSError, d))"

definition queue_snapshot :: "bool \<Rightarrow> string \<Rightarrow> jdict \<Rightarrow> session_database \<Rightarrow> bool res \<times> session_database" where
  [op_defs]: "queue_snapshot file_ok sid st d =
     (case persist_pending file_ok (d\<lparr>sdb_pending := AList.update sid st (sdb_pending d)\<rparr>) of
        (Inr _, d1) \<Rightarrow> (Inr False, d1)
      | (Inl e, d1) \<Rightarrow>
          (Inl e, d1\<lparr>sdb_pending := (case map_of (sdb_pending d) sid of
             None \<Rightarrow> AList.delete sid (sdb_pending d1) | Some old \<Rightarrow> AList.update sid old (sdb_pending d1))\<rparr>))"

definition drop_connection :: "session_database \<Rightarrow> session_database" where
  "drop_connection d = d\<lparr>sdb_connected := False\<rparr>"

definition connect_once :: "bool \<Rightarrow> session_database \<Rightarrow> bool \<times> session_database" where
  "connect_once reachable d =
     (if sdb_connected d then (True, d)
      else if reachable then (True, d\<lparr>sdb_connected := True, sdb_connects := sdb_connects d + 1\<rparr>)
      else (False, d\<lparr>sdb_errors := sdb_errors d + 1\<rparr>))"

text \<open>A committed snapshot takes the queued one of its session with it; if the file cannot be written
  the queued one is put back.\<close>

definition retire_pending :: "bool \<Rightarrow> string \<Rightarrow> session_database \<Rightarrow> session_database" where
  "retire_pending file_ok sid d =
     (case map_of (sdb_pending d) sid of
        None \<Rightarrow> d
      | Some old \<Rightarrow>
          (case persist_pending file_ok (d\<lparr>sdb_pending := AList.delete sid (sdb_pending d)\<rparr>) of
             (Inr _, d1) \<Rightarrow> d1
           | (Inl e, d1) \<Rightarrow> d1\<lparr>sdb_pending := AList.update sid old (sdb_pending d1)\<rparr>))"

definition db_record :: "int \<Rightarrow> outcome \<Rightarrow> bool \<Rightarrow> jdict \<Rightarrow> session_database \<Rightarrow> bool res \<times> session_database" where
  [op_defs]: "db_record clk out file_ok state d =
     (case session_from_dict state of
        Inl e \<Rightarrow> (Inl e, d)
      | Inr s \<Rightarrow>
          (let st = session_to_dict clk s; sid = as_str_or_empty (jget st ''session_id'') in
           if sid = [] then (Inr True, d)
           else if \<not> sdb_connected d then queue_snapshot file_ok sid st d
           else case write_state (sdb_vehicle d) st (sdb_tables d) of
               Inl e \<Rightarrow> (Inl e, d)
             | Inr db \<Rightarrow>
                 (case out of
                    Committed \<Rightarrow> (Inr True, retire_pending file_ok sid (d\<lparr>sdb_tables := db\<rparr>))
                  | Rejected \<Rightarrow> (Inl PsycopgError, d)
                  | Unreachable \<Rightarrow> queue_snapshot file_ok sid st (drop_connection (d\<lparr>sdb_errors := sdb_errors d + 1\<rparr>))
                  | Lost_After_Commit \<Rightarrow>
                      queue_snapshot file_ok sid st (drop_connection (d\<lparr>sdb_tables := db, sdb_errors := sdb_errors d + 1\<rparr>)))))"

definition flush_one :: "outcome \<Rightarrow> bool \<Rightarrow> session_database \<Rightarrow> bool res \<times> session_database" where
  [op_defs]: "flush_one out file_ok d =
     (if \<not> sdb_connected d then (Inr False, d)
      else case sdb_pending d of
          [] \<Rightarrow> (Inr False, d)
        | (sid, st) # rest \<Rightarrow>
            (case write_state (sdb_vehicle d) st (sdb_tables d) of
               Inl e \<Rightarrow> (Inl e, d)
             | Inr db \<Rightarrow>
                 (case out of
                    Committed \<Rightarrow>
                      (case persist_pending file_ok (d\<lparr>sdb_tables := db, sdb_pending := rest\<rparr>) of
                         (Inr _, d1) \<Rightarrow> (Inr True, d1)
                       | (Inl e, d1) \<Rightarrow>
                           (Inr False, d1\<lparr>sdb_errors := sdb_errors d1 + 1, sdb_pending := rest @ [(sid, st)]\<rparr>))
                  | Rejected \<Rightarrow> (Inl PsycopgError, d)
                  | Unreachable \<Rightarrow> (Inr False, drop_connection (d\<lparr>sdb_errors := sdb_errors d + 1\<rparr>))
                  | Lost_After_Commit \<Rightarrow>
                      (Inr False, drop_connection (d\<lparr>sdb_tables := db, sdb_errors := sdb_errors d + 1\<rparr>)))))"

text \<open>Reading the queue back at a start.\<close>

fun load_pending :: "int \<Rightarrow> jdict list \<Rightarrow> (string \<times> jdict) list \<Rightarrow> (string \<times> jdict) list res" where
  "load_pending clk [] acc = Inr acc"
| "load_pending clk (item # items) acc =
     sbind (session_from_dict item) (\<lambda>s.
       let st = session_to_dict clk s
       in load_pending clk items (AList.update (as_str_or_empty (jget st ''session_id'')) st acc))"

definition database_start :: "int \<Rightarrow> session_database \<Rightarrow> session_database res" where
  "database_start clk d =
     sbind (case sdb_queue_file d of None \<Rightarrow> Inr [] | Some items \<Rightarrow> load_pending clk items []) (\<lambda>pending.
       Inr \<lparr>sdb_vehicle = sdb_vehicle d, sdb_connected = False, sdb_pending = pending, sdb_queue_file = sdb_queue_file d,
            sdb_connects = 0, sdb_errors = 0, sdb_tables = sdb_tables d\<rparr>)"

definition db_retry_backoff :: "real \<Rightarrow> bool \<Rightarrow> real" where
  "db_retry_backoff current made_progress = (if made_progress then 1 / 2 else min (current * 2) 15)"

text \<open>One pass of the reconnect loop: the wait it ends in, the database side and the next backoff.
  \<open>WaitWake\<close> is the wait for a wake-up of at most half a second.\<close>

datatype db_wait = Sleep real | NoWait | WaitWake

definition db_run_pass ::
  "bool \<Rightarrow> outcome \<Rightarrow> bool \<Rightarrow> session_database \<times> real \<Rightarrow> db_wait res \<times> session_database \<times> real" where
  [op_defs]: "db_run_pass reachable out file_ok db_backoff = (case db_backoff of (d, backoff) \<Rightarrow>
     (case connect_once reachable d of
        (False, d1) \<Rightarrow> (Inr (Sleep backoff), d1, db_retry_backoff backoff False)
      | (True, d1) \<Rightarrow>
          (case flush_one out file_ok d1 of
             (Inl e, d2) \<Rightarrow> (Inl e, d2, backoff)
           | (Inr flushed, d2) \<Rightarrow>
               if \<not> sdb_connected d2 then (Inr (Sleep backoff), d2, db_retry_backoff backoff False)
               else if flushed then (Inr NoWait, d2, db_retry_backoff backoff True)
               else (Inr WaitWake, d2, backoff))))"

section \<open>Race plans\<close>

text \<open>The revision stored next, and the row of a plan by session and revision. A session that is not in the
  database breaks the foreign key, which is answered like an outage but keeps the connection.\<close>

definition next_revision :: "string \<Rightarrow> race_db \<Rightarrow> int" where
  "next_revision sid db = fold max (map (snd \<circ> fst) (filter (\<lambda>x. fst (fst x) = sid) (rd_plans db))) 0 + 1"

definition save_plan :: "outcome \<Rightarrow> string \<Rightarrow> race_plan \<Rightarrow> session_database \<Rightarrow> (int \<times> race_plan) res \<times> session_database" where
  [op_defs]: "save_plan out sid plan d =
     (if \<not> sdb_connected d then (Inl PlanUnavailable, d)
      else let r = next_revision sid (sdb_tables d);
               db = (sdb_tables d)\<lparr>rd_plans := rd_plans (sdb_tables d) @ [((sid, r), plan)]\<rparr>
           in if sid \<notin> fst ` set (rd_sessions (sdb_tables d)) then (Inl PlanUnavailable, d)
              else case out of
                  Committed \<Rightarrow> (Inr (r, plan), d\<lparr>sdb_tables := db\<rparr>)
                | Rejected \<Rightarrow> (Inl PsycopgError, d)
                | Unreachable \<Rightarrow> (Inl PlanUnavailable, drop_connection (d\<lparr>sdb_errors := sdb_errors d + 1\<rparr>))
                | Lost_After_Commit \<Rightarrow>
                    (Inl PlanUnavailable, drop_connection (d\<lparr>sdb_tables := db, sdb_errors := sdb_errors d + 1\<rparr>)))"

definition latest_plan :: "string \<Rightarrow> race_db \<Rightarrow> (int \<times> race_plan) option" where
  "latest_plan sid db =
     (let r = next_revision sid db - 1 in map_option (Pair r) (map_of (rd_plans db) (sid, r)))"

definition load_plan :: "outcome \<Rightarrow> string \<Rightarrow> session_database \<Rightarrow> (int \<times> race_plan) option res \<times> session_database" where
  [op_defs]: "load_plan out sid d =
     (if \<not> sdb_connected d then (Inl PlanUnavailable, d)
      else case out of
          Committed \<Rightarrow> (Inr (latest_plan sid (sdb_tables d)), d)
        | Rejected \<Rightarrow> (Inl PsycopgError, d)
        | _ \<Rightarrow> (Inl PlanUnavailable, drop_connection (d\<lparr>sdb_errors := sdb_errors d + 1\<rparr>)))"

section \<open>What a snapshot writes\<close>

definition stamp_in_range :: "int \<Rightarrow> bool" where
  "stamp_in_range ms \<longleftrightarrow> 0 \<le> ms \<and> ms < 253402300800000"

lemma timestamp_exact:
  assumes "stamp_in_range ms" shows "timestamp_ms ms = Inr (of_int ms / 1000)"
proof -
  have "py_round (real_of_int ms / 1000 * 10 ^ 6) = ms * 1000"
    using py_round_of_int[of "ms * 1000"] by (simp add: algebra_simps)
  then have "py_round_digits (real_of_int ms / 1000) 6 = of_int ms / 1000" by (simp add: py_round_digits_def)
  then show ?thesis using assms by (simp add: timestamp_ms_def fromtimestamp_def stamp_in_range_def Let_def)
qed

type_synonym stint_item = "string \<times> int \<times> int \<times> int option"

fun item_dict :: "stint_item \<Rightarrow> jdict" where
  "item_dict (dr, n, st, en) = [(''driver'', JStr dr), (''stint_number'', JInt n), (''start_ms'', JInt st),
     (''end_ms'', case en of None \<Rightarrow> JNull | Some e \<Rightarrow> JInt e)]"

definition closed_item :: "closed_stint \<Rightarrow> stint_item" where
  "closed_item c = (cs_driver c, cs_number c, cs_start c, Some (cs_end c))"

definition open_items :: "session_state \<Rightarrow> stint_item list" where
  "open_items s = (if ses_status s = ''active'' then [(ses_driver s, ses_stint_number s, ses_stint_start_ms s, None)] else [])"

definition session_items :: "session_state \<Rightarrow> stint_item list" where
  "session_items s = map closed_item (ses_stints s) @ open_items s"

fun item_ok :: "stint_item \<Rightarrow> bool" where
  "item_ok (dr, n, st, en) \<longleftrightarrow> dr \<noteq> [] \<and> stamp_in_range st \<and> (case en of None \<Rightarrow> True | Some e \<Rightarrow> stamp_in_range e)"

fun item_written :: "string \<Rightarrow> race_db \<Rightarrow> stint_item \<Rightarrow> bool" where
  "item_written sid db (dr, n, st, en) \<longleftrightarrow>
     (\<exists>r. map_of (rd_stints db) (sid, n) = Some r \<and> map_of (rd_drivers db) dr = Some (sw_driver_id r)
        \<and> sw_started r = of_int st / 1000 \<and> sw_ended r = map_option (\<lambda>e. of_int e / 1000) en)"

definition item_num :: "stint_item \<Rightarrow> int" where
  "item_num x = fst (snd x)"

definition keeps_drivers :: "race_db \<Rightarrow> race_db \<Rightarrow> bool" where
  "keeps_drivers db db' \<longleftrightarrow> map_of (rd_drivers db) \<subseteq>\<^sub>m map_of (rd_drivers db')"

lemma upsert_driver_keeps:
  "upsert_driver name db = (i, db1) \<Longrightarrow> keeps_drivers db db1 \<and> map_of (rd_drivers db1) name = Some i
    \<and> rd_stints db1 = rd_stints db \<and> rd_sessions db1 = rd_sessions db \<and> rd_laps db1 = rd_laps db \<and> rd_plans db1 = rd_plans db"
  by (auto simp: upsert_driver_def Let_def keeps_drivers_def map_le_def map_of_update split: option.splits)

lemma write_stint_item:
  assumes "item_ok (dr, n, st, en)"
  shows "\<exists>db'. write_stint sid (item_dict (dr, n, st, en)) db = Inr db' \<and> item_written sid db' (dr, n, st, en)
    \<and> keeps_drivers db db' \<and> (\<forall>k. k \<noteq> (sid, n) \<longrightarrow> map_of (rd_stints db') k = map_of (rd_stints db) k)
    \<and> rd_sessions db' = rd_sessions db \<and> rd_laps db' = rd_laps db \<and> rd_plans db' = rd_plans db"
proof -
  obtain i db1 where up: "upsert_driver dr db = (i, db1)" by (rule prod.exhaust)
  note kd = upsert_driver_keeps[OF up]
  have "write_stint sid (item_dict (dr, n, st, en)) db
      = Inr (upsert_stint sid n i (of_int st / 1000) (map_option (\<lambda>e. of_int e / 1000) en) db1)"
    using assms up by (cases en) (simp_all add: write_stint_def need_str_def need_int_def jget_def timestamp_exact)
  with kd show ?thesis by (auto simp: upsert_stint_def Let_def map_of_update keeps_drivers_def)
qed

lemma item_written_mono:
  assumes "item_written sid db x" "keeps_drivers db db'" "map_of (rd_stints db') (sid, item_num x) = map_of (rd_stints db) (sid, item_num x)"
  shows "item_written sid db' x"
  using assms by (cases x) (force simp: keeps_drivers_def map_le_def item_num_def)

lemma keeps_drivers_trans: "keeps_drivers a b \<Longrightarrow> keeps_drivers b c \<Longrightarrow> keeps_drivers a c"
  by (auto simp: keeps_drivers_def intro: map_le_trans)

lemma write_stints_items:
  assumes "\<forall>x \<in> set xs. item_ok x" "distinct (map item_num xs)"
  shows "\<exists>db'. write_stints sid (map item_dict xs) db = Inr db' \<and> (\<forall>x \<in> set xs. item_written sid db' x)
    \<and> keeps_drivers db db' \<and> (\<forall>k. k \<notin> Pair sid ` set (map item_num xs) \<longrightarrow> map_of (rd_stints db') k = map_of (rd_stints db) k)
    \<and> rd_sessions db' = rd_sessions db \<and> rd_laps db' = rd_laps db \<and> rd_plans db' = rd_plans db"
  using assms
proof (induction xs arbitrary: db)
  case Nil
  then show ?case by (simp add: keeps_drivers_def)
next
  case (Cons x xs)
  obtain dr n st en where x: "x = (dr, n, st, en)" by (rule prod_cases4)
  obtain db1 where db1: "write_stint sid (item_dict x) db = Inr db1" "item_written sid db1 x" "keeps_drivers db db1"
      "\<forall>k. k \<noteq> (sid, n) \<longrightarrow> map_of (rd_stints db1) k = map_of (rd_stints db) k"
      "rd_sessions db1 = rd_sessions db" "rd_laps db1 = rd_laps db" "rd_plans db1 = rd_plans db"
    using write_stint_item[of dr n st en sid db] Cons.prems(1) x by auto
  obtain db' where db': "write_stints sid (map item_dict xs) db1 = Inr db'" "\<forall>x \<in> set xs. item_written sid db' x"
      "keeps_drivers db1 db'" "\<forall>k. k \<notin> Pair sid ` set (map item_num xs) \<longrightarrow> map_of (rd_stints db') k = map_of (rd_stints db1) k"
      "rd_sessions db' = rd_sessions db1" "rd_laps db' = rd_laps db1" "rd_plans db' = rd_plans db1"
    using Cons.IH[of db1] Cons.prems by auto
  have "(sid, item_num x) \<notin> Pair sid ` set (map item_num xs)" using Cons.prems(2) by auto
  with db'(4) have "item_written sid db' x" by (intro item_written_mono[OF db1(2) db'(3)]) blast
  moreover have "keeps_drivers db db'" by (rule keeps_drivers_trans[OF db1(3) db'(3)])
  moreover have "write_stints sid (map item_dict (x # xs)) db = Inr db'" using db1(1) db'(1) by simp
  moreover have "\<forall>k. k \<notin> Pair sid ` set (map item_num (x # xs)) \<longrightarrow> map_of (rd_stints db') k = map_of (rd_stints db) k"
    using db1(4) db'(4) by (auto simp: x item_num_def)
  ultimately show ?case using db1 db' by auto
qed

definition row_of_session :: "string \<Rightarrow> session_state \<Rightarrow> session_row" where
  "row_of_session vehicle s = \<lparr>sv_vehicle_id = vehicle, sv_session_type = ses_type s, sv_track_name = nullif_empty (ses_track s),
     sv_car = nullif_empty (ses_car s), sv_started = of_int (ses_start_ms s) / 1000,
     sv_ended = (if ses_status s = ''ended'' then Some (of_int (cs_end (last (ses_stints s))) / 1000) else None),
     sv_status = ses_status s\<rparr>"

text \<open>The tables show the session: its row, and a row for each of its stints with its driver and times.\<close>

definition reflects :: "string \<Rightarrow> race_db \<Rightarrow> session_state \<Rightarrow> bool" where
  "reflects vehicle db s \<longleftrightarrow> map_of (rd_sessions db) (ses_id s) = Some (row_of_session vehicle s)
     \<and> (\<forall>x \<in> set (session_items s). item_written (ses_id s) db x)"

definition times_ok :: "session_state \<Rightarrow> bool" where
  "times_ok s \<longleftrightarrow> stamp_in_range (ses_stint_start_ms s) \<and> (\<forall>c \<in> set (ses_stints s). stamp_in_range (cs_end c))"

lemma jget_more [simp]:
  "jget (session_to_dict clk s) ''status'' = JStr (ses_status s)"
  "jget (session_to_dict clk s) ''stints'' = JList (map stint_dict (ses_stints s))"
  "jget (session_to_dict clk s) ''track_name'' = JStr (ses_track s)"
  "jget (session_to_dict clk s) ''car'' = JStr (ses_car s)"
  by (simp_all add: jget_def session_to_dict_def payload_def map_of_update)

lemma stint_dict_item: "stint_dict c = JDict (item_dict (closed_item c))"
  by (simp add: stint_dict_def closed_item_def)

lemma tiles_bounds: "tiles t n cs e \<Longrightarrow> c \<in> set cs \<Longrightarrow> t \<le> cs_start c \<and> cs_start c \<le> cs_end c \<and> cs_end c \<le> e"
proof (induction cs arbitrary: t n)
  case (Cons d cs)
  then show ?case using tiles_le[of "cs_end d" "n + 1" cs e] by (auto dest: order_trans)
qed simp

lemma session_ok_tiles:
  assumes "session_ok s"
  obtains e where "tiles (ses_start_ms s) 1 (ses_stints s) e" "ses_status s = ''active'' \<Longrightarrow> e = ses_stint_start_ms s"
    "ses_status s = ''ended'' \<Longrightarrow> e = cs_end (last (ses_stints s)) \<and> ses_stints s \<noteq> []"
  using assms by (auto simp: session_ok_def)

lemma session_items_ok:
  assumes "session_ok s" "times_ok s"
  shows "\<forall>x \<in> set (session_items s). item_ok x" "distinct (map item_num (session_items s))"
    "stamp_in_range (ses_start_ms s)"
proof -
  obtain e where t: "tiles (ses_start_ms s) 1 (ses_stints s) e" "ses_status s = ''active'' \<Longrightarrow> e = ses_stint_start_ms s"
    using session_ok_tiles[OF assms(1)] by metis
  have start: "0 \<le> ses_start_ms s" "\<forall>c \<in> set (ses_stints s). cs_driver c \<noteq> []" "ses_driver s \<noteq> []"
    using assms(1) by (auto simp: session_ok_def named_def)
  have c: "stamp_in_range (cs_start c)" if "c \<in> set (ses_stints s)" for c
    using tiles_bounds[OF t(1) that] start(1) assms(2) that by (fastforce simp: times_ok_def stamp_in_range_def)
  then show "\<forall>x \<in> set (session_items s). item_ok x"
    using assms(2) start by (auto simp: session_items_def closed_item_def open_items_def times_ok_def)
  have "map item_num (map closed_item (ses_stints s)) = map (\<lambda>i. 1 + int i) [0..<length (ses_stints s)]"
    using tiles_numbers[OF t(1)] by (simp add: item_num_def closed_item_def comp_def)
  then show "distinct (map item_num (session_items s))"
    using assms(1) by (auto simp: session_items_def open_items_def item_num_def session_ok_def distinct_map inj_on_def)
  have "ses_start_ms s \<le> ses_stint_start_ms s"
    using assms(1) tiles_le[OF t(1)] t(2) tiles_stint_start[OF t(1)] by (auto simp: session_ok_def)
  then show "stamp_in_range (ses_start_ms s)" using start(1) assms(2) by (auto simp: stamp_in_range_def times_ok_def)
qed

lemma closed_stints_dict: "closed_stints (JList (map stint_dict cs)) = Inr (map (item_dict \<circ> closed_item) cs)"
  by (induction cs) (simp_all add: stint_dict_item)

lemma ended_at_dict:
  assumes "session_ok s" "times_ok s"
  shows "ended_at (ses_status s) (map (item_dict \<circ> closed_item) (ses_stints s)) = Inr (sv_ended (row_of_session vehicle s))"
proof (cases "ses_status s = ''ended''")
  case True
  obtain e where t: "tiles (ses_start_ms s) 1 (ses_stints s) e" "e = cs_end (last (ses_stints s))" "ses_stints s \<noteq> []"
    using session_ok_tiles[OF assms(1)] True by metis
  have "mapE (\<lambda>d. need_int d ''end_ms'') (map (item_dict \<circ> closed_item) cs) = Inr (map cs_end cs)" for cs
    by (induction cs) (simp_all add: closed_item_def need_int_def jget_def)
  moreover have "Max (cs_end ` set (ses_stints s)) = e"
    using t tiles_bounds[OF t(1)] by (intro Max_eqI) auto
  moreover have "stamp_in_range e" using assms(2) t(2,3) by (simp add: times_ok_def)
  ultimately show ?thesis using True t by (simp add: ended_at_def row_of_session_def timestamp_exact)
qed (simp add: ended_at_def row_of_session_def)

lemma write_state_reflects:
  assumes ok: "session_ok s" "times_ok s"
  shows "\<exists>db'. write_state vehicle (session_to_dict clk s) db = Inr db' \<and> reflects vehicle db' s \<and> keeps_drivers db db'
    \<and> (\<forall>k. fst k \<noteq> ses_id s \<longrightarrow> map_of (rd_stints db') k = map_of (rd_stints db) k)
    \<and> (\<forall>k. k \<noteq> ses_id s \<longrightarrow> map_of (rd_sessions db') k = map_of (rd_sessions db) k)"
proof -
  let ?d = "session_to_dict clk s"
  have strs: "need_str ?d ''session_id'' = Inr (ses_id s)" "need_str ?d ''status'' = Inr (ses_status s)"
    "need_str ?d ''session_type'' = Inr (ses_type s)" "need_str ?d ''driver'' = Inr (ses_driver s)"
    using ok(1) session_types_text[of "ses_type s"] by (auto simp: need_str_def session_ok_def named_def)
  have open_d: "open_stint (ses_status s) ?d = Inr (map item_dict (open_items s))"
    by (simp add: open_stint_def open_items_def strs need_int_def)
  let ?db1 = "db\<lparr>rd_sessions := AList.update (ses_id s) (row_of_session vehicle s) (rd_sessions db)\<rparr>"
  obtain db2 where db2: "write_stints (ses_id s) (map item_dict (session_items s)) ?db1 = Inr db2"
      "\<forall>x \<in> set (session_items s). item_written (ses_id s) db2 x" "keeps_drivers ?db1 db2"
      "\<forall>k. k \<notin> Pair (ses_id s) ` set (map item_num (session_items s)) \<longrightarrow> map_of (rd_stints db2) k = map_of (rd_stints ?db1) k"
      "rd_sessions db2 = rd_sessions ?db1"
    using write_stints_items[OF session_items_ok(1,2)[OF ok], of "ses_id s" ?db1] by blast
  let ?db' = "db2\<lparr>rd_laps := map (rewindow_lap (ses_id s) (rd_stints db2)) (rd_laps db2)\<rparr>"
  have row: "\<lparr>sv_vehicle_id = vehicle, sv_session_type = ses_type s, sv_track_name = nullif_empty (ses_track s),
      sv_car = nullif_empty (ses_car s), sv_started = of_int (ses_start_ms s) / 1000,
      sv_ended = sv_ended (row_of_session vehicle s), sv_status = ses_status s\<rparr> = row_of_session vehicle s"
    by (simp add: row_of_session_def)
  have "write_state vehicle ?d db = Inr ?db'"
    using db2(1) session_items_ok(3)[OF ok]
    by (simp add: write_state_def strs need_int_def timestamp_exact closed_stints_dict ended_at_dict[OF ok, of vehicle] open_d Let_def row
        session_items_def del: closed_stints.simps)
  moreover have "item_written (ses_id s) ?db' x = item_written (ses_id s) db2 x" for x by (cases x) simp
  then have "reflects vehicle ?db' s" using db2(2,5) by (simp add: reflects_def map_of_update)
  moreover have "keeps_drivers db ?db'" using db2(3) by (simp add: keeps_drivers_def)
  moreover have "\<forall>k. fst k \<noteq> ses_id s \<longrightarrow> map_of (rd_stints ?db') k = map_of (rd_stints db) k" using db2(4) by auto
  moreover have "\<forall>k. k \<noteq> ses_id s \<longrightarrow> map_of (rd_sessions ?db') k = map_of (rd_sessions db) k"
    using db2(5) by (simp add: map_of_update)
  ultimately show ?thesis by blast
qed

lemma reflects_other:
  assumes "reflects vehicle db s0" "ses_id s0 \<noteq> sid" "keeps_drivers db db'"
    "\<forall>k. fst k \<noteq> sid \<longrightarrow> map_of (rd_stints db') k = map_of (rd_stints db) k"
    "\<forall>k. k \<noteq> sid \<longrightarrow> map_of (rd_sessions db') k = map_of (rd_sessions db) k"
  shows "reflects vehicle db' s0"
  using assms item_written_mono[OF _ assms(3)] by (auto simp: reflects_def)

section \<open>Convergence\<close>

datatype session_db_op =
    Record int outcome bool session_state
  | FlushOne outcome bool
  | Connect bool
  | Disconnect
  | RestartDb int

text \<open>The database side together with the latest snapshot of each session that \<open>record\<close> accepted.\<close>

type_synonym db_run = "session_database \<times> (string \<rightharpoonup> session_state)"

fun session_db_step :: "session_db_op \<Rightarrow> db_run \<Rightarrow> db_run" where
  "session_db_step (Record clk out file_ok s) (d, latest) =
     (case db_record clk out file_ok (session_to_dict clk s) d of
        (Inr _, d1) \<Rightarrow> (d1, if ses_id s = [] then latest else latest(ses_id s \<mapsto> s))
      | (Inl e, d1) \<Rightarrow> (d1, latest))"
| "session_db_step (FlushOne out file_ok) (d, latest) = (snd (flush_one out file_ok d), latest)"
| "session_db_step (Connect reachable) (d, latest) = (snd (connect_once reachable d), latest)"
| "session_db_step Disconnect (d, latest) = (drop_connection d, latest)"
| "session_db_step (RestartDb clk) (d, latest) = (case database_start clk d of Inl e \<Rightarrow> (d, latest) | Inr d1 \<Rightarrow> (d1, latest))"

definition snapshot_of :: "jdict \<Rightarrow> session_state \<Rightarrow> bool" where
  "snapshot_of st s \<longleftrightarrow> session_ok s \<and> times_ok s \<and> (\<exists>clk. st = session_to_dict clk s)"

text \<open>The file holds a snapshot of each queued session: it reads back to the same sessions.\<close>

fun file_agrees :: "jdict list option \<Rightarrow> (string \<times> jdict) list \<Rightarrow> bool" where
  "file_agrees None pending \<longleftrightarrow> pending = []"
| "file_agrees (Some items) pending \<longleftrightarrow> mset (map session_from_dict items) = mset (map (session_from_dict \<circ> snd) pending)"

definition sdb_inv :: "db_run \<Rightarrow> bool" where
  [inv_defs]: "sdb_inv r \<longleftrightarrow> (case r of (d, latest) \<Rightarrow>
     distinct (map fst (sdb_pending d))
     \<and> (\<forall>(sid, st) \<in> set (sdb_pending d). \<exists>s. latest sid = Some s \<and> ses_id s = sid \<and> snapshot_of st s)
     \<and> file_agrees (sdb_queue_file d) (sdb_pending d)
     \<and> (\<forall>sid s. latest sid = Some s \<longrightarrow> ses_id s = sid \<and> session_ok s \<and> times_ok s
          \<and> (sid \<in> fst ` set (sdb_pending d) \<or> reflects (sdb_vehicle d) (sdb_tables d) s)))"

text \<open>The contract: sessions come from the state machine, and the queue file can be written when the
  snapshot in it is to be replaced by a newer one that is already in the tables.\<close>

fun session_db_guard :: "session_db_op \<Rightarrow> db_run \<Rightarrow> bool" where
  "session_db_guard (Record clk out file_ok s) (d, latest) \<longleftrightarrow> session_inv s \<and> times_ok s
     \<and> (sdb_connected d \<and> out \<in> {Committed, Lost_After_Commit} \<longrightarrow> file_ok)"
| "session_db_guard _ _ = True"

lemma snapshot_id: "snapshot_of st s \<Longrightarrow> as_str_or_empty (jget st ''session_id'') = ses_id s \<and> ses_id s \<noteq> []"
  by (auto simp: snapshot_of_def session_ok_def named_def)

lemma snapshot_read: "snapshot_of st s \<Longrightarrow> session_from_dict st = Inr s"
  by (auto simp: snapshot_of_def session_inv_def session_from_to_dict)

lemma snapshot_write:
  assumes "snapshot_of st s"
  shows "\<exists>db'. write_state vehicle st db = Inr db' \<and> reflects vehicle db' s
    \<and> (\<forall>s0. reflects vehicle db s0 \<longrightarrow> ses_id s0 \<noteq> ses_id s \<longrightarrow> reflects vehicle db' s0)"
proof -
  from assms obtain clk where ok: "session_ok s" "times_ok s" "st = session_to_dict clk s" by (auto simp: snapshot_of_def)
  from write_state_reflects[OF ok(1,2), of vehicle clk db] reflects_other ok(3) show ?thesis by metis
qed

lemma sdb_invI:
  assumes "distinct (map fst (sdb_pending d))"
    and "\<And>sid st. (sid, st) \<in> set (sdb_pending d) \<Longrightarrow> \<exists>s. latest sid = Some s \<and> ses_id s = sid \<and> snapshot_of st s"
    and "file_agrees (sdb_queue_file d) (sdb_pending d)"
    and "\<And>sid s. latest sid = Some s \<Longrightarrow> ses_id s = sid \<and> session_ok s \<and> times_ok s
          \<and> (sid \<in> fst ` set (sdb_pending d) \<or> reflects (sdb_vehicle d) (sdb_tables d) s)"
  shows "sdb_inv (d, latest)"
  using assms by (auto simp: sdb_inv_def)

lemma sdb_invD:
  assumes "sdb_inv (d, latest)"
  shows "distinct (map fst (sdb_pending d))"
    and "(sid, st) \<in> set (sdb_pending d) \<Longrightarrow> \<exists>s. latest sid = Some s \<and> ses_id s = sid \<and> snapshot_of st s"
    and "file_agrees (sdb_queue_file d) (sdb_pending d)"
    and "latest sid = Some s \<Longrightarrow> ses_id s = sid \<and> session_ok s \<and> times_ok s
          \<and> (sid \<in> fst ` set (sdb_pending d) \<or> reflects (sdb_vehicle d) (sdb_tables d) s)"
  using assms by (auto simp: sdb_inv_def)

lemma sdb_inv_cong:
  assumes "sdb_inv (d, latest)" "sdb_pending d' = sdb_pending d" "sdb_queue_file d' = sdb_queue_file d"
    "sdb_tables d' = sdb_tables d" "sdb_vehicle d' = sdb_vehicle d"
  shows "sdb_inv (d', latest)"
  using assms(2-5) sdb_invD[OF assms(1)] by (intro sdb_invI) simp_all

text \<open>Writing a snapshot to the tables shows its session and leaves the others.\<close>

lemma sdb_inv_written:
  assumes inv: "sdb_inv (d, latest)" and snap: "snapshot_of st s" and db: "write_state (sdb_vehicle d) st (sdb_tables d) = Inr db"
    and p: "distinct (map fst (sdb_pending d'))" "set (sdb_pending d') \<subseteq> insert (ses_id s, st) (set (sdb_pending d))"
      "\<And>k. k \<noteq> ses_id s \<Longrightarrow> k \<in> fst ` set (sdb_pending d) \<Longrightarrow> k \<in> fst ` set (sdb_pending d')"
      "\<And>st'. (ses_id s, st') \<in> set (sdb_pending d') \<Longrightarrow> st' = st"
    and f: "file_agrees (sdb_queue_file d') (sdb_pending d')"
    and t: "sdb_tables d' = db" "sdb_vehicle d' = sdb_vehicle d"
  shows "sdb_inv (d', latest(ses_id s \<mapsto> s))"
proof (rule sdb_invI)
  note refl = snapshot_write[OF snap, of "sdb_vehicle d" "sdb_tables d"]
  show "\<exists>s'. (latest(ses_id s \<mapsto> s)) sid = Some s' \<and> ses_id s' = sid \<and> snapshot_of st' s'" if "(sid, st') \<in> set (sdb_pending d')" for sid st'
    using that p(2,4) snap sdb_invD(2)[OF inv, of sid st'] by (cases "sid = ses_id s") auto
  show "ses_id s' = sid \<and> session_ok s' \<and> times_ok s' \<and> (sid \<in> fst ` set (sdb_pending d') \<or> reflects (sdb_vehicle d') (sdb_tables d') s')"
    if "(latest(ses_id s \<mapsto> s)) sid = Some s'" for sid s'
  proof (cases "sid = ses_id s")
    case True
    with that refl db t snap show ?thesis by (auto simp: snapshot_of_def)
  next
    case False
    with that have "latest sid = Some s'" by simp
    from sdb_invD(4)[OF inv this] False p(3)[of sid] refl db t show ?thesis by auto
  qed
qed (use p(1) f in simp_all)

lemma update_absent_delete: "map_of xs k = None \<Longrightarrow> AList.delete k (AList.update k v xs) = xs"
  by (induction xs) (auto simp: AList.delete_eq)

lemma update_present_back: "map_of xs k = Some v \<Longrightarrow> AList.update k v xs = xs"
  by (induction xs) (auto split: if_splits)

text \<open>A queue file that cannot be written leaves the queue as it was; otherwise the new snapshot is in it.\<close>

lemma queue_snapshot_fail: "queue_snapshot False sid st d = (Inl OSError, d)"
  by (cases "map_of (sdb_pending d) sid")
    (simp_all add: queue_snapshot_def persist_pending_def update_absent_delete update_present_back)

lemma queue_snapshot_ok:
  "queue_snapshot True sid st d = (Inr False, d\<lparr>sdb_pending := AList.update sid st (sdb_pending d),
     sdb_queue_file := Some (map snd (AList.update sid st (sdb_pending d)))\<rparr>)"
  by (simp add: queue_snapshot_def persist_pending_def)

lemma set_update_distinct:
  "distinct (map fst xs) \<Longrightarrow> set (AList.update k v xs) = insert (k, v) {p \<in> set xs. fst p \<noteq> k}"
  by (induction xs) (auto simp: image_iff)

lemma queued_inv:
  assumes inv: "sdb_inv (d, latest)" and snap: "snapshot_of st s" and q: "sdb_pending d' = AList.update (ses_id s) st (sdb_pending d)"
    "sdb_queue_file d' = Some (map snd (sdb_pending d'))" "sdb_vehicle d' = sdb_vehicle d"
    and t: "\<And>s0. reflects (sdb_vehicle d) (sdb_tables d) s0 \<Longrightarrow> ses_id s0 \<noteq> ses_id s \<Longrightarrow> reflects (sdb_vehicle d) (sdb_tables d') s0"
  shows "sdb_inv (d', latest(ses_id s \<mapsto> s))"
proof (rule sdb_invI)
  note setq = set_update_distinct[OF sdb_invD(1)[OF inv]]
  show "\<exists>s'. (latest(ses_id s \<mapsto> s)) sid = Some s' \<and> ses_id s' = sid \<and> snapshot_of st' s'" if "(sid, st') \<in> set (sdb_pending d')" for sid st'
    using that snap sdb_invD(2)[OF inv, of sid st'] by (cases "sid = ses_id s") (auto simp: setq q)
  show "ses_id s' = sid \<and> session_ok s' \<and> times_ok s' \<and> (sid \<in> fst ` set (sdb_pending d') \<or> reflects (sdb_vehicle d') (sdb_tables d') s')"
    if "(latest(ses_id s \<mapsto> s)) sid = Some s'" for sid s'
  proof (cases "sid = ses_id s")
    case True
    with that snap show ?thesis by (auto simp: snapshot_of_def q setq)
  next
    case False
    with that have "latest sid = Some s'" by simp
    from sdb_invD(4)[OF inv this] False t[of s'] show ?thesis by (auto simp: q setq)
  qed
qed (use q sdb_invD(1)[OF inv] in \<open>simp_all add: distinct_update\<close>)

lemma set_delete: "set (AList.delete k xs) = {p \<in> set xs. fst p \<noteq> k}"
  by (auto simp: AList.delete_eq)

lemma delete_absent: "map_of xs k = None \<Longrightarrow> AList.delete k xs = xs"
  by (induction xs) (auto simp: AList.delete_eq split: if_splits)

lemma retire_pending_fields:
  "sdb_pending (retire_pending True sid d) = AList.delete sid (sdb_pending d)"
  "sdb_tables (retire_pending True sid d) = sdb_tables d" "sdb_vehicle (retire_pending True sid d) = sdb_vehicle d"
  "file_agrees (sdb_queue_file d) (sdb_pending d) \<Longrightarrow>
     file_agrees (sdb_queue_file (retire_pending True sid d)) (AList.delete sid (sdb_pending d))"
  by (auto simp: retire_pending_def persist_pending_def delete_absent split: option.split)

lemma record_none: "session_inv s \<Longrightarrow> ses_id s = [] \<Longrightarrow> db_record clk out file_ok (session_to_dict clk s) d = (Inr True, d)"
  by (simp add: db_record_def session_from_to_dict Let_def)

lemma retired_inv:
  assumes inv: "sdb_inv (d, latest)" and snap: "snapshot_of st s"
    and db: "write_state (sdb_vehicle d) st (sdb_tables d) = Inr db"
  shows "sdb_inv (retire_pending True (ses_id s) (d\<lparr>sdb_tables := db\<rparr>), latest(ses_id s \<mapsto> s))"
  by (rule sdb_inv_written[OF inv snap db])
    (use sdb_invD(1)[OF inv] retire_pending_fields(4)[of "d\<lparr>sdb_tables := db\<rparr>" "ses_id s"] sdb_invD(3)[OF inv] in
      \<open>auto simp: retire_pending_fields(1-3) distinct_delete set_delete\<close>)

lemma record_inv:
  assumes inv: "sdb_inv (d, latest)" and g: "session_db_guard (Record clk out file_ok s) (d, latest)"
  shows "sdb_inv (session_db_step (Record clk out file_ok s) (d, latest))"
proof (cases "ses_id s = []")
  case True
  with g inv show ?thesis by (simp add: record_none)
next
  case False
  let ?st = "session_to_dict clk s"
  have ok: "session_ok s" "times_ok s" "session_inv s" using g False by (auto simp: session_inv_def session_none_def)
  then have snap: "snapshot_of ?st s" by (auto simp: snapshot_of_def)
  obtain db where db: "write_state (sdb_vehicle d) ?st (sdb_tables d) = Inr db"
      "\<And>s0. reflects (sdb_vehicle d) (sdb_tables d) s0 \<Longrightarrow> ses_id s0 \<noteq> ses_id s \<Longrightarrow> reflects (sdb_vehicle d) db s0"
    using snapshot_write[OF snap, of "sdb_vehicle d" "sdb_tables d"] by blast
  have queued: "sdb_inv (case queue_snapshot file_ok (ses_id s) ?st d' of (Inr _, d1) \<Rightarrow> (d1, latest(ses_id s \<mapsto> s)) | (Inl _, d1) \<Rightarrow> (d1, latest))"
    if "sdb_inv (d', latest) \<or> file_ok" "sdb_pending d' = sdb_pending d" "sdb_vehicle d' = sdb_vehicle d" "sdb_tables d' \<in> {sdb_tables d, db}" for d'
    using that db(2) by (cases file_ok) (auto simp: queue_snapshot_fail queue_snapshot_ok intro!: queued_inv[OF inv snap])
  have drop: "sdb_inv (drop_connection (d\<lparr>sdb_errors := e\<rparr>), latest)" for e
    by (rule sdb_inv_cong[OF inv]) (simp_all add: drop_connection_def)
  show ?thesis
  proof (cases "sdb_connected d")
    case False
    with queued[of d] inv ok \<open>ses_id s \<noteq> []\<close> show ?thesis
      by (simp add: db_record_def session_from_to_dict Let_def)
  next
    case True
    with g retired_inv[OF inv snap db(1)] queued[OF disjI1[OF drop]] queued[OF disjI2] inv ok db(1) \<open>ses_id s \<noteq> []\<close>
    show ?thesis by (cases out) (simp_all add: db_record_def session_from_to_dict Let_def drop_connection_def)
  qed
qed

lemma fun_upd_same_map: "m k = Some v \<Longrightarrow> m(k \<mapsto> v) = m"
  by (auto simp: fun_eq_iff)

lemma queue_flush_inv:
  assumes inv: "sdb_inv (d, latest)"
  shows "sdb_inv (snd (flush_one out file_ok d), latest)"
proof (cases "sdb_connected d \<and> sdb_pending d \<noteq> []")
  case True
  then obtain sid st rest where p: "sdb_pending d = (sid, st) # rest" "sdb_connected d" by (cases "sdb_pending d") auto
  obtain s where s: "latest sid = Some s" "ses_id s = sid" "snapshot_of st s" using sdb_invD(2)[OF inv, of sid st] p by auto
  obtain db where db: "write_state (sdb_vehicle d) st (sdb_tables d) = Inr db" using snapshot_write[OF s(3)] by blast
  note written = sdb_inv_written[OF inv s(3) db, unfolded s(2) fun_upd_same_map[of latest, OF s(1)]]
  have dist: "distinct (map fst ((sid, st) # rest))" using sdb_invD(1)[OF inv] p by simp
  have "file_agrees (sdb_queue_file d) ((sid, st) # rest)" using sdb_invD(3)[OF inv] p by simp
  then have rot: "file_agrees (sdb_queue_file d) (rest @ [(sid, st)])" by (cases "sdb_queue_file d") auto
  have flushed: "sdb_inv (d\<lparr>sdb_tables := db, sdb_pending := rest, sdb_queue_file := Some (map snd rest)\<rparr>, latest)"
    by (rule written) (use dist p in \<open>auto simp: image_iff\<close>)
  have kept: "sdb_inv (d\<lparr>sdb_tables := db, sdb_errors := n, sdb_pending := rest @ [(sid, st)]\<rparr>, latest)" for n
    by (rule written) (use dist p rot in \<open>auto simp: image_iff\<close>)
  have lost: "sdb_inv (drop_connection (d\<lparr>sdb_tables := db, sdb_errors := n\<rparr>), latest)" for n
    by (rule written) (use dist p sdb_invD(3)[OF inv] in \<open>auto simp: drop_connection_def image_iff\<close>)
  have drop: "sdb_inv (drop_connection (d\<lparr>sdb_errors := n\<rparr>), latest)" for n
    by (rule sdb_inv_cong[OF inv]) (simp_all add: drop_connection_def)
  show ?thesis using p db inv flushed kept lost drop
    by (cases out; cases file_ok) (simp_all add: flush_one_def persist_pending_def)
qed (use inv in \<open>auto simp: flush_one_def split: list.split\<close>)

lemma mset_map_lift: "mset xs = mset (map f ys) \<Longrightarrow> \<exists>zs. mset zs = mset ys \<and> xs = map f zs"
proof (induction xs arbitrary: ys)
  case (Cons x xs)
  then have "x \<in> set (map f ys)" by (metis list.set_intros(1) mset_eq_setD)
  then obtain a y b where y: "ys = a @ y # b" "x = f y" by (auto dest: split_list)
  with Cons.prems have "mset xs = mset (map f (a @ b))" by simp
  from Cons.IH[OF this] obtain zs where "mset zs = mset (a @ b)" "xs = map f zs" by blast
  with y show ?case by (intro exI[of _ "y # zs"]) simp
qed simp

lemma load_pending_snapshots:
  assumes "map session_from_dict items = map (Inr \<circ> f \<circ> fst) ys" "distinct (map fst (acc @ ys))"
    "\<forall>x \<in> set ys. ses_id (f (fst x)) = fst x"
  shows "load_pending clk items acc = Inr (acc @ map (\<lambda>x. (fst x, session_to_dict clk (f (fst x)))) ys)"
  using assms
proof (induction items arbitrary: ys acc)
  case (Cons i items)
  then obtain y ys' where y: "ys = y # ys'" by (cases ys) auto
  have "AList.update (fst y) st acc = acc @ [(fst y, st)]" for st
    using Cons.prems(2) y by (induction acc) auto
  with Cons y show ?case by simp
qed simp

lemma queue_restart_inv:
  assumes inv: "sdb_inv (d, latest)"
  shows "\<exists>d'. database_start clk d = Inr d' \<and> sdb_inv (d', latest)"
proof (cases "sdb_queue_file d")
  case None
  then have "sdb_pending d = []" using sdb_invD(3)[OF inv] by simp
  then show ?thesis using None by (auto simp: database_start_def intro!: sdb_inv_cong[OF inv])
next
  case (Some items)
  then obtain ys where ys: "mset ys = mset (sdb_pending d)" "map session_from_dict items = map (session_from_dict \<circ> snd) ys"
    using sdb_invD(3)[OF inv] mset_map_lift[of "map session_from_dict items" "session_from_dict \<circ> snd" "sdb_pending d"] by auto
  let ?f = "\<lambda>sid. the (latest sid)" let ?y = "map (\<lambda>x. (fst x, session_to_dict clk (?f (fst x)))) ys"
  let ?d = "\<lparr>sdb_vehicle = sdb_vehicle d, sdb_connected = False, sdb_pending = ?y, sdb_queue_file = Some items,
      sdb_connects = 0, sdb_errors = 0, sdb_tables = sdb_tables d\<rparr>"
  have set_ys: "set ys = set (sdb_pending d)" using ys(1) by (rule mset_eq_setD)
  have snaps: "latest (fst x) = Some (?f (fst x)) \<and> snapshot_of (snd x) (?f (fst x)) \<and> ses_id (?f (fst x)) = fst x" if "x \<in> set ys" for x
    using sdb_invD(2)[OF inv, of "fst x" "snd x"] set_ys that by auto
  have dist: "distinct (map fst ys)" using sdb_invD(1)[OF inv] ys(1) by (metis mset_eq_imp_distinct_iff mset_map)
  have read: "map session_from_dict items = map (Inr \<circ> ?f \<circ> fst) ys"
    unfolding ys(2) by (rule map_cong[OF refl]) (use snaps in \<open>simp add: snapshot_read\<close>)
  have again: "snapshot_of (session_to_dict clk (?f (fst x))) (?f (fst x))" if "x \<in> set ys" for x
    using snaps[OF that] by (auto simp: snapshot_of_def)
  have agree: "map (session_from_dict \<circ> snd) ?y = map session_from_dict items"
    unfolding read map_map by (rule map_cong[OF refl]) (use again in \<open>simp add: snapshot_read\<close>)
  have start: "database_start clk d = Inr ?d"
    using load_pending_snapshots[OF read, of "[]" clk] snaps dist Some by (simp add: database_start_def)
  have keys: "fst ` set ?y = fst ` set (sdb_pending d)" by (simp add: set_ys image_image)
  have pend: "\<exists>s. latest sid = Some s \<and> ses_id s = sid \<and> snapshot_of st s" if "(sid, st) \<in> set ?y" for sid st
  proof -
    from that obtain x where "x \<in> set ys" "sid = fst x" "st = session_to_dict clk (?f (fst x))" by auto
    with snaps[OF this(1)] again[OF this(1)] show ?thesis by blast
  qed
  have "file_agrees (Some items) ?y" using agree by simp
  then have "sdb_inv (?d, latest)"
    using dist pend keys sdb_invD(4)[OF inv] by (intro sdb_invI) (simp_all add: comp_def del: file_agrees.simps set_map)
  with start show ?thesis by blast
qed

lemma session_db_step_inv:
  assumes "sdb_inv r" "session_db_guard opn r" shows "sdb_inv (session_db_step opn r)"
proof -
  obtain d latest where r: "r = (d, latest)" by (rule prod.exhaust)
  show ?thesis
  proof (cases opn)
    case (Record clk out file_ok s)
    with assms r show ?thesis by (simp only: record_inv)
  next
    case (FlushOne out file_ok)
    with assms r queue_flush_inv[of d latest] show ?thesis by simp
  next
    case (Connect reachable)
    with assms r show ?thesis by (auto simp: connect_once_def intro: sdb_inv_cong)
  next
    case Disconnect
    with assms r show ?thesis by (auto simp: drop_connection_def intro: sdb_inv_cong)
  next
    case (RestartDb clk)
    with assms r queue_restart_inv[of d latest clk] show ?thesis by (auto split: sum.split)
  qed
qed

interpretation sdb: guarded_machine session_db_step session_db_guard sdb_inv
  by unfold_locales (rule session_db_step_inv)

text \<open>A flush that commits takes one snapshot off the queue, and the pass that flushes until the queue is
  empty ends with every session in the tables.\<close>

lemma flush_commits:
  assumes inv: "sdb_inv (d, latest)" and p: "sdb_connected d" "sdb_pending d \<noteq> []"
  shows "fst (flush_one Committed True d) = Inr True" "sdb_connected (snd (flush_one Committed True d))"
    "sdb_pending (snd (flush_one Committed True d)) = tl (sdb_pending d)"
    "sdb_queue_file (snd (flush_one Committed True d)) = Some (map snd (tl (sdb_pending d)))"
    "sdb_vehicle (snd (flush_one Committed True d)) = sdb_vehicle d"
proof -
  obtain sid st rest where q: "sdb_pending d = (sid, st) # rest" using p(2) by (cases "sdb_pending d") auto
  obtain s where "snapshot_of st s" using sdb_invD(2)[OF inv, of sid st] q by auto
  then obtain db where "write_state (sdb_vehicle d) st (sdb_tables d) = Inr db" using snapshot_write by blast
  with p q show "fst (flush_one Committed True d) = Inr True" "sdb_connected (snd (flush_one Committed True d))"
    "sdb_pending (snd (flush_one Committed True d)) = tl (sdb_pending d)"
    "sdb_queue_file (snd (flush_one Committed True d)) = Some (map snd (tl (sdb_pending d)))"
    "sdb_vehicle (snd (flush_one Committed True d)) = sdb_vehicle d"
    by (simp_all add: flush_one_def persist_pending_def)
qed

lemma run_pass_drains:
  assumes inv: "sdb_inv (d, latest)"
  shows "sdb_inv (fst (snd (db_run_pass True Committed True (d, b))), latest)"
    "sdb_pending (fst (snd (db_run_pass True Committed True (d, b)))) = tl (sdb_pending d)"
    "sdb_vehicle (fst (snd (db_run_pass True Committed True (d, b)))) = sdb_vehicle d"
proof -
  obtain d1 where c: "connect_once True d = (True, d1)" "sdb_pending d1 = sdb_pending d" "sdb_connected d1" "sdb_vehicle d1 = sdb_vehicle d"
      "sdb_queue_file d1 = sdb_queue_file d" "sdb_tables d1 = sdb_tables d"
    by (cases "sdb_connected d") (simp_all add: connect_once_def)
  have inv1: "sdb_inv (d1, latest)" by (rule sdb_inv_cong[OF inv]) (use c in simp_all)
  show "sdb_inv (fst (snd (db_run_pass True Committed True (d, b))), latest)"
    using queue_flush_inv[OF inv1, of Committed True] c(1) by (auto simp: db_run_pass_def split: prod.split sum.split)
  show "sdb_pending (fst (snd (db_run_pass True Committed True (d, b)))) = tl (sdb_pending d)"
    "sdb_vehicle (fst (snd (db_run_pass True Committed True (d, b)))) = sdb_vehicle d"
    using flush_commits[OF inv1 c(3)] c(1-4)
    by (cases "sdb_pending d"; auto simp: db_run_pass_def flush_one_def split: prod.splits sum.splits)+
qed

definition run_passes :: "nat \<Rightarrow> session_database \<times> real \<Rightarrow> session_database \<times> real" where
  "run_passes n = ((\<lambda>x. snd (db_run_pass True Committed True x)) ^^ n)"

lemma run_passes_drain:
  assumes "sdb_inv (d, latest)"
  shows "sdb_inv (fst (run_passes n (d, b)), latest) \<and> sdb_pending (fst (run_passes n (d, b))) = drop n (sdb_pending d)
    \<and> sdb_vehicle (fst (run_passes n (d, b))) = sdb_vehicle d"
proof (induction n)
  case (Suc n)
  obtain d1 b1 where "run_passes n (d, b) = (d1, b1)" by (rule prod.exhaust)
  with Suc run_pass_drains[of d1 latest b1] show ?case by (simp add: run_passes_def drop_Suc tl_drop)
qed (use assms in \<open>simp add: run_passes_def\<close>)

definition fresh_database :: "string \<Rightarrow> race_db \<Rightarrow> session_database" where
  "fresh_database vehicle db = \<lparr>sdb_vehicle = vehicle, sdb_connected = False, sdb_pending = [], sdb_queue_file = None,
     sdb_connects = 0, sdb_errors = 0, sdb_tables = db\<rparr>"

lemma fresh_inv: "sdb_inv (fresh_database vehicle db, Map.empty)"
  by (simp add: sdb_inv_def fresh_database_def)

lemma pending_in_file:
  assumes inv: "sdb_inv (d, latest)" and s: "latest sid = Some s" and p: "sid \<in> fst ` set (sdb_pending d)"
  shows "\<exists>items. sdb_queue_file d = Some items \<and> Inr s \<in> session_from_dict ` set items"
proof -
  from p obtain st where st: "(sid, st) \<in> set (sdb_pending d)" by auto
  from sdb_invD(2)[OF inv st] s have "session_from_dict st = Inr s" by (auto simp: snapshot_read)
  with st have mem: "Inr s \<in> set (map (session_from_dict \<circ> snd) (sdb_pending d))" by force
  obtain items where items: "sdb_queue_file d = Some items"
    using sdb_invD(3)[OF inv] st by (cases "sdb_queue_file d") auto
  then have "mset (map session_from_dict items) = mset (map (session_from_dict \<circ> snd) (sdb_pending d))"
    using sdb_invD(3)[OF inv] by simp
  from mset_eq_setD[OF this] mem items show ?thesis by simp
qed


definition wit_running :: session_state where
  "wit_running = \<lparr>ses_id = ''r1'', ses_type = ''race'', ses_driver = ''Ann'', ses_track = ''Spa'', ses_car = [], ses_stint_number = 1,
     ses_start_ms = 1000, ses_stint_start_ms = 1000, ses_status = ''active'', ses_stints = []\<rparr>"

definition wit_over :: session_state where
  "wit_over = \<lparr>ses_id = ''r1'', ses_type = ''race'', ses_driver = ''Ann'', ses_track = ''Spa'', ses_car = [], ses_stint_number = 1,
     ses_start_ms = 1000, ses_stint_start_ms = 1000, ses_status = ''ended'',
     ses_stints = [\<lparr>cs_driver = ''Ann'', cs_number = 1, cs_start = 1000, cs_end = 9000\<rparr>]\<rparr>"

definition empty_race_db :: race_db where
  "empty_race_db = \<lparr>rd_sessions = [], rd_drivers = [], rd_next_driver = 1, rd_stints = [], rd_next_stint = 1, rd_laps = [], rd_plans = []\<rparr>"

lemma wit_sessions_ok: "session_ok wit_running" "session_ok wit_over" "times_ok wit_running" "times_ok wit_over"
proof -
  have n: "strip ''Ann'' = ''Ann''" "strip ''Spa'' = ''Spa''" "strip ''r1'' = ''r1''" "strip [] = []" by code_simp+
  show "session_ok wit_running" "session_ok wit_over"
    by (simp_all add: session_ok_def wit_running_def wit_over_def named_def n SESSION_TYPES_def)
  show "times_ok wit_running" "times_ok wit_over" by (simp_all add: times_ok_def stamp_in_range_def wit_running_def wit_over_def)
qed

definition wit_session_ops :: "session_db_op list" where
  "wit_session_ops = [Record 1000 Committed True wit_running, RestartDb 5000, Record 9000 Committed True wit_over, Connect True]"

definition wit_queued :: session_database where
  "wit_queued = (fresh_database ''car'' empty_race_db)\<lparr>sdb_connected := True, sdb_connects := 1,
     sdb_pending := [(''r1'', session_to_dict 9000 wit_over)], sdb_queue_file := Some [session_to_dict 9000 wit_over]\<rparr>"

lemma wit_session_run:
  "guarded_run session_db_guard session_db_step wit_session_ops (fresh_database ''car'' empty_race_db, Map.empty)"
  "fold session_db_step wit_session_ops (fresh_database ''car'' empty_race_db, Map.empty) = (wit_queued, [''r1'' \<mapsto> wit_over])"
proof -
  have inv: "session_inv wit_running" "session_inv wit_over" using wit_sessions_ok by (simp_all add: session_inv_def)
  note rt = inv[THEN session_from_to_dict]
  have ids: "ses_id wit_running = ''r1''" "ses_id wit_over = ''r1''" by (simp_all add: wit_running_def wit_over_def)
  have steps: "session_db_step (Record 1000 Committed True wit_running) (fresh_database ''car'' empty_race_db, Map.empty) =
      ((fresh_database ''car'' empty_race_db)\<lparr>sdb_pending := [(''r1'', session_to_dict 1000 wit_running)],
        sdb_queue_file := Some [session_to_dict 1000 wit_running]\<rparr>, [''r1'' \<mapsto> wit_running])"
    "session_db_step (RestartDb 5000) ((fresh_database ''car'' empty_race_db)\<lparr>sdb_pending := [(''r1'', session_to_dict 1000 wit_running)],
        sdb_queue_file := Some [session_to_dict 1000 wit_running]\<rparr>, [''r1'' \<mapsto> wit_running]) =
      ((fresh_database ''car'' empty_race_db)\<lparr>sdb_pending := [(''r1'', session_to_dict 5000 wit_running)],
        sdb_queue_file := Some [session_to_dict 1000 wit_running]\<rparr>, [''r1'' \<mapsto> wit_running])"
    "session_db_step (Record 9000 Committed True wit_over) ((fresh_database ''car'' empty_race_db)\<lparr>sdb_pending := [(''r1'', session_to_dict 5000 wit_running)],
        sdb_queue_file := Some [session_to_dict 1000 wit_running]\<rparr>, [''r1'' \<mapsto> wit_running]) =
      ((fresh_database ''car'' empty_race_db)\<lparr>sdb_pending := [(''r1'', session_to_dict 9000 wit_over)],
        sdb_queue_file := Some [session_to_dict 9000 wit_over]\<rparr>, [''r1'' \<mapsto> wit_over])"
    by (simp_all add: db_record_def rt ids queue_snapshot_def persist_pending_def fresh_database_def database_start_def Let_def)
  show "fold session_db_step wit_session_ops (fresh_database ''car'' empty_race_db, Map.empty) = (wit_queued, [''r1'' \<mapsto> wit_over])"
    unfolding wit_session_ops_def fold.simps comp_def steps by (simp add: connect_once_def wit_queued_def fresh_database_def)
  show "guarded_run session_db_guard session_db_step wit_session_ops (fresh_database ''car'' empty_race_db, Map.empty)"
    unfolding wit_session_ops_def guarded_run.simps steps
    using inv wit_sessions_ok by (simp add: fresh_database_def)
qed


text \<open>
  The guard on the queue file is needed. When a newer snapshot of a session commits while an older
  one is queued and the queue file cannot be rewritten, \<open>record\<close> answers success and puts the older
  snapshot back; the replay is not idempotent: the next flush writes the older snapshot over the newer
  one, empties the queue, and a session that has ended is active again in the tables.
\<close>
theorem stale_snapshot_restored:
  assumes "sdb_connected d" and "sdb_pending d = [(ses_id s, st0)]" and "snapshot_of st0 s0" and "ses_id s0 = ses_id s"
    and "session_ok s" and "times_ok s" and "ses_status s0 \<noteq> ses_status s"
  shows "\<exists>d1 d2. db_record clk Committed False (session_to_dict clk s) d = (Inr True, d1) \<and> reflects (sdb_vehicle d) (sdb_tables d1) s
    \<and> flush_one Committed True d1 = (Inr True, d2) \<and> sdb_pending d2 = [] \<and> reflects (sdb_vehicle d) (sdb_tables d2) s0
    \<and> \<not> reflects (sdb_vehicle d) (sdb_tables d2) s"
proof -
  have snap: "snapshot_of (session_to_dict clk s) s" using assms(5,6) by (auto simp: snapshot_of_def)
  have inv: "session_inv s" "ses_id s \<noteq> []" using assms(5) snapshot_id[OF snap] by (simp_all add: session_inv_def)
  obtain db where db: "write_state (sdb_vehicle d) (session_to_dict clk s) (sdb_tables d) = Inr db" "reflects (sdb_vehicle d) db s"
    using snapshot_write[OF snap, of "sdb_vehicle d" "sdb_tables d"] by blast
  obtain db' where db': "write_state (sdb_vehicle d) st0 db = Inr db'" "reflects (sdb_vehicle d) db' s0"
    using snapshot_write[OF assms(3), of "sdb_vehicle d" db] by blast
  have "db_record clk Committed False (session_to_dict clk s) d = (Inr True, d\<lparr>sdb_tables := db\<rparr>)"
    using assms(1,2) inv db(1)
    by (simp add: db_record_def session_from_to_dict Let_def retire_pending_def persist_pending_def)
  moreover have "flush_one Committed True (d\<lparr>sdb_tables := db\<rparr>) = (Inr True, d\<lparr>sdb_tables := db', sdb_pending := [], sdb_queue_file := Some []\<rparr>)"
    using assms(1,2) db'(1) by (simp add: flush_one_def persist_pending_def)
  moreover have "\<not> reflects (sdb_vehicle d) db' s"
    using db'(2) assms(4,7) by (auto simp: reflects_def row_of_session_def)
  ultimately show ?thesis using db(2) db'(2) by auto
qed

theorem stale_snapshot_restored_witness:
  "\<exists>d1 d2. db_record 9000 Committed False (session_to_dict 9000 wit_over)
      (wit_queued\<lparr>sdb_pending := [(''r1'', session_to_dict 1000 wit_running)]\<rparr>) = (Inr True, d1)
    \<and> flush_one Committed True d1 = (Inr True, d2) \<and> reflects ''car'' (sdb_tables d2) wit_running
    \<and> \<not> reflects ''car'' (sdb_tables d2) wit_over"
  using stale_snapshot_restored[of "wit_queued\<lparr>sdb_pending := [(''r1'', session_to_dict 1000 wit_running)]\<rparr>" wit_over
      "session_to_dict 1000 wit_running" wit_running 9000] wit_sessions_ok
  by (auto simp: wit_queued_def fresh_database_def snapshot_of_def wit_running_def wit_over_def)

section \<open>Plan revisions\<close>

lemma fold_max_upper: "a \<le> fold max xs a \<and> (\<forall>x \<in> set xs. x \<le> fold max xs (a :: int))"
proof (induction xs arbitrary: a)
  case (Cons x xs)
  from Cons[of "max x a"] show ?case by auto
qed simp

lemma next_revision_fresh: "((sid, r), p) \<in> set (rd_plans db) \<Longrightarrow> r < next_revision sid db"
  using fold_max_upper[of 0 "map (snd \<circ> fst) (filter (\<lambda>x. fst (fst x) = sid) (rd_plans db))"]
  by (force simp: next_revision_def)

lemma saved_plan_latest:
  assumes "db' = db\<lparr>rd_plans := rd_plans db @ [((sid, next_revision sid db), plan)]\<rparr>"
  shows "latest_plan sid db' = Some (next_revision sid db, plan)" "sid' \<noteq> sid \<Longrightarrow> latest_plan sid' db' = latest_plan sid' db"
proof -
  have "next_revision sid db' = next_revision sid db + 1"
    using fold_max_upper[of 0 "map (snd \<circ> fst) (filter (\<lambda>x. fst (fst x) = sid) (rd_plans db))"]
    by (simp add: assms next_revision_def max_def)
  moreover have "map_of (rd_plans db) (sid, next_revision sid db) = None"
    using next_revision_fresh[of sid "next_revision sid db"] by (force simp: map_of_eq_None_iff)
  ultimately show "latest_plan sid db' = Some (next_revision sid db, plan)"
    by (simp add: latest_plan_def Let_def assms map_add_Some_iff)
  assume "sid' \<noteq> sid"
  then show "latest_plan sid' db' = latest_plan sid' db"
    by (auto simp: assms latest_plan_def next_revision_def Let_def map_add_def split: option.split)
qed

text \<open>
  A plan that is answered as saved is the one read back: its revision is greater than every earlier
  revision of the session, no earlier revision is touched, other sessions keep theirs, and a save that
  is refused while the connection holds leaves the tables as they were.
\<close>
theorem plan_saved_is_latest:
  assumes "save_plan out sid plan d = (r, d1)"
  shows "case r of
      Inr (n, p) \<Rightarrow> p = plan \<and> (\<forall>q old. ((sid, q), old) \<in> set (rd_plans (sdb_tables d)) \<longrightarrow> q < n)
        \<and> load_plan Committed sid d1 = (Inr (Some (n, plan)), d1)
        \<and> (\<forall>x \<in> set (rd_plans (sdb_tables d)). x \<in> set (rd_plans (sdb_tables d1)))
        \<and> (\<forall>sid'. sid' \<noteq> sid \<longrightarrow> latest_plan sid' (sdb_tables d1) = latest_plan sid' (sdb_tables d))
    | Inl e \<Rightarrow> e \<in> {PlanUnavailable, PsycopgError} \<and> (sdb_connected d1 \<longrightarrow> d1 = d)"
  using assms saved_plan_latest[OF refl, where db = "sdb_tables d" and sid = sid and plan = plan] next_revision_fresh[where sid = sid and db = "sdb_tables d"]
  by (auto simp: save_plan_def load_plan_def Let_def drop_connection_def split: if_splits outcome.splits)

definition wit_plan_db :: session_database where
  "wit_plan_db = wit_queued\<lparr>sdb_tables := empty_race_db\<lparr>rd_sessions := [(''r1'', row_of_session ''car'' wit_running)]\<rparr>\<rparr>"

theorem plan_saved_is_latest_witness:
  "\<forall>plan. \<exists>d1. save_plan Committed ''r1'' plan wit_plan_db = (Inr (1, plan), d1) \<and> load_plan Committed ''r1'' d1 = (Inr (Some (1, plan)), d1)"
proof
  fix plan
  obtain r d1 where r: "save_plan Committed ''r1'' plan wit_plan_db = (r, d1)" by (rule prod.exhaust)
  then have "r = Inr (1, plan)"
    by (simp add: save_plan_def wit_plan_db_def wit_queued_def fresh_database_def empty_race_db_def next_revision_def Let_def)
  with plan_saved_is_latest[OF r] r
  show "\<exists>d1. save_plan Committed ''r1'' plan wit_plan_db = (Inr (1, plan), d1) \<and> load_plan Committed ''r1'' d1 = (Inr (Some (1, plan)), d1)" by simp
qed

end
