(* ===== verification/Session_Publisher.thy ===== *)
theory Session_Publisher
  imports Py_Values
begin

text \<open>
  \<^verbatim>\<open>src/pit/session_control/publisher.py\<close>: the publisher that keeps only the newest session state and
  sends it until the broker has acknowledged it.

  The sender is a coroutine that other coroutines interleave with at its awaits, so it is a step
  machine: \<open>sp_pc\<close> is the await it is at, and a step is what runs from one await to the next. The payload
  is the dictionary \<open>submit\<close> encodes, two of them compared as their canonical encodings are; \<open>sp_acked\<close>
  is the list of payloads the broker acknowledged, newest last.
\<close>

type_synonym jpayload = "(string \<times> json) list"

datatype sender = Connecting | Backoff | Waiting | Sending jpayload | Stopped

record session_publisher =
  sp_pending :: "jpayload option"
  sp_wake :: bool
  sp_pc :: sender
  sp_connected :: bool
  sp_first :: bool
  sp_backoff :: real
  sp_connect_backoff :: real
  sp_before :: nat
  sp_published :: nat
  sp_reconnects :: nat
  sp_errors :: nat
  sp_acked :: "jpayload list"

definition BACKOFF_START :: real where "BACKOFF_START = 1 / 2"
definition BACKOFF_MAX :: real where "BACKOFF_MAX = 15"

definition sender_init :: session_publisher where
  "sender_init = \<lparr>sp_pending = None, sp_wake = False, sp_pc = Connecting, sp_connected = False, sp_first = True,
     sp_backoff = BACKOFF_START, sp_connect_backoff = BACKOFF_START, sp_before = 0, sp_published = 0, sp_reconnects = 0,
     sp_errors = 0, sp_acked = []\<rparr>"

definition submit_state :: "jpayload \<Rightarrow> session_publisher \<Rightarrow> session_publisher" where
  [op_defs]: "submit_state p s = s\<lparr>sp_pending := Some p, sp_wake := True\<rparr>"

definition retry_backoff :: "real \<Rightarrow> bool \<Rightarrow> real" where
  "retry_backoff current made_progress = (if made_progress then BACKOFF_START else min (current * 2) BACKOFF_MAX)"

text \<open>The head of the publish loop: take the pending payload, or clear the wake-up and wait. Nothing runs
  between the two reads of \<open>_pending\<close>, so the second read sees what the first one saw.\<close>

definition loop_head :: "bool \<Rightarrow> session_publisher \<Rightarrow> session_publisher" where
  "loop_head stop s =
     (if stop then s\<lparr>sp_pc := Stopped, sp_connected := False\<rparr>
      else case sp_pending s of
          None \<Rightarrow> s\<lparr>sp_wake := False, sp_pc := Waiting\<rparr>
        | Some p \<Rightarrow> s\<lparr>sp_pc := Sending p\<rparr>)"

text \<open>\<open>nats.connect\<close> answers; on success the publish loop starts.\<close>

definition connect_result :: "bool \<Rightarrow> bool \<Rightarrow> session_publisher \<Rightarrow> session_publisher" where
  [op_defs]: "connect_result stop ok s =
     (if sp_pc s \<noteq> Connecting then s
      else if ok then
        loop_head stop (s\<lparr>sp_reconnects := (if sp_first s then sp_reconnects s else sp_reconnects s + 1), sp_first := False,
          sp_connected := True, sp_before := sp_published s\<rparr>)
      else s\<lparr>sp_errors := sp_errors s + 1, sp_connect_backoff := min (sp_connect_backoff s * 2) BACKOFF_MAX,
             sp_pc := (if stop then Stopped else Connecting)\<rparr>)"

text \<open>The broker acknowledges the payload or the publish fails, which drops the connection.\<close>

definition publish_result :: "bool \<Rightarrow> bool \<Rightarrow> session_publisher \<Rightarrow> session_publisher" where
  [op_defs]: "publish_result stop ok s =
     (case sp_pc s of
        Sending p \<Rightarrow>
          if ok then
            loop_head stop (s\<lparr>sp_pending := (if sp_pending s = Some p then None else sp_pending s),
              sp_published := sp_published s + 1, sp_acked := sp_acked s @ [p]\<rparr>)
          else if stop then s\<lparr>sp_errors := sp_errors s + 1, sp_connected := False, sp_pc := Stopped\<rparr>
          else s\<lparr>sp_errors := sp_errors s + 1, sp_connected := False, sp_pc := Backoff,
                 sp_backoff := retry_backoff (sp_backoff s) (sp_before s < sp_published s)\<rparr>
      | _ \<Rightarrow> s)"

definition wake_up :: "bool \<Rightarrow> session_publisher \<Rightarrow> session_publisher" where
  [op_defs]: "wake_up stop s = (if sp_pc s = Waiting \<and> (sp_wake s \<or> stop) then loop_head stop s else s)"

text \<open>The wait after a failed publish ends, and \<open>_connect\<close> starts over.\<close>

definition backoff_over :: "bool \<Rightarrow> session_publisher \<Rightarrow> session_publisher" where
  [op_defs]: "backoff_over stop s =
     (if sp_pc s = Backoff then s\<lparr>sp_pc := (if stop then Stopped else Connecting), sp_connect_backoff := BACKOFF_START\<rparr> else s)"

datatype sender_op = Submit jpayload | ConnectResult bool bool | PublishResult bool bool | WakeUp bool | BackoffOver bool

fun sender_step :: "sender_op \<Rightarrow> session_publisher \<Rightarrow> session_publisher" where
  "sender_step (Submit p) = submit_state p"
| "sender_step (ConnectResult stop ok) = connect_result stop ok"
| "sender_step (PublishResult stop ok) = publish_result stop ok"
| "sender_step (WakeUp stop) = wake_up stop"
| "sender_step (BackoffOver stop) = backoff_over stop"

section \<open>The newest state is what is published\<close>

fun submitted :: "sender_op list \<Rightarrow> jpayload list" where
  "submitted [] = []"
| "submitted (Submit p # es) = p # submitted es"
| "submitted (_ # es) = submitted es"

text \<open>The publisher paired with the newest payload submitted to it.\<close>

fun pub_step_newest :: "sender_op \<Rightarrow> session_publisher \<times> jpayload option \<Rightarrow> session_publisher \<times> jpayload option" where
  "pub_step_newest e (s, newest) = (sender_step e s, case e of Submit p \<Rightarrow> Some p | _ \<Rightarrow> newest)"

fun acked_newest :: "jpayload list \<Rightarrow> jpayload option \<Rightarrow> bool" where
  "acked_newest acked None \<longleftrightarrow> acked = []"
| "acked_newest acked (Some p) \<longleftrightarrow> acked \<noteq> [] \<and> last acked = p"

definition pub_inv :: "session_publisher \<times> jpayload option \<Rightarrow> bool" where
  [inv_defs]: "pub_inv r \<longleftrightarrow> (case r of (s, newest) \<Rightarrow>
     (sp_pending s = newest \<or> sp_pending s = None \<and> acked_newest (sp_acked s) newest)
     \<and> ((\<exists>p. sp_pc s = Sending p) \<longrightarrow> sp_pending s \<noteq> None)
     \<and> (sp_pc s = Waiting \<and> sp_pending s \<noteq> None \<longrightarrow> sp_wake s)
     \<and> (newest = None \<longrightarrow> sp_acked s = [])
     \<and> sp_published s = length (sp_acked s)
     \<and> 0 < sp_backoff s \<and> sp_backoff s \<le> BACKOFF_MAX \<and> 0 < sp_connect_backoff s \<and> sp_connect_backoff s \<le> BACKOFF_MAX)"

lemmas backoff_consts = BACKOFF_START_def BACKOFF_MAX_def

lemma pub_step_newest_inv: "pub_inv r \<Longrightarrow> pub_inv (pub_step_newest e r)"
proof -
  assume inv: "pub_inv r"
  obtain s newest where r: "r = (s, newest)" by (rule prod.exhaust)
  show ?thesis
  proof (cases e)
    case (Submit p)
    with inv r show ?thesis by (auto simp: pub_inv_def submit_state_def)
  next
    case (ConnectResult stop ok)
    with inv r show ?thesis
      by (auto simp: pub_inv_def connect_result_def loop_head_def backoff_consts split: option.splits)
  next
    case (PublishResult stop ok)
    with inv r show ?thesis
      by (cases "sp_pc s") (auto simp: pub_inv_def publish_result_def loop_head_def retry_backoff_def backoff_consts
          split: option.splits)
  next
    case (WakeUp stop)
    with inv r show ?thesis by (auto simp: pub_inv_def wake_up_def loop_head_def split: option.splits)
  next
    case (BackoffOver stop)
    with inv r show ?thesis by (auto simp: pub_inv_def backoff_over_def backoff_consts)
  qed
qed

interpretation newest_pub: step_machine pub_step_newest pub_inv
  by unfold_locales (rule pub_step_newest_inv)

lemma newest_submitted:
  "snd (fold pub_step_newest es (s, newest)) = (if submitted es = [] then newest else Some (last (submitted es)))"
  "fst (fold pub_step_newest es (s, newest)) = fold sender_step es s"
  by (induction es arbitrary: s newest rule: submitted.induct) auto

lemma pub_init_inv: "pub_inv (sender_init, None)"
  by (simp add: pub_inv_def sender_init_def backoff_consts)

lemma pub_run_inv: "pub_inv (fold sender_step es sender_init, if submitted es = [] then None else Some (last (submitted es)))"
proof -
  have "fold pub_step_newest es (sender_init, None) =
      (fold sender_step es sender_init, if submitted es = [] then None else Some (last (submitted es)))"
    by (rule prod_eqI) (simp_all add: newest_submitted)
  with newest_pub.run_inv[OF pub_init_inv, of es] show ?thesis by simp
qed

text \<open>
  However submissions interleave with the sender's awaits, the session state the vehicle ends up
  with is the newest one: whatever is still pending is the last submission, when nothing is pending
  the last payload the broker acknowledged is the last submission, the sender never sleeps on a payload
  it was not woken for, and from any moment a connection that holds publishes the last submission
  within two acknowledgements.
\<close>
theorem newest_session_published:
  assumes "submitted es \<noteq> []" and "s = fold sender_step es sender_init"
  shows "(case sp_pending s of Some p \<Rightarrow> p = last (submitted es) | None \<Rightarrow> sp_acked s \<noteq> [] \<and> last (sp_acked s) = last (submitted es))
    \<and> (sp_pc s = Waiting \<and> sp_pending s \<noteq> None \<longrightarrow> sp_wake s)
    \<and> (\<forall>p. sp_pc s = Sending p \<longrightarrow>
         (let s' = fold sender_step [PublishResult False True, PublishResult False True] s
          in sp_pending s' = None \<and> last (sp_acked s') = last (submitted es) \<and> sp_pc s' = Waiting))"
proof -
  have inv: "pub_inv (s, Some (last (submitted es)))" using pub_run_inv[of es] assms by simp
  then show ?thesis
    by (auto simp: pub_inv_def publish_result_def loop_head_def split: option.splits)
qed

definition wit_sender_ops :: "sender_op list" where
  "wit_sender_ops = [Submit [(''status'', JStr ''active'')], ConnectResult False False, ConnectResult False True,
     Submit [(''status'', JStr ''ended'')]]"

theorem newest_session_published_witness:
  "last (sp_acked (fold sender_step (wit_sender_ops @ [PublishResult False True, PublishResult False True]) sender_init))
     = [(''status'', JStr ''ended'')]"
  using newest_session_published[of wit_sender_ops, OF _ refl]
  by (simp add: wit_sender_ops_def submit_state_def connect_result_def loop_head_def sender_init_def Let_def)

end
