(* ===== verification/Session_Control.thy ===== *)
theory Session_Control
  imports Session_Database Session_Publisher
begin

text \<open>
  \<^verbatim>\<open>src/pit/session_control/service.py\<close>: the controller that applies one operator action at a time to the
  session state, the state file, the database and the publisher, and undoes it when it cannot be made durable.

  What the environment decides for one action is an \<open>act_env\<close>: the clock, the date stamp and unique part
  of a new session id, whether the two writes of the state file succeed, and how the database answers
  \<open>record\<close>. A state file that was written is read back as the dictionary \<open>to_dict\<close> made.
\<close>

section \<open>State file and roster\<close>

datatype text_file = Missing | Unreadable | NotUtf8 | NotJson | Holds json

text \<open>\<open>StateFile.load\<close> falls back to no session for every error it catches; a file that is not UTF-8 or not
  JSON raises a \<open>ValueError\<close>.\<close>

definition state_load :: "text_file \<Rightarrow> session_state res" where
  "state_load f = (case f of
     Holds (JDict d) \<Rightarrow>
       (case session_from_dict d of
          Inr s \<Rightarrow> Inr s
        | Inl e \<Rightarrow> if e \<in> {OSError, TypeError, ValueError} then Inr session_none else Inl e)
   | _ \<Rightarrow> Inr session_none)"

definition state_save :: "int \<Rightarrow> bool \<Rightarrow> session_state \<Rightarrow> text_file \<Rightarrow> bool \<times> text_file" where
  "state_save clk ok s f = (if ok then (True, Holds (JDict (session_to_dict clk s))) else (False, f))"

fun all_strings :: "json list \<Rightarrow> string list option" where
  "all_strings [] = Some []"
| "all_strings (JStr s # xs) = map_option (Cons s) (all_strings xs)"
| "all_strings (_ # xs) = None"

record roster =
  ro_drivers :: "string list"
  ro_session_types :: "string list"
  ro_tracks :: "string list"

definition default_roster :: roster where
  "default_roster = \<lparr>ro_drivers = [], ro_session_types = SESSION_TYPES, ro_tracks = []\<rparr>"

fun string_list :: "json \<Rightarrow> string list res" where
  "string_list (JList xs) = (case all_strings xs of None \<Rightarrow> Inl TypeError | Some ss \<Rightarrow> Inr ss)"
| "string_list _ = Inl TypeError"

definition roster_of :: "(string \<times> json) list \<Rightarrow> roster res" where
  "roster_of d =
     sbind (string_list (jget d ''drivers'')) (\<lambda>drivers.
     sbind (string_list (jget d ''session_types'')) (\<lambda>types.
       if \<not> (\<forall>t \<in> set types. t \<in> set SESSION_TYPES) then Inl TypeError
       else sbind (string_list (jget_or d ''tracks'' (JList []))) (\<lambda>tracks.
         Inr \<lparr>ro_drivers = drivers, ro_session_types = types, ro_tracks = tracks\<rparr>)))"

text \<open>A roster that is not UTF-8 raises \<open>UnicodeDecodeError\<close>, a \<open>ValueError\<close> that is not among the errors
  \<open>load_roster\<close> catches.\<close>

definition load_roster :: "text_file \<Rightarrow> roster res" where
  [op_defs]: "load_roster f = (case f of
     NotUtf8 \<Rightarrow> Inl ValueError
   | Holds (JDict d) \<Rightarrow> (case roster_of d of Inr r \<Rightarrow> Inr r | Inl e \<Rightarrow> Inr default_roster)
   | _ \<Rightarrow> Inr default_roster)"

section \<open>The controller\<close>

record controller =
  ct_state :: session_state
  ct_file :: text_file
  ct_db :: session_database
  ct_pub :: session_publisher
  ct_default_track :: string

datatype record_answer = Answered outcome bool | RecordCancelled

record act_env =
  ae_clk :: int
  ae_stamp :: "int \<Rightarrow> string res"
  ae_uid :: string
  ae_save_ok :: bool
  ae_record :: record_answer
  ae_rollback_ok :: bool

fun text_of :: "json \<Rightarrow> string" where
  "text_of (JStr s) = s"
| "text_of _ = []"

text \<open>The optional \<open>at\<close> of the body: the time of the transition, or none.\<close>

definition act_at :: "string \<Rightarrow> int \<Rightarrow> (string \<times> json) list \<Rightarrow> int option res" where
  [op_defs]: "act_at action clk body =
     (case jget body ''at'' of
        JNull \<Rightarrow> Inr None
      | JInt at_ms \<Rightarrow>
          if action = ''start'' then Inl SessionError
          else if clk < at_ms then Inl SessionError
          else Inr (Some at_ms)
      | _ \<Rightarrow> Inl SessionError)"

definition act_transition ::
  "act_env \<Rightarrow> string \<Rightarrow> string \<Rightarrow> (string \<times> json) list \<Rightarrow> int option \<Rightarrow> int \<Rightarrow> session_state \<Rightarrow> (string \<times> json) list res \<times> session_state" where
  [op_defs]: "act_transition env default_track action body at_ms now s =
     (if action = ''start'' then
        start_session (ae_stamp env) (ae_uid env) (text_of (jget body ''session_type'')) (text_of (jget body ''driver''))
          (let t = text_of (jget body ''track_name'') in if t = [] then default_track else t)
          (text_of (jget body ''car'')) now s
      else if action = ''driver'' then
        (let driver = strip (text_of (jget body ''driver'')) in
         case at_ms of
           Some t \<Rightarrow> if ses_status s = ''active'' \<and> driver = ses_driver s then amend_stint_start t s else change_driver driver now s
         | None \<Rightarrow> change_driver driver now s)
      else if action = ''end'' then end_session now s
      else (Inl SessionError, s))"

text \<open>\<open>database.record\<close> as the controller sees it; a call that is cancelled while it waits for the database's
  lock does nothing.\<close>

definition record_result :: "act_env \<Rightarrow> session_state \<Rightarrow> session_database \<Rightarrow> bool res option \<times> session_database" where
  "record_result env s d = (case ae_record env of
     RecordCancelled \<Rightarrow> (None, d)
   | Answered out file_ok \<Rightarrow>
       (case db_record (ae_clk env) out file_ok (session_to_dict (ae_clk env) s) d of (r, d1) \<Rightarrow> (Some r, d1)))"

text \<open>The outcome of an action: its payload, the exception it raised, or cancelled by the caller's timeout.\<close>

datatype act_result = Acted "(string \<times> json) list" | Raised exn | Cancelled

definition act_persist :: "act_env \<Rightarrow> jdict \<Rightarrow> (string \<times> json) list \<Rightarrow> controller \<Rightarrow> act_result \<times> controller" where
  [op_defs]: "act_persist env prior out_payload c =
     (case state_save (ae_clk env) (ae_save_ok env) (ct_state c) (ct_file c) of
        (False, f) \<Rightarrow>
          (case session_from_dict prior of
             Inl e \<Rightarrow> (Raised e, c)
           | Inr s0 \<Rightarrow> (Raised SessionPersistenceError, c\<lparr>ct_state := s0\<rparr>))
      | (True, f) \<Rightarrow>
          (case record_result env (ct_state c) (ct_db c) of
             (None, d1) \<Rightarrow> (Cancelled, c\<lparr>ct_file := f, ct_db := d1\<rparr>)
           | (Some (Inr _), d1) \<Rightarrow> (Acted out_payload, c\<lparr>ct_file := f, ct_db := d1, ct_pub := submit_state out_payload (ct_pub c)\<rparr>)
           | (Some (Inl e), d1) \<Rightarrow>
               (case session_from_dict prior of
                  Inl e' \<Rightarrow> (Raised e', c\<lparr>ct_file := f, ct_db := d1\<rparr>)
                | Inr s0 \<Rightarrow>
                    (case state_save (ae_clk env) (ae_rollback_ok env) s0 f of
                       (False, f') \<Rightarrow> (Raised RuntimeError, c\<lparr>ct_state := s0, ct_file := f', ct_db := d1\<rparr>)
                     | (True, f') \<Rightarrow>
                         (Raised (if e = OSError then SessionPersistenceError else e),
                          c\<lparr>ct_state := s0, ct_file := f', ct_db := d1\<rparr>)))))"

definition act :: "act_env \<Rightarrow> string \<Rightarrow> (string \<times> json) list \<Rightarrow> controller \<Rightarrow> act_result \<times> controller" where
  [op_defs]: "act env action body c =
     (let prior = session_to_dict (ae_clk env) (ct_state c) in
      case act_at action (ae_clk env) body of
        Inl e \<Rightarrow> (Raised e, c)
      | Inr at_ms \<Rightarrow>
          (let now = (case at_ms of None \<Rightarrow> ae_clk env | Some t \<Rightarrow> t) in
           case act_transition env (ct_default_track c) action body at_ms now (ct_state c) of
             (Inl e, s1) \<Rightarrow> (Raised e, c\<lparr>ct_state := s1\<rparr>)
           | (Inr out_payload, s1) \<Rightarrow> act_persist env prior out_payload (c\<lparr>ct_state := s1\<rparr>)))"

definition current :: "int \<Rightarrow> controller \<Rightarrow> jdict" where
  "current clk c = session_to_dict clk (ct_state c)"

definition current_id :: "controller \<Rightarrow> string" where
  "current_id c = (if ses_status (ct_state c) \<noteq> ''none'' then ses_id (ct_state c) else [])"

definition plan_get :: "outcome \<Rightarrow> controller \<Rightarrow> (string \<times> (int \<times> race_plan) option) option res \<times> controller" where
  [op_defs]: "plan_get out c =
     (if current_id c = [] then (Inr None, c)
      else case load_plan out (current_id c) (ct_db c) of
          (Inl e, d) \<Rightarrow> (Inl e, c\<lparr>ct_db := d\<rparr>)
        | (Inr p, d) \<Rightarrow> (Inr (Some (current_id c, p)), c\<lparr>ct_db := d\<rparr>))"

definition plan_set :: "outcome \<Rightarrow> (string \<times> json) list \<Rightarrow> controller \<Rightarrow> (string \<times> int \<times> race_plan) res \<times> controller" where
  [op_defs]: "plan_set out body c =
     (if current_id c = [] then (Inl SessionError, c)
      else case validate_plan body of
          Inl e \<Rightarrow> (Inl e, c)
        | Inr plan \<Rightarrow>
            (case save_plan out (current_id c) plan (ct_db c) of
               (Inl e, d) \<Rightarrow> (Inl e, c\<lparr>ct_db := d\<rparr>)
             | (Inr saved, d) \<Rightarrow> (Inr (current_id c, saved), c\<lparr>ct_db := d\<rparr>)))"

definition republish_current :: "int \<Rightarrow> controller \<Rightarrow> controller" where
  [op_defs]: "republish_current clk c =
     (if ses_status (ct_state c) \<noteq> ''none'' then c\<lparr>ct_pub := submit_state (payload None clk (ct_state c)) (ct_pub c)\<rparr> else c)"

text \<open>The start of the service: the queue and the state file are read back, one connection is tried, and a
  session found on disk is recorded and published again.\<close>

definition service_start :: "int \<Rightarrow> bool \<Rightarrow> outcome \<Rightarrow> bool \<Rightarrow> controller \<Rightarrow> controller res" where
  [op_defs]: "service_start clk reachable out file_ok c =
     sbind (database_start clk (ct_db c)) (\<lambda>d.
     sbind (state_load (ct_file c)) (\<lambda>s.
       let d1 = snd (connect_once reachable d);
           c1 = c\<lparr>ct_state := s, ct_db := d1, ct_pub := sender_init\<rparr>
       in if ses_status s = ''none'' then Inr c1
          else case db_record clk out file_ok (session_to_dict clk s) d1 of
              (Inl e, d2) \<Rightarrow> Inl e
            | (Inr _, d2) \<Rightarrow> Inr (republish_current clk (c1\<lparr>ct_db := d2\<rparr>))))"

section \<open>An action is all or nothing\<close>

lemma transition_cases:
  assumes "act_transition env track action body at_ms now s = (r, s')"
  shows "(\<exists>e. r = Inl e \<and> s' = s) \<or> (\<exists>t. r = Inr (payload (Some t) t s') \<and> t \<in> {now} \<union> set_option at_ms)"
  using assms
  by (auto simp: act_transition_def start_session_def change_driver_def amend_stint_start_def end_session_def Let_def
      split: if_splits option.splits sum.splits)

lemma transition_inv:
  assumes "session_inv s" "stamp_ok (ae_stamp env)" "action = ''start'' \<Longrightarrow> 0 \<le> now"
  shows "session_inv (snd (act_transition env track action body at_ms now s))"
  using assms start_session_inv[OF assms(1,2)]
  by (auto simp: act_transition_def Let_def change_driver_inv amend_stint_start_inv end_session_inv split: option.split)

definition MAX_TIME :: int where "MAX_TIME = 253402300800000"

definition times_below :: "session_state \<Rightarrow> bool" where
  "times_below s \<longleftrightarrow> ses_stint_start_ms s < MAX_TIME \<and> (\<forall>c \<in> set (ses_stints s). cs_end c < MAX_TIME)"

lemma operation_times:
  assumes "times_below s" "now < MAX_TIME"
  shows "times_below (snd (start_session stamp uid ty driver track car now s))" "times_below (snd (change_driver driver now s))"
    "times_below (snd (amend_stint_start now s))" "times_below (snd (end_session now s))"
proof -
  show "times_below (snd (start_session stamp uid ty driver track car now s))"
    using assms by (simp add: start_session_def Let_def times_below_def split: sum.split)
  show "times_below (snd (change_driver driver now s))"
    using assms by (simp add: change_driver_def Let_def times_below_def close_stint_def)
  show "times_below (snd (end_session now s))"
    using assms by (simp add: end_session_def Let_def times_below_def close_stint_def)
  show "times_below (snd (amend_stint_start now s))"
    using assms in_set_butlastD[of _ "ses_stints s"] by (auto simp: amend_stint_start_def Let_def times_below_def)
qed

lemma transition_times:
  assumes "times_below s" "now < MAX_TIME" "\<forall>t \<in> set_option at_ms. t < MAX_TIME"
  shows "times_below (snd (act_transition env track action body at_ms now s))"
  using assms operation_times[OF assms(1)] by (simp add: act_transition_def Let_def split: option.split)

lemma times_ok_below: "session_inv s \<Longrightarrow> times_below s \<Longrightarrow> times_ok s"
proof (cases "s = session_none")
  case True
  then show ?thesis by (simp add: session_none_def times_ok_def stamp_in_range_def)
next
  case False
  assume "session_inv s" and below: "times_below s"
  then have ok: "session_ok s" using False by (simp add: session_inv_def)
  obtain e where t: "tiles (ses_start_ms s) 1 (ses_stints s) e" "ses_status s = ''active'' \<Longrightarrow> e = ses_stint_start_ms s"
    using session_ok_tiles[OF ok] by metis
  have start: "0 \<le> ses_start_ms s" "ses_start_ms s \<le> ses_stint_start_ms s"
    using ok tiles_le[OF t(1)] t(2) tiles_stint_start[OF t(1)] by (auto simp: session_ok_def)
  then show ?thesis
    using below tiles_bounds[OF t(1)] by (fastforce simp: times_ok_def stamp_in_range_def times_below_def MAX_TIME_def)
qed

lemma state_load_saved: "session_inv s \<Longrightarrow> state_load (Holds (JDict (session_to_dict clk s))) = Inr s"
  by (simp add: state_load_def session_from_to_dict)

text \<open>What each way out of the persistence half of an action leaves.\<close>

lemma act_persist_cases:
  assumes inv: "session_inv s0" "session_inv (ct_state c)" and a: "act_persist env (session_to_dict clk s0) p c = (r, c')"
  shows "(r = Acted p \<and> ct_state c' = ct_state c \<and> state_load (ct_file c') = Inr (ct_state c) \<and> ct_pub c' = submit_state p (ct_pub c)
          \<and> (\<exists>out file_ok b. ae_record env = Answered out file_ok
               \<and> db_record (ae_clk env) out file_ok (session_to_dict (ae_clk env) (ct_state c)) (ct_db c) = (Inr b, ct_db c')))
    \<or> (r = Raised SessionPersistenceError \<and> c' = c\<lparr>ct_state := s0\<rparr>)
    \<or> (r = Cancelled \<and> ae_record env = RecordCancelled \<and> ct_state c' = ct_state c \<and> state_load (ct_file c') = Inr (ct_state c)
          \<and> ct_pub c' = ct_pub c \<and> ct_db c' = ct_db c)
    \<or> (\<exists>e out file_ok. r = Raised e \<and> ae_record env = Answered out file_ok \<and> ct_state c' = s0 \<and> ct_pub c' = ct_pub c
          \<and> (e = RuntimeError \<and> \<not> ae_rollback_ok env \<or> state_load (ct_file c') = Inr s0)
          \<and> (\<exists>e'. db_record (ae_clk env) out file_ok (session_to_dict (ae_clk env) (ct_state c)) (ct_db c) = (Inl e', ct_db c')))"
  using a inv
  by (auto simp: act_persist_def state_save_def record_result_def session_from_to_dict state_load_saved
      split: if_splits record_answer.splits prod.splits sum.splits)

lemma transition_some:
  assumes "act_transition env track action body at_ms now s = (Inr p, s')" shows "s' \<noteq> session_none"
proof -
  have "ses_status s' \<in> {''active'', ''ended''}" using assms
    by (auto simp: act_transition_def start_session_def change_driver_def amend_stint_start_def end_session_def Let_def
        split: if_splits option.splits sum.splits)
  then show ?thesis by (auto simp: session_none_def)
qed

lemma act_cases:
  assumes "session_inv (ct_state c)" and "stamp_ok (ae_stamp env)" and "0 \<le> ae_clk env" and a: "act env action body c = (r, c')"
  shows "(c' = c \<and> (\<exists>e. r = Raised e))
    \<or> (\<exists>s1 t. t \<le> ae_clk env \<and> session_inv s1 \<and> s1 \<noteq> session_none
         \<and> (times_below (ct_state c) \<longrightarrow> ae_clk env < MAX_TIME \<longrightarrow> times_below s1)
         \<and> act_persist env (session_to_dict (ae_clk env) (ct_state c)) (payload (Some t) t s1) (c\<lparr>ct_state := s1\<rparr>) = (r, c'))"
proof (cases "act_at action (ae_clk env) body")
  case (Inl e)
  with a show ?thesis by (auto simp: act_def)
next
  case at_ms: (Inr at_ms)
  let ?now = "case at_ms of None \<Rightarrow> ae_clk env | Some t \<Rightarrow> t"
  have past: "t \<le> ae_clk env" if "t \<in> {?now} \<union> set_option at_ms" for t
    using at_ms that by (auto simp: act_at_def split: json.splits if_splits option.splits)
  have now: "action = ''start'' \<Longrightarrow> 0 \<le> ?now" using at_ms assms(3) by (auto simp: act_at_def split: json.splits if_splits)
  obtain q s1 where tr: "act_transition env (ct_default_track c) action body at_ms ?now (ct_state c) = (q, s1)" by (rule prod.exhaust)
  have inv1: "session_inv s1" using transition_inv[OF assms(1,2), where action = action and now = ?now and track = "ct_default_track c" and body = body and at_ms = at_ms] tr now
    by simp
  have times: "times_below (ct_state c) \<longrightarrow> ae_clk env < MAX_TIME \<longrightarrow> times_below s1"
  proof (intro impI)
    assume "times_below (ct_state c)" "ae_clk env < MAX_TIME"
    with past have "?now < MAX_TIME" "\<forall>t \<in> set_option at_ms. t < MAX_TIME" by (auto dest!: past intro: order_le_less_trans)
    from transition_times[OF \<open>times_below (ct_state c)\<close> this, of env "ct_default_track c" action body] tr show "times_below s1" by simp
  qed
  show ?thesis
  proof (cases q)
    case (Inl e)
    with tr at_ms a transition_cases[OF tr] show ?thesis by (auto simp: act_def Let_def)
  next
    case (Inr p)
    then obtain t where p: "p = payload (Some t) t s1" "t \<le> ae_clk env" using transition_cases[OF tr] past by auto
    have "act_persist env (session_to_dict (ae_clk env) (ct_state c)) p (c\<lparr>ct_state := s1\<rparr>) = (r, c')"
      using a tr Inr at_ms by (simp add: act_def Let_def)
    with p inv1 times transition_some[of env _ action body at_ms ?now] tr Inr show ?thesis by blast
  qed
qed

text \<open>
  C22. An operator action is all or nothing. When it answers with a payload, the new state is valid, is the one
  the state file reads back to, was accepted by the database (committed or durably queued) and its payload
  is what the publisher sends next; when it raises, the state and the publisher are as before and so is
  what the state file reads back to, except when the roll-back could not write the file. Only a caller
  that gives up while the database lock is held leaves a transition applied on disk and in memory that
  was neither recorded nor published.
\<close>
theorem act_atomic:
  assumes "session_inv (ct_state c)" and "state_load (ct_file c) = Inr (ct_state c)" and "stamp_ok (ae_stamp env)"
    and "0 \<le> ae_clk env" and "act env action body c = (r, c')"
  shows "case r of
      Acted p \<Rightarrow> session_inv (ct_state c') \<and> state_load (ct_file c') = Inr (ct_state c')
        \<and> (\<exists>t \<le> ae_clk env. p = payload (Some t) t (ct_state c')) \<and> ct_pub c' = submit_state p (ct_pub c)
        \<and> (\<exists>out file_ok b. ae_record env = Answered out file_ok
             \<and> db_record (ae_clk env) out file_ok (session_to_dict (ae_clk env) (ct_state c')) (ct_db c) = (Inr b, ct_db c'))
    | Raised e \<Rightarrow> ct_state c' = ct_state c \<and> ct_pub c' = ct_pub c
        \<and> (e = RuntimeError \<and> \<not> ae_rollback_ok env \<or> state_load (ct_file c') = Inr (ct_state c))
    | Cancelled \<Rightarrow> ae_record env = RecordCancelled \<and> session_inv (ct_state c') \<and> state_load (ct_file c') = Inr (ct_state c')
        \<and> ct_pub c' = ct_pub c \<and> ct_db c' = ct_db c"
  using act_cases[OF assms(1,3,4,5)]
proof (elim disjE exE conjE)
  fix s1 t
  assume s1: "t \<le> ae_clk env" "session_inv s1"
    and per: "act_persist env (session_to_dict (ae_clk env) (ct_state c)) (payload (Some t) t s1) (c\<lparr>ct_state := s1\<rparr>) = (r, c')"
  from act_persist_cases[OF assms(1) _ per] s1 assms(2) show ?thesis by auto
qed (use assms(2) in auto)

definition wit_controller :: controller where
  "wit_controller = \<lparr>ct_state = wit_running, ct_file = Holds (JDict (session_to_dict 1000 wit_running)), ct_db = fresh_database ''car'' empty_race_db,
     ct_pub = sender_init, ct_default_track = ''Spa''\<rparr>"

definition wit_act_env :: act_env where
  "wit_act_env = \<lparr>ae_clk = 9000, ae_stamp = (\<lambda>t. Inr ''20260101-0000''), ae_uid = ''ab'', ae_save_ok = True,
     ae_record = Answered Unreachable True, ae_rollback_ok = True\<rparr>"

lemma wit_end_session: "end_session 9000 wit_running = (Inr (payload (Some 9000) 9000 wit_over), wit_over)"
  by (simp add: end_session_def wit_running_def wit_over_def close_stint_def Let_def)

lemma wit_act:
  "\<exists>c'. act wit_act_env ''end'' [] wit_controller = (Acted (payload (Some 9000) 9000 wit_over), c') \<and> ct_state c' = wit_over"
proof -
  have inv: "session_inv wit_over" using wit_sessions_ok by (simp add: session_inv_def)
  show ?thesis
    by (simp add: act_def act_at_def act_transition_def wit_end_session act_persist_def state_save_def record_result_def db_record_def
        session_from_to_dict[OF inv] queue_snapshot_ok wit_act_env_def wit_controller_def fresh_database_def jget_def Let_def)
qed

theorem act_atomic_witness:
  "\<exists>c'. act wit_act_env ''end'' [] wit_controller = (Acted (payload (Some 9000) 9000 wit_over), c') \<and> ct_state c' = wit_over
     \<and> state_load (ct_file c') = Inr wit_over"
proof -
  obtain c' where c': "act wit_act_env ''end'' [] wit_controller = (Acted (payload (Some 9000) 9000 wit_over), c')" "ct_state c' = wit_over"
    using wit_act by blast
  have inv: "session_inv wit_running" using wit_sessions_ok by (simp add: session_inv_def)
  have "stamp_ok (ae_stamp wit_act_env)" by (simp add: stamp_ok_def wit_act_env_def is_space_def)
  from act_atomic[OF _ _ this _ c'(1)] inv c' show ?thesis
    by (simp add: wit_controller_def state_load_saved wit_act_env_def)
qed

section \<open>The service as a whole\<close>

text \<open>What runs beside the controller's actions: the database loop, the publisher's sender and restarts.\<close>

datatype service_op =
    Act act_env string "(string \<times> json) list"
  | DbFlush outcome bool
  | DbConnect bool
  | PubStep sender_op
  | Restart int bool outcome bool

fun service_step :: "service_op \<Rightarrow> controller \<Rightarrow> controller" where
  "service_step (Act env action body) c = snd (act env action body c)"
| "service_step (DbFlush out file_ok) c = c\<lparr>ct_db := snd (flush_one out file_ok (ct_db c))\<rparr>"
| "service_step (DbConnect reachable) c = c\<lparr>ct_db := snd (connect_once reachable (ct_db c))\<rparr>"
| "service_step (PubStep x) c = c\<lparr>ct_pub := sender_step x (ct_pub c)\<rparr>"
| "service_step (Restart clk reachable out file_ok) c =
     (case service_start clk reachable out file_ok c of Inl e \<Rightarrow> c | Inr c1 \<Rightarrow> c1)"

text \<open>The contract of the environment: clocks in range, the queue file writable when a newer snapshot replaces a
  queued one, no caller that gives up in the middle, a roll-back that can write its file; only the controller submits.\<close>

fun service_guard :: "service_op \<Rightarrow> controller \<Rightarrow> bool" where
  "service_guard (Act env action body) c \<longleftrightarrow> stamp_ok (ae_stamp env) \<and> 0 \<le> ae_clk env \<and> ae_clk env < MAX_TIME \<and> ae_rollback_ok env
     \<and> (case ae_record env of RecordCancelled \<Rightarrow> False
          | Answered out file_ok \<Rightarrow> sdb_connected (ct_db c) \<and> out \<in> {Committed, Lost_After_Commit} \<longrightarrow> file_ok)"
| "service_guard (PubStep x) c \<longleftrightarrow> (case x of Submit p \<Rightarrow> False | _ \<Rightarrow> True)"
| "service_guard (Restart clk reachable out file_ok) c \<longleftrightarrow> (reachable \<and> out \<in> {Committed, Lost_After_Commit} \<longrightarrow> file_ok)"
| "service_guard _ _ = True"

definition describes :: "session_state \<Rightarrow> jpayload \<Rightarrow> bool" where
  "describes s p \<longleftrightarrow> (\<exists>t. p = payload (Some t) t s)"

definition state_durable :: "controller \<Rightarrow> bool" where
  "state_durable c \<longleftrightarrow> session_inv (ct_state c) \<and> times_below (ct_state c) \<and> state_load (ct_file c) = Inr (ct_state c)"

definition db_follows :: "controller \<Rightarrow> bool" where
  "db_follows c \<longleftrightarrow> (\<exists>latest. sdb_inv (ct_db c, latest)
     \<and> (ses_id (ct_state c) \<noteq> [] \<longrightarrow> latest (ses_id (ct_state c)) = Some (ct_state c)))"

definition newest_describes :: "session_state \<Rightarrow> jpayload option \<Rightarrow> bool" where
  "newest_describes s newest \<longleftrightarrow> (if s = session_none then newest = None else \<exists>p. newest = Some p \<and> describes s p)"

definition pub_follows :: "controller \<Rightarrow> bool" where
  "pub_follows c \<longleftrightarrow> (\<exists>newest. pub_inv (ct_pub c, newest) \<and> newest_describes (ct_state c) newest)"

definition service_inv :: "controller \<Rightarrow> bool" where
  [inv_defs]: "service_inv c \<longleftrightarrow> state_durable c \<and> db_follows c \<and> pub_follows c"

lemma inv_none_iff: "session_inv s \<Longrightarrow> s = session_none \<longleftrightarrow> ses_id s = []"
  by (auto simp: session_inv_def session_ok_def named_def session_none_def)

lemma inv_status_none: "session_inv s \<Longrightarrow> ses_status s = ''none'' \<longleftrightarrow> s = session_none"
  by (auto simp: session_inv_def session_ok_def session_none_def)

lemma pub_follows_submit:
  assumes "pub_follows c" "ct_pub c' = submit_state p (ct_pub c)" "describes (ct_state c') p" "ct_state c' \<noteq> session_none"
  shows "pub_follows c'"
proof -
  from assms(1) obtain newest where "pub_inv (ct_pub c, newest)" by (auto simp: pub_follows_def)
  from pub_step_newest_inv[OF this, of "Submit p"] assms(2-4) show ?thesis by (auto simp: pub_follows_def newest_describes_def)
qed

lemma record_latest:
  assumes inv: "sdb_inv (d, latest)" and s: "session_inv s" "times_ok s" "ses_id s \<noteq> []"
    and g: "sdb_connected d \<and> out \<in> {Committed, Lost_After_Commit} \<longrightarrow> file_ok"
    and r: "db_record clk out file_ok (session_to_dict clk s) d = (r, d')"
  shows "case r of Inr _ \<Rightarrow> sdb_inv (d', latest(ses_id s \<mapsto> s)) | Inl _ \<Rightarrow> sdb_inv (d', latest)"
  using record_inv[OF inv, of clk out file_ok s] s g r by (auto split: sum.split)

lemma service_act_inv:
  assumes inv: "service_inv c" and g: "service_guard (Act env action body) c"
  shows "service_inv (snd (act env action body c))"
proof -
  obtain r c' where a: "act env action body c = (r, c')" by (rule prod.exhaust)
  have dur: "session_inv (ct_state c)" "times_below (ct_state c)" "state_load (ct_file c) = Inr (ct_state c)"
    using inv by (auto simp: service_inv_def state_durable_def)
  from g obtain out file_ok where rec: "ae_record env = Answered out file_ok"
      and guard: "sdb_connected (ct_db c) \<and> out \<in> {Committed, Lost_After_Commit} \<longrightarrow> file_ok"
    by (cases "ae_record env") auto
  from inv obtain latest where l: "sdb_inv (ct_db c, latest)" "ses_id (ct_state c) \<noteq> [] \<longrightarrow> latest (ses_id (ct_state c)) = Some (ct_state c)"
    by (auto simp: service_inv_def db_follows_def)
  have pub: "pub_follows c" using inv by (simp add: service_inv_def)
  from act_cases[OF dur(1) _ _ a] g dur(2) consider "c' = c"
    | s1 t where "session_inv s1" "s1 \<noteq> session_none" "times_below s1"
        "act_persist env (session_to_dict (ae_clk env) (ct_state c)) (payload (Some t) t s1) (c\<lparr>ct_state := s1\<rparr>) = (r, c')" by auto
  then show ?thesis
  proof cases
    case 1
    with inv a show ?thesis by simp
  next
    case 2
    have new: "times_ok s1" "ses_id s1 \<noteq> []" using 2 times_ok_below inv_none_iff by auto
    note recd = record_latest[OF l(1) 2(1) new guard]
    from act_persist_cases[OF dur(1) _ 2(4)] 2(1) rec g
    consider (acted) b where "ct_state c' = s1" "state_load (ct_file c') = Inr s1" "ct_pub c' = submit_state (payload (Some t) t s1) (ct_pub c)"
          "db_record (ae_clk env) out file_ok (session_to_dict (ae_clk env) s1) (ct_db c) = (Inr b, ct_db c')"
      | (early) "c' = c\<lparr>ct_state := ct_state c\<rparr>"
      | (undone) e where "ct_state c' = ct_state c" "ct_pub c' = ct_pub c" "state_load (ct_file c') = Inr (ct_state c)"
          "db_record (ae_clk env) out file_ok (session_to_dict (ae_clk env) s1) (ct_db c) = (Inl e, ct_db c')"
      by auto
    then show ?thesis
    proof cases
      case acted
      have "db_follows c'" using recd[OF acted(4)] acted(1) by (auto simp: db_follows_def)
      moreover have "pub_follows c'" using pub_follows_submit[OF pub acted(3)] acted(1) 2(2) by (auto simp: describes_def)
      ultimately show ?thesis using 2 acted a by (simp add: service_inv_def state_durable_def)
    next
      case early
      with inv a show ?thesis by simp
    next
      case undone
      have "db_follows c'" using recd[OF undone(4)] undone(1) l(2) by (auto simp: db_follows_def)
      moreover have "pub_follows c'" using pub unfolding pub_follows_def undone(1,2) .
      ultimately show ?thesis using undone dur a by (simp add: service_inv_def state_durable_def)
    qed
  qed
qed

lemma service_db_inv:
  assumes "service_inv c" "\<And>latest. sdb_inv (ct_db c, latest) \<Longrightarrow> sdb_inv (d, latest)"
  shows "service_inv (c\<lparr>ct_db := d\<rparr>)"
proof -
  have "db_follows (c\<lparr>ct_db := d\<rparr>)" using assms by (auto simp: service_inv_def db_follows_def)
  moreover have "pub_follows (c\<lparr>ct_db := d\<rparr>)" using assms(1) by (simp add: service_inv_def pub_follows_def)
  ultimately show ?thesis using assms(1) by (simp add: service_inv_def state_durable_def)
qed

lemma service_pub_inv:
  assumes "service_inv c" "case x of Submit p \<Rightarrow> False | _ \<Rightarrow> True"
  shows "service_inv (c\<lparr>ct_pub := sender_step x (ct_pub c)\<rparr>)"
proof -
  from assms(1) obtain newest where n: "pub_inv (ct_pub c, newest)"
      "newest_describes (ct_state c) newest"
    by (auto simp: service_inv_def pub_follows_def)
  have "pub_inv (sender_step x (ct_pub c), newest)"
    using pub_step_newest_inv[OF n(1), of x] assms(2) by (cases x) simp_all
  then have "pub_follows (c\<lparr>ct_pub := sender_step x (ct_pub c)\<rparr>)"
    unfolding pub_follows_def using n(2) by (intro exI[of _ newest]) simp
  then show ?thesis using assms(1) by (simp add: service_inv_def state_durable_def db_follows_def)
qed

lemma connect_sdb_inv: "sdb_inv (d, latest) \<Longrightarrow> sdb_inv (snd (connect_once reachable d), latest)"
  by (auto simp: connect_once_def intro: sdb_inv_cong)

lemma connect_connected: "sdb_connected (snd (connect_once reachable d)) \<Longrightarrow> reachable \<or> sdb_connected d"
  by (simp add: connect_once_def split: if_splits)

lemma service_start_inv:
  assumes inv: "service_inv c" and g: "service_guard (Restart clk reachable out file_ok) c"
    and st: "service_start clk reachable out file_ok c = Inr c'"
  shows "service_inv c'"
proof -
  let ?s = "ct_state c"
  have dur: "session_inv ?s" "times_below ?s" "state_load (ct_file c) = Inr ?s"
    using inv by (auto simp: service_inv_def state_durable_def)
  from inv obtain latest where l: "sdb_inv (ct_db c, latest)" "ses_id ?s \<noteq> [] \<longrightarrow> latest (ses_id ?s) = Some ?s"
    by (auto simp: service_inv_def db_follows_def)
  obtain d where d: "database_start clk (ct_db c) = Inr d" "sdb_inv (d, latest)" using queue_restart_inv[OF l(1)] by blast
  have "\<not> sdb_connected d" using d(1) by (auto simp: database_start_def sbind_Inr_iff)
  let ?d1 = "snd (connect_once reachable d)" let ?c1 = "c\<lparr>ct_state := ?s, ct_db := ?d1, ct_pub := sender_init\<rparr>"
  have inv1: "sdb_inv (?d1, latest)" and conn: "sdb_connected ?d1 \<Longrightarrow> reachable"
    using connect_sdb_inv[OF d(2)] connect_connected[of reachable d] \<open>\<not> sdb_connected d\<close> by blast+
  show ?thesis
  proof (cases "?s = session_none")
    case True
    then have "ses_status ?s = ''none''" by (simp add: session_none_def)
    then have c': "c' = ?c1" using st d(1) dur(3) by (simp add: service_start_def Let_def)
    have "pub_follows ?c1" using True pub_init_inv by (auto simp: pub_follows_def newest_describes_def)
    moreover have "db_follows ?c1" using inv1 l(2) by (auto simp: db_follows_def)
    ultimately show ?thesis using dur c' by (simp add: service_inv_def state_durable_def)
  next
    case False
    have new: "times_ok ?s" "ses_id ?s \<noteq> []" using False dur times_ok_below inv_none_iff by auto
    have stat: "ses_status ?s \<noteq> ''none''" using False inv_status_none[OF dur(1)] by simp
    with st d(1) dur(3) obtain b d2
      where rec: "db_record clk out file_ok (session_to_dict clk ?s) ?d1 = (Inr b, d2)"
        and c': "c' = republish_current clk (?c1\<lparr>ct_db := d2\<rparr>)"
      by (auto simp: service_start_def Let_def split: prod.splits sum.splits)
    have "sdb_inv (d2, latest(ses_id ?s \<mapsto> ?s))"
      using record_latest[OF inv1 dur(1) new _ rec] g conn by auto
    then have "db_follows c'" using stat by (auto simp: db_follows_def c' republish_current_def)
    moreover have "pub_follows c'"
      unfolding pub_follows_def c' republish_current_def
      using pub_step_newest_inv[OF pub_init_inv, of "Submit (payload None clk ?s)"] stat False
      by (auto simp: describes_def payload_def newest_describes_def)
    ultimately show ?thesis using dur stat by (simp add: service_inv_def state_durable_def c' republish_current_def)
  qed
qed

lemma service_step_inv: "service_inv c \<Longrightarrow> service_guard x c \<Longrightarrow> service_inv (service_step x c)"
proof (cases x)
  case (Restart clk reachable out file_ok)
  assume "service_inv c" "service_guard x c"
  with Restart service_start_inv[of c clk reachable out file_ok] show ?thesis by (auto split: sum.split)
qed (simp_all add: service_act_inv service_pub_inv service_db_inv queue_flush_inv connect_sdb_inv)

interpretation svc: guarded_machine service_step service_guard service_inv
  by unfold_locales (rule service_step_inv)

definition new_service :: "string \<Rightarrow> race_db \<Rightarrow> string \<Rightarrow> controller" where
  "new_service vehicle db track = \<lparr>ct_state = session_none, ct_file = Missing, ct_db = fresh_database vehicle db,
     ct_pub = sender_init, ct_default_track = track\<rparr>"

lemma new_service_inv: "service_inv (new_service vehicle db track)"
proof -
  have "state_durable (new_service vehicle db track)"
    by (simp add: new_service_def state_durable_def session_inv_def state_load_def times_below_def session_none_def MAX_TIME_def)
  moreover have "db_follows (new_service vehicle db track)"
    using fresh_inv[of vehicle db] by (auto simp: db_follows_def new_service_def session_none_def)
  moreover have "pub_follows (new_service vehicle db track)"
    using pub_init_inv by (auto simp: pub_follows_def newest_describes_def new_service_def)
  ultimately show ?thesis by (simp add: service_inv_def)
qed


definition wit_start_body :: "(string \<times> json) list" where
  "wit_start_body = [(''session_type'', JStr ''race''), (''driver'', JStr ''Ann'')]"

definition wit_service :: controller where
  "wit_service = fold service_step [Act wit_act_env ''start'' wit_start_body, DbConnect True] (new_service ''car'' empty_race_db ''Spa'')"

lemma wit_started:
  "ct_state wit_service = \<lparr>ses_id = ''20260101-0000-ab-race'', ses_type = ''race'', ses_driver = ''Ann'', ses_track = ''Spa'', ses_car = [],
     ses_stint_number = 1, ses_start_ms = 9000, ses_stint_start_ms = 9000, ses_status = ''active'', ses_stints = []\<rparr>"
proof -
  have t: "lower (strip ''race'') = ''race''" "strip ''Ann'' = ''Ann''" "strip ''Spa'' = ''Spa''" "strip [] = []"
    by code_simp+
  let ?s = "\<lparr>ses_id = ''20260101-0000-ab-race'', ses_type = ''race'', ses_driver = ''Ann'', ses_track = ''Spa'', ses_car = [],
     ses_stint_number = 1, ses_start_ms = 9000, ses_stint_start_ms = 9000, ses_status = ''active'', ses_stints = []\<rparr>"
  have start: "start_session (ae_stamp wit_act_env) (ae_uid wit_act_env) ''race'' ''Ann'' ''Spa'' [] 9000 session_none = (Inr (payload (Some 9000) 9000 ?s), ?s)"
    by (simp add: start_session_def session_none_def Let_def t SESSION_TYPES_def wit_act_env_def)
  have "session_inv ?s"
    using start_session_inv[of session_none "ae_stamp wit_act_env" 9000 "ae_uid wit_act_env" "''race''" "''Ann''" "''Spa''" "[]"] start
    by (simp add: session_inv_def stamp_ok_def wit_act_env_def is_space_def)
  note rt = session_from_to_dict[OF this]
  have clk: "ae_clk wit_act_env = 9000" "ae_save_ok wit_act_env" "ae_record wit_act_env = Answered Unreachable True" by (simp_all add: wit_act_env_def)
  have "act_transition wit_act_env ''Spa'' ''start'' wit_start_body None 9000 session_none = (Inr (payload (Some 9000) 9000 ?s), ?s)"
    using start by (simp add: act_transition_def wit_start_body_def jget_def)
  then show ?thesis
    by (simp add: wit_service_def act_def act_at_def act_persist_def state_save_def record_result_def db_record_def clk rt
        queue_snapshot_ok new_service_def fresh_database_def jget_def Let_def wit_start_body_def)
qed


end
