(* ===== verification/Session_Http.thy ===== *)
theory Session_Http
  imports Session_Control
begin

text \<open>
  \<^verbatim>\<open>src/pit/session_control/service.py\<close>: the HTTP side, from the request line and headers to the
  controller's call and the status that answers it, and the cap on request workers.

  Headers are an association list looked up without regard to case. \<open>rq_body\<close> is what reading and decoding
  the announced number of bytes gives: a socket timeout, an exception of \<open>json.loads\<close> or a value.
  Text is converted to numbers by the \<open>text_conv\<close> argument. A reply of \<open>NoReply\<close> is an exception that
  escapes the handler: the connection closes without an answer.
\<close>

section \<open>Requests and replies\<close>

datatype body_read = BodyTimeout | BodyValue "json res"

record http_request =
  rq_path :: string
  rq_headers :: "(string \<times> string) list"
  rq_body :: body_read

datatype http_body =
    Payload jdict
  | PlanReply "(string \<times> (int \<times> race_plan) option) option"
  | PlanSaved "string \<times> int \<times> race_plan"
  | StrategyReply "(string \<times> json option) option"
  | RosterReply roster
  | HealthReply bool nat nat bool nat nat nat
  | Static string string
  | Received nat
  | ErrorText string

datatype http_reply = Reply int http_body | NoReply exn

fun reply_status :: "http_reply \<Rightarrow> int" where
  "reply_status (Reply n _) = n"
| "reply_status (NoReply _) = 0"

definition header :: "http_request \<Rightarrow> string \<Rightarrow> string option" where
  "header rq name = map_of (map (\<lambda>(k, v). (lower k, v)) (rq_headers rq)) (lower name)"

definition header_or_empty :: "http_request \<Rightarrow> string \<Rightarrow> string" where
  "header_or_empty rq name = (case header rq name of None \<Rightarrow> [] | Some v \<Rightarrow> v)"

definition request_path :: "http_request \<Rightarrow> string" where
  "request_path rq = takeWhile (\<lambda>ch. ch \<noteq> CHR ''?'') (rq_path rq)"

definition strip_slashes :: "string \<Rightarrow> string" where
  "strip_slashes s = rev (dropWhile (\<lambda>ch. ch = CHR ''/'') (rev (dropWhile (\<lambda>ch. ch = CHR ''/'') s)))"

definition path_parts :: "string \<Rightarrow> string list" where
  "path_parts path = split_char CHR ''/'' (strip_slashes path)"

definition STATIC_FILES :: "(string \<times> string \<times> string) list" where
  "STATIC_FILES = [(''/'', ''index.html'', ''text/html; charset=utf-8''), (''/app.js'', ''app.js'', ''text/javascript; charset=utf-8''),
     (''/style.css'', ''style.css'', ''text/css; charset=utf-8'')]"

definition MAX_REQUEST_BODY_BYTES :: int where "MAX_REQUEST_BODY_BYTES = 64 * 1024"

section \<open>Guards\<close>

text \<open>\<open>secrets.compare_digest\<close> compares ASCII strings and raises \<open>TypeError\<close> for any other.\<close>

definition ascii_only :: "string \<Rightarrow> bool" where
  "ascii_only s \<longleftrightarrow> (\<forall>ch \<in> set s. (of_char ch :: nat) < 128)"

definition compare_digest :: "string \<Rightarrow> string \<Rightarrow> bool res" where
  "compare_digest a b = (if ascii_only a \<and> ascii_only b then Inr (a = b) else Inl TypeError)"

text \<open>A guard passes, answers the request itself, or raises.\<close>

definition authorized :: "string option \<Rightarrow> http_request \<Rightarrow> http_reply option" where
  [op_defs]: "authorized api_key rq = (case api_key of
     None \<Rightarrow> None
   | Some key \<Rightarrow>
       (case compare_digest (header_or_empty rq ''Authorization'') (''Bearer '' @ key) of
          Inl e \<Rightarrow> Some (NoReply e)
        | Inr True \<Rightarrow> None
        | Inr False \<Rightarrow> Some (Reply 401 (ErrorText ''authentication required''))))"

definition same_origin :: "http_request \<Rightarrow> string \<Rightarrow> bool" where
  "same_origin rq origin =
     (let host = strip (header_or_empty rq ''Host'') in host \<noteq> [] \<and> lower (strip origin) = ''http://'' @ lower host)"

definition origin_permitted :: "http_request \<Rightarrow> http_reply option" where
  [op_defs]: "origin_permitted rq = (case header rq ''Origin'' of
     None \<Rightarrow> None
   | Some origin \<Rightarrow> if same_origin rq origin then None else Some (Reply 403 (ErrorText ''cross-origin request denied'')))"

text \<open>\<open>get_content_type\<close>: the part before the first semicolon, in lower case, or \<open>text/plain\<close> when the header is
  missing or does not have exactly one slash.\<close>

definition content_type :: "http_request \<Rightarrow> string" where
  "content_type rq = (case header rq ''Content-Type'' of
     None \<Rightarrow> ''text/plain''
   | Some v \<Rightarrow>
       (let t = lower (strip (takeWhile (\<lambda>ch. ch \<noteq> CHR '';'') v))
        in if length (filter (\<lambda>ch. ch = CHR ''/'') t) = 1 then t else ''text/plain''))"

definition content_length :: "text_conv \<Rightarrow> http_request \<Rightarrow> int res" where
  "content_length tc rq = (case header rq ''Content-Length'' of None \<Rightarrow> Inr 0 | Some v \<Rightarrow> py_int tc (JStr v))"

text \<open>\<open>_read_json_body\<close>; the decoded value of an empty body is an empty object.\<close>

fun decode_body :: "body_read \<Rightarrow> http_reply + jdict" where
  "decode_body BodyTimeout = Inl (Reply 408 (ErrorText ''request body timeout''))"
| "decode_body (BodyValue (Inl e)) =
     (if e \<in> {TypeError, ValueError} then Inl (Reply 400 (ErrorText ''invalid JSON body'')) else Inl (NoReply e))"
| "decode_body (BodyValue (Inr (JDict d))) = Inr d"
| "decode_body (BodyValue (Inr _)) = Inl (Reply 400 (ErrorText ''invalid JSON body''))"

definition read_sized_body :: "int \<Rightarrow> http_request \<Rightarrow> http_reply + jdict" where
  "read_sized_body n rq =
     (if n < 0 then Inl (Reply 400 (ErrorText ''invalid Content-Length''))
      else if MAX_REQUEST_BODY_BYTES < n then Inl (Reply 413 (ErrorText ''request body too large''))
      else if n \<noteq> 0 \<and> content_type rq \<noteq> ''application/json''
      then Inl (Reply 415 (ErrorText ''Content-Type must be application/json''))
      else if n = 0 then Inr [] else decode_body (rq_body rq))"

definition read_json_body :: "text_conv \<Rightarrow> http_request \<Rightarrow> http_reply + jdict" where
  [op_defs]: "read_json_body tc rq =
     (if header_or_empty rq ''Transfer-Encoding'' \<noteq> [] then Inl (Reply 400 (ErrorText ''Transfer-Encoding is not supported''))
      else case content_length tc rq of
          Inl e \<Rightarrow> Inl (Reply 400 (ErrorText ''invalid JSON body''))
        | Inr n \<Rightarrow> read_sized_body n rq)"

section \<open>Alert notifications\<close>

definition MAX_LOGGED_ALERTS :: nat where "MAX_LOGGED_ALERTS = 20"
definition MAX_ALERT_NAME_CHARS :: nat where "MAX_ALERT_NAME_CHARS = 120"

fun nonempty_or :: "json \<Rightarrow> string \<Rightarrow> string" where
  "nonempty_or (JStr s) other = (if s = [] then other else s)"
| "nonempty_or _ other = other"

text \<open>One line of the log: whether it is a warning, the alert's name and its status.\<close>

fun alert_line :: "json \<Rightarrow> (bool \<times> string \<times> string) list" where
  "alert_line (JDict alert) =
     (let name = nonempty_or (case jget alert ''labels'' of JDict labels \<Rightarrow> jget labels ''alertname'' | _ \<Rightarrow> JNull) ''unnamed'';
          status = nonempty_or (jget alert ''status'') ''unknown''
      in [(status = ''firing'', take MAX_ALERT_NAME_CHARS name, take 32 status)])"
| "alert_line _ = []"

definition log_grafana_alerts :: "jdict \<Rightarrow> (bool \<times> string \<times> string) list" where
  [op_defs]: "log_grafana_alerts p = (case jget p ''alerts'' of
     JList alerts \<Rightarrow> concat (map alert_line (take MAX_LOGGED_ALERTS alerts))
   | _ \<Rightarrow> [])"

section \<open>Handlers\<close>

text \<open>The status for an exception of the controller.\<close>

definition error_reply :: "exn \<Rightarrow> http_reply" where
  "error_reply e =
     (if e = PlanError then Reply 400 (ErrorText ''plan'')
      else if e \<in> {SessionPersistenceError, PlanUnavailable} then Reply 503 (ErrorText ''unavailable'')
      else if e = SessionError then Reply 409 (ErrorText ''session'')
      else Reply 500 (ErrorText ''internal server error''))"

fun act_reply :: "act_result \<Rightarrow> http_reply" where
  "act_reply (Acted p) = Reply 200 (Payload p)"
| "act_reply (Raised e) = error_reply e"
| "act_reply Cancelled = Reply 503 (ErrorText ''service busy'')"

text \<open>What the environment decides for one request; no plan outcome is a call that timed out.\<close>

record post_env =
  pe_act :: act_env
  pe_plan :: "outcome option"

definition post_plan :: "outcome option \<Rightarrow> jdict \<Rightarrow> controller \<Rightarrow> http_reply \<times> controller" where
  "post_plan out body c = (case out of
     None \<Rightarrow> (Reply 503 (ErrorText ''service busy''), c)
   | Some o1 \<Rightarrow>
       (case plan_set o1 body c of
          (Inl e, c1) \<Rightarrow> (error_reply e, c1)
        | (Inr saved, c1) \<Rightarrow> (Reply 200 (PlanSaved saved), c1)))"

text \<open>The guards of a session request, one after the other.\<close>

definition post_session :: "text_conv \<Rightarrow> string option \<Rightarrow> post_env \<Rightarrow> http_request \<Rightarrow> string \<Rightarrow> controller \<Rightarrow> http_reply \<times> controller" where
  "post_session tc api_key env rq action c = (case authorized api_key rq of
     Some r \<Rightarrow> (r, c)
   | None \<Rightarrow>
       (case origin_permitted rq of
          Some r \<Rightarrow> (r, c)
        | None \<Rightarrow>
            (case read_json_body tc rq of
               Inl r \<Rightarrow> (r, c)
             | Inr decoded \<Rightarrow>
                 if action = ''plan'' then post_plan (pe_plan env) decoded c
                 else case act (pe_act env) action decoded c of (r, c1) \<Rightarrow> (act_reply r, c1))))"

definition do_POST :: "text_conv \<Rightarrow> string option \<Rightarrow> post_env \<Rightarrow> http_request \<Rightarrow> controller \<Rightarrow> http_reply \<times> controller" where
  [op_defs]: "do_POST tc api_key env rq c =
     (let path = request_path rq; parts = path_parts path in
      if path = ''/grafana-alerts'' then
        (case origin_permitted rq of
           Some r \<Rightarrow> (r, c)
         | None \<Rightarrow>
             (case read_json_body tc rq of
                Inl r \<Rightarrow> (r, c)
              | Inr decoded \<Rightarrow> (Reply 200 (Received (length (log_grafana_alerts decoded))), c)))
      else case parts of
          [first, action] \<Rightarrow>
            if first \<noteq> ''session'' then (Reply 404 (ErrorText ''not found''), c) else post_session tc api_key env rq action c
        | _ \<Rightarrow> (Reply 404 (ErrorText ''not found''), c))"

definition health_payload :: "controller \<Rightarrow> http_body" where
  "health_payload c = HealthReply (sdb_connected (ct_db c)) (sdb_errors (ct_db c)) (length (sdb_pending (ct_db c)))
     (sp_connected (ct_pub c)) (sp_errors (ct_pub c)) (if sp_pending (ct_pub c) = None then 0 else 1) (sp_published (ct_pub c))"

text \<open>\<open>load_strategy\<close> reads the view the strategy service fills, an argument here.\<close>

definition load_strategy :: "(string \<Rightarrow> json option) \<Rightarrow> outcome \<Rightarrow> string \<Rightarrow> session_database \<Rightarrow> json option res \<times> session_database" where
  [op_defs]: "load_strategy view out sid d =
     (if \<not> sdb_connected d then (Inl PlanUnavailable, d)
      else case out of
          Committed \<Rightarrow> (Inr (view sid), d)
        | Rejected \<Rightarrow> (Inl PsycopgError, d)
        | _ \<Rightarrow> (Inl PlanUnavailable, drop_connection (d\<lparr>sdb_errors := sdb_errors d + 1\<rparr>)))"

definition strategy_get :: "(string \<Rightarrow> json option) \<Rightarrow> outcome \<Rightarrow> controller \<Rightarrow> (string \<times> json option) option res \<times> controller" where
  [op_defs]: "strategy_get view out c =
     (if current_id c = [] then (Inr None, c)
      else case load_strategy view out (current_id c) (ct_db c) of
          (Inl e, d) \<Rightarrow> (Inl e, c\<lparr>ct_db := d\<rparr>)
        | (Inr v, d) \<Rightarrow> (Inr (Some (current_id c, v)), c\<lparr>ct_db := d\<rparr>))"

text \<open>Of the exceptions of a read only \<open>PlanUnavailable\<close> and the timeout are answered.\<close>

definition read_reply :: "('a \<Rightarrow> http_body) \<Rightarrow> 'a res \<Rightarrow> http_reply" where
  "read_reply f r = (case r of
     Inr v \<Rightarrow> Reply 200 (f v)
   | Inl e \<Rightarrow> if e = PlanUnavailable then Reply 503 (ErrorText ''unavailable'') else NoReply e)"

record get_env =
  ge_clk :: int
  ge_roster :: text_file
  ge_view :: "string \<Rightarrow> json option"
  ge_out :: "outcome option"
  ge_asset_ok :: bool

definition get_route :: "get_env \<Rightarrow> string \<Rightarrow> controller \<Rightarrow> http_reply \<times> controller" where
  "get_route env path c =
     (if path = ''/session'' then
        ((if ge_out env = None then Reply 503 (ErrorText ''service busy'') else Reply 200 (Payload (current (ge_clk env) c))), c)
      else if path = ''/roster'' then
        ((case load_roster (ge_roster env) of Inl e \<Rightarrow> NoReply e | Inr r \<Rightarrow> Reply 200 (RosterReply r)), c)
      else if path \<in> {''/session/plan'', ''/session/strategy''} then
        (case ge_out env of
           None \<Rightarrow> (Reply 503 (ErrorText ''service busy''), c)
         | Some out \<Rightarrow>
             if path = ''/session/plan'' then (case plan_get out c of (r, c1) \<Rightarrow> (read_reply PlanReply r, c1))
             else (case strategy_get (ge_view env) out c of (r, c1) \<Rightarrow> (read_reply StrategyReply r, c1)))
      else (Reply 404 (ErrorText ''not found''), c))"

definition do_GET :: "string option \<Rightarrow> get_env \<Rightarrow> http_request \<Rightarrow> controller \<Rightarrow> http_reply \<times> controller" where
  [op_defs]: "do_GET api_key env rq c =
     (let path = request_path rq in
      if path = ''/health'' then (Reply 200 (health_payload c), c)
      else case map_of STATIC_FILES path of
          Some (filename, ctype) \<Rightarrow>
            ((if ge_asset_ok env then Reply 200 (Static filename ctype) else Reply 500 (ErrorText ''internal server error'')), c)
        | None \<Rightarrow> (case authorized api_key rq of Some r \<Rightarrow> (r, c) | None \<Rightarrow> get_route env path c))"

section \<open>Request workers\<close>

record http_server =
  hs_max :: nat
  hs_free :: nat
  hs_running :: nat
  hs_refused :: nat

definition MAX_HTTP_WORKERS :: nat where "MAX_HTTP_WORKERS = 32"

definition server_new :: "nat \<Rightarrow> http_server" where
  "server_new n = \<lparr>hs_max = n, hs_free = n, hs_running = 0, hs_refused = 0\<rparr>"

text \<open>\<open>process_request\<close>: without a free slot the request is refused with 503; otherwise a thread is started for
  it, which may fail. The thread's end gives its slot back.\<close>

datatype server_op = Request bool | Finished

fun server_step :: "server_op \<Rightarrow> http_server \<Rightarrow> http_server" where
  "server_step (Request starts) h =
     (if hs_free h = 0 then h\<lparr>hs_refused := hs_refused h + 1\<rparr>
      else h\<lparr>hs_free := hs_free h - 1, hs_running := (if starts then hs_running h + 1 else hs_running h)\<rparr>)"
| "server_step Finished h = (if hs_running h = 0 then h else h\<lparr>hs_free := hs_free h + 1, hs_running := hs_running h - 1\<rparr>)"

section \<open>Only permitted requests reach the controller\<close>

lemma authorized_None: "authorized (Some key) rq = None \<longleftrightarrow>
    header_or_empty rq ''Authorization'' = ''Bearer '' @ key \<and> ascii_only key"
proof -
  have "ascii_only (''Bearer '' @ key) \<longleftrightarrow> ascii_only key" by (simp add: ascii_only_def)
  then show ?thesis by (auto simp: authorized_def compare_digest_def split: bool.splits)
qed

lemma origin_permitted_None: "origin_permitted rq = None \<longleftrightarrow> (\<forall>origin. header rq ''Origin'' = Some origin \<longrightarrow> same_origin rq origin)"
  by (auto simp: origin_permitted_def split: option.splits)

lemma decode_body_cases: "case decode_body b of Inl r \<Rightarrow> reply_status r \<noteq> 200 | Inr d \<Rightarrow> b = BodyValue (Inr (JDict d))"
  by (cases b rule: decode_body.cases) simp_all

definition body_bounded :: "int \<Rightarrow> http_request \<Rightarrow> jdict \<Rightarrow> bool" where
  "body_bounded n rq d \<longleftrightarrow> 0 \<le> n \<and> n \<le> MAX_REQUEST_BODY_BYTES
     \<and> (if n = 0 then d = [] else content_type rq = ''application/json'' \<and> rq_body rq = BodyValue (Inr (JDict d)))"

lemma read_sized_cases: "case read_sized_body n rq of Inl r \<Rightarrow> reply_status r \<noteq> 200 | Inr d \<Rightarrow> body_bounded n rq d"
  using decode_body_cases[of "rq_body rq"] by (simp add: read_sized_body_def body_bounded_def split: sum.splits)

lemma read_json_cases:
  "case read_json_body tc rq of
     Inl r \<Rightarrow> reply_status r \<noteq> 200
   | Inr d \<Rightarrow> \<exists>n. content_length tc rq = Inr n \<and> body_bounded n rq d"
proof (cases "content_length tc rq")
  case (Inr n)
  with read_sized_cases[of n rq] show ?thesis by (simp add: read_json_body_def split: sum.splits)
qed (simp add: read_json_body_def)

lemma refusals:
  "authorized api_key rq = Some r \<Longrightarrow> reply_status r \<noteq> 200" "origin_permitted rq = Some r \<Longrightarrow> reply_status r \<noteq> 200"
  "read_json_body tc rq = Inl r \<Longrightarrow> reply_status r \<noteq> 200"
  using read_json_cases[of tc rq]
  by (auto simp: authorized_def origin_permitted_def split: option.splits sum.splits bool.splits if_splits)

lemma post_session_cases:
  assumes "post_session tc api_key env rq action c = (r, c')"
  shows "c' = c \<and> reply_status r \<noteq> 200
    \<or> (\<exists>decoded. authorized api_key rq = None \<and> origin_permitted rq = None \<and> read_json_body tc rq = Inr decoded
         \<and> (if action = ''plan'' then post_plan (pe_plan env) decoded c = (r, c')
            else \<exists>q. act (pe_act env) action decoded c = (q, c') \<and> r = act_reply q))"
  using assms refusals(1)[of api_key rq r] refusals(2)[of rq r] refusals(3)[of tc rq r]
  by (simp add: post_session_def split: option.splits sum.splits prod.splits) auto

lemma post_cases:
  assumes "do_POST tc api_key env rq c = (r, c')"
  shows "c' = c \<and> (reply_status r = 200 \<longrightarrow> request_path rq = ''/grafana-alerts'')
    \<or> (\<exists>action. path_parts (request_path rq) = [''session'', action] \<and> post_session tc api_key env rq action c = (r, c'))"
proof (cases "request_path rq = ''/grafana-alerts''")
  case True
  then have "c' = c" using assms by (auto simp: do_POST_def Let_def split: option.splits sum.splits)
  with True show ?thesis by simp
next
  case False
  then have "(case path_parts (request_path rq) of
      [first, action] \<Rightarrow> if first \<noteq> ''session'' then (Reply 404 (ErrorText ''not found''), c) else post_session tc api_key env rq action c
    | _ \<Rightarrow> (Reply 404 (ErrorText ''not found''), c)) = (r, c')"
    using assms unfolding do_POST_def Let_def by (simp only: if_False)
  then show ?thesis by (auto split: list.splits if_splits)
qed

lemma post_plan_cases: "post_plan out d c = (r, c') \<Longrightarrow> c' = c \<or> (\<exists>o1. c' = snd (plan_set o1 d c))"
proof (cases out)
  case (Some o1)
  assume "post_plan out d c = (r, c')"
  with Some have "c' = snd (plan_set o1 d c)" by (cases "plan_set o1 d c") (auto simp: post_plan_def split: sum.splits)
  then show ?thesis by blast
qed (simp add: post_plan_def)

text \<open>
  C24. A request changes something only when it is allowed to. If a POST changes the service at all, its path is a session action,
  it carries the operator key when one is set, its \<open>Origin\<close> is absent or exactly this host's, its
  body is a JSON object of at most 64 KiB, and what changed is exactly what the controller's action or plan call does with that body.
\<close>
theorem post_protected:
  assumes "do_POST tc api_key env rq c = (r, c')" and "c' \<noteq> c"
  shows "\<exists>action d n. path_parts (request_path rq) = [''session'', action]
    \<and> (case api_key of None \<Rightarrow> True | Some key \<Rightarrow> header_or_empty rq ''Authorization'' = ''Bearer '' @ key)
    \<and> (\<forall>origin. header rq ''Origin'' = Some origin \<longrightarrow> same_origin rq origin)
    \<and> content_length tc rq = Inr n \<and> body_bounded n rq d
    \<and> (if action = ''plan'' then \<exists>out. c' = snd (plan_set out d c) else c' = snd (act (pe_act env) action d c))"
proof -
  obtain action where path: "path_parts (request_path rq) = [''session'', action]" and post: "post_session tc api_key env rq action c = (r, c')"
    using post_cases[OF assms(1)] assms(2) by blast
  obtain d where d: "authorized api_key rq = None" "origin_permitted rq = None" "read_json_body tc rq = Inr d"
      "if action = ''plan'' then post_plan (pe_plan env) d c = (r, c') else \<exists>q. act (pe_act env) action d c = (q, c') \<and> r = act_reply q"
    using post_session_cases[OF post] assms(2) by blast
  obtain n where n: "content_length tc rq = Inr n" "body_bounded n rq d" using read_json_cases[of tc rq] d(3) by auto
  have "case api_key of None \<Rightarrow> True | Some key \<Rightarrow> header_or_empty rq ''Authorization'' = ''Bearer '' @ key"
    using d(1) authorized_None by (cases api_key) auto
  moreover have "if action = ''plan'' then \<exists>out. c' = snd (plan_set out d c) else c' = snd (act (pe_act env) action d c)"
    using d(4) assms(2) post_plan_cases[of "pe_plan env" d c r c'] by (cases "action = ''plan''") auto
  ultimately show ?thesis using path n d(2) origin_permitted_None by blast
qed

lemma act_result_cases:
  assumes "session_inv (ct_state c)" and "state_load (ct_file c) = Inr (ct_state c)" and "stamp_ok (ae_stamp env)"
    and "0 \<le> ae_clk env" and "act env action body c = (q, c')"
  shows "case q of
      Acted p \<Rightarrow> state_load (ct_file c') = Inr (ct_state c') \<and> describes (ct_state c') p \<and> sp_pending (ct_pub c') = Some p
    | Raised e \<Rightarrow> ct_state c' = ct_state c \<and> ct_pub c' = ct_pub c
    | Cancelled \<Rightarrow> ae_record env = RecordCancelled"
  using act_cases[OF assms(1,3,4,5)]
proof (elim disjE exE conjE)
  fix s1 t
  assume s1: "session_inv s1"
    and per: "act_persist env (session_to_dict (ae_clk env) (ct_state c)) (payload (Some t) t s1) (c\<lparr>ct_state := s1\<rparr>) = (q, c')"
  from act_persist_cases[OF assms(1) _ per] s1 show ?thesis by (auto simp: describes_def submit_state_def)
qed auto

lemma error_reply_status: "reply_status (error_reply e) \<noteq> 200"
  by (simp add: error_reply_def)

text \<open>
  The status is truthful. A session action that is answered 200 is on disk and is what the publisher sends next; one that is
  answered with anything else left the state and the publisher as they were, unless the answer is the
  503 of a call that was given up while the database was busy.
\<close>
theorem post_status_truthful:
  assumes "session_inv (ct_state c)" and "state_load (ct_file c) = Inr (ct_state c)" and "stamp_ok (ae_stamp (pe_act env))"
    and "0 \<le> ae_clk (pe_act env)" and "path_parts (request_path rq) = [''session'', action]" and "action \<noteq> ''plan''"
    and "do_POST tc api_key env rq c = (r, c')"
  shows "if reply_status r = 200
    then \<exists>p. r = Reply 200 (Payload p) \<and> describes (ct_state c') p \<and> state_load (ct_file c') = Inr (ct_state c')
      \<and> sp_pending (ct_pub c') = Some p
    else ct_state c' = ct_state c \<and> ct_pub c' = ct_pub c \<or> ae_record (pe_act env) = RecordCancelled \<and> reply_status r = 503"
proof (cases "c' = c \<and> reply_status r \<noteq> 200")
  case False
  have "strip_slashes ''/grafana-alerts'' = ''grafana-alerts''" by code_simp
  then have "path_parts ''/grafana-alerts'' = [''grafana-alerts'']" by (simp add: path_parts_def)
  with assms(5) have "request_path rq \<noteq> ''/grafana-alerts''" by auto
  with post_cases[OF assms(7)] False assms(5) have "post_session tc api_key env rq action c = (r, c')" by auto
  from post_session_cases[OF this] False assms(6) obtain d q where q: "act (pe_act env) action d c = (q, c')" "r = act_reply q" by auto
  from act_result_cases[OF assms(1-4) q(1)] q(2) show ?thesis
    by (cases q) (simp_all add: error_reply_status)
qed simp

definition wit_request :: http_request where
  "wit_request = \<lparr>rq_path = ''/session/end?x'', rq_headers = [(''host'', ''pit:8080''), (''Origin'', ''http://PIT:8080''), (''authorization'', ''Bearer key'')],
     rq_body = BodyTimeout\<rparr>"

definition wit_post_env :: post_env where
  "wit_post_env = \<lparr>pe_act = wit_act_env, pe_plan = None\<rparr>"

lemma wit_request_facts:
  "request_path wit_request = ''/session/end''" "path_parts ''/session/end'' = [''session'', ''end'']"
  "authorized (Some ''key'') wit_request = None" "origin_permitted wit_request = None" "read_json_body tc wit_request = Inr []"
proof -
  show "request_path wit_request = ''/session/end''" by (simp add: request_path_def wit_request_def)
  show "path_parts ''/session/end'' = [''session'', ''end'']" by code_simp
  have h: "lower ''host'' = ''host''" "lower ''Host'' = ''host''" "lower ''Origin'' = ''origin''" "lower ''authorization'' = ''authorization''"
      "lower ''Authorization'' = ''authorization''" "lower ''Transfer-Encoding'' = ''transfer-encoding''" "lower ''Content-Length'' = ''content-length''"
    by code_simp+
  have o: "lower (strip ''http://PIT:8080'') = ''http://pit:8080''" "strip ''pit:8080'' = ''pit:8080''" "lower ''pit:8080'' = ''pit:8080''"
    by code_simp+
  show "authorized (Some ''key'') wit_request = None"
    by (simp add: authorized_None header_or_empty_def header_def wit_request_def h ascii_only_def)
  show "origin_permitted wit_request = None"
    by (simp add: origin_permitted_def same_origin_def header_or_empty_def header_def wit_request_def h o Let_def)
  show "read_json_body tc wit_request = Inr []"
    by (simp add: read_json_body_def content_length_def read_sized_body_def header_or_empty_def header_def wit_request_def h MAX_REQUEST_BODY_BYTES_def)
qed

lemma wit_post:
  "\<exists>c'. do_POST tc (Some ''key'') wit_post_env wit_request wit_controller = (Reply 200 (Payload (payload (Some 9000) 9000 wit_over)), c')
     \<and> ct_state c' = wit_over"
  using wit_act by (auto simp: do_POST_def post_session_def wit_request_facts wit_post_env_def Let_def)

theorem post_protected_witness:
  "\<forall>tc. \<exists>r c' n d. do_POST tc (Some ''key'') wit_post_env wit_request wit_controller = (r, c') \<and> content_length tc wit_request = Inr n
     \<and> body_bounded n wit_request d"
proof
  fix tc
  obtain c' where c': "do_POST tc (Some ''key'') wit_post_env wit_request wit_controller = (Reply 200 (Payload (payload (Some 9000) 9000 wit_over)), c')"
      "ct_state c' = wit_over" using wit_post by blast
  then have "c' \<noteq> wit_controller" by (auto simp: wit_controller_def wit_running_def wit_over_def)
  from post_protected[OF c'(1) this] c'(1)
  show "\<exists>r c' n d. do_POST tc (Some ''key'') wit_post_env wit_request wit_controller = (r, c') \<and> content_length tc wit_request = Inr n
     \<and> body_bounded n wit_request d" by blast
qed

theorem post_status_truthful_witness:
  "\<forall>tc. \<exists>c'. do_POST tc (Some ''key'') wit_post_env wit_request wit_controller = (Reply 200 (Payload (payload (Some 9000) 9000 wit_over)), c')
     \<and> state_load (ct_file c') = Inr wit_over"
proof
  fix tc
  obtain c' where c': "do_POST tc (Some ''key'') wit_post_env wit_request wit_controller = (Reply 200 (Payload (payload (Some 9000) 9000 wit_over)), c')"
      "ct_state c' = wit_over" using wit_post by blast
  have "session_inv wit_running" using wit_sessions_ok by (simp add: session_inv_def)
  moreover have "stamp_ok (ae_stamp (pe_act wit_post_env))" by (simp add: stamp_ok_def wit_post_env_def wit_act_env_def is_space_def)
  moreover have "path_parts (request_path wit_request) = [''session'', ''end'']" by (simp add: wit_request_facts)
  ultimately show "\<exists>c'. do_POST tc (Some ''key'') wit_post_env wit_request wit_controller = (Reply 200 (Payload (payload (Some 9000) 9000 wit_over)), c')
     \<and> state_load (ct_file c') = Inr wit_over"
    using post_status_truthful[OF _ _ _ _ _ _ c'(1)] c' by (simp add: wit_controller_def state_load_saved wit_post_env_def wit_act_env_def)
qed

section \<open>Reads\<close>

lemma load_plan_tables: "load_plan out sid d = (r, d') \<Longrightarrow> sdb_tables d' = sdb_tables d \<and> sdb_pending d' = sdb_pending d"
  by (auto simp: load_plan_def drop_connection_def split: if_splits outcome.splits)

lemma load_strategy_tables: "load_strategy view out sid d = (r, d') \<Longrightarrow> sdb_tables d' = sdb_tables d \<and> sdb_pending d' = sdb_pending d"
  by (auto simp: load_strategy_def drop_connection_def split: if_splits outcome.splits)

definition same_session :: "controller \<Rightarrow> controller \<Rightarrow> bool" where
  "same_session c c' \<longleftrightarrow> ct_state c' = ct_state c \<and> ct_file c' = ct_file c \<and> ct_pub c' = ct_pub c
     \<and> sdb_tables (ct_db c') = sdb_tables (ct_db c) \<and> sdb_pending (ct_db c') = sdb_pending (ct_db c)"

lemma same_session_refl: "same_session c c"
  by (simp add: same_session_def)

lemma read_calls_same:
  "same_session c (snd (plan_get out c))" "same_session c (snd (strategy_get view out c))"
proof -
  show "same_session c (snd (plan_get out c))"
    using load_plan_tables[of out "current_id c" "ct_db c"]
    by (cases "load_plan out (current_id c) (ct_db c)") (auto simp: plan_get_def same_session_def split: sum.split)
  show "same_session c (snd (strategy_get view out c))"
    using load_strategy_tables[of view out "current_id c" "ct_db c"]
    by (cases "load_strategy view out (current_id c) (ct_db c)") (auto simp: strategy_get_def same_session_def split: sum.split)
qed

lemma get_route_same: "same_session c (snd (get_route env path c))"
proof -
  have "snd (case plan_get out c of (r, c1) \<Rightarrow> (read_reply PlanReply r, c1)) = snd (plan_get out c)"
    "snd (case strategy_get view out c of (r, c1) \<Rightarrow> (read_reply StrategyReply r, c1)) = snd (strategy_get view out c)" for out view
    by (simp_all split: prod.split)
  then show ?thesis by (simp add: get_route_def read_calls_same same_session_refl split: option.split)
qed

lemma not_authorized:
  assumes "header_or_empty rq ''Authorization'' \<noteq> ''Bearer '' @ key"
  shows "authorized (Some key) rq \<in> Some ` {Reply 401 (ErrorText ''authentication required''), NoReply TypeError}"
proof (cases "ascii_only (header_or_empty rq ''Authorization'') \<and> ascii_only (''Bearer '' @ key)")
  case True
  with assms have "compare_digest (header_or_empty rq ''Authorization'') (''Bearer '' @ key) = Inr False" by (simp add: compare_digest_def)
  then show ?thesis by (simp add: authorized_def)
next
  case False
  then have "compare_digest (header_or_empty rq ''Authorization'') (''Bearer '' @ key) = Inl TypeError" by (auto simp: compare_digest_def)
  then show ?thesis by (simp add: authorized_def)
qed

text \<open>
  Reading never writes, and only the liveness counters and the operator page are open: a GET leaves the session, its file, the publisher, the tables
  and the retry queue as they were, and when a key is set and not presented every path other than the
  health page and the three listed files is refused with 401 or dropped.
\<close>
theorem get_reads_only:
  "same_session c (snd (do_GET api_key env rq c))
    \<and> (api_key = Some key \<and> header_or_empty rq ''Authorization'' \<noteq> ''Bearer '' @ key
         \<and> request_path rq \<notin> {''/health'', ''/'', ''/app.js'', ''/style.css''}
       \<longrightarrow> fst (do_GET api_key env rq c) \<in> {Reply 401 (ErrorText ''authentication required''), NoReply TypeError})"
proof
  show "same_session c (snd (do_GET api_key env rq c))"
    using get_route_same[of c env "request_path rq"] by (simp add: do_GET_def Let_def same_session_refl split: option.split prod.split)
  show "api_key = Some key \<and> header_or_empty rq ''Authorization'' \<noteq> ''Bearer '' @ key
         \<and> request_path rq \<notin> {''/health'', ''/'', ''/app.js'', ''/style.css''}
       \<longrightarrow> fst (do_GET api_key env rq c) \<in> {Reply 401 (ErrorText ''authentication required''), NoReply TypeError}"
  proof
    assume a: "api_key = Some key \<and> header_or_empty rq ''Authorization'' \<noteq> ''Bearer '' @ key
         \<and> request_path rq \<notin> {''/health'', ''/'', ''/app.js'', ''/style.css''}"
    then have "map_of STATIC_FILES (request_path rq) = None" by (simp add: STATIC_FILES_def)
    moreover from a obtain r where "authorized api_key rq = Some r" "r \<in> {Reply 401 (ErrorText ''authentication required''), NoReply TypeError}"
      using not_authorized[of rq key] by auto
    ultimately show "fst (do_GET api_key env rq c) \<in> {Reply 401 (ErrorText ''authentication required''), NoReply TypeError}"
      using a by (simp add: do_GET_def Let_def)
  qed
qed

definition wit_get_env :: get_env where
  "wit_get_env = \<lparr>ge_clk = 0, ge_roster = Missing, ge_view = (\<lambda>s. None), ge_out = Some Committed, ge_asset_ok = True\<rparr>"

theorem get_reads_only_witness:
  "fst (do_GET (Some ''other'') wit_get_env (wit_request\<lparr>rq_path := ''/session''\<rparr>) wit_controller)
     \<in> {Reply 401 (ErrorText ''authentication required''), NoReply TypeError}"
proof -
  have h: "lower ''host'' = ''host''" "lower ''Origin'' = ''origin''" "lower ''authorization'' = ''authorization''"
      "lower ''Authorization'' = ''authorization''" by code_simp+
  have "header_or_empty (wit_request\<lparr>rq_path := ''/session''\<rparr>) ''Authorization'' = ''Bearer key''"
    by (simp add: header_or_empty_def header_def wit_request_def h)
  moreover have "request_path (wit_request\<lparr>rq_path := ''/session''\<rparr>) = ''/session''" by (simp add: request_path_def)
  ultimately show ?thesis
    using get_reads_only[of wit_controller "Some ''other''" wit_get_env "wit_request\<lparr>rq_path := ''/session''\<rparr>" "''other''"] by simp
qed

section \<open>Bounds on what a caller can take\<close>

fun thread_starts :: "server_op \<Rightarrow> bool" where
  "thread_starts (Request starts) = starts"
| "thread_starts Finished = True"

definition server_inv :: "http_server \<Rightarrow> bool" where
  [inv_defs]: "server_inv h \<longleftrightarrow> hs_free h + hs_running h \<le> hs_max h"

interpretation workers: step_machine server_step server_inv
proof unfold_locales
  fix h x assume "server_inv h"
  then show "server_inv (server_step x h)" by (cases x) (auto simp: server_inv_def)
qed

lemma server_max: "hs_max (fold server_step ops h) = hs_max h"
proof (induction ops arbitrary: h)
  case (Cons x ops)
  have "hs_max (server_step x h) = hs_max h" by (cases x) auto
  with Cons show ?case by simp
qed simp

lemma server_no_leak:
  "\<forall>x \<in> set ops. thread_starts x \<Longrightarrow> hs_free h + hs_running h = hs_max h \<Longrightarrow>
    hs_free (fold server_step ops h) + hs_running (fold server_step ops h) = hs_max h"
proof (induction ops arbitrary: h)
  case (Cons x ops)
  have "hs_free (server_step x h) + hs_running (server_step x h) = hs_max (server_step x h)" "hs_max (server_step x h) = hs_max h"
    using Cons.prems by (cases x; auto)+
  with Cons show ?case by simp
qed simp

lemma failed_starts: "fold server_step (replicate k (Request False)) (server_new n) = (server_new n)\<lparr>hs_free := n - k, hs_refused := k - n\<rparr>"
proof (induction k)
  case (Suc k)
  have "fold server_step (replicate (Suc k) (Request False)) (server_new n) = server_step (Request False) (fold server_step (replicate k (Request False)) (server_new n))"
    by (simp add: replicate_append_same[symmetric] del: replicate_Suc)
  with Suc show ?case by (auto simp: server_new_def)
qed (simp add: server_new_def)

text \<open>
  At most the configured number of requests is served at a time, and as long as threads can be
  started every slot is either free or in use. A thread that cannot be started keeps its slot: after as many such failures as there are
  slots the server refuses everything, with no request running.
\<close>
theorem workers_bounded:
  "hs_running (fold server_step ops (server_new n)) \<le> n
    \<and> ((\<forall>x \<in> set ops. thread_starts x) \<longrightarrow>
        hs_free (fold server_step ops (server_new n)) + hs_running (fold server_step ops (server_new n)) = n)
    \<and> (let h = fold server_step (replicate n (Request False)) (server_new n)
       in hs_running h = 0 \<and> hs_refused (server_step (Request True) h) = 1 \<and> hs_running (server_step (Request True) h) = 0)"
proof -
  have "server_inv (server_new n)" by (simp add: server_inv_def server_new_def)
  from workers.run_inv[OF this, of ops] have "hs_running (fold server_step ops (server_new n)) \<le> n"
    by (simp add: server_inv_def server_max server_new_def)
  moreover have "(\<forall>x \<in> set ops. thread_starts x) \<longrightarrow>
      hs_free (fold server_step ops (server_new n)) + hs_running (fold server_step ops (server_new n)) = n"
    using server_no_leak[of ops "server_new n"] by (simp add: server_new_def)
  moreover have "let h = fold server_step (replicate n (Request False)) (server_new n)
      in hs_running h = 0 \<and> hs_refused (server_step (Request True) h) = 1 \<and> hs_running (server_step (Request True) h) = 0"
    unfolding failed_starts Let_def by (simp add: server_new_def)
  ultimately show ?thesis by blast
qed

theorem workers_bounded_witness:
  "hs_running (fold server_step [Request True, Request True, Finished] (server_new 1)) \<le> 1
    \<and> hs_free (fold server_step [Request True, Request True, Finished] (server_new 1)) + hs_running (fold server_step [Request True, Request True, Finished] (server_new 1)) = 1"
  using workers_bounded[of "[Request True, Request True, Finished]" 1] by simp

lemma alert_line_bounded: "(w, name, status) \<in> set (alert_line a) \<Longrightarrow> length name \<le> MAX_ALERT_NAME_CHARS \<and> length status \<le> 32"
  by (cases a) (auto simp: Let_def)

lemma alert_lines_length: "length (concat (map alert_line as)) \<le> length as"
proof (induction as)
  case (Cons a as)
  have "length (alert_line a) \<le> 1" by (cases a) (simp_all add: Let_def)
  with Cons show ?case by simp
qed simp

text \<open>
  What an unauthenticated caller can write into the log through the alert webhook is bounded: at most
  twenty lines, each with a name of at most 120 characters and a status of at most 32.
\<close>
theorem alert_log_bounded:
  "length (log_grafana_alerts p) \<le> 20
    \<and> (\<forall>w name status. (w, name, status) \<in> set (log_grafana_alerts p) \<longrightarrow> length name \<le> 120 \<and> length status \<le> 32)"
proof (cases "\<exists>alerts. jget p ''alerts'' = JList alerts")
  case True
  then obtain alerts where "jget p ''alerts'' = JList alerts" by blast
  then have l: "log_grafana_alerts p = concat (map alert_line (take MAX_LOGGED_ALERTS alerts))" by (simp add: log_grafana_alerts_def)
  have "length (log_grafana_alerts p) \<le> 20"
    using alert_lines_length[of "take MAX_LOGGED_ALERTS alerts"] by (simp add: l MAX_LOGGED_ALERTS_def)
  moreover have "length name \<le> 120 \<and> length status \<le> 32" if "(w, name, status) \<in> set (log_grafana_alerts p)" for w name status
    using that alert_line_bounded[of w name status] by (auto simp: l MAX_ALERT_NAME_CHARS_def)
  ultimately show ?thesis by blast
next
  case False
  then have "log_grafana_alerts p = []" by (auto simp: log_grafana_alerts_def split: json.split)
  then show ?thesis by simp
qed

theorem alert_log_bounded_witness:
  "length (log_grafana_alerts [(''alerts'', JList (replicate 30 (JDict [])))]) \<le> 20"
  using alert_log_bounded[of "[(''alerts'', JList (replicate 30 (JDict [])))]"] by simp

end
