(* ===== verification/Notifier.thy ===== *)
theory Notifier
  imports Dispatcher Session_Http
begin

text \<open>
  \<^verbatim>\<open>src/pit/notifier/service.py\<close> and \<^verbatim>\<open>ledger.py\<close>: the notifier service around the alert book and the
  dispatcher, its ledger in the database, and its HTTP handlers.

  The service's lock makes an operation on book and dispatcher atomic, so an operation is a function of the
  state; the ledger write and the push to the pages that follow it close the operation. What the
  environment decides for one operation (the clock, the network, the database) is \<open>svc_env\<close>; the text
  functions are \<open>notif_text\<close>.
\<close>

section \<open>The ledger\<close>

text \<open>A row of \<open>alert_events\<close>, and of \<open>alert_acks\<close>, whose key is the fingerprint and the start.\<close>

type_synonym ack_row = "(string \<times> real) \<times> (real \<times> string option \<times> string option)"

record alert_ledger =
  lg_events :: "alert_event list"
  lg_acks :: "ack_row list"
  lg_connected :: bool
  lg_errors :: nat
  lg_written :: nat

definition ledger_new :: alert_ledger where
  "ledger_new = \<lparr>lg_events = [], lg_acks = [], lg_connected = False, lg_errors = 0, lg_written = 0\<rparr>"

definition event_rows :: "alert_event list \<Rightarrow> alert_event list" where
  "event_rows evs = filter (\<lambda>ev. av_kind ev \<in> {''firing'', ''resolved''}) evs"

definition ack_rows :: "alert_event list \<Rightarrow> ack_row list" where
  "ack_rows evs = map (\<lambda>ev. ((al_fingerprint (av_alert ev), al_started_at (av_alert ev)), (av_at ev, av_by ev, av_note ev)))
     (filter (\<lambda>ev. av_kind ev = ''ack'') evs)"

definition ledger_apply :: "alert_event list \<Rightarrow> alert_ledger \<Rightarrow> alert_ledger" where
  "ledger_apply evs lg = lg\<lparr>lg_events := lg_events lg @ event_rows evs,
     lg_acks := fold (\<lambda>(k, v) al. AList.update k v al) (ack_rows evs) (lg_acks lg)\<rparr>"

text \<open>\<open>record\<close>: one transaction; a database error is counted and closes the connection.\<close>

definition ledger_record :: "outcome \<Rightarrow> alert_event list \<Rightarrow> alert_ledger \<Rightarrow> nat \<times> alert_ledger" where
  [op_defs]: "ledger_record out evs lg =
     (let n = length (event_rows evs) + length (ack_rows evs);
          failed = (\<lambda>l. l\<lparr>lg_errors := lg_errors l + 1, lg_connected := False\<rparr>)
      in if n = 0 then (0, lg)
         else case out of
             Committed \<Rightarrow> (n, (ledger_apply evs lg)\<lparr>lg_connected := True, lg_written := lg_written lg + n\<rparr>)
           | Lost_After_Commit \<Rightarrow> (0, failed (ledger_apply evs lg))
           | _ \<Rightarrow> (0, failed lg))"

section \<open>The service\<close>

record notif_text =
  nx_conv :: text_conv
  nx_time_of :: "string \<Rightarrow> real option"
  nx_digest :: "(string \<times> string) list \<Rightarrow> string"
  nx_iso_text :: "real \<Rightarrow> string"

record svc_env =
  se_now :: real
  se_page_now :: real
  se_world :: world
  se_ledger :: outcome

record notifier =
  nf_book :: alert_book
  nf_dispatch :: dispatcher
  nf_ledger :: "alert_ledger option"

record alert_channel_config =
  acf_name :: string
  acf_type :: string
  acf_min_severity :: string
  acf_repeat_s :: "real option"
  acf_settings :: "(string \<times> string) list"

record notifier_settings =
  ns_public_url :: "string option"
  ns_ntfy_token :: "string option"
  ns_discord_webhook :: "string option"
  ns_dsn :: "string option"

definition rstrip_slash :: "string \<Rightarrow> string" where
  "rstrip_slash s = rev (dropWhile (\<lambda>ch. ch = CHR ''/'') (rev s))"

definition setting :: "alert_channel_config \<Rightarrow> string \<Rightarrow> string \<Rightarrow> string" where
  "setting spec k other = (case map_of (acf_settings spec) k of None \<Rightarrow> other | Some v \<Rightarrow> v)"

definition trimmed_url :: "string option \<Rightarrow> string option" where
  "trimmed_url u = map_option rstrip_slash (present u)"

definition build_channel :: "notifier_settings \<Rightarrow> alert_channel_config \<Rightarrow> alert_channel option res" where
  [op_defs]: "build_channel st spec =
     (let mk = (\<lambda>rep kind. Inr (Some \<lparr>ac_name = acf_name spec, ac_min_severity = acf_min_severity spec, ac_repeat_s = rep, ac_kind = kind\<rparr>))
      in if acf_type spec = ''log'' then mk None LogChannel
         else if acf_type spec = ''annunciator'' then mk (acf_repeat_s spec) AnnunciatorChannel
         else if acf_type spec = ''ntfy'' then
           mk (acf_repeat_s spec) (NtfyChannel \<lparr>nt_url = rstrip_slash (setting spec ''url'' ''http://ntfy''),
             nt_critical_topic = setting spec ''critical_topic'' ''openlaps-critical'',
             nt_warning_topic = setting spec ''warning_topic'' ''openlaps-warning'',
             nt_public_url = trimmed_url (ns_public_url st), nt_token = present (ns_ntfy_token st)\<rparr>)
         else if acf_type spec = ''discord'' then
           (case present (ns_discord_webhook st) of
              None \<Rightarrow> Inr None
            | Some u \<Rightarrow> mk (acf_repeat_s spec) (DiscordChannel \<lparr>di_webhook_url = u, di_public_url = trimmed_url (ns_public_url st)\<rparr>))
         else Inl ValueError)"

definition build_channels :: "notifier_settings \<Rightarrow> alert_channel_config list \<Rightarrow> alert_channel list res" where
  [op_defs]: "build_channels st specs = sbind (mapE (build_channel st) specs) (\<lambda>chs. Inr (concat (map (\<lambda>c. case c of None \<Rightarrow> [] | Some ch \<Rightarrow> [ch]) chs)))"

record notifier_config =
  nc_heartbeat_rule :: string
  nc_heartbeat_expected_s :: real
  nc_heartbeat_missed :: int
  nc_retry_deadline_s :: real
  nc_channels :: "alert_channel_config list"

definition notifier_new :: "notifier_settings \<Rightarrow> notifier_config \<Rightarrow> notifier res" where
  [op_defs]: "notifier_new st cfg = sbind (build_channels st (nc_channels cfg)) (\<lambda>chs. Inr
     \<lparr>nf_book = book_new (nc_heartbeat_rule cfg) (nc_heartbeat_expected_s cfg) (nc_heartbeat_missed cfg),
      nf_dispatch = dispatcher_new chs (nc_retry_deadline_s cfg),
      nf_ledger = (if present (ns_dsn st) = None then None else Some ledger_new)\<rparr>)"

definition push_snapshot :: "svc_env \<Rightarrow> notifier \<Rightarrow> notifier" where
  "push_snapshot env nf =
     (let b = nf_book nf; d = nf_dispatch nf
      in nf\<lparr>nf_dispatch := d\<lparr>dp_broadcaster :=
           bc_publish (SseSnapshot (snapshot_active b) (snapshot_critical b) (snapshot_history (se_page_now env) b)) (dp_broadcaster d)\<rparr>\<rparr>)"

definition record_events :: "svc_env \<Rightarrow> alert_event list \<Rightarrow> notifier \<Rightarrow> notifier" where
  "record_events env evs nf = (case nf_ledger nf of
     None \<Rightarrow> nf
   | Some lg \<Rightarrow> if evs = [] then nf else nf\<lparr>nf_ledger := Some (snd (ledger_record (se_ledger env) evs lg))\<rparr>)"

definition svc_after :: "svc_env \<Rightarrow> alert_event list \<Rightarrow> notifier \<Rightarrow> notifier" where
  "svc_after env evs nf = push_snapshot env (record_events env evs nf)"

definition announce_all :: "svc_env \<Rightarrow> alert_event list \<Rightarrow> alert_book \<Rightarrow> notifier \<Rightarrow> notifier" where
  "announce_all env evs b nf = (case fold (announce (se_world env)) evs (nf_dispatch nf, b) of (d, b1) \<Rightarrow> nf\<lparr>nf_book := b1, nf_dispatch := d\<rparr>)"

definition svc_receive :: "notif_text \<Rightarrow> svc_env \<Rightarrow> json \<Rightarrow> notifier \<Rightarrow> nat \<times> notifier" where
  [op_defs]: "svc_receive nx env posted nf =
     (let now = se_now env;
          alerts = parse_notification (nx_conv nx) (nx_time_of nx) (nx_digest nx) now posted
      in case book_receive alerts now (nf_book nf) of
           (evs, b) \<Rightarrow> (length alerts, svc_after env evs (announce_all env evs b nf)))"

definition svc_ack :: "svc_env \<Rightarrow> string \<Rightarrow> string \<Rightarrow> string option \<Rightarrow> notifier \<Rightarrow> alert_event option \<times> notifier" where
  [op_defs]: "svc_ack env fp by_name comment nf = (case book_ack fp by_name comment (se_now env) (nf_book nf) of
     (ev, b) \<Rightarrow> (let evs = (case ev of None \<Rightarrow> [] | Some e \<Rightarrow> [e]) in (ev, svc_after env evs (announce_all env evs b nf))))"

definition svc_raise_test :: "svc_env \<Rightarrow> string \<Rightarrow> string \<Rightarrow> notifier \<Rightarrow> alert_event list \<times> notifier" where
  [op_defs]: "svc_raise_test env hhmmss severity nf = (case raise_test hhmmss severity (se_now env) (nf_book nf) of
     (evs, b) \<Rightarrow> (evs, svc_after env evs (announce_all env evs b nf)))"

definition svc_tick :: "svc_env \<Rightarrow> notifier \<Rightarrow> notifier" where
  [op_defs]: "svc_tick env nf = (case repeat_due (se_world env) (se_now env) (nf_dispatch nf, nf_book nf) of
     (repeated, d, b) \<Rightarrow>
       (case pump (se_world env) d of
          (retried, d1) \<Rightarrow>
            (let nf1 = nf\<lparr>nf_book := b, nf_dispatch := d1\<rparr>
             in if repeated \<noteq> [] \<or> retried \<noteq> 0 then push_snapshot env nf1 else nf1)))"

datatype svc_op =
    SvcReceive svc_env json
  | SvcAck svc_env string string "string option"
  | SvcTest svc_env string string
  | SvcTick svc_env

fun svc_step :: "notif_text \<Rightarrow> svc_op \<Rightarrow> notifier \<Rightarrow> notifier" where
  "svc_step nx (SvcReceive env posted) nf = snd (svc_receive nx env posted nf)"
| "svc_step nx (SvcAck env fp by_name comment) nf = snd (svc_ack env fp by_name comment nf)"
| "svc_step nx (SvcTest env hhmmss severity) nf = snd (svc_raise_test env hhmmss severity nf)"
| "svc_step nx (SvcTick env) nf = svc_tick env nf"

section \<open>HTTP\<close>

definition jopt :: "string option \<Rightarrow> json" where
  "jopt s = (case s of None \<Rightarrow> JNull | Some t \<Rightarrow> JStr t)"

definition alert_event_dict :: "notif_text \<Rightarrow> alert_event \<Rightarrow> jdict" where
  "alert_event_dict nx ev = (let a = av_alert ev in
     [(''kind'', JStr (av_kind ev)), (''at'', JStr (nx_iso_text nx (av_at ev))), (''fingerprint'', JStr (al_fingerprint a)),
      (''name'', JStr (al_name a)), (''summary'', JStr (al_summary a)), (''severity'', JStr (al_severity a)),
      (''rule_uid'', jopt (al_rule_uid a)), (''by'', jopt (av_by ev)), (''note'', jopt (av_note ev))])"

definition jreal :: "real \<Rightarrow> json" where "jreal x = JFloat (Fin x)"
definition jropt :: "real option \<Rightarrow> json" where "jropt x = (case x of None \<Rightarrow> JNull | Some v \<Rightarrow> jreal v)"
definition jtime :: "notif_text \<Rightarrow> real option \<Rightarrow> json" where "jtime nx x = jopt (map_option (nx_iso_text nx) x)"
definition jbool_opt :: "bool option \<Rightarrow> json" where "jbool_opt x = (case x of None \<Rightarrow> JNull | Some v \<Rightarrow> JBool v)"

definition active_alert_dict :: "notif_text \<Rightarrow> real \<Rightarrow> active_alert \<Rightarrow> jdict" where
  "active_alert_dict nx now e = (let a = aa_alert e in
     [(''fingerprint'', JStr (al_fingerprint a)), (''name'', JStr (al_name a)), (''summary'', JStr (al_summary a)),
      (''severity'', JStr (al_severity a)), (''rule_uid'', jopt (al_rule_uid a)),
      (''started_at'', JStr (nx_iso_text nx (al_started_at a))),
      (''age_s'', jreal (py_round_digits (max 0 (now - al_started_at a)) 1)),
      (''acked_at'', jtime nx (aa_acked_at e)), (''acked_by'', jopt (aa_acked_by e)), (''note'', jopt (aa_note e)),
      (''runbook_url'', jopt (map_of (al_annotations a) ''runbook_url''))])"

definition book_snapshot :: "notif_text \<Rightarrow> real \<Rightarrow> alert_book \<Rightarrow> jdict" where
  [op_defs]: "book_snapshot nx now b =
     [(''now'', JStr (nx_iso_text nx now)), (''active'', JList (map (\<lambda>e. JDict (active_alert_dict nx now e)) (snapshot_active b))),
      (''unacknowledged_critical'', JInt (int (snapshot_critical b))),
      (''history'', JList (map (\<lambda>ev. JDict (alert_event_dict nx ev)) (snapshot_history now b))),
      (''heartbeat'', JDict [(''rule'', JStr (bk_heartbeat_rule b)), (''seen_at'', jtime nx (bk_heartbeat_seen b)),
         (''age_s'', jropt (heartbeat_age_s now b)), (''expected_s'', jreal (bk_expected_s b)), (''ok'', jbool_opt (heartbeat_ok now b))])]"

definition dispatcher_snapshot :: "dispatcher \<Rightarrow> jdict" where
  "dispatcher_snapshot d =
     [(''pending'', JInt (int (pending_count d))), (''delivered'', JInt (int (dp_delivered d))), (''failed'', JInt (int (dp_failed d))),
      (''expired'', JInt (int (dp_expired d))), (''per_channel'', JDict (map (\<lambda>(k, n). (k, JInt (int n))) (dp_per_channel d)))]"

definition ledger_health :: "alert_ledger option \<Rightarrow> jdict" where
  "ledger_health l = (case l of
     None \<Rightarrow> [(''configured'', JBool False), (''connected'', JBool False), (''errors'', JInt 0), (''written'', JInt 0)]
   | Some lg \<Rightarrow> [(''configured'', JBool True), (''connected'', JBool (lg_connected lg)), (''errors'', JInt (int (lg_errors lg))),
       (''written'', JInt (int (lg_written lg)))])"

definition notifier_health :: "notif_text \<Rightarrow> real \<Rightarrow> real \<Rightarrow> notifier \<Rightarrow> jdict" where
  [op_defs]: "notifier_health nx now uptime nf =
     (let b = nf_book nf; d = nf_dispatch nf; ok = heartbeat_ok now b in
      [(''status'', JStr (if ok \<noteq> Some False then ''ok'' else ''degraded'')), (''uptime_s'', jreal (py_round_digits uptime 1)),
       (''active'', JInt (int (length (bk_active b)))), (''unacknowledged'', JInt (int (length (unacknowledged b)))),
       (''notifications'', JInt (int (bk_notifications b))),
       (''heartbeat'', JDict [(''seen_at'', jtime nx (bk_heartbeat_seen b)), (''age_s'', jropt (heartbeat_age_s now b)),
          (''ok'', jbool_opt ok), (''count'', JInt (int (bk_heartbeats b)))]),
       (''queue'', JDict (dispatcher_snapshot d)), (''ledger'', JDict (ledger_health (nf_ledger nf))),
       (''sse_clients'', JInt (int (length (bc_clients (dp_broadcaster d))))),
       (''channels'', JList (map (\<lambda>c. JDict [(''name'', JStr (ac_name c)), (''min_severity'', JStr (ac_min_severity c)),
          (''repeat_s'', jropt (ac_repeat_s c))]) (dp_channels d)))])"

text \<open>A stream of server-sent events starts with a subscription and a snapshot.\<close>

definition notifier_GET :: "notif_text \<Rightarrow> bool \<Rightarrow> real \<Rightarrow> real \<Rightarrow> http_request \<Rightarrow> notifier \<Rightarrow> http_reply \<times> notifier" where
  [op_defs]: "notifier_GET nx asset_ok now uptime rq nf =
     (let path = request_path rq in
      case map_of STATIC_FILES path of
        Some (filename, ctype) \<Rightarrow> ((if asset_ok then Reply 200 (Static filename ctype) else Reply 500 (ErrorText ''internal server error'')), nf)
      | None \<Rightarrow>
          if path = ''/health'' then (Reply 200 (Payload (notifier_health nx now uptime nf)), nf)
          else if path = ''/alerts'' then (Reply 200 (Payload (book_snapshot nx now (nf_book nf))), nf)
          else if path = ''/events'' then
            (Reply 200 (Payload ((''type'', JStr ''snapshot'') # book_snapshot nx now (nf_book nf))),
             nf\<lparr>nf_dispatch := (nf_dispatch nf)\<lparr>dp_broadcaster := snd (subscribe (dp_broadcaster (nf_dispatch nf)))\<rparr>\<rparr>)
          else (Reply 404 (ErrorText ''not found''), nf))"

definition NOTIFIER_MAX_BODY_BYTES :: int where "NOTIFIER_MAX_BODY_BYTES = 256 * 1024"
definition MAX_ACK_NAME_CHARS :: nat where "MAX_ACK_NAME_CHARS = 40"
definition MAX_ACK_NOTE_CHARS :: nat where "MAX_ACK_NOTE_CHARS = 200"

definition notifier_origin_permitted :: "http_request \<Rightarrow> http_reply option" where
  [op_defs]: "notifier_origin_permitted rq = (case header rq ''Origin'' of
     None \<Rightarrow> None
   | Some origin \<Rightarrow>
       if lower origin = lower (''http://'' @ header_or_empty rq ''Host'') then None
       else Some (Reply 403 (ErrorText ''cross-origin request denied'')))"

definition notifier_sized_body :: "int \<Rightarrow> http_request \<Rightarrow> http_reply + jdict" where
  "notifier_sized_body n rq =
     (if n < 0 then Inl (Reply 400 (ErrorText ''invalid Content-Length''))
      else if n > NOTIFIER_MAX_BODY_BYTES then Inl (Reply 413 (ErrorText ''request body too large''))
      else if n \<noteq> 0 \<and> content_type rq \<noteq> ''application/json'' then Inl (Reply 415 (ErrorText ''Content-Type must be application/json''))
      else if n = 0 then Inr []
      else case rq_body rq of BodyTimeout \<Rightarrow> Inl (NoReply OSError) | b \<Rightarrow> decode_body b)"

definition notifier_read_body :: "text_conv \<Rightarrow> http_request \<Rightarrow> http_reply + jdict" where
  [op_defs]: "notifier_read_body tc rq =
     (if header_or_empty rq ''Transfer-Encoding'' \<noteq> [] then Inl (Reply 400 (ErrorText ''Transfer-Encoding is not supported''))
      else case content_length tc rq of
          Inl e \<Rightarrow> Inl (Reply 400 (ErrorText ''invalid JSON body''))
        | Inr n \<Rightarrow> notifier_sized_body n rq)"

definition ack_note :: "json \<Rightarrow> string option" where
  "ack_note j = (case j of JStr s \<Rightarrow> if s = [] then None else Some (take MAX_ACK_NOTE_CHARS s) | _ \<Rightarrow> None)"

definition post_ack :: "notif_text \<Rightarrow> svc_env \<Rightarrow> jdict \<Rightarrow> notifier \<Rightarrow> http_reply \<times> notifier" where
  [op_defs]: "post_ack nx env body nf = (case (jget body ''fingerprint'', jget body ''by'') of
     (JStr fp, JStr who) \<Rightarrow>
       if strip who = [] then (Reply 400 (ErrorText ''fingerprint and by are required''), nf)
       else (case svc_ack env fp (take MAX_ACK_NAME_CHARS (strip who)) (ack_note (jget body ''note'')) nf of
            (None, nf1) \<Rightarrow> (Reply 404 (ErrorText ''no active alert with that fingerprint''), nf1)
          | (Some ev, nf1) \<Rightarrow> (Reply 200 (Payload (alert_event_dict nx ev)), nf1))
   | _ \<Rightarrow> (Reply 400 (ErrorText ''fingerprint and by are required''), nf))"

definition post_test :: "notif_text \<Rightarrow> svc_env \<Rightarrow> string \<Rightarrow> jdict \<Rightarrow> notifier \<Rightarrow> http_reply \<times> notifier" where
  [op_defs]: "post_test nx env hhmmss body nf =
     (let severity = jget_or body ''severity'' (JStr ''critical'') in
      case severity of
        JStr s \<Rightarrow>
          if s \<notin> set SEVERITIES \<or> s = ''none'' then (Reply 400 (ErrorText ''severity must be warning or critical''), nf)
          else (case svc_raise_test env hhmmss s nf of
               (evs, nf1) \<Rightarrow> (Reply 200 (Payload [(''raised'', JList (map (\<lambda>ev. JDict (alert_event_dict nx ev)) evs))]), nf1))
      | _ \<Rightarrow> (Reply 400 (ErrorText ''severity must be warning or critical''), nf))"

definition notifier_POST :: "notif_text \<Rightarrow> svc_env \<Rightarrow> string \<Rightarrow> http_request \<Rightarrow> notifier \<Rightarrow> http_reply \<times> notifier" where
  [op_defs]: "notifier_POST nx env hhmmss rq nf = (case notifier_origin_permitted rq of
     Some r \<Rightarrow> (r, nf)
   | None \<Rightarrow>
       (case notifier_read_body (nx_conv nx) rq of
          Inl r \<Rightarrow> (r, nf)
        | Inr body \<Rightarrow>
            (let path = request_path rq in
             if path = ''/grafana-alerts'' then
               (case svc_receive nx env (JDict body) nf of (n, nf1) \<Rightarrow> (Reply 200 (Received n), nf1))
             else if path = ''/ack'' then post_ack nx env body nf
             else if path = ''/test'' then post_test nx env hhmmss body nf
             else (Reply 404 (ErrorText ''not found''), nf))))"

section \<open>Deliveries never change what is firing\<close>

definition same_page :: "alert_book \<Rightarrow> alert_book \<Rightarrow> bool" where
  "same_page b b1 \<longleftrightarrow> (\<forall>fp. phase_of b1 fp = phase_of b fp) \<and> bk_heartbeat_rule b1 = bk_heartbeat_rule b"

lemma same_page_refl [simp]: "same_page b b"
  by (simp add: same_page_def)

lemma same_page_trans: "same_page a b \<Longrightarrow> same_page b c \<Longrightarrow> same_page a c"
  by (simp add: same_page_def)

lemma set_notified_page: "same_page b (set_notified fp ch t b)"
  by (auto simp: same_page_def set_notified_def phase_of_def map_of_update acknowledged_def split: option.splits)

lemma announce_page: "same_page (snd db) (snd (announce w ev db))"
  unfolding announce_def
  by (rule fold_invariant[where Q = "\<lambda>_. True" and P = "\<lambda>s. same_page (snd db) (snd s)"])
    (auto simp: announce_one_def split: prod.splits intro: same_page_trans set_notified_page)

lemma repeat_one_page: "same_page b (snd (snd s)) \<Longrightarrow> same_page b (snd (snd (repeat_one w now fp ch s)))"
  by (auto simp: repeat_one_def Let_def split: prod.splits option.splits intro: same_page_trans set_notified_page)

lemma repeat_due_page: "same_page (snd db) (snd (snd (repeat_due w now db)))"
proof -
  have "same_page b (snd (snd (repeat_alert w now fp s)))" if "same_page b (snd (snd s))" for b fp s
    unfolding repeat_alert_def
    by (rule fold_invariant[where Q = "\<lambda>_. True" and P = "\<lambda>s. same_page b (snd (snd s))"]) (simp_all add: repeat_one_page that)
  then show ?thesis unfolding repeat_due_def
    by (intro fold_invariant[where Q = "\<lambda>_. True" and P = "\<lambda>s. same_page (snd db) (snd (snd s))"]) simp_all
qed

lemma announce_all_page: "same_page b (nf_book (announce_all env evs b nf))"
proof -
  have "same_page b (snd (fold (announce (se_world env)) evs (nf_dispatch nf, b)))"
    by (rule fold_invariant[where Q = "\<lambda>_. True" and P = "\<lambda>s. same_page b (snd s)"])
      (auto intro: same_page_trans announce_page)
  then show ?thesis by (auto simp: announce_all_def split: prod.splits)
qed

lemma svc_after_fields [simp]: "nf_book (svc_after env evs nf) = nf_book nf"
  by (simp add: svc_after_def push_snapshot_def record_events_def Let_def split: option.splits)

text \<open>What an operation of the service does to the book.\<close>

fun svc_book_ops :: "notif_text \<Rightarrow> svc_op \<Rightarrow> book_op list" where
  "svc_book_ops nx (SvcReceive env posted) =
     [BkReceive (parse_notification (nx_conv nx) (nx_time_of nx) (nx_digest nx) (se_now env) posted) (se_now env)]"
| "svc_book_ops nx (SvcAck env fp by_name comment) = [BkAck fp by_name comment (se_now env)]"
| "svc_book_ops nx (SvcTest env hhmmss severity) = [BkTest hhmmss severity (se_now env)]"
| "svc_book_ops nx (SvcTick env) = []"

lemma svc_tick_page: "same_page (nf_book nf) (nf_book (svc_tick env nf))"
proof -
  obtain evs d b where r: "repeat_due (se_world env) (se_now env) (nf_dispatch nf, nf_book nf) = (evs, d, b)" by (metis prod.exhaust)
  have "same_page (nf_book nf) b" using repeat_due_page[of "(nf_dispatch nf, nf_book nf)" "se_world env" "se_now env"] r by simp
  then show ?thesis by (simp add: svc_tick_def r Let_def push_snapshot_def split: prod.splits)
qed

lemma svc_step_page: "same_page (fold book_step (svc_book_ops nx sop) (nf_book nf)) (nf_book (svc_step nx sop nf))"
  by (cases sop)
    (auto simp: svc_receive_def svc_ack_def svc_raise_test_def Let_def announce_all_page svc_tick_page split: prod.splits)

lemma svc_run_phase:
  "phase_of (nf_book (fold (svc_step nx) ops nf)) fp
     = fold (phase_step (bk_heartbeat_rule (nf_book nf)) fp) (concat (map (svc_book_ops nx) ops)) (phase_of (nf_book nf) fp)
   \<and> bk_heartbeat_rule (nf_book (fold (svc_step nx) ops nf)) = bk_heartbeat_rule (nf_book nf)"
proof (induction ops arbitrary: nf)
  case (Cons sop ops)
  have "phase_of (nf_book (svc_step nx sop nf)) fp = phase_of (fold book_step (svc_book_ops nx sop) (nf_book nf)) fp"
    "bk_heartbeat_rule (nf_book (svc_step nx sop nf)) = bk_heartbeat_rule (nf_book nf)"
    using svc_step_page[of nx sop nf] book_run_phase[of "svc_book_ops nx sop" "nf_book nf" fp] unfolding same_page_def by auto
  with Cons.IH[of "svc_step nx sop nf"] book_run_phase[of "svc_book_ops nx sop" "nf_book nf" fp] show ?case by simp
qed simp

section \<open>Accounting of the whole service\<close>

lemma svc_after_accounts: "accounts 0 (nf_dispatch nf) \<Longrightarrow> accounts 0 (nf_dispatch (svc_after env evs nf))"
  by (simp add: svc_after_def push_snapshot_def record_events_def Let_def accounts_def offered_def deliveries_settled_def
      pending_count_def calls_with_def split: option.splits)

lemma push_snapshot_accounts: "accounts 0 (nf_dispatch nf) \<Longrightarrow> accounts 0 (nf_dispatch (push_snapshot env nf))"
  by (simp add: push_snapshot_def Let_def accounts_def offered_def deliveries_settled_def pending_count_def calls_with_def)

lemma announce_all_accounts: "accounts 0 (nf_dispatch nf) \<Longrightarrow> accounts 0 (nf_dispatch (announce_all env evs b nf))"
proof -
  assume a: "accounts 0 (nf_dispatch nf)"
  have "accounts 0 (fst (fold (announce (se_world env)) evs (nf_dispatch nf, b)))"
    by (rule fold_invariant[where Q = "\<lambda>_. True" and P = "\<lambda>s. accounts 0 (fst s)"]) (simp_all add: a announce_accounts)
  then show ?thesis by (auto simp: announce_all_def split: prod.splits)
qed

lemma svc_tick_accounts: "accounts 0 (nf_dispatch nf) \<Longrightarrow> accounts 0 (nf_dispatch (svc_tick env nf))"
proof -
  assume a: "accounts 0 (nf_dispatch nf)"
  obtain evs d b where r: "repeat_due (se_world env) (se_now env) (nf_dispatch nf, nf_book nf) = (evs, d, b)" by (metis prod.exhaust)
  have "accounts 0 d" using repeat_due_accounts[of 0 "(nf_dispatch nf, nf_book nf)" "se_world env" "se_now env"] a r by simp
  then have "accounts 0 (snd (pump (se_world env) d))" by (rule pump_accounts)
  then show ?thesis by (auto simp: svc_tick_def r Let_def push_snapshot_accounts split: prod.splits)
qed

interpretation notifier_svc: step_machine "svc_step nx" "\<lambda>nf. accounts 0 (nf_dispatch nf)" for nx
proof
  fix nf :: notifier and sop assume "accounts 0 (nf_dispatch nf)"
  then show "accounts 0 (nf_dispatch (svc_step nx sop nf))"
    by (cases sop)
      (auto simp: svc_receive_def svc_ack_def svc_raise_test_def Let_def split: prod.splits
        intro!: svc_after_accounts announce_all_accounts svc_tick_accounts)
qed

lemma notifier_new_accounts: "accounts 0 (dispatcher_new chans deadline)"
  by (simp add: accounts_def offered_def deliveries_settled_def pending_count_def calls_with_def dispatcher_new_def)

lemma notifier_newD:
  assumes "notifier_new st cfg = Inr nf"
  obtains chans where "nf_book nf = book_new (nc_heartbeat_rule cfg) (nc_heartbeat_expected_s cfg) (nc_heartbeat_missed cfg)"
    "nf_dispatch nf = dispatcher_new chans (nc_retry_deadline_s cfg)"
  using assms by (auto simp: notifier_new_def sbind_Inr_iff)

text \<open>
  C27. Whatever arrives at the notifier (notifications with any content, acknowledgements, test alerts and ticks, in
  any order) and whatever the network and the database answer, every alert is in the phase of a three-state
  automaton fed with the parsed notifications and the acknowledgements alone: it is on the page exactly while it
  has fired and not been resolved, and silenced exactly while it has been acknowledged since it started firing.
  No delivery failure, repeat, retry or ledger failure changes it, and heartbeats never reach it.
\<close>
theorem notifier_tracks_alerts:
  assumes "notifier_new st cfg = Inr nf"
  shows "phase_of (nf_book (fold (svc_step nx) ops nf)) fp
     = fold (phase_step (nc_heartbeat_rule cfg) fp) (concat (map (svc_book_ops nx) ops)) Idle"
proof -
  obtain chans where b: "nf_book nf = book_new (nc_heartbeat_rule cfg) (nc_heartbeat_expected_s cfg) (nc_heartbeat_missed cfg)"
    using notifier_newD[OF assms] by metis
  then have "phase_of (nf_book nf) fp = Idle" "bk_heartbeat_rule (nf_book nf) = nc_heartbeat_rule cfg"
    by (simp_all add: phase_of_def book_new_def)
  with svc_run_phase[of nx ops nf fp] show ?thesis by simp
qed

text \<open>
  C28. No message is lost without a trace. In every reachable state of the notifier, each message that was handed to a
  channel has been delivered, has failed for good, has expired, or waits in the retry queue, in exactly those
  numbers; the counters agree with the outcomes the channels reported and the per-channel counts add up to the
  deliveries. And an announcement tries, in order, every configured channel that wants the alert's severity,
  whatever the channels before it did.
\<close>
theorem deliveries_accounted:
  assumes "notifier_new st cfg = Inr nf" "d = nf_dispatch (fold (svc_step nx) ops nf)"
  shows "offered d = dp_delivered d + dp_failed d + dp_expired d + pending_count d
    \<and> dp_delivered d = calls_with Delivered d \<and> dp_failed d = calls_with Broken d
    \<and> sum_list (map snd (dp_per_channel d)) = dp_delivered d
    \<and> map (\<lambda>c. (fst c, fst (snd c), fst (snd (snd c)))) (dp_calls (fst (announce w ev (d, b))))
      = map (\<lambda>c. (fst c, fst (snd c), fst (snd (snd c)))) (dp_calls d) @ map (\<lambda>ch. (0, ch, render ev)) (filter (wants (av_alert ev)) (dp_channels d))"
proof -
  have "accounts 0 (nf_dispatch nf)" using notifier_newD[OF assms(1)] notifier_new_accounts by metis
  then have "accounts 0 d" unfolding assms(2) by (rule notifier_svc.run_inv)
  then show ?thesis using announce_loop_calls[of w ev "dp_channels d" "(d, b)"]
    by (simp add: accounts_def deliveries_settled_def announce_def)
qed

definition wit_text :: notif_text where
  "wit_text = \<lparr>nx_conv = \<lparr>float_of_str = \<lambda>_. None, int_of_str = \<lambda>_. None, str_of = \<lambda>_. []\<rparr>, nx_time_of = \<lambda>_. None,
     nx_digest = \<lambda>_. [], nx_iso_text = \<lambda>_. []\<rparr>"

definition wit_notifier_cfg :: notifier_config where
  "wit_notifier_cfg = \<lparr>nc_heartbeat_rule = ''hb'', nc_heartbeat_expected_s = 60, nc_heartbeat_missed = 3, nc_retry_deadline_s = 1800,
     nc_channels = [\<lparr>acf_name = ''log'', acf_type = ''log'', acf_min_severity = ''none'', acf_repeat_s = None, acf_settings = []\<rparr>]\<rparr>"

definition wit_settings :: notifier_settings where
  "wit_settings = \<lparr>ns_public_url = None, ns_ntfy_token = None, ns_discord_webhook = None, ns_dsn = None\<rparr>"

definition wit_fresh :: notifier where
  "wit_fresh = \<lparr>nf_book = book_new ''hb'' 60 3,
     nf_dispatch = dispatcher_new [\<lparr>ac_name = ''log'', ac_min_severity = ''none'', ac_repeat_s = None, ac_kind = LogChannel\<rparr>] 1800, nf_ledger = None\<rparr>"

lemma wit_fresh: "notifier_new wit_settings wit_notifier_cfg = Inr wit_fresh"
  by (simp add: notifier_new_def build_channels_def build_channel_def wit_settings_def wit_notifier_cfg_def wit_fresh_def present_def)

definition wit_env :: svc_env where
  "wit_env = \<lparr>se_now = 1, se_page_now = 1, se_world = \<lparr>wd_post = \<lambda>_. PostUnreachable, wd_clock = \<lambda>_. 1\<rparr>, se_ledger = Committed\<rparr>"

text \<open>A test alert is raised and acknowledged: it sounds, then it is gone.\<close>

theorem wit_notifier_tracks:
  "phase_of (nf_book (fold (svc_step wit_text) [SvcTest wit_env ''120000'' ''critical''] wit_fresh)) ''test-120000'' = Sounding True
   \<and> phase_of (nf_book (fold (svc_step wit_text) [SvcTest wit_env ''120000'' ''critical'', SvcAck wit_env ''test-120000'' ''Rob'' None] wit_fresh)) ''test-120000'' = Idle"
proof -
  have a: "phase_alert ''hb'' ''test-120000'' (test_alert ''120000'' ''critical'' 1) Idle = Sounding True"
    by (simp add: phase_alert_def heartbeat_alert_def test_alert_def Let_def TEST_ALERT_NAME_def)
  show ?thesis
    using notifier_tracks_alerts[OF wit_fresh, of wit_text "[SvcTest wit_env ''120000'' ''critical'']" "''test-120000''"]
      notifier_tracks_alerts[OF wit_fresh, of wit_text "[SvcTest wit_env ''120000'' ''critical'', SvcAck wit_env ''test-120000'' ''Rob'' None]" "''test-120000''"]
    by (simp add: phase_step_def book_op_alerts_def wit_notifier_cfg_def wit_env_def a)
qed

text \<open>One test alert: one message offered, delivered to the log.\<close>

theorem wit_deliveries_accounted:
  "offered (nf_dispatch wit_fresh) = dp_delivered (nf_dispatch wit_fresh) + dp_failed (nf_dispatch wit_fresh)
     + dp_expired (nf_dispatch wit_fresh) + pending_count (nf_dispatch wit_fresh)
   \<and> dp_calls (fst (announce (se_world wit_env) (plain_event ''firing'' (test_alert ''120000'' ''critical'' 1) 1) (nf_dispatch wit_fresh, nf_book wit_fresh))) \<noteq> []"
  using deliveries_accounted[OF wit_fresh refl, of wit_text "[]" "se_world wit_env" "plain_event ''firing'' (test_alert ''120000'' ''critical'' 1) 1" "nf_book wit_fresh"]
  by (auto simp: wit_fresh_def dispatcher_new_def wants_def severity_rank_def)

end
