(* ===== verification/Notifier_Outage.thy ===== *)
theory Notifier_Outage
  imports Notifier
begin

text \<open>
  What an outage of a push channel does to the notifier: every tick of it queues one more repeat of each alert
  nobody could be told of, and the queue is delivered when the channel comes back, acknowledged or not.
\<close>

section \<open>An outage and its end\<close>

definition down :: "real \<Rightarrow> world" where
  "down t = \<lparr>wd_post = \<lambda>_. PostUnreachable, wd_clock = \<lambda>_. t\<rparr>"

definition up :: "real \<Rightarrow> world" where
  "up t = \<lparr>wd_post = \<lambda>_. PostStatus 200, wd_clock = \<lambda>_. t\<rparr>"

definition env_with :: "(real \<Rightarrow> world) \<Rightarrow> real \<times> real \<Rightarrow> svc_env" where
  "env_with w t = \<lparr>se_now = snd t, se_page_now = snd t, se_world = w (fst t), se_ledger = Committed\<rparr>"

fun is_push :: "channel_kind \<Rightarrow> bool" where
  "is_push (NtfyChannel c) = True"
| "is_push (DiscordChannel c) = True"
| "is_push _ = False"

definition is_repeat :: "alert_channel \<Rightarrow> string \<Rightarrow> message \<Rightarrow> alert_channel \<Rightarrow> bool" where
  "is_repeat ch fp m c \<longleftrightarrow> c = ch \<and> ms_kind m = ''repeat'' \<and> ms_fingerprint m = fp"

definition queued_repeats :: "alert_channel \<Rightarrow> string \<Rightarrow> pending list \<Rightarrow> nat" where
  "queued_repeats ch fp q = length (filter (\<lambda>p. is_repeat ch fp (pn_message p) (pn_channel p)) q)"

definition sent_repeats :: "alert_channel \<Rightarrow> string \<Rightarrow> dispatcher \<Rightarrow> nat" where
  "sent_repeats ch fp d = length (filter (\<lambda>c. snd (snd (snd c)) = Delivered \<and> is_repeat ch fp (fst (snd (snd c))) (fst (snd c))) (dp_calls d))"

text \<open>An alert nobody acknowledged and that the channel was never told of.\<close>

definition armed :: "alert_channel \<Rightarrow> string \<Rightarrow> alert_book \<Rightarrow> bool" where
  "armed ch fp b = (case map_of (bk_active b) fp of
     None \<Rightarrow> False
   | Some e \<Rightarrow> \<not> acknowledged e \<and> al_fingerprint (aa_alert e) = fp \<and> wants (aa_alert e) ch
       \<and> map_of (aa_last_notified e) (ac_name ch) = None)"

text \<open>The queue of an outage between \<open>t0\<close> and \<open>t1\<close>.\<close>

definition clogged :: "alert_channel list \<Rightarrow> real \<Rightarrow> real \<Rightarrow> real \<Rightarrow> dispatcher \<Rightarrow> bool" where
  [inv_defs]: "clogged chans R t0 t1 d \<longleftrightarrow> dp_channels d = chans \<and> dp_retry_deadline_s d = R
     \<and> list_all (\<lambda>p. t0 + R \<le> pn_deadline p \<and> pn_due_at p \<le> t1 + 60) (dp_queue d)"

lemma queued_repeats_append [simp]:
  "queued_repeats ch fp (xs @ ys) = queued_repeats ch fp xs + queued_repeats ch fp ys" "queued_repeats ch fp [] = 0"
  by (simp_all add: queued_repeats_def)

lemma queued_repeats_le: "queued_repeats ch fp q \<le> length q"
  by (simp add: queued_repeats_def)

lemma queued_repeats_partition:
  "queued_repeats ch fp (filter P q) + queued_repeats ch fp (filter (\<lambda>p. \<not> P p) q) = queued_repeats ch fp q"
  by (induction q) (auto simp: queued_repeats_def)

lemma backoff_le: "backoff k \<le> 60"
proof -
  have "backoff k \<in> set BACKOFF_S" unfolding backoff_def by (rule nth_mem) (simp add: BACKOFF_S_def min_less_iff_disj)
  then show ?thesis by (auto simp: BACKOFF_S_def)
qed

lemma outcome_down: "deliver_outcome (down t) ch d = (if is_push (ac_kind ch) then RetryLater else Delivered)"
  by (cases "ac_kind ch") (simp_all add: deliver_outcome_def down_def)

lemma outcome_up: "deliver_outcome (up t) ch d = Delivered"
  by (cases "ac_kind ch") (simp_all add: deliver_outcome_def up_def)

section \<open>One delivery\<close>

lemma attempt_down_clogged:
  assumes "clogged chans R t0 t1 d" "t0 \<le> t" "t \<le> t1" "0 < t0 + R"
  shows "clogged chans R t0 t1 (snd (attempt (down t) ch m 0 d))"
  using assms backoff_le[of 0]
  by (simp add: attempt_def Let_def outcome_down clogged_def enqueue_retry_def count_delivered_def mono_now_def first_deadline_def)
    (simp add: down_def)

lemma attempt_down_queue:
  "dp_queue (snd (attempt (down t) ch m 0 d)) = dp_queue d \<or> (\<exists>p. dp_queue (snd (attempt (down t) ch m 0 d)) = dp_queue d @ [p])"
  by (simp add: attempt_def Let_def outcome_down enqueue_retry_def count_delivered_def)

lemma attempt_down_repeats:
  "queued_repeats ch fp (dp_queue (snd (attempt (down t) c m 0 d)))
     = queued_repeats ch fp (dp_queue d) + (if is_push (ac_kind c) \<and> is_repeat ch fp m c then 1 else 0)"
  by (simp add: attempt_def Let_def outcome_down enqueue_retry_def count_delivered_def queued_repeats_def)

lemma attempt_up_queue: "dp_queue (snd (attempt (up t) ch m 0 d)) = dp_queue d"
  by (simp add: attempt_def Let_def outcome_up count_delivered_def)

section \<open>A tick of the outage\<close>

text \<open>A fold whose every step keeps an invariant and does not lower a count, and whose step at \<open>x\<close> raises it.\<close>

lemma fold_keeps_count:
  assumes "I s" "\<And>y s. y \<in> set xs \<Longrightarrow> I s \<Longrightarrow> I (f y s) \<and> n s \<le> n (f y s)"
  shows "I (fold f xs s) \<and> n s \<le> (n (fold f xs s) :: nat)"
  using assms
proof (induction xs arbitrary: s)
  case (Cons x xs)
  then have "I (f x s)" "n s \<le> n (f x s)" by auto
  with Cons.IH[of "f x s"] Cons.prems(2) show ?case by (auto intro: le_trans)
qed simp

lemma fold_raises:
  assumes "x \<in> set xs" "I s"
    and keep: "\<And>y s. y \<in> set xs \<Longrightarrow> I s \<Longrightarrow> I (f y s) \<and> n s \<le> n (f y s)"
    and up: "\<And>s. I s \<Longrightarrow> Suc (n s) \<le> n (f x s)"
  shows "I (fold f xs s) \<and> Suc (n s) \<le> (n (fold f xs s) :: nat)"
proof -
  obtain ys zs where xs: "xs = ys @ x # zs" using assms(1) by (auto dest: split_list)
  let ?s = "fold f ys s"
  have a: "I ?s \<and> n s \<le> n ?s" using fold_keeps_count[where I = I and n = n and f = f, OF assms(2)] keep xs by auto
  have b: "I (f x ?s) \<and> Suc (n ?s) \<le> n (f x ?s)" using keep[OF assms(1)] up a by auto
  have "I (fold f zs (f x ?s)) \<and> n (f x ?s) \<le> n (fold f zs (f x ?s))"
    using fold_keeps_count[where I = I and n = n and f = f, OF b[THEN conjunct1]] keep xs by auto
  with a b show ?thesis unfolding xs by simp
qed

definition outage_state :: "alert_channel \<Rightarrow> string \<Rightarrow> alert_channel list \<Rightarrow> real \<Rightarrow> real \<Rightarrow> real \<Rightarrow> dispatcher \<times> alert_book \<Rightarrow> bool" where
  "outage_state ch fp chans R t0 t1 db \<longleftrightarrow> clogged chans R t0 t1 (fst db) \<and> armed ch fp (snd db)"

lemma armed_set_notified:
  assumes "armed ch fp b" "fp1 \<noteq> fp \<or> ac_name c \<noteq> ac_name ch" shows "armed ch fp (set_notified fp1 c t b)"
  using assms by (auto simp: armed_def set_notified_def map_of_update acknowledged_def split: option.splits)

lemma repeat_one_outage:
  assumes st: "outage_state ch fp chans R t0 t1 (snd s)" and t: "t0 \<le> t" "t \<le> t1" "0 < t0 + R"
    and push: "is_push (ac_kind ch)" and unique: "ac_name c = ac_name ch \<Longrightarrow> c = ch"
  shows "outage_state ch fp chans R t0 t1 (snd (repeat_one (down t) now fp1 c s))
    \<and> queued_repeats ch fp (dp_queue (fst (snd s))) \<le> queued_repeats ch fp (dp_queue (fst (snd (repeat_one (down t) now fp1 c s))))"
proof -
  obtain evs d b where s: "s = (evs, d, b)" by (metis prod.exhaust)
  show ?thesis
  proof (cases "map_of (bk_active b) fp1")
    case None
    then show ?thesis using st s by (simp add: repeat_one_def)
  next
    case (Some e)
    let ?m = "render (plain_event ''repeat'' (aa_alert e) now)"
    obtain ok d1 where a: "attempt (down t) c ?m 0 d = (ok, d1)" by (metis prod.exhaust)
    have d1: "clogged chans R t0 t1 d1" using attempt_down_clogged[of chans R t0 t1 d t c ?m] st t a s by (simp add: outage_state_def)
    have ok: "ok \<longleftrightarrow> \<not> is_push (ac_kind c)" using attempt_fields(4)[of "down t" c ?m 0 d] a by (simp add: outcome_down)
    have "armed ch fp (set_notified fp1 c now b)" if ok
      using that ok push unique st s by (intro armed_set_notified) (auto simp: outage_state_def)
    then show ?thesis
      using st d1 s a attempt_down_repeats[of ch fp t c ?m d] Some
      by (auto simp: repeat_one_def Let_def outage_state_def)
  qed
qed

lemma repeat_one_raises:
  assumes st: "outage_state ch fp chans R t0 t1 (snd s)" and push: "is_push (ac_kind ch)" and rep: "ac_repeat_s ch \<noteq> None"
  shows "Suc (queued_repeats ch fp (dp_queue (fst (snd s)))) \<le> queued_repeats ch fp (dp_queue (fst (snd (repeat_one (down t) now fp ch s))))"
proof -
  obtain evs d b where s: "s = (evs, d, b)" by (metis prod.exhaust)
  from st s obtain e where e: "map_of (bk_active b) fp = Some e" "al_fingerprint (aa_alert e) = fp" "wants (aa_alert e) ch"
    "map_of (aa_last_notified e) (ac_name ch) = None"
    by (auto simp: outage_state_def armed_def split: option.splits)
  let ?m = "render (plain_event ''repeat'' (aa_alert e) now)"
  have "repeat_wanted ch e now" using e rep by (auto simp: repeat_wanted_def)
  moreover have "is_repeat ch fp ?m ch" using e by (simp add: is_repeat_def render_def plain_event_def Let_def)
  ultimately show ?thesis
    using e(1) s push attempt_down_repeats[of ch fp t ch ?m d] by (auto simp: repeat_one_def Let_def split: prod.splits)
qed

definition outage_setup :: "alert_channel \<Rightarrow> alert_channel list \<Rightarrow> real \<Rightarrow> real \<Rightarrow> bool" where
  "outage_setup ch chans R t0 \<longleftrightarrow> ch \<in> set chans \<and> is_push (ac_kind ch) \<and> ac_repeat_s ch \<noteq> None
     \<and> list_all (\<lambda>c. ac_name c = ac_name ch \<longrightarrow> c = ch) chans \<and> 0 < t0 + R"

abbreviation repeats_in :: "alert_channel \<Rightarrow> string \<Rightarrow> alert_event list \<times> dispatcher \<times> alert_book \<Rightarrow> nat" where
  "repeats_in ch fp s \<equiv> queued_repeats ch fp (dp_queue (fst (snd s)))"

lemma repeat_alert_outage:
  assumes st: "outage_state ch fp chans R t0 t1 (snd s)" and t: "t0 \<le> t" "t \<le> t1" and su: "outage_setup ch chans R t0"
  shows "outage_state ch fp chans R t0 t1 (snd (repeat_alert (down t) now fp1 s)) \<and> repeats_in ch fp s \<le> repeats_in ch fp (repeat_alert (down t) now fp1 s)"
    and "fp1 = fp \<Longrightarrow> Suc (repeats_in ch fp s) \<le> repeats_in ch fp (repeat_alert (down t) now fp1 s)"
proof -
  let ?I = "\<lambda>s. outage_state ch fp chans R t0 t1 (snd s)"
  have ch: "dp_channels (fst (snd s)) = chans" using st by (simp add: outage_state_def clogged_def)
  have keep: "?I (repeat_one (down t) now fp1 c s) \<and> repeats_in ch fp s \<le> repeats_in ch fp (repeat_one (down t) now fp1 c s)"
    if "c \<in> set chans" "?I s" for c s
    using repeat_one_outage[OF that(2) t, of c] su that(1) by (auto simp: outage_setup_def list_all_iff)
  show "?I (repeat_alert (down t) now fp1 s) \<and> repeats_in ch fp s \<le> repeats_in ch fp (repeat_alert (down t) now fp1 s)"
    unfolding repeat_alert_def ch by (rule fold_keeps_count[where I = ?I and n = "repeats_in ch fp", OF st keep])
  assume fp: "fp1 = fp"
  have "Suc (repeats_in ch fp s) \<le> repeats_in ch fp (repeat_one (down t) now fp1 ch s)" if "?I s" for s
    unfolding fp using repeat_one_raises[OF that] su by (simp add: outage_setup_def)
  moreover have "ch \<in> set chans" using su by (simp add: outage_setup_def)
  ultimately show "Suc (repeats_in ch fp s) \<le> repeats_in ch fp (repeat_alert (down t) now fp1 s)"
    unfolding repeat_alert_def ch using st keep
    by (intro fold_raises[where I = ?I and n = "repeats_in ch fp" and x = ch, THEN conjunct2]) auto
qed

lemma armed_unacknowledged: "armed ch fp b \<Longrightarrow> fp \<in> set (map fst (unacknowledged b))"
  by (force simp: armed_def unacknowledged_def split: option.splits dest: map_of_SomeD)

lemma repeat_due_outage:
  assumes st: "outage_state ch fp chans R t0 t1 db" and t: "t0 \<le> t" "t \<le> t1" and su: "outage_setup ch chans R t0"
  shows "outage_state ch fp chans R t0 t1 (snd (repeat_due (down t) now db))
    \<and> Suc (queued_repeats ch fp (dp_queue (fst db))) \<le> repeats_in ch fp (repeat_due (down t) now db)"
proof -
  let ?I = "\<lambda>s. outage_state ch fp chans R t0 t1 (snd s)"
  have "fp \<in> set (map fst (unacknowledged (snd db)))" using st armed_unacknowledged by (auto simp: outage_state_def)
  moreover have "?I ([] :: alert_event list, db)" using st by simp
  ultimately have "?I (repeat_due (down t) now db) \<and> Suc (repeats_in ch fp ([], db)) \<le> repeats_in ch fp (repeat_due (down t) now db)"
    unfolding repeat_due_def
    by (rule fold_raises[where I = ?I and n = "repeats_in ch fp"]) (use repeat_alert_outage[OF _ t su] in auto)
  then show ?thesis by simp
qed

lemma retry_down:
  assumes "clogged chans R t0 t1 d" "t0 + R \<le> pn_deadline p" "t \<le> t1"
  shows "clogged chans R t0 t1 (snd (retry (down t) p d))"
    and "queued_repeats ch fp (dp_queue (snd (retry (down t) p d)))
      = queued_repeats ch fp (dp_queue d) + (if is_push (ac_kind (pn_channel p)) then queued_repeats ch fp [p] else 0)"
  using assms backoff_le[of "pn_attempts p"]
  by (simp_all add: retry_def Let_def outcome_down clogged_def enqueue_retry_def count_delivered_def mono_now_def queued_repeats_def)
    (simp_all add: down_def)

lemma pump_loop_down:
  assumes "clogged chans R t0 t1 (snd nd)" "list_all (\<lambda>p. t0 + R \<le> pn_deadline p) ps" "t \<le> t1" "t \<le> t0 + R" "is_push (ac_kind ch)"
  shows "clogged chans R t0 t1 (snd (fold (pump_one (down t) t) ps nd))
    \<and> queued_repeats ch fp (dp_queue (snd (fold (pump_one (down t) t) ps nd))) = queued_repeats ch fp (dp_queue (snd nd)) + queued_repeats ch fp ps"
  using assms
proof (induction ps arbitrary: nd)
  case (Cons p ps)
  have p: "t0 + R \<le> pn_deadline p" "\<not> t > pn_deadline p" using Cons.prems by auto
  let ?nd = "pump_one (down t) t p nd"
  have nd: "snd ?nd = snd (retry (down t) p (snd nd))" using p by (simp add: pump_one_def split: prod.splits)
  have one: "(if is_push (ac_kind (pn_channel p)) then queued_repeats ch fp [p] else 0) = queued_repeats ch fp [p]"
    using Cons.prems(5) by (auto simp: queued_repeats_def is_repeat_def)
  have "queued_repeats ch fp (p # ps) = queued_repeats ch fp [p] + queued_repeats ch fp ps" by (simp add: queued_repeats_def)
  with Cons.IH[of ?nd] Cons.prems retry_down(1)[OF Cons.prems(1) p(1) Cons.prems(3)]
    retry_down(2)[OF Cons.prems(1) p(1) Cons.prems(3), of ch fp] one show ?case by (simp add: nd)
qed simp

lemma pump_down:
  assumes "clogged chans R t0 t1 d" "t \<le> t1" "t \<le> t0 + R" "is_push (ac_kind ch)"
  shows "clogged chans R t0 t1 (snd (pump (down t) d)) \<and> queued_repeats ch fp (dp_queue (snd (pump (down t) d))) = queued_repeats ch fp (dp_queue d)"
proof -
  let ?P = "\<lambda>p. pn_due_at p \<le> t"
  let ?d = "d\<lparr>dp_queue := filter (\<lambda>p. \<not> ?P p) (dp_queue d)\<rparr>"
  have c: "mono_now (down t) d = t" by (simp add: mono_now_def down_def)
  have d: "clogged chans R t0 t1 (snd (0 :: nat, ?d))" "list_all (\<lambda>p. t0 + R \<le> pn_deadline p) (filter ?P (dp_queue d))"
    using assms(1) by (auto simp: clogged_def list_all_iff)
  show ?thesis
    using pump_loop_down[OF d(1) d(2) assms(2-4), of fp] queued_repeats_partition[of ch fp ?P "dp_queue d"]
    by (simp add: pump_def c)
qed

section \<open>The whole outage\<close>

definition outage_svc :: "alert_channel \<Rightarrow> string \<Rightarrow> alert_channel list \<Rightarrow> real \<Rightarrow> real \<Rightarrow> real \<Rightarrow> notifier \<Rightarrow> bool" where
  "outage_svc ch fp chans R t0 t1 nf \<longleftrightarrow> outage_state ch fp chans R t0 t1 (nf_dispatch nf, nf_book nf)"

lemma push_snapshot_queue [simp]:
  "dp_queue (nf_dispatch (push_snapshot env nf)) = dp_queue (nf_dispatch nf)" "nf_book (push_snapshot env nf) = nf_book nf"
  "dp_calls (nf_dispatch (push_snapshot env nf)) = dp_calls (nf_dispatch nf)"
  "clogged chans R t0 t1 (nf_dispatch (push_snapshot env nf)) = clogged chans R t0 t1 (nf_dispatch nf)"
  by (simp_all add: push_snapshot_def Let_def clogged_def)

lemma svc_tick_split:
  assumes "repeat_due (se_world env) (se_now env) (nf_dispatch nf, nf_book nf) = (evs, d, b)" "pump (se_world env) d = (n, d1)"
  shows "\<exists>nf1. nf1 = nf\<lparr>nf_book := b, nf_dispatch := d1\<rparr> \<and> (svc_tick env nf = nf1 \<or> svc_tick env nf = push_snapshot env nf1)"
  using assms by (auto simp: svc_tick_def Let_def)

lemma tick_down:
  assumes st: "outage_svc ch fp chans R t0 t1 nf" and t: "t0 \<le> fst t" "fst t \<le> t1" "t1 \<le> t0 + R" and su: "outage_setup ch chans R t0"
  shows "outage_svc ch fp chans R t0 t1 (svc_tick (env_with down t) nf)
    \<and> Suc (queued_repeats ch fp (dp_queue (nf_dispatch nf))) \<le> queued_repeats ch fp (dp_queue (nf_dispatch (svc_tick (env_with down t) nf)))"
proof -
  let ?w = "down (fst t)" and ?env = "env_with down t"
  have w: "se_world ?env = ?w" "se_now ?env = snd t" by (simp_all add: env_with_def)
  obtain evs d b where r: "repeat_due ?w (snd t) (nf_dispatch nf, nf_book nf) = (evs, d, b)" by (metis prod.exhaust)
  obtain n d1 where p: "pump ?w d = (n, d1)" by (metis prod.exhaust)
  have rd: "outage_state ch fp chans R t0 t1 (d, b)" "Suc (queued_repeats ch fp (dp_queue (nf_dispatch nf))) \<le> queued_repeats ch fp (dp_queue d)"
    using repeat_due_outage[OF st[unfolded outage_svc_def] t(1,2) su, of "snd t"] r by simp_all
  have pd: "clogged chans R t0 t1 d1" "queued_repeats ch fp (dp_queue d1) = queued_repeats ch fp (dp_queue d)"
    using pump_down[of chans R t0 t1 d "fst t" ch fp] rd(1) t su p by (simp_all add: outage_state_def outage_setup_def)
  from svc_tick_split[of ?env nf evs d b n d1] r p w show ?thesis
    using rd pd by (auto simp: outage_svc_def outage_state_def)
qed

lemma ticks_down:
  assumes "outage_svc ch fp chans R t0 t1 nf" "list_all (\<lambda>t. t0 \<le> fst t \<and> fst t \<le> t1) ts" "t1 \<le> t0 + R" "outage_setup ch chans R t0"
  shows "outage_svc ch fp chans R t0 t1 (fold (svc_step nx) (map (\<lambda>t. SvcTick (env_with down t)) ts) nf)
    \<and> queued_repeats ch fp (dp_queue (nf_dispatch nf)) + length ts
      \<le> queued_repeats ch fp (dp_queue (nf_dispatch (fold (svc_step nx) (map (\<lambda>t. SvcTick (env_with down t)) ts) nf)))"
  using assms
proof (induction ts arbitrary: nf)
  case (Cons t ts)
  then show ?case using tick_down[of ch fp chans R t0 t1 nf t] Cons.IH[of "svc_tick (env_with down t) nf"] by force
qed simp

section \<open>After the outage\<close>

lemma announce_one_down:
  assumes "clogged chans R t0 t1 (fst db)" "t0 \<le> t" "t \<le> t1" "0 < t0 + R"
  shows "clogged chans R t0 t1 (fst (announce_one (down t) ev c db))
    \<and> queued_repeats ch fp (dp_queue (fst db)) \<le> queued_repeats ch fp (dp_queue (fst (announce_one (down t) ev c db)))"
  using attempt_down_clogged[OF assms, of c "render ev"] attempt_down_repeats[of ch fp t c "render ev" "fst db"] assms(1)
  by (auto simp: announce_one_def split: prod.splits)

lemma announce_all_down:
  assumes "clogged chans R t0 t1 (nf_dispatch nf)" "t0 \<le> fst t" "fst t \<le> t1" "0 < t0 + R"
  shows "clogged chans R t0 t1 (nf_dispatch (announce_all (env_with down t) evs b nf))
    \<and> queued_repeats ch fp (dp_queue (nf_dispatch nf)) \<le> queued_repeats ch fp (dp_queue (nf_dispatch (announce_all (env_with down t) evs b nf)))"
proof -
  let ?I = "\<lambda>db. clogged chans R t0 t1 (fst db)" and ?n = "\<lambda>db. queued_repeats ch fp (dp_queue (fst db))"
  have "?I (announce (down (fst t)) ev db) \<and> ?n db \<le> ?n (announce (down (fst t)) ev db)" if "?I db" for ev db
    unfolding announce_def by (rule fold_keeps_count[where I = ?I and n = ?n, OF that]) (use announce_one_down assms in blast)
  then have "?I (fold (announce (down (fst t))) evs (nf_dispatch nf, b)) \<and> ?n (nf_dispatch nf, b) \<le> ?n (fold (announce (down (fst t))) evs (nf_dispatch nf, b))"
    using assms(1) by (intro fold_keeps_count[where I = ?I and n = ?n]) auto
  then show ?thesis by (auto simp: announce_all_def env_with_def split: prod.splits)
qed

lemma svc_after_queue [simp]:
  "dp_queue (nf_dispatch (svc_after env evs nf)) = dp_queue (nf_dispatch nf)"
  "dp_calls (nf_dispatch (svc_after env evs nf)) = dp_calls (nf_dispatch nf)"
  "clogged chans R t0 t1 (nf_dispatch (svc_after env evs nf)) = clogged chans R t0 t1 (nf_dispatch nf)"
  by (simp_all add: svc_after_def record_events_def split: option.splits)

lemma ack_down:
  assumes "clogged chans R t0 t1 (nf_dispatch nf)" "t0 \<le> fst t" "fst t \<le> t1" "0 < t0 + R"
  shows "clogged chans R t0 t1 (nf_dispatch (snd (svc_ack (env_with down t) fp1 who comment nf)))
    \<and> queued_repeats ch fp (dp_queue (nf_dispatch nf)) \<le> queued_repeats ch fp (dp_queue (nf_dispatch (snd (svc_ack (env_with down t) fp1 who comment nf))))"
  using announce_all_down[OF assms] by (simp add: svc_ack_def Let_def split: prod.splits)

lemma attempt_up:
  assumes "clogged chans R t0 t1 d" shows "clogged chans R t0 t1 (snd (attempt (up t) c m 0 d))"
    and "sent_repeats ch fp d \<le> sent_repeats ch fp (snd (attempt (up t) c m 0 d))"
  using assms attempt_fields[of "up t" c m 0 d] by (simp_all add: clogged_def attempt_up_queue sent_repeats_def)

lemma repeat_due_up:
  assumes "clogged chans R t0 t1 (fst db)"
  shows "clogged chans R t0 t1 (fst (snd (repeat_due (up t) now db))) \<and> dp_queue (fst (snd (repeat_due (up t) now db))) = dp_queue (fst db)
    \<and> sent_repeats ch fp (fst db) \<le> sent_repeats ch fp (fst (snd (repeat_due (up t) now db)))"
proof -
  define I where "I = (\<lambda>s :: alert_event list \<times> dispatcher \<times> alert_book. clogged chans R t0 t1 (fst (snd s))
    \<and> dp_queue (fst (snd s)) = dp_queue (fst db) \<and> sent_repeats ch fp (fst db) \<le> sent_repeats ch fp (fst (snd s)))"
  have one: "I (repeat_one (up t) now fp1 c s)" if "I s" for fp1 c s
  proof -
    obtain evs d b where s: "s = (evs, d, b)" by (metis prod.exhaust)
    have d: "I (evs1, snd (attempt (up t) c m 0 d), b1)" for evs1 m b1
      using that attempt_up(1)[where d = d and t = t and c = c and m = m] attempt_up(2)[where d = d and t = t and c = c and m = m, of _ _ _ _ ch fp]
      unfolding I_def s by (auto simp: attempt_up_queue intro: le_trans)
    then show ?thesis using that d s by (auto simp: repeat_one_def Let_def case_prod_beta split: option.splits)
  qed
  have "I (repeat_alert (up t) now fp1 s)" if "I s" for fp1 s
    unfolding repeat_alert_def by (rule fold_invariant[where Q = "\<lambda>_. True" and P = I]) (simp_all add: one that)
  then have "I (repeat_due (up t) now db)" unfolding repeat_due_def
    using assms by (intro fold_invariant[where Q = "\<lambda>_. True" and P = I]) (simp_all add: I_def)
  then show ?thesis by (simp add: I_def)
qed

lemma retry_up: "sent_repeats ch fp (snd (retry (up t) p d)) = sent_repeats ch fp d + queued_repeats ch fp [p]"
  using retry_fields(2)[of "up t" p d] by (simp add: sent_repeats_def outcome_up queued_repeats_def)

lemma pump_loop_up:
  "list_all (\<lambda>p. t \<le> pn_deadline p) ps \<Longrightarrow> sent_repeats ch fp (snd (fold (pump_one (up t) t) ps nd)) = sent_repeats ch fp (snd nd) + queued_repeats ch fp ps"
proof (induction ps arbitrary: nd)
  case (Cons p ps)
  have "sent_repeats ch fp (snd (pump_one (up t) t p nd)) = sent_repeats ch fp (snd nd) + queued_repeats ch fp [p]"
    using Cons.prems retry_up[of ch fp t p "snd nd"] by (simp add: pump_one_def case_prod_beta)
  moreover have "queued_repeats ch fp (p # ps) = queued_repeats ch fp [p] + queued_repeats ch fp ps" by (simp add: queued_repeats_def)
  ultimately show ?case using Cons by simp
qed simp

lemma pump_up:
  assumes "clogged chans R t0 t1 d" "t1 + 60 \<le> t" "t \<le> t0 + R"
  shows "sent_repeats ch fp (snd (pump (up t) d)) = sent_repeats ch fp d + queued_repeats ch fp (dp_queue d)"
proof -
  have c: "mono_now (up t) d = t" by (simp add: mono_now_def up_def)
  have q: "filter (\<lambda>p. pn_due_at p \<le> t) (dp_queue d) = dp_queue d" "list_all (\<lambda>p. t \<le> pn_deadline p) (dp_queue d)"
    using assms by (fastforce simp: clogged_def list_all_iff intro!: filter_True)+
  show ?thesis using pump_loop_up[OF q(2), of ch fp "(0, d\<lparr>dp_queue := filter (\<lambda>p. \<not> pn_due_at p \<le> t) (dp_queue d)\<rparr>)"]
    by (simp add: pump_def c q(1)) (simp add: sent_repeats_def)
qed

lemma tick_up:
  assumes "clogged chans R t0 t1 (nf_dispatch nf)" "t1 + 60 \<le> fst t" "fst t \<le> t0 + R"
  shows "sent_repeats ch fp (nf_dispatch nf) + queued_repeats ch fp (dp_queue (nf_dispatch nf)) \<le> sent_repeats ch fp (nf_dispatch (svc_tick (env_with up t) nf))"
proof -
  let ?w = "up (fst t)" and ?env = "env_with up t"
  have w: "se_world ?env = ?w" "se_now ?env = snd t" by (simp_all add: env_with_def)
  obtain evs d b where r: "repeat_due ?w (snd t) (nf_dispatch nf, nf_book nf) = (evs, d, b)" by (metis prod.exhaust)
  obtain n d1 where p: "pump ?w d = (n, d1)" by (metis prod.exhaust)
  have rd: "clogged chans R t0 t1 d" "dp_queue d = dp_queue (nf_dispatch nf)" "sent_repeats ch fp (nf_dispatch nf) \<le> sent_repeats ch fp d"
    using repeat_due_up[of chans R t0 t1 "(nf_dispatch nf, nf_book nf)" "fst t" "snd t" ch fp] assms(1) r by simp_all
  have "sent_repeats ch fp d1 = sent_repeats ch fp d + queued_repeats ch fp (dp_queue d)"
    using pump_up[OF rd(1) assms(2,3), of ch fp] p by simp
  with svc_tick_split[of ?env nf evs d b n d1] r p w rd show ?thesis by (auto simp: sent_repeats_def)
qed

definition outage_run :: "notif_text \<Rightarrow> (real \<times> real) list \<Rightarrow> notifier \<Rightarrow> notifier" where
  "outage_run nx ts nf = fold (svc_step nx) (map (\<lambda>t. SvcTick (env_with down t)) ts) nf"

lemma outage_run_phase: "phase_of (nf_book (outage_run nx ts nf)) fp = phase_of (nf_book nf) fp"
proof -
  have "concat (map (svc_book_ops nx) (map (\<lambda>t. SvcTick (env_with down t)) ts)) = []" by (induction ts) simp_all
  then show ?thesis using svc_run_phase[of nx "map (\<lambda>t. SvcTick (env_with down t)) ts" nf fp] unfolding outage_run_def
    by (simp only: fold.simps id_apply)
qed


definition wit_ntfy :: alert_channel where
  "wit_ntfy = \<lparr>ac_name = ''phones'', ac_min_severity = ''warning'', ac_repeat_s = Some 300, ac_kind = NtfyChannel
     \<lparr>nt_url = ''http://ntfy'', nt_critical_topic = ''c'', nt_warning_topic = ''w'', nt_public_url = None, nt_token = None\<rparr>\<rparr>"

definition wit_alert :: alert where
  "wit_alert = \<lparr>al_fingerprint = ''f1'', al_name = ''oil'', al_status = ''firing'', al_severity = ''critical'', al_started_at = 1,
     al_labels = [], al_annotations = [], al_rule_uid = None, al_summary = ''oil''\<rparr>"

definition wit_notifier :: notifier where
  "wit_notifier = \<lparr>nf_book = (book_new ''hb'' 60 3)\<lparr>bk_active := [(''f1'', active_new wit_alert 1)]\<rparr>,
     nf_dispatch = dispatcher_new [wit_ntfy] 1800, nf_ledger = None\<rparr>"

lemma wit_armed: "armed wit_ntfy ''f1'' (nf_book wit_notifier)" "phase_of (nf_book wit_notifier) ''f1'' = Sounding False"
  by (simp_all add: armed_def phase_of_def wit_notifier_def book_new_def active_new_def wit_alert_def acknowledged_def wants_def
      severity_rank_def wit_ntfy_def TEST_ALERT_NAME_def)


end
