(* ===== verification/Field_State.thy ===== *)
theory Field_State
  imports Py_Values
begin

text \<open>
  \<^verbatim>\<open>src/pit/timing_feed/model.py\<close>: the merged standings of the field, the competitor registry, the session
  and the rows each document changes.

  An XML element is its tag, attributes and children; parsing the text is the caller's. A float that the
  feed can name is a \<open>flt\<close>, since \<open>float\<close> reads infinities and not-a-number from text; a not-a-number just
  read is not equal to any other, so \<open>same_as\<close> fails on it. An operation that raises keeps what it had
  changed, so its result is the exception or the value together with the state.
\<close>

section \<open>Values\<close>

definition FLAG_STATES :: "(string \<times> string) list" where
  "FLAG_STATES = [(''waitstart'', ''none''), (''green'', ''green''), (''yellow'', ''yellow''), (''red'', ''red''),
     (''checkered'', ''chequered''), (''chequered'', ''chequered''), (''end'', ''ended''), (''ended'', ''ended''),
     (''none'', ''none''), (''white'', ''white'')]"

definition SUB_STATUSES :: "(string \<times> string) list" where
  "SUB_STATUSES = [(''safetycar'', ''sc''), (''sc'', ''sc''), (''fcy'', ''fcy''), (''vsc'', ''vsc''), (''code_60'', ''code_60''),
     (''caution'', ''caution''), (''slow_zone'', ''slow_zone'')]"

definition T71_FLAG_SPLIT :: "(string \<times> string \<times> string) list" where
  "T71_FLAG_SPLIT = [(''sc'', ''yellow'', ''sc''), (''fcy'', ''yellow'', ''fcy''), (''vsc'', ''yellow'', ''vsc''),
     (''code_60'', ''yellow'', ''code_60''), (''code_60_zone'', ''yellow'', ''code_60''), (''slow_zone'', ''yellow'', ''slow_zone''),
     (''caution'', ''yellow'', ''caution'')]"

definition PASSING_LINES :: "(int \<times> string) list" where
  "PASSING_LINES = [(1, ''main''), (41, ''main''), (2, ''pit_main''), (3, ''pit_entry''), (4, ''pit_exit''), (5, ''int1''),
     (45, ''int1''), (6, ''int2''), (46, ''int2''), (11, ''main''), (20, ''pit_main'')]"

definition MAX_CARS :: nat where "MAX_CARS = 200"

definition word_in :: "(string \<times> string) list \<Rightarrow> string \<Rightarrow> string" where
  "word_in d k = (case map_of d k of None \<Rightarrow> k | Some v \<Rightarrow> v)"

definition flag_state :: "string option \<Rightarrow> string option" where
  "flag_state v = (case v of
     None \<Rightarrow> None
   | Some s \<Rightarrow>
       (let key = lower (strip s)
        in if key = [] then None
           else case map_of T71_FLAG_SPLIT key of Some (f, _) \<Rightarrow> Some f | None \<Rightarrow> Some (word_in FLAG_STATES key)))"

definition sub_status :: "string option \<Rightarrow> string option" where
  "sub_status v = (case v of
     None \<Rightarrow> None
   | Some s \<Rightarrow> (let key = lower (strip s) in if key = [] then None else Some (word_in SUB_STATUSES key)))"

definition field_text :: "string option \<Rightarrow> string option" where
  "field_text v = (case v of None \<Rightarrow> None | Some s \<Rightarrow> (let t = strip s in if t = [] then None else Some t))"

text \<open>\<open>int(value) if value == int(value) else None\<close>.\<close>

definition whole_flt :: "flt \<Rightarrow> int option res" where
  "whole_flt f = sbind (int_of_flt f) (\<lambda>n. Inr (if f = Fin (of_int n) then Some n else None))"

definition field_int :: "text_conv \<Rightarrow> json \<Rightarrow> int option res" where
  [op_defs]: "field_int tc v = (case v of
     JNull \<Rightarrow> Inr None
   | JBool _ \<Rightarrow> Inr None
   | JInt n \<Rightarrow> Inr (Some n)
   | JFloat f \<Rightarrow> whole_flt f
   | _ \<Rightarrow>
       (let s = strip (py_str tc v)
        in if s = [] then Inr None
           else case int_of_str tc s of
               Some n \<Rightarrow> Inr (Some n)
             | None \<Rightarrow> (case float_of_str tc s of None \<Rightarrow> Inr None | Some f \<Rightarrow> whole_flt f)))"

text \<open>Float arithmetic of \<open>total * 60 + part\<close>.\<close>

fun flt_mul60 :: "flt \<Rightarrow> flt" where
  "flt_mul60 (Fin x) = Fin (x * 60)"
| "flt_mul60 f = f"

fun flt_add :: "flt \<Rightarrow> flt \<Rightarrow> flt" where
  "flt_add NaN g = NaN"
| "flt_add f NaN = NaN"
| "flt_add (Fin x) (Fin y) = Fin (x + y)"
| "flt_add (Fin x) g = g"
| "flt_add f (Fin y) = f"
| "flt_add PInf PInf = PInf"
| "flt_add NInf NInf = NInf"
| "flt_add PInf NInf = NaN"
| "flt_add NInf PInf = NaN"

fun sum_parts :: "text_conv \<Rightarrow> string list \<Rightarrow> flt \<Rightarrow> flt option" where
  "sum_parts tc [] t = Some t"
| "sum_parts tc (p # ps) t = (case float_of_str tc p of None \<Rightarrow> None | Some f \<Rightarrow> sum_parts tc ps (flt_add (flt_mul60 t) f))"

definition seconds_of_text :: "text_conv \<Rightarrow> string \<Rightarrow> flt option" where
  "seconds_of_text tc s =
     (if s = [] then None
      else if CHR '':'' \<in> set s then sum_parts tc (split_char CHR '':'' s) (Fin 0)
      else float_of_str tc s)"

definition field_seconds :: "text_conv \<Rightarrow> json \<Rightarrow> flt option" where
  [op_defs]: "field_seconds tc v = (case v of
     JNull \<Rightarrow> None
   | JBool _ \<Rightarrow> None
   | JInt n \<Rightarrow> Some (Fin (of_int n))
   | JFloat f \<Rightarrow> Some f
   | _ \<Rightarrow> seconds_of_text tc (strip (py_str tc v)))"

definition attr_json :: "string option \<Rightarrow> json" where
  "attr_json v = (case v of None \<Rightarrow> JNull | Some s \<Rightarrow> JStr s)"

definition car_state :: "text_conv \<Rightarrow> string option \<Rightarrow> bool \<Rightarrow> string option \<Rightarrow> string res" where
  [op_defs]: "car_state tc pos in_pit out_lap =
     sbind (field_int tc (attr_json pos)) (\<lambda>n. Inr (
       case pos of
         Some p \<Rightarrow>
           if n = None \<and> strip p \<noteq> [] then upper (strip p)
           else if in_pit then ''PIT'' else if upper (strip (case out_lap of None \<Rightarrow> [] | Some x \<Rightarrow> x)) = ''Y'' then ''OUT'' else ''RUN''
       | None \<Rightarrow>
           if in_pit then ''PIT'' else if upper (strip (case out_lap of None \<Rightarrow> [] | Some x \<Rightarrow> x)) = ''Y'' then ''OUT'' else ''RUN''))"

section \<open>Rows\<close>

record field_session =
  fsr_time :: real
  fsr_source :: string
  fsr_session_name :: "string option"
  fsr_event_type :: "string option"
  fsr_flag_state :: "string option"
  fsr_sub_status :: "string option"
  fsr_time_remaining_s :: "flt option"
  fsr_laps_remaining :: "int option"
  fsr_time_elapsed_s :: "flt option"
  fsr_track_temp :: "flt option"

definition session_row_new :: "real \<Rightarrow> string \<Rightarrow> field_session" where
  "session_row_new now src = \<lparr>fsr_time = now, fsr_source = src, fsr_session_name = None, fsr_event_type = None, fsr_flag_state = None,
     fsr_sub_status = None, fsr_time_remaining_s = None, fsr_laps_remaining = None, fsr_time_elapsed_s = None, fsr_track_temp = None\<rparr>"

text \<open>\<open>same_as\<close>; \<open>fresh\<close> are the floats read for this row.\<close>

definition session_same :: "flt option list \<Rightarrow> field_session \<Rightarrow> field_session option \<Rightarrow> bool" where
  "session_same fresh r other = (case other of
     None \<Rightarrow> False
   | Some q \<Rightarrow> r\<lparr>fsr_time := fsr_time q\<rparr> = q \<and> Some NaN \<notin> set fresh)"

record field_car =
  fcr_time :: real
  fcr_source :: string
  fcr_epoch :: real
  fcr_car_number :: string
  fcr_competitor_id :: "string option"
  fcr_car_class :: "string option"
  fcr_position :: "int option"
  fcr_class_position :: "int option"
  fcr_laps :: "int option"
  fcr_last_lap_s :: "flt option"
  fcr_best_lap_s :: "flt option"
  fcr_gap_lead_s :: "flt option"
  fcr_gap_next_s :: "flt option"
  fcr_sec1_s :: "flt option"
  fcr_sec2_s :: "flt option"
  fcr_sec3_s :: "flt option"
  fcr_pit_count :: "int option"
  fcr_in_pit :: "bool option"
  fcr_pit_flag :: "string option"
  fcr_driver :: "string option"
  fcr_state :: "string option"

definition car_floats :: "field_car \<Rightarrow> flt option list" where
  "car_floats r = [fcr_last_lap_s r, fcr_best_lap_s r, fcr_gap_lead_s r, fcr_gap_next_s r, fcr_sec1_s r, fcr_sec2_s r, fcr_sec3_s r]"

definition car_same :: "field_car \<Rightarrow> field_car option \<Rightarrow> bool" where
  "car_same r other = (case other of
     None \<Rightarrow> False
   | Some q \<Rightarrow> r\<lparr>fcr_time := fcr_time q, fcr_epoch := fcr_epoch q\<rparr> = q \<and> Some NaN \<notin> set (car_floats r))"

record field_lap =
  flr_time :: real
  flr_source :: string
  flr_car_number :: string
  flr_competitor_id :: "string option"
  flr_lap_number :: int
  flr_lap_time_s :: "flt option"
  flr_position :: "int option"
  flr_class_position :: "int option"
  flr_gap_lead_s :: "flt option"
  flr_gap_next_s :: "flt option"
  flr_pit_count :: "int option"
  flr_sec1_s :: "flt option"
  flr_sec2_s :: "flt option"
  flr_sec3_s :: "flt option"
  flr_flag_state :: "string option"
  flr_sub_status :: "string option"

record field_passing =
  fpr_time :: real
  fpr_source :: string
  fpr_competitor_id :: string
  fpr_line :: string
  fpr_passing_type :: "int option"
  fpr_active :: "string option"
  fpr_tod :: "real option"
  fpr_car_number :: "string option"

record field_batch =
  fb_session :: "field_session option"
  fb_cars :: "field_car list"
  fb_laps :: "field_lap list"
  fb_passings :: "field_passing list"

definition batch_empty :: field_batch where
  "batch_empty = \<lparr>fb_session = None, fb_cars = [], fb_laps = [], fb_passings = []\<rparr>"

definition field_batch_rows :: "field_batch \<Rightarrow> nat" where
  "field_batch_rows b = (if fb_session b = None then 0 else 1) + length (fb_cars b) + length (fb_laps b) + length (fb_passings b)"

record competitor =
  cp_id :: string
  cp_number :: string
  cp_class :: "string option"
  cp_drivers :: "(string \<times> string) list"

definition driver_name :: "competitor \<Rightarrow> string option \<Rightarrow> string option" where
  "driver_name c did = (case (case did of None \<Rightarrow> None | Some d \<Rightarrow> map_of (cp_drivers c) d) of
     Some n \<Rightarrow> Some n
   | None \<Rightarrow> (case cp_drivers c of [] \<Rightarrow> None | (_, n) # _ \<Rightarrow> Some n))"

record field_snapshot =
  sn_at :: real
  sn_source :: string
  sn_session :: "field_session option"
  sn_cars :: "field_car list"

section \<open>The state\<close>

type_synonym attributes = "(string \<times> string) list"

record field_state =
  fst_source :: string
  fst_competitors :: "(string \<times> competitor) list"
  fst_lines :: "(int \<times> attributes) list"
  fst_cars :: "(string \<times> field_car) list"
  fst_session :: "field_session option"
  fst_epoch :: "real option"
  fst_documents :: nat
  fst_unknown_tags :: "(string \<times> nat) list"

definition field_state_new :: "string \<Rightarrow> field_state" where
  "field_state_new src = \<lparr>fst_source = src, fst_competitors = [], fst_lines = [], fst_cars = [], fst_session = None, fst_epoch = None,
     fst_documents = 0, fst_unknown_tags = []\<rparr>"

datatype xml = Elem (xml_tag: string) (xml_attrs: attributes) (xml_kids: "xml list")

definition xml_get :: "xml \<Rightarrow> string \<Rightarrow> string option" where
  "xml_get e k = map_of (xml_attrs e) k"

text \<open>\<open>element.iter(tag)\<close>: the element and its descendants with the tag, in document order.\<close>

fun xml_iter :: "string \<Rightarrow> xml \<Rightarrow> xml list" where
  "xml_iter t (Elem u as kids) = (if u = t then [Elem u as kids] else []) @ concat (map (xml_iter t) kids)"

definition dict_update :: "('k \<times> 'v) list \<Rightarrow> ('k \<times> 'v) list \<Rightarrow> ('k \<times> 'v) list" where
  "dict_update d news = fold (\<lambda>(k, v) d. AList.update k v d) news d"

definition add_driver :: "xml \<Rightarrow> (string \<times> string) list \<Rightarrow> (string \<times> string) list" where
  "add_driver driver ds = (case (xml_get driver ''ID'', field_text (xml_get driver ''Name'')) of
     (Some i, Some n) \<Rightarrow> AList.update i n ds
   | _ \<Rightarrow> ds)"

definition competitor_of :: "string \<Rightarrow> xml \<Rightarrow> competitor" where
  "competitor_of cid entry = \<lparr>cp_id = cid,
     cp_number = strip (case xml_get entry ''Number'' of None \<Rightarrow> cid | Some n \<Rightarrow> if n = [] then cid else n),
     cp_class = field_text (xml_get entry ''Class''), cp_drivers = fold add_driver (xml_iter ''Driver'' entry) []\<rparr>"

definition competitor_list :: "xml \<Rightarrow> field_state \<Rightarrow> field_state" where
  [op_defs]: "competitor_list e st = st\<lparr>fst_competitors :=
     fold (\<lambda>entry reg. case xml_get entry ''ID'' of None \<Rightarrow> reg | Some i \<Rightarrow> AList.update i (competitor_of i entry) reg) (xml_iter ''Competitor'' e) []\<rparr>"

text \<open>One row of the standings from one line; the class counts are threaded through.\<close>

definition opt_or :: "string option \<Rightarrow> string \<Rightarrow> string" where
  "opt_or s other = (case s of None \<Rightarrow> other | Some t \<Rightarrow> if t = [] then other else t)"

definition class_count :: "(string option \<times> int) list \<Rightarrow> string option \<Rightarrow> int" where
  "class_count counts c = (case map_of counts c of None \<Rightarrow> 0 | Some n \<Rightarrow> n) + 1"

definition row_of_line :: "text_conv \<Rightarrow> real \<Rightarrow> field_state \<Rightarrow> (string option \<times> int) list \<Rightarrow> int \<Rightarrow> attributes \<Rightarrow> (field_car \<times> (string option \<times> int) list) res" where
  [op_defs]: "row_of_line tc now st counts line attrs =
     (let cid = map_of attrs ''Comp''; comp = map_of (fst_competitors st) (opt_or cid []);
          number = (case comp of Some c \<Rightarrow> cp_number c | None \<Rightarrow> opt_or cid (show_int line));
          cls = (case comp of Some c \<Rightarrow> cp_class c | None \<Rightarrow> None);
          pit_flag = field_text (map_of attrs ''PitLaneFlag''); in_pit = (pit_flag = Some ''P'');
          secs = (\<lambda>k. field_seconds tc (attr_json (map_of attrs k)));
          ints = (\<lambda>k. field_int tc (attr_json (map_of attrs k)))
      in sbind (ints ''Pos'') (\<lambda>pos. sbind (ints ''LastLap'') (\<lambda>laps. sbind (ints ''PitStops'') (\<lambda>pits.
         sbind (car_state tc (map_of attrs ''Pos'') in_pit (map_of attrs ''OutLap'')) (\<lambda>state.
         Inr (\<lparr>fcr_time = now, fcr_source = fst_source st, fcr_epoch = (case fst_epoch st of None \<Rightarrow> now | Some t \<Rightarrow> t),
                fcr_car_number = number, fcr_competitor_id = cid, fcr_car_class = cls, fcr_position = pos,
                fcr_class_position = (if pos = None then None else Some (class_count counts cls)), fcr_laps = laps,
                fcr_last_lap_s = secs ''LastTime'', fcr_best_lap_s = secs ''FastTime'', fcr_gap_lead_s = secs ''GapLeadTime'',
                fcr_gap_next_s = secs ''GapNextTime'', fcr_sec1_s = secs ''LastSec1Time'', fcr_sec2_s = secs ''LastSec2Time'',
                fcr_sec3_s = secs ''LastSec3Time'', fcr_pit_count = pits, fcr_in_pit = Some in_pit, fcr_pit_flag = pit_flag,
                fcr_driver = (case comp of Some c \<Rightarrow> driver_name c (map_of attrs ''Driv'') | None \<Rightarrow> None), fcr_state = Some state\<rparr>,
              if pos = None then counts else AList.update cls (class_count counts cls) counts))))))"

fun line_rows_loop :: "text_conv \<Rightarrow> real \<Rightarrow> field_state \<Rightarrow> (string option \<times> int) list \<Rightarrow> (int \<times> attributes) list \<Rightarrow> field_car list res" where
  "line_rows_loop tc now st counts [] = Inr []"
| "line_rows_loop tc now st counts ((line, attrs) # rest) =
     sbind (row_of_line tc now st counts line attrs) (\<lambda>(r, counts1). sbind (line_rows_loop tc now st counts1 rest) (\<lambda>rs. Inr (r # rs)))"

definition rows_from_lines :: "text_conv \<Rightarrow> real \<Rightarrow> field_state \<Rightarrow> field_car list res" where
  [op_defs]: "rows_from_lines tc now st = line_rows_loop tc now st [] (sort_key fst (fst_lines st))"

definition lap_of_row :: "field_state \<Rightarrow> field_car \<Rightarrow> field_lap" where
  [op_defs]: "lap_of_row st r = \<lparr>flr_time = fcr_time r, flr_source = fst_source st, flr_car_number = fcr_car_number r,
     flr_competitor_id = fcr_competitor_id r, flr_lap_number = (case fcr_laps r of None \<Rightarrow> 0 | Some n \<Rightarrow> n),
     flr_lap_time_s = fcr_last_lap_s r, flr_position = fcr_position r, flr_class_position = fcr_class_position r,
     flr_gap_lead_s = fcr_gap_lead_s r, flr_gap_next_s = fcr_gap_next_s r, flr_pit_count = fcr_pit_count r,
     flr_sec1_s = fcr_sec1_s r, flr_sec2_s = fcr_sec2_s r, flr_sec3_s = fcr_sec3_s r,
     flr_flag_state = (case fst_session st of None \<Rightarrow> None | Some s \<Rightarrow> fsr_flag_state s),
     flr_sub_status = (case fst_session st of None \<Rightarrow> None | Some s \<Rightarrow> fsr_sub_status s)\<rparr>"

definition lap_completed :: "field_car option \<Rightarrow> field_car \<Rightarrow> bool" where
  "lap_completed prev r = (case prev of
     None \<Rightarrow> False
   | Some p \<Rightarrow> (case (fcr_laps r, fcr_laps p) of (Some n, Some m) \<Rightarrow> n > m | _ \<Rightarrow> False))"

definition diff_row :: "real \<Rightarrow> field_car \<Rightarrow> (field_car list \<times> field_lap list) \<times> field_state \<Rightarrow> (field_car list \<times> field_lap list) \<times> field_state" where
  "diff_row ep row0 acc = (case acc of ((changed, laps), st) \<Rightarrow>
     (let r = row0\<lparr>fcr_epoch := ep\<rparr>; prev = map_of (fst_cars st) (fcr_car_number r)
      in if car_same r prev then acc
         else ((changed @ [r], if lap_completed prev r then laps @ [lap_of_row st r] else laps),
               st\<lparr>fst_cars := AList.update (fcr_car_number r) r (fst_cars st)\<rparr>)))"

definition new_table :: "bool \<Rightarrow> real \<Rightarrow> field_car list \<Rightarrow> field_state \<Rightarrow> field_state" where
  "new_table full now rows st =
     (if full \<and> (fst_epoch st = None \<or> set (map fcr_car_number rows) \<noteq> set (map fst (fst_cars st)))
      then st\<lparr>fst_epoch := Some now, fst_cars := []\<rparr> else st)"

definition diff :: "bool \<Rightarrow> real \<Rightarrow> field_car list \<Rightarrow> field_state \<Rightarrow> (field_car list \<times> field_lap list) \<times> field_state" where
  [op_defs]: "diff full now rows st =
     (let st1 = new_table full now rows st
      in fold (diff_row (case fst_epoch st1 of None \<Rightarrow> now | Some t \<Rightarrow> t)) rows (([], []), st1))"

section \<open>Documents\<close>

definition line_attrs :: "xml \<Rightarrow> attributes" where
  "line_attrs position = fold (\<lambda>detail d.
     if opt_or (xml_get detail ''Driv'') ''All'' = ''All'' then dict_update d (filter (\<lambda>(k, _). k \<noteq> ''Driv'') (xml_attrs detail)) else d)
     (xml_iter ''Detail'' position) (dict_update [] (xml_attrs position))"

fun incoming_lines :: "text_conv \<Rightarrow> xml list \<Rightarrow> (int \<times> attributes) list \<Rightarrow> (int \<times> attributes) list res" where
  "incoming_lines tc [] d = Inr d"
| "incoming_lines tc (p # ps) d =
     sbind (field_int tc (attr_json (xml_get p ''Line''))) (\<lambda>line.
       incoming_lines tc ps (case line of None \<Rightarrow> d | Some n \<Rightarrow> AList.update n (line_attrs p) d))"

definition merge_lines :: "(int \<times> attributes) list \<Rightarrow> (int \<times> attributes) list \<Rightarrow> (int \<times> attributes) list" where
  "merge_lines new old = fold (\<lambda>(n, attrs) d.
     AList.update n (dict_update (case map_of d n of None \<Rightarrow> [] | Some a \<Rightarrow> a) attrs) d) new old"

type_synonym board = "(field_car list \<times> field_lap list) res \<times> field_state"

definition leaderboard :: "text_conv \<Rightarrow> real \<Rightarrow> xml \<Rightarrow> field_state \<Rightarrow> board" where
  [op_defs]: "leaderboard tc now e st =
     (let part = (lower (opt_or (xml_get e ''Type'') ''full'') = ''part'') in
      case incoming_lines tc (xml_iter ''Position'' e) [] of
        Inl x \<Rightarrow> (Inl x, st)
      | Inr incoming \<Rightarrow>
          (let st1 = st\<lparr>fst_lines := (if part then merge_lines incoming (fst_lines st) else incoming)\<rparr> in
           if length (fst_lines st1) > MAX_CARS then (Inl DecodeError, st1)
           else case rows_from_lines tc now st1 of
               Inl x \<Rightarrow> (Inl x, st1)
             | Inr rows \<Rightarrow> (case diff (\<not> part) now rows st1 of (out, st2) \<Rightarrow> (Inr out, st2))))"

definition session_counters :: "text_conv \<Rightarrow> xml \<Rightarrow> field_session \<Rightarrow> field_session res" where
  "session_counters tc e r =
     (let kind = lower (opt_or (xml_get e ''Type'') []);
          count = field_seconds tc (attr_json (xml_get e ''Count''));
          elapsed = field_seconds tc (attr_json (xml_get e ''Elapsed''));
          r1 = (if elapsed = None then r else r\<lparr>fsr_time_elapsed_s := elapsed\<rparr>)
      in case count of
           None \<Rightarrow> Inr r1
         | Some c \<Rightarrow>
             if kind \<in> {''time'', ''countdown''} then Inr (r1\<lparr>fsr_time_remaining_s := Some c\<rparr>)
             else if kind = ''laps'' then sbind (int_of_flt c) (\<lambda>n. Inr (r1\<lparr>fsr_laps_remaining := Some n\<rparr>))
             else if kind = ''elapsed'' \<and> elapsed = None then Inr (r1\<lparr>fsr_time_elapsed_s := Some c\<rparr>)
             else Inr r1)"

definition session_event :: "xml \<Rightarrow> field_session \<Rightarrow> field_session" where
  "session_event e r =
     (let name = (case field_text (xml_get e ''Description1'') of Some n \<Rightarrow> Some n | None \<Rightarrow> field_text (xml_get e ''Code''))
      in r\<lparr>fsr_session_name := (if name = None then fsr_session_name r else name),
           fsr_event_type := (case field_text (xml_get e ''Type'') of None \<Rightarrow> fsr_event_type r | Some t \<Rightarrow> Some t)\<rparr>)"

definition session_base :: "text_conv \<Rightarrow> real \<Rightarrow> xml \<Rightarrow> field_state \<Rightarrow> field_session" where
  "session_base tc now e st =
     (let r0 = (case fst_session st of None \<Rightarrow> session_row_new now (fst_source st) | Some r \<Rightarrow> r\<lparr>fsr_time := now\<rparr>);
          r1 = (case xml_get e ''Status'' of None \<Rightarrow> r0 | Some s \<Rightarrow> r0\<lparr>fsr_flag_state := flag_state (Some s)\<rparr>);
          r2 = (case xml_get e ''SubStatus'' of None \<Rightarrow> r1 | Some s \<Rightarrow> r1\<lparr>fsr_sub_status := sub_status (Some s)\<rparr>);
          temp = field_seconds tc (attr_json (xml_get e ''TrackTemp''))
      in if temp = None then r2 else r2\<lparr>fsr_track_temp := temp\<rparr>)"

definition session_floats :: "text_conv \<Rightarrow> xml \<Rightarrow> flt option list" where
  "session_floats tc e =
     (let f = (\<lambda>k. field_seconds tc (attr_json (xml_get e k)))
      in f ''TrackTemp'' # (if xml_tag e = ''Counters'' then
            [f ''Elapsed''] @ (if lower (opt_or (xml_get e ''Type'') []) \<in> {''time'', ''countdown''}
              \<or> (lower (opt_or (xml_get e ''Type'') []) = ''elapsed'' \<and> f ''Elapsed'' = None) then [f ''Count''] else [])
          else []))"

definition session_update :: "text_conv \<Rightarrow> real \<Rightarrow> xml \<Rightarrow> field_state \<Rightarrow> field_session option res \<times> field_state" where
  [op_defs]: "session_update tc now e st =
     (let base = session_base tc now e st;
          updated = (if xml_tag e = ''Counters'' then session_counters tc e base
                     else if xml_tag e = ''Event'' then Inr (session_event e base) else Inr base)
      in case updated of
           Inl x \<Rightarrow> (Inl x, st)
         | Inr r \<Rightarrow> if session_same (session_floats tc e) r (fst_session st) then (Inr None, st)
                   else (Inr (Some r), st\<lparr>fst_session := Some r\<rparr>))"

definition passing_tod :: "flt option \<Rightarrow> real option res" where
  "passing_tod t = (case t of
     Some (Fin x) \<Rightarrow> if x > 1000000000 then sbind (fromtimestamp (Fin x)) (\<lambda>d. Inr (Some d)) else Inr None
   | Some PInf \<Rightarrow> sbind (fromtimestamp PInf) (\<lambda>d. Inr (Some d))
   | _ \<Rightarrow> Inr None)"

definition passing :: "text_conv \<Rightarrow> real \<Rightarrow> xml \<Rightarrow> field_state \<Rightarrow> field_passing option res" where
  [op_defs]: "passing tc now e st = (case field_text (xml_get e ''ID'') of
     None \<Rightarrow> Inr None
   | Some cid \<Rightarrow>
       sbind (field_int tc (attr_json (xml_get e ''Type''))) (\<lambda>pcode.
       sbind (passing_tod (field_seconds tc (attr_json (xml_get e ''Time'')))) (\<lambda>tod.
       Inr (Some \<lparr>fpr_time = now, fpr_source = fst_source st, fpr_competitor_id = cid,
         fpr_line = (case map_of PASSING_LINES (case pcode of None \<Rightarrow> -1 | Some n \<Rightarrow> if n = 0 then -1 else n) of
             Some l \<Rightarrow> l
           | None \<Rightarrow> (case pcode of None \<Rightarrow> ''unknown'' | Some n \<Rightarrow> show_int n)),
         fpr_passing_type = pcode, fpr_active = field_text (xml_get e ''Active''), fpr_tod = tod,
         fpr_car_number = map_option cp_number (map_of (fst_competitors st) cid)\<rparr>))))"

definition count_tag :: "string \<Rightarrow> field_state \<Rightarrow> field_state" where
  "count_tag t st = st\<lparr>fst_unknown_tags :=
     AList.update t ((case map_of (fst_unknown_tags st) t of None \<Rightarrow> 0 | Some n \<Rightarrow> n) + 1) (fst_unknown_tags st)\<rparr>"

definition add_board :: "field_batch \<Rightarrow> field_car list \<times> field_lap list \<Rightarrow> field_batch" where
  "add_board b out = b\<lparr>fb_cars := fb_cars b @ fst out, fb_laps := fb_laps b @ snd out\<rparr>"

definition apply_registry_element :: "text_conv \<Rightarrow> real \<Rightarrow> xml \<Rightarrow> field_state \<Rightarrow> board" where
  "apply_registry_element tc now e st =
     (let st1 = competitor_list e st in
      if fst_lines st1 = [] then (Inr ([], []), st1)
      else case rows_from_lines tc now st1 of
          Inl x \<Rightarrow> (Inl x, st1)
        | Inr rows \<Rightarrow> (case diff False now rows st1 of (out, st2) \<Rightarrow> (Inr out, st2)))"

definition apply_element :: "text_conv \<Rightarrow> real \<Rightarrow> xml \<Rightarrow> field_batch \<times> field_state \<Rightarrow> field_batch res \<times> field_state" where
  [op_defs]: "apply_element tc now e bs = (case bs of (b, st) \<Rightarrow>
     (let tag = xml_tag e in
      if tag = ''Leaderboard'' then
        (case leaderboard tc now e st of (Inl x, st1) \<Rightarrow> (Inl x, st1) | (Inr out, st1) \<Rightarrow> (Inr (add_board b out), st1))
      else if tag = ''CompetitorList'' then
        (case apply_registry_element tc now e st of (Inl x, st1) \<Rightarrow> (Inl x, st1) | (Inr out, st1) \<Rightarrow> (Inr (add_board b out), st1))
      else if tag \<in> {''Counters'', ''Status'', ''Heartbeat'', ''Flag'', ''Event''} then
        (case session_update tc now e st of
           (Inl x, st1) \<Rightarrow> (Inl x, st1)
         | (Inr None, st1) \<Rightarrow> (Inr b, st1)
         | (Inr (Some r), st1) \<Rightarrow> (Inr (b\<lparr>fb_session := Some r\<rparr>), st1))
      else if tag \<in> {''Passing'', ''Seen''} then
        (case passing tc now e st of
           Inl x \<Rightarrow> (Inl x, st)
         | Inr None \<Rightarrow> (Inr b, st)
         | Inr (Some p) \<Rightarrow> (Inr (b\<lparr>fb_passings := fb_passings b @ [p]\<rparr>), st))
      else (Inr b, count_tag tag st)))"

fun apply_elements :: "text_conv \<Rightarrow> real \<Rightarrow> xml list \<Rightarrow> field_batch \<times> field_state \<Rightarrow> field_batch res \<times> field_state" where
  "apply_elements tc now [] bs = (Inr (fst bs), snd bs)"
| "apply_elements tc now (e # es) bs = (case apply_element tc now e bs of
     (Inl x, st) \<Rightarrow> (Inl x, st)
   | (Inr b, st) \<Rightarrow> apply_elements tc now es (b, st))"

definition document_elements :: "xml \<Rightarrow> xml list" where
  "document_elements doc = (if xml_tag doc = ''New'' then xml_kids doc else [doc])"

text \<open>\<open>apply_document\<close> of the parsed text, or of text that is not XML. \<open>DocumentError\<close> is \<open>DecodeError\<close>.\<close>

definition apply_document :: "text_conv \<Rightarrow> real \<Rightarrow> xml option \<Rightarrow> field_state \<Rightarrow> field_batch res \<times> field_state" where
  [op_defs]: "apply_document tc now doc st = (case doc of
     None \<Rightarrow> (Inl DecodeError, st)
   | Some d \<Rightarrow> apply_elements tc now (document_elements d) (batch_empty, st\<lparr>fst_documents := fst_documents st + 1\<rparr>))"

definition session_row_floats :: "field_session \<Rightarrow> flt option list" where
  "session_row_floats r = [fsr_time_remaining_s r, fsr_time_elapsed_s r, fsr_track_temp r]"

definition merge_session :: "field_snapshot \<Rightarrow> field_state \<Rightarrow> field_session option \<times> field_state" where
  "merge_session sn st = (case sn_session sn of
     None \<Rightarrow> (None, st)
   | Some s \<Rightarrow>
       (let r = s\<lparr>fsr_time := sn_at sn, fsr_source := fst_source st\<rparr>
        in if session_same (session_row_floats r) r (fst_session st) then (None, st) else (Some r, st\<lparr>fst_session := Some r\<rparr>)))"

definition apply_snapshot :: "field_snapshot \<Rightarrow> field_state \<Rightarrow> field_batch res \<times> field_state" where
  [op_defs]: "apply_snapshot sn st0 = (case merge_session sn (st0\<lparr>fst_documents := fst_documents st0 + 1\<rparr>) of
     (session, st) \<Rightarrow>
       (let rows = map (\<lambda>c. c\<lparr>fcr_time := sn_at sn, fcr_source := fst_source st\<rparr>) (sn_cars sn) in
        if length rows > MAX_CARS then (Inl DecodeError, st)
        else case diff True (sn_at sn) rows st of
            (out, st1) \<Rightarrow> (Inr \<lparr>fb_session = session, fb_cars = fst out, fb_laps = snd out, fb_passings = []\<rparr>, st1)))"

section \<open>The standings view\<close>

text \<open>
  The view \<open>v_field_standings\<close>: a row a reader may be given for a car is one of the latest epoch with the latest time.
\<close>

definition standing :: "field_car list \<Rightarrow> string \<Rightarrow> field_car \<Rightarrow> bool" where
  "standing rows n r \<longleftrightarrow> r \<in> set rows \<and> fcr_car_number r = n \<and> fcr_epoch r = Max (set (map fcr_epoch rows))
     \<and> list_all (\<lambda>q. fcr_epoch q = fcr_epoch r \<and> fcr_car_number q = n \<longrightarrow> fcr_time q \<le> fcr_time r) rows"

text \<open>A lap row rests on two standings rows of the car: the count went up to the lap from the earlier one.\<close>

definition lap_founded :: "field_car list \<Rightarrow> field_lap \<Rightarrow> bool" where
  "lap_founded rows l \<longleftrightarrow> list_ex (\<lambda>r. list_ex (\<lambda>p. fcr_car_number r = flr_car_number l \<and> fcr_car_number p = flr_car_number l
     \<and> fcr_laps r = Some (flr_lap_number l) \<and> (\<exists>m < flr_lap_number l. fcr_laps p = Some m)
     \<and> fcr_time r = flr_time l \<and> fcr_time p < fcr_time r \<and> fcr_epoch p = fcr_epoch r) rows) rows"

lemma lap_founded_mono: "lap_founded rows l \<Longrightarrow> lap_founded (rows @ extra) l"
  by (auto simp: lap_founded_def list_ex_iff)

text \<open>What the tables hold when everything written so far is at most \<open>t\<close> old.\<close>

definition table_inv :: "field_state \<Rightarrow> field_car list \<Rightarrow> field_lap list \<Rightarrow> real \<Rightarrow> bool" where
  [inv_defs]: "table_inv st rows laps t \<longleftrightarrow> (\<forall>r \<in> set rows. fcr_time r \<le> t) \<and> (\<forall>l \<in> set laps. lap_founded rows l)
     \<and> (case fst_epoch st of
          None \<Rightarrow> rows = [] \<and> fst_cars st = []
        | Some ep \<Rightarrow> ep \<le> t \<and> (\<forall>r \<in> set rows. fcr_epoch r \<le> ep)
            \<and> (\<forall>n c. map_of (fst_cars st) n = Some c \<longrightarrow> c \<in> set rows \<and> fcr_epoch c = ep \<and> fcr_car_number c = n)
            \<and> (\<forall>r \<in> set rows. fcr_epoch r = ep \<longrightarrow>
                (\<exists>c. map_of (fst_cars st) (fcr_car_number r) = Some c \<and> (r = c \<or> fcr_time r < fcr_time c))))"

lemma table_inv_standing:
  assumes "table_inv st rows laps t" "fst_cars st \<noteq> []"
  shows "map_of (fst_cars st) n = Some r \<longleftrightarrow> standing rows n r"
proof -
  obtain ep where ep: "fst_epoch st = Some ep" using assms by (auto simp: table_inv_def split: option.splits)
  have i1: "\<And>r. r \<in> set rows \<Longrightarrow> fcr_epoch r \<le> ep"
    and i2: "\<And>n c. map_of (fst_cars st) n = Some c \<Longrightarrow> c \<in> set rows \<and> fcr_epoch c = ep \<and> fcr_car_number c = n"
    and i3: "\<And>r. r \<in> set rows \<Longrightarrow> fcr_epoch r = ep \<Longrightarrow> \<exists>c. map_of (fst_cars st) (fcr_car_number r) = Some c \<and> (r = c \<or> fcr_time r < fcr_time c)"
    using assms(1) ep by (auto simp: table_inv_def)
  obtain k v where "(k, v) \<in> set (fst_cars st)" using assms(2) by (cases "fst_cars st") auto
  then obtain c0 where "map_of (fst_cars st) k = Some c0" by (metis weak_map_of_SomeI)
  with i2 have "ep \<in> set (map fcr_epoch rows)" by force
  with i1 have mx: "Max (set (map fcr_epoch rows)) = ep" by (intro Max_eqI) auto
  show ?thesis
  proof
    assume c: "map_of (fst_cars st) n = Some r"
    have "fcr_time q \<le> fcr_time r" if "q \<in> set rows" "fcr_epoch q = ep" "fcr_car_number q = n" for q
      using i3[OF that(1,2)] that(3) c by auto
    with i2[OF c] mx show "standing rows n r" by (auto simp: standing_def list_all_iff)
  next
    assume st: "standing rows n r"
    then have r: "r \<in> set rows" "fcr_epoch r = ep" "fcr_car_number r = n" using mx by (auto simp: standing_def)
    from i3[OF r(1,2)] r(3) obtain c where c: "map_of (fst_cars st) n = Some c" "r = c \<or> fcr_time r < fcr_time c" by auto
    have "fcr_time c \<le> fcr_time r" using st i2[OF c(1)] r by (auto simp: standing_def list_all_iff)
    with c show "map_of (fst_cars st) n = Some r" by auto
  qed
qed

section \<open>Every operation keeps the tables in step\<close>

text \<open>In the loop of \<open>diff\<close>: cars not written yet by this document are older than it.\<close>

definition loop_inv :: "real \<Rightarrow> real \<Rightarrow> field_car list \<Rightarrow> field_lap list \<Rightarrow> (field_car list \<times> field_lap list) \<times> field_state \<Rightarrow> bool" where
  "loop_inv t now rows laps acc \<longleftrightarrow> table_inv (snd acc) (rows @ fst (fst acc)) (laps @ snd (fst acc)) now
     \<and> (\<forall>n c. map_of (fst_cars (snd acc)) n = Some c \<longrightarrow> n \<notin> set (map fcr_car_number (fst (fst acc))) \<longrightarrow> fcr_time c \<le> t)"

lemma table_inv_later: "table_inv st rows laps t \<Longrightarrow> t \<le> now \<Longrightarrow> table_inv st rows laps now"
  by (auto simp: table_inv_def split: option.splits)

lemma table_inv_new:
  assumes "table_inv st rows laps t" "t < now" shows "table_inv (st\<lparr>fst_epoch := Some now, fst_cars := []\<rparr>) rows laps now"
  using assms by (force simp: table_inv_def split: option.splits)

lemma car_table_inv: "table_inv st rows laps t \<Longrightarrow> map_of (fst_cars st) n = Some c \<Longrightarrow> c \<in> set rows \<and> fst_epoch st = Some (fcr_epoch c) \<and> fcr_car_number c = n"
  by (auto simp: table_inv_def split: option.splits)

lemma latest_table_inv:
  "table_inv st rows laps t \<Longrightarrow> fst_epoch st = Some (fcr_epoch q) \<Longrightarrow> q \<in> set rows \<Longrightarrow> \<exists>c. map_of (fst_cars st) (fcr_car_number q) = Some c \<and> (q = c \<or> fcr_time q < fcr_time c)"
  by (simp add: table_inv_def)

lemma table_invD: "table_inv st rows laps t \<Longrightarrow> q \<in> set rows \<Longrightarrow> fcr_time q \<le> t" "table_inv st rows laps t \<Longrightarrow> l \<in> set laps \<Longrightarrow> lap_founded rows l"
  by (simp_all add: table_inv_def)

lemma table_invI:
  assumes "\<And>q. q \<in> set rows \<Longrightarrow> fcr_time q \<le> t" "\<And>l. l \<in> set laps \<Longrightarrow> lap_founded rows l" "fst_epoch st = Some ep" "ep \<le> t"
    "\<And>q. q \<in> set rows \<Longrightarrow> fcr_epoch q \<le> ep" "\<And>n c. map_of (fst_cars st) n = Some c \<Longrightarrow> c \<in> set rows \<and> fcr_epoch c = ep \<and> fcr_car_number c = n"
    "\<And>q. q \<in> set rows \<Longrightarrow> fcr_epoch q = ep \<Longrightarrow> \<exists>c. map_of (fst_cars st) (fcr_car_number q) = Some c \<and> (q = c \<or> fcr_time q < fcr_time c)"
  shows "table_inv st rows laps t"
  unfolding table_inv_def using assms by simp

lemma lap_row_founded:
  assumes inv: "table_inv st rows laps now" and prev: "map_of (fst_cars st) (fcr_car_number r) = Some p" "fcr_time p < fcr_time r"
    and r: "fst_epoch st = Some (fcr_epoch r)" "lap_completed (Some p) r"
  shows "lap_founded (rows @ [r]) (lap_of_row st r)"
proof -
  have p: "p \<in> set rows" "fcr_epoch p = fcr_epoch r" "fcr_car_number p = fcr_car_number r" using car_table_inv[OF inv prev(1)] r(1) by auto
  from r(2) obtain n m where "fcr_laps r = Some n" "fcr_laps p = Some m" "m < n"
    by (auto simp: lap_completed_def split: option.splits)
  with p prev(2) show ?thesis by (auto simp: lap_founded_def list_ex_iff lap_of_row_def)
qed

lemma table_inv_write:
  assumes inv: "table_inv st rows laps now" and r: "fst_epoch st = Some (fcr_epoch r)" "fcr_time r = now"
    and older: "\<And>c. map_of (fst_cars st) (fcr_car_number r) = Some c \<Longrightarrow> fcr_time c < now" and founded: "\<forall>l \<in> set extra. lap_founded (rows @ [r]) l"
  shows "table_inv (st\<lparr>fst_cars := AList.update (fcr_car_number r) r (fst_cars st)\<rparr>) (rows @ [r]) (laps @ extra) now"
proof -
  have ep: "fcr_epoch r \<le> now" "\<forall>q \<in> set rows. fcr_epoch q \<le> fcr_epoch r" using inv r(1) by (simp_all add: table_inv_def)
  have cars: "c \<in> set (rows @ [r]) \<and> fcr_epoch c = fcr_epoch r \<and> fcr_car_number c = n"
    if "map_of (AList.update (fcr_car_number r) r (fst_cars st)) n = Some c" for n c
    using that car_table_inv[OF inv, of n c] r(1) by (auto simp: map_of_update split: if_splits)
  have latest: "\<exists>c. map_of (AList.update (fcr_car_number r) r (fst_cars st)) (fcr_car_number q) = Some c \<and> (q = c \<or> fcr_time q < fcr_time c)"
    if "q \<in> set (rows @ [r])" "fcr_epoch q = fcr_epoch r" for q
  proof (cases "q = r")
    case False
    with that have "q \<in> set rows" by simp
    with that(2) r(1) obtain c where c: "map_of (fst_cars st) (fcr_car_number q) = Some c" "q = c \<or> fcr_time q < fcr_time c"
      using latest_table_inv[OF inv, of q] by auto
    then show ?thesis using older[of c] r(2) by (auto simp: map_of_update)
  qed (simp add: map_of_update)
  have times: "fcr_time q \<le> now" if "q \<in> set (rows @ [r])" for q using that table_invD(1)[OF inv] r(2) by auto
  have laps: "lap_founded (rows @ [r]) l" if "l \<in> set (laps @ extra)" for l
    using that table_invD(2)[OF inv] founded lap_founded_mono by auto
  let ?st = "st\<lparr>fst_cars := AList.update (fcr_car_number r) r (fst_cars st)\<rparr>"
  show ?thesis
  proof (rule table_invI[where ep = "fcr_epoch r"])
    show "fst_epoch ?st = Some (fcr_epoch r)" "fcr_epoch r \<le> now" using r(1) ep(1) by simp_all
    show "fcr_epoch q \<le> fcr_epoch r" if "q \<in> set (rows @ [r])" for q using that ep(2) by auto
    show "c \<in> set (rows @ [r]) \<and> fcr_epoch c = fcr_epoch r \<and> fcr_car_number c = n" if "map_of (fst_cars ?st) n = Some c" for n c
      using that by (intro cars) simp
    show "\<exists>c. map_of (fst_cars ?st) (fcr_car_number q) = Some c \<and> (q = c \<or> fcr_time q < fcr_time c)"
      if "q \<in> set (rows @ [r])" "fcr_epoch q = fcr_epoch r" for q
      using latest[OF that] by simp
  qed (rule times laps; assumption)+
qed

lemma diff_row_inv:
  assumes inv: "loop_inv t now rows laps acc" and t: "t < now" and ep: "fst_epoch (snd acc) = Some ep" and row: "fcr_time row = now"
    and distinct: "distinct (map fcr_car_number (fst (fst (diff_row ep row acc))))"
  shows "loop_inv t now rows laps (diff_row ep row acc) \<and> fst_epoch (snd (diff_row ep row acc)) = Some ep"
proof -
  obtain changed ls st where acc: "acc = ((changed, ls), st)" by (metis prod.exhaust)
  let ?r = "row\<lparr>fcr_epoch := ep\<rparr>" and ?prev = "map_of (fst_cars st) (fcr_car_number row)"
  let ?extra = "if lap_completed ?prev ?r then [lap_of_row st ?r] else []"
  show ?thesis
  proof (cases "car_same ?r ?prev")
    case True
    then show ?thesis using inv ep acc by (simp add: diff_row_def Let_def)
  next
    case False
    then have step: "diff_row ep row acc = ((changed @ [?r], ls @ ?extra), st\<lparr>fst_cars := AList.update (fcr_car_number ?r) ?r (fst_cars st)\<rparr>)"
      by (simp add: diff_row_def Let_def acc)
    with distinct have new: "fcr_car_number row \<notin> set (map fcr_car_number changed)" by auto
    have ti: "table_inv st (rows @ changed) (laps @ ls) now" using inv acc by (simp add: loop_inv_def)
    have old: "fcr_time c \<le> t" if "map_of (fst_cars st) n = Some c" "n \<notin> set (map fcr_car_number changed)" for n c
      using inv that unfolding loop_inv_def acc by simp
    have older: "fcr_time c < now" if "map_of (fst_cars st) (fcr_car_number ?r) = Some c" for c
      using old[of "fcr_car_number row" c] that new t by simp
    have fd: "\<forall>l \<in> set ?extra. lap_founded ((rows @ changed) @ [?r]) l"
    proof (cases ?prev)
      case (Some p)
      then show ?thesis using lap_row_founded[OF ti, of ?r p] older[of p] ep acc row by auto
    qed (simp add: lap_completed_def)
    have "table_inv (st\<lparr>fst_cars := AList.update (fcr_car_number ?r) ?r (fst_cars st)\<rparr>) ((rows @ changed) @ [?r]) ((laps @ ls) @ ?extra) now"
      using ti older fd ep acc row by (intro table_inv_write) auto
    moreover have "fcr_time c \<le> t" if "map_of (AList.update (fcr_car_number ?r) ?r (fst_cars st)) n = Some c"
      "n \<notin> set (map fcr_car_number (changed @ [?r]))" for n c
      using that old[of n c] by (auto simp: map_of_update split: if_splits)
    ultimately show ?thesis unfolding step using ep acc by (simp add: loop_inv_def)
  qed
qed

lemma diff_row_prefix: "\<exists>zs. fst (fst (diff_row ep row acc)) = fst (fst acc) @ zs"
  by (auto simp: diff_row_def Let_def split: prod.splits)

lemma diff_rows_prefix: "\<exists>zs. fst (fst (fold (diff_row ep) rows acc)) = fst (fst acc) @ zs"
proof (induction rows arbitrary: acc)
  case (Cons r rows)
  obtain ys zs where "fst (fst (diff_row ep r acc)) = fst (fst acc) @ ys"
    "fst (fst (fold (diff_row ep) rows (diff_row ep r acc))) = fst (fst (diff_row ep r acc)) @ zs"
    using diff_row_prefix[of ep r acc] Cons.IH[of "diff_row ep r acc"] by metis
  then show ?case by simp
qed simp

lemma diff_rows_inv:
  assumes "loop_inv t now rows laps acc" "t < now" "fst_epoch (snd acc) = Some ep" "list_all (\<lambda>r. fcr_time r = now) new"
    "distinct (map fcr_car_number (fst (fst (fold (diff_row ep) new acc))))"
  shows "loop_inv t now rows laps (fold (diff_row ep) new acc)"
  using assms
proof (induction new arbitrary: acc)
  case (Cons r new)
  obtain zs where "fst (fst (fold (diff_row ep) new (diff_row ep r acc))) = fst (fst (diff_row ep r acc)) @ zs"
    using diff_rows_prefix by blast
  with Cons.prems(5) have "distinct (map fcr_car_number (fst (fst (diff_row ep r acc))))" by simp
  then have "loop_inv t now rows laps (diff_row ep r acc)" "fst_epoch (snd (diff_row ep r acc)) = Some ep"
    using diff_row_inv[OF Cons.prems(1,2,3), of r] Cons.prems(4) by auto
  with Cons show ?case by simp
qed simp

lemma diff_inv:
  assumes inv: "table_inv st rows laps t" and t: "t < now" and new: "list_all (\<lambda>r. fcr_time r = now) new" and board: "full \<or> fst_epoch st \<noteq> None"
    and d: "diff full now new st = ((changed, ls), st1)" "distinct (map fcr_car_number changed)"
  shows "table_inv st1 (rows @ changed) (laps @ ls) now"
proof -
  let ?st = "new_table full now new st"
  have "fst_epoch ?st \<noteq> None" using board by (auto simp: new_table_def)
  then obtain ep where ep: "fst_epoch ?st = Some ep" by blast
  have "table_inv ?st rows laps now"
    using table_inv_new[OF inv t] table_inv_later[OF inv, of now] t by (simp add: new_table_def)
  moreover have "fcr_time c \<le> t" if "map_of (fst_cars ?st) n = Some c" for n c
  proof -
    have "map_of (fst_cars st) n = Some c" using that by (simp add: new_table_def split: if_splits)
    then show ?thesis using car_table_inv[OF inv] table_invD(1)[OF inv] by blast
  qed
  ultimately have "loop_inv t now rows laps (([], []), ?st)" by (simp add: loop_inv_def)
  moreover have fold: "fold (diff_row ep) new (([], []), ?st) = ((changed, ls), st1)" using d(1) ep by (simp add: diff_def Let_def)
  ultimately have "loop_inv t now rows laps ((changed, ls), st1)"
    using diff_rows_inv[of t now rows laps "(([], []), ?st)" ep new] t ep new d(2) by simp
  then show ?thesis by (simp add: loop_inv_def)
qed

lemma row_of_line_time: "row_of_line tc now st counts line attrs = Inr (r, counts1) \<Longrightarrow> fcr_time r = now"
  by (auto simp: row_of_line_def Let_def sbind_Inr_iff)

lemma rows_loop_time: "line_rows_loop tc now st counts ls = Inr rows \<Longrightarrow> list_all (\<lambda>r. fcr_time r = now) rows"
  by (induction tc now st counts ls arbitrary: rows rule: line_rows_loop.induct) (auto simp: sbind_Inr_iff dest: row_of_line_time)

lemma rows_from_lines_time: "rows_from_lines tc now st = Inr rows \<Longrightarrow> list_all (\<lambda>r. fcr_time r = now) rows"
  by (auto simp: rows_from_lines_def dest: rows_loop_time)

text \<open>An element that writes standings, and the parts of the state the tables depend on.\<close>

definition is_board :: "xml \<Rightarrow> bool" where
  "is_board e \<longleftrightarrow> xml_tag e \<in> {''Leaderboard'', ''CompetitorList''}"

definition starts_table :: "xml \<Rightarrow> bool" where
  "starts_table e \<longleftrightarrow> xml_tag e = ''Leaderboard'' \<and> lower (opt_or (xml_get e ''Type'') ''full'') \<noteq> ''part''"

lemma table_inv_cong:
  "fst_epoch st1 = fst_epoch st \<Longrightarrow> fst_cars st1 = fst_cars st \<Longrightarrow> table_inv st1 rows laps t = table_inv st rows laps t"
  unfolding table_inv_def by (simp only:)

lemma quiet_element:
  assumes "\<not> is_board e" "apply_element tc now e (b, st) = (Inr b1, st1)"
  shows "fb_cars b1 = fb_cars b \<and> fb_laps b1 = fb_laps b \<and> fst_epoch st1 = fst_epoch st \<and> fst_cars st1 = fst_cars st"
  using assms
  by (auto simp: apply_element_def is_board_def Let_def session_update_def count_tag_def split: if_splits sum.splits option.splits prod.splits)

lemma quiet_elements:
  "list_all (\<lambda>e. \<not> is_board e) es \<Longrightarrow> apply_elements tc now es (b, st) = (Inr b1, st1) \<Longrightarrow>
     fb_cars b1 = fb_cars b \<and> fb_laps b1 = fb_laps b \<and> fst_epoch st1 = fst_epoch st \<and> fst_cars st1 = fst_cars st"
proof (induction es arbitrary: b st)
  case (Cons e es)
  then show ?case using quiet_element[of e tc now b st]
    by (auto split: prod.splits sum.splits)
qed simp

definition is_part :: "xml \<Rightarrow> bool" where
  "is_part e \<longleftrightarrow> lower (opt_or (xml_get e ''Type'') ''full'') = ''part''"

lemma leaderboard_ok:
  assumes "leaderboard tc now e st = (Inr out, st1)"
  shows "\<exists>ls new. rows_from_lines tc now (st\<lparr>fst_lines := ls\<rparr>) = Inr new \<and> diff (\<not> is_part e) now new (st\<lparr>fst_lines := ls\<rparr>) = (out, st1)"
proof -
  obtain incoming where i: "incoming_lines tc (xml_iter ''Position'' e) [] = Inr incoming"
    using assms by (auto simp: leaderboard_def Let_def split: sum.splits)
  define ls where "ls = (if is_part e then merge_lines incoming (fst_lines st) else incoming)"
  have "(case rows_from_lines tc now (st\<lparr>fst_lines := ls\<rparr>) of Inl x \<Rightarrow> (Inl x, st\<lparr>fst_lines := ls\<rparr>)
      | Inr rows \<Rightarrow> (case diff (\<not> is_part e) now rows (st\<lparr>fst_lines := ls\<rparr>) of (out, st2) \<Rightarrow> (Inr out, st2))) = (Inr out, st1)"
    using assms i unfolding leaderboard_def Let_def is_part_def[symmetric] ls_def by (auto split: if_splits)
  then show ?thesis by (cases "rows_from_lines tc now (st\<lparr>fst_lines := ls\<rparr>)") (auto split: prod.splits)
qed

lemma board_element:
  assumes inv: "table_inv st rows laps t" and t: "t < now" and board: "starts_table e \<or> fst_epoch st \<noteq> None" "is_board e"
    and a: "apply_element tc now e (b, st) = (Inr b1, st1)" "fb_cars b = []" "fb_laps b = []" "distinct (map fcr_car_number (fb_cars b1))"
  shows "table_inv st1 (rows @ fb_cars b1) (laps @ fb_laps b1) now"
proof (cases "xml_tag e = ''Leaderboard''")
  case True
  then obtain out where "leaderboard tc now e st = (Inr out, st1)" and b1: "b1 = add_board b out"
    using a(1) by (auto simp: apply_element_def split: sum.splits prod.splits)
  then obtain ls new where new: "rows_from_lines tc now (st\<lparr>fst_lines := ls\<rparr>) = Inr new"
    and d: "diff (\<not> is_part e) now new (st\<lparr>fst_lines := ls\<rparr>) = ((fst out, snd out), st1)"
    using leaderboard_ok by (metis prod.collapse)
  have "table_inv (st\<lparr>fst_lines := ls\<rparr>) rows laps t" using inv table_inv_cong[of "st\<lparr>fst_lines := ls\<rparr>" st] by simp
  moreover have "\<not> is_part e \<or> fst_epoch (st\<lparr>fst_lines := ls\<rparr>) \<noteq> None" using board(1) by (auto simp: starts_table_def is_part_def)
  ultimately show ?thesis using diff_inv[OF _ t rows_from_lines_time[OF new] _ d] b1 a by (simp add: add_board_def)
next
  case False
  then have tag: "xml_tag e = ''CompetitorList''" using board(2) by (simp add: is_board_def)
  then have ep: "fst_epoch st \<noteq> None" using board(1) by (auto simp: starts_table_def)
  let ?st0 = "competitor_list e st"
  have st0: "fst_epoch ?st0 = fst_epoch st" "fst_cars ?st0 = fst_cars st" by (simp_all add: competitor_list_def)
  have inv0: "table_inv ?st0 rows laps t" using inv table_inv_cong[OF st0] by simp
  show ?thesis
  proof (cases "fst_lines ?st0 = []")
    case True
    then have "st1 = ?st0" "b1 = add_board b ([], [])" using a(1) tag by (auto simp: apply_element_def apply_registry_element_def Let_def)
    then show ?thesis using inv0 table_inv_later[of _ rows laps t now] t a by (simp add: add_board_def)
  next
    case False
    then obtain new changed ls where new: "rows_from_lines tc now ?st0 = Inr new"
      and d: "diff False now new ?st0 = ((changed, ls), st1)" "b1 = add_board b (changed, ls)"
      using a(1) tag by (auto simp: apply_element_def apply_registry_element_def Let_def split: sum.splits prod.splits)
    show ?thesis using diff_inv[OF inv0 t rows_from_lines_time[OF new] _ d(1)] d(2) a ep st0 by (simp add: add_board_def)
  qed
qed

section \<open>Runs of the feed\<close>

datatype feed_op = FeedDocument real "xml option" | FeedSnapshot field_snapshot

fun feed_time :: "feed_op \<Rightarrow> real" where
  "feed_time (FeedDocument now doc) = now"
| "feed_time (FeedSnapshot sn) = sn_at sn"

fun feed_apply :: "text_conv \<Rightarrow> feed_op \<Rightarrow> field_state \<Rightarrow> field_batch res \<times> field_state" where
  "feed_apply tc (FeedDocument now doc) st = apply_document tc now doc st"
| "feed_apply tc (FeedSnapshot sn) st = apply_snapshot sn st"

text \<open>The state, the car and lap rows written so far, and the time of the last document.\<close>

type_synonym feed_run = "field_state \<times> field_car list \<times> field_lap list \<times> real"

definition feed_step :: "text_conv \<Rightarrow> feed_op \<Rightarrow> feed_run \<Rightarrow> feed_run" where
  "feed_step tc op1 s = (case s of (st, rows, laps, t) \<Rightarrow>
     (case feed_apply tc op1 st of
        (Inl _, st1) \<Rightarrow> (st1, rows, laps, feed_time op1)
      | (Inr b, st1) \<Rightarrow> (st1, rows @ fb_cars b, laps @ fb_laps b, feed_time op1)))"

text \<open>
  The contract of the feed: documents are understood and later than the ones before, a document has at most one element
  that writes standings and names each car once, and the first standings are a full leaderboard.
\<close>

definition orderly_document :: "field_state \<Rightarrow> feed_op \<Rightarrow> bool" where
  "orderly_document st op1 = (case op1 of
     FeedDocument now (Some d) \<Rightarrow>
       (case filter is_board (document_elements d) of
          [] \<Rightarrow> True
        | [e] \<Rightarrow> starts_table e \<or> fst_epoch st \<noteq> None
        | _ \<Rightarrow> False)
   | _ \<Rightarrow> True)"

definition feed_guard :: "text_conv \<Rightarrow> feed_op \<Rightarrow> feed_run \<Rightarrow> bool" where
  "feed_guard tc op1 s = (case s of (st, rows, laps, t) \<Rightarrow>
     t < feed_time op1 \<and> orderly_document st op1
     \<and> (case fst (feed_apply tc op1 st) of Inl _ \<Rightarrow> False | Inr b \<Rightarrow> distinct (map fcr_car_number (fb_cars b))))"

definition feed_inv :: "feed_run \<Rightarrow> bool" where
  [inv_defs]: "feed_inv s = (case s of (st, rows, laps, t) \<Rightarrow> table_inv st rows laps t)"

lemma apply_elements_append:
  "apply_elements tc now (xs @ ys) bs = (case apply_elements tc now xs bs of (Inl x, st) \<Rightarrow> (Inl x, st) | (Inr b, st) \<Rightarrow> apply_elements tc now ys (b, st))"
  by (induction xs arbitrary: bs) (auto split: prod.splits sum.splits)

lemma filter_single:
  assumes "filter P xs = [x]"
  obtains ys zs where "xs = ys @ x # zs" "list_all (\<lambda>y. \<not> P y) ys" "list_all (\<lambda>y. \<not> P y) zs" "P x"
proof -
  from assms have "x \<in> set (filter P xs)" by simp
  obtain ys zs where xs: "xs = ys @ x # zs" "\<forall>y \<in> set ys. \<not> P y" "P x" "filter P zs = []"
    using assms by (auto simp: filter_eq_Cons_iff)
  moreover have "list_all (\<lambda>y. \<not> P y) ys" using xs(2) by (simp add: list_all_iff)
  moreover have "list_all (\<lambda>y. \<not> P y) zs" using xs(4) by (simp add: list_all_iff filter_empty_conv)
  ultimately show thesis using that by blast
qed

lemma document_inv:
  assumes inv: "table_inv st rows laps t" and t: "t < now" and o: "orderly_document st (FeedDocument now (Some d))"
    and a: "apply_document tc now (Some d) st = (Inr b, st1)" "distinct (map fcr_car_number (fb_cars b))"
  shows "table_inv st1 (rows @ fb_cars b) (laps @ fb_laps b) now"
proof -
  let ?es = "document_elements d" and ?st = "st\<lparr>fst_documents := fst_documents st + 1\<rparr>"
  have run: "apply_elements tc now ?es (batch_empty, ?st) = (Inr b, st1)" using a(1) by (simp add: apply_document_def)
  have inv0: "table_inv ?st rows laps t" using inv table_inv_cong[of ?st st] by simp
  consider "filter is_board ?es = []" | e where "filter is_board ?es = [e]" "starts_table e \<or> fst_epoch st \<noteq> None"
    using o by (auto simp: orderly_document_def split: list.splits)
  then show ?thesis
  proof cases
    case 1
    then have "list_all (\<lambda>e. \<not> is_board e) ?es" by (simp add: filter_empty_conv list_all_iff)
    from quiet_elements[OF this run] have q: "fb_cars b = []" "fb_laps b = []" "fst_epoch st1 = fst_epoch ?st" "fst_cars st1 = fst_cars ?st"
      by (simp_all add: batch_empty_def)
    have "table_inv st1 rows laps t" using inv0 table_inv_cong[OF q(3,4)] by simp
    then show ?thesis using table_inv_later[of st1 rows laps t now] q t by simp
  next
    case 2
    from filter_single[OF 2(1)] obtain ys zs where es: "?es = ys @ e # zs" "list_all (\<lambda>e. \<not> is_board e) ys" "list_all (\<lambda>e. \<not> is_board e) zs" "is_board e"
      by blast
    obtain b0 st0 where y: "apply_elements tc now ys (batch_empty, ?st) = (Inr b0, st0)"
      using run unfolding es(1) apply_elements_append by (auto split: prod.splits sum.splits)
    then obtain b2 st2 where e: "apply_element tc now e (b0, st0) = (Inr b2, st2)" and z: "apply_elements tc now zs (b2, st2) = (Inr b, st1)"
      using run unfolding es(1) apply_elements_append by (auto split: prod.splits sum.splits)
    have q0: "fb_cars b0 = []" "fb_laps b0 = []" "fst_epoch st0 = fst_epoch ?st" "fst_cars st0 = fst_cars ?st"
      using quiet_elements[OF es(2) y] by (simp_all add: batch_empty_def)
    have q: "fb_cars b = fb_cars b2" "fb_laps b = fb_laps b2" "fst_epoch st1 = fst_epoch st2" "fst_cars st1 = fst_cars st2"
      using quiet_elements[OF es(3) z] by simp_all
    have i0: "table_inv st0 rows laps t" using inv0 table_inv_cong[OF q0(3,4)] by simp
    have "starts_table e \<or> fst_epoch st0 \<noteq> None" using 2(2) q0(3) by simp
    then have "table_inv st2 (rows @ fb_cars b2) (laps @ fb_laps b2) now"
      using board_element[OF i0 t _ es(4) e q0(1,2)] a(2) q(1) by simp
    then show ?thesis using table_inv_cong[OF q(3,4)] q(1,2) by simp
  qed
qed

lemma snapshot_inv:
  assumes inv: "table_inv st rows laps t" and t: "t < sn_at sn"
    and a: "apply_snapshot sn st = (Inr b, st1)" "distinct (map fcr_car_number (fb_cars b))"
  shows "table_inv st1 (rows @ fb_cars b) (laps @ fb_laps b) (sn_at sn)"
proof -
  obtain session st0 where m: "merge_session sn (st\<lparr>fst_documents := fst_documents st + 1\<rparr>) = (session, st0)" by (rule prod.exhaust)
  then have st0: "fst_epoch st0 = fst_epoch st" "fst_cars st0 = fst_cars st"
    by (auto simp: merge_session_def Let_def split: option.splits if_splits)
  let ?new = "map (\<lambda>c. c\<lparr>fcr_time := sn_at sn, fcr_source := fst_source st0\<rparr>) (sn_cars sn)"
  obtain changed ls where d: "diff True (sn_at sn) ?new st0 = ((changed, ls), st1)" "fb_cars b = changed" "fb_laps b = ls"
    using a(1) m by (auto simp: apply_snapshot_def Let_def split: if_splits prod.splits)
  have "table_inv st0 rows laps t" using inv table_inv_cong[OF st0] by simp
  moreover have "list_all (\<lambda>r. fcr_time r = sn_at sn) ?new" by (simp add: list_all_iff)
  ultimately show ?thesis using diff_inv[OF _ t _ _ d(1)] d a(2) by simp
qed

interpretation field_feed: guarded_machine "feed_step tc" "feed_guard tc" feed_inv for tc
proof
  fix s op1 assume inv: "feed_inv s" and g: "feed_guard tc op1 s"
  obtain st rows laps t where s: "s = (st, rows, laps, t)" by (metis prod.exhaust)
  from inv have i: "table_inv st rows laps t" by (simp add: feed_inv_def s)
  from g obtain b st1 where a: "feed_apply tc op1 st = (Inr b, st1)" "distinct (map fcr_car_number (fb_cars b))" "t < feed_time op1" "orderly_document st op1"
    by (auto simp: feed_guard_def s split: sum.splits) (metis fst_conv prod.exhaust)
  have "table_inv st1 (rows @ fb_cars b) (laps @ fb_laps b) (feed_time op1)"
  proof (cases op1)
    case (FeedDocument now doc)
    then obtain d where "doc = Some d" using a(1) by (cases doc) (simp_all add: apply_document_def)
    with FeedDocument a show ?thesis using document_inv[OF i, of now d tc b st1] by simp
  next
    case (FeedSnapshot sn)
    with a show ?thesis using snapshot_inv[OF i, of sn b st1] by simp
  qed
  then show "feed_inv (feed_step tc op1 s)" by (simp add: feed_inv_def feed_step_def s a(1))
qed


text \<open>Two snapshots of one car: the second one, with a lap more, is what the view shows, and the lap is recorded.\<close>

definition wit_field_car :: "real \<Rightarrow> int \<Rightarrow> field_car" where
  "wit_field_car now laps = \<lparr>fcr_time = now, fcr_source = ''relay'', fcr_epoch = 1, fcr_car_number = ''7'', fcr_competitor_id = None, fcr_car_class = None,
     fcr_position = Some 1, fcr_class_position = None, fcr_laps = Some laps, fcr_last_lap_s = Some (Fin 90), fcr_best_lap_s = None,
     fcr_gap_lead_s = None, fcr_gap_next_s = None, fcr_sec1_s = None, fcr_sec2_s = None, fcr_sec3_s = None, fcr_pit_count = None,
     fcr_in_pit = None, fcr_pit_flag = None, fcr_driver = None, fcr_state = None\<rparr>"

definition wit_snapshot :: "real \<Rightarrow> int \<Rightarrow> feed_op" where
  "wit_snapshot now laps = FeedSnapshot \<lparr>sn_at = now, sn_source = ''relay'', sn_session = None, sn_cars = [wit_field_car now laps]\<rparr>"

definition wit_feed_conv :: text_conv where
  "wit_feed_conv = \<lparr>float_of_str = \<lambda>_. None, int_of_str = \<lambda>_. None, str_of = \<lambda>_. []\<rparr>"

lemmas wit_feed_defs = feed_step_def feed_guard_def orderly_document_def wit_snapshot_def apply_snapshot_def merge_session_def diff_def diff_row_def
  new_table_def lap_completed_def car_same_def wit_field_car_def MAX_CARS_def field_state_new_def Let_def

lemma wit_feed_first:
  "feed_guard wit_feed_conv (wit_snapshot 1 4) (field_state_new ''relay'', [], [], 0)"
  "feed_step wit_feed_conv (wit_snapshot 1 4) (field_state_new ''relay'', [], [], 0)
     = ((field_state_new ''relay'')\<lparr>fst_documents := 1, fst_epoch := Some 1, fst_cars := [(''7'', wit_field_car 1 4)]\<rparr>, [wit_field_car 1 4], [], 1)"
  by (simp_all add: wit_feed_defs)

lemma wit_feed_second:
  "feed_guard wit_feed_conv (wit_snapshot 2 5) ((field_state_new ''relay'')\<lparr>fst_documents := 1, fst_epoch := Some 1, fst_cars := [(''7'', wit_field_car 1 4)]\<rparr>, [wit_field_car 1 4], [], 1)"
  "\<exists>laps. feed_step wit_feed_conv (wit_snapshot 2 5) ((field_state_new ''relay'')\<lparr>fst_documents := 1, fst_epoch := Some 1, fst_cars := [(''7'', wit_field_car 1 4)]\<rparr>, [wit_field_car 1 4], [], 1)
     = ((field_state_new ''relay'')\<lparr>fst_documents := 2, fst_epoch := Some 1, fst_cars := [(''7'', wit_field_car 2 5)]\<rparr>, [wit_field_car 1 4, wit_field_car 2 5], laps, 2) \<and> laps \<noteq> []"
  by (simp_all add: wit_feed_defs)


section \<open>A repeated leaderboard writes nothing\<close>

lemma diff_row_same:
  "map_of (fst_cars st) (fcr_car_number r) = Some (r\<lparr>fcr_time := t1, fcr_epoch := e1\<rparr>) \<Longrightarrow> Some NaN \<notin> set (car_floats r) \<Longrightarrow> diff_row ep r (out, st) = (out, st)"
  by (cases out) (simp add: diff_row_def Let_def car_same_def car_floats_def)

lemma diff_rows_same:
  assumes "list_all (\<lambda>r. Some NaN \<notin> set (car_floats r) \<and> (\<exists>t1 e1. map_of (fst_cars st) (fcr_car_number r) = Some (r\<lparr>fcr_time := t1, fcr_epoch := e1\<rparr>))) rows"
  shows "fold (diff_row ep) rows (out, st) = (out, st)"
  using assms by (induction rows) (auto simp: diff_row_same)

lemma diff_row_cars:
  "fst_cars (snd (diff_row ep r acc)) = fst_cars (snd acc) \<and> (\<exists>t1 e1. map_of (fst_cars (snd acc)) (fcr_car_number r) = Some (r\<lparr>fcr_time := t1, fcr_epoch := e1\<rparr>))
   \<or> fst_cars (snd (diff_row ep r acc)) = AList.update (fcr_car_number r) (r\<lparr>fcr_epoch := ep\<rparr>) (fst_cars (snd acc))"
proof -
  obtain changed ls st where acc: "acc = ((changed, ls), st)" by (metis prod.exhaust)
  let ?r = "r\<lparr>fcr_epoch := ep\<rparr>" and ?prev = "map_of (fst_cars st) (fcr_car_number r)"
  show ?thesis
  proof (cases "car_same ?r ?prev")
    case True
    then obtain q where "?prev = Some q" "q = r\<lparr>fcr_time := fcr_time q, fcr_epoch := fcr_epoch q\<rparr>"
      by (auto simp: car_same_def split: option.splits)
    then show ?thesis using True by (auto simp: diff_row_def Let_def acc)
  qed (simp add: diff_row_def Let_def acc)
qed

lemma diff_rows_hold:
  assumes "distinct (map fcr_car_number rows)" "r \<in> set rows"
  shows "\<exists>t1 e1. map_of (fst_cars (snd (fold (diff_row ep) rows acc))) (fcr_car_number r) = Some (r\<lparr>fcr_time := t1, fcr_epoch := e1\<rparr>)"
  using assms
proof (induction rows arbitrary: acc)
  case (Cons x rows)
  have keep: "map_of (fst_cars (snd (fold (diff_row ep) rs acc))) n = map_of (fst_cars (snd acc)) n" if "n \<notin> fcr_car_number ` set rs" for rs acc n
    using that
  proof (induction rs arbitrary: acc)
    case (Cons y rs)
    then have "map_of (fst_cars (snd (diff_row ep y acc))) n = map_of (fst_cars (snd acc)) n"
      using diff_row_cars[of ep y acc] by (auto simp: map_of_update)
    with Cons show ?case by simp
  qed simp
  show ?case
  proof (cases "r = x")
    case True
    have "\<exists>t1 e1. map_of (fst_cars (snd (diff_row ep x acc))) (fcr_car_number x) = Some (x\<lparr>fcr_time := t1, fcr_epoch := e1\<rparr>)"
      using diff_row_cars[of ep x acc]
    proof
      assume "fst_cars (snd (diff_row ep x acc)) = AList.update (fcr_car_number x) (x\<lparr>fcr_epoch := ep\<rparr>) (fst_cars (snd acc))"
      then have "map_of (fst_cars (snd (diff_row ep x acc))) (fcr_car_number x) = Some (x\<lparr>fcr_time := fcr_time x, fcr_epoch := ep\<rparr>)"
        by (simp add: map_of_update)
      then show ?thesis by blast
    qed simp
    with True Cons.prems keep[of "fcr_car_number x" rows "diff_row ep x acc"] show ?thesis by simp
  next
    case False
    with Cons show ?thesis by simp
  qed
qed simp

end
