(* ===== verification/Field_Service.thy ===== *)
theory Field_Service
  imports Field_State Framing
begin

text \<open>
  \<^verbatim>\<open>src/pit/timing_feed/service.py\<close>, \<^verbatim>\<open>database.py\<close>, \<^verbatim>\<open>reconcile.py\<close>, \<^verbatim>\<open>health.py\<close> and the writer of
  \<^verbatim>\<open>capture.py\<close>: documents and snapshots into the tables and the capture file, and the reconciliation of our own car.

  A transaction ends in \<open>TxCommit\<close>, or \<open>TxFail n\<close>: its n-th statement raises, or its commit when it has no more
  than \<open>n\<close> statements, and nothing of it is kept in the tables. What a failed transaction has changed in
  memory stays. Identifiers are arguments.
\<close>

section \<open>Reconciliation\<close>

definition MONITOR_LAP_COUNT :: string where "MONITOR_LAP_COUNT = ''field.lap_count''"
definition MONITORS :: "string list" where "MONITORS = [MONITOR_LAP_COUNT]"

record field_finding =
  ff_monitor :: string
  ff_severity :: string
  ff_score :: real
  ff_car_number :: string
  ff_feed_laps :: int
  ff_vehicle_laps :: int
  ff_delta :: int
  ff_higher :: string
  ff_likely_cause :: string

definition lap_count_finding :: "string \<Rightarrow> int option \<Rightarrow> int \<Rightarrow> int \<Rightarrow> field_finding option" where
  [op_defs]: "lap_count_finding car feed_laps vehicle_laps tolerance = (case feed_laps of
     None \<Rightarrow> None
   | Some n \<Rightarrow>
       (let delta = n - vehicle_laps
        in if \<bar>delta\<bar> \<le> tolerance then None
           else Some \<lparr>ff_monitor = MONITOR_LAP_COUNT, ff_severity = (if \<bar>delta\<bar> \<le> 3 then ''warning'' else ''critical''),
             ff_score = of_int \<bar>delta\<bar>, ff_car_number = car, ff_feed_laps = n, ff_vehicle_laps = vehicle_laps, ff_delta = delta,
             ff_higher = (if delta > 0 then ''feed'' else ''vehicle''),
             ff_likely_cause = (if delta > 0 then ''vehicle timing missed a line crossing'' else ''transponder not seen by the timekeepers'')\<rparr>))"

definition nearer_offset :: "real \<Rightarrow> real \<Rightarrow> real \<Rightarrow> real option \<Rightarrow> real option" where
  "nearer_offset tod window crossed best =
     (let off = crossed - tod
      in if \<bar>off\<bar> \<le> window \<and> (case best of None \<Rightarrow> True | Some b \<Rightarrow> \<bar>off\<bar> < \<bar>b\<bar>) then Some off else best)"

definition clock_offset_s :: "real \<Rightarrow> real list \<Rightarrow> real \<Rightarrow> real option" where
  [op_defs]: "clock_offset_s tod crossings window =
     map_option (\<lambda>b. py_round_digits b 3) (fold (nearer_offset tod window) crossings None)"

section \<open>The database\<close>

record finding_row =
  fw_id :: nat
  fw_monitor :: string
  fw_opened_at :: real
  fw_closed_at :: "real option"
  fw_severity :: string
  fw_peak_score :: real
  fw_summary :: field_finding

record our_car =
  oc_session_id :: string
  oc_car_number :: "string option"

record field_db =
  fd_sessions :: "field_session list"
  fd_cars :: "field_car list"
  fd_laps :: "field_lap list"
  fd_passings :: "field_passing list"
  fd_metrics :: "(string \<times> real \<times> real) list"
  fd_findings :: "finding_row list"
  fd_open_findings :: "(string \<times> nat) list"

datatype tx = TxCommit | TxFail nat

text \<open>\<open>write\<close>: the rows of one document in one transaction.\<close>

definition batch_nonempty :: "field_batch \<Rightarrow> bool" where
  "batch_nonempty b \<longleftrightarrow> fb_session b \<noteq> None \<or> fb_cars b \<noteq> [] \<or> fb_laps b \<noteq> [] \<or> fb_passings b \<noteq> []"

definition db_write :: "tx \<Rightarrow> field_batch \<Rightarrow> field_db \<Rightarrow> nat res \<times> field_db" where
  [op_defs]: "db_write x b db =
     (if \<not> batch_nonempty b then (Inr 0, db)
      else case x of
          TxFail _ \<Rightarrow> (Inl PsycopgError, db)
        | TxCommit \<Rightarrow> (Inr (field_batch_rows b), db\<lparr>fd_sessions := fd_sessions db @ (case fb_session b of None \<Rightarrow> [] | Some s \<Rightarrow> [s]),
            fd_cars := fd_cars db @ fb_cars b, fd_laps := fd_laps db @ fb_laps b, fd_passings := fd_passings db @ fb_passings b\<rparr>))"

definition write_metric :: "tx \<Rightarrow> real \<Rightarrow> string \<Rightarrow> real \<Rightarrow> field_db \<Rightarrow> unit res \<times> field_db" where
  "write_metric x t metric v db = (case x of
     TxCommit \<Rightarrow> (Inr (), db\<lparr>fd_metrics := fd_metrics db @ [(metric, t, v)]\<rparr>)
   | TxFail _ \<Rightarrow> (Inl PsycopgError, db))"

definition adopt_open_findings :: "tx \<Rightarrow> field_db \<Rightarrow> nat res \<times> field_db" where
  [op_defs]: "adopt_open_findings x db = (case x of
     TxFail _ \<Rightarrow> (Inl PsycopgError, db)
   | TxCommit \<Rightarrow>
       (let held = fold (\<lambda>w d. AList.update (fw_monitor w) (fw_id w) d)
              (filter (\<lambda>w. fw_closed_at w = None \<and> fw_monitor w \<in> set MONITORS) (fd_findings db)) []
        in (Inr (length held), db\<lparr>fd_open_findings := held\<rparr>)))"

definition open_row :: "nat \<Rightarrow> real \<Rightarrow> field_finding \<Rightarrow> finding_row" where
  "open_row i t f = \<lparr>fw_id = i, fw_monitor = ff_monitor f, fw_opened_at = t, fw_closed_at = None, fw_severity = ff_severity f,
     fw_peak_score = ff_score f, fw_summary = f\<rparr>"

definition update_row :: "nat \<Rightarrow> field_finding \<Rightarrow> finding_row \<Rightarrow> finding_row" where
  "update_row i f w = (if fw_id w = i then w\<lparr>fw_severity := ff_severity f, fw_peak_score := max (fw_peak_score w) (ff_score f), fw_summary := f\<rparr> else w)"

definition close_row :: "nat \<Rightarrow> real \<Rightarrow> finding_row \<Rightarrow> finding_row" where
  "close_row i t w = (if fw_id w = i \<and> fw_closed_at w = None then w\<lparr>fw_closed_at := Some t\<rparr> else w)"

text \<open>
  The statements of \<open>reconcile_findings\<close> in order, each with the change it makes in memory: an insert is remembered after it
  succeeded, the identifier of a close is forgotten before it is executed. The value is the number of statements
  executed before the failing one, or all of them.
\<close>

fun open_or_update :: "(nat \<Rightarrow> bool) \<Rightarrow> nat list \<Rightarrow> real \<Rightarrow> field_finding list \<Rightarrow> nat \<Rightarrow> (string \<times> nat) list \<Rightarrow> finding_row list \<Rightarrow> bool \<times> nat \<times> (string \<times> nat) list \<times> finding_row list" where
  "open_or_update fails ids t [] k held rows = (True, k, held, rows)"
| "open_or_update fails ids t (f # fs) k held rows =
     (if fails k then (False, k, held, rows)
      else case map_of held (ff_monitor f) of
          None \<Rightarrow> (let i = ids ! k in open_or_update fails ids t fs (k + 1) (AList.update (ff_monitor f) i held) (rows @ [open_row i t f]))
        | Some i \<Rightarrow> open_or_update fails ids t fs (k + 1) held (map (update_row i f) rows))"

fun close_gone :: "(nat \<Rightarrow> bool) \<Rightarrow> real \<Rightarrow> string set \<Rightarrow> (string \<times> nat) list \<Rightarrow> nat \<Rightarrow> (string \<times> nat) list \<Rightarrow> finding_row list \<Rightarrow> bool \<times> nat \<times> (string \<times> nat) list \<times> finding_row list" where
  "close_gone fails t active [] k held rows = (True, k, held, rows)"
| "close_gone fails t active ((m, i) # ms) k held rows =
     (if m \<in> active then close_gone fails t active ms k held rows
      else if fails k then (False, k, AList.delete m held, rows)
      else close_gone fails t active ms (k + 1) (AList.delete m held) (map (close_row i t) rows))"

definition tx_fails :: "tx \<Rightarrow> nat \<Rightarrow> bool" where
  "tx_fails x k = (case x of TxCommit \<Rightarrow> False | TxFail n \<Rightarrow> n = k)"

text \<open>\<open>active\<close> keeps the last finding of each monitor, at the place of the first.\<close>

definition active_findings :: "field_finding list \<Rightarrow> field_finding list" where
  "active_findings fs = map snd (fold (\<lambda>f d. AList.update (ff_monitor f) f d) fs [])"

definition reconcile_findings :: "tx \<Rightarrow> nat list \<Rightarrow> field_finding list \<Rightarrow> real \<Rightarrow> field_db \<Rightarrow> unit res \<times> field_db" where
  [op_defs]: "reconcile_findings x ids fs t db =
     (case open_or_update (tx_fails x) ids t (active_findings fs) 0 (fd_open_findings db) (fd_findings db) of
        (ok1, k1, held1, rows1) \<Rightarrow>
          if \<not> ok1 then (Inl PsycopgError, db\<lparr>fd_open_findings := held1\<rparr>)
          else (case close_gone (tx_fails x) t (set (map ff_monitor fs)) held1 k1 held1 rows1 of
               (ok2, k2, held2, rows2) \<Rightarrow>
                 if ok2 \<and> x = TxCommit then (Inr (), db\<lparr>fd_open_findings := held2, fd_findings := rows2\<rparr>)
                 else (Inl PsycopgError, db\<lparr>fd_open_findings := held2\<rparr>)))"

section \<open>The capture file\<close>

text \<open>A document is its arrival time and text; the file is the documents whose lines reached it. Opening the
  file may fail, and so may a write, after the line reached the file or before.\<close>

record feed_document =
  dc_at :: real
  dc_text :: code_points

datatype capture_io = CapOk | CapOpenFails | CapWriteFails bool

record capture_writer =
  cw_open :: bool
  cw_written :: int
  cw_file :: "feed_document list"

definition capture_new :: "feed_document list \<Rightarrow> capture_writer" where
  "capture_new file = \<lparr>cw_open = False, cw_written = 0, cw_file = file\<rparr>"

definition capture_close :: "capture_writer \<Rightarrow> capture_writer" where
  "capture_close w = w\<lparr>cw_open := False\<rparr>"

definition capture_write :: "capture_io \<Rightarrow> feed_document \<Rightarrow> capture_writer \<Rightarrow> capture_writer" where
  [op_defs]: "capture_write io d w =
     (if \<not> cw_open w \<and> cw_written w < 0 then w
      else if \<not> cw_open w \<and> io = CapOpenFails then w\<lparr>cw_written := -1\<rparr>
      else case io of
          CapWriteFails reached \<Rightarrow> (capture_close w)\<lparr>cw_written := -1, cw_file := cw_file w @ (if reached then [d] else [])\<rparr>
        | _ \<Rightarrow> w\<lparr>cw_open := True, cw_written := cw_written w + 1, cw_file := cw_file w @ [d]\<rparr>)"

section \<open>The service\<close>

record feed_health =
  fh_documents :: nat
  fh_documents_rejected :: nat
  fh_rows_written :: nat
  fh_batches_dropped :: nat
  fh_db_errors :: nat
  fh_our_car :: "string option"
  fh_session_id :: "string option"
  fh_feed_laps :: "int option"
  fh_vehicle_laps :: "int option"
  fh_clock_offset_s :: "real option"
  fh_findings_open :: nat
  fh_ingest_snapshots :: nat
  fh_ingest_t71_messages :: nat
  fh_ingest_rejected :: nat
  fh_capture_written :: int

record feed_service =
  sv_state :: field_state
  sv_db :: field_db
  sv_health :: feed_health
  sv_our_passings :: "field_passing list"
  sv_adopted :: bool
  sv_queue :: "field_snapshot list"
  sv_capture :: "capture_writer option"

definition QUEUE_SIZE :: nat where "QUEUE_SIZE = 256"

definition health_new :: feed_health where
  "health_new = \<lparr>fh_documents = 0, fh_documents_rejected = 0, fh_rows_written = 0, fh_batches_dropped = 0, fh_db_errors = 0, fh_our_car = None,
     fh_session_id = None, fh_feed_laps = None, fh_vehicle_laps = None, fh_clock_offset_s = None, fh_findings_open = 0,
     fh_ingest_snapshots = 0, fh_ingest_t71_messages = 0, fh_ingest_rejected = 0, fh_capture_written = 0\<rparr>"

definition feed_service_new :: "string \<Rightarrow> field_db \<Rightarrow> feed_service" where
  "feed_service_new kind db = \<lparr>sv_state = field_state_new (if kind = ''none'' then ''relay'' else kind), sv_db = db, sv_health = health_new,
     sv_our_passings = [], sv_adopted = False, sv_queue = [], sv_capture = None\<rparr>"

text \<open>\<open>submit\<close>, called by the ingest endpoints: the newest wins when the queue is full.\<close>

definition submit_snapshot :: "field_snapshot \<Rightarrow> feed_service \<Rightarrow> feed_service" where
  [op_defs]: "submit_snapshot sn sv =
     (if length (sv_queue sv) \<ge> QUEUE_SIZE
      then sv\<lparr>sv_queue := tl (sv_queue sv) @ [sn], sv_health := (sv_health sv)\<lparr>fh_batches_dropped := fh_batches_dropped (sv_health sv) + 1\<rparr>\<rparr>
      else sv\<lparr>sv_queue := sv_queue sv @ [sn]\<rparr>)"

definition observe_document :: "feed_service \<Rightarrow> feed_service" where
  "observe_document sv = sv\<lparr>sv_health := (sv_health sv)\<lparr>fh_documents := fh_documents (sv_health sv) + 1\<rparr>\<rparr>"

definition reject_document :: "feed_service \<Rightarrow> feed_service" where
  "reject_document sv = sv\<lparr>sv_health := (sv_health sv)\<lparr>fh_documents_rejected := fh_documents_rejected (sv_health sv) + 1\<rparr>\<rparr>"

definition write_batch :: "tx \<Rightarrow> field_batch \<Rightarrow> feed_service \<Rightarrow> feed_service" where
  [op_defs]: "write_batch x b sv =
     (if \<not> batch_nonempty b then sv
      else let h = sv_health sv in
           case db_write x b (sv_db sv) of
             (Inl _, db) \<Rightarrow> sv\<lparr>sv_db := db, sv_health := h\<lparr>fh_db_errors := fh_db_errors h + 1, fh_batches_dropped := fh_batches_dropped h + 1\<rparr>\<rparr>
           | (Inr n, db) \<Rightarrow> sv\<lparr>sv_db := db, sv_health := h\<lparr>fh_rows_written := fh_rows_written h + n\<rparr>\<rparr>)"

definition note_passings :: "field_batch \<Rightarrow> feed_service \<Rightarrow> feed_service" where
  "note_passings b sv = (case fh_our_car (sv_health sv) of
     None \<Rightarrow> sv
   | Some our \<Rightarrow> sv\<lparr>sv_our_passings := last_n 32 (sv_our_passings sv
       @ filter (\<lambda>p. fpr_car_number p = Some our \<and> fpr_line p = ''main'' \<and> fpr_tod p \<noteq> None) (fb_passings b))\<rparr>)"

definition capture_document :: "bool \<Rightarrow> capture_io \<Rightarrow> feed_document \<Rightarrow> feed_service \<Rightarrow> feed_service" where
  "capture_document capture io d sv = (case sv_capture sv of
     Some w \<Rightarrow>
       if capture then (let w1 = capture_write io d w in sv\<lparr>sv_capture := Some w1, sv_health := (sv_health sv)\<lparr>fh_capture_written := cw_written w1\<rparr>\<rparr>)
       else sv
   | None \<Rightarrow> sv)"

text \<open>\<open>parse\<close> is the XML parser, \<open>None\<close> for text that is not XML. An exception other than \<open>DocumentError\<close> escapes to the loop that called the handler.\<close>

definition handle_document :: "text_conv \<Rightarrow> (code_points \<Rightarrow> xml option) \<Rightarrow> tx \<Rightarrow> capture_io \<Rightarrow> bool \<Rightarrow> feed_document
    \<Rightarrow> feed_service \<Rightarrow> field_batch option res \<times> feed_service" where
  [op_defs]: "handle_document tc parse x io capture d sv0 =
     (let sv = capture_document capture io d (observe_document sv0) in
      case apply_document tc (dc_at d) (parse (dc_text d)) (sv_state sv) of
        (Inl e, st) \<Rightarrow>
          (let sv1 = sv\<lparr>sv_state := st\<rparr> in if e = DecodeError then (Inr None, reject_document sv1) else (Inl e, sv1))
      | (Inr b, st) \<Rightarrow> (Inr (Some b), write_batch x b (note_passings b (sv\<lparr>sv_state := st\<rparr>))))"

definition handle_snapshot :: "tx \<Rightarrow> field_snapshot \<Rightarrow> feed_service \<Rightarrow> field_batch option res \<times> feed_service" where
  [op_defs]: "handle_snapshot x sn sv0 =
     (let sv = observe_document sv0 in
      case apply_snapshot sn (sv_state sv) of
        (Inl e, st) \<Rightarrow>
          (let sv1 = sv\<lparr>sv_state := st\<rparr> in if e = DecodeError then (Inr None, reject_document sv1) else (Inl e, sv1))
      | (Inr b, st) \<Rightarrow> (Inr (Some b), write_batch x b (sv\<lparr>sv_state := st\<rparr>)))"

text \<open>\<open>_ingest_loop\<close>: one snapshot off the queue.\<close>

definition ingest_pass :: "tx \<Rightarrow> feed_service \<Rightarrow> feed_service" where
  "ingest_pass x sv = (case sv_queue sv of [] \<Rightarrow> sv | sn # q \<Rightarrow> snd (handle_snapshot x sn (sv\<lparr>sv_queue := q\<rparr>)))"

text \<open>What the database answers a reconciliation pass.\<close>

record reconcile_env =
  re_now :: real
  re_adopt :: tx
  re_our_car :: "our_car option res"
  re_vehicle_laps :: "int res"
  re_crossings :: "real list res"
  re_metrics :: "nat \<Rightarrow> tx"
  re_findings :: tx
  re_ids :: "nat list"
  re_tolerance :: int

definition adopt_once :: "reconcile_env \<Rightarrow> feed_service \<Rightarrow> unit res \<times> feed_service" where
  "adopt_once env sv =
     (if sv_adopted sv then (Inr (), sv)
      else case adopt_open_findings (re_adopt env) (sv_db sv) of
          (Inl e, db) \<Rightarrow> (Inl e, sv\<lparr>sv_db := db\<rparr>)
        | (Inr _, db) \<Rightarrow> (Inr (), sv\<lparr>sv_db := db, sv_adopted := True\<rparr>))"

fun offset_loop :: "reconcile_env \<Rightarrow> real list \<Rightarrow> field_passing list \<Rightarrow> nat \<Rightarrow> feed_service \<Rightarrow> unit res \<times> feed_service" where
  "offset_loop env crossings [] k sv = (Inr (), sv)"
| "offset_loop env crossings (p # ps) k sv = (case fpr_tod p of
     None \<Rightarrow> offset_loop env crossings ps k sv
   | Some tod \<Rightarrow>
       (case clock_offset_s tod crossings 30 of
          None \<Rightarrow> offset_loop env crossings ps k sv
        | Some off \<Rightarrow>
            (let sv1 = sv\<lparr>sv_health := (sv_health sv)\<lparr>fh_clock_offset_s := Some off\<rparr>\<rparr> in
             case write_metric (re_metrics env k) tod ''clock_offset_s'' off (sv_db sv1) of
               (Inl e, db) \<Rightarrow> (Inl e, sv1\<lparr>sv_db := db\<rparr>)
             | (Inr _, db) \<Rightarrow>
                 (case write_metric (re_metrics env (k + 1)) (fpr_time p) ''feed_latency_s'' (fpr_time p - tod) db of
                    (Inl e, db1) \<Rightarrow> (Inl e, sv1\<lparr>sv_db := db1\<rparr>)
                  | (Inr _, db1) \<Rightarrow> offset_loop env crossings ps (k + 2) (sv1\<lparr>sv_db := db1\<rparr>)))))"

definition clock_offset :: "reconcile_env \<Rightarrow> feed_service \<Rightarrow> unit res \<times> feed_service" where
  [op_defs]: "clock_offset env sv =
     (if sv_our_passings sv = [] then (Inr (), sv)
      else let ps = sv_our_passings sv; sv1 = sv\<lparr>sv_our_passings := []\<rparr> in
           case re_crossings env of
             Inl e \<Rightarrow> (Inl e, sv1)
           | Inr crossings \<Rightarrow> offset_loop env crossings ps 0 sv1)"

definition set_our_car :: "our_car option \<Rightarrow> feed_service \<Rightarrow> feed_service" where
  "set_our_car our sv = sv\<lparr>sv_health := (case our of
     None \<Rightarrow> (sv_health sv)\<lparr>fh_our_car := None, fh_session_id := None, fh_feed_laps := None, fh_vehicle_laps := None\<rparr>
   | Some oc \<Rightarrow>
       if oc_car_number oc \<in> {None, Some []} then (sv_health sv)\<lparr>fh_our_car := None, fh_session_id := Some (oc_session_id oc), fh_feed_laps := None, fh_vehicle_laps := None\<rparr>
       else (sv_health sv)\<lparr>fh_our_car := oc_car_number oc, fh_session_id := Some (oc_session_id oc)\<rparr>)\<rparr>"

definition feed_laps_of :: "string \<Rightarrow> feed_service \<Rightarrow> int option" where
  "feed_laps_of car sv = (case map_of (fst_cars (sv_state sv)) car of None \<Rightarrow> None | Some r \<Rightarrow> fcr_laps r)"

text \<open>The findings of a pass: the lap counts, then the clock.\<close>

definition our_findings :: "reconcile_env \<Rightarrow> our_car option \<Rightarrow> feed_service \<Rightarrow> field_finding list res \<times> feed_service" where
  "our_findings env our sv =
     (let sv1 = set_our_car our sv in
      case fh_our_car (sv_health sv1) of
        None \<Rightarrow> (Inr [], sv1)
      | Some car \<Rightarrow>
          (case re_vehicle_laps env of
             Inl e \<Rightarrow> (Inl e, sv1)
           | Inr vehicle_laps \<Rightarrow>
               (let n = feed_laps_of car sv1;
                    sv2 = sv1\<lparr>sv_health := (sv_health sv1)\<lparr>fh_feed_laps := n, fh_vehicle_laps := Some vehicle_laps\<rparr>\<rparr>;
                    fs = (case lap_count_finding car n vehicle_laps (re_tolerance env) of None \<Rightarrow> [] | Some f \<Rightarrow> [f])
                in case clock_offset env sv2 of (Inl e, sv3) \<Rightarrow> (Inl e, sv3) | (Inr _, sv3) \<Rightarrow> (Inr fs, sv3))))"

definition reconcile :: "reconcile_env \<Rightarrow> feed_service \<Rightarrow> field_finding list res \<times> feed_service" where
  [op_defs]: "reconcile env sv = (case adopt_once env sv of
     (Inl e, sv1) \<Rightarrow> (Inl e, sv1)
   | (Inr _, sv1) \<Rightarrow>
       (case re_our_car env of
          Inl e \<Rightarrow> (Inl e, sv1)
        | Inr our \<Rightarrow>
            (case our_findings env our sv1 of
               (Inl e, sv2) \<Rightarrow> (Inl e, sv2)
             | (Inr fs, sv2) \<Rightarrow>
                 (case reconcile_findings (re_findings env) (re_ids env) fs (re_now env) (sv_db sv2) of
                    (Inl e, db) \<Rightarrow> (Inl e, sv2\<lparr>sv_db := db\<rparr>)
                  | (Inr _, db) \<Rightarrow>
                      (Inr fs, sv2\<lparr>sv_db := db, sv_health := (sv_health sv2)\<lparr>fh_findings_open := length (fd_open_findings db)\<rparr>\<rparr>)))))"

section \<open>A dropped batch\<close>

lemma diff_row_keys: "fst ` set (fst_cars (snd (diff_row ep r acc))) = insert (fcr_car_number r) (fst ` set (fst_cars (snd acc)))"
proof -
  have "fcr_car_number r \<in> fst ` set (fst_cars (snd acc))" if "map_of (fst_cars (snd acc)) (fcr_car_number r) = Some q" for q
    using map_of_SomeD[OF that] by force
  then have "fst_cars (snd (diff_row ep r acc)) = fst_cars (snd acc) \<and> fcr_car_number r \<in> fst ` set (fst_cars (snd acc))
      \<or> fst_cars (snd (diff_row ep r acc)) = AList.update (fcr_car_number r) (r\<lparr>fcr_epoch := ep\<rparr>) (fst_cars (snd acc))"
    using diff_row_cars[of ep r acc] by blast
  then show ?thesis using dom_update[of "fcr_car_number r" "r\<lparr>fcr_epoch := ep\<rparr>" "fst_cars (snd acc)"] by (elim disjE) (simp_all add: insert_absorb)
qed

lemma diff_rows_keys: "fst ` set (fst_cars (snd (fold (diff_row ep) rows acc))) = fst ` set (fst_cars (snd acc)) \<union> fcr_car_number ` set rows"
proof (induction rows arbitrary: acc)
  case (Cons r rows)
  then show ?case using diff_row_keys[of ep r acc] by simp
qed simp

lemma diff_row_frame: "fst_epoch (snd (diff_row ep r acc)) = fst_epoch (snd acc) \<and> fst_source (snd (diff_row ep r acc)) = fst_source (snd acc)"
  by (auto simp: diff_row_def Let_def split: prod.splits)

lemma diff_rows_frame: "fst_epoch (snd (fold (diff_row ep) rows acc)) = fst_epoch (snd acc) \<and> fst_source (snd (fold (diff_row ep) rows acc)) = fst_source (snd acc)"
  by (induction rows arbitrary: acc) (simp_all add: diff_row_frame)

text \<open>The state already holds the standings of a snapshot, whenever it was taken.\<close>

definition holds_cars :: "field_car list \<Rightarrow> field_state \<Rightarrow> bool" where
  "holds_cars cs st \<longleftrightarrow> fst_epoch st \<noteq> None \<and> fst ` set (fst_cars st) = fcr_car_number ` set cs
     \<and> list_all (\<lambda>c. \<exists>t1 e1. map_of (fst_cars st) (fcr_car_number c) = Some (c\<lparr>fcr_time := t1, fcr_epoch := e1, fcr_source := fst_source st\<rparr>)) cs"

abbreviation stamped :: "real \<Rightarrow> string \<Rightarrow> field_car list \<Rightarrow> field_car list" where
  "stamped now src cs \<equiv> map (\<lambda>c. c\<lparr>fcr_time := now, fcr_source := src\<rparr>) cs"

lemma holds_cars_cong: "fst_epoch st1 = fst_epoch st \<Longrightarrow> fst_cars st1 = fst_cars st \<Longrightarrow> fst_source st1 = fst_source st \<Longrightarrow> holds_cars cs st1 = holds_cars cs st"
  by (simp add: holds_cars_def)

lemma diff_holds:
  assumes "distinct (map fcr_car_number cs)" "diff True now (stamped now (fst_source st) cs) st = (out, st1)"
  shows "holds_cars cs st1 \<and> fst_source st1 = fst_source st"
proof -
  let ?rows = "stamped now (fst_source st) cs" and ?st = "new_table True now (stamped now (fst_source st) cs) st"
  have nm: "fcr_car_number ` set ?rows = fcr_car_number ` set cs" "map fcr_car_number ?rows = map fcr_car_number cs" by (auto simp: image_image)
  have "fst_epoch ?st \<noteq> None" by (auto simp: new_table_def)
  then obtain ep where ep: "fst_epoch ?st = Some ep" by blast
  have st1: "st1 = snd (fold (diff_row ep) ?rows (([], []), ?st))" using assms(2) ep by (simp add: diff_def Let_def)
  have fr: "fst_epoch st1 = Some ep" "fst_source st1 = fst_source st"
    using diff_rows_frame[of ep ?rows "(([], []), ?st)"] ep unfolding st1 by (simp_all add: new_table_def)
  have "fst ` set (fst_cars ?st) \<subseteq> fcr_car_number ` set ?rows" unfolding nm(1) using nm(1) by (auto simp: new_table_def split: if_splits)
  then have keys: "fst ` set (fst_cars st1) = fcr_car_number ` set cs"
    using diff_rows_keys[of ep ?rows "(([], []), ?st)"] unfolding st1 nm(1) by auto
  have "\<exists>t1 e1. map_of (fst_cars st1) (fcr_car_number c) = Some (c\<lparr>fcr_time := t1, fcr_epoch := e1, fcr_source := fst_source st\<rparr>)" if "c \<in> set cs" for c
  proof -
    have "c\<lparr>fcr_time := now, fcr_source := fst_source st\<rparr> \<in> set ?rows" using that by simp
    moreover have "distinct (map fcr_car_number ?rows)" by (simp only: nm(2) assms(1))
    ultimately obtain t1 e1 where "map_of (fst_cars st1) (fcr_car_number c) = Some ((c\<lparr>fcr_time := now, fcr_source := fst_source st\<rparr>)\<lparr>fcr_time := t1, fcr_epoch := e1\<rparr>)"
      using diff_rows_hold[of ?rows _ ep "(([], []), ?st)"] unfolding st1 by fastforce
    then show ?thesis by (cases c) auto
  qed
  with fr keys show ?thesis by (auto simp: holds_cars_def list_all_iff)
qed

lemma diff_held:
  assumes "holds_cars cs st" "list_all (\<lambda>c. Some NaN \<notin> set (car_floats c)) cs"
  shows "diff True now (stamped now (fst_source st) cs) st = (([], []), st)"
proof -
  let ?rows = "stamped now (fst_source st) cs"
  have "set (map fcr_car_number ?rows) = set (map fst (fst_cars st))" using assms(1) by (simp add: holds_cars_def image_image)
  then have st: "new_table True now ?rows st = st" using assms(1) by (auto simp: new_table_def holds_cars_def)
  have "list_all (\<lambda>r. Some NaN \<notin> set (car_floats r) \<and> (\<exists>t1 e1. map_of (fst_cars st) (fcr_car_number r) = Some (r\<lparr>fcr_time := t1, fcr_epoch := e1\<rparr>))) ?rows"
  proof (unfold list_all_iff, intro ballI conjI)
    fix r assume "r \<in> set ?rows"
    then obtain c where c: "c \<in> set cs" "r = c\<lparr>fcr_time := now, fcr_source := fst_source st\<rparr>" by auto
    then show "Some NaN \<notin> set (car_floats r)" using assms(2) by (auto simp: list_all_iff car_floats_def)
    from c(1) assms(1) obtain t1 e1 where "map_of (fst_cars st) (fcr_car_number c) = Some (c\<lparr>fcr_time := t1, fcr_epoch := e1, fcr_source := fst_source st\<rparr>)"
      by (auto simp: holds_cars_def list_all_iff)
    then have "map_of (fst_cars st) (fcr_car_number r) = Some (r\<lparr>fcr_time := t1, fcr_epoch := e1\<rparr>)" using c(2) by (cases c) simp
    then show "\<exists>t1 e1. map_of (fst_cars st) (fcr_car_number r) = Some (r\<lparr>fcr_time := t1, fcr_epoch := e1\<rparr>)" by blast
  qed
  then show ?thesis unfolding diff_def Let_def st by (rule diff_rows_same)
qed

lemma merge_session_frame:
  "merge_session sn st = (session, st1) \<Longrightarrow> fst_epoch st1 = fst_epoch st \<and> fst_cars st1 = fst_cars st \<and> fst_source st1 = fst_source st"
  by (auto simp: merge_session_def Let_def split: option.splits if_splits)

lemma write_batch_frame: "sv_state (write_batch x b sv) = sv_state sv" "fb_cars b = [] \<Longrightarrow> fd_cars (sv_db (write_batch x b sv)) = fd_cars (sv_db sv)"
  "fb_laps b = [] \<Longrightarrow> fd_laps (sv_db (write_batch x b sv)) = fd_laps (sv_db sv)" "sv_db (write_batch (TxFail n) b sv) = sv_db sv"
  by (auto simp: write_batch_def db_write_def Let_def split: tx.splits sum.splits)

lemma snapshot_first:
  assumes "distinct (map fcr_car_number (sn_cars sn))" "length (sn_cars sn) \<le> MAX_CARS"
  shows "holds_cars (sn_cars sn) (sv_state (snd (handle_snapshot x sn sv)))"
proof -
  obtain session st0 where m: "merge_session sn ((sv_state sv)\<lparr>fst_documents := fst_documents (sv_state sv) + 1\<rparr>) = (session, st0)" by (rule prod.exhaust)
  obtain out st1 where d: "diff True (sn_at sn) (stamped (sn_at sn) (fst_source st0) (sn_cars sn)) st0 = (out, st1)" by (rule prod.exhaust)
  have "apply_snapshot sn (sv_state sv) = (Inr \<lparr>fb_session = session, fb_cars = fst out, fb_laps = snd out, fb_passings = []\<rparr>, st1)"
    using assms(2) m d by (simp add: apply_snapshot_def)
  then have "sv_state (snd (handle_snapshot x sn sv)) = st1" by (simp add: handle_snapshot_def observe_document_def write_batch_frame)
  with diff_holds[OF assms(1) d] show ?thesis by simp
qed

lemma snapshot_again:
  assumes "holds_cars (sn_cars sn) (sv_state sv)" "length (sn_cars sn) \<le> MAX_CARS" "list_all (\<lambda>c. Some NaN \<notin> set (car_floats c)) (sn_cars sn)"
  shows "holds_cars (sn_cars sn) (sv_state (snd (handle_snapshot x sn sv))) \<and> fd_cars (sv_db (snd (handle_snapshot x sn sv))) = fd_cars (sv_db sv)
    \<and> fd_laps (sv_db (snd (handle_snapshot x sn sv))) = fd_laps (sv_db sv)"
proof -
  obtain session st0 where m: "merge_session sn ((sv_state sv)\<lparr>fst_documents := fst_documents (sv_state sv) + 1\<rparr>) = (session, st0)" by (rule prod.exhaust)
  have h: "holds_cars (sn_cars sn) st0" using merge_session_frame[OF m] assms(1) holds_cars_cong[of st0 "sv_state sv"] by simp
  have "apply_snapshot sn (sv_state sv) = (Inr \<lparr>fb_session = session, fb_cars = [], fb_laps = [], fb_passings = []\<rparr>, st0)"
    using assms(2) m diff_held[OF h assms(3), of "sn_at sn"] by (simp add: apply_snapshot_def)
  then show ?thesis using h by (simp add: handle_snapshot_def observe_document_def write_batch_frame)
qed

text \<open>
  A batch the database refused is lost for good. When the write of a snapshot fails, the service has already taken the
  standings as emitted: the same standings posted again any number of times, at any times and with the database
  working again, write no car row and no lap row, so the tables keep what they showed before the failure until
  some value of a car changes.
\<close>
theorem dropped_batch_not_repaired:
  assumes "distinct (map fcr_car_number (sn_cars sn))" "length (sn_cars sn) \<le> MAX_CARS" "list_all (\<lambda>c. Some NaN \<notin> set (car_floats c)) (sn_cars sn)"
  shows "fd_cars (sv_db (fold (\<lambda>t sv. snd (handle_snapshot TxCommit (sn\<lparr>sn_at := t\<rparr>) sv)) ts (snd (handle_snapshot (TxFail n) sn sv)))) = fd_cars (sv_db sv)
    \<and> fd_laps (sv_db (fold (\<lambda>t sv. snd (handle_snapshot TxCommit (sn\<lparr>sn_at := t\<rparr>) sv)) ts (snd (handle_snapshot (TxFail n) sn sv)))) = fd_laps (sv_db sv)"
proof -
  let ?f = "\<lambda>t sv. snd (handle_snapshot TxCommit (sn\<lparr>sn_at := t\<rparr>) sv)"
  have again: "fd_cars (sv_db (fold ?f ts sv1)) = fd_cars (sv_db sv1) \<and> fd_laps (sv_db (fold ?f ts sv1)) = fd_laps (sv_db sv1)"
    if "holds_cars (sn_cars sn) (sv_state sv1)" for sv1
    using that
  proof (induction ts arbitrary: sv1)
    case (Cons t ts)
    then show ?case using snapshot_again[of "sn\<lparr>sn_at := t\<rparr>" sv1 TxCommit] assms(2,3) by simp
  qed simp
  have "sv_db (snd (handle_snapshot (TxFail n) sn sv)) = sv_db sv"
    by (auto simp: handle_snapshot_def observe_document_def reject_document_def Let_def write_batch_frame split: sum.splits prod.splits)
  then show ?thesis using again[OF snapshot_first[OF assms(1,2)]] by simp
qed

definition wit_feed_service :: feed_service where
  "wit_feed_service = feed_service_new ''none'' \<lparr>fd_sessions = [], fd_cars = [], fd_laps = [], fd_passings = [], fd_metrics = [], fd_findings = [], fd_open_findings = []\<rparr>"

theorem dropped_batch_not_repaired_witness:
  "fd_cars (sv_db (fold (\<lambda>t sv. snd (handle_snapshot TxCommit (\<lparr>sn_at = t, sn_source = ''relay'', sn_session = None, sn_cars = [wit_field_car 1 4]\<rparr>) sv)) [2, 3]
     (snd (handle_snapshot (TxFail 0) \<lparr>sn_at = 1, sn_source = ''relay'', sn_session = None, sn_cars = [wit_field_car 1 4]\<rparr> wit_feed_service)))) = []"
  using dropped_batch_not_repaired[of "\<lparr>sn_at = 1, sn_source = ''relay'', sn_session = None, sn_cars = [wit_field_car 1 4]\<rparr>" "[2, 3]" 0 wit_feed_service]
  by (simp add: MAX_CARS_def car_floats_def wit_field_car_def wit_feed_service_def feed_service_new_def)

section \<open>Findings after a failed transaction\<close>

lemma active_findings_one [simp]: "active_findings [f] = [f]" "active_findings [] = []"
  by (simp_all add: active_findings_def)

lemma update_rows_absent: "list_all (\<lambda>w. fw_id w \<noteq> i) rows \<Longrightarrow> map (update_row i f) rows = rows"
  by (induction rows) (auto simp: update_row_def)

text \<open>Passes that succeed, each with the finding it found, or none.\<close>

definition later_passes :: "(nat list \<times> field_finding list \<times> real) list \<Rightarrow> field_db \<Rightarrow> field_db" where
  "later_passes ps db = fold (\<lambda>(ids, fs, t) db. snd (reconcile_findings TxCommit ids fs t db)) ps db"

lemma failed_open:
  assumes "fd_open_findings db = []" "n \<noteq> 0"
  shows "reconcile_findings (TxFail n) ids [f] t db = (Inl PsycopgError, db\<lparr>fd_open_findings := [(ff_monitor f, ids ! 0)]\<rparr>)"
  using assms by (simp add: reconcile_findings_def tx_fails_def Let_def)

lemma pass_updates_absent:
  assumes "fd_open_findings db = [(ff_monitor f, i)]" "list_all (\<lambda>w. fw_id w \<noteq> i) (fd_findings db)"
  shows "reconcile_findings TxCommit ids [f] t db = (Inr (), db)"
  using assms by (simp add: reconcile_findings_def tx_fails_def update_rows_absent)

lemma passes_update_absent:
  "fd_open_findings db = [(m, i)] \<Longrightarrow> list_all (\<lambda>w. fw_id w \<noteq> i) (fd_findings db) \<Longrightarrow> list_all (\<lambda>(ids, fs, t). \<exists>f. fs = [f] \<and> ff_monitor f = m) ps
   \<Longrightarrow> later_passes ps db = db"
  by (induction ps) (auto simp: later_passes_def pass_updates_absent)

lemma failed_close:
  "fd_open_findings db = [(m, i)] \<Longrightarrow> reconcile_findings (TxFail n) ids [] t db = (Inl PsycopgError, db\<lparr>fd_open_findings := []\<rparr>)"
  by (simp add: reconcile_findings_def tx_fails_def)

lemma pass_idle: "fd_open_findings db = [] \<Longrightarrow> reconcile_findings TxCommit ids [] t db = (Inr (), db)"
  by (simp add: reconcile_findings_def)

lemma passes_idle: "fd_open_findings db = [] \<Longrightarrow> list_all (\<lambda>(ids, fs, t). fs = []) ps \<Longrightarrow> later_passes ps db = db"
  by (induction ps) (auto simp: later_passes_def pass_idle)


definition wit_found :: field_finding where
  "wit_found = \<lparr>ff_monitor = MONITOR_LAP_COUNT, ff_severity = ''warning'', ff_score = 2, ff_car_number = ''7'', ff_feed_laps = 12, ff_vehicle_laps = 10,
     ff_delta = 2, ff_higher = ''feed'', ff_likely_cause = ''vehicle timing missed a line crossing''\<rparr>"


end
