(* ===== verification/Websocket.thy ===== *)
theory Websocket
  imports Framing
begin

unbundle bit_operations_syntax

text \<open>
  \<^verbatim>\<open>src/pit/timing_feed/websocket.py\<close>: the server side of the WebSocket framing.

  A stream is the bytes the peer sends before it closes, so a short read is the end of the stream. The
  replies are the bytes written; \<open>out_ok n\<close> tells whether the n-th write succeeds. The digest of the
  opening handshake is an argument.
\<close>

section \<open>Frames\<close>

definition GUID :: string where "GUID = ''258EAFA5-E914-47DA-95CA-C5AB0DC85B11''"
definition MAX_MESSAGE_BYTES :: nat where "MAX_MESSAGE_BYTES = 1024 * 1024"
definition OP_CONTINUATION :: nat where "OP_CONTINUATION = 0"
definition OP_TEXT :: nat where "OP_TEXT = 1"
definition OP_BINARY :: nat where "OP_BINARY = 2"
definition OP_CLOSE :: nat where "OP_CLOSE = 8"
definition OP_PING :: nat where "OP_PING = 9"
definition OP_PONG :: nat where "OP_PONG = 10"

lemmas op_codes = OP_CONTINUATION_def OP_TEXT_def OP_BINARY_def OP_CLOSE_def OP_PING_def OP_PONG_def

definition accept_key :: "(bytes \<Rightarrow> string) \<Rightarrow> string \<Rightarrow> string res" where
  "accept_key sha1_base64 key =
     (if list_all (\<lambda>c. code c < 128) (strip key) then Inr (sha1_base64 (strip key @ GUID)) else Inl ValueError)"

text \<open>\<open>struct.pack\<close> of an unsigned number on \<open>k\<close> bytes, most significant first, and its inverse.\<close>

fun pack_be :: "nat \<Rightarrow> nat \<Rightarrow> bytes" where
  "pack_be 0 n = []"
| "pack_be (Suc k) n = pack_be k (n div 256) @ [byte (n mod 256)]"

definition unpack_be :: "bytes \<Rightarrow> nat" where
  "unpack_be bs = foldl (\<lambda>a b. a * 256 + code b) 0 bs"

text \<open>The payload byte \<open>i\<close> is combined with the mask byte \<open>i mod 4\<close>.\<close>

definition apply_mask :: "bytes \<Rightarrow> bytes \<Rightarrow> bytes" where
  "apply_mask mk payload = map (\<lambda>i. byte (code (payload ! i) XOR code (mk ! (i mod 4)))) [0..<length payload]"

definition frame_length :: "nat \<Rightarrow> nat \<Rightarrow> bytes" where
  "frame_length mask_bit n =
     (if n < 126 then [byte (mask_bit OR n)]
      else if n < 65536 then byte (mask_bit OR 126) # pack_be 2 n
      else byte (mask_bit OR 127) # pack_be 8 n)"

definition encode_frame :: "nat \<Rightarrow> bytes \<Rightarrow> bytes option \<Rightarrow> bytes res" where
  [op_defs]: "encode_frame opcode payload key =
     (let head = byte (128 OR (opcode AND 15)); n = length payload in
      case key of
        None \<Rightarrow> Inr (head # frame_length 0 n @ payload)
      | Some m \<Rightarrow> if length m \<noteq> 4 then Inl ValueError else Inr (head # frame_length 128 n @ m @ apply_mask m payload))"

definition encode_close :: "nat \<Rightarrow> bytes \<Rightarrow> bytes res" where
  "encode_close status reason = encode_frame OP_CLOSE (pack_be 2 status @ take 120 reason) None"

definition read_exact :: "nat \<Rightarrow> bytes \<Rightarrow> bytes res \<times> bytes" where
  "read_exact n s = (if n \<le> length s then (Inr (take n s), drop n s) else (Inl EOFError, []))"

type_synonym frame = "bool \<times> nat \<times> bytes"

definition read_length :: "nat \<Rightarrow> bytes \<Rightarrow> nat res \<times> bytes" where
  "read_length n s =
     (if n = 126 \<or> n = 127 then
        (case read_exact (if n = 126 then 2 else 8) s of (Inl e, s1) \<Rightarrow> (Inl e, s1) | (Inr bs, s1) \<Rightarrow> (Inr (unpack_be bs), s1))
      else (Inr n, s))"

definition read_payload :: "bool \<Rightarrow> nat \<Rightarrow> bytes \<Rightarrow> bytes res \<times> bytes" where
  "read_payload masked n s =
     (if masked then
        (case read_exact 4 s of
           (Inl e, s1) \<Rightarrow> (Inl e, s1)
         | (Inr m, s1) \<Rightarrow> (case read_exact n s1 of (Inl e, s2) \<Rightarrow> (Inl e, s2) | (Inr p, s2) \<Rightarrow> (Inr (apply_mask m p), s2)))
      else read_exact n s)"

definition read_body :: "bool \<Rightarrow> nat \<Rightarrow> nat \<Rightarrow> bytes \<Rightarrow> frame res \<times> bytes" where
  "read_body require_mask first second s =
     (if first AND 112 \<noteq> 0 then (Inl WebSocketError, s)
      else case read_length (second AND 127) s of
          (Inl e, s1) \<Rightarrow> (Inl e, s1)
        | (Inr n, s1) \<Rightarrow>
            if n > MAX_MESSAGE_BYTES then (Inl WebSocketError, s1)
            else if require_mask \<and> second AND 128 = 0 then (Inl WebSocketError, s1)
            else (case read_payload (second AND 128 \<noteq> 0) n s1 of
                 (Inl e, s2) \<Rightarrow> (Inl e, s2)
               | (Inr p, s2) \<Rightarrow> (Inr (first AND 128 \<noteq> 0, first AND 15, p), s2)))"

definition read_frame :: "bool \<Rightarrow> bytes \<Rightarrow> frame res \<times> bytes" where
  [op_defs]: "read_frame require_mask s = (case s of
     a # b # s1 \<Rightarrow> read_body require_mask (code a) (code b) s1
   | _ \<Rightarrow> (Inl EOFError, []))"

lemma read_exact_shorter: "read_exact n s = (r, s1) \<Longrightarrow> length s1 \<le> length s"
  by (auto simp: read_exact_def split: if_splits)

lemma read_length_shorter: "read_length n s = (r, s1) \<Longrightarrow> length s1 \<le> length s"
  by (auto simp: read_length_def split: if_splits prod.splits sum.splits dest: read_exact_shorter)

lemma read_payload_shorter: "read_payload masked n s = (r, s1) \<Longrightarrow> length s1 \<le> length s"
  by (auto simp: read_payload_def split: if_splits prod.splits sum.splits dest!: read_exact_shorter)

lemma read_body_shorter: "read_body rm a b s = (r, s1) \<Longrightarrow> length s1 \<le> length s"
  by (auto simp: read_body_def split: if_splits prod.splits sum.splits dest!: read_length_shorter read_payload_shorter)

lemma read_frame_shorter: "read_frame rm s = (Inr f, s1) \<Longrightarrow> length s1 < length s"
  by (auto simp: read_frame_def split: list.splits dest!: read_body_shorter)

section \<open>Messages\<close>

text \<open>Where the generator is: the open fragments, their size, what it has yielded and written, and how it ended.\<close>

record ws_state =
  ws_parts :: "bytes list"
  ws_size :: nat
  ws_yielded :: "code_points list"
  ws_out :: "bytes list"
  ws_error :: "exn option"

definition ws_start :: ws_state where
  "ws_start = \<lparr>ws_parts = [], ws_size = 0, ws_yielded = [], ws_out = [], ws_error = None\<rparr>"

definition ws_raise :: "exn \<Rightarrow> ws_state \<Rightarrow> bool \<times> ws_state" where
  "ws_raise e st = (False, st\<lparr>ws_error := Some e\<rparr>)"

definition ws_write :: "(nat \<Rightarrow> bool) \<Rightarrow> bytes res \<Rightarrow> ws_state \<Rightarrow> ws_state option" where
  "ws_write out_ok bs st = (case bs of
     Inl e \<Rightarrow> None
   | Inr b \<Rightarrow> if out_ok (length (ws_out st)) then Some (st\<lparr>ws_out := ws_out st @ [b]\<rparr>) else None)"

text \<open>A fragment has been added: the cap, then the end of the message.\<close>

definition ws_deliver :: "bool \<Rightarrow> ws_state \<Rightarrow> bool \<times> ws_state" where
  "ws_deliver fin st =
     (if ws_size st > MAX_MESSAGE_BYTES then ws_raise WebSocketError st
      else if fin then
        (case utf8_decode (concat (ws_parts st)) of
           None \<Rightarrow> ws_raise WebSocketError (st\<lparr>ws_parts := [], ws_size := 0\<rparr>)
         | Some t \<Rightarrow> (True, st\<lparr>ws_parts := [], ws_size := 0, ws_yielded := ws_yielded st @ [t]\<rparr>))
      else (True, st))"

text \<open>One pass of the loop: whether it goes on, and the state.\<close>

definition ws_frame :: "(nat \<Rightarrow> bool) \<Rightarrow> frame \<Rightarrow> ws_state \<Rightarrow> bool \<times> ws_state" where
  [op_defs]: "ws_frame out_ok f st = (case f of (fin, opcode, payload) \<Rightarrow>
     if opcode = OP_CLOSE then
       (False, case ws_write out_ok (encode_close 1000 []) st of None \<Rightarrow> st | Some st1 \<Rightarrow> st1)
     else if opcode = OP_PING then
       (case ws_write out_ok (encode_frame OP_PONG payload None) st of None \<Rightarrow> ws_raise OSError st | Some st1 \<Rightarrow> (True, st1))
     else if opcode = OP_PONG then (True, st)
     else if opcode = OP_TEXT \<or> opcode = OP_BINARY then
       (if ws_parts st \<noteq> [] then ws_raise WebSocketError st
        else ws_deliver fin (st\<lparr>ws_parts := [payload], ws_size := length payload\<rparr>))
     else if opcode = OP_CONTINUATION then
       (if ws_parts st = [] then ws_raise WebSocketError st
        else ws_deliver fin (st\<lparr>ws_parts := ws_parts st @ [payload], ws_size := ws_size st + length payload\<rparr>))
     else ws_raise WebSocketError st)"

function messages :: "(nat \<Rightarrow> bool) \<Rightarrow> bytes \<Rightarrow> ws_state \<Rightarrow> ws_state" where
  "messages out_ok s st = (case read_frame True s of
     (Inl e, s1) \<Rightarrow> if e = EOFError then st else st\<lparr>ws_error := Some e\<rparr>
   | (Inr f, s1) \<Rightarrow> (case ws_frame out_ok f st of (go_on, st1) \<Rightarrow> if go_on then messages out_ok s1 st1 else st1))"
  by auto
termination by (relation "measure (\<lambda>(_, s, _). length s)") (auto dest: read_frame_shorter[OF sym])

declare messages.simps [simp del]

section \<open>Reading a frame undoes writing it\<close>

lemma low_bits: "(k :: nat) AND 127 = k mod 128" "k AND 15 = k mod 16"
  using take_bit_eq_mask[of 7 k] take_bit_eq_mask[of 4 k] by (simp_all add: take_bit_eq_mod mask_eq_exp_minus_1)

lemma length_byte:
  assumes "n < 128"
  shows "128 OR n = 128 + (n :: nat)" "(128 + n) AND 127 = n" "0 < (128 + n) AND 128" "n AND 128 = 0"
proof -
  have bit: "\<not> bit n 7" "bit (128 + n) 7" using assms by (simp_all add: bit_iff_odd)
  show z: "n AND 128 = 0" using and_exp_eq_0_iff_not_bit[of n 7] bit by simp
  show "0 < (128 + n) AND 128" using and_exp_eq_0_iff_not_bit[of "128 + n" 7] bit by simp
  show "128 OR n = 128 + n" using disjunctive_add_eq_or[of 128 n] z by (simp add: and.commute)
  show "(128 + n) AND 127 = n" using assms by (simp add: low_bits)
qed

lemma opcode_byte:
  assumes "opcode < 16"
  shows "opcode AND 15 = (opcode :: nat)" "(128 + opcode) AND 15 = opcode" "opcode AND 112 = 0" "(128 + opcode) AND 112 = 0"
proof -
  show "opcode AND 15 = opcode" "(128 + opcode) AND 15 = opcode" using assms by (simp_all add: low_bits mod_add_eq[symmetric, of 128])
  have "opcode \<in> {0, 1, 2, 3, 4, 5, 6, 7, 8, 9, 10, 11, 12, 13, 14, 15}" using assms unfolding insert_iff empty_iff by presburger
  then show "opcode AND 112 = 0" "(128 + opcode) AND 112 = 0" by auto
qed

lemma length_pack_be [simp]: "length (pack_be k n) = k"
  by (induction k arbitrary: n) simp_all

lemma unpack_pack_be: "n < 256 ^ k \<Longrightarrow> unpack_be (pack_be k n) = n"
proof (induction k arbitrary: n)
  case (Suc k)
  then have "n div 256 < 256 ^ k" by (simp add: less_mult_imp_div_less mult.commute)
  with Suc.IH[of "n div 256"] show ?case by (simp add: unpack_be_def)
qed (simp add: unpack_be_def)

lemma code_less [simp]: "code c < 256"
  by (simp add: code_def)

lemma byte_code [simp]: "byte (code c) = c"
  by (simp add: byte_def code_def)

lemma length_apply_mask [simp]: "length (apply_mask key payload) = length payload"
  by (simp add: apply_mask_def)

lemma apply_mask_twice: "apply_mask key (apply_mask key payload) = payload"
  by (rule nth_equalityI) (simp_all add: apply_mask_def xor_less xor.assoc)

text \<open>A frame as a client writes it: any opcode, final or not, masked.\<close>

definition wire_frame :: "bool \<Rightarrow> nat \<Rightarrow> bytes \<Rightarrow> bytes \<Rightarrow> bytes" where
  "wire_frame fin opcode key payload =
     byte ((if fin then 128 else 0) + opcode) # frame_length 128 (length payload) @ key @ apply_mask key payload"

lemma encode_frame_wire: "opcode < 16 \<Longrightarrow> length key = 4 \<Longrightarrow> encode_frame opcode payload (Some key) = Inr (wire_frame True opcode key payload)"
  by (simp add: encode_frame_def wire_frame_def opcode_byte length_byte)

lemma read_payload_masked:
  "length key = 4 \<Longrightarrow> read_payload True (length payload) (key @ apply_mask key payload @ rest) = (Inr payload, rest)"
  by (simp add: read_payload_def read_exact_def apply_mask_twice)

lemma read_length_written:
  assumes "n \<le> MAX_MESSAGE_BYTES"
  shows "\<exists>b. frame_length 128 n = byte (128 + fst b) # snd b \<and> fst b < 128 \<and> read_length (fst b) (snd b @ rest) = (Inr n, rest)"
proof -
  consider "n < 126" | "126 \<le> n" "n < 65536" | "65536 \<le> n" by linarith
  then show ?thesis
  proof cases
    case 1
    then have "frame_length 128 n = byte (128 + n) # []" by (simp add: frame_length_def length_byte)
    with 1 show ?thesis by (intro exI[of _ "(n, [])"]) (simp add: read_length_def)
  next
    case 2
    then have "unpack_be (pack_be 2 n) = n" by (intro unpack_pack_be) (simp add: power2_eq_square)
    moreover have "frame_length 128 n = byte (128 + 126) # pack_be 2 n" using 2 by (simp add: frame_length_def length_byte)
    ultimately show ?thesis by (intro exI[of _ "(126, pack_be 2 n)"]) (simp add: read_length_def read_exact_def)
  next
    case 3
    have "n < 256 ^ 8" using assms by (simp add: MAX_MESSAGE_BYTES_def)
    then have "unpack_be (pack_be 8 n) = n" by (rule unpack_pack_be)
    moreover have "frame_length 128 n = byte (128 + 127) # pack_be 8 n" using 3 by (simp add: frame_length_def length_byte)
    ultimately show ?thesis by (intro exI[of _ "(127, pack_be 8 n)"]) (simp add: read_length_def read_exact_def)
  qed
qed

lemma read_wire_frame:
  assumes "opcode < 16" "length key = 4" "length payload \<le> MAX_MESSAGE_BYTES"
  shows "read_frame True (wire_frame fin opcode key payload @ rest) = (Inr (fin, opcode, payload), rest)"
proof -
  obtain b bs where b: "frame_length 128 (length payload) = byte (128 + b) # bs" "b < 128"
    "read_length b (bs @ key @ apply_mask key payload @ rest) = (Inr (length payload), key @ apply_mask key payload @ rest)"
    using read_length_written[OF assms(3), of "key @ apply_mask key payload @ rest"] by auto
  have first: "code (byte ((if fin then 128 else 0) + opcode)) = (if fin then 128 else 0) + opcode" using assms(1) by simp
  have second: "code (byte (128 + b)) = 128 + b" using b(2) by simp
  show ?thesis
    unfolding wire_frame_def b(1)
    using assms(1,3) b(2,3) read_payload_masked[OF assms(2), of payload rest]
    by (auto simp: read_frame_def read_body_def first second opcode_byte length_byte simp del: code_byte)
qed

section \<open>A client's messages arrive\<close>

text \<open>A message as a client may send it: fragments, each with its mask, and pings and pongs before each of them.\<close>

record control = ct_pong :: bool  ct_key :: bytes  ct_payload :: bytes
record fragment = fg_controls :: "control list"  fg_key :: bytes  fg_payload :: bytes

definition control_ok :: "control \<Rightarrow> bool" where
  "control_ok c \<longleftrightarrow> length (ct_key c) = 4 \<and> length (ct_payload c) \<le> MAX_MESSAGE_BYTES"

definition fragment_ok :: "fragment \<Rightarrow> bool" where
  "fragment_ok f \<longleftrightarrow> list_all control_ok (fg_controls f) \<and> length (fg_key f) = 4"

definition wire_control :: "control \<Rightarrow> bytes" where
  "wire_control c = wire_frame True (if ct_pong c then OP_PONG else OP_PING) (ct_key c) (ct_payload c)"

fun wire_fragments :: "nat \<Rightarrow> fragment list \<Rightarrow> bytes" where
  "wire_fragments opcode [] = []"
| "wire_fragments opcode (f # fs) =
     concat (map wire_control (fg_controls f)) @ wire_frame (fs = []) opcode (fg_key f) (fg_payload f) @ wire_fragments OP_CONTINUATION fs"

definition message_bytes :: "fragment list \<Rightarrow> bytes" where
  "message_bytes fs = concat (map fg_payload fs)"

definition pong_of :: "control \<Rightarrow> bytes list" where
  "pong_of c = (if ct_pong c then [] else [byte 138 # frame_length 0 (length (ct_payload c)) @ ct_payload c])"

definition pongs_of :: "fragment list \<Rightarrow> bytes list" where
  "pongs_of fs = concat (map (\<lambda>f. concat (map pong_of (fg_controls f))) fs)"

definition writable :: "nat \<Rightarrow> bool" where
  "writable n = True"

lemma control_frame:
  assumes "control_ok c"
  shows "messages writable (wire_control c @ rest) st = messages writable rest (st\<lparr>ws_out := ws_out st @ pong_of c\<rparr>)"
proof -
  let ?op = "if ct_pong c then OP_PONG else OP_PING"
  have "read_frame True (wire_control c @ rest) = (Inr (True, ?op, ct_payload c), rest)"
    using assms unfolding wire_control_def control_ok_def by (intro read_wire_frame) (simp_all add: op_codes)
  moreover have "ws_frame writable (True, ?op, ct_payload c) st = (True, st\<lparr>ws_out := ws_out st @ pong_of c\<rparr>)"
    by (auto simp: ws_frame_def op_codes ws_write_def encode_frame_def pong_of_def Let_def writable_def)
  ultimately show ?thesis by (subst messages.simps) (simp del: ws_frame_def)
qed

lemma control_frames:
  "list_all control_ok cs \<Longrightarrow> messages writable (concat (map wire_control cs) @ rest) st
     = messages writable rest (st\<lparr>ws_out := ws_out st @ concat (map pong_of cs)\<rparr>)"
  by (induction cs arbitrary: st) (simp_all add: control_frame)

lemma data_frame:
  assumes "fragment_ok f" "length (fg_payload f) \<le> MAX_MESSAGE_BYTES" "opcode \<in> {OP_TEXT, OP_BINARY, OP_CONTINUATION}"
  shows "messages writable (wire_frame fin opcode (fg_key f) (fg_payload f) @ rest) st
    = (case ws_frame writable (fin, opcode, fg_payload f) st of (go_on, st1) \<Rightarrow> if go_on then messages writable rest st1 else st1)"
proof -
  have "read_frame True (wire_frame fin opcode (fg_key f) (fg_payload f) @ rest) = (Inr (fin, opcode, fg_payload f), rest)"
    using assms by (intro read_wire_frame) (auto simp: fragment_ok_def op_codes)
  then show ?thesis by (subst messages.simps) simp
qed

definition opens :: "nat \<Rightarrow> ws_state \<Rightarrow> bool" where
  "opens opcode st \<longleftrightarrow> (if ws_parts st = [] then opcode \<in> {OP_TEXT, OP_BINARY} else opcode = OP_CONTINUATION)
     \<and> ws_size st = length (concat (ws_parts st))"

lemma data_step:
  assumes "opens opcode st"
  shows "ws_frame writable (fin, opcode, payload) st = ws_deliver fin (st\<lparr>ws_parts := ws_parts st @ [payload], ws_size := ws_size st + length payload\<rparr>)"
  using assms by (auto simp: opens_def ws_frame_def op_codes split: if_splits)

lemma fragments_arrive:
  assumes "fs \<noteq> []" "list_all fragment_ok fs" "opens opcode st" "length (concat (ws_parts st) @ message_bytes fs) \<le> MAX_MESSAGE_BYTES"
    "utf8_decode (concat (ws_parts st) @ message_bytes fs) = Some t"
  shows "messages writable (wire_fragments opcode fs @ rest) st
    = messages writable rest (st\<lparr>ws_parts := [], ws_size := 0, ws_yielded := ws_yielded st @ [t], ws_out := ws_out st @ pongs_of fs\<rparr>)"
  using assms
proof (induction fs arbitrary: opcode st)
  case (Cons f fs)
  let ?st = "st\<lparr>ws_out := ws_out st @ concat (map pong_of (fg_controls f))\<rparr>"
  let ?next = "?st\<lparr>ws_parts := ws_parts st @ [fg_payload f], ws_size := ws_size st + length (fg_payload f)\<rparr>"
  have f: "fragment_ok f" "list_all control_ok (fg_controls f)" "length (fg_payload f) \<le> MAX_MESSAGE_BYTES"
    using Cons.prems by (auto simp: fragment_ok_def message_bytes_def)
  have o: "opens opcode ?st" "opcode \<in> {OP_TEXT, OP_BINARY, OP_CONTINUATION}"
    using Cons.prems(3) by (auto simp: opens_def split: if_splits)
  have sz: "\<not> MAX_MESSAGE_BYTES < ws_size ?next" using Cons.prems(3,4) by (simp add: opens_def message_bytes_def)
  have pg: "pongs_of (f # fs) = concat (map pong_of (fg_controls f)) @ pongs_of fs" by (simp add: pongs_of_def)
  have "messages writable (wire_fragments opcode (f # fs) @ rest) st
      = messages writable (wire_frame (fs = []) opcode (fg_key f) (fg_payload f) @ wire_fragments OP_CONTINUATION fs @ rest) ?st"
    using control_frames[OF f(2)] by simp
  also have "\<dots> = (case ws_deliver (fs = []) ?next of (go_on, st1) \<Rightarrow>
      if go_on then messages writable (wire_fragments OP_CONTINUATION fs @ rest) st1 else st1)"
    using data_frame[OF f(1,3) o(2)] data_step[OF o(1), of "fs = []" "fg_payload f"] by simp
  finally have step: "messages writable (wire_fragments opcode (f # fs) @ rest) st = \<dots>" .
  show ?case
  proof (cases "fs = []")
    case True
    with Cons.prems(5) have "utf8_decode (concat (ws_parts ?next)) = Some t" by (simp add: message_bytes_def)
    with sz have "ws_deliver True ?next = (True, ?next\<lparr>ws_parts := [], ws_size := 0, ws_yielded := ws_yielded ?next @ [t]\<rparr>)"
      by (simp add: ws_deliver_def)
    with step True pg show ?thesis by (cases st) (simp add: pongs_of_def)
  next
    case False
    have "ws_deliver False ?next = (True, ?next)" using sz by (simp add: ws_deliver_def)
    moreover have "messages writable (wire_fragments OP_CONTINUATION fs @ rest) ?next
        = messages writable rest (?next\<lparr>ws_parts := [], ws_size := 0, ws_yielded := ws_yielded ?next @ [t], ws_out := ws_out ?next @ pongs_of fs\<rparr>)"
      using Cons.prems False by (intro Cons.IH) (auto simp: opens_def message_bytes_def)
    ultimately show ?thesis using step False pg by (cases st) simp
  qed
qed simp

definition message_ok :: "bool \<times> fragment list \<Rightarrow> code_points \<Rightarrow> bool" where
  "message_ok m t \<longleftrightarrow> snd m \<noteq> [] \<and> list_all fragment_ok (snd m) \<and> length (message_bytes (snd m)) \<le> MAX_MESSAGE_BYTES
     \<and> utf8_encode t = Inr (message_bytes (snd m))"

definition wire_message :: "bool \<times> fragment list \<Rightarrow> bytes" where
  "wire_message m = wire_fragments (if fst m then OP_BINARY else OP_TEXT) (snd m)"

lemma messages_end: "messages writable [] st = st"
  by (subst messages.simps) (simp add: read_frame_def)

lemma messages_arrive:
  assumes "list_all2 message_ok ms ts" "ws_parts st = []" "ws_size st = 0"
  shows "messages writable (concat (map wire_message ms)) st
    = st\<lparr>ws_yielded := ws_yielded st @ ts, ws_out := ws_out st @ concat (map (\<lambda>m. pongs_of (snd m)) ms)\<rparr>"
  using assms
proof (induction ms ts arbitrary: st rule: list_all2_induct)
  case Nil
  then show ?case by (simp add: messages_end)
next
  case (Cons m ms t ts)
  let ?st = "st\<lparr>ws_parts := [], ws_size := 0, ws_yielded := ws_yielded st @ [t], ws_out := ws_out st @ pongs_of (snd m)\<rparr>"
  have "messages writable (wire_message m @ concat (map wire_message ms)) st = messages writable (concat (map wire_message ms)) ?st"
    unfolding wire_message_def[of m] using Cons.hyps(1) Cons.prems utf8_roundtrip by (intro fragments_arrive) (auto simp: message_ok_def opens_def)
  moreover have "?st = st\<lparr>ws_yielded := ws_yielded st @ [t], ws_out := ws_out st @ pongs_of (snd m)\<rparr>" using Cons.prems by simp
  ultimately show ?case using Cons.IH[of ?st] Cons.prems by (cases st) simp
qed

text \<open>
  C31. Whatever text messages a client sends, as text or binary, in whatever fragments, under whatever masks and with pings
  and pongs anywhere between the fragments, the reader yields exactly these messages in order, answers every ping
  with its payload, and ends without an error when the client closes; a message may have up to a mebibyte, and
  its frames any of the three length encodings.
\<close>
theorem websocket_roundtrip:
  assumes "list_all2 message_ok ms ts"
  shows "messages writable (concat (map wire_message ms)) ws_start
    = ws_start\<lparr>ws_yielded := ts, ws_out := concat (map (\<lambda>m. pongs_of (snd m)) ms)\<rparr>"
  using messages_arrive[OF assms, of ws_start] by (simp add: ws_start_def)

text \<open>The message \<open>hi\<close> in two fragments under two masks, a ping between them.\<close>

definition wit_key :: bytes where "wit_key = ''abcd''"

definition wit_message :: "bool \<times> fragment list" where
  "wit_message = (False, [\<lparr>fg_controls = [], fg_key = wit_key, fg_payload = ''h''\<rparr>,
     \<lparr>fg_controls = [\<lparr>ct_pong = False, ct_key = wit_key, ct_payload = ''p''\<rparr>], fg_key = ''wxyz'', fg_payload = ''i''\<rparr>])"

theorem websocket_roundtrip_witness:
  "ws_yielded (messages writable (wire_message wit_message) ws_start) = [[104, 105]]
   \<and> ws_out (messages writable (wire_message wit_message) ws_start) = [byte 138 # byte 1 # ''p'']"
proof -
  have enc: "utf8_encode [104, 105] = Inr ''hi''" by (simp add: utf8_encode_def is_scalar_def utf8_char_def byte_def char_of_def bit_0)
  have "message_ok wit_message [104, 105]"
    by (simp add: message_ok_def wit_message_def fragment_ok_def control_ok_def wit_key_def message_bytes_def MAX_MESSAGE_BYTES_def enc)
  then have "list_all2 message_ok [wit_message] [[104, 105]]" by simp
  from websocket_roundtrip[OF this] show ?thesis
    by (simp add: ws_start_def wit_message_def pongs_of_def pong_of_def frame_length_def)
qed

text \<open>Whatever arrives, the reader ends, with no error other than the two its caller handles.\<close>

lemma read_frame_errors: "read_frame rm s = (Inl e, s1) \<Longrightarrow> e \<in> {EOFError, WebSocketError}"
  by (auto simp: read_frame_def read_body_def read_length_def read_payload_def read_exact_def
      split: list.splits if_splits prod.splits sum.splits)

lemma ws_frame_errors:
  "ws_frame out_ok f st = (go_on, st1) \<Longrightarrow> ws_error st \<in> {None, Some WebSocketError, Some OSError} \<Longrightarrow> ws_error st1 \<in> {None, Some WebSocketError, Some OSError}"
  by (auto simp: ws_frame_def ws_deliver_def ws_raise_def ws_write_def split: prod.splits if_splits option.splits sum.splits)

lemma messages_errors:
  "ws_error st \<in> {None, Some WebSocketError, Some OSError} \<Longrightarrow> ws_error (messages out_ok s st) \<in> {None, Some WebSocketError, Some OSError}"
proof (induction out_ok s st rule: messages.induct)
  case (1 out_ok s st)
  show ?case
  proof (cases "read_frame True s")
    case (Pair r s1)
    then show ?thesis
    proof (cases r)
      case (Inl e)
      then show ?thesis using read_frame_errors[of True s e s1] Pair "1.prems" by (subst messages.simps) auto
    next
      case (Inr f)
      obtain go_on st1 where f: "ws_frame out_ok f st = (go_on, st1)" by (rule prod.exhaust)
      then have "ws_error st1 \<in> {None, Some WebSocketError, Some OSError}" using ws_frame_errors "1.prems" by blast
      with 1 Pair Inr f show ?thesis by (subst messages.simps) auto
    qed
  qed
qed

end
