(* ===== verification/Field_Shapes.thy ===== *)
theory Field_Shapes
  imports Field_Service Websocket Session_Http
begin

text \<open>
  \<^verbatim>\<open>src/pit/timing_feed/shapes.py\<close> and the handlers of \<^verbatim>\<open>ingest.py\<close>: the two other shapes standings arrive in, a
  relay's JSON snapshot and the messages of Timing71, mapped onto the rows of the field.

  A JSON value is the result of \<open>json.loads\<close>, which reads \<open>NaN\<close>, \<open>Infinity\<close> and integers of any size. \<open>float\<close> of
  an integer beyond the largest double raises \<open>OverflowError\<close>, as \<open>int\<close> of an infinity does; \<open>int\<close> of a
  not-a-number raises \<open>ValueError\<close>. \<open>ShapeError\<close> is the refusal the handlers answer.
\<close>

section \<open>Values\<close>

definition SHAPE_MAX_TEXT :: nat where "SHAPE_MAX_TEXT = 80"

definition T71_COLUMNS :: "(string \<times> string) list" where
  "T71_COLUMNS = [(''num'', ''car_number''), (''state'', ''state''), (''class'', ''car_class''), (''pic'', ''class_position''),
     (''driver'', ''driver''), (''laps'', ''laps''), (''gap'', ''gap_lead_s''), (''int'', ''gap_next_s''), (''last'', ''last_lap_s''),
     (''best'', ''best_lap_s''), (''s1'', ''sec1_s''), (''s2'', ''sec2_s''), (''s3'', ''sec3_s''), (''pits'', ''pit_count'')]"

datatype shape_kind = KText | KInt | KSeconds | KDelta | KBool

definition CAR_FIELDS :: "(string \<times> shape_kind) list" where
  "CAR_FIELDS = [(''car_number'', KText), (''competitor_id'', KText), (''car_class'', KText), (''class'', KText), (''position'', KInt),
     (''class_position'', KInt), (''laps'', KInt), (''last_lap_s'', KSeconds), (''best_lap_s'', KSeconds), (''gap_lead_s'', KDelta),
     (''gap_next_s'', KDelta), (''sec1_s'', KSeconds), (''sec2_s'', KSeconds), (''sec3_s'', KSeconds), (''pit_count'', KInt),
     (''in_pit'', KBool), (''pit_flag'', KText), (''driver'', KText), (''state'', KText)]"

definition clip :: "text_conv \<Rightarrow> json \<Rightarrow> string option" where
  "clip tc v = (if v = JNull then None else map_option (take SHAPE_MAX_TEXT) (field_text (Some (py_str tc v))))"

text \<open>\<open>float\<close> of an integer: the integers that round beyond the largest double raise.\<close>

definition float_of_int :: "int \<Rightarrow> flt res" where
  "float_of_int n = (if \<bar>n\<bar> < 2 ^ 1024 - 2 ^ 970 then Inr (Fin (of_int n)) else Inl OverflowError)"

definition json_seconds :: "text_conv \<Rightarrow> json \<Rightarrow> flt option res" where
  "json_seconds tc v = (case v of JInt n \<Rightarrow> sbind (float_of_int n) (\<lambda>f. Inr (Some f)) | _ \<Rightarrow> Inr (field_seconds tc v))"

fun contains :: "string \<Rightarrow> string \<Rightarrow> bool" where
  "contains p [] = (p = [])"
| "contains p (c # s) = (take (length p) (c # s) = p \<or> contains p s)"

definition gap_delta :: "text_conv \<Rightarrow> json \<Rightarrow> flt option res" where
  [op_defs]: "gap_delta tc v = (case v of
     JNull \<Rightarrow> Inr None
   | JBool _ \<Rightarrow> Inr None
   | JInt n \<Rightarrow> sbind (float_of_int n) (\<lambda>f. Inr (Some f))
   | JFloat f \<Rightarrow> Inr (Some f)
   | _ \<Rightarrow>
       (let s = lower (strip (py_str tc v))
        in if s = [] \<or> contains ''lap'' s \<or> last s = CHR ''l'' then Inr None
           else json_seconds tc (JStr (dropWhile (\<lambda>ch. ch = CHR ''+'') s))))"

definition shape_bool :: "json \<Rightarrow> bool option" where
  "shape_bool v = (case v of
     JBool b \<Rightarrow> Some b
   | JStr s \<Rightarrow> Some (lower (strip s) \<in> {''true'', ''yes'', ''y'', ''1'', ''p''})
   | JNull \<Rightarrow> None
   | _ \<Rightarrow> Some (truthy v))"

text \<open>A value of a car, by the kind of its column. Timing71's pairs of a value and flags give the value.\<close>

datatype shape_value =
    SText "string option" | SWhole "int option" | SFlt "flt option" | SBool "bool option"

definition unpaired :: "json \<Rightarrow> json" where
  "unpaired v = (case v of JList xs \<Rightarrow> (case xs of [] \<Rightarrow> JNull | x # _ \<Rightarrow> x) | _ \<Rightarrow> v)"

fun coerce :: "text_conv \<Rightarrow> shape_kind \<Rightarrow> json \<Rightarrow> shape_value res" where
  "coerce tc KText v = Inr (SText (clip tc (unpaired v)))"
| "coerce tc KInt v = sbind (field_int tc (unpaired v)) (\<lambda>n. Inr (SWhole n))"
| "coerce tc KSeconds v = sbind (json_seconds tc (unpaired v)) (\<lambda>f. Inr (SFlt f))"
| "coerce tc KDelta v = sbind (gap_delta tc (unpaired v)) (\<lambda>f. Inr (SFlt f))"
| "coerce tc KBool v = Inr (SBool (shape_bool (unpaired v)))"

section \<open>Rows\<close>

definition session_sub :: "(string \<times> json) list \<Rightarrow> json" where
  "session_sub d = (case jget d ''flag_state'' of
     JStr s \<Rightarrow>
       (case map_of T71_FLAG_SPLIT (lower (strip s)) of
          Some (_, sub) \<Rightarrow> if jget d ''sub_status'' = JNull then JStr sub else jget d ''sub_status''
        | None \<Rightarrow> jget d ''sub_status'')
   | _ \<Rightarrow> jget d ''sub_status'')"

definition session_from :: "text_conv \<Rightarrow> (string \<times> json) list \<Rightarrow> real \<Rightarrow> string \<Rightarrow> field_session option res" where
  [op_defs]: "session_from tc d now source =
     (if d = [] then Inr None
      else let flag = jget d ''flag_state''; sub = session_sub d in
        sbind (field_int tc (jget d ''laps_remaining'')) (\<lambda>laps_remaining.
        sbind (json_seconds tc (jget d ''time_remaining_s'')) (\<lambda>time_remaining.
        sbind (json_seconds tc (jget d ''time_elapsed_s'')) (\<lambda>elapsed.
        sbind (json_seconds tc (jget d ''track_temp'')) (\<lambda>temp.
          Inr (Some \<lparr>fsr_time = now, fsr_source = source, fsr_session_name = clip tc (jget d ''session_name''),
            fsr_event_type = clip tc (jget d ''event_type''),
            fsr_flag_state = (if flag = JNull then None else flag_state (Some (py_str tc flag))),
            fsr_sub_status = (if sub = JNull then None else sub_status (Some (py_str tc sub))),
            fsr_time_remaining_s = time_remaining, fsr_laps_remaining = laps_remaining, fsr_time_elapsed_s = elapsed,
            fsr_track_temp = temp\<rparr>))))))"

text \<open>The columns of a car the schema knows, coerced; a later \<open>class\<close> or \<open>car_class\<close> replaces an earlier one.\<close>

type_synonym shape_values = "(string \<times> shape_value) list"

fun car_values :: "text_conv \<Rightarrow> (string \<times> json) list \<Rightarrow> shape_values \<Rightarrow> shape_values res" where
  "car_values tc [] vs = Inr vs"
| "car_values tc ((key, raw) # rest) vs = (case map_of CAR_FIELDS key of
     None \<Rightarrow> car_values tc rest vs
   | Some kind \<Rightarrow>
       sbind (coerce tc kind raw) (\<lambda>v. car_values tc rest (AList.update (if key = ''class'' then ''car_class'' else key) v vs)))"

fun as_text :: "shape_value option \<Rightarrow> string option" where
  "as_text (Some (SText t)) = t"
| "as_text _ = None"

fun as_whole :: "shape_value option \<Rightarrow> int option" where
  "as_whole (Some (SWhole n)) = n"
| "as_whole _ = None"

fun as_flt :: "shape_value option \<Rightarrow> flt option" where
  "as_flt (Some (SFlt f)) = f"
| "as_flt _ = None"

fun as_bool :: "shape_value option \<Rightarrow> bool option" where
  "as_bool (Some (SBool b)) = b"
| "as_bool _ = None"

definition car_row_of :: "shape_values \<Rightarrow> string \<Rightarrow> real \<Rightarrow> string \<Rightarrow> nat \<Rightarrow> field_car" where
  "car_row_of vs car_no now source index =
     (let v = map_of vs; state = as_text (v ''state'') in
      \<lparr>fcr_time = now, fcr_source = source, fcr_epoch = now, fcr_car_number = car_no, fcr_competitor_id = as_text (v ''competitor_id''),
        fcr_car_class = as_text (v ''car_class''),
        fcr_position = (case as_whole (v ''position'') of None \<Rightarrow> Some (int index + 1) | Some p \<Rightarrow> Some p),
        fcr_class_position = as_whole (v ''class_position''), fcr_laps = as_whole (v ''laps''),
        fcr_last_lap_s = as_flt (v ''last_lap_s''), fcr_best_lap_s = as_flt (v ''best_lap_s''), fcr_gap_lead_s = as_flt (v ''gap_lead_s''),
        fcr_gap_next_s = as_flt (v ''gap_next_s''), fcr_sec1_s = as_flt (v ''sec1_s''), fcr_sec2_s = as_flt (v ''sec2_s''),
        fcr_sec3_s = as_flt (v ''sec3_s''), fcr_pit_count = as_whole (v ''pit_count''),
        fcr_in_pit = (case as_bool (v ''in_pit'') of None \<Rightarrow> map_option (\<lambda>s. s = ''PIT'') state | Some b \<Rightarrow> Some b),
        fcr_pit_flag = as_text (v ''pit_flag''), fcr_driver = as_text (v ''driver''), fcr_state = state\<rparr>)"

definition car_from :: "text_conv \<Rightarrow> (string \<times> json) list \<Rightarrow> real \<Rightarrow> string \<Rightarrow> nat \<Rightarrow> field_car res" where
  [op_defs]: "car_from tc d now source index =
     sbind (car_values tc d []) (\<lambda>vs. case as_text (map_of vs ''car_number'') of
       None \<Rightarrow> Inl ShapeError
     | Some car_no \<Rightarrow> if car_no = [] then Inl ShapeError else Inr (car_row_of vs car_no now source index))"

section \<open>The relay's snapshot\<close>

fun snapshot_rows :: "text_conv \<Rightarrow> real \<Rightarrow> string \<Rightarrow> nat \<Rightarrow> string list \<Rightarrow> json list \<Rightarrow> field_car list res" where
  "snapshot_rows tc now label index seen [] = Inr []"
| "snapshot_rows tc now label index seen (entry # rest) = (case entry of
     JDict d \<Rightarrow>
       sbind (car_from tc d now label index) (\<lambda>row.
         if fcr_car_number row \<in> set seen then Inl ShapeError
         else sbind (snapshot_rows tc now label (Suc index) (fcr_car_number row # seen) rest) (\<lambda>rows. Inr (row # rows)))
   | _ \<Rightarrow> Inl ShapeError)"

definition session_shape :: "json \<Rightarrow> (string \<times> json) list res" where
  "session_shape v = (case v of JNull \<Rightarrow> Inr [] | JDict d \<Rightarrow> Inr d | _ \<Rightarrow> Inl ShapeError)"

definition snapshot_from_json :: "text_conv \<Rightarrow> (string \<times> json) list \<Rightarrow> real \<Rightarrow> string \<Rightarrow> field_snapshot res" where
  [op_defs]: "snapshot_from_json tc body now source = (case jget body ''cars'' of
     JList cars \<Rightarrow>
       if length cars > MAX_CARS then Inl ShapeError
       else sbind (session_shape (jget body ''session'')) (\<lambda>session.
         let label = (case clip tc (jget body ''source'') of None \<Rightarrow> source | Some l \<Rightarrow> l) in
         sbind (snapshot_rows tc now label 0 [] cars) (\<lambda>rows.
         sbind (session_from tc session now label) (\<lambda>s.
           Inr \<lparr>sn_at = now, sn_source = label, sn_session = s, sn_cars = rows\<rparr>)))
   | _ \<Rightarrow> Inl ShapeError)"

section \<open>Timing71\<close>

record t71_translator =
  tr_source :: string
  tr_columns :: "string option list"
  tr_track_temp_index :: "nat option"
  tr_session_name :: "string option"

definition translator_new :: t71_translator where
  "translator_new = \<lparr>tr_source = ''t71'', tr_columns = [], tr_track_temp_index = None, tr_session_name = None\<rparr>"

definition column_of :: "text_conv \<Rightarrow> json \<Rightarrow> string option" where
  "column_of tc column =
     (let heading = (case column of JList (x # _) \<Rightarrow> x | _ \<Rightarrow> column)
      in map_of T71_COLUMNS (if heading = JNull then [] else lower (strip (py_str tc heading))))"

fun track_temp_index :: "text_conv \<Rightarrow> nat \<Rightarrow> json list \<Rightarrow> nat option" where
  "track_temp_index tc i [] = None"
| "track_temp_index tc i (h # hs) =
     (let s = lower (py_str tc h) in if contains ''track'' s \<and> contains ''temp'' s then Some i else track_temp_index tc (Suc i) hs)"

definition t71_manifest :: "text_conv \<Rightarrow> (string \<times> json) list \<Rightarrow> t71_translator \<Rightarrow> t71_translator res" where
  [op_defs]: "t71_manifest tc d tr = (case jget d ''colSpec'' of
     JList spec \<Rightarrow> Inr (tr\<lparr>
       tr_columns := map (column_of tc) spec,
       tr_track_temp_index := (case jget d ''trackDataSpec'' of JList hs \<Rightarrow> track_temp_index tc 0 hs | _ \<Rightarrow> None),
       tr_session_name := (case clip tc (jget d ''description'') of None \<Rightarrow> clip tc (jget d ''name'') | Some n \<Rightarrow> Some n)\<rparr>)
   | _ \<Rightarrow> Inl ShapeError)"

text \<open>\<open>_temperature\<close>: the digits, points and minus signs of a text; \<open>isdigit\<close> holds of the superscript digits too.\<close>

definition is_digit :: "char \<Rightarrow> bool" where
  "is_digit c = (let n = of_char c :: nat in (48 \<le> n \<and> n \<le> 57) \<or> n = 178 \<or> n = 179 \<or> n = 185)"

definition temperature :: "text_conv \<Rightarrow> json \<Rightarrow> flt option res" where
  "temperature tc v = (case v of
     JInt n \<Rightarrow> sbind (float_of_int n) (\<lambda>f. Inr (Some f))
   | JFloat f \<Rightarrow> Inr (Some f)
   | JStr s \<Rightarrow> json_seconds tc (JStr (filter (\<lambda>ch. is_digit ch \<or> ch = CHR ''.'' \<or> ch = CHR ''-'') s))
   | _ \<Rightarrow> Inr None)"

text \<open>The track temperature of a state: the entry of the track data the manifest pointed at; a text is a sequence too.\<close>

definition track_entry :: "nat option \<Rightarrow> json \<Rightarrow> json option" where
  "track_entry i track = (case (i, track) of
     (Some k, JList xs) \<Rightarrow> if k < length xs then Some (xs ! k) else None
   | (Some k, JStr s) \<Rightarrow> if k < length s then Some (JStr [s ! k]) else None
   | _ \<Rightarrow> None)"

definition flt_json :: "flt option \<Rightarrow> json" where
  "flt_json f = (case f of None \<Rightarrow> JNull | Some x \<Rightarrow> JFloat x)"

definition t71_session :: "text_conv \<Rightarrow> t71_translator \<Rightarrow> real \<Rightarrow> json \<Rightarrow> field_session option res" where
  "t71_session tc tr now v = (case v of
     JDict d \<Rightarrow>
       (let m = [(''session_name'', attr_json (tr_session_name tr)), (''flag_state'', jget d ''flagState''),
          (''time_remaining_s'', jget d ''timeRemain''), (''time_elapsed_s'', jget d ''timeElapsed''), (''laps_remaining'', jget d ''lapsRemain'')] in
        case track_entry (tr_track_temp_index tr) (jget d ''trackData'') of
          None \<Rightarrow> session_from tc m now (tr_source tr)
        | Some t \<Rightarrow> sbind (temperature tc t) (\<lambda>f. session_from tc (m @ [(''track_temp'', flt_json f)]) now (tr_source tr)))
   | _ \<Rightarrow> Inr None)"

definition row_mapping :: "string option list \<Rightarrow> json list \<Rightarrow> (string \<times> json) list" where
  "row_mapping columns entry = fold (\<lambda>(c, v) m. case c of None \<Rightarrow> m | Some k \<Rightarrow> AList.update k v m) (zip columns entry) []"

text \<open>A car that appears twice keeps its first row.\<close>

fun t71_rows :: "text_conv \<Rightarrow> t71_translator \<Rightarrow> real \<Rightarrow> nat \<Rightarrow> string list \<Rightarrow> json list \<Rightarrow> field_car list res" where
  "t71_rows tc tr now index seen [] = Inr []"
| "t71_rows tc tr now index seen (entry # rest) = (case entry of
     JList vs \<Rightarrow>
       sbind (car_from tc (row_mapping (tr_columns tr) vs) now (tr_source tr) index) (\<lambda>row.
         if fcr_car_number row \<in> set seen then t71_rows tc tr now (Suc index) seen rest
         else sbind (t71_rows tc tr now (Suc index) (fcr_car_number row # seen) rest) (\<lambda>rows. Inr (row # rows)))
   | _ \<Rightarrow> Inl ShapeError)"

definition t71_state :: "text_conv \<Rightarrow> (string \<times> json) list \<Rightarrow> real \<Rightarrow> t71_translator \<Rightarrow> field_snapshot res" where
  [op_defs]: "t71_state tc d now tr =
     (if tr_columns tr = [] then Inl ShapeError
      else case jget d ''cars'' of
          JList cars \<Rightarrow>
            if length cars > MAX_CARS then Inl ShapeError
            else sbind (t71_rows tc tr now 0 [] cars) (\<lambda>rows.
              sbind (t71_session tc tr now (jget d ''session'')) (\<lambda>s.
                Inr \<lparr>sn_at = now, sn_source = tr_source tr, sn_session = s, sn_cars = rows\<rparr>))
        | _ \<Rightarrow> Inl ShapeError)"

section \<open>The handlers\<close>

text \<open>
  A handler runs on a thread of the server and hands the snapshot to the loop, which calls \<open>submit\<close>; the two are
  one step here, since the handlers touch nothing else of the service but their counters. A closed loop refuses
  with \<open>RuntimeError\<close>.
\<close>

definition count_ingest :: "(feed_health \<Rightarrow> feed_health) \<Rightarrow> feed_service \<Rightarrow> feed_service" where
  "count_ingest f sv = sv\<lparr>sv_health := f (sv_health sv)\<rparr>"

definition add_snapshot :: "feed_health \<Rightarrow> feed_health" where
  "add_snapshot h = h\<lparr>fh_ingest_snapshots := fh_ingest_snapshots h + 1\<rparr>"
definition add_t71 :: "feed_health \<Rightarrow> feed_health" where
  "add_t71 h = h\<lparr>fh_ingest_t71_messages := fh_ingest_t71_messages h + 1\<rparr>"
definition add_rejected :: "feed_health \<Rightarrow> feed_health" where
  "add_rejected h = h\<lparr>fh_ingest_rejected := fh_ingest_rejected h + 1\<rparr>"

text \<open>The body of \<open>_t71_message\<close> inside its \<open>try\<close>: the translator, and the snapshot to hand over when there is
  one; \<open>None\<close> for a message that is not an ingest shape.\<close>

definition t71_translate :: "text_conv \<Rightarrow> json \<Rightarrow> real \<Rightarrow> t71_translator \<Rightarrow> (t71_translator \<times> field_snapshot option) option res" where
  "t71_translate tc v now tr = (case v of
     JDict d \<Rightarrow>
       if jget d ''type'' = JStr ''MANIFEST_UPDATE'' then
         (case jget d ''manifest'' of
            JDict m \<Rightarrow> sbind (t71_manifest tc m tr) (\<lambda>tr1. Inr (Some (tr1, None)))
          | _ \<Rightarrow> Inl ShapeError)
       else if jget d ''type'' = JStr ''STATE_UPDATE'' then
         (case jget d ''state'' of
            JDict s \<Rightarrow> sbind (t71_state tc s now tr) (\<lambda>sn. Inr (Some (tr, Some sn)))
          | _ \<Rightarrow> Inl ShapeError)
       else Inr None
   | _ \<Rightarrow> Inl ShapeError)"

type_synonym t71_run = "t71_translator \<times> feed_service"

definition t71_message :: "text_conv \<Rightarrow> bool \<Rightarrow> json res \<Rightarrow> real \<Rightarrow> t71_run \<Rightarrow> unit res \<times> t71_run" where
  [op_defs]: "t71_message tc running loaded now run = (case run of (tr, sv) \<Rightarrow>
     (case sbind loaded (\<lambda>v. t71_translate tc v now tr) of
        Inl e \<Rightarrow> if e \<in> {ValueError, TypeError, ShapeError} then (Inr (), tr, count_ingest add_rejected sv) else (Inl e, tr, sv)
      | Inr None \<Rightarrow> (Inr (), tr, sv)
      | Inr (Some (tr1, None)) \<Rightarrow> (Inr (), tr1, count_ingest add_t71 sv)
      | Inr (Some (tr1, Some sn)) \<Rightarrow>
          if running then (Inr (), tr1, count_ingest add_t71 (submit_snapshot sn sv)) else (Inl RuntimeError, tr1, sv)))"

text \<open>\<open>_t71\<close> after the upgrade: the messages of the connection, each with its time, to a translator of its own. What
  \<open>_t71_message\<close> raises ends the connection; so does an error of the framing, after the messages before it.\<close>

fun t71_loop :: "text_conv \<Rightarrow> bool \<Rightarrow> (json res \<times> real) list \<Rightarrow> t71_run \<Rightarrow> unit res \<times> t71_run" where
  "t71_loop tc running [] run = (Inr (), run)"
| "t71_loop tc running ((loaded, now) # rest) run = (case t71_message tc running loaded now run of
     (Inl e, run1) \<Rightarrow> (Inl e, run1)
   | (Inr _, run1) \<Rightarrow> t71_loop tc running rest run1)"

definition t71_connection :: "text_conv \<Rightarrow> (code_points \<Rightarrow> json res) \<Rightarrow> bool \<Rightarrow> (nat \<Rightarrow> bool) \<Rightarrow> (nat \<Rightarrow> real) \<Rightarrow> bytes \<Rightarrow> feed_service \<Rightarrow> unit res \<times> feed_service" where
  [op_defs]: "t71_connection tc loads running out_ok clock stream sv =
     (let ws = messages out_ok stream ws_start;
          arrived = map (\<lambda>(i, m). (loads m, clock i)) (enumerate 0 (ws_yielded ws))
      in case t71_loop tc running arrived (translator_new, sv) of (r, _, sv1) \<Rightarrow> (r, sv1))"

definition INGEST_MAX_BODY_BYTES :: int where "INGEST_MAX_BODY_BYTES = 256 * 1024"

definition ingest_sized_body :: "int \<Rightarrow> http_request \<Rightarrow> http_reply + jdict" where
  "ingest_sized_body n rq =
     (if n < 0 then Inl (Reply 400 (ErrorText ''invalid Content-Length''))
      else if INGEST_MAX_BODY_BYTES < n then Inl (Reply 413 (ErrorText ''request body too large''))
      else if n \<noteq> 0 \<and> content_type rq \<notin> {''application/json'', ''text/plain''}
      then Inl (Reply 415 (ErrorText ''Content-Type must be application/json or text/plain''))
      else if n = 0 then Inr [] else decode_body (rq_body rq))"

definition ingest_read_body :: "text_conv \<Rightarrow> http_request \<Rightarrow> http_reply + jdict" where
  [op_defs]: "ingest_read_body tc rq =
     (if header_or_empty rq ''Transfer-Encoding'' \<noteq> [] then Inl (Reply 400 (ErrorText ''Transfer-Encoding is not supported''))
      else case content_length tc rq of
          Inl e \<Rightarrow> Inl (Reply 400 (ErrorText ''invalid JSON body''))
        | Inr n \<Rightarrow> ingest_sized_body n rq)"

definition ingest_POST :: "text_conv \<Rightarrow> bool \<Rightarrow> real \<Rightarrow> http_request \<Rightarrow> feed_service \<Rightarrow> http_reply \<times> feed_service" where
  [op_defs]: "ingest_POST tc running now rq sv =
     (if request_path rq \<noteq> ''/ingest/snapshot'' then (Reply 404 (ErrorText ''not found''), sv)
      else case ingest_read_body tc rq of
          Inl r \<Rightarrow> (r, sv)
        | Inr body \<Rightarrow>
            (case snapshot_from_json tc body now ''relay'' of
               Inl e \<Rightarrow> if e = ShapeError then (Reply 400 (ErrorText ''snapshot refused''), count_ingest add_rejected sv) else (NoReply e, sv)
             | Inr sn \<Rightarrow>
                 if running then (Reply 200 (Payload [(''accepted'', JInt (int (length (sn_cars sn))))]), count_ingest add_snapshot (submit_snapshot sn sv))
                 else (NoReply RuntimeError, sv)))"

section \<open>What is accepted is bounded\<close>

definition text_bounded :: "string option \<Rightarrow> bool" where
  "text_bounded t = (case t of None \<Rightarrow> True | Some s \<Rightarrow> s \<noteq> [] \<and> length s \<le> SHAPE_MAX_TEXT)"

definition car_bounded :: "real \<Rightarrow> string \<Rightarrow> field_car \<Rightarrow> bool" where
  "car_bounded now label c \<longleftrightarrow> fcr_time c = now \<and> fcr_epoch c = now \<and> fcr_source c = label \<and> fcr_position c \<noteq> None
     \<and> list_all text_bounded [Some (fcr_car_number c), fcr_competitor_id c, fcr_car_class c, fcr_pit_flag c, fcr_driver c, fcr_state c]"

definition snapshot_ok :: "real \<Rightarrow> field_snapshot \<Rightarrow> bool" where
  "snapshot_ok now sn \<longleftrightarrow> sn_at sn = now \<and> length (sn_cars sn) \<le> MAX_CARS \<and> distinct (map fcr_car_number (sn_cars sn))
     \<and> list_all (car_bounded now (sn_source sn)) (sn_cars sn) \<and> text_bounded (Some (sn_source sn))
     \<and> (case sn_session sn of None \<Rightarrow> True | Some s \<Rightarrow> text_bounded (fsr_session_name s) \<and> text_bounded (fsr_event_type s))"

text \<open>A number no row can hold: an infinity, a not-a-number, a text that reads as one, or an integer beyond the doubles.\<close>

definition unreadable :: "text_conv \<Rightarrow> json \<Rightarrow> bool" where
  "unreadable tc v = (case v of
     JNull \<Rightarrow> False
   | JBool _ \<Rightarrow> False
   | JInt n \<Rightarrow> \<bar>n\<bar> \<ge> 2 ^ 1024 - 2 ^ 970
   | JFloat f \<Rightarrow> f \<in> {NaN, PInf, NInf}
   | _ \<Rightarrow> float_of_str tc (strip (py_str tc v)) \<in> {Some NaN, Some PInf, Some NInf})"

fun entry_values :: "json \<Rightarrow> json list" where
  "entry_values (JDict d) = map (unpaired \<circ> snd) d"
| "entry_values (JList vs) = map unpaired vs"
| "entry_values _ = []"

fun members :: "json \<Rightarrow> json list" where
  "members (JList vs) = vs"
| "members _ = []"

text \<open>The values a snapshot is read from: those of the cars, of the session and of its track data.\<close>

fun session_values :: "json \<Rightarrow> json list" where
  "session_values (JDict d) = map snd d @ members (jget d ''trackData'')"
| "session_values _ = []"

definition shape_leaves :: "(string \<times> json) list \<Rightarrow> json list" where
  "shape_leaves d = concat (map entry_values (members (jget d ''cars''))) @ session_values (jget d ''session'')"

lemma clip_bounded: "text_bounded (clip tc v)"
  by (auto simp: text_bounded_def clip_def field_text_def SHAPE_MAX_TEXT_def Let_def split: option.splits)

lemma int_of_flt_InlD: "int_of_flt f = Inl e \<Longrightarrow> f \<in> {NaN, PInf, NInf} \<and> e \<in> {ValueError, OverflowError}"
  by (cases f) auto

lemma whole_flt_InlD: "whole_flt f = Inl e \<Longrightarrow> f \<in> {NaN, PInf, NInf} \<and> e \<in> {ValueError, OverflowError}"
  using int_of_flt_InlD by (simp add: whole_flt_def sbind_Inl_iff)

lemma field_int_InlD: "field_int tc v = Inl e \<Longrightarrow> unreadable tc v \<and> e \<in> {ValueError, OverflowError}"
  by (auto simp: field_int_def unreadable_def Let_def split: json.splits option.splits if_splits dest!: whole_flt_InlD)

lemma float_of_int_InlD: "float_of_int n = Inl e \<Longrightarrow> unreadable tc (JInt n) \<and> e = OverflowError"
  by (simp add: float_of_int_def unreadable_def split: if_splits)

lemma json_seconds_InlD: "json_seconds tc v = Inl e \<Longrightarrow> unreadable tc v \<and> e = OverflowError"
  by (auto simp: json_seconds_def sbind_Inl_iff split: json.splits dest: float_of_int_InlD)

lemma gap_delta_InlD: "gap_delta tc v = Inl e \<Longrightarrow> unreadable tc v \<and> e = OverflowError"
  by (auto simp: gap_delta_def sbind_Inl_iff json_seconds_def Let_def split: json.splits if_splits dest: float_of_int_InlD)

lemma temperature_InlD: "temperature tc v = Inl e \<Longrightarrow> unreadable tc v \<and> e = OverflowError"
  by (auto simp: temperature_def sbind_Inl_iff json_seconds_def split: json.splits dest: float_of_int_InlD)

lemma coerce_InlD: "coerce tc k v = Inl e \<Longrightarrow> unreadable tc (unpaired v) \<and> e \<in> {ValueError, OverflowError}"
  by (cases k) (auto simp: sbind_Inl_iff dest: field_int_InlD json_seconds_InlD gap_delta_InlD)

fun value_bounded :: "shape_value \<Rightarrow> bool" where
  "value_bounded (SText t) = text_bounded t"
| "value_bounded _ = True"

lemma coerce_bounded: "coerce tc k v = Inr w \<Longrightarrow> value_bounded w"
  by (cases k) (auto simp: sbind_Inr_iff clip_bounded)

lemma car_values_InlD: "car_values tc d vs = Inl e \<Longrightarrow> list_ex (unreadable tc) (map (unpaired \<circ> snd) d) \<and> e \<in> {ValueError, OverflowError}"
  by (induction tc d vs rule: car_values.induct) (auto simp: sbind_Inl_iff split: option.splits dest: coerce_InlD)

lemma car_values_bounded:
  "car_values tc d vs = Inr ws \<Longrightarrow> (\<And>k w. map_of vs k = Some w \<Longrightarrow> value_bounded w) \<Longrightarrow> map_of ws k = Some w \<Longrightarrow> value_bounded w"
proof (induction tc d vs rule: car_values.induct)
  case (2 tc key raw rest vs)
  show ?case
  proof (cases "map_of CAR_FIELDS key")
    case (Some kind)
    then obtain v where v: "coerce tc kind raw = Inr v" "car_values tc rest (AList.update (if key = ''class'' then ''car_class'' else key) v vs) = Inr ws"
      using 2(3) by (auto simp: sbind_Inr_iff)
    show ?thesis
      by (rule 2(2)[OF Some v(2)]) (use 2(4,5) coerce_bounded[OF v(1)] in \<open>auto simp: update_conv' split: if_splits\<close>)
  qed (use 2 in simp)
qed simp

lemma as_text_bounded: "(\<And>w. x = Some w \<Longrightarrow> value_bounded w) \<Longrightarrow> text_bounded (as_text x)"
  by (cases x rule: as_text.cases) (auto simp: text_bounded_def)

lemma car_from_InrD: "car_from tc d now label i = Inr c \<Longrightarrow> car_bounded now label c"
proof -
  assume a: "car_from tc d now label i = Inr c"
  then obtain vs n where vs: "car_values tc d [] = Inr vs" "as_text (map_of vs ''car_number'') = Some n" "n \<noteq> []" "c = car_row_of vs n now label i"
    by (auto simp: car_from_def sbind_Inr_iff split: option.splits if_splits)
  have t: "text_bounded (as_text (map_of vs k))" for k
    by (rule as_text_bounded) (rule car_values_bounded[OF vs(1)], simp_all)
  from t[of "''car_number''"] show ?thesis unfolding vs(2,4) by (auto simp: car_bounded_def car_row_of_def t Let_def split: option.splits)
qed

lemma car_from_InlD: "car_from tc d now label i = Inl e \<Longrightarrow>
    e = ShapeError \<or> list_ex (unreadable tc) (map (unpaired \<circ> snd) d) \<and> e \<in> {ValueError, OverflowError}"
  by (auto simp: car_from_def sbind_Inl_iff split: option.splits if_splits dest!: car_values_InlD)

lemma snapshot_rows_InrD:
  "snapshot_rows tc now label i seen js = Inr rows \<Longrightarrow>
     length rows = length js \<and> list_all (car_bounded now label) rows \<and> distinct (map fcr_car_number rows) \<and> set seen \<inter> fcr_car_number ` set rows = {}"
proof (induction js arbitrary: i seen rows)
  case (Cons entry rest)
  from Cons.prems obtain d row rs where d: "entry = JDict d" "car_from tc d now label i = Inr row" "fcr_car_number row \<notin> set seen"
    "snapshot_rows tc now label (Suc i) (fcr_car_number row # seen) rest = Inr rs" "rows = row # rs"
    by (auto simp: sbind_Inr_iff split: json.splits if_splits)
  from Cons.IH[OF d(4)] d(3,5) car_from_InrD[OF d(2)] show ?case by auto
qed simp

lemma snapshot_rows_InlD:
  "snapshot_rows tc now label i seen js = Inl e \<Longrightarrow>
     e = ShapeError \<or> list_ex (unreadable tc) (concat (map entry_values js)) \<and> e \<in> {ValueError, OverflowError}"
proof (induction js arbitrary: i seen)
  case (Cons entry rest)
  show ?case
  proof (cases entry)
    case (JDict d)
    show ?thesis
    proof (cases "car_from tc d now label i")
      case (Inl e1)
      then show ?thesis using Cons.prems JDict car_from_InlD[OF Inl] by auto
    next
      case (Inr row)
      then show ?thesis using Cons JDict by (auto simp: sbind_Inl_iff split: if_splits)
    qed
  qed (use Cons.prems in auto)
qed simp

lemma update_values: "snd ` set (AList.update k v m) \<subseteq> insert v (snd ` set m)"
  by (induction m) auto

lemma fold_update_values:
  "snd ` set (fold (\<lambda>(c, v) m. case c of None \<Rightarrow> m | Some k \<Rightarrow> AList.update k v m) ps m) \<subseteq> snd ` set m \<union> snd ` set ps"
proof (induction ps arbitrary: m)
  case (Cons p ps)
  obtain c v where p: "p = (c, v)" by (rule prod.exhaust)
  show ?case
  proof (cases c)
    case (Some k)
    from subset_trans[OF Cons[of "AList.update k v m"]] update_values[of k v m] show ?thesis by (simp add: p Some) blast
  qed (use Cons[of m] p in auto)
qed simp

lemma row_mapping_values: "x \<in> set (row_mapping cs vs) \<Longrightarrow> snd x \<in> set vs"
  using fold_update_values[of "zip cs vs" "[]"] by (auto simp: row_mapping_def dest!: set_zip_rightD)

lemma t71_rows_InrD:
  "t71_rows tc tr now i seen js = Inr rows \<Longrightarrow>
     length rows \<le> length js \<and> list_all (car_bounded now (tr_source tr)) rows \<and> distinct (map fcr_car_number rows)
     \<and> set seen \<inter> fcr_car_number ` set rows = {}"
proof (induction js arbitrary: i seen rows)
  case (Cons entry rest)
  from Cons.prems obtain vs row where d: "entry = JList vs" "car_from tc (row_mapping (tr_columns tr) vs) now (tr_source tr) i = Inr row"
    by (auto simp: sbind_Inr_iff split: json.splits)
  show ?case
  proof (cases "fcr_car_number row \<in> set seen")
    case True
    then show ?thesis using Cons.IH[of "Suc i" seen rows] Cons.prems d by auto
  next
    case False
    then obtain rs where rs: "t71_rows tc tr now (Suc i) (fcr_car_number row # seen) rest = Inr rs" "rows = row # rs"
      using Cons.prems d by (auto simp: sbind_Inr_iff)
    from Cons.IH[OF rs(1)] rs(2) False car_from_InrD[OF d(2)] show ?thesis by auto
  qed
qed simp

lemma t71_rows_InlD:
  "t71_rows tc tr now i seen js = Inl e \<Longrightarrow>
     e = ShapeError \<or> list_ex (unreadable tc) (concat (map entry_values js)) \<and> e \<in> {ValueError, OverflowError}"
proof (induction js arbitrary: i seen)
  case (Cons entry rest)
  show ?case
  proof (cases entry)
    case (JList vs)
    show ?thesis
    proof (cases "car_from tc (row_mapping (tr_columns tr) vs) now (tr_source tr) i")
      case (Inl e1)
      then show ?thesis using Cons.prems JList car_from_InlD[OF Inl] by (auto simp: list_ex_iff dest!: row_mapping_values)
    next
      case (Inr row)
      then show ?thesis using Cons JList by (auto simp: sbind_Inl_iff split: if_splits)
    qed
  qed (use Cons.prems in auto)
qed simp

lemma jget_in: "jget d k \<noteq> JNull \<Longrightarrow> jget d k \<in> snd ` set d"
  by (force simp: jget_def split: option.splits dest: map_of_SomeD)

lemma unreadable_JNull [simp]: "\<not> unreadable tc JNull"
  by (simp add: unreadable_def)

lemma session_from_InrD:
  "session_from tc d now label = Inr (Some s) \<Longrightarrow> text_bounded (fsr_session_name s) \<and> text_bounded (fsr_event_type s)"
  by (auto simp: session_from_def sbind_Inr_iff Let_def clip_bounded split: if_splits)

lemma json_seconds_InlD_int: "json_seconds tc v = Inl e \<Longrightarrow> \<exists>n. v = JInt n"
  by (auto simp: json_seconds_def split: json.splits)

lemma session_from_InlD_key:
  "session_from tc d now label = Inl e \<Longrightarrow> e \<in> {ValueError, OverflowError} \<and> (unreadable tc (jget d ''laps_remaining'')
     \<or> (\<exists>k \<in> {''time_remaining_s'', ''time_elapsed_s'', ''track_temp''}. unreadable tc (jget d k) \<and> (\<exists>n. jget d k = JInt n)))"
  by (auto simp: session_from_def sbind_Inl_iff Let_def split: if_splits dest: field_int_InlD json_seconds_InlD json_seconds_InlD_int)

lemma session_from_InlD:
  assumes "session_from tc d now label = Inl e"
  shows "(\<exists>v \<in> snd ` set d. unreadable tc v) \<and> e \<in> {ValueError, OverflowError}"
proof -
  from session_from_InlD_key[OF assms] obtain k where "unreadable tc (jget d k)" "e \<in> {ValueError, OverflowError}" by blast
  then show ?thesis using jget_in[of d k] by force
qed

definition shape_verdict :: "text_conv \<Rightarrow> (string \<times> json) list \<Rightarrow> real \<Rightarrow> field_snapshot res \<Rightarrow> bool" where
  "shape_verdict tc d now r = (case r of
     Inr sn \<Rightarrow> snapshot_ok now sn
   | Inl e \<Rightarrow> e = ShapeError \<or> e \<in> {ValueError, OverflowError} \<and> list_ex (unreadable tc) (shape_leaves d))"

lemma label_bounded: "text_bounded (Some (case clip tc v of None \<Rightarrow> ''relay'' | Some l \<Rightarrow> l))"
  using clip_bounded[of tc v] by (auto simp: text_bounded_def SHAPE_MAX_TEXT_def split: option.splits)

lemma snapshot_verdict: "shape_verdict tc d now (snapshot_from_json tc d now ''relay'')"
proof (cases "snapshot_from_json tc d now ''relay''")
  case (Inr sn)
  define label where "label = (case clip tc (jget d ''source'') of None \<Rightarrow> ''relay'' | Some l \<Rightarrow> l)"
  from Inr obtain cars session rows s where
    c: "jget d ''cars'' = JList cars" "length cars \<le> MAX_CARS" "session_shape (jget d ''session'') = Inr session"
      "snapshot_rows tc now label 0 [] cars = Inr rows" "session_from tc session now label = Inr s"
      "sn = \<lparr>sn_at = now, sn_source = label, sn_session = s, sn_cars = rows\<rparr>"
    unfolding label_def by (auto simp: snapshot_from_json_def sbind_Inr_iff Let_def split: json.splits if_splits)
  have "text_bounded (Some label)" unfolding label_def by (rule label_bounded)
  with snapshot_rows_InrD[OF c(4)] c(2) session_from_InrD[of tc session now label] c(5) show ?thesis
    unfolding Inr by (auto simp: shape_verdict_def snapshot_ok_def c(6) split: option.splits)
next
  case (Inl e)
  define label where "label = (case clip tc (jget d ''source'') of None \<Rightarrow> ''relay'' | Some l \<Rightarrow> l)"
  from Inl consider "e = ShapeError"
    | cars where "jget d ''cars'' = JList cars" "snapshot_rows tc now label 0 [] cars = Inl e"
    | session where "session_shape (jget d ''session'') = Inr session" "session_from tc session now label = Inl e"
    unfolding label_def by (auto simp: snapshot_from_json_def session_shape_def sbind_Inl_iff Let_def split: json.splits if_splits)
  then have "e = ShapeError \<or> e \<in> {ValueError, OverflowError} \<and> list_ex (unreadable tc) (shape_leaves d)"
  proof cases
    case 2
    then show ?thesis using snapshot_rows_InlD[OF 2(2)] by (auto simp: shape_leaves_def)
  next
    case 3
    from session_from_InlD[OF 3(2)] have v: "\<exists>v \<in> snd ` set session. unreadable tc v" "e \<in> {ValueError, OverflowError}" by blast+
    then have "jget d ''session'' = JDict session" using 3(1) by (auto simp: session_shape_def split: json.splits)
    then show ?thesis using v by (auto simp: shape_leaves_def list_ex_iff)
  qed blast
  then show ?thesis unfolding Inl by (simp add: shape_verdict_def)
qed

lemma track_entry_in: "track_entry i v = Some t \<Longrightarrow> t \<in> set (members v) \<or> (\<exists>s. t = JStr s)"
  by (auto simp: track_entry_def split: option.splits json.splits if_splits)

lemma temperature_JStr: "temperature tc (JStr s) \<noteq> Inl e"
  by (simp add: temperature_def json_seconds_def)

lemma t71_session_InlD:
  assumes "t71_session tc tr now v = Inl e"
  shows "list_ex (unreadable tc) (session_values v) \<and> e \<in> {ValueError, OverflowError}"
proof -
  from assms obtain d where d: "v = JDict d" by (auto simp: t71_session_def split: json.splits)
  let ?m = "[(''session_name'', attr_json (tr_session_name tr)), (''flag_state'', jget d ''flagState''),
     (''time_remaining_s'', jget d ''timeRemain''), (''time_elapsed_s'', jget d ''timeElapsed''), (''laps_remaining'', jget d ''lapsRemain'')]"
  have leaf: "list_ex (unreadable tc) (session_values v)" if "unreadable tc (jget d k)" for k
    using that jget_in[of d k] by (force simp: d list_ex_iff)
  have "jget ?m ''track_temp'' = JNull" by (simp add: jget_def)
  then have sess: "?thesis" if "session_from tc ?m now (tr_source tr) = Inl e"
    using session_from_InlD_key[OF that] leaf by (auto simp: jget_def[of ?m])
  have sess2: "?thesis" if "session_from tc (?m @ [(''track_temp'', flt_json f)]) now (tr_source tr) = Inl e" for f
    using session_from_InlD_key[OF that] leaf by (auto simp: jget_def[of "_ # _"] flt_json_def split: option.splits)
  show ?thesis
  proof (cases "track_entry (tr_track_temp_index tr) (jget d ''trackData'')")
    case (Some t)
    then show ?thesis
    proof (cases "temperature tc t")
      case (Inl e1)
      then have "t \<in> set (members (jget d ''trackData''))" using track_entry_in[OF Some] temperature_JStr by metis
      then show ?thesis using temperature_InlD[OF Inl] assms Some Inl by (auto simp: t71_session_def d list_ex_iff)
    next
      case (Inr f)
      then show ?thesis using assms Some sess2[of f] by (simp add: t71_session_def d)
    qed
  qed (use assms sess in \<open>simp add: t71_session_def d\<close>)
qed

lemma t71_session_InrD: "t71_session tc tr now v = Inr (Some s) \<Longrightarrow> text_bounded (fsr_session_name s) \<and> text_bounded (fsr_event_type s)"
  by (auto simp: t71_session_def sbind_Inr_iff Let_def split: json.splits option.splits dest: session_from_InrD)

lemma t71_state_verdict:
  assumes "text_bounded (Some (tr_source tr))"
  shows "shape_verdict tc d now (t71_state tc d now tr)"
proof (cases "t71_state tc d now tr")
  case (Inr sn)
  then obtain cars rows s where c: "jget d ''cars'' = JList cars" "length cars \<le> MAX_CARS" "t71_rows tc tr now 0 [] cars = Inr rows"
      "t71_session tc tr now (jget d ''session'') = Inr s" "sn = \<lparr>sn_at = now, sn_source = tr_source tr, sn_session = s, sn_cars = rows\<rparr>"
    by (auto simp: t71_state_def sbind_Inr_iff split: json.splits if_splits)
  with t71_rows_InrD[OF c(3)] assms t71_session_InrD[of tc tr now] show ?thesis
    unfolding Inr by (auto simp: shape_verdict_def snapshot_ok_def split: option.splits)
next
  case (Inl e)
  then have "e = ShapeError \<or> e \<in> {ValueError, OverflowError} \<and> list_ex (unreadable tc) (shape_leaves d)"
    by (auto simp: t71_state_def sbind_Inl_iff shape_leaves_def split: json.splits if_splits dest!: t71_rows_InlD t71_session_InlD)
  then show ?thesis unfolding Inl by (simp add: shape_verdict_def)
qed

lemma t71_translate_source: "t71_translate tc v now tr = Inr (Some (tr1, sn)) \<Longrightarrow> tr_source tr1 = tr_source tr"
  by (auto simp: t71_translate_def t71_manifest_def sbind_Inr_iff split: json.splits if_splits)

lemma t71_message_source: "t71_message tc running loaded now run = (r, run1) \<Longrightarrow> tr_source (fst run1) = tr_source (fst run)"
  by (auto simp: t71_message_def sbind_Inr_iff split: prod.splits sum.splits option.splits if_splits dest: t71_translate_source)

lemma t71_loop_source: "t71_loop tc running msgs run = (r, run1) \<Longrightarrow> tr_source (fst run1) = tr_source (fst run)"
proof (induction msgs arbitrary: run)
  case (Cons m msgs)
  obtain loaded now where m: "m = (loaded, now)" by (rule prod.exhaust)
  obtain r2 run2 where t: "t71_message tc running loaded now run = (r2, run2)" by (rule prod.exhaust)
  show ?case using Cons.IH[of run2] Cons.prems t71_message_source[OF t] by (cases r2) (auto simp: m t)
qed simp

text \<open>
  C33. Everything the two ingest shapes let in is bounded. A relay's body, and a Timing71 state read against whatever
  manifests and messages its connection sent before, either becomes a snapshot of at most two hundred cars with
  distinct non-empty numbers, every text of a car, of the session's name and type and of the source label at most eighty characters, every car with a position and the
  snapshot's time, or is refused with a \<open>ShapeError\<close>; any other exception comes only from a value that is an infinity, a
  not-a-number, a text that reads as one, or an integer beyond the doubles.
\<close>
theorem shapes_bounded:
  "shape_verdict tc body now (snapshot_from_json tc body now ''relay'')
   \<and> shape_verdict tc d now (t71_state tc d now (fst (snd (t71_loop tc running msgs (translator_new, sv)))))"
proof -
  obtain r run where l: "t71_loop tc running msgs (translator_new, sv) = (r, run)" by (rule prod.exhaust)
  have "text_bounded (Some (tr_source (fst run)))" using t71_loop_source[OF l] by (simp add: translator_new_def text_bounded_def SHAPE_MAX_TEXT_def)
  then show ?thesis using snapshot_verdict t71_state_verdict by (simp add: l)
qed

section \<open>From the endpoint to the standings\<close>

lemma write_batch_queue: "sv_queue (write_batch x b sv) = sv_queue sv"
  by (auto simp: write_batch_def Let_def split: prod.splits sum.splits)

lemma handle_snapshot_queue: "sv_queue (snd (handle_snapshot x sn sv)) = sv_queue sv"
  by (auto simp: handle_snapshot_def observe_document_def reject_document_def Let_def write_batch_queue split: prod.splits sum.splits)

lemma ingest_pass_queue: "sv_queue (ingest_pass x sv) = tl (sv_queue sv)"
  by (simp add: ingest_pass_def handle_snapshot_queue split: list.splits)

lemma drained_holds:
  assumes "distinct (map fcr_car_number (sn_cars sn))" "length (sn_cars sn) \<le> MAX_CARS"
  shows "sv_queue sv = q @ [sn] \<Longrightarrow> length xs = Suc (length q) \<Longrightarrow>
    sv_queue (fold ingest_pass xs sv) = [] \<and> holds_cars (sn_cars sn) (sv_state (fold ingest_pass xs sv))"
proof (induction q arbitrary: sv xs)
  case Nil
  then obtain x where "xs = [x]" by (cases xs) auto
  then show ?case using Nil snapshot_first[OF assms] by (simp add: ingest_pass_queue) (simp add: ingest_pass_def)
next
  case (Cons a q)
  then obtain x ys where xs: "xs = x # ys" by (cases xs) auto
  show ?case using Cons.IH[of "ingest_pass x sv" ys] Cons.prems by (simp add: xs ingest_pass_queue)
qed

lemma submit_snapshot_last: "\<exists>q. sv_queue (submit_snapshot sn sv) = q @ [sn]"
  by (simp add: submit_snapshot_def)

lemma count_ingest_frame [simp]:
  "sv_queue (count_ingest f sv) = sv_queue sv" "sv_state (count_ingest f sv) = sv_state sv" "sv_db (count_ingest f sv) = sv_db sv"
  by (simp_all add: count_ingest_def)

text \<open>What reading a body gives: an answer other than 200, or the object of an accepted body.\<close>

lemma ingest_read_status: "ingest_read_body tc rq = Inl r \<Longrightarrow> reply_status r \<noteq> 200"
  using decode_body_cases[of "rq_body rq"]
  by (auto simp: ingest_read_body_def ingest_sized_body_def split: if_splits sum.splits)

definition posted :: "real \<Rightarrow> http_reply \<Rightarrow> feed_service \<Rightarrow> bool" where
  "posted now r sv1 \<longleftrightarrow> (\<exists>sn. snapshot_ok now sn \<and> r = Reply 200 (Payload [(''accepted'', JInt (int (length (sn_cars sn))))])
     \<and> (\<forall>xs. length xs = length (sv_queue sv1) \<longrightarrow>
          sv_queue (fold ingest_pass xs sv1) = [] \<and> holds_cars (sn_cars sn) (sv_state (fold ingest_pass xs sv1))))"


text \<open>
  One number no row can hold takes down more than its own message. A relay's snapshot whose first car has an infinite lap
  count is not answered with the 400 a malformed body gets: \<open>OverflowError\<close> escapes the handler, the connection closes
  without a reply and nothing is counted as rejected. A Timing71 state with such a count ends its whole connection, whatever
  messages follow, although any other bad message is only counted and skipped.
\<close>
theorem infinite_number_escapes:
  assumes "request_path rq = ''/ingest/snapshot''" "jget body ''cars'' = JList (JDict [(''laps'', JFloat PInf)] # cars)"
    and "ingest_read_body tc rq = Inr body" "jget body ''session'' = JNull" "length cars < MAX_CARS"
    and "tr_columns tr = [Some ''car_number'', Some ''laps'']" "jget st ''cars'' = JList (JList [n, JFloat PInf] # rows)" "length rows < MAX_CARS"
  shows "ingest_POST tc running now rq sv = (NoReply OverflowError, sv)
    \<and> t71_loop tc running ((Inr (JDict [(''type'', JStr ''STATE_UPDATE''), (''state'', JDict st)]), now) # rest) (tr, sv) = (Inl OverflowError, tr, sv)"
proof
  have "car_from tc [(''laps'', JFloat PInf)] now label 0 = Inl OverflowError" for label
    by (simp add: car_from_def CAR_FIELDS_def unpaired_def field_int_def whole_flt_def)
  with assms(2,4,5) have "snapshot_from_json tc body now ''relay'' = Inl OverflowError" by (simp add: snapshot_from_json_def session_shape_def)
  then show "ingest_POST tc running now rq sv = (NoReply OverflowError, sv)" using assms(1,3) by (simp add: ingest_POST_def)
  have "row_mapping (tr_columns tr) [n, JFloat PInf] = [(''car_number'', n), (''laps'', JFloat PInf)]" by (simp add: assms(6) row_mapping_def)
  moreover have "car_from tc [(''car_number'', n), (''laps'', JFloat PInf)] now src 0 = Inl OverflowError" for src
    by (simp add: car_from_def CAR_FIELDS_def unpaired_def[of "JFloat _"] field_int_def whole_flt_def)
  ultimately have "t71_state tc st now tr = Inl OverflowError" using assms(6,7,8) by (simp add: t71_state_def)
  then show "t71_loop tc running ((Inr (JDict [(''type'', JStr ''STATE_UPDATE''), (''state'', JDict st)]), now) # rest) (tr, sv) = (Inl OverflowError, tr, sv)"
    by (simp add: t71_message_def t71_translate_def jget_def)
qed

definition wit_post :: http_request where
  "wit_post = \<lparr>rq_path = ''/ingest/snapshot'', rq_headers = [(''Content-Length'', ''9'')],
     rq_body = BodyValue (Inr (JDict [(''cars'', JList [JDict [(''laps'', JFloat PInf)]])]))\<rparr>"

definition wit_shape_conv :: text_conv where
  "wit_shape_conv = \<lparr>float_of_str = \<lambda>_. None, int_of_str = \<lambda>s. Some (int (length s)), str_of = \<lambda>_. ''?''\<rparr>"

theorem infinite_number_escapes_witness:
  "ingest_POST wit_shape_conv True 5 wit_post wit_feed_service = (NoReply OverflowError, wit_feed_service)"
  using infinite_number_escapes[of wit_post "[(''cars'', JList [JDict [(''laps'', JFloat PInf)]])]" "[]" wit_shape_conv
      "translator_new\<lparr>tr_columns := [Some ''car_number'', Some ''laps'']\<rparr>" "[(''cars'', JList [JList [JStr ''7'', JFloat PInf]])]" "JStr ''7''" "[]"
      True 5 wit_feed_service "[]"]
  by (simp add: wit_post_def wit_shape_conv_def request_path_def jget_def ingest_read_body_def ingest_sized_body_def header_or_empty_def header_def
      content_length_def content_type_def MAX_CARS_def INGEST_MAX_BODY_BYTES_def lower_def lower_char_def)

end
