(* ===== verification/Nmea.thy ===== *)
theory Nmea
  imports Py_Values Rbe "HOL-Library.Word"
begin

unbundle bit_operations_syntax

text \<open>
  \<^verbatim>\<open>src/collectors/serial/nmea.py\<close> and the line handling of \<^verbatim>\<open>transport.py\<close>: sentences of a GNSS receiver to
  samples.

  A line is the bytes \<open>readline\<close> returned, which is a whole line or, when the port's timeout passes first, the part that
  has arrived. \<open>float\<close> and \<open>int\<close> of text are fields of \<open>text_conv\<close>. \<open>ValueError\<close>, \<open>IndexError\<close> and a byte
  outside ASCII all count as malformed, so they are one refusal here: \<open>ValueError\<close>.
\<close>

section \<open>Checksum\<close>

definition xor_checksum :: "string \<Rightarrow> nat" where
  "xor_checksum body = fold (\<lambda>ch acc. acc XOR of_char ch) body 0"

definition hex_digit :: "nat \<Rightarrow> char" where
  "hex_digit d = ''0123456789ABCDEF'' ! d"

fun hex_digits :: "nat \<Rightarrow> string" where
  "hex_digits n = (if n < 16 then [hex_digit n] else hex_digits (n div 16) @ [hex_digit (n mod 16)])"

declare hex_digits.simps [simp del]

text \<open>The format \<open>02X\<close>.\<close>

definition hex02 :: "nat \<Rightarrow> string" where
  "hex02 n = (let ds = hex_digits n in replicate (2 - length ds) CHR ''0'' @ ds)"

definition validated_body :: "string \<Rightarrow> string res" where
  [op_defs]: "validated_body sentence = (case sentence of
     [] \<Rightarrow> Inl ValueError
   | c # rest \<Rightarrow>
       if c \<noteq> CHR ''$'' then Inl ValueError
       else let body = takeWhile (\<lambda>ch. ch \<noteq> CHR ''*'') rest in
         case dropWhile (\<lambda>ch. ch \<noteq> CHR ''*'') rest of
           [] \<Rightarrow> Inr body
         | _ # supplied \<Rightarrow>
             if length supplied \<noteq> 2 then Inl ValueError
             else if upper supplied \<noteq> hex02 (xor_checksum body) then Inl ValueError
             else Inr body)"

section \<open>Fields\<close>

definition read_float :: "text_conv \<Rightarrow> string \<Rightarrow> flt res" where
  "read_float tc s = (case float_of_str tc s of None \<Rightarrow> Inl ValueError | Some f \<Rightarrow> Inr f)"

definition read_int :: "text_conv \<Rightarrow> string \<Rightarrow> int res" where
  "read_int tc s = (case int_of_str tc s of None \<Rightarrow> Inl ValueError | Some n \<Rightarrow> Inr n)"

text \<open>A float that passed \<open>math.isfinite\<close>.\<close>

fun finite_real :: "flt \<Rightarrow> real res" where
  "finite_real (Fin x) = Inr x"
| "finite_real _ = Inl ValueError"

text \<open>\<open>_coordinate\<close>. Minutes that are not a number pass its range test and are refused with the other values that are
  not finite; nothing is emitted in between, so the two refusals are one.\<close>

definition coordinate :: "text_conv \<Rightarrow> string \<Rightarrow> string \<Rightarrow> nat \<Rightarrow> real res" where
  [op_defs]: "coordinate tc v hemisphere degree_digits =
     (if length v \<le> degree_digits then Inl ValueError
      else sbind (read_int tc (take degree_digits v)) (\<lambda>degrees.
           sbind (read_float tc (drop degree_digits v)) (\<lambda>f.
           sbind (finite_real f) (\<lambda>minutes.
             if minutes < 0 \<or> minutes \<ge> 60 then Inl ValueError
             else let coord = of_int degrees + minutes / 60;
                      (positive, negative) = (if degree_digits = 2 then (''N'', ''S'') else (''E'', ''W''))
                  in if hemisphere = negative then Inr (- coord)
                     else if hemisphere \<noteq> positive then Inl ValueError
                     else Inr coord))))"

section \<open>Sentences\<close>

record nmea_stats =
  ns_sentences :: nat
  ns_rmc :: nat
  ns_gga :: nat
  ns_gst :: nat
  ns_ignored :: nat
  ns_malformed :: nat

record nmea_decoder =
  nd_source :: string
  nd_device :: string
  nd_stats :: nmea_stats

definition nmea_new :: "string \<Rightarrow> string \<Rightarrow> nmea_decoder" where
  "nmea_new src device = \<lparr>nd_source = src, nd_device = device,
     nd_stats = \<lparr>ns_sentences = 0, ns_rmc = 0, ns_gga = 0, ns_gst = 0, ns_ignored = 0, ns_malformed = 0\<rparr>\<rparr>"

type_synonym nmea_values = "(string \<times> sample_value) list"

definition nmea_prefix :: "nmea_decoder \<Rightarrow> string \<Rightarrow> string" where
  "nmea_prefix d kind = nd_source d @ '':'' @ nd_device d @ ''.'' @ kind @ ''.''"

definition KNOTS_TO_KMH :: real where "KNOTS_TO_KMH = 1852 / 1000"

text \<open>The product of two doubles from here on is infinite.\<close>

definition FLOAT_OVERFLOW :: real where "FLOAT_OVERFLOW = 2 ^ 1024 - 2 ^ 970"

definition rmc_values :: "text_conv \<Rightarrow> string \<Rightarrow> string list \<Rightarrow> nmea_values res" where
  [op_defs]: "rmc_values tc pfx fs =
     (if length fs < 12 then Inl ValueError
      else if fs ! 2 \<noteq> ''A'' then Inl ValueError
      else sbind (coordinate tc (fs ! 3) (fs ! 4) 2) (\<lambda>latitude.
           sbind (coordinate tc (fs ! 5) (fs ! 6) 3) (\<lambda>longitude.
           sbind (read_float tc (fs ! 7)) (\<lambda>knots.
           sbind (read_float tc (fs ! 8)) (\<lambda>course.
           sbind (finite_real knots) (\<lambda>k.
           sbind (finite_real course) (\<lambda>heading.
             let speed = k * KNOTS_TO_KMH;
                 mode = (if length fs > 12 \<and> fs ! 12 \<noteq> [] then fs ! 12 else fs ! 2)
             in if \<not> (-90 \<le> latitude \<and> latitude \<le> 90) \<or> \<not> (-180 \<le> longitude \<and> longitude \<le> 180) then Inl ValueError
                else if speed < 0 \<or> speed \<ge> FLOAT_OVERFLOW \<or> \<not> (0 \<le> heading \<and> heading < 360) then Inl ValueError
                else Inr [(pfx @ ''lat'', VFloat (Fin latitude)), (pfx @ ''lon'', VFloat (Fin longitude)),
                  (pfx @ ''speed'', VFloat (Fin speed)), (pfx @ ''heading'', VFloat (Fin heading)), (pfx @ ''mode'', VStr mode)])))))))"

definition gga_values :: "text_conv \<Rightarrow> string \<Rightarrow> string list \<Rightarrow> nmea_values res" where
  [op_defs]: "gga_values tc pfx fs =
     (if length fs < 12 then Inl ValueError
      else sbind (read_int tc (fs ! 6)) (\<lambda>quality.
           if quality = 0 then Inl ValueError
           else sbind (read_int tc (fs ! 7)) (\<lambda>satellites.
             sbind (read_float tc (fs ! 8)) (\<lambda>f8.
             sbind (read_float tc (fs ! 9)) (\<lambda>f9.
             sbind (if fs ! 11 = [] then Inr (Fin 0) else read_float tc (fs ! 11)) (\<lambda>f11.
             sbind (finite_real f8) (\<lambda>hdop.
             sbind (finite_real f9) (\<lambda>altitude.
             sbind (finite_real f11) (\<lambda>separation.
               if satellites < 0 \<or> hdop < 0 then Inl ValueError
               else Inr [(pfx @ ''alt'', VFloat (Fin altitude)), (pfx @ ''geoid_sep'', VFloat (Fin separation)),
                 (pfx @ ''sats'', VInt satellites), (pfx @ ''hdop'', VFloat (Fin hdop)), (pfx @ ''quality'', VInt quality)])))))))))"

definition gst_values :: "text_conv \<Rightarrow> string \<Rightarrow> string list \<Rightarrow> nmea_values res" where
  [op_defs]: "gst_values tc pfx fs =
     (if length fs < 9 then Inl ValueError
      else if fs ! 6 = [] \<or> fs ! 7 = [] \<or> fs ! 8 = [] then Inl ValueError
      else sbind (read_float tc (fs ! 6)) (\<lambda>f6.
           sbind (read_float tc (fs ! 7)) (\<lambda>f7.
           sbind (read_float tc (fs ! 8)) (\<lambda>f8.
           sbind (finite_real f6) (\<lambda>std_lat.
           sbind (finite_real f7) (\<lambda>std_lon.
           sbind (finite_real f8) (\<lambda>std_alt.
             if std_lat < 0 \<or> std_lon < 0 \<or> std_alt < 0 then Inl ValueError
             else Inr [(pfx @ ''lat_std'', VFloat (Fin std_lat)), (pfx @ ''lon_std'', VFloat (Fin std_lon)),
               (pfx @ ''alt_std'', VFloat (Fin std_alt))])))))))"

datatype sentence_kind = Rmc | Gga | Gst | Ignored

definition kind_of :: "string list \<Rightarrow> sentence_kind" where
  "kind_of fs =
     (let name = (case fs of [] \<Rightarrow> [] | f # _ \<Rightarrow> drop (length f - 3) f)
      in if name = ''GGA'' then Gga else if name = ''GST'' then Gst else if name = ''RMC'' then Rmc else Ignored)"

text \<open>What a sentence says: the kind it is counted under and its values, or a refusal.\<close>

definition sentence_values :: "text_conv \<Rightarrow> nmea_decoder \<Rightarrow> string \<Rightarrow> (sentence_kind \<times> nmea_values) res" where
  [op_defs]: "sentence_values tc d line =
     (if list_ex (\<lambda>ch. (of_char ch :: nat) \<ge> 128) line then Inl ValueError
      else sbind (validated_body (strip line)) (\<lambda>body.
        let fs = split_char CHR '','' body in
        case kind_of fs of
          Gga \<Rightarrow> sbind (gga_values tc (nmea_prefix d ''GGA'') fs) (\<lambda>vs. Inr (Gga, vs))
        | Gst \<Rightarrow> sbind (gst_values tc (nmea_prefix d ''GST'') fs) (\<lambda>vs. Inr (Gst, vs))
        | Rmc \<Rightarrow> sbind (rmc_values tc (nmea_prefix d ''RMC'') fs) (\<lambda>vs. Inr (Rmc, vs))
        | Ignored \<Rightarrow> Inr (Ignored, [])))"

fun count_kind :: "sentence_kind \<Rightarrow> nmea_stats \<Rightarrow> nmea_stats" where
  "count_kind Rmc s = s\<lparr>ns_rmc := ns_rmc s + 1\<rparr>"
| "count_kind Gga s = s\<lparr>ns_gga := ns_gga s + 1\<rparr>"
| "count_kind Gst s = s\<lparr>ns_gst := ns_gst s + 1\<rparr>"
| "count_kind Ignored s = s\<lparr>ns_ignored := ns_ignored s + 1\<rparr>"

definition nmea_decode :: "text_conv \<Rightarrow> string \<Rightarrow> nmea_decoder \<Rightarrow> nmea_values \<times> nmea_decoder" where
  [op_defs]: "nmea_decode tc line d =
     (let s = (nd_stats d)\<lparr>ns_sentences := ns_sentences (nd_stats d) + 1\<rparr> in
      case sentence_values tc d line of
        Inl _ \<Rightarrow> ([], d\<lparr>nd_stats := s\<lparr>ns_malformed := ns_malformed s + 1\<rparr>\<rparr>)
      | Inr (kind, vs) \<Rightarrow> (vs, d\<lparr>nd_stats := count_kind kind s\<rparr>))"

section \<open>The collector\<close>

text \<open>What the port gives the reading loop: nothing within the timeout, bytes at a time, or an error.\<close>

datatype port_read = Quiet | Line string int | ReadFails

record serial_collector =
  sc_decoder :: nmea_decoder
  sc_lines :: nat
  sc_samples :: nat
  sc_oversized :: nat
  sc_read_errors :: nat
  sc_emitted :: "sample list"

definition serial_new :: "string \<Rightarrow> string \<Rightarrow> serial_collector" where
  "serial_new src device = \<lparr>sc_decoder = nmea_new src device, sc_lines = 0, sc_samples = 0, sc_oversized = 0, sc_read_errors = 0, sc_emitted = []\<rparr>"

definition MAX_SENTENCE_BYTES :: nat where "MAX_SENTENCE_BYTES = 1024"

definition handle_line :: "text_conv \<Rightarrow> (int \<Rightarrow> real) \<Rightarrow> string \<Rightarrow> int \<Rightarrow> serial_collector \<Rightarrow> serial_collector" where
  [op_defs]: "handle_line tc wall line now c = (case nmea_decode tc line (sc_decoder c) of
     (vs, d) \<Rightarrow> c\<lparr>sc_decoder := d, sc_emitted := sc_emitted c @ map (\<lambda>(ref, v). \<lparr>source_ref = ref, t_mono_ns = now, t_wall_ms = wall now, svalue = v\<rparr>) vs,
       sc_lines := sc_lines c + 1, sc_samples := sc_samples c + length vs\<rparr>)"

definition oversized :: "string \<Rightarrow> bool" where
  "oversized line \<longleftrightarrow> length line > MAX_SENTENCE_BYTES \<and> last line \<notin> {CHR 0x0A, CHR 0x0D}"

text \<open>\<open>_read_until_error\<close>: whether anything was received, and the collector.\<close>

fun read_until_error :: "text_conv \<Rightarrow> (int \<Rightarrow> real) \<Rightarrow> port_read list \<Rightarrow> bool \<Rightarrow> serial_collector \<Rightarrow> bool \<times> serial_collector" where
  "read_until_error tc wall [] received c = (received, c)"
| "read_until_error tc wall (ReadFails # rest) received c = (received, c\<lparr>sc_read_errors := sc_read_errors c + 1\<rparr>)"
| "read_until_error tc wall (Quiet # rest) received c = read_until_error tc wall rest received c"
| "read_until_error tc wall (Line line now # rest) received c =
     (if line = [] then read_until_error tc wall rest received c
      else if oversized line then read_until_error tc wall rest True (c\<lparr>sc_oversized := sc_oversized c + 1\<rparr>)
      else read_until_error tc wall rest True (handle_line tc wall line now c))"

section \<open>Every sample is in range\<close>

definition in_range :: "string \<Rightarrow> string \<Rightarrow> (real \<Rightarrow> bool) \<Rightarrow> sample \<Rightarrow> bool" where
  "in_range pfx name ok s \<longleftrightarrow> source_ref s = pfx @ name \<and> (case svalue s of VFloat (Fin x) \<Rightarrow> ok x | VInt n \<Rightarrow> ok (of_int n) | _ \<Rightarrow> False)"

text \<open>A sample the collector may emit: one of the thirteen names, with a value of its range.\<close>

definition sample_in_range :: "nmea_decoder \<Rightarrow> sample \<Rightarrow> bool" where
  "sample_in_range d s \<longleftrightarrow>
     in_range (nmea_prefix d ''RMC'') ''lat'' (\<lambda>x. -90 \<le> x \<and> x \<le> 90) s \<or> in_range (nmea_prefix d ''RMC'') ''lon'' (\<lambda>x. -180 \<le> x \<and> x \<le> 180) s
   \<or> in_range (nmea_prefix d ''RMC'') ''speed'' (\<lambda>x. 0 \<le> x \<and> x < FLOAT_OVERFLOW) s \<or> in_range (nmea_prefix d ''RMC'') ''heading'' (\<lambda>x. 0 \<le> x \<and> x < 360) s
   \<or> source_ref s = nmea_prefix d ''RMC'' @ ''mode'' \<and> (\<exists>m. svalue s = VStr m \<and> m \<noteq> [])
   \<or> in_range (nmea_prefix d ''GGA'') ''alt'' (\<lambda>x. True) s \<or> in_range (nmea_prefix d ''GGA'') ''geoid_sep'' (\<lambda>x. True) s
   \<or> in_range (nmea_prefix d ''GGA'') ''sats'' (\<lambda>x. 0 \<le> x) s \<or> in_range (nmea_prefix d ''GGA'') ''hdop'' (\<lambda>x. 0 \<le> x) s
   \<or> in_range (nmea_prefix d ''GGA'') ''quality'' (\<lambda>x. x \<noteq> 0) s
   \<or> in_range (nmea_prefix d ''GST'') ''lat_std'' (\<lambda>x. 0 \<le> x) s \<or> in_range (nmea_prefix d ''GST'') ''lon_std'' (\<lambda>x. 0 \<le> x) s
   \<or> in_range (nmea_prefix d ''GST'') ''alt_std'' (\<lambda>x. 0 \<le> x) s"

definition stamp :: "(int \<Rightarrow> real) \<Rightarrow> int \<Rightarrow> string \<times> sample_value \<Rightarrow> sample" where
  "stamp wall now p = \<lparr>source_ref = fst p, t_mono_ns = now, t_wall_ms = wall now, svalue = snd p\<rparr>"

fun kind_size :: "sentence_kind \<Rightarrow> nat" where
  "kind_size Rmc = 5" | "kind_size Gga = 5" | "kind_size Gst = 3" | "kind_size Ignored = 0"

lemma rmc_values_InrD:
  assumes "rmc_values tc (nmea_prefix d ''RMC'') fs = Inr vs"
  shows "length vs = 5 \<and> list_all (\<lambda>p. sample_in_range d (stamp wall now p)) vs"
  using assms by (auto simp: rmc_values_def sbind_Inr_iff Let_def sample_in_range_def in_range_def stamp_def split: if_splits)

lemma gga_values_InrD:
  assumes "gga_values tc (nmea_prefix d ''GGA'') fs = Inr vs"
  shows "length vs = 5 \<and> list_all (\<lambda>p. sample_in_range d (stamp wall now p)) vs"
  using assms by (auto simp: gga_values_def sbind_Inr_iff Let_def sample_in_range_def in_range_def stamp_def split: if_splits)

lemma gst_values_InrD:
  assumes "gst_values tc (nmea_prefix d ''GST'') fs = Inr vs"
  shows "length vs = 3 \<and> list_all (\<lambda>p. sample_in_range d (stamp wall now p)) vs"
  using assms by (auto simp: gst_values_def sbind_Inr_iff Let_def sample_in_range_def in_range_def stamp_def split: if_splits)

lemma sentence_values_InrD:
  assumes "sentence_values tc d line = Inr (kind, vs)"
  shows "length vs = kind_size kind \<and> list_all (\<lambda>p. sample_in_range d (stamp wall now p)) vs"
  using assms
proof -
  from assms obtain body where b: "(case kind_of (split_char CHR '','' body) of
      Gga \<Rightarrow> sbind (gga_values tc (nmea_prefix d ''GGA'') (split_char CHR '','' body)) (\<lambda>vs. Inr (Gga, vs))
    | Gst \<Rightarrow> sbind (gst_values tc (nmea_prefix d ''GST'') (split_char CHR '','' body)) (\<lambda>vs. Inr (Gst, vs))
    | Rmc \<Rightarrow> sbind (rmc_values tc (nmea_prefix d ''RMC'') (split_char CHR '','' body)) (\<lambda>vs. Inr (Rmc, vs))
    | Ignored \<Rightarrow> Inr (Ignored, [])) = Inr (kind, vs)"
    by (auto simp: sentence_values_def sbind_Inr_iff Let_def split: if_splits)
  then show ?thesis
    by (cases "kind_of (split_char CHR '','' body)") (auto simp: sbind_Inr_iff dest: rmc_values_InrD gga_values_InrD gst_values_InrD)
qed

definition serial_inv :: "string \<Rightarrow> string \<Rightarrow> serial_collector \<Rightarrow> bool" where
  [inv_defs]: "serial_inv src device c \<longleftrightarrow>
     (let d = sc_decoder c; s = nd_stats d in
      nd_source d = src \<and> nd_device d = device
      \<and> ns_sentences s = sc_lines c \<and> ns_sentences s = ns_rmc s + ns_gga s + ns_gst s + ns_ignored s + ns_malformed s
      \<and> sc_samples c = length (sc_emitted c) \<and> sc_samples c = 5 * ns_rmc s + 5 * ns_gga s + 3 * ns_gst s
      \<and> list_all (sample_in_range (nmea_new src device)) (sc_emitted c))"

lemma serial_inv_counters [simp]:
  "serial_inv src device (c\<lparr>sc_oversized := n\<rparr>) = serial_inv src device c" "serial_inv src device (c\<lparr>sc_read_errors := n\<rparr>) = serial_inv src device c"
  by (simp_all add: serial_inv_def)

lemma nmea_prefix_cong: "nd_source d = nd_source e \<Longrightarrow> nd_device d = nd_device e \<Longrightarrow> nmea_prefix d = nmea_prefix e"
  by (simp add: nmea_prefix_def fun_eq_iff)

lemma sample_in_range_cong: "nd_source d = nd_source e \<Longrightarrow> nd_device d = nd_device e \<Longrightarrow> sample_in_range d = sample_in_range e"
  using nmea_prefix_cong[of d e] unfolding sample_in_range_def by (intro ext) simp

lemma count_kind_sum:
  "ns_sentences (count_kind k s) = ns_sentences s" "ns_malformed (count_kind k s) = ns_malformed s"
  "ns_rmc (count_kind k s) + ns_gga (count_kind k s) + ns_gst (count_kind k s) + ns_ignored (count_kind k s) = ns_rmc s + ns_gga s + ns_gst s + ns_ignored s + 1"
  "5 * ns_rmc (count_kind k s) + 5 * ns_gga (count_kind k s) + 3 * ns_gst (count_kind k s) = 5 * ns_rmc s + 5 * ns_gga s + 3 * ns_gst s + kind_size k"
  by (cases k; simp)+

lemma handle_line_inv:
  assumes inv: "serial_inv src device c"
  shows "serial_inv src device (handle_line tc wall line now c)"
proof (cases "sentence_values tc (sc_decoder c) line")
  case (Inl e)
  then show ?thesis using inv by (simp add: serial_inv_def handle_line_def nmea_decode_def Let_def)
next
  case (Inr r)
  obtain k vs where r: "r = (k, vs)" by (rule prod.exhaust)
  have "sample_in_range (sc_decoder c) = sample_in_range (nmea_new src device)"
    using inv by (intro sample_in_range_cong) (simp_all add: serial_inv_def nmea_new_def Let_def)
  with sentence_values_InrD[OF Inr[unfolded r], of wall now]
  have v: "length vs = kind_size k" "list_all (sample_in_range (nmea_new src device)) (map (stamp wall now) vs)"
    by (simp_all add: list_all_iff)
  have m: "map (\<lambda>(ref, v). \<lparr>source_ref = ref, t_mono_ns = now, t_wall_ms = wall now, svalue = v\<rparr>) vs = map (stamp wall now) vs"
    by (simp add: stamp_def case_prod_beta)
  show ?thesis using inv v
    by (simp add: serial_inv_def handle_line_def nmea_decode_def Let_def Inr r m count_kind_sum)
qed


section \<open>What the checksum catches\<close>

lemma xor_fold: "fold (\<lambda>ch acc. acc XOR of_char ch) s n = n XOR xor_checksum s"
proof -
  have "fold (\<lambda>ch acc. acc XOR of_char ch) s (n XOR m) = n XOR fold (\<lambda>ch acc. acc XOR of_char ch) s m" for m
    by (induction s arbitrary: m) (simp_all add: xor.assoc)
  from this[of 0] show ?thesis by (simp add: xor_checksum_def)
qed

lemma xor_checksum_append: "xor_checksum (a @ b) = xor_checksum a XOR xor_checksum b"
  using xor_fold[of b "xor_checksum a"] by (simp add: xor_checksum_def)

lemma xor_checksum_Cons: "xor_checksum (c # b) = of_char c XOR xor_checksum b"
  using xor_fold[of b "of_char c"] by (simp add: xor_checksum_def)

lemma xor_checksum_less: "xor_checksum s < 256"
proof (induction s)
  case (Cons c s)
  have "(of_char c :: nat) < 256" by simp
  then show ?case using Cons xor_less by (simp add: xor_checksum_Cons)
qed (simp add: xor_checksum_def)

lemma xor_cancel: "x XOR y = x XOR z \<Longrightarrow> y = (z :: nat)"
proof -
  assume "x XOR y = x XOR z"
  then have "x XOR (x XOR y) = x XOR (x XOR z)" by simp
  then show "y = z" by (simp add: xor.assoc[symmetric])
qed

lemma xor_checksum_update:
  assumes "i < length s" "s ! i \<noteq> c"
  shows "xor_checksum (s[i := c]) \<noteq> xor_checksum s"
proof
  let ?a = "take i s" and ?b = "drop (Suc i) s"
  assume e: "xor_checksum (s[i := c]) = xor_checksum s"
  have "s[i := c] = ?a @ c # ?b" using assms(1) by (simp add: upd_conv_take_nth_drop)
  moreover have "s = ?a @ s ! i # ?b" using assms(1) by (simp add: id_take_nth_drop)
  ultimately have "xor_checksum ?a XOR (of_char c XOR xor_checksum ?b) = xor_checksum ?a XOR (of_char (s ! i) XOR xor_checksum ?b)"
    using e by (metis xor_checksum_append xor_checksum_Cons)
  then have "of_char c XOR xor_checksum ?b = (of_char (s ! i) XOR xor_checksum ?b :: nat)" by (rule xor_cancel)
  then have "(of_char c :: nat) = of_char (s ! i)" using xor_cancel by (metis xor.commute)
  then show False using assms(2) by simp
qed

lemma hex02_two: "n < 256 \<Longrightarrow> hex02 n = [hex_digit (n div 16), hex_digit (n mod 16)]"
proof (cases "n < 16")
  case True
  then show ?thesis by (simp add: hex02_def hex_digits.simps[of n] hex_digit_def)
next
  case False
  assume "n < 256"
  then have "n div 16 < 16" by simp
  then show ?thesis using False by (simp add: hex02_def hex_digits.simps[of n] hex_digits.simps[of "n div 16"])
qed

lemma hex_digit_inj: "d < 16 \<Longrightarrow> e < 16 \<Longrightarrow> hex_digit d = hex_digit e \<Longrightarrow> d = e"
  unfolding hex_digit_def by (subst (asm) nth_eq_iff_index_eq) simp_all

lemma hex_digit_char:
  assumes "d < 16"
  shows "upper_char (hex_digit d) = [hex_digit d]" "\<not> is_space (hex_digit d)" "(of_char (hex_digit d) :: nat) < 128"
proof -
  have "d \<in> {0, 1, 2, 3, 4, 5, 6, 7, 8, 9, 10, 11, 12, 13, 14, 15}" using assms unfolding insert_iff empty_iff by presburger
  then show "upper_char (hex_digit d) = [hex_digit d]" "\<not> is_space (hex_digit d)" "(of_char (hex_digit d) :: nat) < 128"
    unfolding insert_iff empty_iff by (elim disjE; simp add: hex_digit_def upper_char_def is_space_def)+
qed

lemma hex02_inj: "n < 256 \<Longrightarrow> m < 256 \<Longrightarrow> hex02 n = hex02 m \<Longrightarrow> n = m"
proof -
  assume a: "n < 256" "m < 256" "hex02 n = hex02 m"
  then have "n div 16 = m div 16" "n mod 16 = m mod 16" by (auto simp: hex02_two intro: hex_digit_inj)
  then show "n = m" by (metis div_mult_mod_eq)
qed

lemma upper_hex02: "n < 256 \<Longrightarrow> upper (hex02 n) = hex02 n"
  by (simp add: hex02_two upper_def hex_digit_char)

text \<open>A sentence with its checksum.\<close>

definition sentence :: "string \<Rightarrow> nat \<Rightarrow> string" where
  "sentence body cs = CHR ''$'' # body @ CHR ''*'' # hex02 cs"

lemma first_split: "c \<notin> set u \<Longrightarrow> takeWhile (\<lambda>ch. ch \<noteq> c) (u @ c # v) = u \<and> dropWhile (\<lambda>ch. ch \<noteq> c) (u @ c # v) = c # v"
  by (induction u) auto

lemma validated_sentence:
  assumes "CHR ''*'' \<notin> set body" "cs < 256"
  shows "validated_body (sentence body cs) = (if xor_checksum body = cs then Inr body else Inl ValueError)"
proof -
  have "takeWhile (\<lambda>ch. ch \<noteq> CHR ''*'') (body @ CHR ''*'' # hex02 cs) = body" "dropWhile (\<lambda>ch. ch \<noteq> CHR ''*'') (body @ CHR ''*'' # hex02 cs) = CHR ''*'' # hex02 cs"
    using first_split[OF assms(1)] by simp_all
  moreover have "hex02 cs = hex02 (xor_checksum body) \<longleftrightarrow> xor_checksum body = cs" using hex02_inj[of cs "xor_checksum body"] assms(2) xor_checksum_less by auto
  moreover have "length (hex02 cs) = 2" "upper (hex02 cs) = hex02 cs" using assms(2) by (simp_all add: upper_hex02) (simp add: hex02_two)
  ultimately show ?thesis by (simp add: validated_body_def sentence_def Let_def)
qed

lemma validated_star:
  assumes "i < length body"
  shows "validated_body (sentence (body[i := CHR ''*'']) cs) = Inl ValueError"
proof -
  let ?P = "\<lambda>ch. ch \<noteq> CHR ''*''"
  have "body[i := CHR ''*''] = take i body @ CHR ''*'' # drop (Suc i) body" using assms by (simp add: upd_conv_take_nth_drop)
  then obtain u v where s: "body[i := CHR ''*''] = u @ CHR ''*'' # v" "CHR ''*'' \<notin> set u" by (metis in_set_conv_decomp split_list_first)
  then have "dropWhile ?P (body[i := CHR ''*''] @ CHR ''*'' # hex02 cs) = CHR ''*'' # v @ CHR ''*'' # hex02 cs" using first_split[OF s(2)] by simp
  moreover have "length (hex02 cs) \<ge> 2" by (simp add: hex02_def Let_def)
  ultimately show ?thesis by (simp add: validated_body_def sentence_def Let_def)
qed

lemma strip_line:
  assumes "s \<noteq> []" "\<not> is_space (hd s)" "\<not> is_space (last s)" "list_all is_space t"
  shows "strip (s @ t) = s"
proof -
  have "lstrip (s @ t) = s @ t" using assms(1,2) by (cases s) (simp_all add: lstrip_def)
  moreover have "dropWhile is_space (rev t @ rev s) = dropWhile is_space (rev s)" using assms(4) by (intro dropWhile_append2) (simp add: list_all_iff)
  moreover have "dropWhile is_space (rev s) = rev s" using assms(1,3) by (intro dropWhile_idem) (simp add: hd_rev)
  ultimately show ?thesis by (simp add: strip_def)
qed

definition crlf :: string where "crlf = [CHR 0x0D, CHR 0x0A]"

lemma strip_sentence: "cs < 256 \<Longrightarrow> strip (sentence body cs @ crlf) = sentence body cs"
proof -
  have sp: "\<not> is_space CHR ''$''" "is_space CHR 0x0D" "is_space CHR 0x0A" by (simp_all add: is_space_def)
  show "cs < 256 \<Longrightarrow> strip (sentence body cs @ crlf) = sentence body cs"
    by (intro strip_line) (simp_all add: sentence_def hex02_two hex_digit_char crlf_def sp)
qed

text \<open>
  C36. The checksum catches every sentence with one wrong character. A body without a star, sent with the checksum of the body,
  passes; the same line with any one character of its body replaced by any other, the star and bytes outside ASCII included, yields no
  sample and is counted as one malformed sentence.
\<close>
theorem corrupted_sentence_refused:
  assumes "CHR ''*'' \<notin> set body" "i < length body" "body ! i \<noteq> c"
  shows "validated_body (strip (sentence body (xor_checksum body) @ crlf)) = Inr body
    \<and> nmea_decode tc (sentence (body[i := c]) (xor_checksum body) @ crlf) d =
      ([], d\<lparr>nd_stats := (nd_stats d)\<lparr>ns_sentences := ns_sentences (nd_stats d) + 1, ns_malformed := ns_malformed (nd_stats d) + 1\<rparr>\<rparr>)"
proof
  show "validated_body (strip (sentence body (xor_checksum body) @ crlf)) = Inr body"
    using assms(1) by (simp add: strip_sentence xor_checksum_less validated_sentence)
  have "validated_body (sentence (body[i := c]) (xor_checksum body)) = Inl ValueError"
  proof (cases "c = CHR ''*''")
    case False
    then have "CHR ''*'' \<notin> set (body[i := c])" using assms(1) set_update_subset_insert[of body i c] by auto
    then show ?thesis using xor_checksum_update[OF assms(2,3)] by (simp add: validated_sentence xor_checksum_less)
  qed (use validated_star[OF assms(2)] in simp)
  then show "nmea_decode tc (sentence (body[i := c]) (xor_checksum body) @ crlf) d =
      ([], d\<lparr>nd_stats := (nd_stats d)\<lparr>ns_sentences := ns_sentences (nd_stats d) + 1, ns_malformed := ns_malformed (nd_stats d) + 1\<rparr>\<rparr>)"
    by (simp add: nmea_decode_def sentence_values_def strip_sentence xor_checksum_less Let_def)
qed

definition wit_nmea_conv :: text_conv where
  "wit_nmea_conv = \<lparr>float_of_str = \<lambda>s. Some (Fin (of_nat (length s))), int_of_str = \<lambda>s. Some (int (length s)), str_of = \<lambda>_. []\<rparr>"

theorem corrupted_sentence_refused_witness:
  "fst (nmea_decode wit_nmea_conv (sentence ''GPGST,,,,,,1,2,4'' (xor_checksum ''GPGST,,,,,,1,2,3'') @ crlf) (nmea_new ''gnss'' ''um980'')) = []"
  using corrupted_sentence_refused[of "''GPGST,,,,,,1,2,3''" 15 "CHR ''4''" wit_nmea_conv "nmea_new ''gnss'' ''um980''"] by simp

section \<open>What it does not catch\<close>

fun csv :: "string list \<Rightarrow> string" where
  "csv [] = []"
| "csv [f] = f"
| "csv (f # g # fs) = f @ CHR '','' # csv (g # fs)"

text \<open>A field of printable characters without a comma or a star.\<close>

definition field_ok :: "string \<Rightarrow> bool" where
  "field_ok f \<longleftrightarrow> list_all (\<lambda>ch. 33 \<le> (of_char ch :: nat) \<and> (of_char ch :: nat) < 127 \<and> ch \<noteq> CHR '','' \<and> ch \<noteq> CHR ''*'') f"

lemma split_char_last: "c \<notin> set f \<Longrightarrow> split_char c f = [f]"
  by (induction f) auto

lemma split_char_field: "c \<notin> set f \<Longrightarrow> split_char c (f @ c # r) = f # split_char c r"
  by (induction f) auto

lemma split_csv: "fs \<noteq> [] \<Longrightarrow> list_all (\<lambda>f. CHR '','' \<notin> set f) fs \<Longrightarrow> split_char CHR '','' (csv fs) = fs"
  by (induction fs rule: csv.induct) (auto simp: split_char_last split_char_field)

lemma set_csv: "set (csv fs) \<subseteq> insert CHR '','' (\<Union>(set ` set fs))"
  by (induction fs rule: csv.induct) auto

lemma field_okD: "field_ok f \<Longrightarrow> ch \<in> set f \<Longrightarrow> 33 \<le> (of_char ch :: nat) \<and> (of_char ch :: nat) < 127 \<and> ch \<noteq> CHR '','' \<and> ch \<noteq> CHR ''*''"
  by (simp add: field_ok_def list_all_iff)

lemma csv_chars:
  assumes "list_all field_ok fs"
  shows "CHR ''*'' \<notin> set (csv fs)" "ch \<in> set (csv fs) \<Longrightarrow> (of_char ch :: nat) < 127 \<and> \<not> is_space ch"
proof -
  have c: "ch \<in> set (csv fs) \<Longrightarrow> ch = CHR '','' \<or> (\<exists>f \<in> set fs. ch \<in> set f)" for ch using set_csv[of fs] by auto
  have comma: "of_char CHR '','' = (44 :: nat)" by simp
  show "CHR ''*'' \<notin> set (csv fs)" using c[of "CHR ''*''"] assms field_okD by (fastforce simp: list_all_iff)
  show "ch \<in> set (csv fs) \<Longrightarrow> (of_char ch :: nat) < 127 \<and> \<not> is_space ch"
    using c[of ch] assms field_okD[of _ ch] comma by (fastforce simp: list_all_iff is_space_def Let_def)
qed

lemma csv_ascii: "list_all field_ok fs \<Longrightarrow> \<not> list_ex (\<lambda>ch. (of_char ch :: nat) \<ge> 128) (csv fs)"
  using csv_chars(2)[of fs] by (fastforce simp: list_ex_iff)

lemma csv_printable: "list_all field_ok fs \<Longrightarrow> list_all (\<lambda>ch. \<not> is_space ch) (csv fs)"
  using csv_chars(2)[of fs] by (auto simp: list_all_iff)

lemma csv_no_comma: "list_all field_ok fs \<Longrightarrow> list_all (\<lambda>f. CHR '','' \<notin> set f) fs"
  by (auto simp: list_all_iff dest: field_okD)

definition gst_sample :: "nmea_decoder \<Rightarrow> real \<Rightarrow> real \<Rightarrow> real \<Rightarrow> nmea_values" where
  "gst_sample d x y z = (let p = nmea_prefix d ''GST'' in
     [(p @ ''lat_std'', VFloat (Fin x)), (p @ ''lon_std'', VFloat (Fin y)), (p @ ''alt_std'', VFloat (Fin z))])"

definition counted_gst :: "nmea_decoder \<Rightarrow> nmea_decoder" where
  "counted_gst d = d\<lparr>nd_stats := (nd_stats d)\<lparr>ns_sentences := ns_sentences (nd_stats d) + 1, ns_gst := ns_gst (nd_stats d) + 1\<rparr>\<rparr>"

lemma gst_decodes:
  assumes fs: "fs = [''GPGST'', f1, f2, f3, f4, f5, f6, f7, f8]" "list_all field_ok fs" "f6 \<noteq> []" "f7 \<noteq> []" "f8 \<noteq> []"
    and v: "float_of_str tc f6 = Some (Fin x)" "float_of_str tc f7 = Some (Fin y)" "float_of_str tc f8 = Some (Fin z)" "0 \<le> x" "0 \<le> y" "0 \<le> z"
    and line: "validated_body (strip line) = Inr (csv fs)" "\<not> list_ex (\<lambda>ch. (of_char ch :: nat) \<ge> 128) line"
  shows "nmea_decode tc line d = (gst_sample d x y z, counted_gst d)"
proof -
  have "split_char CHR '','' (csv fs) = fs" using fs(1,2) by (intro split_csv csv_no_comma) simp_all
  moreover have "kind_of fs = Gst" by (simp add: kind_of_def fs(1))
  moreover have "gst_values tc (nmea_prefix d ''GST'') fs = Inr (gst_sample d x y z)"
    using fs(3-5) v by (simp add: gst_values_def fs(1) read_float_def gst_sample_def Let_def not_less)
  ultimately have "sentence_values tc d line = Inr (Gst, gst_sample d x y z)" using line by (simp add: sentence_values_def Let_def)
  then show ?thesis by (simp add: nmea_decode_def counted_gst_def Let_def)
qed

lemma strip_printable: "s \<noteq> [] \<Longrightarrow> list_all (\<lambda>ch. \<not> is_space ch) s \<Longrightarrow> strip s = s"
  using strip_line[of s "[]"] by (simp add: list_all_iff)

lemma ascii_sentence:
  assumes "\<not> list_ex (\<lambda>ch. (of_char ch :: nat) \<ge> 128) body" "cs < 256"
  shows "\<not> list_ex (\<lambda>ch. (of_char ch :: nat) \<ge> 128) (sentence body cs @ crlf)"
proof -
  have "cs div 16 < 16" using assms(2) by simp
  then have "(of_char (hex_digit (cs div 16)) :: nat) < 128" "(of_char (hex_digit (cs mod 16)) :: nat) < 128" by (simp_all add: hex_digit_char(3))
  then show ?thesis using assms by (simp add: sentence_def crlf_def hex02_two not_le)
qed

lemma validated_bare: "CHR ''*'' \<notin> set body \<Longrightarrow> validated_body (CHR ''$'' # body) = Inr body"
proof -
  assume "CHR ''*'' \<notin> set body"
  then have "takeWhile (\<lambda>ch. ch \<noteq> CHR ''*'') body = body" "dropWhile (\<lambda>ch. ch \<noteq> CHR ''*'') body = []" by (induction body) auto
  then show ?thesis by (simp add: validated_body_def Let_def del: takeWhile_eq_all_conv dropWhile_eq_Nil_conv)
qed

text \<open>
  A sentence that arrives in two reads is believed without its checksum. The star that announces the checksum is optional, and a read that times out returns the
  part of the line that has arrived, so an error estimate cut inside its last number is decoded with the number cut short: where the
  whole line says \<open>a @ b\<close>, the part says \<open>a\<close>, it is counted as a good sentence and its samples are emitted with the
  wrong value.
\<close>
theorem cut_sentence_accepted:
  assumes "list_all field_ok [f1, f2, f3, f4, f5, f6, f7, a @ b]" "f6 \<noteq> []" "f7 \<noteq> []" "a \<noteq> []"
    and "float_of_str tc f6 = Some (Fin x)" "float_of_str tc f7 = Some (Fin y)" "0 \<le> x" "0 \<le> y"
    and "float_of_str tc (a @ b) = Some (Fin z)" "float_of_str tc a = Some (Fin w)" "0 \<le> z" "0 \<le> w"
  defines "body \<equiv> csv [''GPGST'', f1, f2, f3, f4, f5, f6, f7, a @ b]"
  shows "\<exists>part rest. sentence body (xor_checksum body) @ crlf = part @ rest
    \<and> nmea_decode tc (sentence body (xor_checksum body) @ crlf) d = (gst_sample d x y z, counted_gst d)
    \<and> nmea_decode tc part d = (gst_sample d x y w, counted_gst d)"
proof (intro exI conjI)
  let ?fs = "[''GPGST'', f1, f2, f3, f4, f5, f6, f7, a @ b]" and ?gs = "[''GPGST'', f1, f2, f3, f4, f5, f6, f7, a]"
  let ?part = "CHR ''$'' # csv ?gs"
  have name: "field_ok ''GPGST''" by (simp add: field_ok_def)
  have ok: "list_all field_ok ?fs" "list_all field_ok ?gs" using assms(1) name by (auto simp: field_ok_def)
  have star: "CHR ''*'' \<notin> set body" unfolding body_def by (rule csv_chars(1)[OF ok(1)])
  have cs: "xor_checksum body < 256" by (rule xor_checksum_less)
  show "sentence body (xor_checksum body) @ crlf = ?part @ (b @ CHR ''*'' # hex02 (xor_checksum body) @ crlf)"
    by (simp add: sentence_def body_def)
  have "\<not> list_ex (\<lambda>ch. (of_char ch :: nat) \<ge> 128) (sentence body (xor_checksum body) @ crlf)"
    unfolding body_def by (rule ascii_sentence[OF _ xor_checksum_less]) (rule csv_ascii[OF ok(1)])
  moreover have "validated_body (strip (sentence body (xor_checksum body) @ crlf)) = Inr (csv ?fs)"
    using star cs by (simp add: strip_sentence validated_sentence body_def)
  ultimately show "nmea_decode tc (sentence body (xor_checksum body) @ crlf) d = (gst_sample d x y z, counted_gst d)"
    using assms(2-12) by (intro gst_decodes[OF refl ok(1)]) simp_all
  have ascii: "\<not> list_ex (\<lambda>ch. (of_char ch :: nat) \<ge> 128) ?part" using csv_ascii[OF ok(2)] by (simp del: csv.simps)
  have "\<not> is_space CHR ''$''" by (simp add: is_space_def)
  then have "strip ?part = ?part" using csv_printable[OF ok(2)] by (intro strip_printable) (simp_all del: csv.simps)
  then have "validated_body (strip ?part) = Inr (csv ?gs)" using validated_bare[OF csv_chars(1)[OF ok(2)]] by (simp del: csv.simps)
  with ascii show "nmea_decode tc ?part d = (gst_sample d x y w, counted_gst d)"
    using assms(2-12) by (intro gst_decodes[OF refl ok(2)]) simp_all
qed

theorem cut_sentence_accepted_witness:
  "\<exists>part rest. sentence ''GPGST,,,,,,1,2,0.5'' (xor_checksum ''GPGST,,,,,,1,2,0.5'') @ crlf = part @ rest
    \<and> nmea_decode wit_nmea_conv part (nmea_new ''gnss'' ''um980'') = (gst_sample (nmea_new ''gnss'' ''um980'') 1 1 2, counted_gst (nmea_new ''gnss'' ''um980''))"
  using cut_sentence_accepted[of "[]" "[]" "[]" "[]" "[]" "''1''" "''2''" "''0.''" "''5''" wit_nmea_conv 1 1 3 2 "nmea_new ''gnss'' ''um980''"]
  by (auto simp: field_ok_def wit_nmea_conv_def)

end
