(* ===== verification/Um980.thy ===== *)
theory Um980
  imports Nmea
begin

text \<open>
  \<^verbatim>\<open>src/collectors/serial/um980.py\<close>: what the receiver is told at start-up and how it answers.

  An exchange is what the port does while one command is outstanding: the results of its writes, and the lines, or the error,
  it reads before the deadline; a failure to clear the input buffer is a first write that raises. A byte outside ASCII is read as the replacement character, whose code is 65533; its place in a
  line is kept by an inverted question mark, which is neither blank nor has a capital.
\<close>

section \<open>Start-up commands\<close>

definition SUPPORTED_RATES_HZ :: "(int \<times> string) list" where
  "SUPPORTED_RATES_HZ = [(1, ''1''), (2, ''0.5''), (5, ''0.2''), (10, ''0.1''), (20, ''0.05''), (50, ''0.02'')]"

definition SENTENCE_COMMANDS :: "(string \<times> string) list" where
  "SENTENCE_COMMANDS = [(''RMC'', ''GPRMC''), (''GGA'', ''GPGGA''), (''VTG'', ''GPVTG''), (''GSA'', ''GPGSA''), (''GSV'', ''GPGSV''),
     (''GST'', ''GPGST''), (''GLL'', ''GPGLL''), (''ZDA'', ''GPZDA'')]"

definition COMMAND_FORMAT :: string where "COMMAND_FORMAT = ''CONFIG CMDFORMAT 1''"

record pps_config =
  pps_mode :: string
  pps_time_reference :: string
  pps_polarity :: string
  pps_width_us :: int
  pps_period_ms :: int
  pps_rf_delay_ns :: int
  pps_user_delay_ns :: int

record timing_output =
  to_port :: string
  to_baud :: int

record um980_settings =
  us_rate_hz :: int
  us_sentences :: "string list"
  us_sentence_rates_hz :: "(string \<times> int) list"
  us_configure_on_start :: bool
  us_pps :: "pps_config option"
  us_timing_output :: "timing_output option"

definition interval :: "int \<Rightarrow> string res" where
  "interval rate = (case map_of SUPPORTED_RATES_HZ rate of None \<Rightarrow> Inl ValueError | Some s \<Rightarrow> Inr s)"

definition rate_overrides :: "um980_settings \<Rightarrow> (string \<times> int) list" where
  "rate_overrides us = fold (\<lambda>(n, r) d. AList.update (upper n) r d) (us_sentence_rates_hz us) []"

definition sentence_command :: "um980_settings \<Rightarrow> string \<Rightarrow> string res" where
  "sentence_command us configured = (case map_of SENTENCE_COMMANDS (upper configured) of
     None \<Rightarrow> Inl ValueError
   | Some command \<Rightarrow>
       sbind (interval (case map_of (rate_overrides us) (upper configured) of None \<Rightarrow> us_rate_hz us | Some r \<Rightarrow> r))
         (\<lambda>i. Inr (command @ '' '' @ i)))"

definition pps_command :: "pps_config \<Rightarrow> string" where
  "pps_command p = ''CONFIG PPS '' @ pps_mode p @ '' '' @ pps_time_reference p @ '' '' @ pps_polarity p @ '' '' @ show_int (pps_width_us p)
     @ '' '' @ show_int (pps_period_ms p) @ '' '' @ show_int (pps_rf_delay_ns p) @ '' '' @ show_int (pps_user_delay_ns p)"

definition startup_commands :: "um980_settings \<Rightarrow> string list res" where
  [op_defs]: "startup_commands us =
     sbind (interval (us_rate_hz us)) (\<lambda>_.
     sbind (mapE (sentence_command us) (us_sentences us)) (\<lambda>sentences.
       Inr (''UNLOG'' # sentences
         @ (case us_timing_output us of None \<Rightarrow> [] | Some t \<Rightarrow> [''CONFIG '' @ to_port t @ '' '' @ show_int (to_baud t) @ '' 8 N 1''])
         @ (case us_pps us of None \<Rightarrow> [] | Some p \<Rightarrow> [pps_command p])
         @ (case us_timing_output us of None \<Rightarrow> [] | Some t \<Rightarrow> [''GPZDA '' @ to_port t @ '' 1'', ''GPGGA '' @ to_port t @ '' 1'']))))"

section \<open>Acknowledgements\<close>

record command_result =
  cr_command :: string
  cr_ok :: bool
  cr_response :: string

definition REPLACEMENT :: char where "REPLACEMENT = CHR 0xBF"

definition ascii_replace :: "string \<Rightarrow> string" where
  "ascii_replace line = map (\<lambda>ch. if (of_char ch :: nat) < 128 then ch else REPLACEMENT) line"

text \<open>\<open>_xor_checksum\<close> of decoded text.\<close>

definition xor_replaced :: "string \<Rightarrow> nat" where
  "xor_replaced s = fold (\<lambda>ch acc. acc XOR (if ch = REPLACEMENT then 65533 else of_char ch)) s 0"

text \<open>\<open>rpartition\<close>: what is before and after the last occurrence.\<close>

fun rpart :: "string \<Rightarrow> string \<Rightarrow> (string \<times> string) option" where
  "rpart sep [] = None"
| "rpart sep (c # s) = (case rpart sep s of
     Some (a, b) \<Rightarrow> Some (c # a, b)
   | None \<Rightarrow> if take (length sep) (c # s) = sep then Some ([], drop (length sep) (c # s)) else None)"

definition verify_checksum :: "string \<Rightarrow> unit res" where
  "verify_checksum line = (case rpart ''*'' line of
     None \<Rightarrow> Inl ValueError
   | Some (body, supplied) \<Rightarrow>
       if length supplied \<noteq> 2 then Inl ValueError
       else if upper supplied \<noteq> hex02 (xor_replaced body) then Inl ValueError else Inr ())"

definition ACK_PREFIX :: string where "ACK_PREFIX = ''$command,''"

definition ack_result :: "string \<Rightarrow> command_result option" where
  "ack_result body = (case rpart '',response:'' body of
     None \<Rightarrow> None
   | Some (command, response) \<Rightarrow>
       if strip command = [] then None
       else Some \<lparr>cr_command = strip command, cr_ok = (upper (strip response) = ''OK''), cr_response = strip response\<rparr>)"

definition parse_command_response :: "bool \<Rightarrow> string \<Rightarrow> command_result option res" where
  [op_defs]: "parse_command_response verify line =
     (if take (length ACK_PREFIX) line \<noteq> ACK_PREFIX then Inr None
      else let body = drop (length ACK_PREFIX) line in
        case rpart ''*'' body of
          Some (b, _) \<Rightarrow>
            if verify then sbind (verify_checksum line) (\<lambda>_. Inr (ack_result b)) else Inr (ack_result b)
        | None \<Rightarrow> if verify then Inl ValueError else Inr (ack_result body))"

definition checksummed_command :: "string \<Rightarrow> string" where
  "checksummed_command command = CHR ''$'' # command @ CHR ''*'' # hex02 (xor_checksum command)"

section \<open>The driver\<close>

datatype port_write = Wrote int | WroteNone | WriteRaises

record exchange =
  ex_writes :: "nat \<Rightarrow> port_write"
  ex_reads :: "string res list"

text \<open>\<open>_write_all\<close>: the port takes part of what is left each time; the bytes it took are the last component.\<close>

function write_all :: "(nat \<Rightarrow> port_write) \<Rightarrow> nat \<Rightarrow> string \<Rightarrow> string \<Rightarrow> unit res \<times> string" where
  "write_all wr k left taken =
     (if left = [] then (Inr (), taken)
      else case wr k of
          Wrote n \<Rightarrow> if n \<le> 0 then (Inl OSError, taken) else write_all wr (Suc k) (drop (nat n) left) (taken @ take (nat n) left)
        | _ \<Rightarrow> (Inl OSError, taken))"
  by auto
termination by (relation "measure (\<lambda>(_, _, left, _). length left)") auto

declare write_all.simps [simp del]

text \<open>\<open>write_rtcm\<close> writes the payload unchanged.\<close>

definition write_rtcm :: "(nat \<Rightarrow> port_write) \<Rightarrow> string \<Rightarrow> nat res \<times> string" where
  [op_defs]: "write_rtcm wr payload = (if payload = [] then (Inr 0, []) else
     case write_all wr 0 payload [] of (Inl e, taken) \<Rightarrow> (Inl e, taken) | (Inr _, taken) \<Rightarrow> (Inr (length payload), taken))"

definition timeout_result :: "string \<Rightarrow> command_result" where
  "timeout_result command = \<lparr>cr_command = command, cr_ok = False, cr_response = ''timeout''\<rparr>"

definition bad_checksum_result :: "string \<Rightarrow> command_result" where
  "bad_checksum_result command = \<lparr>cr_command = command, cr_ok = False, cr_response = ''invalid UM980 acknowledgement checksum''\<rparr>"

fun await_ack :: "string \<Rightarrow> bool \<Rightarrow> string res list \<Rightarrow> command_result res" where
  "await_ack command verify [] = Inr (timeout_result command)"
| "await_ack command verify (Inl e # rest) = Inl e"
| "await_ack command verify (Inr line # rest) = (case parse_command_response verify (strip (ascii_replace line)) of
     Inl _ \<Rightarrow> Inr (bad_checksum_result command)
   | Inr None \<Rightarrow> await_ack command verify rest
   | Inr (Some r) \<Rightarrow> if upper (cr_command r) = upper command then Inr r else await_ack command verify rest)"

definition wire_command :: "bool \<Rightarrow> string \<Rightarrow> string" where
  "wire_command checksummed command = (if checksummed then checksummed_command command else command) @ crlf"

definition send_command :: "bool \<Rightarrow> string \<Rightarrow> exchange \<Rightarrow> command_result res \<times> string" where
  [op_defs]: "send_command checksummed command ex = (case write_all (ex_writes ex) 0 (wire_command checksummed command) [] of
     (Inl e, taken) \<Rightarrow> (Inl e, taken)
   | (Inr _, taken) \<Rightarrow> (await_ack command checksummed (ex_reads ex), taken))"

text \<open>\<open>_require_ok\<close> inside \<open>configure\<close>, which turns an \<open>OSError\<close> into the same configuration error.\<close>

definition require_ok :: "command_result res \<Rightarrow> unit res" where
  "require_ok r = (case r of
     Inl e \<Rightarrow> Inl (if e = OSError then ConfigError else e)
   | Inr c \<Rightarrow> if cr_ok c then Inr () else Inl ConfigError)"

fun configure_loop :: "(nat \<Rightarrow> exchange) \<Rightarrow> nat \<Rightarrow> string list \<Rightarrow> string list \<Rightarrow> unit res \<times> string list" where
  "configure_loop port k [] sent = (Inr (), sent)"
| "configure_loop port k (command # rest) sent = (case send_command True command (port k) of
     (r, taken) \<Rightarrow>
       (case require_ok r of
          Inl e \<Rightarrow> (Inl e, sent @ [taken])
        | Inr _ \<Rightarrow> configure_loop port (Suc k) rest (sent @ [taken])))"

definition is_timeout :: "command_result res \<Rightarrow> bool" where
  "is_timeout r = (case r of Inl _ \<Rightarrow> False | Inr c \<Rightarrow> cr_response c = ''timeout'')"

definition configure :: "bool \<Rightarrow> string list \<Rightarrow> (nat \<Rightarrow> exchange) \<Rightarrow> unit res \<times> string list" where
  [op_defs]: "configure on_start commands port =
     (if \<not> on_start then (Inr (), [])
      else case send_command False COMMAND_FORMAT (port 0) of
          (r, taken) \<Rightarrow>
            (let (r1, sent, k) = (if is_timeout r then (case send_command True COMMAND_FORMAT (port 1) of (r2, t2) \<Rightarrow> (r2, [taken, t2], 2)) else (r, [taken], 1)) in
             case require_ok r1 of
               Inl e \<Rightarrow> (Inl e, sent)
             | Inr _ \<Rightarrow> configure_loop port k commands sent))"

section \<open>Configuration is confirmed command by command\<close>

lemma write_all_Inr: "write_all wr k left taken = (Inr u, t) \<Longrightarrow> t = taken @ left"
proof (induction wr k left taken rule: write_all.induct)
  case (1 wr k left taken)
  then show ?case using write_all.simps[of wr k left taken] by (auto split: if_splits port_write.splits)
qed

lemma write_all_prefix: "\<exists>n. snd (write_all wr k left taken) = taken @ take n left"
proof (induction wr k left taken rule: write_all.induct)
  case (1 wr k left taken)
  show ?case
  proof (cases "left \<noteq> [] \<and> (\<exists>n > 0. wr k = Wrote n)")
    case True
    then obtain n where n: "left \<noteq> []" "wr k = Wrote n" "n > 0" by blast
    with 1[of n] obtain m where m: "snd (write_all wr (Suc k) (drop (nat n) left) (taken @ take (nat n) left)) = (taken @ take (nat n) left) @ take m (drop (nat n) left)" by auto
    have "snd (write_all wr k left taken) = taken @ take (nat n + m) left" using n m by (simp add: write_all.simps[of wr k left taken] take_add)
    then show ?thesis by blast
  next
    case False
    then have "snd (write_all wr k left taken) = taken @ take 0 left" by (subst write_all.simps) (auto split: port_write.splits)
    then show ?thesis by blast
  qed
qed

lemma write_all_progress: "(\<And>i. \<exists>n > 0. wr i = Wrote n) \<Longrightarrow> write_all wr k left taken = (Inr (), taken @ left)"
proof (induction wr k left taken rule: write_all.induct)
  case (1 wr k left taken)
  obtain n where "wr k = Wrote n" "n > 0" using 1(2)[of k] by blast
  then show ?case using 1(1)[of n] 1(2) by (subst write_all.simps) simp
qed

text \<open>An acknowledgement with the answer OK is among what was read.\<close>

definition is_ack :: "bool \<Rightarrow> string \<Rightarrow> string res \<Rightarrow> bool" where
  "is_ack verify command x = (case x of
     Inl _ \<Rightarrow> False
   | Inr line \<Rightarrow> (case parse_command_response verify (strip (ascii_replace line)) of
       Inr (Some r) \<Rightarrow> upper (cr_command r) = upper command \<and> cr_ok r
     | _ \<Rightarrow> False))"

definition confirmed :: "bool \<Rightarrow> string \<Rightarrow> exchange \<Rightarrow> bool" where
  "confirmed verify command ex = list_ex (is_ack verify command) (ex_reads ex)"

lemma await_ack_ok: "await_ack command verify reads = Inr r \<Longrightarrow> cr_ok r \<Longrightarrow> list_ex (is_ack verify command) reads"
proof (induction command verify reads rule: await_ack.induct)
  case (3 command verify line rest)
  show ?case
  proof (cases "parse_command_response verify (strip (ascii_replace line))")
    case (Inr x)
    then show ?thesis using 3 by (cases x) (auto simp: is_ack_def split: if_splits)
  qed (use 3 in \<open>auto simp: bad_checksum_result_def\<close>)
qed (auto simp: timeout_result_def)

lemma require_ok_Inr: "require_ok r = Inr u \<longleftrightarrow> (\<exists>c. r = Inr c \<and> cr_ok c)"
  by (auto simp: require_ok_def split: sum.splits if_splits)

lemma send_command_ok:
  assumes "send_command checksummed command ex = (r, taken)" "require_ok r = Inr u"
  shows "taken = wire_command checksummed command \<and> confirmed checksummed command ex"
proof -
  from assms obtain c where c: "r = Inr c" "cr_ok c" by (auto simp: require_ok_Inr)
  obtain w t where w: "write_all (ex_writes ex) 0 (wire_command checksummed command) [] = (w, t)" by (rule prod.exhaust)
  then obtain v where "w = Inr v" using assms(1) c by (cases w) (auto simp: send_command_def)
  then have "t = wire_command checksummed command" "await_ack command checksummed (ex_reads ex) = Inr c" "taken = t"
    using write_all_Inr[of _ _ _ "[]"] w assms(1) c by (auto simp: send_command_def)
  then show ?thesis using await_ack_ok[of command checksummed "ex_reads ex" c] c by (simp add: confirmed_def)
qed

lemma send_command_taken: "\<exists>n. snd (send_command checksummed command ex) = take n (wire_command checksummed command)"
  using write_all_prefix[of "ex_writes ex" 0 "wire_command checksummed command" "[]"]
  by (auto simp: send_command_def split: prod.splits sum.splits)

lemma send_command_Inr: "send_command checksummed command ex = (Inr c, taken) \<Longrightarrow> taken = wire_command checksummed command"
  by (auto simp: send_command_def split: prod.splits sum.splits dest!: write_all_Inr)

text \<open>The commands up to one of them went out, and of that one a part or all.\<close>

definition cut_short :: "string list \<Rightarrow> string list \<Rightarrow> bool" where
  "cut_short sent wires \<longleftrightarrow> (\<exists>i < length wires. \<exists>n. sent = take i wires @ [take n (wires ! i)])"

lemma cut_short_here: "cut_short (ws @ [take n w]) (ws @ w # rest)"
  unfolding cut_short_def by (rule exI[of _ "length ws"]) auto

definition all_confirmed :: "string list \<Rightarrow> (nat \<Rightarrow> exchange) \<Rightarrow> nat \<Rightarrow> bool" where
  "all_confirmed commands port k = list_all (\<lambda>(i, c). confirmed True c (port i)) (zip [k..<k + length commands] commands)"

lemma all_confirmed_Cons: "all_confirmed (c # cs) port k \<longleftrightarrow> confirmed True c (port k) \<and> all_confirmed cs port (Suc k)"
  by (simp add: all_confirmed_def upt_rec[of k] del: upt_Suc)

lemma configure_loop_ok:
  "configure_loop port k commands sent = (Inr u, out) \<Longrightarrow> out = sent @ map (wire_command True) commands \<and> all_confirmed commands port k"
proof (induction port k commands sent rule: configure_loop.induct)
  case (2 port k command rest sent)
  obtain r taken where s: "send_command True command (port k) = (r, taken)" by (rule prod.exhaust)
  then obtain v where v: "require_ok r = Inr v" using 2(2) by (cases "require_ok r") auto
  with 2(1)[OF s[symmetric] v] 2(2) s send_command_ok[OF s v] show ?case by (simp add: all_confirmed_Cons)
qed (simp add: all_confirmed_def)

lemma configure_loop_fails:
  "configure_loop port k commands sent = (Inl e, out) \<Longrightarrow> cut_short out (sent @ map (wire_command True) commands)"
proof (induction port k commands sent rule: configure_loop.induct)
  case (2 port k command rest sent)
  obtain r taken where s: "send_command True command (port k) = (r, taken)" by (rule prod.exhaust)
  obtain n where n: "taken = take n (wire_command True command)" using send_command_taken[of True command "port k"] s by auto
  show ?case
  proof (cases "require_ok r")
    case (Inl e1)
    then show ?thesis using 2(2) s n cut_short_here[of sent n "wire_command True command"] by simp
  next
    case (Inr v)
    then show ?thesis using 2(1)[OF s[symmetric] Inr] 2(2) s send_command_ok[OF s Inr] by simp
  qed
qed simp

text \<open>The two ways a start-up can go: the receiver answers the plain format command, or only the one with a checksum.\<close>

definition plain_wires :: "string list \<Rightarrow> string list" where
  "plain_wires commands = wire_command False COMMAND_FORMAT # map (wire_command True) commands"

definition retried_wires :: "string list \<Rightarrow> string list" where
  "retried_wires commands = wire_command False COMMAND_FORMAT # wire_command True COMMAND_FORMAT # map (wire_command True) commands"

lemma configure_fails:
  assumes "configure True commands port = (Inl e, sent)"
  shows "cut_short sent (plain_wires commands) \<or> cut_short sent (retried_wires commands)"
proof -
  obtain r taken where s: "send_command False COMMAND_FORMAT (port 0) = (r, taken)" by (rule prod.exhaust)
  obtain n where n: "taken = take n (wire_command False COMMAND_FORMAT)" using send_command_taken[of False COMMAND_FORMAT "port 0"] s by auto
  show ?thesis
  proof (cases "is_timeout r")
    case False
    show ?thesis
    proof (cases "require_ok r")
      case (Inl e1)
      then show ?thesis using assms s False n cut_short_here[of "[]" n "wire_command False COMMAND_FORMAT"] by (simp add: configure_def plain_wires_def)
    next
      case (Inr v)
      then show ?thesis using assms s False send_command_ok[OF s Inr] configure_loop_fails[of port 1 commands "[taken]"] by (simp add: configure_def plain_wires_def)
    qed
  next
    case True
    then obtain c where "r = Inr c" by (auto simp: is_timeout_def split: sum.splits)
    then have t: "taken = wire_command False COMMAND_FORMAT" using send_command_Inr s by blast
    obtain r2 t2 where s2: "send_command True COMMAND_FORMAT (port 1) = (r2, t2)" by (rule prod.exhaust)
    obtain m where m: "t2 = take m (wire_command True COMMAND_FORMAT)" using send_command_taken[of True COMMAND_FORMAT "port 1"] s2 by auto
    show ?thesis
    proof (cases "require_ok r2")
      case (Inl e1)
      then show ?thesis using assms s s2 True m t cut_short_here[of "[wire_command False COMMAND_FORMAT]" m "wire_command True COMMAND_FORMAT"]
        by (simp add: configure_def retried_wires_def)
    next
      case (Inr v)
      then show ?thesis using assms s s2 True t send_command_ok[OF s2 Inr] configure_loop_fails[of port 2 commands "[taken, t2]"]
        by (simp add: configure_def retried_wires_def)
    qed
  qed
qed

lemma configure_ok:
  assumes "configure True commands port = (Inr (), sent)"
  shows "(sent = plain_wires commands \<and> confirmed False COMMAND_FORMAT (port 0) \<and> all_confirmed commands port 1)
    \<or> (sent = retried_wires commands \<and> confirmed True COMMAND_FORMAT (port 1) \<and> all_confirmed commands port 2)"
proof -
  obtain r taken where s: "send_command False COMMAND_FORMAT (port 0) = (r, taken)" by (rule prod.exhaust)
  show ?thesis
  proof (cases "is_timeout r")
    case False
    then have "\<exists>v. require_ok r = Inr v \<and> configure_loop port 1 commands [taken] = (Inr (), sent)" using assms s by (auto simp: configure_def split: sum.splits)
    then show ?thesis using send_command_ok[OF s] configure_loop_ok[of port 1 commands "[taken]"] by (auto simp: plain_wires_def)
  next
    case True
    then obtain c where "r = Inr c" by (auto simp: is_timeout_def split: sum.splits)
    then have t: "taken = wire_command False COMMAND_FORMAT" using send_command_Inr s by blast
    obtain r2 t2 where s2: "send_command True COMMAND_FORMAT (port 1) = (r2, t2)" by (rule prod.exhaust)
    then have "\<exists>v. require_ok r2 = Inr v \<and> configure_loop port 2 commands [taken, t2] = (Inr (), sent)" using assms s True by (auto simp: configure_def split: sum.splits)
    then show ?thesis using send_command_ok[OF s2] configure_loop_ok[of port 2 commands "[taken, t2]"] t by (auto simp: retried_wires_def)
  qed
qed

section \<open>A receiver that answers is configured\<close>

lemma rpart_append: "rpart sep s = Some (a, b) \<Longrightarrow> rpart sep (u @ s) = Some (u @ a, b)"
  by (induction u) simp_all

lemma rpart_star_None: "CHR ''*'' \<notin> set s \<Longrightarrow> rpart ''*'' s = None"
  by (induction s) auto

lemma rpart_star: "CHR ''*'' \<notin> set s \<Longrightarrow> rpart ''*'' (u @ CHR ''*'' # s) = Some (u, s)"
  using rpart_append[of "''*''" "CHR ''*'' # s" "[]" s u] rpart_star_None[of s] by simp

lemma rpart_response: "rpart '',response:'' (u @ '',response: OK'') = Some (u, '' OK'')"
  using rpart_append[of "'',response:''" "'',response: OK''" "[]" "'' OK''" u] by simp

lemma hex_star: "n < 256 \<Longrightarrow> CHR ''*'' \<notin> set (hex02 n)"
proof -
  have "hex_digit d \<noteq> CHR ''*''" if "d < 16" for d
  proof -
    have "d \<in> {0, 1, 2, 3, 4, 5, 6, 7, 8, 9, 10, 11, 12, 13, 14, 15}" using that unfolding insert_iff empty_iff by presburger
    then show ?thesis unfolding insert_iff empty_iff by (elim disjE; simp add: hex_digit_def)
  qed
  from this[of "n div 16"] this[of "n mod 16"] show "n < 256 \<Longrightarrow> CHR ''*'' \<notin> set (hex02 n)" by (auto simp: hex02_two less_mult_imp_div_less)
qed

text \<open>The acknowledgement of the receiver: the checksum covers the dollar sign.\<close>

definition ack_body :: "string \<Rightarrow> string" where
  "ack_body command = ACK_PREFIX @ command @ '',response: OK''"

definition ack_line :: "string \<Rightarrow> string" where
  "ack_line command = ack_body command @ CHR ''*'' # hex02 (xor_checksum (ack_body command))"

text \<open>A command of ASCII characters that does not begin or end with a blank.\<close>

definition command_ok :: "string \<Rightarrow> bool" where
  "command_ok c \<longleftrightarrow> c \<noteq> [] \<and> strip c = c \<and> list_all (\<lambda>ch. (of_char ch :: nat) < 128) c"

lemma ascii_replace_id: "list_all (\<lambda>ch. (of_char ch :: nat) < 128) s \<Longrightarrow> ascii_replace s = s"
  by (induction s) (simp_all add: ascii_replace_def)

lemma xor_replaced_ascii: "list_all (\<lambda>ch. (of_char ch :: nat) < 128) s \<Longrightarrow> xor_replaced s = xor_checksum s"
proof -
  assume "list_all (\<lambda>ch. (of_char ch :: nat) < 128) s"
  then have "fold (\<lambda>ch acc. acc XOR (if ch = REPLACEMENT then 65533 else of_char ch)) s n = fold (\<lambda>ch acc. acc XOR of_char ch) s n" for n
    by (induction s arbitrary: n) (auto simp: REPLACEMENT_def)
  then show ?thesis by (simp add: xor_replaced_def xor_checksum_def)
qed

lemma ack_ascii:
  assumes "command_ok c"
  shows "list_all (\<lambda>ch. (of_char ch :: nat) < 128) (ack_body c)" "list_all (\<lambda>ch. (of_char ch :: nat) < 128) (ack_line c @ crlf)"
proof -
  show b: "list_all (\<lambda>ch. (of_char ch :: nat) < 128) (ack_body c)" using assms by (simp add: ack_body_def ACK_PREFIX_def command_ok_def)
  let ?n = "xor_checksum (ack_body c)"
  have n: "?n < 256" by (rule xor_checksum_less)
  then have "?n div 16 < 16" by simp
  then have "(of_char (hex_digit (?n div 16)) :: nat) < 128" "(of_char (hex_digit (?n mod 16)) :: nat) < 128" by (simp_all add: hex_digit_char(3))
  then show "list_all (\<lambda>ch. (of_char ch :: nat) < 128) (ack_line c @ crlf)" using b n by (simp add: ack_line_def crlf_def hex02_two)
qed

lemma strip_ack: "strip (ack_line c @ crlf) = ack_line c"
proof -
  let ?n = "xor_checksum (ack_body c)"
  have n: "?n < 256" by (rule xor_checksum_less)
  have sp: "\<not> is_space CHR ''$''" "is_space CHR 0x0D" "is_space CHR 0x0A" by (simp_all add: is_space_def)
  show ?thesis using n by (intro strip_line) (simp_all add: ack_line_def ack_body_def ACK_PREFIX_def hex02_two hex_digit_char crlf_def sp)
qed

lemma parse_ack:
  assumes "command_ok c"
  shows "parse_command_response verify (ack_line c) = Inr (Some \<lparr>cr_command = c, cr_ok = True, cr_response = ''OK''\<rparr>)"
proof -
  let ?n = "xor_checksum (ack_body c)"
  have n: "?n < 256" by (rule xor_checksum_less)
  have "rpart ''*'' (ack_line c) = Some (ack_body c, hex02 ?n)" unfolding ack_line_def by (rule rpart_star[OF hex_star[OF n]])
  moreover have "xor_replaced (ack_body c) = ?n" by (rule xor_replaced_ascii[OF ack_ascii(1)[OF assms]])
  moreover have "length (hex02 ?n) = 2" using n by (simp add: hex02_two)
  ultimately have ok: "verify_checksum (ack_line c) = Inr ()" by (simp add: verify_checksum_def upper_hex02[OF n])
  have "drop (length ACK_PREFIX) (ack_line c) = (c @ '',response: OK'') @ CHR ''*'' # hex02 ?n" "take (length ACK_PREFIX) (ack_line c) = ACK_PREFIX"
    by (simp_all add: ack_line_def ack_body_def)
  moreover have "rpart ''*'' ((c @ '',response: OK'') @ CHR ''*'' # hex02 ?n) = Some (c @ '',response: OK'', hex02 ?n)" by (rule rpart_star[OF hex_star[OF n]])
  moreover have "ack_result (c @ '',response: OK'') = Some \<lparr>cr_command = c, cr_ok = True, cr_response = ''OK''\<rparr>"
  proof -
    have "strip '' OK'' = ''OK''" "upper ''OK'' = ''OK''" by (simp_all add: strip_def lstrip_def is_space_def upper_def upper_char_def)
    then show ?thesis using assms rpart_response[of c] by (simp add: ack_result_def command_ok_def)
  qed
  ultimately show ?thesis using ok by (simp add: parse_command_response_def)
qed

text \<open>A receiver that takes every write and, after whatever other sentences, acknowledges.\<close>

definition other_sentence :: "string \<Rightarrow> bool" where
  "other_sentence line \<longleftrightarrow> take (length ACK_PREFIX) (strip (ascii_replace line)) \<noteq> ACK_PREFIX"

definition answers :: "string \<Rightarrow> exchange \<Rightarrow> bool" where
  "answers c ex \<longleftrightarrow> (\<forall>i. \<exists>n > 0. ex_writes ex i = Wrote n)
     \<and> (\<exists>noise rest. ex_reads ex = map Inr noise @ Inr (ack_line c @ crlf) # rest \<and> list_all other_sentence noise)"

lemma await_ack_answers:
  assumes "command_ok c" "list_all other_sentence noise"
  shows "await_ack c verify (map Inr noise @ Inr (ack_line c @ crlf) # rest) = Inr \<lparr>cr_command = c, cr_ok = True, cr_response = ''OK''\<rparr>"
  using assms(2)
proof (induction noise)
  case Nil
  have "strip (ascii_replace (ack_line c @ crlf)) = ack_line c" by (simp only: ascii_replace_id[OF ack_ascii(2)[OF assms(1)]] strip_ack)
  then show ?case by (simp add: parse_ack[OF assms(1)])
next
  case (Cons line noise)
  then show ?case by (simp add: other_sentence_def parse_command_response_def)
qed

lemma send_command_answers:
  assumes "command_ok c" "answers c ex"
  shows "send_command checksummed c ex = (Inr \<lparr>cr_command = c, cr_ok = True, cr_response = ''OK''\<rparr>, wire_command checksummed c)"
  using assms write_all_progress[of "ex_writes ex" 0 "wire_command checksummed c" "[]"]
  by (auto simp: answers_def send_command_def await_ack_answers)

lemma configure_loop_answers:
  "list_all command_ok commands \<Longrightarrow> (\<And>i. i < length commands \<Longrightarrow> answers (commands ! i) (port (k + i))) \<Longrightarrow>
   configure_loop port k commands sent = (Inr (), sent @ map (wire_command True) commands)"
proof (induction commands arbitrary: k sent)
  case (Cons c cs)
  have "answers c (port k)" using Cons.prems(2)[of 0] by simp
  then have "send_command True c (port k) = (Inr \<lparr>cr_command = c, cr_ok = True, cr_response = ''OK''\<rparr>, wire_command True c)"
    using Cons.prems(1) by (intro send_command_answers) simp_all
  moreover have "answers (cs ! i) (port (Suc k + i))" if "i < length cs" for i using Cons.prems(2)[of "Suc i"] that by simp
  ultimately show ?case using Cons.IH[of "Suc k"] Cons.prems(1) by (simp add: require_ok_def)
qed simp

lemma configure_answers:
  assumes "list_all command_ok commands" "answers COMMAND_FORMAT (port 0)" "\<And>i. i < length commands \<Longrightarrow> answers (commands ! i) (port (Suc i))"
  shows "configure True commands port = (Inr (), plain_wires commands)"
proof -
  have ok: "command_ok COMMAND_FORMAT" by (simp add: command_ok_def COMMAND_FORMAT_def strip_def lstrip_def is_space_def)
  show ?thesis using send_command_answers[OF ok assms(2), of False] configure_loop_answers[OF assms(1), of port 1] assms(3)
    by (simp add: configure_def is_timeout_def require_ok_def plain_wires_def)
qed


text \<open>The four acknowledgements recorded from a receiver.\<close>

lemma bench_acks:
  "ack_line COMMAND_FORMAT = ''$command,CONFIG CMDFORMAT 1,response: OK*2C''" "ack_line ''UNLOG'' = ''$command,UNLOG,response: OK*01''"
  "ack_line ''GPRMC 0.02'' = ''$command,GPRMC 0.02,response: OK*29''" "ack_line ''CONFIG'' = ''$command,CONFIG,response: OK*54''"
  by (simp_all add: ack_line_def ack_body_def ACK_PREFIX_def COMMAND_FORMAT_def xor_checksum_def hex02_two hex_digit_def)

definition wit_um980 :: um980_settings where
  "wit_um980 = \<lparr>us_rate_hz = 50, us_sentences = [''rmc''], us_sentence_rates_hz = [], us_configure_on_start = True, us_pps = None, us_timing_output = None\<rparr>"

definition wit_receiver :: "nat \<Rightarrow> exchange" where
  "wit_receiver i = \<lparr>ex_writes = \<lambda>_. Wrote 7, ex_reads = [Inr ''$GNGGA,1*00'', Inr ([''$command,CONFIG CMDFORMAT 1,response: OK*2C'',
     ''$command,UNLOG,response: OK*01'', ''$command,GPRMC 0.02,response: OK*29''] ! i @ crlf)]\<rparr>"

lemma wit_answers: "command_ok c \<Longrightarrow> ex = \<lparr>ex_writes = \<lambda>_. Wrote 7, ex_reads = [Inr ''$GNGGA,1*00'', Inr (ack_line c @ crlf)]\<rparr> \<Longrightarrow> answers c ex"
proof -
  assume a: "ex = \<lparr>ex_writes = \<lambda>_. Wrote 7, ex_reads = [Inr ''$GNGGA,1*00'', Inr (ack_line c @ crlf)]\<rparr>"
  have "other_sentence ''$GNGGA,1*00''" by (simp add: other_sentence_def ascii_replace_def strip_def lstrip_def is_space_def ACK_PREFIX_def)
  then have "ex_reads ex = map Inr [''$GNGGA,1*00''] @ Inr (ack_line c @ crlf) # [] \<and> list_all other_sentence [''$GNGGA,1*00'']" by (simp add: a)
  moreover have "\<exists>n > 0. ex_writes ex i = Wrote n" for i by (simp add: a)
  ultimately show "answers c ex" unfolding answers_def by blast
qed

lemma upper_rmc: "upper ''rmc'' = ''RMC''"
  by code_simp


end
