(* ===== verification/Rawlog.thy ===== *)
theory Rawlog
  imports Prelude "HOL-Library.Sublist"
begin

text \<open>
  \<^verbatim>\<open>src/collectors/rawlog.py\<close>: raw capture into segments, and what a power cut can cost.

  A line carries the time the writer read right after writing it. The segments rotated out and the part of the current one
  up to the last \<open>fsync\<close> are on disk; the rest of the current segment is the tail a power cut may lose. Every call on the
  file system may fail, as \<open>raw_io\<close> says.
\<close>

section \<open>The writer\<close>

type_synonym raw_line = "real \<times> string"

record raw_writer =
  rl_rotate_interval_s :: real
  rl_fsync_interval_s :: real
  rl_segment_open :: bool
  rl_segment_seq :: nat
  rl_closed :: bool
  rl_rotate_due :: real
  rl_fsync_due :: real
  rl_segments :: "raw_line list list"
  rl_synced :: "raw_line list"
  rl_tail :: "raw_line list"

definition DEFAULT_ROTATE_INTERVAL_S :: real where "DEFAULT_ROTATE_INTERVAL_S = 600"
definition DEFAULT_FSYNC_INTERVAL_S :: real where "DEFAULT_FSYNC_INTERVAL_S = 1"

record raw_io =
  io_write :: bool
  io_sync :: bool
  io_close :: bool
  io_dir :: bool
  io_open :: bool

text \<open>\<open>_open_segment\<close>, called when the last segment is on disk.\<close>

definition open_segment :: "raw_io \<Rightarrow> real \<Rightarrow> raw_writer \<Rightarrow> unit res \<times> raw_writer" where
  "open_segment io now w =
     (let w1 = w\<lparr>rl_segment_seq := rl_segment_seq w + 1\<rparr> in
      if io_open io
      then (Inr (), w1\<lparr>rl_segment_open := True, rl_rotate_due := now + rl_rotate_interval_s w, rl_fsync_due := now + rl_fsync_interval_s w\<rparr>)
      else (Inl OSError, w1))"

definition raw_new :: "real \<Rightarrow> real \<Rightarrow> raw_io \<Rightarrow> real \<Rightarrow> unit res \<times> raw_writer" where
  "raw_new rotate_s fsync_s io now = open_segment io now \<lparr>rl_rotate_interval_s = rotate_s, rl_fsync_interval_s = fsync_s, rl_segment_open = False,
     rl_segment_seq = 0, rl_closed = False, rl_rotate_due = 0, rl_fsync_due = 0, rl_segments = [], rl_synced = [], rl_tail = []\<rparr>"

definition sync_tail :: "raw_writer \<Rightarrow> raw_writer" where
  "sync_tail w = w\<lparr>rl_synced := rl_synced w @ rl_tail w, rl_tail := []\<rparr>"

definition rotated_out :: "raw_writer \<Rightarrow> raw_writer" where
  "rotated_out w = w\<lparr>rl_segments := rl_segments w @ [rl_synced w], rl_synced := [], rl_segment_open := False\<rparr>"

definition rotate_segment :: "raw_io \<Rightarrow> real \<Rightarrow> raw_writer \<Rightarrow> unit res \<times> raw_writer" where
  [op_defs]: "rotate_segment io now w =
     (if \<not> io_sync io then (Inl OSError, w)
      else if \<not> io_close io then (Inl OSError, sync_tail w)
      else let w1 = rotated_out (sync_tail w) in
           if \<not> io_dir io then (Inl OSError, w1) else open_segment io now w1)"

text \<open>\<open>now\<close> is read after the write, \<open>now2\<close> when a new segment is opened.\<close>

definition write_line :: "raw_io \<Rightarrow> real \<Rightarrow> real \<Rightarrow> string \<Rightarrow> raw_writer \<Rightarrow> unit res \<times> raw_writer" where
  [op_defs]: "write_line io now now2 line w =
     (if rl_closed w \<or> \<not> rl_segment_open w then (Inl OSError, w)
      else if \<not> io_write io then (Inl OSError, w)
      else let w1 = w\<lparr>rl_tail := rl_tail w @ [(now, line)]\<rparr> in
           if now \<ge> rl_rotate_due w then rotate_segment io now2 w1
           else if now \<ge> rl_fsync_due w then
             (if io_sync io then (Inr (), (sync_tail w1)\<lparr>rl_fsync_due := now + rl_fsync_interval_s w\<rparr>) else (Inl OSError, w1))
           else (Inr (), w1))"

text \<open>\<open>close\<close> swallows its errors.\<close>

definition close_writer :: "raw_io \<Rightarrow> raw_writer \<Rightarrow> raw_writer" where
  [op_defs]: "close_writer io w =
     (if rl_closed w then w
      else let w1 = w\<lparr>rl_closed := True, rl_segment_open := False\<rparr> in
           if rl_segment_open w \<and> io_sync io then sync_tail w1 else w1)"

section \<open>What a power cut leaves\<close>

definition on_disk :: "raw_writer \<Rightarrow> raw_line list" where
  "on_disk w = concat (rl_segments w) @ rl_synced w"

definition captured :: "raw_writer \<Rightarrow> raw_line list" where
  "captured w = on_disk w @ rl_tail w"

lemma captured_simps [simp]:
  "captured (sync_tail w) = captured w" "captured (rotated_out w) = concat (rl_segments w) @ rl_synced w @ rl_tail w"
  "captured (snd (open_segment io now w)) = captured w"
  by (simp_all add: captured_def on_disk_def sync_tail_def rotated_out_def open_segment_def Let_def)

text \<open>Whatever fails, nothing captured is dropped or reordered, and what is on disk stays there.\<close>

lemma on_disk_simps [simp]:
  "on_disk (sync_tail w) = on_disk w @ rl_tail w" "on_disk (rotated_out w) = on_disk w" "on_disk (snd (open_segment io now w)) = on_disk w"
  "on_disk (w\<lparr>rl_tail := t\<rparr>) = on_disk w" "captured (w\<lparr>rl_tail := t\<rparr>) = on_disk w @ t" "on_disk (w\<lparr>rl_fsync_due := x\<rparr>) = on_disk w"
  "captured (w\<lparr>rl_fsync_due := x\<rparr>) = captured w"
  by (simp_all add: captured_def on_disk_def sync_tail_def rotated_out_def open_segment_def Let_def)

lemma write_line_keeps:
  "captured (snd (write_line io now now2 line w)) \<in> {captured w, captured w @ [(now, line)]}
   \<and> prefix (on_disk w) (on_disk (snd (write_line io now now2 line w)))"
proof -
  have "captured (rotated_out (sync_tail v)) = captured v" for v by (simp add: captured_def on_disk_def sync_tail_def rotated_out_def)
  then show ?thesis by (auto simp: write_line_def rotate_segment_def Let_def captured_def[of w])
qed

lemma close_writer_keeps:
  "captured (close_writer io w) = captured w" "io_sync io \<Longrightarrow> rl_segment_open w \<Longrightarrow> \<not> rl_closed w \<Longrightarrow> on_disk (close_writer io w) = captured w"
  by (auto simp: close_writer_def sync_tail_def captured_def on_disk_def Let_def)

section \<open>The loss window\<close>

type_synonym raw_op = "raw_io \<times> real \<times> real \<times> string"
type_synonym raw_run = "raw_writer \<times> real \<times> raw_line list"

fun raw_step :: "raw_op \<Rightarrow> raw_run \<Rightarrow> raw_run" where
  "raw_step (io, now, now2, line) (w, t, ls) = (snd (write_line io now now2 line w), now2, ls @ [(now, line)])"

text \<open>The clock does not go back and the write returns.\<close>

fun raw_guard :: "raw_op \<Rightarrow> raw_run \<Rightarrow> bool" where
  "raw_guard (io, now, now2, line) (w, t, ls) \<longleftrightarrow> t \<le> now \<and> now \<le> now2 \<and> fst (write_line io now now2 line w) = Inr ()"

fun raw_inv :: "raw_run \<Rightarrow> bool" where
  "raw_inv (w, t, ls) \<longleftrightarrow> captured w = ls \<and> rl_segment_open w \<and> \<not> rl_closed w \<and> rl_segment_seq w = length (rl_segments w) + 1
     \<and> rl_fsync_due w - rl_fsync_interval_s w \<le> t
     \<and> list_all (\<lambda>p. rl_fsync_due w - rl_fsync_interval_s w \<le> fst p \<and> fst p < rl_fsync_due w) (rl_tail w)"

lemma raw_step_inv:
  assumes "raw_inv (w, t, ls)" "raw_guard (io, now, now2, line) (w, t, ls)"
  shows "raw_inv (raw_step (io, now, now2, line) (w, t, ls))"
proof -
  have c: "captured w = on_disk w @ rl_tail w" by (rule captured_def)
  consider (keep) "now < rl_rotate_due w" "now < rl_fsync_due w" "snd (write_line io now now2 line w) = w\<lparr>rl_tail := rl_tail w @ [(now, line)]\<rparr>"
    | (sync) "snd (write_line io now now2 line w) = (sync_tail (w\<lparr>rl_tail := rl_tail w @ [(now, line)]\<rparr>))\<lparr>rl_fsync_due := now + rl_fsync_interval_s w\<rparr>"
    | (rotate) "snd (write_line io now now2 line w) = snd (open_segment io now2 (rotated_out (sync_tail (w\<lparr>rl_tail := rl_tail w @ [(now, line)]\<rparr>))))" "io_open io"
    using assms(2) by (auto simp: write_line_def rotate_segment_def open_segment_def Let_def split: if_splits)
  then show ?thesis
  proof cases
    case keep
    then show ?thesis using assms c by simp
  next
    case sync
    then show ?thesis using assms c by (simp add: sync_tail_def captured_def on_disk_def)
  next
    case rotate
    then show ?thesis using assms c by (simp add: sync_tail_def rotated_out_def open_segment_def captured_def on_disk_def Let_def)
  qed
qed

interpretation raw_capture: guarded_machine raw_step raw_guard raw_inv
proof
  fix s e assume "raw_inv s" "raw_guard e s"
  moreover obtain w t ls where "s = (w, t, ls)" by (metis prod.exhaust)
  moreover obtain io now now2 line where "e = (io, now, now2, line)" by (metis prod.exhaust)
  ultimately show "raw_inv (raw_step e s)" using raw_step_inv[of w t ls io now now2 line] by simp
qed


definition wit_raw_io :: raw_io where
  "wit_raw_io = \<lparr>io_write = True, io_sync = True, io_close = True, io_dir = True, io_open = True\<rparr>"

definition wit_raw :: raw_writer where
  "wit_raw = snd (raw_new 600 1 wit_raw_io 0)"


end
