(* ===== verification/Can_Collector.thy ===== *)
theory Can_Collector
  imports Rbe "HOL-Library.AList"
begin

text \<open>
  \<^verbatim>\<open>src/collectors/can.py\<close>: frames of one CAN bus to samples, and the clock that stamps them.

  Decoding a payload against a DBC message is cantools' work: \<open>cantools\<close> gives the signals and values of a message, or
  \<open>None\<close> when it raises. A frame timestamp is a float of seconds, here a real; \<open>now\<close> is the monotonic clock the call
  reads.
\<close>

section \<open>The frame clock\<close>

record frame_clock =
  fk_epoch_ref :: "real option"
  fk_mono_ref :: int

definition clock_reset :: frame_clock where
  "clock_reset = \<lparr>fk_epoch_ref = None, fk_mono_ref = 0\<rparr>"

definition to_mono_ns :: "int \<Rightarrow> real \<Rightarrow> frame_clock \<Rightarrow> int \<times> frame_clock" where
  [op_defs]: "to_mono_ns now ts k =
     (if ts = 0 then (now, k)
      else let k1 = (case fk_epoch_ref k of None \<Rightarrow> \<lparr>fk_epoch_ref = Some ts, fk_mono_ref = now\<rparr> | Some _ \<Rightarrow> k)
           in (fk_mono_ref k1 + py_round ((ts - the (fk_epoch_ref k1)) * 1000000000), k1))"

section \<open>The decoder\<close>

record dbc_message =
  dm_frame_id :: int
  dm_is_extended :: bool
  dm_name :: string
  dm_signals :: "string list"

record device_message =
  dv_device :: string
  dv_message :: dbc_message
  dv_source_refs :: "(string \<times> string) list"

record can_frame =
  cf_arbitration_id :: int
  cf_is_extended_id :: bool
  cf_is_error :: bool
  cf_is_remote :: bool
  cf_timestamp :: real
  cf_data :: string

record can_stats =
  cs_frames :: nat
  cs_decoded :: nat
  cs_unknown :: nat
  cs_malformed :: nat
  cs_samples :: nat

type_synonym frame_key = "int \<times> bool"

record can_decoder =
  cd_bus_name :: string
  cd_stats :: can_stats
  cd_by_frame :: "(frame_key \<times> device_message list) list"
  cd_reported_unknown :: "frame_key list"
  cd_reported_malformed :: "(int \<times> string) list"

definition MAX_TRACKED_UNKNOWN_IDS :: nat where "MAX_TRACKED_UNKNOWN_IDS = 256"

definition source_ref_of :: "string \<Rightarrow> string \<Rightarrow> string \<Rightarrow> string \<Rightarrow> string" where
  "source_ref_of bus device msg signal = bus @ '':'' @ device @ ''.'' @ msg @ ''.'' @ signal"

definition message_key :: "dbc_message \<Rightarrow> frame_key" where
  "message_key m = (dm_frame_id m, dm_is_extended m)"

definition device_message_of :: "string \<Rightarrow> string \<Rightarrow> dbc_message \<Rightarrow> device_message" where
  "device_message_of bus device m = \<lparr>dv_device = device, dv_message = m,
     dv_source_refs = fold (\<lambda>s refs. AList.update s (source_ref_of bus device (dm_name m) s) refs) (dm_signals m) []\<rparr>"

definition add_message :: "string \<Rightarrow> string \<times> dbc_message \<Rightarrow> (frame_key \<times> device_message list) list \<Rightarrow> (frame_key \<times> device_message list) list" where
  "add_message bus dm index = (case dm of (device, m) \<Rightarrow>
     AList.update (message_key m) ((case map_of index (message_key m) of None \<Rightarrow> [] | Some ms \<Rightarrow> ms) @ [device_message_of bus device m]) index)"

text \<open>The messages of the DBCs in order, each with its device.\<close>

definition dbc_messages :: "(string \<times> dbc_message list) list \<Rightarrow> (string \<times> dbc_message) list" where
  "dbc_messages dbcs = concat (map (\<lambda>(device, ms). map (Pair device) ms) dbcs)"

definition decoder_new :: "string \<Rightarrow> (string \<times> dbc_message list) list \<Rightarrow> can_decoder" where
  "decoder_new bus dbcs = \<lparr>cd_bus_name = bus, cd_stats = \<lparr>cs_frames = 0, cs_decoded = 0, cs_unknown = 0, cs_malformed = 0, cs_samples = 0\<rparr>,
     cd_by_frame = fold (add_message bus) (dbc_messages dbcs) [], cd_reported_unknown = [], cd_reported_malformed = []\<rparr>"

definition report_unknown :: "frame_key \<Rightarrow> can_decoder \<Rightarrow> can_decoder" where
  "report_unknown key d =
     (if key \<in> set (cd_reported_unknown d) \<or> length (cd_reported_unknown d) \<ge> MAX_TRACKED_UNKNOWN_IDS then d
      else d\<lparr>cd_reported_unknown := key # cd_reported_unknown d\<rparr>)"

definition report_malformed :: "device_message \<Rightarrow> can_decoder \<Rightarrow> can_decoder" where
  "report_malformed c d =
     (let key = (dm_frame_id (dv_message c), dv_device c)
      in if key \<in> set (cd_reported_malformed d) then d else d\<lparr>cd_reported_malformed := key # cd_reported_malformed d\<rparr>)"

type_synonym cantools = "dbc_message \<Rightarrow> string \<Rightarrow> (string \<times> sample_value) list option"

definition named_value :: "string \<Rightarrow> device_message \<Rightarrow> string \<times> sample_value \<Rightarrow> string \<times> sample_value" where
  "named_value bus c p =
     (case map_of (dv_source_refs c) (fst p) of Some ref \<Rightarrow> ref | None \<Rightarrow> source_ref_of bus (dv_device c) (dm_name (dv_message c)) (fst p), snd p)"

text \<open>The loop over the messages that know the frame: the values, the failures and the decoder.\<close>

fun decode_candidates :: "cantools \<Rightarrow> string \<Rightarrow> device_message list \<Rightarrow> can_decoder \<Rightarrow> (string \<times> sample_value) list \<times> nat \<times> can_decoder" where
  "decode_candidates ct data [] d = ([], 0, d)"
| "decode_candidates ct data (c # cs) d = (case ct (dv_message c) data of
     None \<Rightarrow> (case decode_candidates ct data cs (report_malformed c d) of (vs, n, d1) \<Rightarrow> (vs, Suc n, d1))
   | Some ps \<Rightarrow> (case decode_candidates ct data cs d of (vs, n, d1) \<Rightarrow> (map (named_value (cd_bus_name d) c) ps @ vs, n, d1)))"

definition can_decode :: "cantools \<Rightarrow> can_frame \<Rightarrow> can_decoder \<Rightarrow> (string \<times> sample_value) list \<times> can_decoder" where
  [op_defs]: "can_decode ct f d0 =
     (let d = d0\<lparr>cd_stats := (cd_stats d0)\<lparr>cs_frames := cs_frames (cd_stats d0) + 1\<rparr>\<rparr>; s = cd_stats d;
          key = (cf_arbitration_id f, cf_is_extended_id f)
      in if cf_is_error f \<or> cf_is_remote f then ([], d\<lparr>cd_stats := s\<lparr>cs_malformed := cs_malformed s + 1\<rparr>\<rparr>)
         else case map_of (cd_by_frame d) key of
             None \<Rightarrow> ([], report_unknown key (d\<lparr>cd_stats := s\<lparr>cs_unknown := cs_unknown s + 1\<rparr>\<rparr>))
           | Some cs \<Rightarrow>
               (case decode_candidates ct (cf_data f) cs d of (vs, failures, d1) \<Rightarrow>
                 (vs, d1\<lparr>cd_stats := (if failures = length cs then s\<lparr>cs_malformed := cs_malformed s + 1\<rparr> else s\<lparr>cs_decoded := cs_decoded s + 1\<rparr>)
                    \<lparr>cs_samples := cs_samples s + length vs\<rparr>\<rparr>)))"

section \<open>The collector\<close>

record can_collector =
  cc_decoder :: can_decoder
  cc_clock :: frame_clock
  cc_emitted :: "sample list"

definition collector_new :: "string \<Rightarrow> (string \<times> dbc_message list) list \<Rightarrow> can_collector" where
  "collector_new bus dbcs = \<lparr>cc_decoder = decoder_new bus dbcs, cc_clock = clock_reset, cc_emitted = []\<rparr>"

definition handle_message :: "cantools \<Rightarrow> (int \<Rightarrow> real) \<Rightarrow> int \<Rightarrow> can_frame \<Rightarrow> can_collector \<Rightarrow> can_collector" where
  [op_defs]: "handle_message ct wall now f c =
     (case to_mono_ns now (cf_timestamp f) (cc_clock c) of (t, k) \<Rightarrow>
       (case can_decode ct f (cc_decoder c) of (vs, d) \<Rightarrow>
         c\<lparr>cc_decoder := d, cc_clock := k,
           cc_emitted := cc_emitted c @ map (\<lambda>(ref, v). \<lparr>source_ref = ref, t_mono_ns = t, t_wall_ms = wall t, svalue = v\<rparr>) vs\<rparr>))"

text \<open>The reading loop: a frame with the clock it is handled at, or a new connection, which drops the anchor.\<close>

datatype bus_event = Frame int can_frame | Reconnect

fun bus_step :: "cantools \<Rightarrow> (int \<Rightarrow> real) \<Rightarrow> bus_event \<Rightarrow> can_collector \<Rightarrow> can_collector" where
  "bus_step ct wall (Frame now f) c = handle_message ct wall now f c"
| "bus_step ct wall Reconnect c = c\<lparr>cc_clock := clock_reset\<rparr>"

section \<open>The index decodes what a scan of every DBC would\<close>

definition matching :: "(string \<times> dbc_message list) list \<Rightarrow> can_frame \<Rightarrow> (string \<times> dbc_message) list" where
  "matching dbcs f = filter (\<lambda>(device, m). message_key m = (cf_arbitration_id f, cf_is_extended_id f)) (dbc_messages dbcs)"

text \<open>The reference: every message of every DBC in order, tried on the frame if its identifier matches.\<close>

definition scan_message :: "cantools \<Rightarrow> string \<Rightarrow> string \<Rightarrow> string \<times> dbc_message \<Rightarrow> (string \<times> sample_value) list" where
  "scan_message ct bus data dm = (case dm of (device, m) \<Rightarrow> (case ct m data of
     None \<Rightarrow> []
   | Some ps \<Rightarrow> map (\<lambda>(n, v). (source_ref_of bus device (dm_name m) n, v)) ps))"

definition scan_frame :: "cantools \<Rightarrow> string \<Rightarrow> (string \<times> dbc_message list) list \<Rightarrow> can_frame \<Rightarrow> (string \<times> sample_value) list" where
  "scan_frame ct bus dbcs f =
     (if cf_is_error f \<or> cf_is_remote f then [] else concat (map (scan_message ct bus (cf_data f)) (matching dbcs f)))"

lemma source_refs_fold:
  "map_of (fold (\<lambda>s refs. AList.update s (g s) refs) ss refs) n = (if n \<in> set ss then Some (g n) else map_of refs n)"
  by (induction ss arbitrary: refs) (simp_all add: update_conv')

lemma named_value_ref: "named_value bus (device_message_of bus device m) (n, v) = (source_ref_of bus device (dm_name m) n, v)"
  by (simp add: named_value_def device_message_of_def source_refs_fold)

lemma named_values:
  "map (named_value bus (device_message_of bus device m)) ps = map (\<lambda>(n, v). (source_ref_of bus device (dm_name m) n, v)) ps"
  by (induction ps) (auto simp: named_value_ref)

lemma index_lookup:
  "map_of (fold (add_message bus) ms index) key =
     (let known = filter (\<lambda>(device, m). message_key m = key) ms in
      case map_of index key of
        None \<Rightarrow> if known = [] then None else Some (map (\<lambda>(device, m). device_message_of bus device m) known)
      | Some cs \<Rightarrow> Some (cs @ map (\<lambda>(device, m). device_message_of bus device m) known))"
proof (induction ms arbitrary: index)
  case (Cons dm ms)
  obtain device m where dm: "dm = (device, m)" by (rule prod.exhaust)
  show ?case unfolding fold_simps comp_apply Cons[of "add_message bus dm index"]
    by (auto simp: dm add_message_def update_conv' Let_def split: option.splits)
qed (simp split: option.splits)

lemma index_new:
  "map_of (cd_by_frame (decoder_new bus dbcs)) (cf_arbitration_id f, cf_is_extended_id f) =
     (if matching dbcs f = [] then None else Some (map (\<lambda>(device, m). device_message_of bus device m) (matching dbcs f)))"
  by (simp add: decoder_new_def index_lookup matching_def Let_def)

lemma report_malformed_fields [simp]:
  "cd_bus_name (report_malformed c d) = cd_bus_name d" "cd_stats (report_malformed c d) = cd_stats d" "cd_by_frame (report_malformed c d) = cd_by_frame d"
  "cd_reported_unknown (report_malformed c d) = cd_reported_unknown d"
  by (simp_all add: report_malformed_def Let_def)

lemma decode_candidates_scan:
  assumes "cd_bus_name d = bus" "decode_candidates ct data (map (\<lambda>(device, m). device_message_of bus device m) ms) d = (vs, n, d1)"
  shows "vs = concat (map (scan_message ct bus data) ms) \<and> n = length (filter (\<lambda>(device, m). ct m data = None) ms)
    \<and> cd_bus_name d1 = bus \<and> cd_stats d1 = cd_stats d \<and> cd_by_frame d1 = cd_by_frame d \<and> cd_reported_unknown d1 = cd_reported_unknown d"
  using assms
proof (induction ms arbitrary: d vs n d1)
  case (Cons dm ms)
  obtain device m where dm: "dm = (device, m)" by (rule prod.exhaust)
  have dv: "dv_message (device_message_of bus device m) = m" by (simp add: device_message_of_def)
  show ?case
  proof (cases "ct m data")
    case None
    obtain vs1 n1 d2 where r: "decode_candidates ct data (map (\<lambda>(device, m). device_message_of bus device m) ms) (report_malformed (device_message_of bus device m) d) = (vs1, n1, d2)"
      by (metis prod.exhaust)
    show ?thesis using Cons.IH[OF _ r] Cons.prems None r by (simp add: dm dv scan_message_def)
  next
    case (Some ps)
    obtain vs1 n1 d2 where r: "decode_candidates ct data (map (\<lambda>(device, m). device_message_of bus device m) ms) d = (vs1, n1, d2)" by (metis prod.exhaust)
    show ?thesis using Cons.IH[OF _ r] Cons.prems Some r by (auto simp: dm dv scan_message_def named_values)
  qed
qed simp

definition frames_of :: "bus_event list \<Rightarrow> can_frame list" where
  "frames_of es = concat (map (\<lambda>e. case e of Frame _ f \<Rightarrow> [f] | Reconnect \<Rightarrow> []) es)"

definition unknown_frame :: "(string \<times> dbc_message list) list \<Rightarrow> can_frame \<Rightarrow> bool" where
  "unknown_frame dbcs f \<longleftrightarrow> \<not> cf_is_error f \<and> \<not> cf_is_remote f \<and> matching dbcs f = []"

definition malformed_frame :: "cantools \<Rightarrow> (string \<times> dbc_message list) list \<Rightarrow> can_frame \<Rightarrow> bool" where
  "malformed_frame ct dbcs f \<longleftrightarrow> cf_is_error f \<or> cf_is_remote f \<or> (matching dbcs f \<noteq> [] \<and> list_all (\<lambda>(device, m). ct m (cf_data f) = None) (matching dbcs f))"

definition can_inv :: "cantools \<Rightarrow> string \<Rightarrow> (string \<times> dbc_message list) list \<Rightarrow> can_frame list \<Rightarrow> can_collector \<Rightarrow> bool" where
  [inv_defs]: "can_inv ct bus dbcs fs c \<longleftrightarrow>
     (let d = cc_decoder c; s = cd_stats d in
      cd_bus_name d = bus \<and> cd_by_frame d = cd_by_frame (decoder_new bus dbcs)
      \<and> map (\<lambda>x. (source_ref x, svalue x)) (cc_emitted c) = concat (map (scan_frame ct bus dbcs) fs)
      \<and> cs_frames s = length fs \<and> cs_unknown s = length (filter (unknown_frame dbcs) fs) \<and> cs_malformed s = length (filter (malformed_frame ct dbcs) fs)
      \<and> cs_decoded s + cs_unknown s + cs_malformed s = length fs \<and> cs_samples s = length (cc_emitted c)
      \<and> length (cd_reported_unknown d) \<le> MAX_TRACKED_UNKNOWN_IDS)"

lemma length_filter_all: "length (filter P xs) = length xs \<longleftrightarrow> list_all P xs"
  unfolding list_all_iff by (metis filter_True length_filter_less less_irrefl)

lemma can_decode_scan:
  assumes "cd_bus_name d = bus" "cd_by_frame d = cd_by_frame (decoder_new bus dbcs)" "can_decode ct f d = (vs, d1)"
  shows "vs = scan_frame ct bus dbcs f \<and> cd_bus_name d1 = bus \<and> cd_by_frame d1 = cd_by_frame d
    \<and> (length (cd_reported_unknown d) \<le> MAX_TRACKED_UNKNOWN_IDS \<longrightarrow> length (cd_reported_unknown d1) \<le> MAX_TRACKED_UNKNOWN_IDS)
    \<and> cs_frames (cd_stats d1) = cs_frames (cd_stats d) + 1 \<and> cs_samples (cd_stats d1) = cs_samples (cd_stats d) + length vs
    \<and> cs_unknown (cd_stats d1) = cs_unknown (cd_stats d) + of_bool (unknown_frame dbcs f)
    \<and> cs_malformed (cd_stats d1) = cs_malformed (cd_stats d) + of_bool (malformed_frame ct dbcs f)
    \<and> cs_decoded (cd_stats d1) + of_bool (unknown_frame dbcs f) + of_bool (malformed_frame ct dbcs f) = cs_decoded (cd_stats d) + 1"
proof (cases "cf_is_error f \<or> cf_is_remote f \<or> matching dbcs f = []")
  case True
  then show ?thesis
    using assms index_new[of bus dbcs f]
    by (auto simp: can_decode_def scan_frame_def report_unknown_def unknown_frame_def malformed_frame_def Let_def split: if_splits)
next
  case False
  let ?d = "d\<lparr>cd_stats := (cd_stats d)\<lparr>cs_frames := cs_frames (cd_stats d) + 1\<rparr>\<rparr>" and ?ms = "matching dbcs f"
  obtain ws n d2 where r: "decode_candidates ct (cf_data f) (map (\<lambda>(device, m). device_message_of bus device m) ?ms) ?d = (ws, n, d2)" by (metis prod.exhaust)
  have s: "ws = concat (map (scan_message ct bus (cf_data f)) ?ms) \<and> n = length (filter (\<lambda>(device, m). ct m (cf_data f) = None) ?ms)
    \<and> cd_bus_name d2 = bus \<and> cd_stats d2 = cd_stats ?d \<and> cd_by_frame d2 = cd_by_frame ?d \<and> cd_reported_unknown d2 = cd_reported_unknown ?d"
    by (rule decode_candidates_scan[OF _ r]) (simp add: assms(1))
  have all: "n = length ?ms \<longleftrightarrow> list_all (\<lambda>(device, m). ct m (cf_data f) = None) ?ms"
    using s by (simp add: length_filter_all)
  have "can_decode ct f d = (ws, d2\<lparr>cd_stats := (if n = length ?ms then (cd_stats ?d)\<lparr>cs_malformed := cs_malformed (cd_stats ?d) + 1\<rparr>
      else (cd_stats ?d)\<lparr>cs_decoded := cs_decoded (cd_stats ?d) + 1\<rparr>)\<lparr>cs_samples := cs_samples (cd_stats ?d) + length ws\<rparr>\<rparr>)"
    using False index_new[of bus dbcs f] assms(2) r by (simp add: can_decode_def Let_def)
  from trans[OF assms(3)[symmetric] this] have r2: "vs = ws" "d1 = d2\<lparr>cd_stats := (if n = length ?ms then (cd_stats ?d)\<lparr>cs_malformed := cs_malformed (cd_stats ?d) + 1\<rparr>
      else (cd_stats ?d)\<lparr>cs_decoded := cs_decoded (cd_stats ?d) + 1\<rparr>)\<lparr>cs_samples := cs_samples (cd_stats ?d) + length ws\<rparr>\<rparr>" by (simp_all only: prod.inject)
  have "unknown_frame dbcs f = False" "malformed_frame ct dbcs f = (n = length ?ms)" "scan_frame ct bus dbcs f = ws"
    using False all s by (simp_all add: unknown_frame_def malformed_frame_def scan_frame_def)
  then show ?thesis using s by (simp add: r2)
qed

lemma bus_step_inv:
  assumes "can_inv ct bus dbcs fs c"
  shows "can_inv ct bus dbcs (fs @ frames_of [e]) (bus_step ct wall e c)"
proof (cases e)
  case (Frame now f)
  obtain t k where t: "to_mono_ns now (cf_timestamp f) (cc_clock c) = (t, k)" by (rule prod.exhaust)
  obtain vs d1 where d: "can_decode ct f (cc_decoder c) = (vs, d1)" by (rule prod.exhaust)
  have "map (\<lambda>x. (source_ref x, svalue x)) (map (\<lambda>(ref, v). \<lparr>source_ref = ref, t_mono_ns = t, t_wall_ms = wall t, svalue = v\<rparr>) vs) = vs"
    by (induction vs) auto
  then show ?thesis using assms can_decode_scan[OF _ _ d, of bus dbcs]
    by (auto simp: can_inv_def handle_message_def frames_of_def Frame t d Let_def)
next
  case Reconnect
  then show ?thesis using assms by (simp add: can_inv_def frames_of_def)
qed

text \<open>
  C39. Whatever frames arrive and however often the bus reconnects, the collector emits exactly the signals a scan of every DBC of the bus in order would give: each message whose
  identifier and format match the frame is decoded on its own, a device's failure costs only its own signals, and every sample carries the name of its bus, device, message and signal. Each frame is
  counted once: unknown exactly when no DBC has it, malformed exactly when it is an error or remote frame or every message that knows it fails, decoded otherwise; and the identifiers it remembers for its log are bounded.
\<close>
theorem can_scan_equivalent:
  "can_inv ct bus dbcs (frames_of es) (fold (bus_step ct wall) es (collector_new bus dbcs))"
proof -
  have "can_inv ct bus dbcs (fs @ frames_of es) (fold (bus_step ct wall) es c)" if "can_inv ct bus dbcs fs c" for fs c
    using that
  proof (induction es arbitrary: fs c)
    case (Cons e es)
    from Cons.IH[OF bus_step_inv[OF Cons.prems, of e wall]] show ?case by (simp add: frames_of_def)
  qed (simp add: frames_of_def)
  from this[of "[]" "collector_new bus dbcs"] show ?thesis
    by (simp add: can_inv_def collector_new_def decoder_new_def MAX_TRACKED_UNKNOWN_IDS_def)
qed

section \<open>What a step of the wall clock does to the stamps\<close>

text \<open>The stamps of the frames of one connection, each handled at a monotonic time and carrying its timestamp.\<close>

fun stamps :: "frame_clock \<Rightarrow> (int \<times> real) list \<Rightarrow> int list" where
  "stamps k [] = []"
| "stamps k ((now, ts) # fs) = (case to_mono_ns now ts k of (t, k1) \<Rightarrow> t # stamps k1 fs)"

text \<open>The kernel's timestamp in seconds of a frame at monotonic time \<open>m\<close> when the wall clock is \<open>off\<close> ahead, in nanoseconds.\<close>

definition kernel_ts :: "int \<Rightarrow> int \<Rightarrow> real" where
  "kernel_ts m off = of_int (m + off) / 1000000000"

lemma kernel_ts_diff: "py_round ((kernel_ts m off - kernel_ts m0 off0) * 1000000000) = (m - m0) + (off - off0)"
proof -
  have "(kernel_ts m off - kernel_ts m0 off0) * 1000000000 = of_int ((m - m0) + (off - off0))"
    by (simp add: kernel_ts_def field_simps)
  then show ?thesis by (simp only: py_round_of_int)
qed

lemma kernel_ts_nonzero: "m + off \<noteq> 0 \<Longrightarrow> kernel_ts m off \<noteq> 0"
  by (simp add: kernel_ts_def)

lemma anchored_stamps:
  "list_all (\<lambda>(now, m, off). m + off \<noteq> 0) fs \<Longrightarrow>
   stamps \<lparr>fk_epoch_ref = Some (kernel_ts m0 off0), fk_mono_ref = now0\<rparr> (map (\<lambda>(now, m, off). (now, kernel_ts m off)) fs) =
     map (\<lambda>(now, m, off). now0 + (m - m0) + (off - off0)) fs"
proof (induction fs)
  case (Cons f fs)
  obtain now m off where f: "f = (now, m, off)" by (metis prod.exhaust)
  show ?case using Cons kernel_ts_nonzero[of m off] kernel_ts_diff[of m off m0 off0] by (simp add: f to_mono_ns_def left_diff_distrib)
qed simp



end
