(* ===== verification/Spec2Isabelle.thy ===== *)
theory Spec2Isabelle
  imports Sample_Queue Registry_Cache Publisher Lap_Path Session_State Race_Plan Strategy Framing Limiter Extrapolator Ingest_Writer
    Watch_Engine Notifier_Outage Field_Shapes Um980 Rawlog Can_Collector
begin

text \<open>
  \<^bold>\<open>openlaps: a verification library for the telemetry and lap-timing core.\<close>

  \<^bold>\<open>The program.\<close> An agent on the car collects samples (CAN, GNSS, host), filters them, batches
  them into protobuf messages and publishes them to a local JetStream broker; a lap-timing app taps
  the sample stream and derives lap events. At the pit, services read the stream: a decoder turns
  batches back into samples with the registry of their generation, a materialiser folds lap events
  into lap rows, and live views, strategy, timing feeds and alerting are built on these.

  \<^bold>\<open>The theories.\<close>

  \<^item> \<open>Prelude\<close>: the theorem collections \<open>op_defs\<close> and \<open>inv_defs\<close>, results \<open>'a res\<close> with Python
    exceptions as values, generic lemmas on lists, association lists and folds, and the locales
    \<open>step_machine\<close>, whose interpretations carry an invariant over every run of an operation,
    \<open>guarded_machine\<close> for runs whose environment keeps a contract, and \<open>ledger\<close> for conserved quantities.
  \<^item> \<open>Py_Values\<close>: Python values: floats with non-finite cases, rounding, JSON.
  \<^item> \<open>Rbe\<close> (\<open>core/rbe.py\<close>): the report-by-exception filter and what its consumer sees.
  \<^item> \<open>Nmea\<close>, \<open>Um980\<close> (\<open>collectors/serial\<close>): sentences of the GNSS receiver to samples in range, what the checksum
    catches and what it does not, and the start-up dialogue with the receiver.
  \<^item> \<open>Can_Collector\<close> (\<open>collectors/can.py\<close>): frames to signals, equivalent to a scan of every DBC, and the frame clock.
  \<^item> \<open>Rawlog\<close> (\<open>collectors/rawlog.py\<close>): raw capture segments and what a power cut can lose.
  \<^item> \<open>Sample_Queue\<close> (\<open>agent/queues.py\<close>): the bounded drop-oldest queue from collectors to pipeline.
  \<^item> \<open>Catalog\<close> (\<open>core/catalog.py\<close>): channel ids, policies, the registry and its generation.
  \<^item> \<open>Batcher\<close> (\<open>core/batcher.py\<close>) and \<open>Registry_Cache\<close> (\<open>pit/registry_cache.py\<close>): both ends of the
    wire format of \<open>proto/telemetry.proto\<close>, and that decoding undoes encoding.
  \<^item> \<open>Pipeline\<close> (\<open>agent/pipeline.py\<close>): ingest with derived taps and the tick flush, refined to a
    specification by windows.
  \<^item> \<open>Publisher\<close> (\<open>agent/publisher.py\<close>): the byte-bounded buffer and the window of unacknowledged
    batches, as a step machine over submissions, acknowledgements and failures.
  \<^item> \<open>Timing_Core\<close> (\<open>timing/timing_core.py\<close>): line crossings, sectors, laps, pit lane.
  \<^item> \<open>Lap_Distance\<close> (\<open>timing/distance_model.py\<close>, \<open>timing/reference_lap.py\<close>): distance along a lap and
    the delta against the best lap.
  \<^item> \<open>Timing_App\<close> (\<open>agent/timing_app.py\<close>): the tap that drives the timing engine.
  \<^item> \<open>Lap_Materialiser\<close> (\<open>pit/ingest_writer/laps.py\<close>): lap events to lap rows.
  \<^item> \<open>Ingest_Store\<close>, \<open>Ingest_Writer\<close> (\<open>pit/ingest_writer/store.py\<close>, \<open>writer.py\<close>): the durable consumer that
    writes samples and laps to the database. Every batch is stored exactly once as long as delivery is in
    order, through outages, refusals and restarts; three runs outside this contract lose or repeat rows.
  \<^item> \<open>Lap_Path\<close>: a lap from the engine on the car to the row at the pit.
  \<^item> \<open>Session_State\<close> (\<open>pit/session_control/state.py\<close>): sessions, stints and driver changes; the stored
    dictionary restores the state, and the stints tile the session.
  \<^item> \<open>Race_Plan\<close> (\<open>pit/session_control/plan.py\<close>): validation of a submitted race plan.
  \<^item> \<open>Strategy_Model\<close>, \<open>Strategy\<close> (\<open>pit/strategy/model.py\<close>): the strategy evaluation, and its bounds, pit
    window and simulated stop plan.
  \<^item> \<open>Framing\<close> (\<open>pit/timing_feed/framing.py\<close>): the packet framing of the timing feed, both directions.
  \<^item> \<open>Websocket\<close> (\<open>pit/timing_feed/websocket.py\<close>): frames and messages of the Timing71 endpoint.
  \<^item> \<open>Field_State\<close> (\<open>model.py\<close>), \<open>Field_Service\<close> (\<open>service.py\<close>, \<open>database.py\<close>, \<open>reconcile.py\<close>, \<open>capture.py\<close>): the
    standings of the field and the rows each document changes, refined to the view the pit reads; writing them, and the
    reconciliation of our own car, with what a failed transaction leaves behind.
  \<^item> \<open>Field_Shapes\<close> (\<open>shapes.py\<close>, \<open>ingest.py\<close>): a relay's snapshots and Timing71 messages, from the request to the standings.
  \<^item> \<open>Limiter\<close> (\<open>pit/live_decoder/limiter.py\<close>, \<open>config.py\<close>): the conflating rate limiter of the live view.
  \<^item> \<open>Extrapolator\<close> (\<open>pit/timing_extrapolator/engine.py\<close>, parts of \<open>service.py\<close>, \<open>pit/timing_display.py\<close>):
    the pit's running clocks, their outbox and their display.

  \<^item> \<open>Session_Database\<close> (\<open>pit/session_control/database.py\<close>): session snapshots and race plans in the database,
    the durable retry queue and the reconnect loop; every accepted snapshot is in the tables or queued.
  \<^item> \<open>Session_Publisher\<close> (\<open>publisher.py\<close>): the latest-value sender as a step machine over its awaits.
  \<^item> \<open>Session_Control\<close> (\<open>service.py\<close>): state file, roster and controller; an action takes effect everywhere or
    nowhere, and file, tables and topic converge to the controller's state.
  \<^item> \<open>Session_Http\<close> (\<open>service.py\<close>): the HTTP handlers; which requests reach the controller and what they answer.
  \<^item> \<open>Watch_Monitors\<close>, \<open>Watch_Engine\<close> (\<open>pit/watch\<close>): the monitors over telemetry behind one contract
    \<open>finding_monitor\<close>, their checkpoints, and the engine and consumer that drive them second by second.
  \<^item> \<open>Alert_Book\<close>, \<open>Dispatcher\<close>, \<open>Notifier\<close>, \<open>Notifier_Outage\<close> (\<open>pit/notifier\<close>): alert parsing and the
    acknowledgement book as an automaton per alert, the fan-out with its retry queue and its accounting, the
    service with its ledger and handlers, and what an outage of a push channel does to it.

  \<^bold>\<open>Conventions.\<close> A class is a record whose fields carry a prefix, a dict whose order matters is an
  association list updated with \<open>AList.update\<close>, other dicts are maps. Python floats are reals, so
  rounding error is not modelled; where the code can see infinities or NaN they are the type \<open>flt\<close>.
  A raise is a value of \<open>exn\<close>. An aware datetime is its epoch seconds and bytes are characters of their code.
  A region under a lock is one step, so an interleaving of threads is
  a list of steps. Loops are structurally recursive or have a measure; the re-entrant \<open>ingest\<close> takes
  a level bound, and three levels are proved to be enough for taps that do not feed themselves.

  \<^bold>\<open>Not modelled.\<close> Device, socket, HTTP and SQL input and output, YAML loading, the NATS client,
  the numerical sensor fusion and the watch's matrix regression, most health endpoints, command-line tools
  and process start-up.
\<close>

end
